(* ===== verification/Prelude.thy ===== *)
theory Prelude
  imports Main "HOL-Library.Word" "HOL-Library.Multiset"
begin

text \<open>
  The vocabulary that every component theory shares.

  \<^item> Rust's fixed-width integers. The kernel is built with \<^verbatim>\<open>cargo build\<close> (the debug profile, see
    \<^verbatim>\<open>run_qemu.sh\<close>), so an overflowing \<open>+\<close>, \<open>-\<close> or \<open>*\<close> panics instead of wrapping.
    A \<^verbatim>\<open>usize\<close> that is only used as a count, an index or an address is a \<open>nat\<close> together with
    the checked operations \<open>usize_add\<close>, \<open>usize_sub\<close>, \<open>usize_mul\<close> that panic exactly where the
    debug build does. Registers and packed structures keep their width as \<open>word\<close>s.
  \<^item> Panics. A Rust function that may panic returns a value of \<open>'a res\<close>: \<open>Inr v\<close> is a normal
    return, \<open>Inl p\<close> says why the kernel panicked (\<^verbatim>\<open>panic-strategy\<close> is \<^verbatim>\<open>abort\<close>, so nothing
    continues after it). \<open>UndefinedBehaviour\<close> is not a panic of the source: it marks the points where
    an \<^verbatim>\<open>unsafe\<close> block would leave the language's defined behaviour. \<open>rbind\<close> sequences such computations, \<open>foldM\<close> is the \<^verbatim>\<open>for\<close> loop
    over a finite range.
  \<^item> The \<open>named_theorems\<close> collections that carry the component proofs.
\<close>

section \<open>Machine integers\<close>

type_synonym u8 = "8 word"
type_synonym u16 = "16 word"
type_synonym u32 = "32 word"
type_synonym u64 = "64 word"
type_synonym addr = nat

unbundle bit_operations_syntax

section \<open>Panics and results\<close>

datatype panic =
    AssertFailed
  | IndexOutOfBounds
  | ArithOverflow
  | UnwrapNone
  | LengthMismatch
  | Unimplemented
  | ExplicitPanic
  | UndefinedBehaviour

type_synonym 'a res = "panic + 'a"

definition rbind :: "'e + 'a \<Rightarrow> ('a \<Rightarrow> 'e + 'b) \<Rightarrow> 'e + 'b" where
  "rbind m f = (case m of Inl p \<Rightarrow> Inl p | Inr x \<Rightarrow> f x)"

definition rassert :: "bool \<Rightarrow> unit res" where
  "rassert b = (if b then Inr () else Inl AssertFailed)"

definition unwrap :: "'a option \<Rightarrow> 'a res" where
  "unwrap x = (case x of None \<Rightarrow> Inl UnwrapNone | Some v \<Rightarrow> Inr v)"

definition index :: "'a list \<Rightarrow> nat \<Rightarrow> 'a res" where
  "index xs i = (if i < length xs then Inr (xs ! i) else Inl IndexOutOfBounds)"

definition store :: "'a list \<Rightarrow> nat \<Rightarrow> 'a \<Rightarrow> 'a list res" where
  "store xs i v = (if i < length xs then Inr (xs[i := v]) else Inl IndexOutOfBounds)"

text \<open>The collection of the facts that compute results of the panic monad.\<close>

named_theorems res_simps "evaluation of panicking computations"

lemma rbind_Inr [simp, res_simps]: "rbind (Inr x) f = f x"
  by (simp add: rbind_def)

lemma rbind_Inl [simp, res_simps]: "rbind (Inl p) f = Inl p"
  by (simp add: rbind_def)

lemma rbind_eq_Inr [simp]: "rbind m f = Inr y \<longleftrightarrow> (\<exists>x. m = Inr x \<and> f x = Inr y)"
  by (cases m) auto

lemma rbind_eq_Inl:
  "rbind m f = Inl p \<longleftrightarrow> m = Inl p \<or> (\<exists>x. m = Inr x \<and> f x = Inl p)"
  by (cases m) auto

lemma rbind_cong [fundef_cong]:
  "\<lbrakk>m = m'; \<And>x. m' = Inr x \<Longrightarrow> f x = g x\<rbrakk> \<Longrightarrow> rbind m f = rbind m' g"
  by (cases m') auto

lemma rbind_assoc [simp]: "rbind (rbind m f) g = rbind m (\<lambda>x. rbind (f x) g)"
  by (cases m) auto

lemma rbind_return [simp]: "rbind m Inr = m"
  by (cases m) auto

lemma rassert_eq_Inr [simp]: "rassert b = Inr u \<longleftrightarrow> b"
  by (simp add: rassert_def)

lemma rassert_True [simp, res_simps]: "rassert True = Inr ()"
  by (simp add: rassert_def)

lemma rassert_False [simp, res_simps]: "rassert False = Inl AssertFailed"
  by (simp add: rassert_def)

lemma unwrap_simps [simp, res_simps]:
  "unwrap None = Inl UnwrapNone"
  "unwrap (Some v) = Inr v"
  by (simp_all add: unwrap_def)

lemma unwrap_eq_Inr [simp]: "unwrap x = Inr v \<longleftrightarrow> x = Some v"
  by (cases x) auto

lemma index_eq_Inr: "index xs i = Inr v \<longleftrightarrow> i < length xs \<and> v = xs ! i"
  by (auto simp: index_def)

lemma index_in [res_simps]: "i < length xs \<Longrightarrow> index xs i = Inr (xs ! i)"
  by (simp add: index_def)

lemma store_eq_Inr: "store xs i v = Inr ys \<longleftrightarrow> i < length xs \<and> ys = xs[i := v]"
  by (auto simp: store_def)

lemma store_in [res_simps]: "i < length xs \<Longrightarrow> store xs i v = Inr (xs[i := v])"
  by (simp add: store_def)

section \<open>Checked usize arithmetic\<close>

definition usize_bound :: nat where
  "usize_bound = 2 ^ 64"

definition usize_add :: "nat \<Rightarrow> nat \<Rightarrow> nat res" where
  "usize_add a b = (if a + b < usize_bound then Inr (a + b) else Inl ArithOverflow)"

definition usize_sub :: "nat \<Rightarrow> nat \<Rightarrow> nat res" where
  "usize_sub a b = (if b \<le> a then Inr (a - b) else Inl ArithOverflow)"

definition usize_mul :: "nat \<Rightarrow> nat \<Rightarrow> nat res" where
  "usize_mul a b = (if a * b < usize_bound then Inr (a * b) else Inl ArithOverflow)"

lemma usize_add_eq_Inr [simp]: "usize_add a b = Inr c \<longleftrightarrow> a + b < usize_bound \<and> c = a + b"
  by (auto simp: usize_add_def)

lemma usize_sub_eq_Inr [simp]: "usize_sub a b = Inr c \<longleftrightarrow> b \<le> a \<and> c = a - b"
  by (auto simp: usize_sub_def)

lemma usize_mul_eq_Inr [simp]: "usize_mul a b = Inr c \<longleftrightarrow> a * b < usize_bound \<and> c = a * b"
  by (auto simp: usize_mul_def)

lemma usize_add_in [res_simps]: "a + b < usize_bound \<Longrightarrow> usize_add a b = Inr (a + b)"
  by simp

lemma usize_sub_in [res_simps]: "b \<le> a \<Longrightarrow> usize_sub a b = Inr (a - b)"
  by simp

lemma usize_mul_in [res_simps]: "a * b < usize_bound \<Longrightarrow> usize_mul a b = Inr (a * b)"
  by simp

section \<open>The for loop of the panic monad\<close>

fun foldM :: "('a \<Rightarrow> 's \<Rightarrow> 'e + 's) \<Rightarrow> 'a list \<Rightarrow> 's \<Rightarrow> 'e + 's" where
  "foldM f [] s = Inr s"
| "foldM f (x # xs) s = rbind (f x s) (foldM f xs)"

lemma foldM_map: "foldM f (map g xs) s = foldM (\<lambda>x. f (g x)) xs s"
  by (induction xs arbitrary: s) (simp_all cong: rbind_cong)

lemma foldM_append: "foldM f (xs @ ys) s = rbind (foldM f xs s) (foldM f ys)"
  by (induction xs arbitrary: s) (auto simp: rbind_def split: sum.splits)

lemma foldM_cong [fundef_cong]:
  "\<lbrakk>xs = ys; s = t; \<And>x u. x \<in> set ys \<Longrightarrow> f x u = g x u\<rbrakk> \<Longrightarrow> foldM f xs s = foldM g ys t"
  by (induction ys arbitrary: xs s t) (auto simp: rbind_def split: sum.splits)

text \<open>
  Total correctness of a \<^verbatim>\<open>for\<close> loop: when the body returns on every state that satisfies the
  invariant for the elements already visited, and re-establishes the invariant for one more
  element, the loop returns and the invariant holds for the whole list.
\<close>

lemma foldM_rule:
  assumes init: "I [] s"
    and step: "\<And>done x todo t. \<lbrakk>xs = done @ x # todo; I done t\<rbrakk> \<Longrightarrow>
                 \<exists>t'. f x t = Inr t' \<and> I (done @ [x]) t'"
  shows "\<exists>s'. foldM f xs s = Inr s' \<and> I xs s'"
proof -
  have "\<exists>s'. foldM f todo t = Inr s' \<and> I xs s'" if "xs = done @ todo" "I done t" for "done" todo t
    using that
  proof (induction todo arbitrary: "done" t)
    case Nil
    then show ?case by simp
  next
    case (Cons x todo)
    from step [OF Cons.prems] obtain t' where "f x t = Inr t'" "I (done @ [x]) t'" by blast
    with Cons.IH [of "done @ [x]" t'] Cons.prems(1) show ?case by simp
  qed
  from this [of "[]" xs s] init show ?thesis by simp
qed

text \<open>Partial correctness: an invariant that every returning iteration keeps.\<close>

lemma foldM_invariant:
  assumes "foldM f xs s = Inr s'" and "I s"
    and "\<And>x t t'. \<lbrakk>x \<in> set xs; I t; f x t = Inr t'\<rbrakk> \<Longrightarrow> I t'"
  shows "I s'"
  using assms by (induction xs arbitrary: s) auto

text \<open>A loop whose body never panics is the plain fold.\<close>

lemma foldM_fold:
  assumes "\<And>x t. x \<in> set xs \<Longrightarrow> f x t = Inr (g x t)"
  shows "foldM f xs s = Inr (fold g xs s)"
  using assms by (induction xs arbitrary: s) auto

section \<open>Computations with unbounded loops\<close>

text \<open>
  A loop whose end is not evident from its text is a \<open>partial_function (option)\<close>: \<open>None\<close> is a run that
  never returns, \<open>Some (Inl p)\<close> a panic. \<open>cbind\<close> sequences such computations.
\<close>

definition cbind :: "('e + 'a) option \<Rightarrow> ('a \<Rightarrow> ('e + 'b) option) \<Rightarrow> ('e + 'b) option" where
  "cbind m f = (case m of None \<Rightarrow> None | Some (Inl p) \<Rightarrow> Some (Inl p) | Some (Inr x) \<Rightarrow> f x)"

lemma cbind_simps [simp, res_simps]:
  "cbind None f = None"
  "cbind (Some (Inl p)) f = Some (Inl p)"
  "cbind (Some (Inr x)) f = f x"
  by (simp_all add: cbind_def)

lemma cbind_eq_Inr [simp]:
  "cbind m f = Some (Inr y) \<longleftrightarrow> (\<exists>x. m = Some (Inr x) \<and> f x = Some (Inr y))"
  by (auto simp: cbind_def split: option.splits sum.splits)

fun cfoldM :: "('a \<Rightarrow> 's \<Rightarrow> ('e + 's) option) \<Rightarrow> 'a list \<Rightarrow> 's \<Rightarrow> ('e + 's) option" where
  "cfoldM f [] s = Some (Inr s)"
| "cfoldM f (x # xs) s = cbind (f x s) (cfoldM f xs)"

lemma cfoldM_append: "cfoldM f (xs @ ys) s = cbind (cfoldM f xs s) (cfoldM f ys)"
  by (induction xs arbitrary: s) (auto simp: cbind_def split: option.splits sum.splits)

lemma cfoldM_invariant:
  assumes "cfoldM f xs s = Some (Inr s')" and "I s"
    and "\<And>x t t'. \<lbrakk>x \<in> set xs; I t; f x t = Some (Inr t')\<rbrakk> \<Longrightarrow> I t'"
  shows "I s'"
  using assms by (induction xs arbitrary: s) auto

lemma cfoldM_nth:
  assumes "\<And>k s. \<lbrakk>k < length xs; P k s\<rbrakk> \<Longrightarrow> \<exists>s'. f (xs ! k) s = Some (Inr s') \<and> P (Suc k) s'" and "P 0 s"
  shows "\<exists>s'. cfoldM f xs s = Some (Inr s') \<and> P (length xs) s'"
  using assms
proof (induction xs arbitrary: s P)
  case (Cons x xs)
  from Cons.prems(1) [of 0, OF _ Cons.prems(2)] obtain s1 where s1: "f x s = Some (Inr s1)" "P 1 s1" by auto
  have "\<exists>s'. cfoldM f xs s1 = Some (Inr s') \<and> P (Suc (length xs)) s'"
    using Cons.IH [of "\<lambda>k. P (Suc k)" s1] Cons.prems(1) [of "Suc _"] s1(2) by auto
  then show ?case using s1(1) by simp
qed simp

section \<open>Shared facts on lists\<close>

lemma upt_shift_range: "[a..<a + n] = map (\<lambda>i. a + i) [0..<n]"
  by (induction n) auto

lemma nth_list_update_if:
  "i < length xs \<Longrightarrow> xs[i := v] ! j = (if j = i then v else xs ! j)"
  by auto

section \<open>Little-endian memory\<close>

text \<open>Physical memory is a byte per address; the target is little-endian.\<close>

type_synonym memory = "nat \<Rightarrow> u8"

fun le_nat :: "u8 list \<Rightarrow> nat" where
  "le_nat [] = 0"
| "le_nat (b # bs) = unat b + 256 * le_nat bs"

fun le_bytes :: "nat \<Rightarrow> nat \<Rightarrow> u8 list" where
  "le_bytes 0 v = []"
| "le_bytes (Suc n) v = word_of_nat v # le_bytes n (v div 256)"

definition bytes_at :: "memory \<Rightarrow> nat \<Rightarrow> nat \<Rightarrow> u8 list" where
  "bytes_at mem a n = map (\<lambda>i. mem (a + i)) [0..<n]"

definition read_u16 :: "memory \<Rightarrow> nat \<Rightarrow> u16" where
  "read_u16 mem a = word_of_nat (le_nat (bytes_at mem a 2))"

definition read_u32 :: "memory \<Rightarrow> nat \<Rightarrow> u32" where
  "read_u32 mem a = word_of_nat (le_nat (bytes_at mem a 4))"

definition read_u64 :: "memory \<Rightarrow> nat \<Rightarrow> u64" where
  "read_u64 mem a = word_of_nat (le_nat (bytes_at mem a 8))"

lemma length_le_bytes [simp]: "length (le_bytes n v) = n"
  by (induction n arbitrary: v) auto

lemma le_nat_bound: "le_nat bs < 256 ^ length bs"
proof (induction bs)
  case Nil
  then show ?case by simp
next
  case (Cons b bs)
  have "unat b < 256" using unsigned_less [of b] by simp
  with Cons show ?case by simp
qed

lemma le_nat_le_bytes: "le_nat (le_bytes n v) = v mod 256 ^ n"
  by (induction n arbitrary: v) (auto simp: unat_of_nat mod_mult2_eq)

lemma length_bytes_at [simp]: "length (bytes_at mem a n) = n"
  by (simp add: bytes_at_def)

text \<open>Memory with the bytes \<open>l\<close> stored from address \<open>b\<close> on.\<close>

definition place :: "addr \<Rightarrow> u8 list \<Rightarrow> memory \<Rightarrow> memory" where
  "place b l mem = (\<lambda>a. if b \<le> a \<and> a < b + length l then l ! (a - b) else mem a)"

lemma bytes_at_place_in: "\<lbrakk>b \<le> a; a + n \<le> b + length l\<rbrakk> \<Longrightarrow> bytes_at (place b l mem) a n = take n (drop (a - b) l)"
  by (rule nth_equalityI) (auto simp: bytes_at_def place_def)

lemma bytes_at_place_out: "a + n \<le> b \<or> b + length l \<le> a \<Longrightarrow> bytes_at (place b l mem) a n = bytes_at mem a n"
  by (auto simp: bytes_at_def place_def)

lemma bytes_at_append: "bytes_at mem a (m + n) = bytes_at mem a m @ bytes_at mem (a + m) n"
  by (rule nth_equalityI) (auto simp: bytes_at_def nth_append)

lemma bytes_at_nth: "bytes_at mem a n = l \<Longrightarrow> i < n \<Longrightarrow> mem (a + i) = l ! i"
  by (auto simp: bytes_at_def)

lemma bytes_at_slice: "i + k \<le> n \<Longrightarrow> bytes_at mem (a + i) k = take k (drop i (bytes_at mem a n))"
  by (rule nth_equalityI) (auto simp: bytes_at_def add.assoc)

lemma bytes_at_eq: "\<lbrakk>\<And>x. \<lbrakk>a \<le> x; x < a + n\<rbrakk> \<Longrightarrow> mem x = mem' x\<rbrakk> \<Longrightarrow> bytes_at mem a n = bytes_at mem' a n"
  by (simp add: bytes_at_def)

end
