(* ===== verification/Locks.thy ===== *)
theory Locks
  imports Prelude
begin

text \<open>
  The three locks of \<^verbatim>\<open>kernel/src/memory_manager.rs\<close> and the lazily initialised cell built on them:
  \<^verbatim>\<open>SingleMutex\<close>, \<^verbatim>\<open>SpinMutex\<close>, \<^verbatim>\<open>SpinRwLock\<close>, \<^verbatim>\<open>LazyInitVal\<close>. The \<^verbatim>\<open>RawMutex\<close> contract of the
  \<^verbatim>\<open>lock_api\<close> crate is the locale \<open>raw_mutex\<close>; mutual exclusion follows from the contract for any
  interleaving of clients. The reader-writer lock is a step relation whose steps are its atomic
  memory operations, so that every interleaving of threads between them is covered.
\<close>

section \<open>SingleMutex and SpinMutex\<close>

text \<open>Both locks are one flag; \<open>True\<close> means locked.\<close>

record single_mutex =
  sm_locked :: bool

definition single_init :: single_mutex where
  "single_init = \<lparr>sm_locked = False\<rparr>"

definition single_lock :: "single_mutex \<Rightarrow> single_mutex res" where
  "single_lock m = rbind (rassert (\<not> sm_locked m)) (\<lambda>_. Inr (m\<lparr>sm_locked := True\<rparr>))"

definition single_try_lock :: "single_mutex \<Rightarrow> (bool \<times> single_mutex) res" where
  "single_try_lock m = rbind (single_lock m) (\<lambda>m'. Inr (True, m'))"

definition single_unlock :: "single_mutex \<Rightarrow> single_mutex" where
  "single_unlock m = m\<lparr>sm_locked := False\<rparr>"

record spin_mutex =
  spin_locked :: bool

definition spin_init :: spin_mutex where
  "spin_init = \<lparr>spin_locked = False\<rparr>"

text \<open>\<^verbatim>\<open>swap(true)\<close>: one atomic step that returns the old flag.\<close>

definition spin_swap_true :: "spin_mutex \<Rightarrow> bool \<times> spin_mutex" where
  "spin_swap_true m = (spin_locked m, m\<lparr>spin_locked := True\<rparr>)"

text \<open>
  \<^verbatim>\<open>lock\<close> repeats the swap and halts in between. Other threads and interrupt handlers may unlock
  the mutex while this one waits, so the loop is a function of the states the mutex has at the
  successive attempts; \<open>None\<close> is a caller that is still waiting when the attempts are used up.
\<close>

fun spin_lock :: "spin_mutex list \<Rightarrow> spin_mutex option" where
  "spin_lock [] = None"
| "spin_lock (m # ms) =
     (let (old, m') = spin_swap_true m in if old then spin_lock ms else Some m')"

definition spin_try_lock :: "spin_mutex \<Rightarrow> (bool \<times> spin_mutex) res" where
  "spin_try_lock m = (let (old, m') = spin_swap_true m in Inr (\<not> old, m'))"

definition spin_unlock :: "spin_mutex \<Rightarrow> spin_mutex" where
  "spin_unlock m = m\<lparr>spin_locked := False\<rparr>"

text \<open>The wait ends exactly at the first attempt that finds the mutex free.\<close>

lemma spin_lock_waits:
  "spin_lock ms = (case dropWhile spin_locked ms of [] \<Rightarrow> None
     | m # _ \<Rightarrow> Some (m\<lparr>spin_locked := True\<rparr>))"
  by (induction ms) (auto simp: spin_swap_true_def)

section \<open>The RawMutex contract\<close>

text \<open>
  Clients of a mutex interleave attempts to take it with releases by a client that holds it.
  \<open>owners\<close> records who believes to hold the lock.
\<close>

datatype mutex_event = TryLock nat | Unlock nat

definition mutex_step ::
    "('m \<Rightarrow> (bool \<times> 'm) res) \<Rightarrow> ('m \<Rightarrow> 'm) \<Rightarrow> mutex_event \<Rightarrow> 'm \<times> nat set \<Rightarrow> ('m \<times> nat set) res" where
  "mutex_step try_lock unlock ev = (\<lambda>(m, owners). case ev of
       TryLock i \<Rightarrow> rbind (try_lock m) (\<lambda>(got, m'). Inr (m', if got then insert i owners else owners))
     | Unlock i \<Rightarrow> Inr (if i \<in> owners then (unlock m, owners - {i}) else (m, owners)))"

locale raw_mutex =
  fixes init :: 'm
    and try_lock :: "'m \<Rightarrow> (bool \<times> 'm) res"
    and unlock :: "'m \<Rightarrow> 'm"
    and held :: "'m \<Rightarrow> bool"
  assumes init_free: "\<not> held init"
    and acquire: "\<not> held m \<Longrightarrow> \<exists>m'. try_lock m = Inr (True, m') \<and> held m'"
    and exclusive: "\<lbrakk>held m; try_lock m = Inr (got, m')\<rbrakk> \<Longrightarrow> \<not> got \<and> held m'"
    and release: "\<not> held (unlock m)"
begin

text \<open>The lock is held exactly when one client owns it.\<close>

definition consistent :: "'m \<times> nat set \<Rightarrow> bool" where
  "consistent s \<longleftrightarrow> (if held (fst s) then \<exists>i. snd s = {i} else snd s = {})"

lemma step_consistent:
  assumes "consistent s" and "mutex_step try_lock unlock ev s = Inr s'"
  shows "consistent s'"
proof (cases ev)
  case (TryLock i)
  show ?thesis
  proof (cases "held (fst s)")
    case True
    then show ?thesis using assms TryLock exclusive [of "fst s"]
      by (fastforce simp: mutex_step_def consistent_def split: prod.splits)
  next
    case False
    with acquire [OF False] assms TryLock show ?thesis
      by (fastforce simp: mutex_step_def consistent_def split: prod.splits)
  qed
next
  case (Unlock i)
  with assms release show ?thesis
    by (auto simp: mutex_step_def consistent_def split: prod.splits if_splits)
qed

lemma mutual_exclusion:
  assumes "foldM (mutex_step try_lock unlock) evs (init, {}) = Inr (m, owners)"
    and "i \<in> owners" "j \<in> owners"
  shows "i = j \<and> held m"
proof -
  have "consistent (init, {})" using init_free by (simp add: consistent_def)
  with assms(1) have "consistent (m, owners)"
    by (rule foldM_invariant) (rule step_consistent)
  with assms(2,3) show ?thesis by (auto simp: consistent_def split: if_splits)
qed

end

interpretation single: raw_mutex single_init single_try_lock single_unlock sm_locked
  by unfold_locales
    (auto simp: single_init_def single_try_lock_def single_lock_def single_unlock_def)

interpretation spin: raw_mutex spin_init spin_try_lock spin_unlock spin_locked
  by unfold_locales
    (auto simp: spin_init_def spin_try_lock_def spin_swap_true_def spin_unlock_def)

section \<open>SpinRwLock\<close>

text \<open>
  The counter of a \<^verbatim>\<open>SpinRwLock\<close> is 0 when it is free, 1 when a writer holds it and \<open>2n\<close> when
  \<open>n\<close> readers hold it. It is an \<^verbatim>\<open>AtomicU64\<close>: \<^verbatim>\<open>fetch_sub\<close> wraps, and \<^verbatim>\<open>old+2\<close> panics on overflow
  in the debug build. \<^verbatim>\<open>compare_exchange_weak\<close> may fail spuriously; \<open>spurious\<close> is that choice.
\<close>

record rw_lock =
  rw_count :: nat

definition rw_init :: rw_lock where
  "rw_init = \<lparr>rw_count = 0\<rparr>"

definition cas_weak :: "bool \<Rightarrow> nat \<Rightarrow> nat \<Rightarrow> rw_lock \<Rightarrow> bool \<times> rw_lock" where
  "cas_weak spurious expected new l =
     (if rw_count l = expected \<and> \<not> spurious then (True, l\<lparr>rw_count := new\<rparr>) else (False, l))"

definition rw_try_lock_exclusive :: "bool \<Rightarrow> rw_lock \<Rightarrow> bool \<times> rw_lock" where
  "rw_try_lock_exclusive spurious l = cas_weak spurious 0 1 l"

text \<open>
  The attempt of a reader after it loaded \<open>old\<close>: it gives up when a writer was there, and panics
  when the counter would overflow.
\<close>

definition rw_shared_attempt :: "bool \<Rightarrow> nat \<Rightarrow> rw_lock \<Rightarrow> (bool \<times> rw_lock) res" where
  "rw_shared_attempt spurious old l =
     (if old \<noteq> 1 then rbind (usize_add old 2) (\<lambda>new. Inr (cas_weak spurious old new l))
      else Inr (False, l))"

definition rw_unlock_exclusive :: "rw_lock \<Rightarrow> rw_lock" where
  "rw_unlock_exclusive l = l\<lparr>rw_count := 0\<rparr>"

definition rw_unlock_shared :: "rw_lock \<Rightarrow> rw_lock" where
  "rw_unlock_shared l = l\<lparr>rw_count := (rw_count l + 2 ^ 64 - 2) mod 2 ^ 64\<rparr>"

text \<open>
  A thread is outside the lock, waits in the inner loop of \<^verbatim>\<open>lock_exclusive\<close>, has seen the counter
  at 0 there, has loaded \<open>old\<close> in \<^verbatim>\<open>lock_shared\<close> or \<^verbatim>\<open>try_lock_shared\<close>, or holds the lock.
\<close>

datatype rw_pc = RwIdle | RwExclWait | RwExclSeen | RwShared nat | RwReading | RwWriting

record rw_sys =
  rw_lck :: rw_lock
  rw_pcs :: "nat \<Rightarrow> rw_pc"

definition rw_sys_init :: rw_sys where
  "rw_sys_init = \<lparr>rw_lck = rw_init, rw_pcs = (\<lambda>_. RwIdle)\<rparr>"

definition rw_set_pc :: "nat \<Rightarrow> rw_pc \<Rightarrow> rw_sys \<Rightarrow> rw_sys" where
  "rw_set_pc i p s = s\<lparr>rw_pcs := (rw_pcs s)(i := p)\<rparr>"

inductive rw_step :: "rw_sys \<Rightarrow> rw_sys \<Rightarrow> bool" where
  excl_call: "rw_pcs s i = RwIdle \<Longrightarrow> rw_step s (rw_set_pc i RwExclWait s)"
| excl_load: "\<lbrakk>rw_pcs s i = RwExclWait; rw_count (rw_lck s) = 0\<rbrakk> \<Longrightarrow>
    rw_step s (rw_set_pc i RwExclSeen s)"
| excl_cas: "\<lbrakk>rw_pcs s i = RwExclSeen \<or> rw_pcs s i = RwIdle;
      rw_try_lock_exclusive spurious (rw_lck s) = (True, l')\<rbrakk> \<Longrightarrow>
    rw_step s (rw_set_pc i RwWriting (s\<lparr>rw_lck := l'\<rparr>))"
| excl_retry: "\<lbrakk>rw_pcs s i = RwExclSeen; rw_try_lock_exclusive spurious (rw_lck s) = (False, l')\<rbrakk> \<Longrightarrow>
    rw_step s (rw_set_pc i RwExclWait (s\<lparr>rw_lck := l'\<rparr>))"
| excl_unlock: "rw_pcs s i = RwWriting \<Longrightarrow>
    rw_step s (rw_set_pc i RwIdle (s\<lparr>rw_lck := rw_unlock_exclusive (rw_lck s)\<rparr>))"
| shared_load: "rw_pcs s i = RwIdle \<Longrightarrow>
    rw_step s (rw_set_pc i (RwShared (rw_count (rw_lck s))) s)"
| shared_cas: "\<lbrakk>rw_pcs s i = RwShared old; rw_shared_attempt spurious old (rw_lck s) = Inr (True, l')\<rbrakk> \<Longrightarrow>
    rw_step s (rw_set_pc i RwReading (s\<lparr>rw_lck := l'\<rparr>))"
| shared_retry: "\<lbrakk>rw_pcs s i = RwShared old; rw_shared_attempt spurious old (rw_lck s) = Inr (False, l')\<rbrakk> \<Longrightarrow>
    rw_step s (rw_set_pc i RwIdle (s\<lparr>rw_lck := l'\<rparr>))"
| shared_unlock: "rw_pcs s i = RwReading \<Longrightarrow>
    rw_step s (rw_set_pc i RwIdle (s\<lparr>rw_lck := rw_unlock_shared (rw_lck s)\<rparr>))"

inductive rw_reachable :: "rw_sys \<Rightarrow> bool" where
  start: "rw_reachable rw_sys_init"
| step: "\<lbrakk>rw_reachable s; rw_step s t\<rbrakk> \<Longrightarrow> rw_reachable t"

definition rw_readers :: "rw_sys \<Rightarrow> nat set" where
  "rw_readers s = {i. rw_pcs s i = RwReading}"

definition rw_writers :: "rw_sys \<Rightarrow> nat set" where
  "rw_writers s = {i. rw_pcs s i = RwWriting}"

text \<open>
  The counter agrees with the threads: with a writer it is 1, there is no reader and no second
  writer; without one it is twice the number of readers and still fits the 64-bit counter.
\<close>

definition rw_inv :: "rw_sys \<Rightarrow> bool" where
  "rw_inv s \<longleftrightarrow> finite (rw_readers s) \<and> 2 * card (rw_readers s) < 2 ^ 64
     \<and> (if rw_writers s = {} then rw_count (rw_lck s) = 2 * card (rw_readers s)
        else rw_count (rw_lck s) = 1 \<and> rw_readers s = {} \<and> (\<exists>i. rw_writers s = {i}))"

lemma rw_set_pc_simps [simp]:
  "rw_lck (rw_set_pc i p s) = rw_lck s"
  "rw_pcs (rw_set_pc i p s) = (rw_pcs s)(i := p)"
  by (simp_all add: rw_set_pc_def)

lemma rw_readers_set_pc:
  "rw_readers (rw_set_pc i p s) = (if p = RwReading then insert i (rw_readers s) else rw_readers s - {i})"
  by (auto simp: rw_readers_def)

lemma rw_writers_set_pc:
  "rw_writers (rw_set_pc i p s) = (if p = RwWriting then insert i (rw_writers s) else rw_writers s - {i})"
  by (auto simp: rw_writers_def)

lemma rw_lck_update [simp]:
  "rw_readers (s\<lparr>rw_lck := l\<rparr>) = rw_readers s"
  "rw_writers (s\<lparr>rw_lck := l\<rparr>) = rw_writers s"
  by (simp_all add: rw_readers_def rw_writers_def)

lemma rw_mem [simp]:
  "i \<in> rw_readers s \<longleftrightarrow> rw_pcs s i = RwReading"
  "i \<in> rw_writers s \<longleftrightarrow> rw_pcs s i = RwWriting"
  by (simp_all add: rw_readers_def rw_writers_def)

lemmas rw_defs = rw_try_lock_exclusive_def rw_shared_attempt_def cas_weak_def
  rw_unlock_exclusive_def rw_unlock_shared_def

text \<open>A step of a thread that neither holds nor takes the lock leaves the invariant alone.\<close>

lemma rw_inv_frame:
  assumes "rw_pcs s i \<noteq> RwReading" "rw_pcs s i \<noteq> RwWriting" "p \<noteq> RwReading" "p \<noteq> RwWriting"
  shows "rw_inv (rw_set_pc i p s) = rw_inv s"
proof -
  have "rw_readers (rw_set_pc i p s) = rw_readers s" "rw_writers (rw_set_pc i p s) = rw_writers s"
    using assms by (auto simp: rw_readers_set_pc rw_writers_set_pc)
  then show ?thesis by (simp add: rw_inv_def)
qed

lemma rw_inv_acquire_write:
  assumes inv: "rw_inv s" and free: "rw_count (rw_lck s) = 0"
  shows "rw_inv (rw_set_pc i RwWriting (s\<lparr>rw_lck := rw_lck s\<lparr>rw_count := 1\<rparr>\<rparr>))"
proof -
  from inv free have "rw_writers s = {}" "rw_readers s = {}"
    by (auto simp: rw_inv_def split: if_splits)
  then show ?thesis by (simp add: rw_inv_def rw_readers_set_pc rw_writers_set_pc)
qed

lemma rw_inv_release_write:
  assumes inv: "rw_inv s" and w: "rw_pcs s i = RwWriting"
  shows "rw_inv (rw_set_pc i RwIdle (s\<lparr>rw_lck := rw_unlock_exclusive (rw_lck s)\<rparr>))"
proof -
  from inv w have "rw_writers s = {i}" "rw_readers s = {}"
    using rw_mem(2) [of i s] by (auto simp: rw_inv_def simp del: rw_mem split: if_splits)
  then show ?thesis
    by (simp add: rw_inv_def rw_readers_set_pc rw_writers_set_pc rw_unlock_exclusive_def)
qed

lemma rw_inv_acquire_read:
  assumes inv: "rw_inv s" and pc: "rw_pcs s i \<noteq> RwReading" "rw_pcs s i \<noteq> RwWriting"
    and old: "rw_count (rw_lck s) = old" "old \<noteq> 1" "old + 2 < 2 ^ 64"
  shows "rw_inv (rw_set_pc i RwReading (s\<lparr>rw_lck := rw_lck s\<lparr>rw_count := old + 2\<rparr>\<rparr>))"
proof -
  from inv old have w: "rw_writers s = {}" and r: "finite (rw_readers s)" "old = 2 * card (rw_readers s)"
    by (auto simp: rw_inv_def split: if_splits)
  from pc r(1) have "card (insert i (rw_readers s)) = Suc (card (rw_readers s))" by simp
  with w r old(3) show ?thesis by (simp add: rw_inv_def rw_readers_set_pc rw_writers_set_pc)
qed

lemma rw_inv_release_read:
  assumes inv: "rw_inv s" and pc: "rw_pcs s i = RwReading"
  shows "rw_inv (rw_set_pc i RwIdle (s\<lparr>rw_lck := rw_unlock_shared (rw_lck s)\<rparr>))"
proof -
  have i: "i \<in> rw_readers s" using pc by simp
  with inv have w: "rw_writers s = {}" and r: "finite (rw_readers s)"
      "rw_count (rw_lck s) = 2 * card (rw_readers s)" "2 * card (rw_readers s) < 2 ^ 64"
    by (auto simp: rw_inv_def simp del: rw_mem split: if_splits)
  from i r(1) obtain c where c: "card (rw_readers s) = Suc c" "card (rw_readers s - {i}) = c"
    by (metis card_Suc_Diff1)
  have "(2 * Suc c + 2 ^ 64 - 2) mod 2 ^ 64 = (2 * c :: nat)"
    using r(3) c(1) by simp
  with w r c show ?thesis
    by (simp add: rw_inv_def rw_readers_set_pc rw_writers_set_pc rw_unlock_shared_def)
qed

lemma rw_step_inv: "\<lbrakk>rw_step s t; rw_inv s\<rbrakk> \<Longrightarrow> rw_inv t"
proof (induction rule: rw_step.induct)
  case (excl_cas s i spurious l')
  then have "l' = rw_lck s\<lparr>rw_count := 1\<rparr>" "rw_count (rw_lck s) = 0"
    by (auto simp: rw_try_lock_exclusive_def cas_weak_def split: if_splits)
  with rw_inv_acquire_write [OF excl_cas.prems] show ?case by simp
next
  case (shared_cas s i old spurious l')
  then have "l' = rw_lck s\<lparr>rw_count := old + 2\<rparr>" "rw_count (rw_lck s) = old" "old \<noteq> 1" "old + 2 < 2 ^ 64"
    by (auto simp: rw_shared_attempt_def cas_weak_def usize_bound_def split: if_splits)
  with rw_inv_acquire_read [OF shared_cas.prems, of i old] shared_cas.hyps show ?case by simp
next
  case (excl_unlock s i)
  then show ?case by (simp add: rw_inv_release_write)
next
  case (shared_unlock s i)
  then show ?case by (simp add: rw_inv_release_read)
next
  case (excl_retry s i spurious l')
  then have "l' = rw_lck s" by (auto simp: rw_try_lock_exclusive_def cas_weak_def split: if_splits)
  with excl_retry show ?case by (simp add: rw_inv_frame)
next
  case (shared_retry s i old spurious l')
  then have "l' = rw_lck s" by (auto simp: rw_shared_attempt_def cas_weak_def split: if_splits)
  with shared_retry show ?case by (simp add: rw_inv_frame)
qed (simp_all add: rw_inv_frame)

lemma rw_reachable_inv: "rw_reachable s \<Longrightarrow> rw_inv s"
proof (induction rule: rw_reachable.induct)
  case start
  show ?case by (simp add: rw_inv_def rw_sys_init_def rw_init_def rw_readers_def rw_writers_def)
next
  case (step s t)
  then show ?case by (blast intro: rw_step_inv)
qed

section \<open>LazyInitVal\<close>

text \<open>
  A cell that is filled once. \<open>None\<close> stands for the uninitialised \<^verbatim>\<open>MaybeUninit\<close>; the flag \<open>init\<close>
  of the source is kept, since \<^verbatim>\<open>get\<close> tests the flag and not the content.
\<close>

record 'a lazy_init_val =
  lz_init :: bool
  lz_inner :: "'a option"

definition lazy_new :: "'a lazy_init_val" where
  "lazy_new = \<lparr>lz_init = False, lz_inner = None\<rparr>"

definition lazy_init_inplace ::
    "('a option \<Rightarrow> 'a option res) \<Rightarrow> 'a lazy_init_val \<Rightarrow> 'a lazy_init_val res" where
  "lazy_init_inplace initializer z = rbind (rassert (\<not> lz_init z)) (\<lambda>_.
     rbind (initializer (lz_inner z)) (\<lambda>x. Inr (z\<lparr>lz_inner := x, lz_init := True\<rparr>)))"

definition lazy_init :: "'a \<Rightarrow> 'a lazy_init_val \<Rightarrow> 'a lazy_init_val res" where
  "lazy_init content z = rbind (rassert (\<not> lz_init z)) (\<lambda>_.
     Inr (z\<lparr>lz_inner := Some content, lz_init := True\<rparr>))"

text \<open>
  \<^verbatim>\<open>assume_init_ref\<close> of an uninitialised cell is undefined behaviour; the constraint of the source
  (initialised when the flag is set) is the invariant \<open>lazy_inv\<close>, under which it is never reached.
\<close>

definition lazy_get :: "'a lazy_init_val \<Rightarrow> 'a option res" where
  "lazy_get z = rbind (rassert (lz_init z)) (\<lambda>_. Inr (lz_inner z))"

definition lazy_inv :: "'a lazy_init_val \<Rightarrow> bool" where
  "lazy_inv z \<longleftrightarrow> (lz_init z \<longrightarrow> lz_inner z \<noteq> None)"

lemma lazy_inv_new [simp]: "lazy_inv lazy_new"
  by (simp add: lazy_inv_def lazy_new_def)

lemma lazy_inv_init: "lazy_init x z = Inr z' \<Longrightarrow> lazy_inv z' \<and> lazy_get z' = Inr (Some x)"
  by (auto simp: lazy_init_def lazy_inv_def lazy_get_def)

section \<open>Properties\<close>

text \<open>
  Mutual exclusion of the spin lock. After any interleaving of attempts to take a \<^verbatim>\<open>SpinMutex\<close>
  and releases by its holder, starting from the unlocked mutex, at most one client holds it, and the
  flag is set while one does.
\<close>

theorem spin_mutex_mutual_exclusion:
  assumes "foldM (mutex_step spin_try_lock spin_unlock) evs (spin_init, {}) = Inr (m, owners)"
    and "i \<in> owners" and "j \<in> owners"
  shows "i = j \<and> spin_locked m"
  using assms by (rule spin.mutual_exclusion)

theorem spin_mutex_mutual_exclusion_witness:
  "foldM (mutex_step spin_try_lock spin_unlock) [TryLock 1, TryLock 2, Unlock 1, TryLock 2] (spin_init, {})
     = Inr (\<lparr>spin_locked = True\<rparr>, {2}) \<and> spin_locked \<lparr>spin_locked = True\<rparr>"
proof -
  have run: "foldM (mutex_step spin_try_lock spin_unlock) [TryLock 1, TryLock 2, Unlock 1, TryLock 2]
      (spin_init, {}) = Inr (\<lparr>spin_locked = True\<rparr>, {2})"
    by (simp add: mutex_step_def spin_try_lock_def spin_swap_true_def spin_unlock_def spin_init_def)
  from spin_mutex_mutual_exclusion [OF this, of 2 2] run show ?thesis by simp
qed

text \<open>
  (C32) Mutual exclusion of the reader-writer lock. In every state that any interleaving of the atomic
  steps of any number of threads can reach, spurious failures of the weak compare-and-swap included,
  a writer excludes all readers and all other writers, and the counter of the \<^verbatim>\<open>SpinRwLock\<close> is 1 with
  a writer and twice the number of readers without one.
\<close>

theorem rw_lock_mutual_exclusion:
  assumes "rw_reachable s"
  shows "(\<forall>i j. rw_pcs s i = RwWriting \<longrightarrow> rw_pcs s j \<noteq> RwReading \<and> (rw_pcs s j = RwWriting \<longrightarrow> j = i))
    \<and> finite (rw_readers s)
    \<and> rw_count (rw_lck s) = (if rw_writers s = {} then 2 * card (rw_readers s) else 1)"
proof -
  have inv: "rw_inv s" using assms by (rule rw_reachable_inv)
  have "rw_readers s = {} \<and> rw_writers s = {i}" if "rw_pcs s i = RwWriting" for i
    using inv that rw_mem(2) [of i s] by (auto simp: rw_inv_def simp del: rw_mem split: if_splits)
  then have "rw_pcs s j \<noteq> RwReading \<and> (rw_pcs s j = RwWriting \<longrightarrow> j = i)" if "rw_pcs s i = RwWriting" for i j
    using that rw_mem [of j s] by blast
  then show ?thesis using inv by (auto simp: rw_inv_def split: if_splits)
qed

theorem rw_lock_mutual_exclusion_witness:
  "\<exists>s. rw_reachable s \<and> rw_pcs s 0 = RwReading
     \<and> rw_count (rw_lck s) = (if rw_writers s = {} then 2 * card (rw_readers s) else 1)"
proof -
  let ?s1 = "rw_set_pc 0 (RwShared 0) rw_sys_init"
  let ?s2 = "rw_set_pc 0 RwReading (?s1\<lparr>rw_lck := \<lparr>rw_count = 2\<rparr>\<rparr>)"
  have "rw_step rw_sys_init ?s1"
    using rw_step.shared_load [of rw_sys_init 0] by (simp add: rw_sys_init_def rw_init_def)
  with rw_reachable.start have r1: "rw_reachable ?s1" by (rule rw_reachable.step)
  have "rw_step ?s1 ?s2"
    by (rule rw_step.shared_cas [of _ _ 0 False])
      (simp_all add: rw_shared_attempt_def cas_weak_def rw_sys_init_def rw_init_def rw_set_pc_def
        usize_add_def usize_bound_def)
  with r1 have r2: "rw_reachable ?s2" by (rule rw_reachable.step)
  from rw_lock_mutual_exclusion [OF this] r2 show ?thesis by (intro exI [of _ ?s2]) simp
qed

end
