(* ===== verification/Binary_Heap.thy ===== *)
theory Binary_Heap
  imports Prelude
begin

text \<open>
  The \<^verbatim>\<open>BinaryHeap\<close> of Rust's standard library, which holds the timers: a vector in which every
  element is at most its parent. \<^verbatim>\<open>push\<close> sifts the new element up; \<^verbatim>\<open>pop\<close> moves the last element to
  the root, sifts the hole down to the bottom along the greater children and then sifts up. The
  order is a parameter, since \<^verbatim>\<open>Timer\<close> brings its own \<^verbatim>\<open>Ord\<close>. The contract of a priority queue is the
  locale \<open>priority_queue\<close>.
\<close>

section \<open>Model\<close>

definition swap :: "'a list \<Rightarrow> nat \<Rightarrow> nat \<Rightarrow> 'a list" where
  "swap xs i j = xs[j := xs ! i, i := xs ! j]"

definition par :: "nat \<Rightarrow> nat" where
  "par i = (i - 1) div 2"

function sift_up :: "('a \<Rightarrow> 'a \<Rightarrow> bool) \<Rightarrow> 'a list \<Rightarrow> nat \<Rightarrow> 'a list" where
  "sift_up le xs pos =
     (if pos > 0 then
        if le (xs ! pos) (xs ! par pos) then xs
        else sift_up le (swap xs pos (par pos)) (par pos)
      else xs)"
  by pat_completeness auto
termination
  by (relation "measure (\<lambda>(le, xs, pos). pos)") (auto simp: par_def)

declare sift_up.simps [simp del]

lemma length_swap [simp]: "length (swap xs i j) = length xs"
  by (simp add: swap_def)

function sift_down_to_bottom :: "('a \<Rightarrow> 'a \<Rightarrow> bool) \<Rightarrow> 'a list \<Rightarrow> nat \<Rightarrow> 'a list \<times> nat" where
  "sift_down_to_bottom le xs pos =
     (let child = 2 * pos + 1 in
      if child \<le> length xs - 2 then
        let child = (if le (xs ! child) (xs ! (child + 1)) then child + 1 else child) in
        sift_down_to_bottom le (swap xs pos child) child
      else if child = length xs - 1 then (swap xs pos child, child)
      else (xs, pos))"
  by pat_completeness auto
termination
  by (relation "measure (\<lambda>(le, xs, pos). length xs - pos)") auto

declare sift_down_to_bottom.simps [simp del]

definition bh_push :: "('a \<Rightarrow> 'a \<Rightarrow> bool) \<Rightarrow> 'a list \<Rightarrow> 'a \<Rightarrow> 'a list" where
  "bh_push le xs x = sift_up le (xs @ [x]) (length xs)"

definition bh_peek :: "'a list \<Rightarrow> 'a option" where
  "bh_peek xs = (case xs of [] \<Rightarrow> None | x # _ \<Rightarrow> Some x)"

definition bh_pop :: "('a \<Rightarrow> 'a \<Rightarrow> bool) \<Rightarrow> 'a list \<Rightarrow> 'a option \<times> 'a list" where
  "bh_pop le xs =
     (if xs = [] then (None, [])
      else let item = last xs; rest = butlast xs in
        if rest = [] then (Some item, [])
        else (let (ys, pos) = sift_down_to_bottom le (rest[0 := item]) 0 in
              (Some (rest ! 0), sift_up le ys pos)))"

section \<open>The contract\<close>

locale priority_queue =
  fixes le :: "'a \<Rightarrow> 'a \<Rightarrow> bool"
    and invar :: "'q \<Rightarrow> bool"
    and elems :: "'q \<Rightarrow> 'a multiset"
    and push :: "'q \<Rightarrow> 'a \<Rightarrow> 'q"
    and peek :: "'q \<Rightarrow> 'a option"
    and pop :: "'q \<Rightarrow> 'a option \<times> 'q"
  assumes push_law: "invar q \<Longrightarrow> invar (push q x) \<and> elems (push q x) = add_mset x (elems q)"
    and pop_empty: "\<lbrakk>invar q; elems q = {#}\<rbrakk> \<Longrightarrow> peek q = None \<and> fst (pop q) = None"
    and pop_law: "\<lbrakk>invar q; elems q \<noteq> {#}\<rbrakk> \<Longrightarrow> \<exists>x q'. peek q = Some x \<and> pop q = (Some x, q') \<and> invar q'
      \<and> elems q = add_mset x (elems q') \<and> (\<forall>y \<in># elems q. le y x)"
begin

lemma peek_Some:
  assumes "invar q" "peek q = Some x"
  obtains q' where "pop q = (Some x, q')" "invar q'" "elems q = add_mset x (elems q')" "\<forall>y \<in># elems q. le y x"
proof -
  have "elems q \<noteq> {#}" using pop_empty [OF assms(1)] assms(2) by auto
  from pop_law [OF assms(1) this] assms(2) that show thesis by auto
qed

lemma peek_None: "\<lbrakk>invar q; peek q = None\<rbrakk> \<Longrightarrow> elems q = {#}"
  using pop_law by fastforce

end

section \<open>The heap order\<close>

definition heap_ok :: "('a \<Rightarrow> 'a \<Rightarrow> bool) \<Rightarrow> 'a list \<Rightarrow> bool" where
  "heap_ok le xs \<longleftrightarrow> (\<forall>i < length xs. 0 < i \<longrightarrow> le (xs ! i) (xs ! par i))"

text \<open>The order holds except between \<open>pos\<close> and its parent.\<close>

definition up_ok :: "('a \<Rightarrow> 'a \<Rightarrow> bool) \<Rightarrow> 'a list \<Rightarrow> nat \<Rightarrow> bool" where
  "up_ok le xs pos \<longleftrightarrow> pos < length xs
     \<and> (\<forall>i < length xs. 0 < i \<and> i \<noteq> pos \<longrightarrow> le (xs ! i) (xs ! par i))
     \<and> (\<forall>i < length xs. 0 < i \<and> par i = pos \<and> 0 < pos \<longrightarrow> le (xs ! i) (xs ! par pos))"

text \<open>The order holds among the elements other than the one at \<open>pos\<close>.\<close>

definition hole_ok :: "('a \<Rightarrow> 'a \<Rightarrow> bool) \<Rightarrow> 'a list \<Rightarrow> nat \<Rightarrow> bool" where
  "hole_ok le xs pos \<longleftrightarrow> pos < length xs
     \<and> (\<forall>i < length xs. 0 < i \<and> i \<noteq> pos \<and> par i \<noteq> pos \<longrightarrow> le (xs ! i) (xs ! par i))
     \<and> (\<forall>i < length xs. 0 < i \<and> par i = pos \<and> 0 < pos \<longrightarrow> le (xs ! i) (xs ! par pos))"

lemma swap_nth:
  "\<lbrakk>i < length xs; j < length xs; k < length xs\<rbrakk> \<Longrightarrow>
    swap xs i j ! k = (if k = i then xs ! j else if k = j then xs ! i else xs ! k)"
  by (auto simp: swap_def nth_list_update)

lemma mset_swap_eq: "\<lbrakk>i < length xs; j < length xs\<rbrakk> \<Longrightarrow> mset (swap xs i j) = mset xs"
  by (simp add: swap_def mset_swap)

lemma par_less: "0 < i \<Longrightarrow> par i < i"
  by (simp add: par_def)

lemma par_eq_iff: "0 < i \<Longrightarrow> par i = p \<longleftrightarrow> i = 2 * p + 1 \<or> i = 2 * p + 2"
  by (auto simp: par_def)

lemma length_sift_up [simp]: "length (sift_up le xs pos) = length xs"
  by (induction le xs pos rule: sift_up.induct) (subst sift_up.simps, simp)

lemma mset_sift_up: "pos < length xs \<Longrightarrow> mset (sift_up le xs pos) = mset xs"
proof (induction le xs pos rule: sift_up.induct)
  case (1 le xs pos)
  have "par pos < length xs" if "0 < pos" using par_less [OF that] 1(2) by simp
  then show ?case using 1 by (subst sift_up.simps) (simp add: mset_swap_eq)
qed

lemma sift_down_facts:
  assumes "pos < length xs" "sift_down_to_bottom le xs pos = (ys, p)"
  shows "mset ys = mset xs \<and> length ys = length xs \<and> p < length xs"
  using assms
proof (induction le xs pos arbitrary: ys p rule: sift_down_to_bottom.induct)
  case (1 le xs pos)
  let ?c = "2 * pos + 1"
  let ?d = "if le (xs ! ?c) (xs ! (?c + 1)) then ?c + 1 else ?c"
  show ?case
  proof (cases "?c \<le> length xs - 2")
    case True
    then have d: "?d < length xs" by auto
    have "sift_down_to_bottom le (swap xs pos ?d) ?d = (ys, p)"
      using "1.prems"(2) True by (subst (asm) sift_down_to_bottom.simps) (simp add: Let_def split: if_splits)
    from "1.IH" [OF refl True refl _ this] d "1.prems"(1) show ?thesis by (simp add: mset_swap_eq)
  next
    case False
    then show ?thesis using "1.prems"
      by (subst (asm) sift_down_to_bottom.simps) (auto simp: Let_def mset_swap_eq split: if_splits)
  qed
qed

section \<open>Correctness for a total preorder\<close>

locale total_preorder =
  fixes le :: "'a \<Rightarrow> 'a \<Rightarrow> bool"
  assumes le_trans: "\<lbrakk>le x y; le y z\<rbrakk> \<Longrightarrow> le x z"
    and le_total: "le x y \<or> le y x"
begin

lemma le_refl: "le x x"
  using le_total by blast

lemma sift_up_ok: "up_ok le xs pos \<Longrightarrow> heap_ok le (sift_up le xs pos)"
proof (induction pos arbitrary: xs rule: less_induct)
  case (less pos)
  have pos: "pos < length xs" using less.prems by (simp add: up_ok_def)
  show ?case
  proof (cases "0 < pos \<and> \<not> le (xs ! pos) (xs ! par pos)")
    case False
    then have "heap_ok le xs" using less.prems by (auto simp: up_ok_def heap_ok_def)
    with False show ?thesis by (subst sift_up.simps) auto
  next
    case True
    then have p: "0 < pos" "par pos < pos" "par pos < length xs" and gt: "le (xs ! par pos) (xs ! pos)"
      using par_less pos le_total by (auto intro: less_trans)
    have edge: "le (xs ! i) (xs ! par i)" if "i < length xs" "0 < i" "i \<noteq> pos" for i
      using less.prems that by (simp add: up_ok_def)
    have child: "le (xs ! i) (xs ! par pos)" if "i < length xs" "0 < i" "par i = pos" for i
      using less.prems that p(1) by (simp add: up_ok_def)
    let ?ys = "swap xs pos (par pos)"
    have nth: "?ys ! k = (if k = pos then xs ! par pos else if k = par pos then xs ! pos else xs ! k)"
      if "k < length xs" for k using swap_nth [OF pos p(3) that] .
    have "le (?ys ! i) (?ys ! par i)" if i: "i < length xs" "0 < i" "i \<noteq> par pos" for i
    proof -
      have pi: "par i < length xs" using par_less [OF i(2)] i(1) by simp
      consider "i = pos" | "i \<noteq> pos" "par i = pos" | "i \<noteq> pos" "par i = par pos"
        | "i \<noteq> pos" "par i \<noteq> pos" "par i \<noteq> par pos" by blast
      then show ?thesis
      proof cases
        case 1
        then show ?thesis using gt nth [OF i(1)] nth [OF pi] p(2) by simp
      next
        case 2
        then show ?thesis using child [OF i(1,2)] nth [OF i(1)] nth [OF pi] i(3) by simp
      next
        case 3
        then have "le (xs ! i) (xs ! pos)" using edge [OF i(1,2)] gt le_trans [of "xs ! i" "xs ! par pos"] by simp
        then show ?thesis using 3 nth [OF i(1)] nth [OF pi] p(2) i(3) by simp
      next
        case 4
        then show ?thesis using edge [OF i(1,2)] nth [OF i(1)] nth [OF pi] i(3) by simp
      qed
    qed
    moreover have "le (?ys ! i) (?ys ! par (par pos))"
      if i: "i < length xs" "0 < i" "par i = par pos" "0 < par pos" for i
    proof -
      have pp: "par (par pos) < par pos" using par_less [OF i(4)] .
      have up: "le (xs ! par pos) (xs ! par (par pos))" using edge [OF p(3) i(4)] p(2) by simp
      have "?ys ! par (par pos) = xs ! par (par pos)" using nth [of "par (par pos)"] pp p by simp
      moreover have "i \<noteq> par pos" using i(3) par_less [OF i(4)] by auto
      moreover have "le (xs ! i) (xs ! par (par pos))" if "i \<noteq> pos"
        using edge [OF i(1,2) that] i(3) up le_trans [of "xs ! i" "xs ! par pos"] by simp
      ultimately show ?thesis using nth [OF i(1)] up by (cases "i = pos") simp_all
    qed
    ultimately have "up_ok le ?ys (par pos)" using p(3) by (simp add: up_ok_def)
    from less.IH [OF p(2) this] True show ?thesis by (subst sift_up.simps) simp
  qed
qed

text \<open>Moving the hole to its greater child keeps the order among the other elements.\<close>

lemma hole_step:
  assumes hole: "hole_ok le xs pos" and c: "c < length xs" "par c = pos" "0 < c"
    and max: "\<And>i. \<lbrakk>i < length xs; 0 < i; par i = pos\<rbrakk> \<Longrightarrow> le (xs ! i) (xs ! c)"
  shows "hole_ok le (swap xs pos c) c"
proof -
  have pos: "pos < length xs" "pos < c" using hole c par_less [OF c(3)] by (auto simp: hole_ok_def)
  let ?ys = "swap xs pos c"
  have nth: "?ys ! k = (if k = pos then xs ! c else if k = c then xs ! pos else xs ! k)"
    if "k < length xs" for k using swap_nth [OF pos(1) c(1) that] .
  have edge: "le (xs ! i) (xs ! par i)" if "i < length xs" "0 < i" "i \<noteq> pos" "par i \<noteq> pos" for i
    using hole that by (simp add: hole_ok_def)
  have "le (?ys ! i) (?ys ! par i)" if i: "i < length xs" "0 < i" "i \<noteq> c" "par i \<noteq> c" for i
  proof -
    have pi: "par i < length xs" using par_less [OF i(2)] i(1) by simp
    show ?thesis
    proof (cases "i = pos")
      case True
      have "le (xs ! c) (xs ! par pos)" using hole c True i(2) by (simp add: hole_ok_def)
      moreover have "par i \<noteq> pos" using True par_less [OF i(2)] by simp
      ultimately show ?thesis using nth [OF i(1)] nth [OF pi] True i pos by simp
    next
      case False
      show ?thesis
      proof (cases "par i = pos")
        case True
        then show ?thesis using max [OF i(1,2)] nth [OF i(1)] nth [OF pi] False i by simp
      next
        case not: False
        then show ?thesis using edge [OF i(1,2) False not] nth [OF i(1)] nth [OF pi] False i by simp
      qed
    qed
  qed
  moreover have "le (?ys ! i) (?ys ! par c)" if i: "i < length xs" "0 < i" "par i = c" for i
  proof -
    have "i \<noteq> pos" "i \<noteq> c" using i pos par_less [OF i(2)] by auto
    moreover have "le (xs ! i) (xs ! c)" using edge [OF i(1,2)] i(3) pos \<open>i \<noteq> pos\<close> by simp
    ultimately show ?thesis using nth [OF i(1)] nth [OF pos(1)] c(2) by simp
  qed
  ultimately show ?thesis using c(1) by (simp add: hole_ok_def)
qed

text \<open>At the bottom the hole has no children, so the order can only fail towards its parent.\<close>

lemma hole_bottom:
  assumes "hole_ok le xs pos" "length xs \<le> 2 * pos + 1"
  shows "up_ok le xs pos"
proof -
  have "par i \<noteq> pos" if "i < length xs" "0 < i" for i
    using assms(2) that par_eq_iff [of i pos] by auto
  with assms(1) show ?thesis by (simp add: hole_ok_def up_ok_def)
qed

lemma sift_down_ok:
  "\<lbrakk>hole_ok le xs pos; sift_down_to_bottom le xs pos = (ys, p)\<rbrakk> \<Longrightarrow> up_ok le ys p"
proof (induction "length xs - pos" arbitrary: xs pos rule: less_induct)
  case less
  let ?c = "2 * pos + 1"
  let ?d = "if le (xs ! ?c) (xs ! (?c + 1)) then ?c + 1 else ?c"
  have pos: "pos < length xs" using less.prems(1) by (simp add: hole_ok_def)
  consider (two) "?c \<le> length xs - 2" | (one) "\<not> ?c \<le> length xs - 2" "?c = length xs - 1"
    | (none) "\<not> ?c \<le> length xs - 2" "?c \<noteq> length xs - 1" by blast
  then show ?case
  proof cases
    case two
    then have d: "?d < length xs" "par ?d = pos" "0 < ?d" by (auto simp: par_def)
    have "le (xs ! i) (xs ! ?d)" if "i < length xs" "0 < i" "par i = pos" for i
    proof -
      have "i = ?c \<or> i = ?c + 1" using par_eq_iff [OF that(2)] that(3) by auto
      then show ?thesis using le_refl le_total [of "xs ! ?c" "xs ! (?c + 1)"] by auto
    qed
    from hole_step [OF less.prems(1) d this] have "hole_ok le (swap xs pos ?d) ?d" .
    moreover have "sift_down_to_bottom le (swap xs pos ?d) ?d = (ys, p)"
      using less.prems(2) two by (subst (asm) sift_down_to_bottom.simps) (simp add: Let_def split: if_splits)
    moreover have "length (swap xs pos ?d) - ?d < length xs - pos" using d(1) by auto
    ultimately show ?thesis using less.hyps by blast
  next
    case one
    have c: "?c < length xs" "par ?c = pos" using one pos by (auto simp: par_def)
    have only: "i = ?c" if "i < length xs" "0 < i" "par i = pos" for i
    proof -
      have "i = ?c \<or> i = ?c + 1" using par_eq_iff [OF that(2), of pos] that(3) by simp
      then show ?thesis using that(1) one(2) pos by linarith
    qed
    have "le (xs ! i) (xs ! ?c)" if "i < length xs" "0 < i" "par i = pos" for i
      unfolding only [OF that] by (rule le_refl)
    then have hole: "hole_ok le (swap xs pos ?c) ?c" by (intro hole_step [OF less.prems(1) c]) simp_all
    have "sift_down_to_bottom le xs pos = (swap xs pos ?c, ?c)"
      by (subst sift_down_to_bottom.simps) (simp only: Let_def if_not_P [OF one(1)] if_P [OF one(2)])
    then have "(ys, p) = (swap xs pos ?c, ?c)" by (rule trans [OF less.prems(2) [symmetric]])
    then have "ys = swap xs pos ?c" "p = ?c" by blast+
    with hole_bottom [OF hole] one(2) show ?thesis by simp
  next
    case none
    then have "(ys, p) = (xs, pos)"
      using less.prems(2) by (subst (asm) sift_down_to_bottom.simps) (simp add: Let_def)
    moreover have "length xs \<le> ?c" using none pos by linarith
    ultimately show ?thesis using hole_bottom [OF less.prems(1)] by simp
  qed
qed

lemma root_max:
  assumes "heap_ok le xs" "i < length xs"
  shows "le (xs ! i) (xs ! 0)"
  using assms(2)
proof (induction i rule: less_induct)
  case (less i)
  show ?case
  proof (cases "i = 0")
    case True
    then show ?thesis using le_refl by simp
  next
    case False
    then have p: "par i < i" using par_less by simp
    have "le (xs ! i) (xs ! par i)" using assms(1) less.prems False by (simp add: heap_ok_def)
    moreover have "le (xs ! par i) (xs ! 0)" using less.IH [OF p] p less.prems by simp
    ultimately show ?thesis by (rule le_trans)
  qed
qed

lemma push_ok:
  assumes "heap_ok le xs"
  shows "heap_ok le (bh_push le xs x)" "mset (bh_push le xs x) = add_mset x (mset xs)"
proof -
  have "le ((xs @ [x]) ! i) ((xs @ [x]) ! par i)" if "i < length xs" "0 < i" for i
    using assms that par_less [OF that(2)] by (simp add: nth_append heap_ok_def)
  moreover have "par i \<noteq> length xs" if "i < length (xs @ [x])" "0 < i" for i
    using par_less [OF that(2)] that(1) by simp
  ultimately have "up_ok le (xs @ [x]) (length xs)" by (auto simp: up_ok_def less_Suc_eq)
  then show "heap_ok le (bh_push le xs x)" unfolding bh_push_def by (rule sift_up_ok)
  show "mset (bh_push le xs x) = add_mset x (mset xs)" by (simp add: bh_push_def mset_sift_up)
qed

lemma pop_ok:
  assumes ok: "heap_ok le xs" and ne: "xs \<noteq> []"
  shows "\<exists>ys. bh_pop le xs = (Some (xs ! 0), ys) \<and> heap_ok le ys \<and> mset xs = add_mset (xs ! 0) (mset ys)
    \<and> (\<forall>y \<in> set xs. le y (xs ! 0))"
proof -
  have max: "\<forall>y \<in> set xs. le y (xs ! 0)" using root_max [OF ok] by (auto simp: in_set_conv_nth)
  obtain rest x where xs: "xs = rest @ [x]" using ne by (cases xs rule: rev_cases) auto
  show ?thesis
  proof (cases rest)
    case Nil
    then show ?thesis using xs max by (auto simp: bh_pop_def heap_ok_def)
  next
    case (Cons r rs)
    let ?zs = "x # rs"
    have len: "length rest = length ?zs" "rest[0 := x] = ?zs" "xs ! 0 = r" using xs Cons by simp_all
    have "le (?zs ! i) (?zs ! par i)" if i: "i < length ?zs" "0 < i" "par i \<noteq> 0" for i
    proof -
      have same: "xs ! k = ?zs ! k" if "0 < k" "k < length ?zs" for k
        using that xs Cons by (cases k) (simp_all add: nth_append)
      have "i < length xs" using i(1) xs Cons by simp
      with ok i(2) have "le (xs ! i) (xs ! par i)" by (simp add: heap_ok_def)
      then show ?thesis using same [OF i(2,1)] same [of "par i"] i par_less [OF i(2)] by simp
    qed
    then have hole: "hole_ok le ?zs 0" by (simp add: hole_ok_def)
    obtain ys p where d: "sift_down_to_bottom le ?zs 0 = (ys, p)" by fastforce
    have f: "mset ys = mset ?zs" "p < length ys" using sift_down_facts [OF _ d] by simp_all
    have "bh_pop le xs = (Some r, sift_up le ys p)"
      using xs Cons len d by (simp add: bh_pop_def Let_def)
    moreover have "heap_ok le (sift_up le ys p)" using sift_up_ok [OF sift_down_ok [OF hole d]] .
    moreover have "mset xs = add_mset r (mset (sift_up le ys p))"
      using mset_sift_up [OF f(2)] f(1) xs Cons by simp
    ultimately show ?thesis using len(3) max by auto
  qed
qed

end

sublocale total_preorder \<subseteq> bh: priority_queue le "heap_ok le" mset "bh_push le" bh_peek "bh_pop le"
proof
  fix q x
  assume ok: "heap_ok le q"
  show "heap_ok le (bh_push le q x) \<and> mset (bh_push le q x) = add_mset x (mset q)"
    using push_ok [OF ok] by simp
  show "bh_peek q = None \<and> fst (bh_pop le q) = None" if "mset q = {#}"
    using that by (simp add: bh_peek_def bh_pop_def)
  show "\<exists>x q'. bh_peek q = Some x \<and> bh_pop le q = (Some x, q') \<and> heap_ok le q'
      \<and> mset q = add_mset x (mset q') \<and> (\<forall>y \<in># mset q. le y x)" if "mset q \<noteq> {#}"
  proof -
    have "q \<noteq> []" using that by auto
    moreover have "bh_peek q = Some (q ! 0)" using calculation by (cases q) (auto simp: bh_peek_def)
    moreover from pop_ok [OF ok calculation(1)] obtain ys where "bh_pop le q = (Some (q ! 0), ys)"
      "heap_ok le ys" "mset q = add_mset (q ! 0) (mset ys)" "\<forall>y \<in> set q. le y (q ! 0)" by blast
    moreover from calculation(6) have "\<forall>y \<in># mset q. le y (q ! 0)" by simp
    ultimately show ?thesis by blast
  qed
qed

end
