(* ===== verification/Queue_Spec.thy ===== *)
theory Queue_Spec
  imports Prelude
begin

text \<open>
  The contract of a bounded first-in first-out queue whose \<open>push\<close> reports a full queue instead of
  blocking, as the event queue of the kernel does, and what a client can conclude from the
  contract alone: what a run of pushes leaves in the queue, and that draining the queue returns
  its contents in order.
\<close>

text \<open>Calls of a client, their results, and what a bounded list answers to them.\<close>

datatype 'a queue_op = Push 'a | Pop

datatype 'a queue_out = Pushed "unit + unit" | Popped "'a option"

definition queue_step ::
    "('q \<Rightarrow> 'a \<Rightarrow> ((unit + unit) \<times> 'q) res) \<Rightarrow> ('q \<Rightarrow> ('a option \<times> 'q) res) \<Rightarrow> 'a queue_op
       \<Rightarrow> 'a queue_out list \<times> 'q \<Rightarrow> ('a queue_out list \<times> 'q) res" where
  "queue_step push pop op = (\<lambda>(outs, q). case op of
       Push x \<Rightarrow> rbind (push q x) (\<lambda>(r, q'). Inr (outs @ [Pushed r], q'))
     | Pop \<Rightarrow> rbind (pop q) (\<lambda>(r, q'). Inr (outs @ [Popped r], q')))"

fun list_step :: "nat \<Rightarrow> 'a queue_op \<Rightarrow> 'a queue_out list \<times> 'a list \<Rightarrow> 'a queue_out list \<times> 'a list" where
  "list_step cap (Push x) (outs, xs) =
     (if length xs < cap then (outs @ [Pushed (Inr ())], xs @ [x]) else (outs @ [Pushed (Inl ())], xs))"
| "list_step cap Pop (outs, []) = (outs @ [Popped None], [])"
| "list_step cap Pop (outs, x # xs) = (outs @ [Popped (Some x)], xs)"

text \<open>Dropping what does not fit can be done step by step or at the end.\<close>

lemma take_push: "length xs \<le> n \<Longrightarrow> take n (take n (xs @ [m]) @ ms) = take n (xs @ m # ms)"
  by (cases "length xs = n") auto

locale bounded_queue =
  fixes invar :: "'q \<Rightarrow> bool"
    and contents :: "'q \<Rightarrow> 'a list"
    and capacity :: "'q \<Rightarrow> nat"
    and push :: "'q \<Rightarrow> 'a \<Rightarrow> ((unit + unit) \<times> 'q) res"
    and pop :: "'q \<Rightarrow> ('a option \<times> 'q) res"
  assumes contents_bound: "invar q \<Longrightarrow> length (contents q) \<le> capacity q"
    and push_full: "\<lbrakk>invar q; length (contents q) = capacity q\<rbrakk> \<Longrightarrow> push q x = Inr (Inl (), q)"
    and push_room: "\<lbrakk>invar q; length (contents q) < capacity q\<rbrakk> \<Longrightarrow>
      \<exists>q'. push q x = Inr (Inr (), q') \<and> invar q' \<and> contents q' = contents q @ [x]
        \<and> capacity q' = capacity q"
    and pop_empty: "\<lbrakk>invar q; contents q = []\<rbrakk> \<Longrightarrow> pop q = Inr (None, q)"
    and pop_Cons: "\<lbrakk>invar q; contents q = x # xs\<rbrakk> \<Longrightarrow>
      \<exists>q'. pop q = Inr (Some x, q') \<and> invar q' \<and> contents q' = xs \<and> capacity q' = capacity q"
begin

text \<open>One push whose result is ignored keeps the message exactly when there is room for it.\<close>

lemma push_ignore:
  assumes "invar q"
  shows "\<exists>r q'. push q x = Inr (r, q') \<and> invar q' \<and> capacity q' = capacity q
     \<and> contents q' = take (capacity q) (contents q @ [x])"
proof (cases "length (contents q) = capacity q")
  case True
  then show ?thesis using assms push_full [OF assms True, of x] by auto
next
  case False
  with contents_bound [OF assms] have "length (contents q) < capacity q" by simp
  from push_room [OF assms this, of x] this show ?thesis by auto
qed

text \<open>
  A run of pushes whose results are ignored never panics. It appends the messages in order and
  drops those that arrive when the queue is full.
\<close>

lemma push_all:
  assumes "invar q"
  shows "\<exists>q'. foldM (\<lambda>m q. rbind (push q m) (\<lambda>(r, q'). Inr q')) ms q = Inr q'
     \<and> invar q' \<and> capacity q' = capacity q
     \<and> contents q' = take (capacity q) (contents q @ ms)"
  using assms
proof (induction ms arbitrary: q)
  case Nil
  then show ?case using contents_bound by simp
next
  case (Cons m ms)
  from push_ignore [OF Cons.prems, of m] obtain r q1 where
    q1: "push q m = Inr (r, q1)" "invar q1" "capacity q1 = capacity q"
      "contents q1 = take (capacity q) (contents q @ [m])" by blast
  from Cons.IH [OF q1(2)] q1 take_push [OF contents_bound [OF Cons.prems], of m ms] show ?case by simp
qed

text \<open>Popping \<open>n\<close> times returns the first \<open>n\<close> messages in order.\<close>

fun pops :: "nat \<Rightarrow> 'q \<Rightarrow> ('a list \<times> 'q) res" where
  "pops 0 q = Inr ([], q)"
| "pops (Suc n) q = rbind (pop q) (\<lambda>(x, q').
     case x of None \<Rightarrow> Inr ([], q')
     | Some v \<Rightarrow> rbind (pops n q') (\<lambda>(vs, q''). Inr (v # vs, q'')))"

lemma pops_contents:
  assumes "invar q"
  shows "\<exists>q'. pops n q = Inr (take n (contents q), q') \<and> invar q'
     \<and> contents q' = drop n (contents q) \<and> capacity q' = capacity q"
  using assms
proof (induction n arbitrary: q)
  case 0
  then show ?case by simp
next
  case (Suc n)
  show ?case
  proof (cases "contents q")
    case Nil
    then show ?thesis using pop_empty [OF Suc.prems Nil] Suc.prems by simp
  next
    case (Cons x xs)
    from pop_Cons [OF Suc.prems Cons] obtain q1 where
      q1: "pop q = Inr (Some x, q1)" "invar q1" "contents q1 = xs" "capacity q1 = capacity q"
      by blast
    from Suc.IH [OF q1(2)] q1 Cons show ?thesis by auto
  qed
qed

text \<open>Every sequence of calls returns, with the answers of the bounded list.\<close>

lemma step_refines:
  assumes "invar q"
  shows "\<exists>q'. queue_step push pop op (outs, q)
       = Inr (fst (list_step (capacity q) op (outs, contents q)), q')
     \<and> invar q' \<and> contents q' = snd (list_step (capacity q) op (outs, contents q))
     \<and> capacity q' = capacity q"
proof (cases op)
  case (Push x)
  show ?thesis
  proof (cases "length (contents q) < capacity q")
    case True
    from push_room [OF assms True, of x] Push True show ?thesis by (auto simp: queue_step_def)
  next
    case False
    with contents_bound [OF assms] have "length (contents q) = capacity q" by simp
    from push_full [OF assms this, of x] Push False assms show ?thesis by (simp add: queue_step_def)
  qed
next
  case Pop
  show ?thesis
  proof (cases "contents q")
    case Nil
    from pop_empty [OF assms Nil] Pop Nil assms show ?thesis by (simp add: queue_step_def)
  next
    case (Cons x xs)
    from pop_Cons [OF assms Cons] Pop Cons show ?thesis by (auto simp: queue_step_def)
  qed
qed

lemma run_refines:
  assumes "invar q"
  shows "\<exists>q'. foldM (queue_step push pop) ops (outs, q)
       = Inr (fst (fold (list_step (capacity q)) ops (outs, contents q)), q')
     \<and> invar q' \<and> contents q' = snd (fold (list_step (capacity q)) ops (outs, contents q))"
  using assms
proof (induction ops arbitrary: outs q)
  case Nil
  then show ?case by simp
next
  case (Cons op ops)
  obtain outs1 xs1 where a: "list_step (capacity q) op (outs, contents q) = (outs1, xs1)"
    by (cases "list_step (capacity q) op (outs, contents q)")
  from step_refines [OF Cons.prems, of op outs] a obtain q1 where
    q1: "queue_step push pop op (outs, q) = Inr (outs1, q1)" "invar q1" "contents q1 = xs1"
      "capacity q1 = capacity q" by auto
  from Cons.IH [OF q1(2), of outs1] q1 a show ?case by simp
qed

end

end
