(* ===== verification/Message_Queue.thy ===== *)
theory Message_Queue
  imports Queue_Spec
begin

text \<open>
  The kernel's event queue, \<^verbatim>\<open>MessageQueue<N>\<close> of \<^verbatim>\<open>kernel/src/main.rs\<close>: a ring of \<open>N\<close> messages
  with a read position, a write position and a count. The interrupt handlers push into it and the
  main loop pops from it. The theory shows that it refines a bounded first-in first-out list.
\<close>

section \<open>Model\<close>

datatype message = Xhci | TimerTimeout u64

record message_queue =
  mq_data :: "message list"
  mq_read_pos :: nat
  mq_write_pos :: nat
  mq_cnt :: nat

definition mq_new :: "nat \<Rightarrow> message_queue" where
  "mq_new N = \<lparr>mq_data = replicate N Xhci, mq_read_pos = 0, mq_write_pos = 0, mq_cnt = 0\<rparr>"

definition mq_push :: "message_queue \<Rightarrow> message \<Rightarrow> ((unit + unit) \<times> message_queue) res" where
  "mq_push q msg =
     (if mq_cnt q = length (mq_data q) then Inr (Inl (), q)
      else rbind (usize_add (mq_cnt q) 1) (\<lambda>cnt'.
           rbind (store (mq_data q) (mq_write_pos q) msg) (\<lambda>data'.
           rbind (usize_add (mq_write_pos q) 1) (\<lambda>w.
           Inr (Inr (), q\<lparr>mq_cnt := cnt', mq_data := data',
                         mq_write_pos := w mod length (mq_data q)\<rparr>)))))"

definition mq_pop :: "message_queue \<Rightarrow> (message option \<times> message_queue) res" where
  "mq_pop q =
     (if mq_cnt q = 0 then Inr (None, q)
      else rbind (usize_sub (mq_cnt q) 1) (\<lambda>cnt'.
           rbind (index (mq_data q) (mq_read_pos q)) (\<lambda>msg.
           rbind (usize_add (mq_read_pos q) 1) (\<lambda>r.
           Inr (Some msg, q\<lparr>mq_cnt := cnt', mq_read_pos := r mod length (mq_data q)\<rparr>)))))"

section \<open>Invariant and abstraction\<close>

text \<open>
  The abstract value is the list of the \<open>mq_cnt\<close> messages that start at the read position and wrap
  around the end of the array.
\<close>

definition mq_slot :: "message_queue \<Rightarrow> nat \<Rightarrow> nat" where
  "mq_slot q i = (mq_read_pos q + i) mod length (mq_data q)"

definition mq_contents :: "message_queue \<Rightarrow> message list" where
  "mq_contents q = map (\<lambda>i. mq_data q ! mq_slot q i) [0..<mq_cnt q]"

definition mq_capacity :: "message_queue \<Rightarrow> nat" where
  "mq_capacity q = length (mq_data q)"

definition mq_inv :: "message_queue \<Rightarrow> bool" where
  "mq_inv q \<longleftrightarrow> 0 < length (mq_data q) \<and> length (mq_data q) < usize_bound
     \<and> mq_read_pos q < length (mq_data q) \<and> mq_cnt q \<le> length (mq_data q)
     \<and> mq_write_pos q = mq_slot q (mq_cnt q)"

section \<open>Refinement of the bounded queue\<close>

lemma mq_slot_less: "mq_inv q \<Longrightarrow> mq_slot q i < length (mq_data q)"
  by (simp add: mq_inv_def mq_slot_def)

lemma mod_window_le:
  fixes r i j n :: nat
  assumes "i \<le> j" "j < n" "(r + i) mod n = (r + j) mod n"
  shows "i = j"
proof -
  from assms(1,3) have "n dvd (r + j) - (r + i)"
    by (metis add_le_cancel_left mod_eq_dvd_iff_nat)
  then have "n dvd j - i" by simp
  with assms(1,2) show ?thesis by (auto dest: dvd_imp_le)
qed

lemma mod_window_inj:
  fixes r i j n :: nat
  assumes "i < n" "j < n" "(r + i) mod n = (r + j) mod n"
  shows "i = j"
  using assms mod_window_le [of i j n r] mod_window_le [of j i n r] by (cases "i \<le> j") auto

lemma mq_new_inv: "\<lbrakk>0 < N; N < usize_bound\<rbrakk> \<Longrightarrow> mq_inv (mq_new N)"
  by (simp add: mq_inv_def mq_new_def mq_slot_def)

lemma mq_new_contents: "mq_contents (mq_new N) = []"
  by (simp add: mq_contents_def mq_new_def)

text \<open>A push into a queue with room stores the message behind the others.\<close>

lemma mq_push_room:
  assumes inv: "mq_inv q" and room: "length (mq_contents q) < mq_capacity q"
  shows "\<exists>q'. mq_push q x = Inr (Inr (), q') \<and> mq_inv q' \<and> mq_contents q' = mq_contents q @ [x]
     \<and> mq_capacity q' = mq_capacity q"
proof -
  let ?n = "length (mq_data q)" and ?c = "mq_cnt q" and ?w = "mq_write_pos q"
  have c: "?c < ?n" using room by (simp add: mq_contents_def mq_capacity_def)
  have w: "?w < ?n" "?w = (mq_read_pos q + ?c) mod ?n"
    using inv mq_slot_less [OF inv, of ?c] by (auto simp: mq_inv_def mq_slot_def)
  define q' where "q' = q\<lparr>mq_cnt := ?c + 1, mq_data := (mq_data q)[?w := x],
    mq_write_pos := (?w + 1) mod ?n\<rparr>"
  have "mq_push q x = Inr (Inr (), q')"
    using inv c w by (simp add: mq_push_def res_simps mq_inv_def q'_def)
  moreover have "mq_inv q'"
    using inv c w by (auto simp: mq_inv_def q'_def mq_slot_def mod_simps)
  moreover have "mq_contents q' = mq_contents q @ [x]"
  proof -
    have "?w \<noteq> mq_slot q i" if "i < ?c" for i
      using mod_window_inj [of i ?n ?c "mq_read_pos q"] that c w by (auto simp: mq_slot_def)
    moreover have "mq_slot q' i = mq_slot q i" for i by (simp add: mq_slot_def q'_def)
    ultimately show ?thesis using w by (auto simp: mq_contents_def q'_def mq_slot_def)
  qed
  ultimately show ?thesis by (auto simp: mq_capacity_def q'_def)
qed

text \<open>A pop returns the oldest message.\<close>

lemma mq_pop_Cons:
  assumes inv: "mq_inv q" and ne: "mq_contents q = x # xs"
  shows "\<exists>q'. mq_pop q = Inr (Some x, q') \<and> mq_inv q' \<and> mq_contents q' = xs
     \<and> mq_capacity q' = mq_capacity q"
proof -
  let ?n = "length (mq_data q)" and ?r = "mq_read_pos q"
  from ne obtain c where c: "mq_cnt q = Suc c"
    by (cases "mq_cnt q") (auto simp: mq_contents_def)
  define q' where "q' = q\<lparr>mq_cnt := c, mq_read_pos := (?r + 1) mod ?n\<rparr>"
  have slot: "mq_slot q' i = mq_slot q (Suc i)" for i
    by (simp add: mq_slot_def q'_def mod_simps)
  have split: "mq_contents q = mq_data q ! ?r # mq_contents q'"
    using inv c slot
    by (simp add: mq_contents_def upt_conv_Cons map_Suc_upt [symmetric] mq_inv_def comp_def
        del: upt_Suc) (simp add: mq_slot_def q'_def)
  have "mq_pop q = Inr (Some (mq_data q ! ?r), q')"
    using inv c by (simp add: mq_pop_def res_simps mq_inv_def q'_def)
  moreover have "mq_inv q'"
    using inv c slot by (auto simp: mq_inv_def q'_def mq_slot_def mod_simps)
  ultimately show ?thesis using split ne by (auto simp: mq_capacity_def q'_def)
qed

interpretation mq: bounded_queue mq_inv mq_contents mq_capacity mq_push mq_pop
proof
  fix q x xs
  assume inv: "mq_inv q"
  then show "length (mq_contents q) \<le> mq_capacity q"
    by (simp add: mq_inv_def mq_contents_def mq_capacity_def)
  show "mq_push q x = Inr (Inl (), q)" if "length (mq_contents q) = mq_capacity q"
    using that by (simp add: mq_push_def mq_contents_def mq_capacity_def)
  show "\<exists>q'. mq_push q x = Inr (Inr (), q') \<and> mq_inv q' \<and> mq_contents q' = mq_contents q @ [x]
     \<and> mq_capacity q' = mq_capacity q" if "length (mq_contents q) < mq_capacity q"
    using inv that by (rule mq_push_room)
  show "mq_pop q = Inr (None, q)" if "mq_contents q = []"
    using that by (simp add: mq_pop_def mq_contents_def)
  show "\<exists>q'. mq_pop q = Inr (Some x, q') \<and> mq_inv q' \<and> mq_contents q' = xs
     \<and> mq_capacity q' = mq_capacity q" if "mq_contents q = x # xs"
    using inv that by (rule mq_pop_Cons)
qed

section \<open>Property\<close>

text \<open>
  (C10) The event queue is a bounded first-in first-out queue. Whatever the sequence of pushes and
  pops on a fresh \<^verbatim>\<open>MessageQueue<N>\<close>, no call panics, every call returns what the list of at most
  \<open>N\<close> pending messages answers (a push on a full queue reports the error and changes nothing, a pop
  returns the oldest message), and the ring holds exactly that list afterwards.
\<close>

theorem message_queue_refines_list:
  assumes "0 < N" and "N < usize_bound"
  shows "\<exists>q'. foldM (queue_step mq_push mq_pop) ops ([], mq_new N)
      = Inr (fst (fold (list_step N) ops ([], [])), q')
    \<and> mq_inv q' \<and> mq_contents q' = snd (fold (list_step N) ops ([], []))"
  using mq.run_refines [OF mq_new_inv [OF assms], of ops "[]"]
  by (simp add: mq_new_contents) (simp add: mq_capacity_def mq_new_def)

theorem message_queue_refines_list_witness:
  "\<exists>q'. foldM (queue_step mq_push mq_pop)
        [Push Xhci, Push (TimerTimeout 3), Push (TimerTimeout 4), Pop, Push (TimerTimeout 5), Pop]
        ([], mq_new 2)
      = Inr ([Pushed (Inr ()), Pushed (Inr ()), Pushed (Inl ()), Popped (Some Xhci),
              Pushed (Inr ()), Popped (Some (TimerTimeout 3))], q')
    \<and> mq_contents q' = [TimerTimeout 5]"
  using message_queue_refines_list [of 2
      "[Push Xhci, Push (TimerTimeout 3), Push (TimerTimeout 4), Pop, Push (TimerTimeout 5), Pop]"]
  by (auto simp: usize_bound_def)

end
