(* ===== verification/Timer.thy ===== *)
theory Timer
  imports Binary_Heap Message_Queue
begin

text \<open>
  The timers of \<^verbatim>\<open>kernel/src/timer.rs\<close>: a tick counter and a heap of timers ordered by their timeout.
  Each tick pops the expired timers, sends a message for each of them to the event queue, and
  re-arms the timer that drives task switching. The counter and the timeouts are \<^verbatim>\<open>u64\<close> values used
  only with checked additions and are kept as natural numbers below \<open>2 ^ 64\<close>; a timer's value is
  passed through and stays a word.
\<close>

section \<open>Model\<close>

definition COUNT_MAX :: nat where "COUNT_MAX = 0xffffffff"

definition TIMER_FREQ :: nat where "TIMER_FREQ = 100"

definition TASK_TIMER_VALUE :: u64 where "TASK_TIMER_VALUE = 0"

definition TASK_TIMER_PERIOD :: nat where "TASK_TIMER_PERIOD = TIMER_FREQ div 50"

record timer =
  tm_timeout :: nat
  tm_value :: u64

definition is_over :: "timer \<Rightarrow> nat \<Rightarrow> bool" where
  "is_over t current_time \<longleftrightarrow> tm_timeout t < current_time"

text \<open>\<^verbatim>\<open>Ord for Timer\<close> compares the timeouts the other way round, so the heap's greatest timer is the earliest.\<close>

definition timer_le :: "timer \<Rightarrow> timer \<Rightarrow> bool" where
  "timer_le a b \<longleftrightarrow> tm_timeout b \<le> tm_timeout a"

record timer_manager =
  tmg_tick :: nat
  tmg_timers :: "timer list"

definition tm_new :: timer_manager where
  "tm_new = \<lparr>tmg_tick = 0, tmg_timers = []\<rparr>"

definition tm_add_timer :: "timer_manager \<Rightarrow> nat \<Rightarrow> u64 \<Rightarrow> timer_manager" where
  "tm_add_timer m timeout val =
     m\<lparr>tmg_timers := bh_push timer_le (tmg_timers m) \<lparr>tm_timeout = timeout, tm_value = val\<rparr>\<rparr>"

definition inc_tick_volatile :: "timer_manager \<Rightarrow> nat \<Rightarrow> timer_manager res" where
  "inc_tick_volatile m elapsed = rbind (usize_add (tmg_tick m) elapsed) (\<lambda>t. Inr (m\<lparr>tmg_tick := t\<rparr>))"

text \<open>The \<^verbatim>\<open>while\<close> loop of \<^verbatim>\<open>tick\<close>, on the heap, the event queue and the flag.\<close>

partial_function (option) tick_loop ::
    "nat \<Rightarrow> timer list \<Rightarrow> message_queue \<Rightarrow> bool \<Rightarrow> (bool \<times> timer list \<times> message_queue) res option" where
  "tick_loop now ts q task_timer_timeout =
     (case bh_peek ts of
        None \<Rightarrow> Some (Inr (task_timer_timeout, ts, q))
      | Some tmr \<Rightarrow>
          if is_over tmr now then
            (case bh_pop timer_le ts of
               (None, ts) \<Rightarrow> Some (Inl UnwrapNone)
             | (Some tmr, ts) \<Rightarrow>
                 if tm_value tmr = TASK_TIMER_VALUE then
                   (case usize_add now TASK_TIMER_PERIOD of
                      Inl p \<Rightarrow> Some (Inl p)
                    | Inr t \<Rightarrow> tick_loop now
                        (bh_push timer_le ts \<lparr>tm_timeout = t, tm_value = TASK_TIMER_VALUE\<rparr>) q True)
                 else
                   (case mq_push q (TimerTimeout (tm_value tmr)) of
                      Inl p \<Rightarrow> Some (Inl p)
                    | Inr (_, q) \<Rightarrow> tick_loop now ts q task_timer_timeout))
          else Some (Inr (task_timer_timeout, ts, q)))"

definition tm_tick ::
    "timer_manager \<Rightarrow> nat \<Rightarrow> message_queue \<Rightarrow> (bool \<times> timer_manager \<times> message_queue) res option" where
  "tm_tick m elapsed q =
     cbind (Some (inc_tick_volatile m elapsed)) (\<lambda>m.
     cbind (tick_loop (tmg_tick m) (tmg_timers m) q False) (\<lambda>(timeout, ts, q).
     Some (Inr (timeout, m\<lparr>tmg_timers := ts\<rparr>, q))))"

text \<open>\<^verbatim>\<open>initialize_timer\<close>: after the local APIC is calibrated, a fresh manager with the task timer armed.\<close>

definition initialize_timer :: "timer_manager res" where
  "initialize_timer =
     (let m = tm_new in
      rbind (usize_add (tmg_tick m) TASK_TIMER_PERIOD) (\<lambda>timeout.
      Inr (tm_add_timer m timeout TASK_TIMER_VALUE)))"

subsection \<open>Calibration of the local APIC timer\<close>

definition DIVIDE_CONF_ADDR :: addr where "DIVIDE_CONF_ADDR = 0xfee003e0"

definition LVT_TIMER_ADDR :: addr where "LVT_TIMER_ADDR = 0xfee00320"

definition INITIAL_COUNT_ADDR :: addr where "INITIAL_COUNT_ADDR = 0xfee00380"

definition start_lapic_timer :: "(addr \<times> nat) list" where
  "start_lapic_timer = [(INITIAL_COUNT_ADDR, COUNT_MAX)]"

definition stop_lapic_timer :: "(addr \<times> nat) list" where
  "stop_lapic_timer = [(INITIAL_COUNT_ADDR, 0)]"

definition lapic_timer_elapsed :: "u32 \<Rightarrow> nat res" where
  "lapic_timer_elapsed current_count = usize_sub COUNT_MAX (unat current_count)"

text \<open>
  The writes to the memory-mapped registers in order, and the value of \<^verbatim>\<open>LAPIC_TIMER_FREQ\<close>, as a function
  of the current count read after 100 ms; \<open>vector\<close> is \<^verbatim>\<open>IVIndex::LapicTimer\<close>. \<^verbatim>\<open>elapsed * 10\<close> is a
  32-bit product.
\<close>

definition initialize_lapic_timer :: "nat \<Rightarrow> u32 \<Rightarrow> ((addr \<times> nat) list \<times> nat) res" where
  "initialize_lapic_timer vector current_count =
     rbind (lapic_timer_elapsed current_count) (\<lambda>elapsed.
     if elapsed * 10 \<ge> 2 ^ 32 then Inl ArithOverflow
     else let freq = elapsed * 10 in
       Inr ([(DIVIDE_CONF_ADDR, 11), (LVT_TIMER_ADDR, push_bit 16 1)]
            @ start_lapic_timer @ stop_lapic_timer
            @ [(LVT_TIMER_ADDR, push_bit 16 2 OR vector), (INITIAL_COUNT_ADDR, freq div TIMER_FREQ)], freq))"

section \<open>Expired timers\<close>

interpretation tm: total_preorder timer_le
  by unfold_locales (auto simp: timer_le_def)

definition is_task :: "timer \<Rightarrow> bool" where
  "is_task t \<longleftrightarrow> tm_value t = TASK_TIMER_VALUE"

definition rearmed :: "nat \<Rightarrow> timer" where
  "rearmed now = \<lparr>tm_timeout = now + TASK_TIMER_PERIOD, tm_value = TASK_TIMER_VALUE\<rparr>"

definition by_timeout :: "timer list \<Rightarrow> bool" where
  "by_timeout es \<longleftrightarrow> sorted_wrt (\<lambda>a b. tm_timeout a \<le> tm_timeout b) es"

definition timer_messages :: "timer list \<Rightarrow> message list" where
  "timer_messages es = map (\<lambda>t. TimerTimeout (tm_value t)) (filter (\<lambda>t. \<not> is_task t) es)"

text \<open>What one run of the loop does to the heap, the queue and the flag when \<open>es\<close> are the expired timers.\<close>

definition tick_post ::
    "nat \<Rightarrow> timer list \<Rightarrow> message_queue \<Rightarrow> bool \<Rightarrow> timer list \<Rightarrow> bool \<times> timer list \<times> message_queue \<Rightarrow> bool" where
  "tick_post now ts q flag es r \<longleftrightarrow> (case r of (flag', ts', q') \<Rightarrow>
       mset es = filter_mset (\<lambda>t. is_over t now) (mset ts) \<and> by_timeout es
     \<and> flag' = (flag \<or> (\<exists>e \<in> set es. is_task e))
     \<and> heap_ok timer_le ts'
     \<and> mset ts' = filter_mset (\<lambda>t. \<not> is_over t now) (mset ts)
         + replicate_mset (length (filter is_task es)) (rearmed now)
     \<and> mq_inv q' \<and> mq_capacity q' = mq_capacity q
     \<and> mq_contents q' = take (mq_capacity q) (mq_contents q @ timer_messages es))"

lemma rearmed_not_over [simp]: "\<not> is_over (rearmed now) now"
  by (simp add: is_over_def rearmed_def)

lemma by_timeout_Cons:
  assumes "by_timeout es" "mset es = filter_mset P M" "\<forall>y \<in># add_mset t M. timer_le y t"
  shows "by_timeout (t # es)"
proof -
  have "set es = set_mset (filter_mset P M)" using arg_cong [OF assms(2), of set_mset] by simp
  with assms(1,3) show ?thesis by (auto simp: by_timeout_def timer_le_def)
qed

text \<open>The first expired timer is the task timer, or a timer of a client.\<close>

lemma tick_post_task:
  assumes ts: "mset ts = add_mset t (mset ts1)" "\<forall>y \<in># mset ts. timer_le y t"
    and t: "is_over t now" "is_task t"
    and ts2: "mset ts2 = add_mset (rearmed now) (mset ts1)" and post: "tick_post now ts2 q True es r"
  shows "tick_post now ts q flag (t # es) r"
proof -
  obtain flag' ts' q' where r: "r = (flag', ts', q')" by (cases r)
  have "mset es = filter_mset (\<lambda>t. is_over t now) (mset ts1)" "by_timeout es"
    using post r ts2 by (simp_all add: tick_post_def)
  with by_timeout_Cons [of es _ "mset ts1" t] ts have "by_timeout (t # es)" by simp
  then show ?thesis using post r ts t ts2 by (simp add: tick_post_def timer_messages_def del: take_append)
qed

lemma tick_post_msg:
  assumes ts: "mset ts = add_mset t (mset ts1)" "\<forall>y \<in># mset ts. timer_le y t"
    and t: "is_over t now" "\<not> is_task t"
    and q1: "mq_inv q" "mq_capacity q1 = mq_capacity q"
      "mq_contents q1 = take (mq_capacity q) (mq_contents q @ [TimerTimeout (tm_value t)])"
    and post: "tick_post now ts1 q1 flag es r"
  shows "tick_post now ts q flag (t # es) r"
proof -
  obtain flag' ts' q' where r: "r = (flag', ts', q')" by (cases r)
  have "mset es = filter_mset (\<lambda>t. is_over t now) (mset ts1)" "by_timeout es"
    using post r by (simp_all add: tick_post_def)
  with by_timeout_Cons [of es _ "mset ts1" t] ts have "by_timeout (t # es)" by simp
  then show ?thesis using post r ts(1) t q1 take_push [OF mq.contents_bound [OF q1(1)]]
    by (simp add: tick_post_def timer_messages_def del: take_append)
qed

lemma tick_loop_spec:
  assumes "heap_ok timer_le ts" "mq_inv q" "now + TASK_TIMER_PERIOD < usize_bound"
  shows "\<exists>es r. tick_loop now ts q flag = Some (Inr r) \<and> tick_post now ts q flag es r"
  using assms(1,2)
proof (induction "size (filter_mset (\<lambda>t. is_over t now) (mset ts))" arbitrary: ts q flag rule: less_induct)
  case less
  note heap = less.prems(1) and inv = less.prems(2)
  have idle: "tick_post now ts q flag [] (flag, ts, q)" if "filter_mset (\<lambda>t. is_over t now) (mset ts) = {#}"
  proof -
    have "filter_mset (\<lambda>t. \<not> is_over t now) (mset ts) = mset ts"
      using that by (metis add.left_neutral multiset_partition)
    with that heap inv mq.contents_bound [OF inv] show ?thesis
      by (simp add: tick_post_def by_timeout_def timer_messages_def)
  qed
  show ?case
  proof (cases "bh_peek ts")
    case None
    with tm.bh.peek_None [OF heap] idle show ?thesis by (subst tick_loop.simps) auto
  next
    case (Some tmr)
    from tm.bh.peek_Some [OF heap Some] obtain ts1 where
      pop: "bh_pop timer_le ts = (Some tmr, ts1)" "heap_ok timer_le ts1"
        "mset ts = add_mset tmr (mset ts1)" "\<forall>y \<in># mset ts. timer_le y tmr" by blast
    show ?thesis
    proof (cases "is_over tmr now")
      case False
      then have "filter_mset (\<lambda>t. is_over t now) (mset ts) = {#}"
        using pop(4) by (auto simp: filter_mset_eq_conv is_over_def timer_le_def)
      from idle [OF this] Some False show ?thesis by (subst tick_loop.simps) auto
    next
      case True
      show ?thesis
      proof (cases "is_task tmr")
        case task: True
        let ?ts2 = "bh_push timer_le ts1 (rearmed now)"
        have push: "heap_ok timer_le ?ts2" "mset ?ts2 = add_mset (rearmed now) (mset ts1)"
          using tm.bh.push_law [OF pop(2)] by auto
        have less': "size (filter_mset (\<lambda>t. is_over t now) (mset ?ts2)) < size (filter_mset (\<lambda>t. is_over t now) (mset ts))"
          using push(2) pop(3) True by simp
        from less.hyps [OF this push(1) inv, of True] obtain es r where
          r: "tick_loop now ?ts2 q True = Some (Inr r)" "tick_post now ?ts2 q True es r" by blast
        have "tick_loop now ts q flag = Some (Inr r)"
          using Some True pop(1) task r(1) assms(3)
          by (subst tick_loop.simps) (simp add: is_task_def res_simps rearmed_def)
        moreover have "tick_post now ts q flag (tmr # es) r"
          using tick_post_task [OF pop(3,4) True task push(2) r(2)] .
        ultimately show ?thesis by blast
      next
        case msg: False
        from mq.push_ignore [OF inv, of "TimerTimeout (tm_value tmr)"] obtain x q1 where
          q1: "mq_push q (TimerTimeout (tm_value tmr)) = Inr (x, q1)" "mq_inv q1" "mq_capacity q1 = mq_capacity q"
            "mq_contents q1 = take (mq_capacity q) (mq_contents q @ [TimerTimeout (tm_value tmr)])" by blast
        have less': "size (filter_mset (\<lambda>t. is_over t now) (mset ts1)) < size (filter_mset (\<lambda>t. is_over t now) (mset ts))"
          using pop(3) True by simp
        from less.hyps [OF this pop(2) q1(2), of flag] obtain es r where
          r: "tick_loop now ts1 q1 flag = Some (Inr r)" "tick_post now ts1 q1 flag es r" by blast
        have "tick_loop now ts q flag = Some (Inr r)"
          using Some True pop(1) msg r(1) q1(1) by (subst tick_loop.simps) (simp add: is_task_def)
        moreover have "tick_post now ts q flag (tmr # es) r"
          using tick_post_msg [OF pop(3,4) True msg inv q1(3,4) r(2)] .
        ultimately show ?thesis by blast
      qed
    qed
  qed
qed

lemma tm_tick_run:
  assumes "heap_ok timer_le (tmg_timers m)" "mq_inv q" "tmg_tick m + e + TASK_TIMER_PERIOD < usize_bound"
  obtains es flag ts' q' where "tm_tick m e q = Some (Inr (flag, m\<lparr>tmg_tick := tmg_tick m + e, tmg_timers := ts'\<rparr>, q'))"
    and "tick_post (tmg_tick m + e) (tmg_timers m) q False es (flag, ts', q')"
proof -
  from tick_loop_spec [OF assms, of False] obtain es flag ts' q' where
    run: "tick_loop (tmg_tick m + e) (tmg_timers m) q False = Some (Inr (flag, ts', q'))"
    and post: "tick_post (tmg_tick m + e) (tmg_timers m) q False es (flag, ts', q')" by fastforce
  have "inc_tick_volatile m e = Inr (m\<lparr>tmg_tick := tmg_tick m + e\<rparr>)"
    using assms(3) by (simp add: inc_tick_volatile_def res_simps)
  with run have "tm_tick m e q = Some (Inr (flag, m\<lparr>tmg_tick := tmg_tick m + e, tmg_timers := ts'\<rparr>, q'))"
    by (simp add: tm_tick_def)
  with that post show thesis by blast
qed

section \<open>The task timer\<close>

text \<open>There is exactly one task timer, and it is due at most one period from now.\<close>

definition task_inv :: "timer_manager \<Rightarrow> bool" where
  "task_inv m \<longleftrightarrow> heap_ok timer_le (tmg_timers m)
     \<and> (\<exists>t. filter_mset is_task (mset (tmg_timers m)) = {#t#} \<and> tm_timeout t \<le> tmg_tick m + TASK_TIMER_PERIOD)"

lemma initialize_timer_inv: "\<exists>m. initialize_timer = Inr m \<and> task_inv m \<and> tmg_tick m = 0"
proof -
  have "bh_push timer_le [] x = [x]" for x by (simp add: bh_push_def sift_up.simps)
  then show ?thesis
    by (simp add: initialize_timer_def tm_new_def tm_add_timer_def res_simps task_inv_def heap_ok_def
        is_task_def TASK_TIMER_PERIOD_def TIMER_FREQ_def usize_bound_def)
qed

lemma tm_add_timer_inv:
  assumes "task_inv m" "v \<noteq> TASK_TIMER_VALUE"
  shows "task_inv (tm_add_timer m timeout v)" "tmg_tick (tm_add_timer m timeout v) = tmg_tick m"
  using assms tm.bh.push_law [of "tmg_timers m" "\<lparr>tm_timeout = timeout, tm_value = v\<rparr>"]
  by (auto simp: tm_add_timer_def task_inv_def is_task_def)

text \<open>A tick reports a task switch exactly when the task timer is over, and otherwise leaves it alone.\<close>

lemma tm_tick_task:
  assumes inv: "task_inv m" "mq_inv q" and now: "tmg_tick m + e + TASK_TIMER_PERIOD < usize_bound"
    and t: "filter_mset is_task (mset (tmg_timers m)) = {#t#}"
  shows "\<exists>flag m' q'. tm_tick m e q = Some (Inr (flag, m', q')) \<and> task_inv m' \<and> mq_inv q'
    \<and> tmg_tick m' = tmg_tick m + e \<and> (flag \<longleftrightarrow> is_over t (tmg_tick m + e))
    \<and> (\<not> flag \<longrightarrow> filter_mset is_task (mset (tmg_timers m')) = {#t#})"
proof -
  let ?now = "tmg_tick m + e" and ?ts = "tmg_timers m"
  have heap: "heap_ok timer_le ?ts" and due: "tm_timeout t \<le> tmg_tick m + TASK_TIMER_PERIOD"
    using inv(1) t by (auto simp: task_inv_def)
  obtain es flag ts' q' where
    res: "tm_tick m e q = Some (Inr (flag, m\<lparr>tmg_tick := ?now, tmg_timers := ts'\<rparr>, q'))"
    and post: "tick_post ?now ?ts q False es (flag, ts', q')" by (rule tm_tick_run [OF heap inv(2) now])
  have es: "mset (filter is_task es) = filter_mset (\<lambda>x. is_over x ?now) {#t#}"
    using post by (simp add: tick_post_def mset_filter filter_filter_mset conj_commute flip: t)
  have left: "filter_mset is_task (mset ts')
      = filter_mset (\<lambda>x. \<not> is_over x ?now) {#t#} + replicate_mset (length (filter is_task es)) (rearmed ?now)"
  proof -
    have "filter_mset is_task (replicate_mset k (rearmed ?now)) = replicate_mset k (rearmed ?now)" for k
      by (induction k) (auto simp: rearmed_def is_task_def)
    then show ?thesis
      using post by (simp add: tick_post_def filter_filter_mset conj_commute flip: t)
  qed
  have len: "length (filter is_task es) = (if is_over t ?now then 1 else 0)"
    using arg_cong [OF es, of size] unfolding size_mset by simp
  have flag: "flag \<longleftrightarrow> filter is_task es \<noteq> []"
    using post by (auto simp: tick_post_def filter_empty_conv)
  have "heap_ok timer_le ts'" "mq_inv q'" using post by (simp_all add: tick_post_def)
  then show ?thesis using res left len flag due
    by (auto simp: task_inv_def rearmed_def split: if_splits)
qed

section \<open>Runs of the timer\<close>

datatype timer_event = Tick nat | AddTimer nat u64

fun elapsed_of :: "timer_event \<Rightarrow> nat" where
  "elapsed_of (Tick e) = e"
| "elapsed_of (AddTimer _ _) = 0"

fun timer_step ::
    "timer_event \<Rightarrow> timer_manager \<times> message_queue \<times> bool list
     \<Rightarrow> (timer_manager \<times> message_queue \<times> bool list) res option" where
  "timer_step (Tick e) (m, q, flags) =
     cbind (tm_tick m e q) (\<lambda>(flag, m', q'). Some (Inr (m', q', flags @ [flag])))"
| "timer_step (AddTimer timeout v) (m, q, flags) = Some (Inr (tm_add_timer m timeout v, q, flags))"

lemma timer_run:
  assumes "task_inv m" "mq_inv q" "tmg_tick m + sum_list (map elapsed_of evs) + TASK_TIMER_PERIOD < usize_bound"
    "\<forall>t v. AddTimer t v \<in> set evs \<longrightarrow> v \<noteq> TASK_TIMER_VALUE"
  shows "\<exists>m' q' flags'. cfoldM timer_step evs (m, q, flags) = Some (Inr (m', q', flags'))
    \<and> task_inv m' \<and> mq_inv q' \<and> tmg_tick m' = tmg_tick m + sum_list (map elapsed_of evs)"
  using assms
proof (induction evs arbitrary: m q flags)
  case Nil
  then show ?case by simp
next
  case (Cons ev evs)
  show ?case
  proof (cases ev)
    case (Tick e)
    obtain t where t: "filter_mset is_task (mset (tmg_timers m)) = {#t#}"
      using Cons.prems(1) by (auto simp: task_inv_def)
    have "tmg_tick m + e + TASK_TIMER_PERIOD < usize_bound" using Cons.prems(3) Tick by simp
    from tm_tick_task [OF Cons.prems(1,2) this t] obtain flag m1 q1 where
      1: "tm_tick m e q = Some (Inr (flag, m1, q1))" "task_inv m1" "mq_inv q1" "tmg_tick m1 = tmg_tick m + e"
      by blast
    from Cons.IH [OF 1(2,3), of "flags @ [flag]"] Cons.prems(3,4) 1(1,4) Tick show ?thesis by (auto simp: ac_simps)
  next
    case (AddTimer timeout v)
    then have "v \<noteq> TASK_TIMER_VALUE" using Cons.prems(4) by auto
    note 1 = tm_add_timer_inv [OF Cons.prems(1) this, of timeout]
    from Cons.IH [OF 1(1) Cons.prems(2), of flags] Cons.prems(3,4) AddTimer 1(2) show ?thesis by auto
  qed
qed

text \<open>As long as no switch is reported, the task timer stays where it is; it is over after three ticks.\<close>

lemma three_ticks:
  assumes "task_inv m" "mq_inv q" "tmg_tick m + 5 < usize_bound"
  shows "\<exists>m' q' a b c. cfoldM timer_step [Tick 1, Tick 1, Tick 1] (m, q, []) = Some (Inr (m', q', [a, b, c]))
    \<and> (a \<or> b \<or> c)"
proof -
  have P: "TASK_TIMER_PERIOD = 2" by (simp add: TASK_TIMER_PERIOD_def TIMER_FREQ_def)
  obtain t where t: "filter_mset is_task (mset (tmg_timers m)) = {#t#}" "tm_timeout t \<le> tmg_tick m + 2"
    using assms(1) P by (auto simp: task_inv_def)
  have "tmg_tick m + 1 + TASK_TIMER_PERIOD < usize_bound" using assms(3) P by simp
  from tm_tick_task [OF assms(1,2) this t(1)] obtain a m1 q1 where
    1: "tm_tick m 1 q = Some (Inr (a, m1, q1))" "task_inv m1" "mq_inv q1" "tmg_tick m1 = tmg_tick m + 1"
      "\<not> a \<longrightarrow> filter_mset is_task (mset (tmg_timers m1)) = {#t#}" by blast
  obtain t1 where t1: "filter_mset is_task (mset (tmg_timers m1)) = {#t1#}" using 1(2) by (auto simp: task_inv_def)
  have "tmg_tick m1 + 1 + TASK_TIMER_PERIOD < usize_bound" using assms(3) P 1(4) by simp
  from tm_tick_task [OF 1(2,3) this t1] obtain b m2 q2 where
    2: "tm_tick m1 1 q1 = Some (Inr (b, m2, q2))" "task_inv m2" "mq_inv q2" "tmg_tick m2 = tmg_tick m1 + 1"
      "\<not> b \<longrightarrow> filter_mset is_task (mset (tmg_timers m2)) = {#t1#}" by blast
  obtain t2 where t2: "filter_mset is_task (mset (tmg_timers m2)) = {#t2#}" using 2(2) by (auto simp: task_inv_def)
  have "tmg_tick m2 + 1 + TASK_TIMER_PERIOD < usize_bound" using assms(3) P 1(4) 2(4) by simp
  from tm_tick_task [OF 2(2,3) this t2] obtain c m3 q3 where
    3: "tm_tick m2 1 q2 = Some (Inr (c, m3, q3))" "c \<longleftrightarrow> is_over t2 (tmg_tick m2 + 1)" by blast
  have "c" if "\<not> a" "\<not> b"
  proof -
    have "t1 = t" "t2 = t1" using that 1(5) 2(5) t(1) t1 t2 by simp_all
    then show ?thesis using 3(2) t(2) 1(4) 2(4) by (simp add: is_over_def)
  qed
  then show ?thesis using 1(1) 2(1) 3(1) by auto
qed

section \<open>Properties\<close>

text \<open>
  (C16) A timer tick terminates and delivers every expired timer once. With a well-formed heap and queue and
  no overflow of the tick counter, \<^verbatim>\<open>tick\<close> returns. The expired timers \<open>es\<close>, in the order of their
  timeouts, are exactly those due before the new tick. Those that are not task timers are sent to the event
  queue in that order, as far as it has room; the flag tells whether a task timer expired, each of which is
  re-armed one period later; no expired timer is left in the heap, and no other timer is lost.
\<close>

theorem timer_tick_correct:
  assumes "heap_ok timer_le (tmg_timers m)" and "mq_inv q"
    and "tmg_tick m + elapsed + TASK_TIMER_PERIOD < usize_bound"
  shows "\<exists>flag m' q' es. tm_tick m elapsed q = Some (Inr (flag, m', q'))
    \<and> tmg_tick m' = tmg_tick m + elapsed
    \<and> mset es = filter_mset (\<lambda>t. tm_timeout t < tmg_tick m') (mset (tmg_timers m))
    \<and> sorted_wrt (\<lambda>a b. tm_timeout a \<le> tm_timeout b) es
    \<and> flag = (\<exists>e \<in> set es. tm_value e = TASK_TIMER_VALUE)
    \<and> mset (tmg_timers m') = filter_mset (\<lambda>t. \<not> tm_timeout t < tmg_tick m') (mset (tmg_timers m))
        + replicate_mset (length (filter (\<lambda>e. tm_value e = TASK_TIMER_VALUE) es))
            \<lparr>tm_timeout = tmg_tick m' + TASK_TIMER_PERIOD, tm_value = TASK_TIMER_VALUE\<rparr>
    \<and> heap_ok timer_le (tmg_timers m') \<and> mq_inv q'
    \<and> mq_contents q' = take (mq_capacity q)
        (mq_contents q @ map (\<lambda>e. TimerTimeout (tm_value e)) (filter (\<lambda>e. tm_value e \<noteq> TASK_TIMER_VALUE) es))"
proof -
  obtain es flag ts' q' where
    "tm_tick m elapsed q = Some (Inr (flag, m\<lparr>tmg_tick := tmg_tick m + elapsed, tmg_timers := ts'\<rparr>, q'))"
    and post: "tick_post (tmg_tick m + elapsed) (tmg_timers m) q False es (flag, ts', q')" by (rule tm_tick_run [OF assms])
  moreover have "is_task = (\<lambda>e. tm_value e = TASK_TIMER_VALUE)" by (auto simp: is_task_def)
  note post [unfolded tick_post_def timer_messages_def by_timeout_def is_over_def rearmed_def this]
  ultimately show ?thesis
    by (intro exI [of _ flag] exI [of _ "m\<lparr>tmg_tick := tmg_tick m + elapsed, tmg_timers := ts'\<rparr>"]
        exI [of _ q'] exI [of _ es]) (simp del: take_append)
qed

theorem timer_tick_correct_witness:
  "\<exists>flag m' q'. tm_tick \<lparr>tmg_tick = 4, tmg_timers = [\<lparr>tm_timeout = 3, tm_value = 7\<rparr>, \<lparr>tm_timeout = 6, tm_value = 0\<rparr>]\<rparr>
      1 (mq_new 8) = Some (Inr (flag, m', q')) \<and> \<not> flag \<and> mq_contents q' = [TimerTimeout 7]"
proof -
  let ?a = "\<lparr>tm_timeout = 3, tm_value = 7\<rparr> :: timer" and ?b = "\<lparr>tm_timeout = 6, tm_value = 0\<rparr> :: timer"
  let ?m = "\<lparr>tmg_tick = 4, tmg_timers = [?a, ?b]\<rparr>"
  have "heap_ok timer_le (tmg_timers ?m)" by (simp add: heap_ok_def timer_le_def par_def less_Suc_eq)
  moreover have "mq_inv (mq_new 8)" by (rule mq_new_inv) (simp_all add: usize_bound_def)
  moreover have "tmg_tick ?m + 1 + TASK_TIMER_PERIOD < usize_bound"
    by (simp add: TASK_TIMER_PERIOD_def TIMER_FREQ_def usize_bound_def)
  ultimately obtain flag m' q' es where
    r: "tm_tick ?m 1 (mq_new 8) = Some (Inr (flag, m', q'))" "tmg_tick m' = tmg_tick ?m + 1"
      "mset es = filter_mset (\<lambda>t. tm_timeout t < tmg_tick m') (mset (tmg_timers ?m))"
      "flag = (\<exists>e \<in> set es. tm_value e = TASK_TIMER_VALUE)"
      "mq_contents q' = take (mq_capacity (mq_new 8)) (mq_contents (mq_new 8)
         @ map (\<lambda>e. TimerTimeout (tm_value e)) (filter (\<lambda>e. tm_value e \<noteq> TASK_TIMER_VALUE) es))"
    using timer_tick_correct [of ?m "mq_new 8" 1] by blast
  from r(2,3) have "es = [?a]" by simp
  with r(4,5) have "\<not> flag" "mq_contents q' = [TimerTimeout 7]"
    by (simp_all add: TASK_TIMER_VALUE_def mq_new_contents) (simp add: mq_capacity_def mq_new_def)
  with r(1) show ?thesis by blast
qed

text \<open>
  (C33) Task switching never stops. Start the timers, then let any sequence of ticks and of added timers with
  values other than the reserved one happen. No step of it panics while the 64-bit tick counter does not
  overflow, and in the state it reaches, one of the next three timer interrupts reports a task switch.
\<close>

theorem task_switch_recurs:
  assumes "mq_inv q" and "sum_list (map elapsed_of evs) + 5 < usize_bound"
    and "\<forall>t v. AddTimer t v \<in> set evs \<longrightarrow> v \<noteq> TASK_TIMER_VALUE"
  shows "\<exists>m0 m q1 flags m' q' a b c. initialize_timer = Inr m0
    \<and> cfoldM timer_step evs (m0, q, []) = Some (Inr (m, q1, flags))
    \<and> cfoldM timer_step [Tick 1, Tick 1, Tick 1] (m, q1, []) = Some (Inr (m', q', [a, b, c]))
    \<and> (a \<or> b \<or> c)"
proof -
  obtain m0 where m0: "initialize_timer = Inr m0" "task_inv m0" "tmg_tick m0 = 0"
    using initialize_timer_inv by blast
  have "tmg_tick m0 + sum_list (map elapsed_of evs) + TASK_TIMER_PERIOD < usize_bound"
    using assms(2) m0(3) by (simp add: TASK_TIMER_PERIOD_def TIMER_FREQ_def)
  from timer_run [OF m0(2) assms(1) this assms(3), of "[]"] obtain m q1 flags where
    run: "cfoldM timer_step evs (m0, q, []) = Some (Inr (m, q1, flags))" "task_inv m" "mq_inv q1"
      "tmg_tick m = sum_list (map elapsed_of evs)" using m0(3) by auto
  have "tmg_tick m + 5 < usize_bound" using run(4) assms(2) by simp
  from three_ticks [OF run(2,3) this] obtain m' q' a b c where
    "cfoldM timer_step [Tick 1, Tick 1, Tick 1] (m, q1, []) = Some (Inr (m', q', [a, b, c]))" "a \<or> b \<or> c"
    by blast
  with m0(1) run(1) show ?thesis by blast
qed

theorem task_switch_recurs_witness:
  "\<exists>m0 m q1 flags. initialize_timer = Inr m0
    \<and> cfoldM timer_step [AddTimer 200 1, Tick 1, AddTimer 600 2, Tick 1] (m0, mq_new 1024, []) = Some (Inr (m, q1, flags))"
proof -
  have "mq_inv (mq_new 1024)" by (rule mq_new_inv) (simp_all add: usize_bound_def)
  from task_switch_recurs [OF this, of "[AddTimer 200 1, Tick 1, AddTimer 600 2, Tick 1]"]
  show ?thesis by (fastforce simp: TASK_TIMER_VALUE_def usize_bound_def)
qed

end
