(* ===== verification/Task.thy ===== *)
theory Task
  imports Prelude
begin

text \<open>
  Task switching, \<^verbatim>\<open>kernel/src/task.rs\<close>. The assembly routine \<^verbatim>\<open>switch_context\<close> is a list of
  instructions with a step function on the processor state, so that what is saved and what is
  restored is proved of the instructions themselves. The scheduler \<^verbatim>\<open>TaskManager\<close> is a queue of contexts
  that it rotates.

  The memory of the routine is a map from addresses to 64-bit cells; all its accesses are aligned.
  The image that \<^verbatim>\<open>fxsave\<close> stores is opaque and has its own map.
\<close>

section \<open>The processor\<close>

datatype reg = RAX | RBX | RCX | RDX | RDI | RSI | RSP | RBP
  | R8 | R9 | R10 | R11 | R12 | R13 | R14 | R15

datatype seg = CS | SS | FS | GS

record 'f cpu =
  cpu_regs :: "reg \<Rightarrow> u64"
  cpu_rip :: u64
  cpu_rflags :: u64
  cpu_cr3 :: u64
  cpu_segs :: "seg \<Rightarrow> u16"
  cpu_fpu :: 'f
  cpu_mem :: "u64 \<Rightarrow> u64"
  cpu_fxmem :: "u64 \<Rightarrow> 'f"

datatype instr =
    MovMemReg reg u64 reg
  | MovRegMem reg reg u64
  | Lea reg reg u64
  | MovRegCr3 reg
  | MovCr3Reg reg
  | Pushfq
  | PushMem reg u64
  | PopMem reg u64
  | MovReg16Seg reg seg
  | MovSegReg16 seg reg
  | Fxsave reg u64
  | Fxrstor reg u64
  | Iretq

text \<open>
  A 16-bit move keeps the upper bits of the register. \<^verbatim>\<open>iretq\<close> pops the instruction pointer, the code
  segment, the flags, the stack pointer and the stack segment.
\<close>

definition set_reg :: "reg \<Rightarrow> u64 \<Rightarrow> 'f cpu \<Rightarrow> 'f cpu" where
  "set_reg r v s = s\<lparr>cpu_regs := (cpu_regs s)(r := v)\<rparr>"

definition set_mem :: "u64 \<Rightarrow> u64 \<Rightarrow> 'f cpu \<Rightarrow> 'f cpu" where
  "set_mem a v s = s\<lparr>cpu_mem := (cpu_mem s)(a := v)\<rparr>"

definition push64 :: "u64 \<Rightarrow> 'f cpu \<Rightarrow> 'f cpu" where
  "push64 v s = (let sp = cpu_regs s RSP - 8 in set_mem sp v (set_reg RSP sp s))"

fun exec1 :: "instr \<Rightarrow> 'f cpu \<Rightarrow> 'f cpu" where
  "exec1 (MovMemReg b off r) s = set_mem (cpu_regs s b + off) (cpu_regs s r) s"
| "exec1 (MovRegMem r b off) s = set_reg r (cpu_mem s (cpu_regs s b + off)) s"
| "exec1 (Lea r b off) s = set_reg r (cpu_regs s b + off) s"
| "exec1 (MovRegCr3 r) s = set_reg r (cpu_cr3 s) s"
| "exec1 (MovCr3Reg r) s = s\<lparr>cpu_cr3 := cpu_regs s r\<rparr>"
| "exec1 Pushfq s = push64 (cpu_rflags s) s"
| "exec1 (PushMem b off) s = push64 (cpu_mem s (cpu_regs s b + off)) s"
| "exec1 (PopMem b off) s =
     (let sp = cpu_regs s RSP; s' = set_reg RSP (sp + 8) s
      in set_mem (cpu_regs s' b + off) (cpu_mem s sp) s')"
| "exec1 (MovReg16Seg r g) s =
     set_reg r ((cpu_regs s r AND NOT 0xffff) OR ucast (cpu_segs s g)) s"
| "exec1 (MovSegReg16 g r) s = s\<lparr>cpu_segs := (cpu_segs s)(g := ucast (cpu_regs s r))\<rparr>"
| "exec1 (Fxsave b off) s = s\<lparr>cpu_fxmem := (cpu_fxmem s)(cpu_regs s b + off := cpu_fpu s)\<rparr>"
| "exec1 (Fxrstor b off) s = s\<lparr>cpu_fpu := cpu_fxmem s (cpu_regs s b + off)\<rparr>"
| "exec1 Iretq s =
     (let sp = cpu_regs s RSP; m = cpu_mem s in
      set_reg RSP (m (sp + 24))
        (s\<lparr>cpu_rip := m sp,
           cpu_segs := (cpu_segs s)(CS := ucast (m (sp + 8)), SS := ucast (m (sp + 32))),
           cpu_rflags := m (sp + 16)\<rparr>))"

definition exec :: "instr list \<Rightarrow> 'f cpu \<Rightarrow> 'f cpu" where
  "exec code s = fold exec1 code s"

section \<open>switch_context\<close>

text \<open>The two parts of the routine: save into the context at \<open>rsi\<close>, restore from the one at \<open>rdi\<close>.\<close>

definition save_regs_code :: "instr list" where
  "save_regs_code =
    [MovMemReg RSI 0x40 RAX, MovMemReg RSI 0x48 RBX, MovMemReg RSI 0x50 RCX, MovMemReg RSI 0x58 RDX,
     MovMemReg RSI 0x60 RDI, MovMemReg RSI 0x68 RSI,
     Lea RAX RSP 8, MovMemReg RSI 0x70 RAX, MovMemReg RSI 0x78 RBP,
     MovMemReg RSI 0x80 R8, MovMemReg RSI 0x88 R9, MovMemReg RSI 0x90 R10, MovMemReg RSI 0x98 R11,
     MovMemReg RSI 0xa0 R12, MovMemReg RSI 0xa8 R13, MovMemReg RSI 0xb0 R14, MovMemReg RSI 0xb8 R15]"

definition save_ctl_code :: "instr list" where
  "save_ctl_code =
    [MovRegCr3 RAX, MovMemReg RSI 0x00 RAX,
     MovRegMem RAX RSP 0, MovMemReg RSI 0x08 RAX,
     Pushfq, PopMem RSI 0x10,
     MovReg16Seg RAX CS, MovMemReg RSI 0x20 RAX,
     MovReg16Seg RBX SS, MovMemReg RSI 0x28 RBX,
     MovReg16Seg RCX FS, MovMemReg RSI 0x30 RCX,
     MovReg16Seg RDX GS, MovMemReg RSI 0x38 RDX,
     Fxsave RSI 0xc0]"

definition push_frame_code :: "instr list" where
  "push_frame_code =
    [PushMem RDI 0x28, PushMem RDI 0x70, PushMem RDI 0x10, PushMem RDI 0x20, PushMem RDI 0x08,
     Fxrstor RDI 0xc0]"

definition load_regs_code :: "instr list" where
  "load_regs_code =
    [MovRegMem RAX RDI 0x00, MovCr3Reg RAX,
     MovRegMem RAX RDI 0x30, MovSegReg16 FS RAX,
     MovRegMem RAX RDI 0x38, MovSegReg16 GS RAX,
     MovRegMem RAX RDI 0x40, MovRegMem RBX RDI 0x48, MovRegMem RCX RDI 0x50, MovRegMem RDX RDI 0x58,
     MovRegMem RSI RDI 0x68, MovRegMem RBP RDI 0x78,
     MovRegMem R8 RDI 0x80, MovRegMem R9 RDI 0x88, MovRegMem R10 RDI 0x90, MovRegMem R11 RDI 0x98,
     MovRegMem R12 RDI 0xa0, MovRegMem R13 RDI 0xa8, MovRegMem R14 RDI 0xb0, MovRegMem R15 RDI 0xb8,
     MovRegMem RDI RDI 0x60, Iretq]"

definition switch_context :: "instr list" where
  "switch_context = save_regs_code @ save_ctl_code @ push_frame_code @ load_regs_code"

text \<open>The layout of \<^verbatim>\<open>TaskContext\<close>: the slot of each general register, and all slots.\<close>

fun slot :: "reg \<Rightarrow> u64" where
  "slot RAX = 0x40" | "slot RBX = 0x48" | "slot RCX = 0x50" | "slot RDX = 0x58"
| "slot RDI = 0x60" | "slot RSI = 0x68" | "slot RSP = 0x70" | "slot RBP = 0x78"
| "slot R8 = 0x80" | "slot R9 = 0x88" | "slot R10 = 0x90" | "slot R11 = 0x98"
| "slot R12 = 0xa0" | "slot R13 = 0xa8" | "slot R14 = 0xb0" | "slot R15 = 0xb8"

definition ctx_offsets :: "u64 list" where
  "ctx_offsets = [0x00, 0x08, 0x10, 0x18, 0x20, 0x28, 0x30, 0x38, 0x40, 0x48, 0x50, 0x58, 0x60, 0x68,
     0x70, 0x78, 0x80, 0x88, 0x90, 0x98, 0xa0, 0xa8, 0xb0, 0xb8]"

definition ctx_slots :: "u64 \<Rightarrow> u64 set" where
  "ctx_slots p = set (map (\<lambda>off. p + off) ctx_offsets)"

lemmas exec_simps = exec_def set_reg_def set_mem_def push64_def Let_def

lemma exec_append: "exec (xs @ ys) s = exec ys (exec xs s)"
  by (simp add: exec_def)

text \<open>Saving the general registers.\<close>

lemma save_regs:
  fixes s :: "'f cpu"
  defines "t \<equiv> exec save_regs_code s"
  shows "cpu_mem t (cpu_regs s RSI + slot r) = (if r = RSP then cpu_regs s RSP + 8 else cpu_regs s r)"
    and "x \<notin> ctx_slots (cpu_regs s RSI) \<Longrightarrow> cpu_mem t x = cpu_mem s x"
    and "cpu_regs t r' = (if r' = RAX then cpu_regs s RSP + 8 else cpu_regs s r')"
    and "cpu_rflags t = cpu_rflags s" "cpu_cr3 t = cpu_cr3 s" "cpu_segs t = cpu_segs s"
      "cpu_fpu t = cpu_fpu s" "cpu_fxmem t = cpu_fxmem s"
proof -
  show "cpu_mem t (cpu_regs s RSI + slot r) = (if r = RSP then cpu_regs s RSP + 8 else cpu_regs s r)"
    unfolding t_def by (cases r) (simp_all add: exec_simps save_regs_code_def)
  show "cpu_mem t x = cpu_mem s x" if "x \<notin> ctx_slots (cpu_regs s RSI)"
    using that unfolding t_def by (simp add: exec_simps save_regs_code_def ctx_slots_def ctx_offsets_def)
  show "cpu_regs t r' = (if r' = RAX then cpu_regs s RSP + 8 else cpu_regs s r')"
    unfolding t_def by (simp add: exec_simps save_regs_code_def)
qed (simp_all add: t_def exec_simps save_regs_code_def)

text \<open>The low half of a selector slot is the selector; the rest is left over from the register.\<close>

lemma selector_low: "ucast ((w AND NOT 0xffff) OR ucast (g :: u16) :: u64) = g"
proof (rule bit_word_eqI)
  fix n assume n: "n < LENGTH(16)"
  have m: "(0xffff :: u64) = mask 16" by (simp add: mask_eq_exp_minus_1)
  show "bit (ucast ((w AND NOT 0xffff) OR ucast g :: u64) :: u16) n = bit g n"
    unfolding m using n by (auto simp: bit_simps simp del: mask_numeral)
qed

lemma in_ctx_slots: "off \<in> set ctx_offsets \<Longrightarrow> p + off \<in> ctx_slots p"
  by (simp add: ctx_slots_def)

lemma not_in_ctx_slots:
  "x \<notin> ctx_slots p \<Longrightarrow> off \<in> set ctx_offsets \<Longrightarrow> p + off \<noteq> x"
  using in_ctx_slots by metis

lemma slot_offset: "slot r \<in> set ctx_offsets"
  by (cases r) (simp_all add: ctx_offsets_def)

lemma slot_in_ctx: "p + slot r \<in> ctx_slots p"
  using slot_offset by (rule in_ctx_slots)

text \<open>Saving the control state. The flags go through the stack, which must not overlap the context.\<close>

lemma save_ctl:
  fixes s :: "'f cpu"
  defines "t \<equiv> exec save_ctl_code s" and "p \<equiv> cpu_regs s RSI" and "sp \<equiv> cpu_regs s RSP"
  assumes sp: "sp \<notin> ctx_slots p" "sp - 8 \<notin> ctx_slots p"
  shows "cpu_mem t p = cpu_cr3 s" "cpu_mem t (p + 0x08) = cpu_mem s sp" "cpu_mem t (p + 0x10) = cpu_rflags s"
    "ucast (cpu_mem t (p + 0x20)) = cpu_segs s CS" "ucast (cpu_mem t (p + 0x28)) = cpu_segs s SS"
    "ucast (cpu_mem t (p + 0x30)) = cpu_segs s FS" "ucast (cpu_mem t (p + 0x38)) = cpu_segs s GS"
    and "cpu_mem t (p + slot r) = cpu_mem s (p + slot r)"
    and "\<lbrakk>x \<notin> ctx_slots p; x \<noteq> sp - 8\<rbrakk> \<Longrightarrow> cpu_mem t x = cpu_mem s x"
    and "cpu_regs t RDI = cpu_regs s RDI" "cpu_regs t RSP = sp"
    and "cpu_fxmem t = (cpu_fxmem s)(p + 0xc0 := cpu_fpu s)"
proof -
  define q where "q = sp - 8"
  have q: "q \<notin> ctx_slots p" using sp(2) by (simp add: q_def)
  have ne: "q \<noteq> p" "q \<noteq> p + 0x08" "q \<noteq> p + 0x10" "sp \<noteq> p" "sp \<noteq> p + 0x08"
    using q sp(1) by (auto simp: ctx_slots_def ctx_offsets_def)
  have neq: "p + slot r \<noteq> q" for r using q slot_in_ctx by metis
  have t: "cpu_mem t = (cpu_mem s)(p := cpu_cr3 s, p + 0x08 := cpu_mem s sp, q := cpu_rflags s,
      p + 0x10 := cpu_rflags s,
      p + 0x20 := (cpu_mem s sp AND NOT 0xffff) OR ucast (cpu_segs s CS),
      p + 0x28 := (cpu_regs s RBX AND NOT 0xffff) OR ucast (cpu_segs s SS),
      p + 0x30 := (cpu_regs s RCX AND NOT 0xffff) OR ucast (cpu_segs s FS),
      p + 0x38 := (cpu_regs s RDX AND NOT 0xffff) OR ucast (cpu_segs s GS))"
    using ne(4,5) unfolding t_def p_def sp_def q_def by (simp add: exec_simps save_ctl_code_def)
  show "cpu_mem t p = cpu_cr3 s" "cpu_mem t (p + 0x08) = cpu_mem s sp" "cpu_mem t (p + 0x10) = cpu_rflags s"
    using ne unfolding t by simp_all
  show "ucast (cpu_mem t (p + 0x20)) = cpu_segs s CS" "ucast (cpu_mem t (p + 0x28)) = cpu_segs s SS"
    "ucast (cpu_mem t (p + 0x30)) = cpu_segs s FS" "ucast (cpu_mem t (p + 0x38)) = cpu_segs s GS"
    using selector_low unfolding t by simp_all
  show "cpu_mem t (p + slot r) = cpu_mem s (p + slot r)"
    using neq [of r] unfolding t by (cases r) simp_all
  show "cpu_mem t x = cpu_mem s x" if "x \<notin> ctx_slots p" "x \<noteq> sp - 8"
    using that unfolding t q_def by (simp add: ctx_slots_def ctx_offsets_def)
qed (simp_all add: t_def p_def sp_def exec_simps save_ctl_code_def)

text \<open>The frame for \<^verbatim>\<open>iretq\<close> is built on the old stack from the slots of the new context.\<close>

definition stack_slots :: "u64 \<Rightarrow> u64 set" where
  "stack_slots sp = {sp - 8, sp - 16, sp - 24, sp - 32, sp - 40}"

lemma push_frame:
  fixes s :: "'f cpu"
  defines "t \<equiv> exec push_frame_code s" and "p \<equiv> cpu_regs s RDI" and "sp \<equiv> cpu_regs s RSP"
  assumes sep: "ctx_slots p \<inter> stack_slots sp = {}"
  shows "cpu_mem t (sp - 40) = cpu_mem s (p + 0x08)" "cpu_mem t (sp - 32) = cpu_mem s (p + 0x20)"
    "cpu_mem t (sp - 24) = cpu_mem s (p + 0x10)" "cpu_mem t (sp - 16) = cpu_mem s (p + 0x70)"
    "cpu_mem t (sp - 8) = cpu_mem s (p + 0x28)"
    and "x \<notin> stack_slots sp \<Longrightarrow> cpu_mem t x = cpu_mem s x"
    and "cpu_regs t RSP = sp - 40" "cpu_regs t RDI = p" "cpu_fpu t = cpu_fxmem s (p + 0xc0)"
    "cpu_fxmem t = cpu_fxmem s"
proof -
  have ne: "p + off \<noteq> sp - 8" "p + off \<noteq> sp - 16" "p + off \<noteq> sp - 24" "p + off \<noteq> sp - 32"
    if "off \<in> set ctx_offsets" for off
    using sep in_ctx_slots [OF that, of p] unfolding stack_slots_def by auto
  have off: "0x08 \<in> set ctx_offsets" "0x10 \<in> set ctx_offsets" "0x20 \<in> set ctx_offsets" "0x70 \<in> set ctx_offsets"
    by (simp_all add: ctx_offsets_def)
  have t: "cpu_mem t = (cpu_mem s)(sp - 8 := cpu_mem s (p + 0x28), sp - 16 := cpu_mem s (p + 0x70),
      sp - 24 := cpu_mem s (p + 0x10), sp - 32 := cpu_mem s (p + 0x20), sp - 40 := cpu_mem s (p + 0x08))"
    using ne [OF off(1)] ne [OF off(2)] ne [OF off(3)] ne [OF off(4)] unfolding t_def p_def sp_def
    by (simp add: exec_simps push_frame_code_def)
  show "cpu_mem t (sp - 40) = cpu_mem s (p + 0x08)" "cpu_mem t (sp - 32) = cpu_mem s (p + 0x20)"
    "cpu_mem t (sp - 24) = cpu_mem s (p + 0x10)" "cpu_mem t (sp - 16) = cpu_mem s (p + 0x70)"
    "cpu_mem t (sp - 8) = cpu_mem s (p + 0x28)"
    unfolding t by simp_all
  show "cpu_mem t x = cpu_mem s x" if "x \<notin> stack_slots sp"
    using that unfolding t by (simp add: stack_slots_def)
qed (simp_all add: t_def p_def sp_def exec_simps push_frame_code_def)

lemma load_regs:
  fixes s :: "'f cpu"
  defines "t \<equiv> exec load_regs_code s" and "p \<equiv> cpu_regs s RDI" and "sp \<equiv> cpu_regs s RSP"
  shows "r \<noteq> RSP \<Longrightarrow> cpu_regs t r = cpu_mem s (p + slot r)"
    "cpu_regs t RSP = cpu_mem s (sp + 24)" "cpu_rip t = cpu_mem s sp" "cpu_rflags t = cpu_mem s (sp + 16)"
    "cpu_segs t CS = ucast (cpu_mem s (sp + 8))" "cpu_segs t SS = ucast (cpu_mem s (sp + 32))"
    "cpu_segs t FS = ucast (cpu_mem s (p + 0x30))" "cpu_segs t GS = ucast (cpu_mem s (p + 0x38))"
    "cpu_cr3 t = cpu_mem s p" "cpu_mem t = cpu_mem s" "cpu_fpu t = cpu_fpu s" "cpu_fxmem t = cpu_fxmem s"
proof -
  show "cpu_regs t r = cpu_mem s (p + slot r)" if "r \<noteq> RSP"
    using that unfolding t_def p_def by (cases r) (simp_all add: exec_simps load_regs_code_def)
qed (simp_all add: t_def p_def sp_def exec_simps load_regs_code_def)

section \<open>Contexts\<close>

text \<open>
  The values of a \<^verbatim>\<open>TaskContext\<close>: as stored in memory, as the processor holds them, and as the caller
  of \<^verbatim>\<open>switch_context\<close> would find them if the call returned now.
\<close>

record 'f task_context =
  tc_regs :: "reg \<Rightarrow> u64"
  tc_rip :: u64
  tc_rflags :: u64
  tc_cr3 :: u64
  tc_segs :: "seg \<Rightarrow> u16"
  tc_fpu :: 'f

fun seg_slot :: "seg \<Rightarrow> u64" where
  "seg_slot CS = 0x20" | "seg_slot SS = 0x28" | "seg_slot FS = 0x30" | "seg_slot GS = 0x38"

definition stored_context :: "'f cpu \<Rightarrow> u64 \<Rightarrow> 'f task_context" where
  "stored_context s p =
     \<lparr>tc_regs = (\<lambda>r. cpu_mem s (p + slot r)), tc_rip = cpu_mem s (p + 0x08), tc_rflags = cpu_mem s (p + 0x10),
      tc_cr3 = cpu_mem s p, tc_segs = (\<lambda>g. ucast (cpu_mem s (p + seg_slot g))), tc_fpu = cpu_fxmem s (p + 0xc0)\<rparr>"

definition cpu_context :: "'f cpu \<Rightarrow> 'f task_context" where
  "cpu_context s =
     \<lparr>tc_regs = cpu_regs s, tc_rip = cpu_rip s, tc_rflags = cpu_rflags s, tc_cr3 = cpu_cr3 s,
      tc_segs = cpu_segs s, tc_fpu = cpu_fpu s\<rparr>"

definition return_context :: "'f cpu \<Rightarrow> 'f task_context" where
  "return_context s = (cpu_context s)\<lparr>tc_regs := (cpu_regs s)(RSP := cpu_regs s RSP + 8),
     tc_rip := cpu_mem s (cpu_regs s RSP)\<rparr>"

text \<open>The two contexts and the part of the stack the routine uses do not overlap.\<close>

definition switch_pre :: "'f cpu \<Rightarrow> bool" where
  "switch_pre s \<longleftrightarrow>
     (let p = cpu_regs s RDI; q = cpu_regs s RSI; sp = cpu_regs s RSP in
      ctx_slots p \<inter> ctx_slots q = {} \<and> ctx_slots p \<inter> insert sp (stack_slots sp) = {}
      \<and> ctx_slots q \<inter> insert sp (stack_slots sp) = {})"

lemma seg_slot_in: "p + seg_slot g \<in> ctx_slots p"
  by (cases g) (simp_all add: ctx_slots_def ctx_offsets_def)

lemma ctx_slots_ctl: "p \<in> ctx_slots p" "p + 0x08 \<in> ctx_slots p" "p + 0x10 \<in> ctx_slots p"
  by (simp_all add: ctx_slots_def ctx_offsets_def)

lemma stored_context_cong:
  assumes "\<And>x. x \<in> ctx_slots p \<Longrightarrow> cpu_mem t x = cpu_mem s x" "cpu_fxmem t (p + 0xc0) = cpu_fxmem s (p + 0xc0)"
  shows "stored_context t p = stored_context s p"
  using assms slot_in_ctx seg_slot_in ctx_slots_ctl by (simp add: stored_context_def)

text \<open>The state after the save phase.\<close>

lemma save_phase:
  fixes s :: "'f cpu"
  defines "t \<equiv> exec save_ctl_code (exec save_regs_code s)"
    and "p \<equiv> cpu_regs s RDI" and "q \<equiv> cpu_regs s RSI" and "sp \<equiv> cpu_regs s RSP"
  assumes pre: "switch_pre s"
  shows "stored_context t q = return_context s" "stored_context t p = stored_context s p"
    "cpu_regs t RDI = p" "cpu_regs t RSP = sp"
    "\<lbrakk>x \<notin> ctx_slots q; x \<noteq> sp - 8\<rbrakk> \<Longrightarrow> cpu_mem t x = cpu_mem s x"
proof -
  let ?s1 = "exec save_regs_code s"
  have r1: "cpu_regs ?s1 RSI = q" "cpu_regs ?s1 RSP = sp" "cpu_regs ?s1 RDI = p"
    by (simp_all add: save_regs(3) p_def q_def sp_def)
  have sep: "sp \<notin> ctx_slots q" "sp - 8 \<notin> ctx_slots q" "ctx_slots p \<inter> ctx_slots q = {}" "sp - 8 \<notin> ctx_slots p"
    using pre unfolding switch_pre_def Let_def stack_slots_def p_def q_def sp_def by auto
  note ctl = save_ctl [where s = ?s1, folded t_def, unfolded r1, OF sep(1,2)]
  have m1: "cpu_mem ?s1 x = cpu_mem s x" if "x \<notin> ctx_slots q" for x
    using save_regs(2) [of x s] that by (simp add: q_def)
  show frame: "cpu_mem t x = cpu_mem s x" if "x \<notin> ctx_slots q" "x \<noteq> sp - 8" for x
    using ctl(9) [OF that] m1 [OF that(1)] by simp
  have "ucast (cpu_mem t (q + seg_slot g)) = cpu_segs s g" for g
    using ctl(4-7) save_regs(6) [of s] by (cases g) simp_all
  then show "stored_context t q = return_context s"
    using ctl(1-3,8,12) m1 [OF sep(1)] save_regs(1) [of s, folded q_def] save_regs(4,5,7) [of s]
    by (auto simp: stored_context_def return_context_def cpu_context_def sp_def [symmetric])
  show "stored_context t p = stored_context s p"
  proof (rule stored_context_cong)
    show "cpu_mem t x = cpu_mem s x" if "x \<in> ctx_slots p" for x using frame sep(3,4) that by blast
    have "p \<noteq> q" using sep(3) ctx_slots_ctl(1) [of p] by auto
    then show "cpu_fxmem t (p + 0xc0) = cpu_fxmem s (p + 0xc0)" using ctl(12) save_regs(8) [of s] by simp
  qed
  show "cpu_regs t RDI = p" "cpu_regs t RSP = sp" using ctl(10,11) r1 by simp_all
qed

lemma restore_phase:
  fixes s :: "'f cpu"
  defines "t \<equiv> exec load_regs_code (exec push_frame_code s)"
    and "p \<equiv> cpu_regs s RDI" and "sp \<equiv> cpu_regs s RSP"
  assumes sep: "ctx_slots p \<inter> stack_slots sp = {}"
  shows "cpu_context t = stored_context s p" "cpu_fxmem t = cpu_fxmem s"
    "x \<notin> stack_slots sp \<Longrightarrow> cpu_mem t x = cpu_mem s x"
proof -
  let ?s1 = "exec push_frame_code s"
  note push = push_frame [where s = s, folded p_def sp_def, OF sep]
  note load = load_regs [where s = ?s1, folded t_def, unfolded push(7,8)]
  have keep: "cpu_mem ?s1 x = cpu_mem s x" if "x \<in> ctx_slots p" for x
    using push(6) sep that by blast
  have "cpu_regs t r = cpu_mem s (p + slot r)" for r
    using load(1,2) keep slot_in_ctx push(4) by (cases "r = RSP") simp_all
  moreover have "cpu_segs t g = ucast (cpu_mem s (p + seg_slot g))" for g
    using load(5-8) push(2,5) keep [OF seg_slot_in [of p FS]] keep [OF seg_slot_in [of p GS]]
    by (cases g) simp_all
  moreover have "cpu_rip t = cpu_mem s (p + 0x08)" "cpu_rflags t = cpu_mem s (p + 0x10)"
      "cpu_cr3 t = cpu_mem s p" "cpu_fpu t = cpu_fxmem s (p + 0xc0)"
    using load(3,4,9,11) push(1,3,9) keep ctx_slots_ctl by simp_all
  ultimately show "cpu_context t = stored_context s p"
    by (auto simp: cpu_context_def stored_context_def)
  show "cpu_fxmem t = cpu_fxmem s" using load(12) push(10) by simp
  show "cpu_mem t x = cpu_mem s x" if "x \<notin> stack_slots sp" using load(10) push(6) that by simp
qed

lemma switch_context_spec:
  fixes s :: "'f cpu"
  assumes pre: "switch_pre s"
  shows "cpu_context (exec switch_context s) = stored_context s (cpu_regs s RDI)"
    "stored_context (exec switch_context s) (cpu_regs s RSI) = return_context s"
    "x \<notin> ctx_slots (cpu_regs s RSI) \<union> stack_slots (cpu_regs s RSP) \<Longrightarrow>
      cpu_mem (exec switch_context s) x = cpu_mem s x"
proof -
  let ?t = "exec save_ctl_code (exec save_regs_code s)"
  have code: "exec switch_context s = exec load_regs_code (exec push_frame_code ?t)"
    by (simp add: switch_context_def exec_append)
  note save = save_phase [OF pre]
  have sep: "ctx_slots (cpu_regs s RDI) \<inter> stack_slots (cpu_regs s RSP) = {}"
      "ctx_slots (cpu_regs s RSI) \<inter> stack_slots (cpu_regs s RSP) = {}"
    using pre by (auto simp: switch_pre_def Let_def)
  note restore = restore_phase [where s = ?t, unfolded save(3,4), OF sep(1)]
  show "cpu_context (exec switch_context s) = stored_context s (cpu_regs s RDI)"
    using restore(1) save(2) code by simp
  have "stored_context (exec switch_context s) (cpu_regs s RSI) = stored_context ?t (cpu_regs s RSI)"
  proof (rule stored_context_cong)
    show "cpu_mem (exec switch_context s) x = cpu_mem ?t x" if "x \<in> ctx_slots (cpu_regs s RSI)" for x
      unfolding code using that sep(2) by (intro restore(3)) blast
  qed (simp add: code restore(2))
  then show "stored_context (exec switch_context s) (cpu_regs s RSI) = return_context s"
    using save(1) by simp
  show "cpu_mem (exec switch_context s) x = cpu_mem s x"
    if "x \<notin> ctx_slots (cpu_regs s RSI) \<union> stack_slots (cpu_regs s RSP)"
    using restore(3) [of x] save(5) [of x] that code by (simp add: stack_slots_def)
qed

section \<open>TaskManager\<close>

text \<open>
  The queue of contexts; the running task is at its front and its entry there is stale. A \<^verbatim>\<open>VecDeque\<close>
  is a ring, so \<^verbatim>\<open>as_mut_slices\<close> may return it in two pieces: \<open>k\<close> is the length of the first. \<open>running\<close> is
  what \<^verbatim>\<open>switch_context\<close> saves into the context of the old task; the result is the context it loads.
\<close>

definition init_task_manager :: "'c \<Rightarrow> 'c \<Rightarrow> 'c list" where
  "init_task_manager ctx_main ctx_taskB = [ctx_main, ctx_taskB]"

definition switch_tasks :: "nat \<Rightarrow> 'c \<Rightarrow> 'c list \<Rightarrow> ('c \<times> 'c list) res" where
  "switch_tasks k running ctxs =
     (case ctxs of
        [] \<Rightarrow> Inl UnwrapNone
      | old_task # rest \<Rightarrow>
          let ctxs = rest @ [old_task]; front = take k ctxs; tail = drop k ctxs in
          if tail = [] then
            let f = take 1 front; t = drop 1 front in
            if f = [] \<or> t = [] then Inl UnwrapNone
            else Inr (hd f, f @ t[length t - 1 := running])
          else if front = [] then Inl UnwrapNone
          else Inr (hd front, front @ tail[length tail - 1 := running]))"

text \<open>A round: switch to the next task, which then runs and changes its context by \<open>work\<close>.\<close>

definition round_step :: "nat \<times> ('c \<Rightarrow> 'c) \<Rightarrow> 'c \<times> 'c list \<Rightarrow> ('c \<times> 'c list) res" where
  "round_step r s = rbind (switch_tasks (fst r) (fst s) (snd s)) (\<lambda>(c, ctxs). Inr (snd r c, ctxs))"

lemma last_update: "xs \<noteq> [] \<Longrightarrow> xs[length xs - 1 := x] = butlast xs @ [x]"
  by (cases xs rule: rev_cases) simp_all

lemma switch_tasks_rotates:
  assumes "0 < k" "rest \<noteq> []"
  shows "switch_tasks k running (old # rest) = Inr (hd rest, rest @ [running])"
proof (cases "length rest < k")
  case True
  obtain c cs where "rest = c # cs" using assms(2) by (cases rest) auto
  with True show ?thesis by (simp add: switch_tasks_def Let_def last_update)
next
  case False
  have "take k rest \<noteq> []" "hd (take k rest) = hd rest" using assms by simp_all
  moreover have "(drop k rest @ [old])[length rest - k := running] = drop k rest @ [running]"
    using False last_update [of "drop k rest @ [old]" running] by simp
  ultimately show ?thesis using False
    by (simp add: switch_tasks_def Let_def)
qed

lemma rounds:
  assumes "length rs = length cs" "\<forall>r \<in> set rs. 0 < fst r"
  defines "outs \<equiv> map2 (\<lambda>r c. snd r c) rs cs"
  shows "foldM round_step rs (c, x # cs @ waiting)
    = Inr (last (c # outs), last (x # cs) # waiting @ butlast (c # outs))"
  using assms(1,2) unfolding outs_def
proof (induction rs cs arbitrary: c x waiting rule: list_induct2)
  case Nil
  then show ?case by simp
next
  case (Cons r rs d cs)
  have "switch_tasks (fst r) c (x # d # cs @ waiting) = Inr (d, d # cs @ waiting @ [c])"
    using switch_tasks_rotates [of "fst r" "d # cs @ waiting" c x] Cons.prems by simp
  with Cons.IH [of "snd r d" d "waiting @ [c]"] Cons.prems show ?case by (simp add: round_step_def)
qed

section \<open>Properties\<close>

text \<open>
  (C15) \<^verbatim>\<open>switch_context\<close> saves one task and resumes the other. When the contexts and the top of the stack
  do not overlap, the sixty instructions leave the processor with exactly the context stored at \<open>rdi\<close>:
  all sixteen registers, instruction pointer, flags, page table, segments and floating-point state.
  The context at \<open>rsi\<close> then holds the state in which the call would have returned, and no other memory
  changes except five stack cells below the stack pointer.
\<close>

theorem switch_context_correct:
  fixes s :: "'f cpu"
  assumes "switch_pre s"
  shows "cpu_context (exec switch_context s) = stored_context s (cpu_regs s RDI)
    \<and> stored_context (exec switch_context s) (cpu_regs s RSI) = return_context s
    \<and> (\<forall>x. x \<in> ctx_slots (cpu_regs s RSI) \<or> x \<in> stack_slots (cpu_regs s RSP)
         \<or> cpu_mem (exec switch_context s) x = cpu_mem s x)"
  using switch_context_spec [OF assms] by blast

definition example_cpu :: "unit cpu" where
  "example_cpu = \<lparr>cpu_regs = (\<lambda>_. 0)(RDI := 0x1000, RSI := 0x2000, RSP := 0x8000, RBX := 7), cpu_rip = 0,
     cpu_rflags = 0x202, cpu_cr3 = 0x5000, cpu_segs = (\<lambda>_. 8), cpu_fpu = (),
     cpu_mem = (\<lambda>_. 0)(0x1008 := 0x1234, 0x1070 := 0x9000), cpu_fxmem = (\<lambda>_. ())\<rparr>"

lemma example_slots:
  "x \<in> ctx_slots 0x1000 \<Longrightarrow> x < 0x2000"
  "x \<in> ctx_slots 0x2000 \<Longrightarrow> 0x2000 \<le> x \<and> x < 0x3000"
  "x \<in> insert 0x8000 (stack_slots 0x8000) \<Longrightarrow> 0x3000 \<le> x"
  "x \<in> insert 0x9000 (stack_slots 0x9000) \<Longrightarrow> 0x3000 \<le> x"
  by (auto simp: ctx_slots_def ctx_offsets_def stack_slots_def)

lemma example_disjoint:
  "ctx_slots 0x1000 \<inter> ctx_slots 0x2000 = {}"
  "sp = 0x8000 \<or> sp = 0x9000 \<Longrightarrow> ctx_slots 0x1000 \<inter> insert sp (stack_slots sp) = {}"
  "sp = 0x8000 \<or> sp = 0x9000 \<Longrightarrow> ctx_slots 0x2000 \<inter> insert sp (stack_slots sp) = {}"
proof -
  have below: "x < 0x3000" if "x \<in> ctx_slots 0x1000 \<or> x \<in> ctx_slots 0x2000" for x
  proof -
    have "x < 0x2000 \<or> x < 0x3000" using that example_slots(1,2) by blast
    then show ?thesis using less_trans [of x "0x2000" "0x3000"] by auto
  qed
  show "ctx_slots 0x1000 \<inter> ctx_slots 0x2000 = {}" using example_slots(1,2) by (meson disjoint_iff leD)
  show "ctx_slots 0x1000 \<inter> insert sp (stack_slots sp) = {}" "ctx_slots 0x2000 \<inter> insert sp (stack_slots sp) = {}"
    if "sp = 0x8000 \<or> sp = 0x9000"
    using that below example_slots(3,4) by (meson disjoint_iff leD)+
qed

lemma example_cpu_pre: "switch_pre example_cpu"
  using example_disjoint(1) example_disjoint(2,3) [of "0x8000"]
  by (simp add: switch_pre_def example_cpu_def del: Int_insert_right)

theorem switch_context_correct_witness:
  "cpu_rip (exec switch_context example_cpu) = 0x1234 \<and> cpu_regs (exec switch_context example_cpu) RSP = 0x9000"
proof -
  have "cpu_context (exec switch_context example_cpu) = stored_context example_cpu 0x1000"
    using switch_context_correct [OF example_cpu_pre] by (simp add: example_cpu_def)
  then have "cpu_rip (exec switch_context example_cpu) = cpu_mem example_cpu 0x1008"
    "cpu_regs (exec switch_context example_cpu) = (\<lambda>r. cpu_mem example_cpu (0x1000 + slot r))"
    by (simp_all add: cpu_context_def stored_context_def)
  then show ?thesis by (simp add: example_cpu_def)
qed

text \<open>
  A task resumes where it was switched away from. If a task calls \<^verbatim>\<open>switch_context\<close> in state \<open>s\<close> and any
  later state \<open>u\<close>, in which the task's saved context is untouched, switches back to it, the processor
  continues with the registers, flags, segments and floating-point state of \<open>s\<close> at the return
  address, with the return address popped.
\<close>

theorem switch_context_resumes:
  fixes s u :: "'f cpu"
  assumes "switch_pre s" and "switch_pre u" and "cpu_regs u RDI = cpu_regs s RSI"
    and "\<And>x. x \<in> ctx_slots (cpu_regs s RSI) \<Longrightarrow> cpu_mem u x = cpu_mem (exec switch_context s) x"
    and "cpu_fxmem u (cpu_regs s RSI + 0xc0) = cpu_fxmem (exec switch_context s) (cpu_regs s RSI + 0xc0)"
  shows "cpu_context (exec switch_context u) = return_context s"
proof -
  have "stored_context u (cpu_regs s RSI) = stored_context (exec switch_context s) (cpu_regs s RSI)"
    by (rule stored_context_cong) (use assms(4,5) in auto)
  then show ?thesis
    using switch_context_spec(1) [OF assms(2)] switch_context_spec(2) [OF assms(1)] assms(3) by simp
qed

theorem switch_context_resumes_witness:
  "\<exists>u :: unit cpu. cpu_context (exec switch_context u) = return_context example_cpu"
proof -
  let ?t = "exec switch_context example_cpu"
  let ?u = "?t\<lparr>cpu_regs := (cpu_regs ?t)(RDI := 0x2000, RSI := 0x1000, RSP := 0x9000)\<rparr>"
  have "switch_pre ?u" using example_disjoint(1) example_disjoint(2,3) [of "0x9000"]
    by (simp add: switch_pre_def Int_commute del: Int_insert_right)
  then show ?thesis
    using switch_context_resumes [OF example_cpu_pre, of ?u] by (auto simp: example_cpu_def)
qed

text \<open>
  (C34) The scheduler is round-robin and loses no context. Whatever piece of the ring \<^verbatim>\<open>as_mut_slices\<close> returns
  first, after every other task has been switched to once and has run, the next switch resumes the
  first task with exactly its own context, and the queue holds the contexts the others reached, in
  the original order.
\<close>

theorem round_robin:
  assumes "length rs = length cs" and "\<forall>r \<in> set rs. 0 < fst r" and "cs \<noteq> []" and "0 < k"
  shows "rbind (foldM round_step rs (c, stale # cs)) (\<lambda>(running, ctxs). switch_tasks k running ctxs)
    = Inr (c, c # map2 (\<lambda>r d. snd r d) rs cs)"
proof -
  let ?outs = "map2 (\<lambda>r d. snd r d) rs cs"
  have ne: "?outs \<noteq> []" using assms(1,3) by (cases rs; cases cs) auto
  have "foldM round_step rs (c, stale # cs) = Inr (last ?outs, last (stale # cs) # c # butlast ?outs)"
    using rounds [OF assms(1,2), of c stale "[]"] ne by simp
  moreover have "switch_tasks k (last ?outs) (last (stale # cs) # c # butlast ?outs) = Inr (c, c # ?outs)"
    using switch_tasks_rotates [OF assms(4), of "c # butlast ?outs"] ne by (simp add: append_butlast_last_id)
  ultimately show ?thesis by simp
qed

theorem round_robin_witness:
  "rbind (foldM round_step [(2, Suc), (1, \<lambda>x. x * 2)] (10, [0, 20, 30])) (\<lambda>(running, ctxs). switch_tasks 3 running ctxs)
    = Inr (10, [10, 21, 60 :: nat])"
  using round_robin [of "[(2, Suc), (1, \<lambda>x. x * 2)]" "[20, 30]" 3 10 0] by simp

end
