(* ===== verification/Graphics.thy ===== *)
theory Graphics
  imports Prelude
begin

text \<open>
  Points, rectangles and the \<^verbatim>\<open>PixelWriter\<close> trait of \<^verbatim>\<open>kernel/src/graphic/graphics.rs\<close>. Coordinates are
  \<^verbatim>\<open>i32\<close> values, kept as integers with checked additions; a conversion with \<^verbatim>\<open>as\<close> wraps. The drawing
  routines that every \<^verbatim>\<open>PixelWriter\<close> inherits take the writer's \<^verbatim>\<open>write\<close> as a parameter, and what they
  draw is proved once from the contract of \<^verbatim>\<open>write\<close>, the locale \<open>pixel_writer\<close>.
\<close>

section \<open>i32\<close>

definition i32_ok :: "int \<Rightarrow> bool" where
  "i32_ok x \<longleftrightarrow> - (2 ^ 31) \<le> x \<and> x < 2 ^ 31"

definition i32_chk :: "int \<Rightarrow> int res" where
  "i32_chk x = (if i32_ok x then Inr x else Inl ArithOverflow)"

definition i32_add :: "int \<Rightarrow> int \<Rightarrow> int res" where
  "i32_add x y = i32_chk (x + y)"

definition i32_sub :: "int \<Rightarrow> int \<Rightarrow> int res" where
  "i32_sub x y = i32_chk (x - y)"

definition i32_neg :: "int \<Rightarrow> int res" where
  "i32_neg x = i32_chk (- x)"

text \<open>\<^verbatim>\<open>n as i32\<close> for an unsigned \<open>n\<close>, and \<^verbatim>\<open>x as usize\<close> for an \<^verbatim>\<open>i32\<close>.\<close>

definition as_i32 :: "nat \<Rightarrow> int" where
  "as_i32 n = (let w = n mod 2 ^ 32 in if w < 2 ^ 31 then int w else int w - 2 ^ 32)"

definition as_usize :: "int \<Rightarrow> nat" where
  "as_usize x = (if 0 \<le> x then nat x else nat (x + 2 ^ 64))"

lemma i32_chk_in [res_simps]: "i32_ok x \<Longrightarrow> i32_chk x = Inr x"
  by (simp add: i32_chk_def)

lemma i32_chk_eq_Inr [simp]: "i32_chk x = Inr y \<longleftrightarrow> i32_ok x \<and> y = x"
  by (auto simp: i32_chk_def)

lemma as_i32_small [simp]: "n < 2 ^ 31 \<Longrightarrow> as_i32 n = int n"
  by (simp add: as_i32_def Let_def)

lemma as_usize_nonneg [simp]: "0 \<le> x \<Longrightarrow> as_usize x = nat x"
  by (simp add: as_usize_def)

section \<open>Vec2 and Rect\<close>

type_synonym pixel_color = "u8 \<times> u8 \<times> u8"

type_synonym vec2 = "int \<times> int"

definition vec_add :: "vec2 \<Rightarrow> vec2 \<Rightarrow> vec2 res" where
  "vec_add a b = rbind (i32_add (fst a) (fst b)) (\<lambda>x. rbind (i32_add (snd a) (snd b)) (\<lambda>y. Inr (x, y)))"

definition vec_clamp :: "vec2 \<Rightarrow> vec2 \<Rightarrow> vec2 \<Rightarrow> vec2" where
  "vec_clamp v lo hi = (min (max (fst v) (fst lo)) (fst hi), min (max (snd v) (snd lo)) (snd hi))"

record rect =
  x1 :: int
  y1 :: int
  x2 :: int
  y2 :: int

definition rect_from_points :: "int \<Rightarrow> int \<Rightarrow> int \<Rightarrow> int \<Rightarrow> rect" where
  "rect_from_points a b c d = \<lparr>x1 = a, y1 = b, x2 = c, y2 = d\<rparr>"

definition rect_from_wh :: "int \<Rightarrow> int \<Rightarrow> int \<Rightarrow> int \<Rightarrow> rect res" where
  "rect_from_wh a b w h =
     rbind (i32_add a w) (\<lambda>c. rbind (i32_add b h) (\<lambda>d. Inr \<lparr>x1 = a, y1 = b, x2 = c, y2 = d\<rparr>))"

definition rect_to_origin :: "rect \<Rightarrow> rect res" where
  "rect_to_origin r =
     rbind (i32_sub (x2 r) (x1 r)) (\<lambda>w. rbind (i32_sub (y2 r) (y1 r)) (\<lambda>h.
     Inr \<lparr>x1 = 0, y1 = 0, x2 = w, y2 = h\<rparr>))"

definition rect_move_relative :: "rect \<Rightarrow> int \<Rightarrow> int \<Rightarrow> rect res" where
  "rect_move_relative r dx dy =
     rbind (i32_add (x1 r) dx) (\<lambda>a. rbind (i32_add (x2 r) dx) (\<lambda>c.
     rbind (i32_add (y1 r) dy) (\<lambda>b. rbind (i32_add (y2 r) dy) (\<lambda>d.
     Inr \<lparr>x1 = a, y1 = b, x2 = c, y2 = d\<rparr>))))"

definition rect_contained_by :: "rect \<Rightarrow> rect \<Rightarrow> bool" where
  "rect_contained_by r q \<longleftrightarrow> x1 q \<le> x1 r \<and> y1 q \<le> y1 r \<and> x2 r \<le> x2 q \<and> y2 r \<le> y2 q"

definition rect_intersection :: "rect \<Rightarrow> rect \<Rightarrow> rect option" where
  "rect_intersection r q =
     (let a = max (x1 r) (x1 q); c = min (x2 r) (x2 q) in
      if a \<ge> c then None
      else let b = max (y1 r) (y1 q); d = min (y2 r) (y2 q) in
        if b \<ge> d then None
        else Some \<lparr>x1 = a, y1 = b, x2 = c, y2 = d\<rparr>)"

text \<open>The points of a rectangle: the right and the lower edge do not belong to it.\<close>

definition points :: "rect \<Rightarrow> vec2 set" where
  "points r = {x1 r..<x2 r} \<times> {y1 r..<y2 r}"

lemma in_points: "(x, y) \<in> points r \<longleftrightarrow> x1 r \<le> x \<and> x < x2 r \<and> y1 r \<le> y \<and> y < y2 r"
  by (auto simp: points_def)

lemma intersection_Some:
  assumes "rect_intersection r q = Some i"
  shows "points i = points r \<inter> points q" "x1 i < x2 i" "y1 i < y2 i"
    "x1 i = max (x1 r) (x1 q)" "x2 i = min (x2 r) (x2 q)" "y1 i = max (y1 r) (y1 q)" "y2 i = min (y2 r) (y2 q)"
proof -
  from assms show i: "x1 i < x2 i" "y1 i < y2 i" "x1 i = max (x1 r) (x1 q)" "x2 i = min (x2 r) (x2 q)"
    "y1 i = max (y1 r) (y1 q)" "y2 i = min (y2 r) (y2 q)"
    by (auto simp: rect_intersection_def Let_def split: if_splits)
  show "points i = points r \<inter> points q" unfolding points_def i(3-6) by (simp add: Times_Int_Times)
qed

lemma intersection_None: "rect_intersection r q = None \<Longrightarrow> points r \<inter> points q = {}"
  by (auto simp: rect_intersection_def Let_def points_def split: if_splits)

section \<open>PixelWriter\<close>

definition range_i32 :: "int \<Rightarrow> int \<Rightarrow> int list" where
  "range_i32 a b = [a..b - 1]"

definition fill_rect ::
    "('g \<Rightarrow> vec2 \<Rightarrow> pixel_color \<Rightarrow> 'g res) \<Rightarrow> 'g \<Rightarrow> vec2 \<Rightarrow> nat \<times> nat \<Rightarrow> pixel_color \<Rightarrow> 'g res" where
  "fill_rect write g pos sz c =
     foldM (\<lambda>x g. foldM (\<lambda>y g. rbind (vec_add pos (x, y)) (\<lambda>p. write g p c))
                    (range_i32 0 (as_i32 (snd sz))) g)
       (range_i32 0 (as_i32 (fst sz))) g"

text \<open>
  \<^verbatim>\<open>draw_bitpattern\<close>: a square of side \<open>scale\<close> for every set bit, the most significant bit of a word
  leftmost. \<open>scale * dx\<close> is a product of \<^verbatim>\<open>u32\<close> values.
\<close>

definition u32_mul :: "nat \<Rightarrow> nat \<Rightarrow> nat res" where
  "u32_mul a b = (if a * b < 2 ^ 32 then Inr (a * b) else Inl ArithOverflow)"

definition draw_bitpattern ::
    "('g \<Rightarrow> vec2 \<Rightarrow> pixel_color \<Rightarrow> 'g res) \<Rightarrow> 'g \<Rightarrow> vec2 \<Rightarrow> u64 list \<Rightarrow> pixel_color \<Rightarrow> nat \<Rightarrow> 'g res" where
  "draw_bitpattern write g pos pattern c scale =
     foldM (\<lambda>dy g. foldM (\<lambda>dx g.
         if drop_bit (63 - dx) (pattern ! dy) AND 1 = 1 then
           rbind (u32_mul scale dx) (\<lambda>ox. rbind (u32_mul scale dy) (\<lambda>oy.
           rbind (vec_add pos (as_i32 ox, as_i32 oy)) (\<lambda>p.
             fill_rect write g p (scale, scale) c)))
         else Inr g) [0..<64] g) [0..<length pattern] g"

section \<open>The contract of a pixel writer\<close>

lemma foldM_nested:
  "foldM (\<lambda>x g. foldM (f x) (ys x) g) xs g
     = foldM (\<lambda>(x, y) g. f x y g) (concat (map (\<lambda>x. map (Pair x) (ys x)) xs)) g"
proof (induction xs arbitrary: g)
  case Nil
  then show ?case by simp
next
  case (Cons x xs)
  have "foldM (\<lambda>(x, y) g. f x y g) (map (Pair x) zs) g = foldM (f x) zs g" for zs g
    by (induction zs arbitrary: g) (auto intro!: rbind_cong)
  then show ?case using Cons by (auto simp: foldM_append intro!: rbind_cong)
qed

lemma foldM_if:
  "foldM (\<lambda>x g. if P x then f x g else Inr g) xs g = foldM f (filter P xs) g"
  by (induction xs arbitrary: g) (auto intro!: rbind_cong)

locale pixel_writer =
  fixes invar :: "'g \<Rightarrow> bool"
    and conf :: "'g \<Rightarrow> 'k"
    and inside :: "'g \<Rightarrow> vec2 set"
    and pixel :: "'g \<Rightarrow> vec2 \<Rightarrow> pixel_color"
    and put :: "'g \<Rightarrow> vec2 \<Rightarrow> pixel_color \<Rightarrow> 'g res"
  assumes put_law: "\<lbrakk>invar g; p \<in> inside g\<rbrakk> \<Longrightarrow> \<exists>g'. put g p c = Inr g' \<and> invar g' \<and> conf g' = conf g
      \<and> (\<forall>q \<in> inside g. pixel g' q = (if q = p then c else pixel g q))"
    and inside_conf: "conf g' = conf g \<Longrightarrow> inside g' = inside g"
begin

text \<open>\<open>painted g S c g'\<close>: the pixels of \<open>S\<close> have the colours \<open>c\<close> gives them, the others are as before.\<close>

definition painted :: "'g \<Rightarrow> vec2 set \<Rightarrow> (vec2 \<Rightarrow> pixel_color) \<Rightarrow> 'g \<Rightarrow> bool" where
  "painted g S c g' \<longleftrightarrow> invar g' \<and> conf g' = conf g
     \<and> (\<forall>q \<in> inside g. pixel g' q = (if q \<in> S then c q else pixel g q))"

lemma painted_refl: "invar g \<Longrightarrow> painted g {} c g"
  by (simp add: painted_def)

lemma painted_trans: "\<lbrakk>painted g S c g'; painted g' T c g''\<rbrakk> \<Longrightarrow> painted g (S \<union> T) c g''"
  using inside_conf [of g' g] by (auto simp: painted_def)

lemma painted_cong: "\<lbrakk>painted g S c g'; S \<inter> inside g = T \<inter> inside g\<rbrakk> \<Longrightarrow> painted g T c g'"
  by (auto simp: painted_def)

text \<open>A loop whose iterations each paint a part paints the union.\<close>

lemma paint_loop:
  assumes "invar g" "\<And>x g'. \<lbrakk>x \<in> set xs; invar g'; conf g' = conf g\<rbrakk> \<Longrightarrow> \<exists>g''. f x g' = Inr g'' \<and> painted g' (S x) c g''"
  shows "\<exists>g'. foldM f xs g = Inr g' \<and> painted g (\<Union>x \<in> set xs. S x) c g'"
proof -
  have "\<exists>g'. foldM f xs g = Inr g' \<and> (\<lambda>done t. painted g (\<Union>x \<in> set done. S x) c t) xs g'"
  proof (rule foldM_rule)
    show "painted g (\<Union>x \<in> set []. S x) c g" using painted_refl [OF assms(1)] by simp
    fix "done" x todo t
    assume split: "xs = done @ x # todo" and I: "painted g (\<Union>x \<in> set done. S x) c t"
    then have "\<exists>g''. f x t = Inr g'' \<and> painted t (S x) c g''"
      by (intro assms(2)) (auto simp: painted_def)
    then obtain t' where t': "f x t = Inr t'" "painted t (S x) c t'" by blast
    from painted_trans [OF I t'(2)] t'(1)
    show "\<exists>t'. f x t = Inr t' \<and> painted g (\<Union>x \<in> set (done @ [x]). S x) c t'" by (simp add: Un_commute)
  qed
  then show ?thesis .
qed

text \<open>
  \<open>paints g ops g'\<close>: a sequence of coloured shapes, later ones over earlier ones.
\<close>

definition paints :: "'g \<Rightarrow> (vec2 set \<times> pixel_color) list \<Rightarrow> 'g \<Rightarrow> bool" where
  "paints g ops g' \<longleftrightarrow> invar g' \<and> conf g' = conf g
     \<and> (\<forall>q \<in> inside g. pixel g' q = (case find (\<lambda>(S, c). q \<in> S) (rev ops) of Some (S, c) \<Rightarrow> c | None \<Rightarrow> pixel g q))"

lemma paints_refl: "invar g \<Longrightarrow> paints g [] g"
  by (simp add: paints_def)

lemma paints_step: "\<lbrakk>paints g ops g'; painted g' S (\<lambda>_. c) g''\<rbrakk> \<Longrightarrow> paints g (ops @ [(S, c)]) g''"
  using inside_conf [of g' g] by (auto simp: paints_def painted_def)

lemma put_painted: "\<lbrakk>invar g; p \<in> inside g\<rbrakk> \<Longrightarrow> \<exists>g'. put g p (c p) = Inr g' \<and> painted g {p} c g'"
  using put_law [of g p "c p"] by (auto simp: painted_def)

text \<open>\<^verbatim>\<open>fill_rect\<close> paints the rectangle.\<close>

lemma fill_rect_painted:
  assumes inv: "invar g" and size: "w < 2 ^ 31" "h < 2 ^ 31"
    and sub: "{fst pos..<fst pos + int w} \<times> {snd pos..<snd pos + int h} \<subseteq> inside g"
    and ok: "\<And>x y. (x, y) \<in> inside g \<Longrightarrow> i32_ok x \<and> i32_ok y"
  shows "\<exists>g'. fill_rect put g pos (w, h) c = Inr g'
    \<and> painted g ({fst pos..<fst pos + int w} \<times> {snd pos..<snd pos + int h}) (\<lambda>_. c) g'"
proof -
  let ?at = "\<lambda>x y. (fst pos + x, snd pos + y)"
  have one: "\<exists>g''. rbind (vec_add pos (x, y)) (\<lambda>p. put g' p c) = Inr g'' \<and> painted g' {?at x y} (\<lambda>_. c) g''"
    if "0 \<le> x" "x < int w" "0 \<le> y" "y < int h" "invar g'" "conf g' = conf g" for x y g'
  proof -
    have in': "?at x y \<in> inside g'" using sub that inside_conf [OF that(6)] by auto
    with ok inside_conf [OF that(6)] have "vec_add pos (x, y) = Inr (?at x y)"
      by (simp add: vec_add_def i32_add_def res_simps)
    with put_painted [OF that(5) in', of "\<lambda>_. c"] show ?thesis by simp
  qed
  have col: "\<exists>g''. foldM (\<lambda>y g. rbind (vec_add pos (x, y)) (\<lambda>p. put g p c)) (range_i32 0 (int h)) g' = Inr g''
      \<and> painted g' (\<Union>y \<in> set (range_i32 0 (int h)). {?at x y}) (\<lambda>_. c) g''"
    if "0 \<le> x" "x < int w" "invar g'" "conf g' = conf g" for x g'
    using that by (intro paint_loop one) (auto simp: range_i32_def)
  have "fill_rect put g pos (w, h) c = foldM (\<lambda>x g. foldM (\<lambda>y g. rbind (vec_add pos (x, y)) (\<lambda>p. put g p c))
      (range_i32 0 (int h)) g) (range_i32 0 (int w)) g"
    using size by (simp add: fill_rect_def)
  moreover have "\<exists>g''. foldM (\<lambda>x g. foldM (\<lambda>y g. rbind (vec_add pos (x, y)) (\<lambda>p. put g p c))
      (range_i32 0 (int h)) g) (range_i32 0 (int w)) g = Inr g''
      \<and> painted g (\<Union>x \<in> set (range_i32 0 (int w)). \<Union>y \<in> set (range_i32 0 (int h)). {?at x y}) (\<lambda>_. c) g''"
    by (rule paint_loop [OF inv], rule col) (auto simp: range_i32_def)
  moreover have "(\<Union>x \<in> set (range_i32 0 (int w)). \<Union>y \<in> set (range_i32 0 (int h)). {?at x y})
      = {fst pos..<fst pos + int w} \<times> {snd pos..<snd pos + int h}"
  proof -
    have "(a, b) \<in> (\<Union>x \<in> set (range_i32 0 (int w)). \<Union>y \<in> set (range_i32 0 (int h)). {?at x y})"
      if "a \<in> {fst pos..<fst pos + int w}" "b \<in> {snd pos..<snd pos + int h}" for a b
      using that by (intro UN_I [of "a - fst pos"] UN_I [of "b - snd pos"]) (auto simp: range_i32_def)
    then show ?thesis by (auto simp: range_i32_def)
  qed
  ultimately show ?thesis by simp
qed

end

end
