(* ===== verification/Frame_Buffer.thy ===== *)
theory Frame_Buffer
  imports Graphics
begin

text \<open>
  Frame buffers, \<^verbatim>\<open>kernel/src/graphic/frame_buffer.rs\<close>: a byte array with a configuration that says
  where a pixel lies and how its colour is stored. The theory models the byte accesses, bounds checks
  included, and shows what they do to the picture, a function from points to colours.
\<close>

section \<open>Byte slices\<close>

definition slice :: "'a list \<Rightarrow> nat \<Rightarrow> nat \<Rightarrow> 'a list res" where
  "slice xs a b = (if a \<le> b \<and> b \<le> length xs then Inr (take (b - a) (drop a xs)) else Inl IndexOutOfBounds)"

text \<open>\<^verbatim>\<open>xs[a..b].copy_from_slice(ys)\<close>\<close>

definition copy_from_slice :: "'a list \<Rightarrow> nat \<Rightarrow> nat \<Rightarrow> 'a list \<Rightarrow> 'a list res" where
  "copy_from_slice xs a b ys =
     (if \<not> (a \<le> b \<and> b \<le> length xs) then Inl IndexOutOfBounds
      else if length ys \<noteq> b - a then Inl LengthMismatch
      else Inr (take a xs @ ys @ drop b xs))"

text \<open>\<^verbatim>\<open>xs.copy_within(a..b, dest)\<close>\<close>

definition copy_within :: "'a list \<Rightarrow> nat \<Rightarrow> nat \<Rightarrow> nat \<Rightarrow> 'a list res" where
  "copy_within xs a b dest =
     rbind (slice xs a b) (\<lambda>ys.
       if dest + (b - a) \<le> length xs then Inr (take dest xs @ ys @ drop (dest + (b - a)) xs)
       else Inl IndexOutOfBounds)"

lemma slice_in [res_simps]: "\<lbrakk>a \<le> b; b \<le> length xs\<rbrakk> \<Longrightarrow> slice xs a b = Inr (take (b - a) (drop a xs))"
  by (simp add: slice_def)

lemma splice_nth:
  assumes "a + length ys \<le> length xs" "i < length xs"
  shows "(take a xs @ ys @ drop (a + length ys) xs) ! i = (if a \<le> i \<and> i < a + length ys then ys ! (i - a) else xs ! i)"
  using assms by (auto simp: nth_append min_def)

section \<open>Pixel formats\<close>

datatype pixel_format = PixelRGBResv8BitPerColor | PixelBGRResv8BitPerColor

fun bytes_per_pixel :: "pixel_format \<Rightarrow> nat" where
  "bytes_per_pixel PixelBGRResv8BitPerColor = 4"
| "bytes_per_pixel PixelRGBResv8BitPerColor = 4"

text \<open>\<^verbatim>\<open>write\<close> stores into the slice that starts at \<open>i\<close>.\<close>

fun format_write :: "pixel_format \<Rightarrow> pixel_color \<Rightarrow> u8 list \<Rightarrow> nat \<Rightarrow> u8 list res" where
  "format_write PixelBGRResv8BitPerColor (r, g, b) buf i =
     rbind (store buf i b) (\<lambda>buf. rbind (store buf (i + 1) g) (\<lambda>buf. store buf (i + 2) r))"
| "format_write PixelRGBResv8BitPerColor (r, g, b) buf i =
     rbind (store buf i r) (\<lambda>buf. rbind (store buf (i + 1) g) (\<lambda>buf. store buf (i + 2) b))"

fun raw_to_color :: "pixel_format \<Rightarrow> u8 list \<Rightarrow> pixel_color res" where
  "raw_to_color PixelBGRResv8BitPerColor raw =
     rbind (index raw 2) (\<lambda>r. rbind (index raw 1) (\<lambda>g. rbind (index raw 0) (\<lambda>b. Inr (r, g, b))))"
| "raw_to_color PixelRGBResv8BitPerColor raw =
     rbind (index raw 0) (\<lambda>r. rbind (index raw 1) (\<lambda>g. rbind (index raw 2) (\<lambda>b. Inr (r, g, b))))"

section \<open>Frame buffers\<close>

datatype frame_buffer_data = Vram "u8 list" | Shadow "u8 list"

fun data_get :: "frame_buffer_data \<Rightarrow> u8 list" where
  "data_get (Vram buf) = buf"
| "data_get (Shadow buf) = buf"

fun data_set :: "frame_buffer_data \<Rightarrow> u8 list \<Rightarrow> frame_buffer_data" where
  "data_set (Vram _) buf = Vram buf"
| "data_set (Shadow _) buf = Shadow buf"

record frame_buffer_conf =
  pixels_per_scanline :: nat
  horizontal_resolution :: nat
  vertical_resolution :: nat
  pixel_format :: pixel_format

record frame_buffer =
  fb_data :: frame_buffer_data
  fb_conf :: frame_buffer_conf

definition to_index :: "frame_buffer_conf \<Rightarrow> int \<Rightarrow> int \<Rightarrow> nat res" where
  "to_index conf x y =
     rbind (usize_mul (as_usize y) (pixels_per_scanline conf)) (\<lambda>a.
     rbind (usize_add a (as_usize x)) (\<lambda>b. usize_mul b (bytes_per_pixel (pixel_format conf))))"

record frame_buffer_raw =
  fbr_buf :: "u8 list"
  fbr_pixels_per_scanline :: nat
  fbr_horizontal_resolution :: nat
  fbr_vertical_resolution :: nat
  fbr_pixel_format :: pixel_format

text \<open>
  \<^verbatim>\<open>from_raw\<close>: the video memory starts at \<^verbatim>\<open>buf\<close>; its length is a product of \<^verbatim>\<open>u32\<close> values. The bytes behind
  the pointer are \<open>fbr_buf\<close>; a machine with less video memory than the product is undefined behaviour.
\<close>

definition fb_from_raw :: "frame_buffer_raw \<Rightarrow> frame_buffer res" where
  "fb_from_raw raw =
     rbind (u32_mul (fbr_pixels_per_scanline raw) (fbr_vertical_resolution raw)) (\<lambda>a.
     rbind (u32_mul a 4) (\<lambda>len.
     if length (fbr_buf raw) < len then Inl UndefinedBehaviour
     else Inr \<lparr>fb_data = Vram (take len (fbr_buf raw)),
       fb_conf = \<lparr>pixels_per_scanline = fbr_pixels_per_scanline raw,
         horizontal_resolution = fbr_horizontal_resolution raw,
         vertical_resolution = fbr_vertical_resolution raw, pixel_format = fbr_pixel_format raw\<rparr>\<rparr>))"

text \<open>\<^verbatim>\<open>new\<close> takes the format from the global \<^verbatim>\<open>DEFAULT_PIXEL_FORMAT\<close>.\<close>

definition fb_new :: "pixel_format option \<Rightarrow> nat \<Rightarrow> nat \<Rightarrow> frame_buffer res" where
  "fb_new dflt width height =
     rbind (unwrap dflt) (\<lambda>fmt.
     rbind (usize_mul width height) (\<lambda>a.
     rbind (usize_mul a (bytes_per_pixel fmt)) (\<lambda>len.
     Inr \<lparr>fb_data = Shadow (replicate len 0),
       fb_conf = \<lparr>pixels_per_scanline = width mod 2 ^ 32, horizontal_resolution = width mod 2 ^ 32,
         vertical_resolution = height mod 2 ^ 32, pixel_format = fmt\<rparr>\<rparr>)))"

definition fb_resolution :: "frame_buffer \<Rightarrow> nat \<times> nat" where
  "fb_resolution fb = (horizontal_resolution (fb_conf fb), vertical_resolution (fb_conf fb))"

definition fb_write :: "frame_buffer \<Rightarrow> vec2 \<Rightarrow> pixel_color \<Rightarrow> frame_buffer res" where
  "fb_write fb pos color =
     rbind (usize_mul (pixels_per_scanline (fb_conf fb)) (as_usize (snd pos))) (\<lambda>a.
     rbind (usize_add a (as_usize (fst pos))) (\<lambda>i_pixel.
     rbind (usize_mul i_pixel (bytes_per_pixel (pixel_format (fb_conf fb)))) (\<lambda>i.
     if i > length (data_get (fb_data fb)) then Inl IndexOutOfBounds
     else rbind (format_write (pixel_format (fb_conf fb)) color (data_get (fb_data fb)) i) (\<lambda>buf.
          Inr (fb\<lparr>fb_data := data_set (fb_data fb) buf\<rparr>)))))"

definition fb_color_at :: "frame_buffer \<Rightarrow> nat \<Rightarrow> nat \<Rightarrow> pixel_color res" where
  "fb_color_at fb x y =
     rbind (to_index (fb_conf fb) (as_i32 x) (as_i32 y)) (\<lambda>i.
     rbind (usize_add i (bytes_per_pixel (pixel_format (fb_conf fb)))) (\<lambda>e.
     rbind (slice (data_get (fb_data fb)) i e) (\<lambda>raw. raw_to_color (pixel_format (fb_conf fb)) raw)))"

definition fb_rect :: "frame_buffer \<Rightarrow> int \<Rightarrow> int \<Rightarrow> rect res" where
  "fb_rect fb x y = rect_from_wh x y (as_i32 (horizontal_resolution (fb_conf fb)))
     (as_i32 (vertical_resolution (fb_conf fb)))"

definition copy_row ::
    "frame_buffer \<Rightarrow> frame_buffer_conf \<Rightarrow> rect \<Rightarrow> rect \<Rightarrow> int \<times> int \<Rightarrow> u8 list \<Rightarrow> u8 list res" where
  "copy_row from conf modified copied ys buf_to = (case ys of (y_to, y_from) \<Rightarrow>
     rbind (to_index conf (x1 modified) y_to) (\<lambda>t0.
     rbind (to_index conf (x2 modified) y_to) (\<lambda>t1.
     rbind (to_index (fb_conf from) (x1 copied) y_from) (\<lambda>f0.
     rbind (to_index (fb_conf from) (x2 copied) y_from) (\<lambda>f1.
     rbind (slice (data_get (fb_data from)) f0 f1) (\<lambda>row.
     copy_from_slice buf_to t0 t1 row))))))"

definition fb_copy :: "frame_buffer \<Rightarrow> vec2 \<Rightarrow> frame_buffer \<Rightarrow> frame_buffer res" where
  "fb_copy fb pos from =
     rbind (fb_rect fb 0 0) (\<lambda>rect_buf.
     rbind (fb_rect from (fst pos) (snd pos)) (\<lambda>rect_from.
     case rect_intersection rect_buf rect_from of
       None \<Rightarrow> Inr fb
     | Some modified \<Rightarrow>
         rbind (i32_neg (fst pos)) (\<lambda>nx. rbind (i32_neg (snd pos)) (\<lambda>ny.
         rbind (rect_move_relative modified nx ny) (\<lambda>copied.
         rbind (foldM (copy_row from (fb_conf fb) modified copied)
                  (zip (range_i32 (y1 modified) (y2 modified)) (range_i32 (y1 copied) (y2 copied)))
                  (data_get (fb_data fb))) (\<lambda>buf.
         Inr (fb\<lparr>fb_data := data_set (fb_data fb) buf\<rparr>)))))))"

text \<open>One row of \<^verbatim>\<open>move_rect\<close>; the end of the target range is computed but not used.\<close>

definition move_row :: "frame_buffer_conf \<Rightarrow> vec2 \<Rightarrow> rect \<Rightarrow> int \<Rightarrow> u8 list \<Rightarrow> u8 list res" where
  "move_row conf to r y buf =
     rbind (i32_add y (y1 r)) (\<lambda>yf.
     rbind (to_index conf (x1 r) yf) (\<lambda>f0.
     rbind (to_index conf (x2 r) yf) (\<lambda>f1.
     rbind (i32_add y (snd to)) (\<lambda>yt.
     rbind (to_index conf (fst to) yt) (\<lambda>t0.
     rbind (i32_add (fst to) (x2 r)) (\<lambda>a. rbind (i32_sub a (x1 r)) (\<lambda>xt.
     rbind (to_index conf xt yt) (\<lambda>_.
     copy_within buf f0 f1 t0))))))))"

definition fb_move_rect :: "frame_buffer \<Rightarrow> vec2 \<Rightarrow> rect \<Rightarrow> frame_buffer res" where
  "fb_move_rect fb to r =
     rbind (fb_rect fb 0 0) (\<lambda>screen.
     rbind (rassert (rect_contained_by r screen)) (\<lambda>_.
     rbind (i32_sub (y2 r) (y1 r)) (\<lambda>rows.
     let ys = range_i32 0 rows in
     rbind (foldM (move_row (fb_conf fb) to r) (if snd to \<le> y1 r then ys else rev ys)
              (data_get (fb_data fb))) (\<lambda>buf.
     Inr (fb\<lparr>fb_data := data_set (fb_data fb) buf\<rparr>)))))"

section \<open>The picture\<close>

definition fb_wf :: "frame_buffer \<Rightarrow> bool" where
  "fb_wf fb \<longleftrightarrow> (let c = fb_conf fb in horizontal_resolution c \<le> pixels_per_scanline c
     \<and> pixels_per_scanline c < 2 ^ 31 \<and> vertical_resolution c < 2 ^ 31
     \<and> length (data_get (fb_data fb)) = pixels_per_scanline c * vertical_resolution c * 4)"

definition fb_inside :: "frame_buffer \<Rightarrow> vec2 set" where
  "fb_inside fb = {0..<int (horizontal_resolution (fb_conf fb))} \<times> {0..<int (vertical_resolution (fb_conf fb))}"

definition pix_index :: "frame_buffer_conf \<Rightarrow> int \<Rightarrow> int \<Rightarrow> nat" where
  "pix_index conf x y = (nat y * pixels_per_scanline conf + nat x) * 4"

fun color_of :: "pixel_format \<Rightarrow> u8 list \<Rightarrow> nat \<Rightarrow> pixel_color" where
  "color_of PixelBGRResv8BitPerColor buf i = (buf ! (i + 2), buf ! (i + 1), buf ! i)"
| "color_of PixelRGBResv8BitPerColor buf i = (buf ! i, buf ! (i + 1), buf ! (i + 2))"

definition fb_pixel :: "frame_buffer \<Rightarrow> vec2 \<Rightarrow> pixel_color" where
  "fb_pixel fb p = color_of (pixel_format (fb_conf fb)) (data_get (fb_data fb)) (pix_index (fb_conf fb) (fst p) (snd p))"

lemma bytes_per_pixel_4 [simp]: "bytes_per_pixel f = 4"
  by (cases f) simp_all

lemma data_get_set [simp]: "data_get (data_set d buf) = buf"
  by (cases d) simp_all

lemma in_fb_inside:
  "(x, y) \<in> fb_inside fb \<longleftrightarrow> 0 \<le> x \<and> x < int (horizontal_resolution (fb_conf fb))
     \<and> 0 \<le> y \<and> y < int (vertical_resolution (fb_conf fb))"
  by (auto simp: fb_inside_def)

text \<open>The bytes of a visible pixel lie inside the buffer, and no two pixels share a byte.\<close>

lemma row_bound:
  assumes "y < (v::nat)" "x \<le> p"
  shows "y * p + x \<le> p * v"
proof -
  have "Suc y * p \<le> v * p" using assms(1) by (intro mult_le_mono1) simp
  then show ?thesis using assms(2) by (simp add: mult.commute)
qed

lemma pix_index_end:
  assumes "fb_wf fb" "0 \<le> x" "x \<le> int (pixels_per_scanline (fb_conf fb))" "0 \<le> y"
    "y < int (vertical_resolution (fb_conf fb))"
  shows "pix_index (fb_conf fb) x y \<le> length (data_get (fb_data fb))"
proof -
  have "nat y * pixels_per_scanline (fb_conf fb) + nat x \<le> pixels_per_scanline (fb_conf fb) * vertical_resolution (fb_conf fb)"
    using assms by (intro row_bound) auto
  then show ?thesis using assms(1) unfolding pix_index_def fb_wf_def Let_def by (metis mult_le_mono1)
qed

lemma pix_index_bound:
  assumes "fb_wf fb" "(x, y) \<in> fb_inside fb"
  shows "pix_index (fb_conf fb) x y + 4 \<le> length (data_get (fb_data fb))"
proof -
  have "pix_index (fb_conf fb) (x + 1) y \<le> length (data_get (fb_data fb))"
    using assms by (intro pix_index_end) (auto simp: in_fb_inside fb_wf_def Let_def)
  then show ?thesis using assms(2) by (simp add: pix_index_def in_fb_inside nat_add_distrib algebra_simps)
qed

lemma fb_len_bound: "fb_wf fb \<Longrightarrow> length (data_get (fb_data fb)) + 4 < usize_bound"
proof -
  assume wf: "fb_wf fb"
  let ?p = "pixels_per_scanline (fb_conf fb)" and ?v = "vertical_resolution (fb_conf fb)"
  have "?p \<le> 2 ^ 31 - 1" "?v \<le> 2 ^ 31 - 1" using wf by (auto simp: fb_wf_def Let_def)
  then have "?p * ?v \<le> (2 ^ 31 - 1) * (2 ^ 31 - 1)" by (rule mult_le_mono)
  then show ?thesis using wf by (simp add: fb_wf_def Let_def usize_bound_def)
qed

lemma row_unique:
  fixes p :: nat
  assumes "y * p + x = y' * p + x'" "x < p" "x' < p"
  shows "y = y' \<and> x = x'"
proof -
  have "y = (y * p + x) div p" "y' = (y' * p + x') div p" using assms(2,3) by simp_all
  with assms(1) have "y = y'" by simp
  with assms(1) show ?thesis by simp
qed

lemma pix_index_unique:
  assumes wf: "fb_wf fb" and p: "(x, y) \<in> fb_inside fb" "(x', y') \<in> fb_inside fb"
    and eq: "pix_index (fb_conf fb) x y + k = pix_index (fb_conf fb) x' y' + k'" "k < 4" "k' < 4"
  shows "x = x' \<and> y = y' \<and> k = k'"
proof -
  let ?p = "pixels_per_scanline (fb_conf fb)"
  let ?a = "nat y * ?p + nat x" and ?b = "nat y' * ?p + nat x'"
  have "?a = (?a * 4 + k) div 4" "?b = (?b * 4 + k') div 4" using eq(2,3) by simp_all
  then have ab: "?a = ?b" using eq(1) unfolding pix_index_def by metis
  moreover have "nat x < ?p" "nat x' < ?p" using wf p by (auto simp: in_fb_inside fb_wf_def Let_def)
  ultimately have "nat y = nat y' \<and> nat x = nat x'" by (rule row_unique)
  then show ?thesis using p eq(1) ab by (auto simp: in_fb_inside pix_index_def)
qed

lemma to_index_in:
  assumes "fb_wf fb" "0 \<le> x" "x \<le> int (pixels_per_scanline (fb_conf fb))" "0 \<le> y"
    "y < int (vertical_resolution (fb_conf fb))"
  shows "to_index (fb_conf fb) x y = Inr (pix_index (fb_conf fb) x y)"
proof -
  have "pix_index (fb_conf fb) x y < usize_bound"
    using pix_index_end [OF assms] fb_len_bound [OF assms(1)] by simp
  then have b: "(nat y * pixels_per_scanline (fb_conf fb) + nat x) * 4 < usize_bound"
    by (simp add: pix_index_def)
  then show ?thesis using assms(2,4) by (simp add: to_index_def res_simps pix_index_def)
qed

section \<open>Writing and reading a pixel\<close>

lemma format_write_spec:
  assumes "i + 4 \<le> length buf"
  shows "\<exists>buf'. format_write f c buf i = Inr buf' \<and> length buf' = length buf
    \<and> color_of f buf' i = c \<and> (\<forall>j. (j < i \<or> i + 3 \<le> j) \<longrightarrow> buf' ! j = buf ! j)"
  using assms by (cases f; cases c) (auto simp: res_simps)

lemma color_of_cong:
  "\<lbrakk>\<And>k. k < 3 \<Longrightarrow> buf' ! (i + k) = buf ! (j + k)\<rbrakk> \<Longrightarrow> color_of f buf' i = color_of f buf j"
proof -
  assume a: "\<And>k. k < 3 \<Longrightarrow> buf' ! (i + k) = buf ! (j + k)"
  show ?thesis using a [of 0] a [of 1] a [of 2] by (cases f) simp_all
qed

lemma outside_window: "(\<And>k. k < n \<Longrightarrow> j \<noteq> i + k) \<Longrightarrow> j < i \<or> i + n \<le> (j::nat)"
proof (rule ccontr)
  assume a: "\<And>k. k < n \<Longrightarrow> j \<noteq> i + k" and "\<not> (j < i \<or> i + n \<le> j)"
  then have "j - i < n" "j = i + (j - i)" by (simp_all add: not_less not_le less_diff_conv2)
  then show False using a by blast
qed

lemma fb_write_spec:
  assumes wf: "fb_wf fb" and p: "(x, y) \<in> fb_inside fb"
  shows "\<exists>fb'. fb_write fb (x, y) c = Inr fb' \<and> fb_wf fb' \<and> fb_conf fb' = fb_conf fb
    \<and> (\<forall>q \<in> fb_inside fb. fb_pixel fb' q = (if q = (x, y) then c else fb_pixel fb q))"
proof -
  let ?i = "pix_index (fb_conf fb) x y" and ?buf = "data_get (fb_data fb)"
  have b: "?i + 4 \<le> length ?buf" by (rule pix_index_bound [OF wf p])
  from format_write_spec [OF b, of "pixel_format (fb_conf fb)" c] obtain buf' where
    buf': "format_write (pixel_format (fb_conf fb)) c ?buf ?i = Inr buf'" "length buf' = length ?buf"
      "color_of (pixel_format (fb_conf fb)) buf' ?i = c" "\<forall>j. (j < ?i \<or> ?i + 3 \<le> j) \<longrightarrow> buf' ! j = ?buf ! j"
    by blast
  let ?fb = "fb\<lparr>fb_data := data_set (fb_data fb) buf'\<rparr>"
  have "?i < usize_bound" using b fb_len_bound [OF wf] by simp
  moreover have "?i = (pixels_per_scanline (fb_conf fb) * nat y + nat x) * 4"
    by (simp add: pix_index_def mult.commute)
  ultimately have "fb_write fb (x, y) c = Inr ?fb"
    using buf'(1) b p by (simp add: fb_write_def res_simps in_fb_inside)
  moreover have "fb_wf ?fb" using wf buf'(2) by (simp add: fb_wf_def)
  moreover have "fb_pixel ?fb q = (if q = (x, y) then c else fb_pixel fb q)" if q: "q \<in> fb_inside fb" for q
  proof (cases "q = (x, y)")
    case True
    then show ?thesis using buf'(3) by (simp add: fb_pixel_def)
  next
    case False
    obtain x' y' where xy: "q = (x', y')" by fastforce
    have "buf' ! (pix_index (fb_conf fb) x' y' + k) = ?buf ! (pix_index (fb_conf fb) x' y' + k)" if k: "k < 3" for k
    proof -
      have "pix_index (fb_conf fb) x' y' + k \<noteq> ?i + k'" if "k' < 3" for k'
        using pix_index_unique [OF wf q [unfolded xy] p, of k k'] that k False xy by auto
      then have "pix_index (fb_conf fb) x' y' + k < ?i \<or> ?i + 3 \<le> pix_index (fb_conf fb) x' y' + k"
        by (rule outside_window)
      then show ?thesis using buf'(4) by blast
    qed
    then have "color_of (pixel_format (fb_conf fb)) buf' (pix_index (fb_conf fb) x' y')
        = color_of (pixel_format (fb_conf fb)) ?buf (pix_index (fb_conf fb) x' y')" by (rule color_of_cong)
    then have "fb_pixel ?fb q = fb_pixel fb q" using xy by (simp add: fb_pixel_def)
    then show ?thesis using False by simp
  qed
  ultimately show ?thesis by auto
qed

interpretation fbw: pixel_writer fb_wf fb_conf fb_inside fb_pixel fb_write
proof
  fix g p c
  assume "fb_wf g" "p \<in> fb_inside g"
  then show "\<exists>g'. fb_write g p c = Inr g' \<and> fb_wf g' \<and> fb_conf g' = fb_conf g
      \<and> (\<forall>q \<in> fb_inside g. fb_pixel g' q = (if q = p then c else fb_pixel g q))"
    using fb_write_spec [of g "fst p" "snd p" c] by simp
qed (simp add: fb_inside_def)

lemma fb_color_at_spec:
  assumes wf: "fb_wf fb" and p: "(int x, int y) \<in> fb_inside fb"
  shows "fb_color_at fb x y = Inr (fb_pixel fb (int x, int y))"
proof -
  let ?i = "pix_index (fb_conf fb) (int x) (int y)" and ?buf = "data_get (fb_data fb)"
  have b: "?i + 4 \<le> length ?buf" by (rule pix_index_bound [OF wf p])
  have small: "x < 2 ^ 31" "y < 2 ^ 31" using wf p by (auto simp: fb_wf_def Let_def in_fb_inside)
  have idx: "to_index (fb_conf fb) (as_i32 x) (as_i32 y) = Inr ?i"
    using to_index_in [OF wf, of "int x" "int y"] wf p small by (auto simp: in_fb_inside fb_wf_def Let_def)
  have "raw_to_color f (take 4 (drop ?i ?buf)) = Inr (color_of f ?buf ?i)" for f
    using b by (cases f) (simp_all add: res_simps)
  moreover have "slice ?buf ?i (?i + 4) = Inr (take 4 (drop ?i ?buf))" using b by (simp add: res_simps)
  moreover have "?i + 4 < usize_bound" using b fb_len_bound [OF wf] by simp
  ultimately show ?thesis using idx by (simp add: fb_color_at_def res_simps fb_pixel_def)
qed

section \<open>Copying rows\<close>

lemma row_window:
  fixes p :: nat
  assumes "x' < p" "b \<le> p"
  shows "y * p + a \<le> y' * p + x' \<and> y' * p + x' < y * p + b \<longleftrightarrow> y' = y \<and> a \<le> x' \<and> x' < b"
proof (cases y' y rule: linorder_cases)
  case less
  then have "Suc y' * p \<le> y * p" by (intro mult_le_mono1) simp
  then show ?thesis using less assms by auto
next
  case greater
  then have "Suc y * p \<le> y' * p" by (intro mult_le_mono1) simp
  then show ?thesis using greater assms by auto
qed auto

lemma block_window:
  assumes "k < (4::nat)"
  shows "u * 4 \<le> v * 4 + k \<and> v * 4 + k < w * 4 \<longleftrightarrow> u \<le> v \<and> v < w"
  using assms by auto

lemma pix_window:
  assumes wf: "fb_wf fb" and r: "0 \<le> a" "0 \<le> b" "b \<le> int (horizontal_resolution (fb_conf fb))" "0 \<le> y"
    and q: "(x', y') \<in> fb_inside fb" and k: "k < 4"
  shows "pix_index (fb_conf fb) a y \<le> pix_index (fb_conf fb) x' y' + k
      \<and> pix_index (fb_conf fb) x' y' + k < pix_index (fb_conf fb) b y \<longleftrightarrow> y' = y \<and> a \<le> x' \<and> x' < b"
proof -
  have "nat x' < pixels_per_scanline (fb_conf fb)" "nat b \<le> pixels_per_scanline (fb_conf fb)"
    using wf q r by (auto simp: in_fb_inside fb_wf_def Let_def)
  from row_window [OF this, of "nat y" "nat a" "nat y'"] show ?thesis
    unfolding pix_index_def block_window [OF k] using r q by (auto simp: in_fb_inside)
qed

lemma pix_index_diff:
  "\<lbrakk>0 \<le> a; a \<le> b\<rbrakk> \<Longrightarrow> pix_index c b y = pix_index c a y + nat (b - a) * 4"
  by (simp add: pix_index_def nat_diff_distrib algebra_simps diff_mult_distrib)

lemma row_splice:
  assumes wf: "fb_wf fb" and r: "0 \<le> a" "a \<le> b" "b \<le> int (horizontal_resolution (fb_conf fb))" "0 \<le> y"
      "y < int (vertical_resolution (fb_conf fb))"
    and len: "length buf = length (data_get (fb_data fb))" "length row = nat (b - a) * 4"
    and q: "(x', y') \<in> fb_inside fb" and k: "k < 4"
  shows "(take (pix_index (fb_conf fb) a y) buf @ row @ drop (pix_index (fb_conf fb) b y) buf)
      ! (pix_index (fb_conf fb) x' y' + k)
    = (if y' = y \<and> a \<le> x' \<and> x' < b then row ! (nat (x' - a) * 4 + k) else buf ! (pix_index (fb_conf fb) x' y' + k))"
proof -
  let ?i = "pix_index (fb_conf fb)"
  have b: "?i b y = ?i a y + length row" using pix_index_diff [OF r(1,2)] len(2) by simp
  have e: "?i b y \<le> length buf" using pix_index_end [OF wf, of b y] wf r len(1)
    by (auto simp: fb_wf_def Let_def)
  have i: "?i x' y' + k < length buf" using pix_index_bound [OF wf q] k len(1) by simp
  have w: "?i a y \<le> ?i x' y' + k \<and> ?i x' y' + k < ?i a y + length row \<longleftrightarrow> y' = y \<and> a \<le> x' \<and> x' < b"
    using pix_window [OF wf _ _ r(3) r(4) q k, of a] r b by simp
  have o: "?i x' y' + k - ?i a y = nat (x' - a) * 4 + k" if "y' = y" "a \<le> x'"
    using that pix_index_diff [of a x' "fb_conf fb" y] r by simp
  show ?thesis unfolding b using splice_nth [OF e [unfolded b] i] w o by simp
qed

lemma row_slice:
  assumes wf: "fb_wf fb" and r: "0 \<le> a" "a \<le> b" "b \<le> int (horizontal_resolution (fb_conf fb))" "0 \<le> y"
      "y < int (vertical_resolution (fb_conf fb))"
    and len: "length buf = length (data_get (fb_data fb))"
  shows "\<exists>row. slice buf (pix_index (fb_conf fb) a y) (pix_index (fb_conf fb) b y) = Inr row
    \<and> length row = nat (b - a) * 4
    \<and> (\<forall>x k. a \<le> x \<longrightarrow> x < b \<longrightarrow> k < 4 \<longrightarrow> row ! (nat (x - a) * 4 + k) = buf ! (pix_index (fb_conf fb) x y + k))"
proof -
  let ?i = "pix_index (fb_conf fb)"
  have b: "?i b y = ?i a y + nat (b - a) * 4" by (rule pix_index_diff [OF r(1,2)])
  have e: "?i b y \<le> length buf" using pix_index_end [OF wf, of b y] wf r len(1)
    by (auto simp: fb_wf_def Let_def)
  let ?row = "take (nat (b - a) * 4) (drop (?i a y) buf)"
  have "?row ! (nat (x - a) * 4 + k) = buf ! (?i x y + k)" if "a \<le> x" "x < b" "k < 4" for x k
  proof -
    have "nat (x - a) * 4 + k < nat (b - a) * 4" using that by linarith
    moreover have "?i x y = ?i a y + nat (x - a) * 4" using that r by (intro pix_index_diff) auto
    ultimately show ?thesis using e b by (simp add: add.assoc)
  qed
  moreover have "slice buf (?i a y) (?i b y) = Inr ?row" "length ?row = nat (b - a) * 4"
    using e b by (simp_all add: res_simps)
  ultimately show ?thesis by blast
qed

text \<open>
  \<open>moved_rows\<close>: the picture after some rows of a copy. The pixels of the columns \<open>a..<b\<close> in the rows
  \<open>rows\<close> come from \<open>src\<close>, shifted by \<open>(dx, dy)\<close>; the others are as in \<open>old\<close>.
\<close>

definition moved_rows :: "frame_buffer \<Rightarrow> u8 list \<Rightarrow> frame_buffer_conf \<Rightarrow> u8 list \<Rightarrow> int \<Rightarrow> int \<Rightarrow> int set
    \<Rightarrow> int \<Rightarrow> int \<Rightarrow> u8 list \<Rightarrow> bool" where
  "moved_rows fb old sconf src a b rows dx dy buf \<longleftrightarrow> length buf = length old
     \<and> (\<forall>x y k. (x, y) \<in> fb_inside fb \<longrightarrow> k < 4 \<longrightarrow>
          buf ! (pix_index (fb_conf fb) x y + k)
          = (if a \<le> x \<and> x < b \<and> y \<in> rows then src ! (pix_index sconf (x - dx) (y - dy) + k)
             else old ! (pix_index (fb_conf fb) x y + k)))"

lemma moved_rows_none: "moved_rows fb old sconf src a b {} dx dy old"
  by (simp add: moved_rows_def)

lemma moved_rows_step:
  assumes wf: "fb_wf fb" and r: "0 \<le> a" "a \<le> b" "b \<le> int (horizontal_resolution (fb_conf fb))" "0 \<le> y"
      "y < int (vertical_resolution (fb_conf fb))"
    and len: "length old = length (data_get (fb_data fb))" "length row = nat (b - a) * 4"
    and row: "\<And>x k. \<lbrakk>a \<le> x; x < b; k < 4\<rbrakk> \<Longrightarrow> row ! (nat (x - a) * 4 + k) = src ! (pix_index sconf (x - dx) (y - dy) + k)"
    and m: "moved_rows fb old sconf src a b rows dx dy buf"
  shows "moved_rows fb old sconf src a b (insert y rows) dx dy
     (take (pix_index (fb_conf fb) a y) buf @ row @ drop (pix_index (fb_conf fb) b y) buf)" (is "moved_rows _ _ _ _ _ _ _ _ _ ?buf")
  unfolding moved_rows_def
proof (intro conjI allI impI)
  have lb: "length buf = length (data_get (fb_data fb))" using m len(1) by (simp add: moved_rows_def)
  have e: "pix_index (fb_conf fb) b y \<le> length buf" using pix_index_end [OF wf, of b y] wf r lb
    by (auto simp: fb_wf_def Let_def)
  then show "length ?buf = length old" using pix_index_diff [OF r(1,2)] len lb by simp
  fix x' y' and k :: nat
  assume q: "(x', y') \<in> fb_inside fb" and k: "k < 4"
  show "?buf ! (pix_index (fb_conf fb) x' y' + k)
      = (if a \<le> x' \<and> x' < b \<and> y' \<in> insert y rows then src ! (pix_index sconf (x' - dx) (y' - dy) + k)
         else old ! (pix_index (fb_conf fb) x' y' + k))"
    unfolding row_splice [OF wf r lb len(2) q k] using m q k row [of x' k] by (auto simp: moved_rows_def)
qed

lemma moved_rows_pixel:
  assumes "moved_rows fb (data_get (fb_data fb)) sconf src a b rows dx dy buf" "(x, y) \<in> fb_inside fb"
  shows "fb_pixel (fb\<lparr>fb_data := data_set (fb_data fb) buf\<rparr>) (x, y)
    = (if a \<le> x \<and> x < b \<and> y \<in> rows then color_of (pixel_format (fb_conf fb)) src (pix_index sconf (x - dx) (y - dy))
       else fb_pixel fb (x, y))"
  using assms by (auto simp: moved_rows_def fb_pixel_def intro: color_of_cong)

lemma moved_rows_wf:
  assumes "moved_rows fb (data_get (fb_data fb)) sconf src a b rows dx dy buf" "fb_wf fb"
  shows "fb_wf (fb\<lparr>fb_data := data_set (fb_data fb) buf\<rparr>)"
  using assms by (simp add: moved_rows_def fb_wf_def)

section \<open>\<^verbatim>\<open>copy\<close>\<close>

lemma copy_row_step:
  assumes wf: "fb_wf fb" "fb_wf from" and m: "0 \<le> x1 m" "x1 m \<le> x2 m" "x2 m \<le> int (horizontal_resolution (fb_conf fb))"
      "0 \<le> y" "y < int (vertical_resolution (fb_conf fb))"
    and c: "x1 c = x1 m - dx" "x2 c = x2 m - dx" "0 \<le> x1 m - dx" "x2 m - dx \<le> int (horizontal_resolution (fb_conf from))"
      "0 \<le> y - dy" "y - dy < int (vertical_resolution (fb_conf from))"
    and inv: "moved_rows fb (data_get (fb_data fb)) (fb_conf from) (data_get (fb_data from)) (x1 m) (x2 m) rows dx dy buf"
  shows "\<exists>buf'. copy_row from (fb_conf fb) m c (y, y - dy) buf = Inr buf'
    \<and> moved_rows fb (data_get (fb_data fb)) (fb_conf from) (data_get (fb_data from)) (x1 m) (x2 m) (insert y rows) dx dy buf'"
proof -
  let ?i = "pix_index (fb_conf fb)" and ?j = "pix_index (fb_conf from)"
  have pps: "horizontal_resolution (fb_conf fb) \<le> pixels_per_scanline (fb_conf fb)"
    "horizontal_resolution (fb_conf from) \<le> pixels_per_scanline (fb_conf from)"
    using wf by (auto simp: fb_wf_def Let_def)
  have idx: "to_index (fb_conf fb) (x1 m) y = Inr (?i (x1 m) y)" "to_index (fb_conf fb) (x2 m) y = Inr (?i (x2 m) y)"
    "to_index (fb_conf from) (x1 c) (y - dy) = Inr (?j (x1 m - dx) (y - dy))"
    "to_index (fb_conf from) (x2 c) (y - dy) = Inr (?j (x2 m - dx) (y - dy))"
    using m c pps by (auto intro!: to_index_in wf)
  have "\<exists>row. slice (data_get (fb_data from)) (?j (x1 m - dx) (y - dy)) (?j (x2 m - dx) (y - dy)) = Inr row
    \<and> length row = nat ((x2 m - dx) - (x1 m - dx)) * 4
    \<and> (\<forall>x k. x1 m - dx \<le> x \<longrightarrow> x < x2 m - dx \<longrightarrow> k < 4 \<longrightarrow>
        row ! (nat (x - (x1 m - dx)) * 4 + k) = data_get (fb_data from) ! (?j x (y - dy) + k))"
    using m c by (intro row_slice wf(2)) auto
  then obtain row where row: "slice (data_get (fb_data from)) (?j (x1 m - dx) (y - dy)) (?j (x2 m - dx) (y - dy)) = Inr row"
    "length row = nat (x2 m - x1 m) * 4"
    "\<And>x k. \<lbrakk>x1 m - dx \<le> x; x < x2 m - dx; k < 4\<rbrakk> \<Longrightarrow>
        row ! (nat (x - (x1 m - dx)) * 4 + k) = data_get (fb_data from) ! (?j x (y - dy) + k)"
    by auto
  have row': "row ! (nat (x - x1 m) * 4 + k) = data_get (fb_data from) ! (?j (x - dx) (y - dy) + k)"
    if "x1 m \<le> x" "x < x2 m" "k < 4" for x k
    using row(3) [of "x - dx" k] that by simp
  have len: "length buf = length (data_get (fb_data fb))" using inv by (simp add: moved_rows_def)
  have e: "?i (x2 m) y \<le> length buf" "?i (x2 m) y = ?i (x1 m) y + length row"
    using pix_index_end [OF wf(1), of "x2 m" y] m pps pix_index_diff [OF m(1,2), of "fb_conf fb" y] row(2) len by auto
  have "copy_row from (fb_conf fb) m c (y, y - dy) buf
      = Inr (take (?i (x1 m) y) buf @ row @ drop (?i (x2 m) y) buf)"
    using idx row(1) e by (simp add: copy_row_def copy_from_slice_def)
  moreover have "moved_rows fb (data_get (fb_data fb)) (fb_conf from) (data_get (fb_data from)) (x1 m) (x2 m)
      (insert y rows) dx dy (take (?i (x1 m) y) buf @ row @ drop (?i (x2 m) y) buf)"
    by (rule moved_rows_step [OF wf(1) m refl row(2) row' inv])
  ultimately show ?thesis by blast
qed

lemma zip_shifted: "zip (range_i32 a b) (range_i32 (a - d) (b - d)) = map (\<lambda>y. (y, y - d)) (range_i32 a b)"
proof -
  have "range_i32 (a - d) (b - d) = map (\<lambda>y. y - d) (range_i32 a b)"
    by (rule nth_equalityI) (auto simp: range_i32_def)
  then show ?thesis by (simp add: zip_map2 zip_same_conv_map)
qed

lemma fb_rect_in:
  assumes "fb_wf fb" "i32_ok x" "i32_ok y" "i32_ok (x + int (horizontal_resolution (fb_conf fb)))"
    "i32_ok (y + int (vertical_resolution (fb_conf fb)))"
  shows "fb_rect fb x y = Inr \<lparr>x1 = x, y1 = y, x2 = x + int (horizontal_resolution (fb_conf fb)),
    y2 = y + int (vertical_resolution (fb_conf fb))\<rparr>"
  using assms by (simp add: fb_rect_def rect_from_wh_def i32_add_def res_simps fb_wf_def Let_def)

lemma fb_screen_in:
  assumes "fb_wf fb"
  shows "fb_rect fb 0 0 = Inr \<lparr>x1 = 0, y1 = 0, x2 = int (horizontal_resolution (fb_conf fb)),
    y2 = int (vertical_resolution (fb_conf fb))\<rparr>"
  using fb_rect_in [OF assms, of 0 0] assms by (simp add: i32_ok_def fb_wf_def Let_def)

text \<open>What a caller of \<^verbatim>\<open>copy\<close> owes: the position and the far corner are \<^verbatim>\<open>i32\<close> values that can be negated.\<close>

definition copy_pos_ok :: "vec2 \<Rightarrow> frame_buffer \<Rightarrow> bool" where
  "copy_pos_ok pos from \<longleftrightarrow> - (2 ^ 31) < fst pos \<and> - (2 ^ 31) < snd pos
     \<and> fst pos + int (horizontal_resolution (fb_conf from)) < 2 ^ 31
     \<and> snd pos + int (vertical_resolution (fb_conf from)) < 2 ^ 31"

text \<open>The loop of \<^verbatim>\<open>copy\<close> over the rows of a rectangle that fits both buffers.\<close>

lemma copy_rows:
  assumes wf: "fb_wf fb" "fb_wf from" and m: "0 \<le> x1 m" "x1 m \<le> x2 m" "x2 m \<le> int (horizontal_resolution (fb_conf fb))"
      "0 \<le> y1 m" "y2 m \<le> int (vertical_resolution (fb_conf fb))"
    and c: "0 \<le> x1 m - px" "x2 m - px \<le> int (horizontal_resolution (fb_conf from))"
      "0 \<le> y1 m - py" "y2 m - py \<le> int (vertical_resolution (fb_conf from))"
      "c = \<lparr>x1 = x1 m - px, y1 = y1 m - py, x2 = x2 m - px, y2 = y2 m - py\<rparr>"
  shows "\<exists>buf. foldM (copy_row from (fb_conf fb) m c) (zip (range_i32 (y1 m) (y2 m)) (range_i32 (y1 c) (y2 c)))
        (data_get (fb_data fb)) = Inr buf
    \<and> moved_rows fb (data_get (fb_data fb)) (fb_conf from) (data_get (fb_data from)) (x1 m) (x2 m) {y1 m..<y2 m} px py buf"
proof -
  let ?I = "\<lambda>rows. moved_rows fb (data_get (fb_data fb)) (fb_conf from) (data_get (fb_data from)) (x1 m) (x2 m) rows px py"
  let ?rows = "map (\<lambda>y. (y, y - py)) (range_i32 (y1 m) (y2 m))"
  have rows: "zip (range_i32 (y1 m) (y2 m)) (range_i32 (y1 c) (y2 c)) = ?rows" using zip_shifted c(5) by simp
  have "\<exists>buf. foldM (copy_row from (fb_conf fb) m c) ?rows (data_get (fb_data fb)) = Inr buf
      \<and> (\<lambda>done. ?I (fst ` set done)) ?rows buf"
  proof (rule foldM_rule)
    show "?I (fst ` set []) (data_get (fb_data fb))" by (simp add: moved_rows_none)
    fix "done" z todo buf
    assume split: "?rows = done @ z # todo" and I: "?I (fst ` set done) buf"
    have "z \<in> set ?rows" using split by simp
    then obtain y where y: "z = (y, y - py)" "y1 m \<le> y" "y < y2 m" by (auto simp: range_i32_def)
    have "\<exists>buf'. copy_row from (fb_conf fb) m c (y, y - py) buf = Inr buf' \<and> ?I (insert y (fst ` set done)) buf'"
      using m c y by (intro copy_row_step wf I) auto
    then show "\<exists>buf'. copy_row from (fb_conf fb) m c z buf = Inr buf' \<and> ?I (fst ` set (done @ [z])) buf'"
      using y(1) by simp
  qed
  moreover have "fst ` set ?rows = {y1 m..<y2 m}" by (auto simp: range_i32_def image_iff)
  ultimately show ?thesis unfolding rows by simp
qed

lemma fb_copy_spec:
  assumes wf: "fb_wf fb" "fb_wf from" and fmt: "pixel_format (fb_conf from) = pixel_format (fb_conf fb)"
    and pos: "copy_pos_ok (px, py) from"
  shows "\<exists>fb'. fb_copy fb (px, py) from = Inr fb' \<and> fb_wf fb' \<and> fb_conf fb' = fb_conf fb
    \<and> (\<forall>(x, y) \<in> fb_inside fb. fb_pixel fb' (x, y)
         = (if (x - px, y - py) \<in> fb_inside from then fb_pixel from (x - px, y - py) else fb_pixel fb (x, y)))"
proof -
  let ?hf = "int (horizontal_resolution (fb_conf fb))" and ?vf = "int (vertical_resolution (fb_conf fb))"
  let ?h = "int (horizontal_resolution (fb_conf from))" and ?v = "int (vertical_resolution (fb_conf from))"
  let ?S = "\<lparr>x1 = 0, y1 = 0, x2 = ?hf, y2 = ?vf\<rparr>" and ?F = "\<lparr>x1 = px, y1 = py, x2 = px + ?h, y2 = py + ?v\<rparr>"
  have rf: "fb_rect from px py = Inr ?F" using pos by (intro fb_rect_in wf(2)) (auto simp: copy_pos_ok_def i32_ok_def)
  show ?thesis
  proof (cases "rect_intersection ?S ?F")
    case None
    then have "fb_copy fb (px, py) from = Inr fb" using rf fb_screen_in [OF wf(1)] by (simp add: fb_copy_def)
    moreover have "(x - px, y - py) \<notin> fb_inside from" if "(x, y) \<in> fb_inside fb" for x y
    proof
      assume "(x - px, y - py) \<in> fb_inside from"
      then have "(x, y) \<in> points ?S \<inter> points ?F" using that by (auto simp: in_fb_inside in_points)
      then show False using intersection_None [OF None] by blast
    qed
    ultimately show ?thesis using wf(1) by auto
  next
    case (Some m)
    note mS = intersection_Some [OF Some]
    have mb: "0 \<le> x1 m" "x1 m \<le> x2 m" "x2 m \<le> ?hf" "0 \<le> y1 m" "y2 m \<le> ?vf" "0 \<le> x1 m - px" "x2 m - px \<le> ?h"
      "0 \<le> y1 m - py" "y2 m - py \<le> ?v" "x2 m < 2 ^ 31" "y2 m < 2 ^ 31" "x1 m < x2 m" "y1 m < y2 m"
      using mS(2-7) pos wf by (auto simp: copy_pos_ok_def fb_wf_def Let_def)
    let ?c = "\<lparr>x1 = x1 m - px, y1 = y1 m - py, x2 = x2 m - px, y2 = y2 m - py\<rparr>"
    have hv: "?h < 2 ^ 31" "?v < 2 ^ 31" using wf by (auto simp: fb_wf_def Let_def)
    have mv: "rect_move_relative m (- px) (- py) = Inr ?c"
      using mb hv by (simp add: rect_move_relative_def i32_add_def res_simps i32_ok_def)
    have neg: "i32_neg px = Inr (- px)" "i32_neg py = Inr (- py)"
      using pos hv mb by (auto simp: i32_neg_def res_simps copy_pos_ok_def i32_ok_def)
    from copy_rows [OF wf mb(1-9) refl] obtain buf where
      buf: "foldM (copy_row from (fb_conf fb) m ?c) (zip (range_i32 (y1 m) (y2 m)) (range_i32 (y1 ?c) (y2 ?c)))
        (data_get (fb_data fb)) = Inr buf"
      and mr: "moved_rows fb (data_get (fb_data fb)) (fb_conf from) (data_get (fb_data from)) (x1 m) (x2 m) {y1 m..<y2 m} px py buf"
      by blast
    have "fb_copy fb (px, py) from = Inr (fb\<lparr>fb_data := data_set (fb_data fb) buf\<rparr>)"
      using rf fb_screen_in [OF wf(1)] Some neg mv buf by (simp add: fb_copy_def)
    moreover have "(x1 m \<le> x \<and> x < x2 m \<and> y \<in> {y1 m..<y2 m}) = ((x - px, y - py) \<in> fb_inside from)"
      if "(x, y) \<in> fb_inside fb" for x y
      using that mS(4-7) by (auto simp: in_fb_inside)
    ultimately show ?thesis using moved_rows_pixel [OF mr] moved_rows_wf [OF mr wf(1)] fmt by (auto simp: fb_pixel_def)
  qed
qed

section \<open>\<^verbatim>\<open>move_rect\<close>\<close>

lemma move_row_step:
  assumes wf: "fb_wf fb" and r: "0 \<le> x1 r" "x1 r \<le> x2 r" "x2 r \<le> int (horizontal_resolution (fb_conf fb))"
      "0 \<le> y + y1 r" "y + y1 r < int (vertical_resolution (fb_conf fb))"
    and t: "0 \<le> tx" "tx + (x2 r - x1 r) \<le> int (horizontal_resolution (fb_conf fb))" "0 \<le> y + ty"
      "y + ty < int (vertical_resolution (fb_conf fb))" "i32_ok (tx + x2 r)"
    and inv: "moved_rows fb old (fb_conf fb) old tx (tx + (x2 r - x1 r)) rows (tx - x1 r) (ty - y1 r) buf"
    and len: "length old = length (data_get (fb_data fb))" and fresh: "y + y1 r \<notin> rows"
  shows "\<exists>buf'. move_row (fb_conf fb) (tx, ty) r y buf = Inr buf'
    \<and> moved_rows fb old (fb_conf fb) old tx (tx + (x2 r - x1 r)) (insert (y + ty) rows) (tx - x1 r) (ty - y1 r) buf'"
proof -
  let ?i = "pix_index (fb_conf fb)" and ?b = "tx + (x2 r - x1 r)"
  have pps: "horizontal_resolution (fb_conf fb) \<le> pixels_per_scanline (fb_conf fb)"
    and dims: "int (horizontal_resolution (fb_conf fb)) < 2 ^ 31" "int (vertical_resolution (fb_conf fb)) < 2 ^ 31"
    using wf by (auto simp: fb_wf_def Let_def)
  have idx: "to_index (fb_conf fb) (x1 r) (y + y1 r) = Inr (?i (x1 r) (y + y1 r))"
    "to_index (fb_conf fb) (x2 r) (y + y1 r) = Inr (?i (x2 r) (y + y1 r))"
    "to_index (fb_conf fb) tx (y + ty) = Inr (?i tx (y + ty))" "to_index (fb_conf fb) ?b (y + ty) = Inr (?i ?b (y + ty))"
    using r t pps by (auto intro!: to_index_in wf)
  have ok: "i32_add y (y1 r) = Inr (y + y1 r)" "i32_add y ty = Inr (y + ty)" "i32_add tx (x2 r) = Inr (tx + x2 r)"
    "i32_sub (tx + x2 r) (x1 r) = Inr ?b"
    using r t dims by (auto simp: i32_add_def i32_sub_def i32_chk_def i32_ok_def)
  have lb: "length buf = length (data_get (fb_data fb))" using inv len by (simp add: moved_rows_def)
  from row_slice [OF wf r lb] obtain row where row:
    "slice buf (?i (x1 r) (y + y1 r)) (?i (x2 r) (y + y1 r)) = Inr row" "length row = nat (x2 r - x1 r) * 4"
    "\<And>x k. \<lbrakk>x1 r \<le> x; x < x2 r; k < 4\<rbrakk> \<Longrightarrow> row ! (nat (x - x1 r) * 4 + k) = buf ! (?i x (y + y1 r) + k)" by blast
  have old: "buf ! (?i x (y + y1 r) + k) = old ! (?i x (y + y1 r) + k)" if "x1 r \<le> x" "x < x2 r" "k < 4" for x k
    using inv fresh that r unfolding moved_rows_def in_fb_inside by auto
  have row': "row ! (nat (x - tx) * 4 + k) = old ! (?i (x - (tx - x1 r)) (y + ty - (ty - y1 r)) + k)"
    if x: "tx \<le> x" "x < ?b" "k < 4" for x k
  proof -
    have "x1 r \<le> x - (tx - x1 r)" "x - (tx - x1 r) < x2 r" "x - (tx - x1 r) - x1 r = x - tx"
      "y + ty - (ty - y1 r) = y + y1 r" using x by simp_all
    then show ?thesis using row(3) [of "x - (tx - x1 r)" k] old [of "x - (tx - x1 r)" k] x(3) by simp
  qed
  have e: "?i ?b (y + ty) \<le> length buf" "?i ?b (y + ty) = ?i tx (y + ty) + length row"
    using pix_index_end [OF wf, of ?b "y + ty"] r t pps pix_index_diff [of tx ?b "fb_conf fb" "y + ty"] row(2) lb by auto
  have d: "?i (x2 r) (y + y1 r) - ?i (x1 r) (y + y1 r) = length row"
    using pix_index_diff [OF r(1,2)] row(2) by simp
  have "move_row (fb_conf fb) (tx, ty) r y buf = Inr (take (?i tx (y + ty)) buf @ row @ drop (?i ?b (y + ty)) buf)"
    using ok idx row(1) e d by (simp add: move_row_def copy_within_def)
  moreover have "moved_rows fb old (fb_conf fb) old tx ?b (insert (y + ty) rows) (tx - x1 r) (ty - y1 r)
      (take (?i tx (y + ty)) buf @ row @ drop (?i ?b (y + ty)) buf)"
    using r t row(2) by (intro moved_rows_step wf len inv row') auto
  ultimately show ?thesis by blast
qed

text \<open>The order of the rows is what makes an overlapping move right: no row is read after it was written.\<close>

lemma move_rows:
  assumes wf: "fb_wf fb" and r: "0 \<le> x1 r" "x1 r \<le> x2 r" "x2 r \<le> int (horizontal_resolution (fb_conf fb))"
      "0 \<le> y1 r" "y2 r \<le> int (vertical_resolution (fb_conf fb))"
    and t: "0 \<le> tx" "tx + (x2 r - x1 r) \<le> int (horizontal_resolution (fb_conf fb))" "0 \<le> ty"
      "ty + (y2 r - y1 r) \<le> int (vertical_resolution (fb_conf fb))" "i32_ok (tx + x2 r)"
    and ys: "set ys \<subseteq> {0..<y2 r - y1 r}"
    and order: "\<forall>done y todo. ys = done @ y # todo \<longrightarrow> y + y1 r - ty \<notin> set done"
  shows "\<exists>buf. foldM (move_row (fb_conf fb) (tx, ty) r) ys (data_get (fb_data fb)) = Inr buf
    \<and> moved_rows fb (data_get (fb_data fb)) (fb_conf fb) (data_get (fb_data fb)) tx (tx + (x2 r - x1 r))
        ((\<lambda>y. y + ty) ` set ys) (tx - x1 r) (ty - y1 r) buf"
proof -
  let ?I = "\<lambda>done. moved_rows fb (data_get (fb_data fb)) (fb_conf fb) (data_get (fb_data fb)) tx (tx + (x2 r - x1 r))
        ((\<lambda>y. y + ty) ` set done) (tx - x1 r) (ty - y1 r)"
  have "\<exists>buf. foldM (move_row (fb_conf fb) (tx, ty) r) ys (data_get (fb_data fb)) = Inr buf \<and> ?I ys buf"
  proof (rule foldM_rule)
    show "?I [] (data_get (fb_data fb))" by (simp add: moved_rows_none)
    fix "done" y todo buf
    assume split: "ys = done @ y # todo" and I: "?I done buf"
    have y: "0 \<le> y" "y < y2 r - y1 r" using split ys by auto
    have "y + y1 r - ty \<notin> set done" using order split by blast
    then have "y + y1 r \<notin> (\<lambda>y. y + ty) ` set done" by auto
    then have "\<exists>buf'. move_row (fb_conf fb) (tx, ty) r y buf = Inr buf'
        \<and> moved_rows fb (data_get (fb_data fb)) (fb_conf fb) (data_get (fb_data fb)) tx (tx + (x2 r - x1 r))
        (insert (y + ty) ((\<lambda>y. y + ty) ` set done)) (tx - x1 r) (ty - y1 r) buf'"
      using r t y by (intro move_row_step wf I refl) auto
    then show "\<exists>buf'. move_row (fb_conf fb) (tx, ty) r y buf = Inr buf' \<and> ?I (done @ [y]) buf'" by simp
  qed
  then show ?thesis .
qed

lemma rows_up_order: "[0..h - 1] = done @ y # todo \<Longrightarrow> z \<in> set done \<Longrightarrow> z < (y::int)"
proof -
  assume a: "[0..h - 1] = done @ y # todo" "z \<in> set done"
  have "sorted_wrt (<) (done @ y # todo)" unfolding a(1) [symmetric] by (rule sorted_wrt_upto)
  then show ?thesis using a(2) by (simp add: sorted_wrt_append)
qed

lemma rows_down_order: "rev [0..h - 1] = done @ y # todo \<Longrightarrow> z \<in> set done \<Longrightarrow> (y::int) < z"
proof -
  assume a: "rev [0..h - 1] = done @ y # todo" "z \<in> set done"
  have "sorted_wrt (\<lambda>x y. y < x) (done @ y # todo)" unfolding a(1) [symmetric] sorted_wrt_rev by (simp add: sorted_wrt_upto)
  then show ?thesis using a(2) by (simp add: sorted_wrt_append)
qed

lemma fb_move_rect_spec:
  assumes wf: "fb_wf fb" and r: "0 \<le> x1 r" "x1 r \<le> x2 r" "x2 r \<le> int (horizontal_resolution (fb_conf fb))"
      "0 \<le> y1 r" "y1 r \<le> y2 r" "y2 r \<le> int (vertical_resolution (fb_conf fb))"
    and t: "0 \<le> tx" "tx + (x2 r - x1 r) \<le> int (horizontal_resolution (fb_conf fb))" "0 \<le> ty"
      "ty + (y2 r - y1 r) \<le> int (vertical_resolution (fb_conf fb))" "tx + x2 r < 2 ^ 31"
  shows "\<exists>fb'. fb_move_rect fb (tx, ty) r = Inr fb' \<and> fb_wf fb' \<and> fb_conf fb' = fb_conf fb
    \<and> (\<forall>(x, y) \<in> fb_inside fb. fb_pixel fb' (x, y)
         = (if (x - (tx - x1 r), y - (ty - y1 r)) \<in> points r then fb_pixel fb (x - (tx - x1 r), y - (ty - y1 r))
            else fb_pixel fb (x, y)))"
proof -
  let ?ys = "if ty \<le> y1 r then range_i32 0 (y2 r - y1 r) else rev (range_i32 0 (y2 r - y1 r))"
  have ok: "i32_ok (tx + x2 r)" using r t by (simp add: i32_ok_def)
  have order: "\<forall>done y todo. ?ys = done @ y # todo \<longrightarrow> y + y1 r - ty \<notin> set done"
  proof (intro allI impI)
    fix "done" y todo
    assume "?ys = done @ y # todo"
    then show "y + y1 r - ty \<notin> set done"
      using rows_up_order [of "y2 r - y1 r" "done" y todo "y + y1 r - ty"]
        rows_down_order [of "y2 r - y1 r" "done" y todo "y + y1 r - ty"]
      by (auto simp: range_i32_def split: if_splits)
  qed
  have "set ?ys \<subseteq> {0..<y2 r - y1 r}" by (auto simp: range_i32_def)
  from move_rows [OF wf r(1-4,6) t(1-4) ok this order] obtain buf where
    buf: "foldM (move_row (fb_conf fb) (tx, ty) r) ?ys (data_get (fb_data fb)) = Inr buf"
    and mr: "moved_rows fb (data_get (fb_data fb)) (fb_conf fb) (data_get (fb_data fb)) tx (tx + (x2 r - x1 r))
        ((\<lambda>y. y + ty) ` set ?ys) (tx - x1 r) (ty - y1 r) buf"
    by blast
  have "i32_ok (y2 r - y1 r)" using wf r by (auto simp: i32_ok_def fb_wf_def Let_def)
  then have "fb_move_rect fb (tx, ty) r = Inr (fb\<lparr>fb_data := data_set (fb_data fb) buf\<rparr>)"
    using buf r by (simp add: fb_move_rect_def fb_screen_in [OF wf] rect_contained_by_def i32_sub_def res_simps Let_def)
  moreover have "(tx \<le> x \<and> x < tx + (x2 r - x1 r) \<and> y \<in> (\<lambda>y. y + ty) ` set ?ys)
      = ((x - (tx - x1 r), y - (ty - y1 r)) \<in> points r)" for x y
  proof -
    have "(y \<in> (\<lambda>y. y + ty) ` set ?ys) = (ty \<le> y \<and> y < ty + (y2 r - y1 r))"
      by (auto simp: range_i32_def image_iff intro: bexI [of _ "y - ty"])
    then show ?thesis by (auto simp: in_points)
  qed
  ultimately show ?thesis using moved_rows_pixel [OF mr] moved_rows_wf [OF mr wf] by (auto simp: fb_pixel_def)
qed

section \<open>Fresh buffers\<close>

text \<open>A shadow buffer whose sides are \<^verbatim>\<open>i32\<close> values is well formed and black.\<close>

lemma fb_new_spec:
  assumes "w < 2 ^ 31" "h < 2 ^ 31"
  shows "\<exists>fb. fb_new (Some fmt) w h = Inr fb \<and> fb_wf fb \<and> fb_resolution fb = (w, h)
    \<and> pixel_format (fb_conf fb) = fmt \<and> (\<forall>p \<in> fb_inside fb. fb_pixel fb p = (0, 0, 0))"
proof -
  have "w * h \<le> (2 ^ 31 - 1) * (2 ^ 31 - 1)" using assms by (intro mult_le_mono) auto
  then have b: "w * h * 4 < usize_bound" by (simp add: usize_bound_def ac_simps)
  let ?fb = "\<lparr>fb_data = Shadow (replicate (w * h * 4) 0), fb_conf = \<lparr>pixels_per_scanline = w, horizontal_resolution = w,
      vertical_resolution = h, pixel_format = fmt\<rparr>\<rparr>"
  have "fb_new (Some fmt) w h = Inr ?fb" using b assms by (simp add: fb_new_def res_simps)
  moreover have wf: "fb_wf ?fb" using assms by (simp add: fb_wf_def)
  moreover have "fb_pixel ?fb p = (0, 0, 0)" if p: "p \<in> fb_inside ?fb" for p
  proof -
    have "pix_index (fb_conf ?fb) (fst p) (snd p) + 4 \<le> w * h * 4"
      using pix_index_bound [OF wf, of "fst p" "snd p"] p by simp
    then show ?thesis by (cases fmt) (simp_all add: fb_pixel_def)
  qed
  ultimately show ?thesis by (auto simp: fb_resolution_def)
qed

lemma fb_from_raw_spec:
  assumes "fbr_pixels_per_scanline raw * fbr_vertical_resolution raw * 4 < 2 ^ 32"
    "fbr_pixels_per_scanline raw * fbr_vertical_resolution raw * 4 \<le> length (fbr_buf raw)"
    "fbr_horizontal_resolution raw \<le> fbr_pixels_per_scanline raw"
    "fbr_pixels_per_scanline raw < 2 ^ 31" "fbr_vertical_resolution raw < 2 ^ 31"
  shows "\<exists>fb. fb_from_raw raw = Inr fb \<and> fb_wf fb
    \<and> fb_resolution fb = (fbr_horizontal_resolution raw, fbr_vertical_resolution raw)"
  using assms by (simp add: fb_from_raw_def u32_mul_def fb_wf_def fb_resolution_def min_def)

section \<open>Properties\<close>

text \<open>
  Writing a visible pixel never panics, reading it back gives the colour written, in either byte
  order, and every other visible pixel reads as before.
\<close>

theorem pixel_write_read:
  assumes "fb_wf fb" "(int x, int y) \<in> fb_inside fb"
  shows "\<exists>fb'. fb_write fb (int x, int y) c = Inr fb' \<and> fb_color_at fb' x y = Inr c
    \<and> (\<forall>u v. (int u, int v) \<in> fb_inside fb \<and> (u, v) \<noteq> (x, y) \<longrightarrow> fb_color_at fb' u v = fb_color_at fb u v)"
proof -
  from fb_write_spec [OF assms, of c] obtain fb' where w: "fb_write fb (int x, int y) c = Inr fb'" "fb_wf fb'"
    "fb_conf fb' = fb_conf fb" "\<forall>q \<in> fb_inside fb. fb_pixel fb' q = (if q = (int x, int y) then c else fb_pixel fb q)"
    by blast
  have i: "fb_inside fb' = fb_inside fb" using w(3) by (simp add: fb_inside_def)
  have "fb_color_at fb' u v = Inr (fb_pixel fb' (int u, int v))" if "(int u, int v) \<in> fb_inside fb" for u v
    using that i by (intro fb_color_at_spec w(2)) simp
  then show ?thesis using w(1,4) assms by (auto simp: fb_color_at_spec)
qed

text \<open>
  \<^verbatim>\<open>copy\<close> is a clipped block transfer: it never panics, the part of the source that falls on the target
  appears at the given position, which may be negative, and every other pixel of the target is unchanged.
\<close>

theorem frame_buffer_copy_correct:
  assumes "fb_wf fb" "fb_wf from" "pixel_format (fb_conf from) = pixel_format (fb_conf fb)" "copy_pos_ok (px, py) from"
  shows "\<exists>fb'. fb_copy fb (px, py) from = Inr fb' \<and> fb_wf fb' \<and> fb_conf fb' = fb_conf fb
    \<and> (\<forall>(x, y) \<in> fb_inside fb. fb_pixel fb' (x, y)
         = (if (x - px, y - py) \<in> fb_inside from then fb_pixel from (x - px, y - py) else fb_pixel fb (x, y)))"
  by (rule fb_copy_spec [OF assms])

text \<open>
  (C31) \<^verbatim>\<open>move_rect\<close> moves a rectangle of the picture, source and target may overlap: afterwards every pixel of
  the target shows what its source showed before the move, and the rest of the picture is unchanged.
\<close>

theorem move_rect_correct:
  assumes "fb_wf fb" "0 \<le> x1 r" "x1 r \<le> x2 r" "x2 r \<le> int (horizontal_resolution (fb_conf fb))"
      "0 \<le> y1 r" "y1 r \<le> y2 r" "y2 r \<le> int (vertical_resolution (fb_conf fb))"
      "0 \<le> tx" "tx + (x2 r - x1 r) \<le> int (horizontal_resolution (fb_conf fb))" "0 \<le> ty"
      "ty + (y2 r - y1 r) \<le> int (vertical_resolution (fb_conf fb))" "tx + x2 r < 2 ^ 31"
  shows "\<exists>fb'. fb_move_rect fb (tx, ty) r = Inr fb' \<and> fb_wf fb' \<and> fb_conf fb' = fb_conf fb
    \<and> (\<forall>(x, y) \<in> fb_inside fb. fb_pixel fb' (x, y)
         = (if (x - (tx - x1 r), y - (ty - y1 r)) \<in> points r then fb_pixel fb (x - (tx - x1 r), y - (ty - y1 r))
            else fb_pixel fb (x, y)))"
  by (rule fb_move_rect_spec [OF assms])

text \<open>Three pixels on one line, red, green and blue, and a screen of two lines.\<close>

definition rgb_line :: frame_buffer where
  "rgb_line = \<lparr>fb_data = Shadow [255, 0, 0, 0, 0, 255, 0, 0, 0, 0, 255, 0],
     fb_conf = \<lparr>pixels_per_scanline = 3, horizontal_resolution = 3, vertical_resolution = 1,
       pixel_format = PixelRGBResv8BitPerColor\<rparr>\<rparr>"

definition small_screen :: frame_buffer where
  "small_screen = \<lparr>fb_data = Vram (replicate 32 7),
     fb_conf = \<lparr>pixels_per_scanline = 4, horizontal_resolution = 3, vertical_resolution = 2,
       pixel_format = PixelRGBResv8BitPerColor\<rparr>\<rparr>"

lemma rgb_line_wf: "fb_wf rgb_line" "fb_wf small_screen"
  by (simp_all add: fb_wf_def rgb_line_def small_screen_def)

theorem pixel_write_read_witness:
  "\<exists>fb'. fb_write rgb_line (int 1, int 0) (1, 2, 3) = Inr fb' \<and> fb_color_at fb' 1 0 = Inr (1, 2, 3)
     \<and> fb_color_at fb' 2 0 = Inr (0, 0, 255)"
proof -
  have i: "(int 1, int 0) \<in> fb_inside rgb_line" "(int 2, int 0) \<in> fb_inside rgb_line"
    by (simp_all add: fb_inside_def rgb_line_def)
  have "fb_color_at rgb_line 2 0 = Inr (fb_pixel rgb_line (int 2, int 0))"
    by (rule fb_color_at_spec [OF rgb_line_wf(1) i(2)])
  also have "fb_pixel rgb_line (int 2, int 0) = (0, 0, 255)" by (simp add: fb_pixel_def rgb_line_def pix_index_def)
  finally have "fb_color_at rgb_line 2 0 = Inr (0, 0, 255)" .
  with pixel_write_read [OF rgb_line_wf(1) i(1), of "(1, 2, 3)"] i(2) show ?thesis by fastforce
qed

theorem frame_buffer_copy_correct_witness:
  "\<exists>fb'. fb_copy small_screen (-1, 1) rgb_line = Inr fb' \<and> fb_pixel fb' (0, 1) = (0, 255, 0)
     \<and> fb_pixel fb' (2, 1) = (7, 7, 7)"
proof -
  have ok: "copy_pos_ok (-1, 1) rgb_line" "pixel_format (fb_conf rgb_line) = pixel_format (fb_conf small_screen)"
    by (simp_all add: copy_pos_ok_def rgb_line_def small_screen_def)
  have i: "(0, 1) \<in> fb_inside small_screen" "(2, 1) \<in> fb_inside small_screen" "(1, 0) \<in> fb_inside rgb_line"
    "(3, 0) \<notin> fb_inside rgb_line"
    by (simp_all add: fb_inside_def rgb_line_def small_screen_def)
  have p: "fb_pixel rgb_line (1, 0) = (0, 255, 0)" "fb_pixel small_screen (2, 1) = (7, 7, 7)"
    by (simp_all add: fb_pixel_def rgb_line_def small_screen_def pix_index_def)
  from frame_buffer_copy_correct [OF rgb_line_wf(2,1) ok(2,1)] obtain fb' where
    fb': "fb_copy small_screen (-1, 1) rgb_line = Inr fb'"
    "\<forall>(x, y) \<in> fb_inside small_screen. fb_pixel fb' (x, y)
         = (if (x - -1, y - 1) \<in> fb_inside rgb_line then fb_pixel rgb_line (x - -1, y - 1) else fb_pixel small_screen (x, y))"
    by blast
  have "fb_pixel fb' (0, 1) = (0, 255, 0)" using bspec [OF fb'(2) i(1)] i(3) p(1) by simp
  moreover have "fb_pixel fb' (2, 1) = (7, 7, 7)" using bspec [OF fb'(2) i(2)] i(4) p(2) by simp
  ultimately show ?thesis using fb'(1) by blast
qed

theorem move_rect_correct_witness:
  "\<exists>fb'. fb_move_rect rgb_line (1, 0) \<lparr>x1 = 0, y1 = 0, x2 = 2, y2 = 1\<rparr> = Inr fb'
     \<and> fb_pixel fb' (1, 0) = (255, 0, 0) \<and> fb_pixel fb' (2, 0) = (0, 255, 0)"
proof -
  have i: "(1, 0) \<in> fb_inside rgb_line" "(2, 0) \<in> fb_inside rgb_line"
    by (simp_all add: fb_inside_def rgb_line_def)
  have p: "fb_pixel rgb_line (0, 0) = (255, 0, 0)" "fb_pixel rgb_line (1, 0) = (0, 255, 0)"
    by (simp_all add: fb_pixel_def rgb_line_def pix_index_def)
  have d: "horizontal_resolution (fb_conf rgb_line) = 3" "vertical_resolution (fb_conf rgb_line) = 1"
    by (simp_all add: rgb_line_def)
  let ?r = "\<lparr>x1 = 0, y1 = 0, x2 = 2, y2 = 1\<rparr>"
  from move_rect_correct [OF rgb_line_wf(1), of ?r 1 0] obtain fb' where
    fb': "fb_move_rect rgb_line (1, 0) ?r = Inr fb'"
    "\<forall>(x, y) \<in> fb_inside rgb_line. fb_pixel fb' (x, y)
         = (if (x - (1 - x1 ?r), y - (0 - y1 ?r)) \<in> points ?r then fb_pixel rgb_line (x - (1 - x1 ?r), y - (0 - y1 ?r))
            else fb_pixel rgb_line (x, y))"
    by (auto simp: d)
  have "fb_pixel fb' (1, 0) = (255, 0, 0)" using bspec [OF fb'(2) i(1)] p(1) by (simp add: in_points)
  moreover have "fb_pixel fb' (2, 0) = (0, 255, 0)" using bspec [OF fb'(2) i(2)] p(2) by (simp add: in_points)
  ultimately show ?thesis using fb'(1) by blast
qed

end
