(* ===== verification/Font_Data.thy ===== *)
theory Font_Data
  imports Prelude
begin

text \<open>
  The glyph table \<^verbatim>\<open>FONTS\<close> of \<^verbatim>\<open>kernel/src/graphic/font.rs\<close>: 256 glyphs of sixteen rows, a row is a byte whose
  most significant bit is the leftmost pixel. The table is split into groups of eight glyphs.
\<close>

type_synonym glyph = "u8 list"

definition fonts_00 :: "glyph list" where
  "fonts_00 = [
    [0b00000000, 0b00000000, 0b00000000, 0b00000000, 0b00000000, 0b00000000, 0b00000000, 0b00000000,
     0b00000000, 0b00000000, 0b00000000, 0b00000000, 0b00000000, 0b00000000, 0b00000000, 0b00000000],
    [0b00010000, 0b00010000, 0b00111000, 0b00111000, 0b01111100, 0b01111100, 0b11111110, 0b11111110,
     0b01111100, 0b01111100, 0b00111000, 0b00111000, 0b00010000, 0b00010000, 0b00000000, 0b00000000],
    [0b01010101, 0b10101010, 0b01010101, 0b10101010, 0b01010101, 0b10101010, 0b01010101, 0b10101010,
     0b01010101, 0b10101010, 0b01010101, 0b10101010, 0b01010101, 0b10101010, 0b00000000, 0b00000000],
    [0b00000000, 0b10001000, 0b10001000, 0b10001000, 0b11111000, 0b10001000, 0b10001000, 0b10001000,
     0b00000000, 0b00111110, 0b00001000, 0b00001000, 0b00001000, 0b00001000, 0b00001000, 0b00001000],
    [0b00000000, 0b11111000, 0b10000000, 0b10000000, 0b11110000, 0b10000000, 0b10000000, 0b10000000,
     0b00111110, 0b00100000, 0b00100000, 0b00111100, 0b00100000, 0b00100000, 0b00100000, 0b00000000],
    [0b00000000, 0b01110000, 0b10001000, 0b10000000, 0b10000000, 0b10000000, 0b10001000, 0b01110000,
     0b00000000, 0b00111100, 0b00100010, 0b00100010, 0b00111100, 0b00101000, 0b00100100, 0b00100010],
    [0b00000000, 0b10000000, 0b10000000, 0b10000000, 0b10000000, 0b10000000, 0b10000000, 0b11111000,
     0b00000000, 0b00111110, 0b00100000, 0b00100000, 0b00111100, 0b00100000, 0b00100000, 0b00100000],
    [0b00000000, 0b00000000, 0b00111000, 0b01000100, 0b01000100, 0b01000100, 0b00111000, 0b00000000,
     0b00000000, 0b00000000, 0b00000000, 0b00000000, 0b00000000, 0b00000000, 0b00000000, 0b00000000]]"

definition fonts_08 :: "glyph list" where
  "fonts_08 = [
    [0b00000000, 0b00000000, 0b00010000, 0b00010000, 0b00010000, 0b00010000, 0b11111110, 0b00010000,
     0b00010000, 0b00010000, 0b00010000, 0b00000000, 0b11111110, 0b00000000, 0b00000000, 0b00000000],
    [0b00000000, 0b10000100, 0b11000100, 0b10100100, 0b10100100, 0b10010100, 0b10010100, 0b10001100,
     0b10000100, 0b00100000, 0b00100000, 0b00100000, 0b00100000, 0b00100000, 0b00100000, 0b00111110],
    [0b00000000, 0b00000000, 0b10001000, 0b10001000, 0b10001000, 0b01010000, 0b01010000, 0b00100000,
     0b00000000, 0b00111110, 0b00001000, 0b00001000, 0b00001000, 0b00001000, 0b00001000, 0b00000000],
    [0b00010000, 0b00010000, 0b00010000, 0b00010000, 0b00010000, 0b00010000, 0b00010000, 0b00010000,
     0b11110000, 0b00000000, 0b00000000, 0b00000000, 0b00000000, 0b00000000, 0b00000000, 0b00000000],
    [0b00000000, 0b00000000, 0b00000000, 0b00000000, 0b00000000, 0b00000000, 0b00000000, 0b00000000,
     0b11110000, 0b00010000, 0b00010000, 0b00010000, 0b00010000, 0b00010000, 0b00010000, 0b00010000],
    [0b00000000, 0b00000000, 0b00000000, 0b00000000, 0b00000000, 0b00000000, 0b00000000, 0b00000000,
     0b00011111, 0b00010000, 0b00010000, 0b00010000, 0b00010000, 0b00010000, 0b00010000, 0b00010000],
    [0b00010000, 0b00010000, 0b00010000, 0b00010000, 0b00010000, 0b00010000, 0b00010000, 0b00010000,
     0b00011111, 0b00000000, 0b00000000, 0b00000000, 0b00000000, 0b00000000, 0b00000000, 0b00000000],
    [0b00010000, 0b00010000, 0b00010000, 0b00010000, 0b00010000, 0b00010000, 0b00010000, 0b00010000,
     0b11111111, 0b00010000, 0b00010000, 0b00010000, 0b00010000, 0b00010000, 0b00010000, 0b00010000]]"

definition fonts_10 :: "glyph list" where
  "fonts_10 = [
    [0b00000000, 0b00000000, 0b11111111, 0b00000000, 0b00000000, 0b00000000, 0b00000000, 0b00000000,
     0b00000000, 0b00000000, 0b00000000, 0b00000000, 0b00000000, 0b00000000, 0b00000000, 0b00000000],
    [0b00000000, 0b00000000, 0b00000000, 0b00000000, 0b00000000, 0b11111111, 0b00000000, 0b00000000,
     0b00000000, 0b00000000, 0b00000000, 0b00000000, 0b00000000, 0b00000000, 0b00000000, 0b00000000],
    [0b00000000, 0b00000000, 0b00000000, 0b00000000, 0b00000000, 0b00000000, 0b00000000, 0b00000000,
     0b11111111, 0b00000000, 0b00000000, 0b00000000, 0b00000000, 0b00000000, 0b00000000, 0b00000000],
    [0b00000000, 0b00000000, 0b00000000, 0b00000000, 0b00000000, 0b00000000, 0b00000000, 0b00000000,
     0b00000000, 0b00000000, 0b00000000, 0b11111111, 0b00000000, 0b00000000, 0b00000000, 0b00000000],
    [0b00000000, 0b00000000, 0b00000000, 0b00000000, 0b00000000, 0b00000000, 0b00000000, 0b00000000,
     0b00000000, 0b00000000, 0b00000000, 0b00000000, 0b00000000, 0b00000000, 0b11111111, 0b00000000],
    [0b00010000, 0b00010000, 0b00010000, 0b00010000, 0b00010000, 0b00010000, 0b00010000, 0b00010000,
     0b00011111, 0b00010000, 0b00010000, 0b00010000, 0b00010000, 0b00010000, 0b00010000, 0b00010000],
    [0b00010000, 0b00010000, 0b00010000, 0b00010000, 0b00010000, 0b00010000, 0b00010000, 0b00010000,
     0b11110000, 0b00010000, 0b00010000, 0b00010000, 0b00010000, 0b00010000, 0b00010000, 0b00010000],
    [0b00010000, 0b00010000, 0b00010000, 0b00010000, 0b00010000, 0b00010000, 0b00010000, 0b00010000,
     0b11111111, 0b00000000, 0b00000000, 0b00000000, 0b00000000, 0b00000000, 0b00000000, 0b00000000]]"

definition fonts_18 :: "glyph list" where
  "fonts_18 = [
    [0b00000000, 0b00000000, 0b00000000, 0b00000000, 0b00000000, 0b00000000, 0b00000000, 0b00000000,
     0b11111111, 0b00010000, 0b00010000, 0b00010000, 0b00010000, 0b00010000, 0b00010000, 0b00010000],
    [0b00010000, 0b00010000, 0b00010000, 0b00010000, 0b00010000, 0b00010000, 0b00010000, 0b00010000,
     0b00010000, 0b00010000, 0b00010000, 0b00010000, 0b00010000, 0b00010000, 0b00010000, 0b00010000],
    [0b00000000, 0b00000000, 0b00000010, 0b00001100, 0b00110000, 0b11000000, 0b00110000, 0b00001100,
     0b00000010, 0b00000000, 0b11111110, 0b00000000, 0b11111110, 0b00000000, 0b00000000, 0b00000000],
    [0b00000000, 0b00000000, 0b00000000, 0b10000000, 0b01100000, 0b00011000, 0b00000110, 0b00011000,
     0b01100000, 0b10000000, 0b11111110, 0b00000000, 0b11111110, 0b00000000, 0b00000000, 0b00000000],
    [0b00000000, 0b00000000, 0b00000000, 0b00000000, 0b00000000, 0b00000000, 0b00000000, 0b11111110,
     0b00100100, 0b00100100, 0b00100100, 0b00100100, 0b01000100, 0b10000100, 0b00000000, 0b00000000],
    [0b00000000, 0b00000000, 0b00000000, 0b00000000, 0b00000010, 0b00000100, 0b00001000, 0b11111110,
     0b00010000, 0b11111110, 0b00100000, 0b01000000, 0b10000000, 0b00000000, 0b00000000, 0b00000000],
    [0b00000000, 0b00000000, 0b00000000, 0b00000000, 0b00001100, 0b00010010, 0b00010000, 0b00010000,
     0b00010000, 0b01111100, 0b00010000, 0b00010000, 0b00111100, 0b01010010, 0b00100000, 0b00000000],
    [0b00000000, 0b00000000, 0b00000000, 0b00000000, 0b00000000, 0b00000000, 0b00000000, 0b00000000,
     0b00010000, 0b00000000, 0b00000000, 0b00000000, 0b00000000, 0b00000000, 0b00000000, 0b00000000]]"

definition fonts_20 :: "glyph list" where
  "fonts_20 = [
    [0b00000000, 0b00000000, 0b00000000, 0b00000000, 0b00000000, 0b00000000, 0b00000000, 0b00000000,
     0b00000000, 0b00000000, 0b00000000, 0b00000000, 0b00000000, 0b00000000, 0b00000000, 0b00000000],
    [0b00000000, 0b00011000, 0b00011000, 0b00011000, 0b00011000, 0b00010000, 0b00010000, 0b00010000,
     0b00010000, 0b00010000, 0b00010000, 0b00000000, 0b00000000, 0b00010000, 0b00010000, 0b00000000],
    [0b01101100, 0b00100100, 0b00100100, 0b01001000, 0b00000000, 0b00000000, 0b00000000, 0b00000000,
     0b00000000, 0b00000000, 0b00000000, 0b00000000, 0b00000000, 0b00000000, 0b00000000, 0b00000000],
    [0b00000000, 0b00010010, 0b00010010, 0b00010010, 0b01111111, 0b00100100, 0b00100100, 0b00100100,
     0b00100100, 0b00100100, 0b11111110, 0b01001000, 0b01001000, 0b01001000, 0b01001000, 0b00000000],
    [0b00010000, 0b00111000, 0b01010100, 0b10010010, 0b10010010, 0b10010000, 0b01010000, 0b00111000,
     0b00010100, 0b00010010, 0b10010010, 0b10010010, 0b01010100, 0b00111000, 0b00010000, 0b00010000],
    [0b00000001, 0b01100001, 0b10010010, 0b10010010, 0b10010100, 0b10010100, 0b01101000, 0b00001000,
     0b00010000, 0b00010110, 0b00101001, 0b00101001, 0b01001001, 0b01001001, 0b10000110, 0b10000000],
    [0b00000000, 0b00111000, 0b01000100, 0b01000100, 0b01000100, 0b00101000, 0b00010000, 0b00110000,
     0b01001010, 0b10001010, 0b10000100, 0b10000100, 0b01001010, 0b00110001, 0b00000000, 0b00000000],
    [0b01100000, 0b00100000, 0b00100000, 0b01000000, 0b00000000, 0b00000000, 0b00000000, 0b00000000,
     0b00000000, 0b00000000, 0b00000000, 0b00000000, 0b00000000, 0b00000000, 0b00000000, 0b00000000]]"

definition fonts_28 :: "glyph list" where
  "fonts_28 = [
    [0b00000000, 0b00000010, 0b00000100, 0b00001000, 0b00001000, 0b00010000, 0b00010000, 0b00010000,
     0b00010000, 0b00010000, 0b00010000, 0b00010000, 0b00001000, 0b00001000, 0b00000100, 0b00000010],
    [0b00000000, 0b01000000, 0b00100000, 0b00010000, 0b00010000, 0b00001000, 0b00001000, 0b00001000,
     0b00001000, 0b00001000, 0b00001000, 0b00001000, 0b00010000, 0b00010000, 0b00100000, 0b01000000],
    [0b00000000, 0b00000000, 0b00000000, 0b00000000, 0b00010000, 0b10010010, 0b01010100, 0b00111000,
     0b01010100, 0b10010010, 0b00010000, 0b00000000, 0b00000000, 0b00000000, 0b00000000, 0b00000000],
    [0b00000000, 0b00000000, 0b00000000, 0b00010000, 0b00010000, 0b00010000, 0b00010000, 0b11111110,
     0b00010000, 0b00010000, 0b00010000, 0b00010000, 0b00000000, 0b00000000, 0b00000000, 0b00000000],
    [0b00000000, 0b00000000, 0b00000000, 0b00000000, 0b00000000, 0b00000000, 0b00000000, 0b00000000,
     0b00000000, 0b00000000, 0b00000000, 0b00000000, 0b01100000, 0b00100000, 0b00100000, 0b01000000],
    [0b00000000, 0b00000000, 0b00000000, 0b00000000, 0b00000000, 0b00000000, 0b00000000, 0b11111110,
     0b00000000, 0b00000000, 0b00000000, 0b00000000, 0b00000000, 0b00000000, 0b00000000, 0b00000000],
    [0b00000000, 0b00000000, 0b00000000, 0b00000000, 0b00000000, 0b00000000, 0b00000000, 0b00000000,
     0b00000000, 0b00000000, 0b00000000, 0b00000000, 0b01100000, 0b01100000, 0b00000000, 0b00000000],
    [0b00000000, 0b00000010, 0b00000010, 0b00000100, 0b00000100, 0b00001000, 0b00001000, 0b00010000,
     0b00010000, 0b00100000, 0b00100000, 0b01000000, 0b01000000, 0b10000000, 0b10000000, 0b00000000]]"

definition fonts_30 :: "glyph list" where
  "fonts_30 = [
    [0b00000000, 0b00011000, 0b00100100, 0b00100100, 0b01000010, 0b01000010, 0b01000010, 0b01000010,
     0b01000010, 0b01000010, 0b01000010, 0b00100100, 0b00100100, 0b00011000, 0b00000000, 0b00000000],
    [0b00000000, 0b00010000, 0b00010000, 0b00110000, 0b01010000, 0b00010000, 0b00010000, 0b00010000,
     0b00010000, 0b00010000, 0b00010000, 0b00010000, 0b00010000, 0b00010000, 0b00000000, 0b00000000],
    [0b00000000, 0b00011000, 0b00100100, 0b01000010, 0b01000010, 0b00000010, 0b00000100, 0b00001000,
     0b00010000, 0b00100000, 0b00100000, 0b01000000, 0b01000000, 0b01111110, 0b00000000, 0b00000000],
    [0b00000000, 0b00111000, 0b01000100, 0b10000010, 0b10000010, 0b00000010, 0b00000100, 0b00111000,
     0b00000100, 0b00000010, 0b10000010, 0b10000010, 0b01000100, 0b00111000, 0b00000000, 0b00000000],
    [0b00000000, 0b00001000, 0b00011000, 0b00011000, 0b00101000, 0b00101000, 0b01001000, 0b01001000,
     0b10001000, 0b11111110, 0b00001000, 0b00001000, 0b00001000, 0b00001000, 0b00000000, 0b00000000],
    [0b00000000, 0b01111100, 0b01000000, 0b01000000, 0b01000000, 0b10111000, 0b11000100, 0b10000010,
     0b00000010, 0b00000010, 0b10000010, 0b10000010, 0b01000100, 0b00111000, 0b00000000, 0b00000000],
    [0b00000000, 0b00111000, 0b01000100, 0b01000000, 0b10000000, 0b10000000, 0b10111000, 0b11000100,
     0b10000010, 0b10000010, 0b10000010, 0b10000010, 0b01000100, 0b00111000, 0b00000000, 0b00000000],
    [0b00000000, 0b11111110, 0b00000010, 0b00000100, 0b00000100, 0b00001000, 0b00001000, 0b00001000,
     0b00001000, 0b00010000, 0b00010000, 0b00010000, 0b00010000, 0b00010000, 0b00010000, 0b00000000]]"

definition fonts_38 :: "glyph list" where
  "fonts_38 = [
    [0b00000000, 0b00111000, 0b01000100, 0b10000010, 0b10000010, 0b10000010, 0b01000100, 0b00111000,
     0b01000100, 0b10000010, 0b10000010, 0b10000010, 0b01000100, 0b00111000, 0b00000000, 0b00000000],
    [0b00000000, 0b00111000, 0b01000100, 0b10000010, 0b10000010, 0b10000010, 0b10000010, 0b01000110,
     0b00111010, 0b00000010, 0b00000010, 0b10000010, 0b01000100, 0b00111000, 0b00000000, 0b00000000],
    [0b00000000, 0b00000000, 0b00000000, 0b00000000, 0b00011000, 0b00011000, 0b00000000, 0b00000000,
     0b00000000, 0b00000000, 0b00000000, 0b00011000, 0b00011000, 0b00000000, 0b00000000, 0b00000000],
    [0b00000000, 0b00000000, 0b00000000, 0b00000000, 0b00011000, 0b00011000, 0b00000000, 0b00000000,
     0b00000000, 0b00000000, 0b00011000, 0b00001000, 0b00001000, 0b00010000, 0b00000000, 0b00000000],
    [0b00000000, 0b00000000, 0b00000000, 0b00000010, 0b00000100, 0b00001000, 0b00010000, 0b00100000,
     0b00100000, 0b00010000, 0b00001000, 0b00000100, 0b00000010, 0b00000000, 0b00000000, 0b00000000],
    [0b00000000, 0b00000000, 0b00000000, 0b00000000, 0b00000000, 0b11111110, 0b00000000, 0b00000000,
     0b00000000, 0b11111110, 0b00000000, 0b00000000, 0b00000000, 0b00000000, 0b00000000, 0b00000000],
    [0b00000000, 0b00000000, 0b00000000, 0b01000000, 0b00100000, 0b00010000, 0b00001000, 0b00000100,
     0b00000100, 0b00001000, 0b00010000, 0b00100000, 0b01000000, 0b00000000, 0b00000000, 0b00000000],
    [0b00000000, 0b00111000, 0b01000100, 0b10000010, 0b10000010, 0b10000010, 0b00000100, 0b00001000,
     0b00001000, 0b00010000, 0b00010000, 0b00000000, 0b00000000, 0b00010000, 0b00010000, 0b00000000]]"

definition fonts_40 :: "glyph list" where
  "fonts_40 = [
    [0b00000000, 0b00011000, 0b00100100, 0b01000010, 0b01011010, 0b10110101, 0b10100101, 0b10100101,
     0b10100101, 0b10011010, 0b01000000, 0b01000000, 0b00100010, 0b00011100, 0b00000000, 0b00000000],
    [0b00000000, 0b00010000, 0b00010000, 0b00101000, 0b00101000, 0b00101000, 0b01000100, 0b01000100,
     0b01000100, 0b01111100, 0b10000010, 0b10000010, 0b10000010, 0b10000010, 0b00000000, 0b00000000],
    [0b00000000, 0b11110000, 0b10001000, 0b10000100, 0b10000100, 0b10000100, 0b10001000, 0b11111000,
     0b10000100, 0b10000010, 0b10000010, 0b10000010, 0b10000100, 0b11111000, 0b00000000, 0b00000000],
    [0b00000000, 0b00111000, 0b01000100, 0b01000010, 0b10000000, 0b10000000, 0b10000000, 0b10000000,
     0b10000000, 0b10000000, 0b10000000, 0b01000010, 0b01000100, 0b00111000, 0b00000000, 0b00000000],
    [0b00000000, 0b11110000, 0b10001000, 0b10000100, 0b10000100, 0b10000010, 0b10000010, 0b10000010,
     0b10000010, 0b10000010, 0b10000100, 0b10000100, 0b10001000, 0b11110000, 0b00000000, 0b00000000],
    [0b00000000, 0b11111110, 0b10000000, 0b10000000, 0b10000000, 0b10000000, 0b10000000, 0b11111100,
     0b10000000, 0b10000000, 0b10000000, 0b10000000, 0b10000000, 0b11111110, 0b00000000, 0b00000000],
    [0b00000000, 0b11111110, 0b10000000, 0b10000000, 0b10000000, 0b10000000, 0b10000000, 0b11111100,
     0b10000000, 0b10000000, 0b10000000, 0b10000000, 0b10000000, 0b10000000, 0b00000000, 0b00000000],
    [0b00000000, 0b00011000, 0b00100100, 0b01000010, 0b01000000, 0b10000000, 0b10000000, 0b10001110,
     0b10000010, 0b10000010, 0b10000010, 0b01000010, 0b01100110, 0b00011010, 0b00000000, 0b00000000]]"

definition fonts_48 :: "glyph list" where
  "fonts_48 = [
    [0b00000000, 0b10000010, 0b10000010, 0b10000010, 0b10000010, 0b10000010, 0b10000010, 0b11111110,
     0b10000010, 0b10000010, 0b10000010, 0b10000010, 0b10000010, 0b10000010, 0b00000000, 0b00000000],
    [0b00000000, 0b00111000, 0b00010000, 0b00010000, 0b00010000, 0b00010000, 0b00010000, 0b00010000,
     0b00010000, 0b00010000, 0b00010000, 0b00010000, 0b00010000, 0b00111000, 0b00000000, 0b00000000],
    [0b00000000, 0b00000010, 0b00000010, 0b00000010, 0b00000010, 0b00000010, 0b00000010, 0b00000010,
     0b00000010, 0b00000010, 0b00000010, 0b01000010, 0b00100100, 0b00011000, 0b00000000, 0b00000000],
    [0b00000000, 0b01000010, 0b01000010, 0b01000100, 0b01000100, 0b01001000, 0b01011000, 0b01101000,
     0b01100100, 0b01000100, 0b01000010, 0b01000010, 0b01000001, 0b01000001, 0b00000000, 0b00000000],
    [0b00000000, 0b01000000, 0b01000000, 0b01000000, 0b01000000, 0b01000000, 0b01000000, 0b01000000,
     0b01000000, 0b01000000, 0b01000000, 0b01000000, 0b01000000, 0b01111110, 0b00000000, 0b00000000],
    [0b00000000, 0b10000010, 0b10000010, 0b11000110, 0b11000110, 0b11000110, 0b10101010, 0b10101010,
     0b10101010, 0b10010010, 0b10010010, 0b10010010, 0b10010010, 0b10000010, 0b00000000, 0b00000000],
    [0b00000000, 0b10000010, 0b11000010, 0b11000010, 0b10100010, 0b10100010, 0b10010010, 0b10010010,
     0b10010010, 0b10001010, 0b10001010, 0b10000110, 0b10000110, 0b10000010, 0b00000000, 0b00000000],
    [0b00000000, 0b00111000, 0b01000100, 0b01000100, 0b10000010, 0b10000010, 0b10000010, 0b10000010,
     0b10000010, 0b10000010, 0b10000010, 0b01000100, 0b01000100, 0b00111000, 0b00000000, 0b00000000]]"

definition fonts_50 :: "glyph list" where
  "fonts_50 = [
    [0b00000000, 0b11111000, 0b10000100, 0b10000010, 0b10000010, 0b10000010, 0b10000100, 0b11111000,
     0b10000000, 0b10000000, 0b10000000, 0b10000000, 0b10000000, 0b10000000, 0b00000000, 0b00000000],
    [0b00000000, 0b00111000, 0b01000100, 0b01000100, 0b10000010, 0b10000010, 0b10000010, 0b10000010,
     0b10000010, 0b10000010, 0b10111010, 0b01000100, 0b01000100, 0b00111000, 0b00001000, 0b00000110],
    [0b00000000, 0b11111000, 0b10000100, 0b10000010, 0b10000010, 0b10000010, 0b10000100, 0b11111000,
     0b10001000, 0b10000100, 0b10000100, 0b10000100, 0b10000010, 0b10000010, 0b00000000, 0b00000000],
    [0b00000000, 0b00111000, 0b01000100, 0b10000010, 0b10000010, 0b10000000, 0b01100000, 0b00011000,
     0b00000100, 0b00000010, 0b10000010, 0b10000010, 0b01000100, 0b00111000, 0b00000000, 0b00000000],
    [0b00000000, 0b11111110, 0b00010000, 0b00010000, 0b00010000, 0b00010000, 0b00010000, 0b00010000,
     0b00010000, 0b00010000, 0b00010000, 0b00010000, 0b00010000, 0b00010000, 0b00000000, 0b00000000],
    [0b00000000, 0b10000010, 0b10000010, 0b10000010, 0b10000010, 0b10000010, 0b10000010, 0b10000010,
     0b10000010, 0b10000010, 0b10000010, 0b10000010, 0b01000100, 0b00111000, 0b00000000, 0b00000000],
    [0b00000000, 0b10000010, 0b10000010, 0b10000010, 0b10000010, 0b01000100, 0b01000100, 0b01000100,
     0b00101000, 0b00101000, 0b00101000, 0b00010000, 0b00010000, 0b00010000, 0b00000000, 0b00000000],
    [0b00000000, 0b10010010, 0b10010010, 0b10010010, 0b10010010, 0b10010010, 0b10010010, 0b10101010,
     0b10101010, 0b01101100, 0b01000100, 0b01000100, 0b01000100, 0b01000100, 0b00000000, 0b00000000]]"

definition fonts_58 :: "glyph list" where
  "fonts_58 = [
    [0b00000000, 0b10000010, 0b01000100, 0b01000100, 0b00101000, 0b00101000, 0b00010000, 0b00101000,
     0b00101000, 0b00101000, 0b01000100, 0b01000100, 0b10000010, 0b10000010, 0b00000000, 0b00000000],
    [0b00000000, 0b10000010, 0b10000010, 0b01000100, 0b01000100, 0b01000100, 0b00101000, 0b00101000,
     0b00010000, 0b00010000, 0b00010000, 0b00010000, 0b00010000, 0b00010000, 0b00000000, 0b00000000],
    [0b00000000, 0b11111110, 0b00000100, 0b00000100, 0b00001000, 0b00001000, 0b00010000, 0b00010000,
     0b00100000, 0b00100000, 0b01000000, 0b01000000, 0b10000000, 0b11111110, 0b00000000, 0b00000000],
    [0b00011110, 0b00010000, 0b00010000, 0b00010000, 0b00010000, 0b00010000, 0b00010000, 0b00010000,
     0b00010000, 0b00010000, 0b00010000, 0b00010000, 0b00010000, 0b00010000, 0b00010000, 0b00011110],
    [0b00000000, 0b10000000, 0b10000000, 0b01000000, 0b01000000, 0b00100000, 0b00100000, 0b00010000,
     0b00010000, 0b00001000, 0b00001000, 0b00000100, 0b00000100, 0b00000010, 0b00000010, 0b00000000],
    [0b11110000, 0b00010000, 0b00010000, 0b00010000, 0b00010000, 0b00010000, 0b00010000, 0b00010000,
     0b00010000, 0b00010000, 0b00010000, 0b00010000, 0b00010000, 0b00010000, 0b00010000, 0b11110000],
    [0b00010000, 0b00101000, 0b01000100, 0b10000010, 0b00000000, 0b00000000, 0b00000000, 0b00000000,
     0b00000000, 0b00000000, 0b00000000, 0b00000000, 0b00000000, 0b00000000, 0b00000000, 0b00000000],
    [0b00000000, 0b00000000, 0b00000000, 0b00000000, 0b00000000, 0b00000000, 0b00000000, 0b00000000,
     0b00000000, 0b00000000, 0b00000000, 0b00000000, 0b00000000, 0b00000000, 0b11111110, 0b00000000]]"

definition fonts_60 :: "glyph list" where
  "fonts_60 = [
    [0b00110000, 0b00100000, 0b00100000, 0b00010000, 0b00000000, 0b00000000, 0b00000000, 0b00000000,
     0b00000000, 0b00000000, 0b00000000, 0b00000000, 0b00000000, 0b00000000, 0b00000000, 0b00000000],
    [0b00000000, 0b00000000, 0b00000000, 0b00000000, 0b00000000, 0b00111100, 0b01000010, 0b00000010,
     0b00111110, 0b01000010, 0b10000010, 0b10000010, 0b10000110, 0b01111010, 0b00000000, 0b00000000],
    [0b00000000, 0b10000000, 0b10000000, 0b10000000, 0b10000000, 0b10111000, 0b11000100, 0b10000010,
     0b10000010, 0b10000010, 0b10000010, 0b10000010, 0b11000100, 0b10111000, 0b00000000, 0b00000000],
    [0b00000000, 0b00000000, 0b00000000, 0b00000000, 0b00000000, 0b00111000, 0b01000100, 0b10000010,
     0b10000000, 0b10000000, 0b10000000, 0b10000010, 0b01000100, 0b00111000, 0b00000000, 0b00000000],
    [0b00000000, 0b00000010, 0b00000010, 0b00000010, 0b00000010, 0b00111010, 0b01000110, 0b10000010,
     0b10000010, 0b10000010, 0b10000010, 0b10000010, 0b01000110, 0b00111010, 0b00000000, 0b00000000],
    [0b00000000, 0b00000000, 0b00000000, 0b00000000, 0b00000000, 0b00111000, 0b01000100, 0b10000010,
     0b10000010, 0b11111110, 0b10000000, 0b10000010, 0b01000100, 0b00111000, 0b00000000, 0b00000000],
    [0b00000000, 0b00001100, 0b00010000, 0b00010000, 0b00010000, 0b01111100, 0b00010000, 0b00010000,
     0b00010000, 0b00010000, 0b00010000, 0b00010000, 0b00010000, 0b00010000, 0b00000000, 0b00000000],
    [0b00000000, 0b00000000, 0b00000000, 0b00000000, 0b00000000, 0b00111011, 0b01000100, 0b01000100,
     0b01000100, 0b00111000, 0b01000000, 0b01111000, 0b10000100, 0b10000010, 0b10000010, 0b01111100]]"

definition fonts_68 :: "glyph list" where
  "fonts_68 = [
    [0b00000000, 0b01000000, 0b01000000, 0b01000000, 0b01000000, 0b01011100, 0b01100010, 0b01000010,
     0b01000010, 0b01000010, 0b01000010, 0b01000010, 0b01000010, 0b01000010, 0b00000000, 0b00000000],
    [0b00000000, 0b00010000, 0b00010000, 0b00000000, 0b00000000, 0b00110000, 0b00010000, 0b00010000,
     0b00010000, 0b00010000, 0b00010000, 0b00010000, 0b00010000, 0b00010000, 0b00000000, 0b00000000],
    [0b00000000, 0b00001000, 0b00001000, 0b00000000, 0b00000000, 0b00011000, 0b00001000, 0b00001000,
     0b00001000, 0b00001000, 0b00001000, 0b00001000, 0b00001000, 0b00001000, 0b00010000, 0b01100000],
    [0b00000000, 0b01000000, 0b01000000, 0b01000000, 0b01000000, 0b01000010, 0b01000100, 0b01001000,
     0b01010000, 0b01101000, 0b01000100, 0b01000100, 0b01000010, 0b01000010, 0b00000000, 0b00000000],
    [0b00000000, 0b00110000, 0b00010000, 0b00010000, 0b00010000, 0b00010000, 0b00010000, 0b00010000,
     0b00010000, 0b00010000, 0b00010000, 0b00010000, 0b00010000, 0b00010000, 0b00000000, 0b00000000],
    [0b00000000, 0b00000000, 0b00000000, 0b00000000, 0b00000000, 0b11101100, 0b10010010, 0b10010010,
     0b10010010, 0b10010010, 0b10010010, 0b10010010, 0b10010010, 0b10010010, 0b00000000, 0b00000000],
    [0b00000000, 0b00000000, 0b00000000, 0b00000000, 0b00000000, 0b01011100, 0b01100010, 0b01000010,
     0b01000010, 0b01000010, 0b01000010, 0b01000010, 0b01000010, 0b01000010, 0b00000000, 0b00000000],
    [0b00000000, 0b00000000, 0b00000000, 0b00000000, 0b00000000, 0b00111000, 0b01000100, 0b10000010,
     0b10000010, 0b10000010, 0b10000010, 0b10000010, 0b01000100, 0b00111000, 0b00000000, 0b00000000]]"

definition fonts_70 :: "glyph list" where
  "fonts_70 = [
    [0b00000000, 0b00000000, 0b00000000, 0b00000000, 0b00000000, 0b10111000, 0b11000100, 0b10000010,
     0b10000010, 0b10000010, 0b10000010, 0b11000100, 0b10111000, 0b10000000, 0b10000000, 0b10000000],
    [0b00000000, 0b00000000, 0b00000000, 0b00000000, 0b00000000, 0b00111010, 0b01000110, 0b10000010,
     0b10000010, 0b10000010, 0b10000010, 0b01000110, 0b00111010, 0b00000010, 0b00000010, 0b00000010],
    [0b00000000, 0b00000000, 0b00000000, 0b00000000, 0b00000000, 0b00101100, 0b00110000, 0b00100000,
     0b00100000, 0b00100000, 0b00100000, 0b00100000, 0b00100000, 0b00100000, 0b00000000, 0b00000000],
    [0b00000000, 0b00000000, 0b00000000, 0b00000000, 0b00000000, 0b00111100, 0b01000010, 0b01000000,
     0b01100000, 0b00011000, 0b00000110, 0b00000010, 0b01000010, 0b00111100, 0b00000000, 0b00000000],
    [0b00000000, 0b00000000, 0b00010000, 0b00010000, 0b00010000, 0b01111100, 0b00010000, 0b00010000,
     0b00010000, 0b00010000, 0b00010000, 0b00010000, 0b00010000, 0b00001100, 0b00000000, 0b00000000],
    [0b00000000, 0b00000000, 0b00000000, 0b00000000, 0b00000000, 0b01000010, 0b01000010, 0b01000010,
     0b01000010, 0b01000010, 0b01000010, 0b01000010, 0b01000110, 0b00111010, 0b00000000, 0b00000000],
    [0b00000000, 0b00000000, 0b00000000, 0b00000000, 0b00000000, 0b10000010, 0b10000010, 0b10000010,
     0b01000100, 0b01000100, 0b00101000, 0b00101000, 0b00010000, 0b00010000, 0b00000000, 0b00000000],
    [0b00000000, 0b00000000, 0b00000000, 0b00000000, 0b00000000, 0b10010010, 0b10010010, 0b10010010,
     0b10010010, 0b10101010, 0b10101010, 0b01000100, 0b01000100, 0b01000100, 0b00000000, 0b00000000]]"

definition fonts_78 :: "glyph list" where
  "fonts_78 = [
    [0b00000000, 0b00000000, 0b00000000, 0b00000000, 0b00000000, 0b10000010, 0b01000100, 0b00101000,
     0b00101000, 0b00010000, 0b00101000, 0b00101000, 0b01000100, 0b10000010, 0b00000000, 0b00000000],
    [0b00000000, 0b00000000, 0b00000000, 0b00000000, 0b00000000, 0b10000010, 0b10000010, 0b01000100,
     0b01000100, 0b00101000, 0b00101000, 0b00011000, 0b00010000, 0b00010000, 0b00100000, 0b11000000],
    [0b00000000, 0b00000000, 0b00000000, 0b00000000, 0b00000000, 0b01111110, 0b00000100, 0b00001000,
     0b00001000, 0b00010000, 0b00010000, 0b00100000, 0b01000000, 0b11111110, 0b00000000, 0b00000000],
    [0b00000100, 0b00001000, 0b00001000, 0b00001000, 0b00001000, 0b00001000, 0b00001000, 0b00010000,
     0b00001000, 0b00001000, 0b00001000, 0b00001000, 0b00001000, 0b00001000, 0b00001000, 0b00000100],
    [0b00010000, 0b00010000, 0b00010000, 0b00010000, 0b00010000, 0b00010000, 0b00010000, 0b00010000,
     0b00010000, 0b00010000, 0b00010000, 0b00010000, 0b00010000, 0b00010000, 0b00010000, 0b00010000],
    [0b01000000, 0b00100000, 0b00100000, 0b00100000, 0b00100000, 0b00100000, 0b00100000, 0b00010000,
     0b00100000, 0b00100000, 0b00100000, 0b00100000, 0b00100000, 0b00100000, 0b00100000, 0b01000000],
    [0b00000000, 0b00000000, 0b00000000, 0b01100000, 0b10010010, 0b00001100, 0b00000000, 0b00000000,
     0b00000000, 0b00000000, 0b00000000, 0b00000000, 0b00000000, 0b00000000, 0b00000000, 0b00000000],
    [0b00000000, 0b00000000, 0b00000000, 0b00000000, 0b00000000, 0b00000000, 0b00000000, 0b00000000,
     0b00000000, 0b00000000, 0b00000000, 0b00000000, 0b00000000, 0b00000000, 0b00000000, 0b00000000]]"

definition fonts_80 :: "glyph list" where
  "fonts_80 = [
    [0b00000000, 0b00000000, 0b00000000, 0b00000000, 0b00000000, 0b00000000, 0b00000000, 0b00000000,
     0b00000000, 0b00000000, 0b00000000, 0b00000000, 0b00000000, 0b00000000, 0b00000000, 0b00000000],
    [0b00000000, 0b00000000, 0b00000000, 0b00000000, 0b00000000, 0b00000000, 0b00000000, 0b00000000,
     0b00000000, 0b00000000, 0b00000000, 0b00000000, 0b00000000, 0b00000000, 0b00000000, 0b00000000],
    [0b00000000, 0b00000000, 0b00000000, 0b00000000, 0b00000000, 0b00000000, 0b00000000, 0b00000000,
     0b00000000, 0b00000000, 0b00000000, 0b00000000, 0b00000000, 0b00000000, 0b00000000, 0b00000000],
    [0b00000000, 0b00000000, 0b00000000, 0b00000000, 0b00000000, 0b00000000, 0b00000000, 0b00000000,
     0b00000000, 0b00000000, 0b00000000, 0b00000000, 0b00000000, 0b00000000, 0b00000000, 0b00000000],
    [0b00000000, 0b00000000, 0b00000000, 0b00000000, 0b00000000, 0b00000000, 0b00000000, 0b00000000,
     0b00000000, 0b00000000, 0b00000000, 0b00000000, 0b00000000, 0b00000000, 0b00000000, 0b00000000],
    [0b00000000, 0b00000000, 0b00000000, 0b00000000, 0b00000000, 0b00000000, 0b00000000, 0b00000000,
     0b00000000, 0b00000000, 0b00000000, 0b00000000, 0b00000000, 0b00000000, 0b00000000, 0b00000000],
    [0b00000000, 0b00000000, 0b00000000, 0b00000000, 0b00000000, 0b00000000, 0b00000000, 0b00000000,
     0b00000000, 0b00000000, 0b00000000, 0b00000000, 0b00000000, 0b00000000, 0b00000000, 0b00000000],
    [0b00000000, 0b00000000, 0b00000000, 0b00000000, 0b00000000, 0b00000000, 0b00000000, 0b00000000,
     0b00000000, 0b00000000, 0b00000000, 0b00000000, 0b00000000, 0b00000000, 0b00000000, 0b00000000]]"

definition fonts_88 :: "glyph list" where
  "fonts_88 = [
    [0b00000000, 0b00000000, 0b00000000, 0b00000000, 0b00000000, 0b00000000, 0b00000000, 0b00000000,
     0b00000000, 0b00000000, 0b00000000, 0b00000000, 0b00000000, 0b00000000, 0b00000000, 0b00000000],
    [0b00000000, 0b00000000, 0b00000000, 0b00000000, 0b00000000, 0b00000000, 0b00000000, 0b00000000,
     0b00000000, 0b00000000, 0b00000000, 0b00000000, 0b00000000, 0b00000000, 0b00000000, 0b00000000],
    [0b00000000, 0b00000000, 0b00000000, 0b00000000, 0b00000000, 0b00000000, 0b00000000, 0b00000000,
     0b00000000, 0b00000000, 0b00000000, 0b00000000, 0b00000000, 0b00000000, 0b00000000, 0b00000000],
    [0b00000000, 0b00000000, 0b00000000, 0b00000000, 0b00000000, 0b00000000, 0b00000000, 0b00000000,
     0b00000000, 0b00000000, 0b00000000, 0b00000000, 0b00000000, 0b00000000, 0b00000000, 0b00000000],
    [0b00000000, 0b00000000, 0b00000000, 0b00000000, 0b00000000, 0b00000000, 0b00000000, 0b00000000,
     0b00000000, 0b00000000, 0b00000000, 0b00000000, 0b00000000, 0b00000000, 0b00000000, 0b00000000],
    [0b00000000, 0b00000000, 0b00000000, 0b00000000, 0b00000000, 0b00000000, 0b00000000, 0b00000000,
     0b00000000, 0b00000000, 0b00000000, 0b00000000, 0b00000000, 0b00000000, 0b00000000, 0b00000000],
    [0b00000000, 0b00000000, 0b00000000, 0b00000000, 0b00000000, 0b00000000, 0b00000000, 0b00000000,
     0b00000000, 0b00000000, 0b00000000, 0b00000000, 0b00000000, 0b00000000, 0b00000000, 0b00000000],
    [0b00000000, 0b00000000, 0b00000000, 0b00000000, 0b00000000, 0b00000000, 0b00000000, 0b00000000,
     0b00000000, 0b00000000, 0b00000000, 0b00000000, 0b00000000, 0b00000000, 0b00000000, 0b00000000]]"

definition fonts_90 :: "glyph list" where
  "fonts_90 = [
    [0b00000000, 0b00000000, 0b00000000, 0b00000000, 0b00000000, 0b00000000, 0b00000000, 0b00000000,
     0b00000000, 0b00000000, 0b00000000, 0b00000000, 0b00000000, 0b00000000, 0b00000000, 0b00000000],
    [0b00000000, 0b00000000, 0b00000000, 0b00000000, 0b00000000, 0b00000000, 0b00000000, 0b00000000,
     0b00000000, 0b00000000, 0b00000000, 0b00000000, 0b00000000, 0b00000000, 0b00000000, 0b00000000],
    [0b00000000, 0b00000000, 0b00000000, 0b00000000, 0b00000000, 0b00000000, 0b00000000, 0b00000000,
     0b00000000, 0b00000000, 0b00000000, 0b00000000, 0b00000000, 0b00000000, 0b00000000, 0b00000000],
    [0b00000000, 0b00000000, 0b00000000, 0b00000000, 0b00000000, 0b00000000, 0b00000000, 0b00000000,
     0b00000000, 0b00000000, 0b00000000, 0b00000000, 0b00000000, 0b00000000, 0b00000000, 0b00000000],
    [0b00000000, 0b00000000, 0b00000000, 0b00000000, 0b00000000, 0b00000000, 0b00000000, 0b00000000,
     0b00000000, 0b00000000, 0b00000000, 0b00000000, 0b00000000, 0b00000000, 0b00000000, 0b00000000],
    [0b00000000, 0b00000000, 0b00000000, 0b00000000, 0b00000000, 0b00000000, 0b00000000, 0b00000000,
     0b00000000, 0b00000000, 0b00000000, 0b00000000, 0b00000000, 0b00000000, 0b00000000, 0b00000000],
    [0b00000000, 0b00000000, 0b00000000, 0b00000000, 0b00000000, 0b00000000, 0b00000000, 0b00000000,
     0b00000000, 0b00000000, 0b00000000, 0b00000000, 0b00000000, 0b00000000, 0b00000000, 0b00000000],
    [0b00000000, 0b00000000, 0b00000000, 0b00000000, 0b00000000, 0b00000000, 0b00000000, 0b00000000,
     0b00000000, 0b00000000, 0b00000000, 0b00000000, 0b00000000, 0b00000000, 0b00000000, 0b00000000]]"

definition fonts_98 :: "glyph list" where
  "fonts_98 = [
    [0b00000000, 0b00000000, 0b00000000, 0b00000000, 0b00000000, 0b00000000, 0b00000000, 0b00000000,
     0b00000000, 0b00000000, 0b00000000, 0b00000000, 0b00000000, 0b00000000, 0b00000000, 0b00000000],
    [0b00000000, 0b00000000, 0b00000000, 0b00000000, 0b00000000, 0b00000000, 0b00000000, 0b00000000,
     0b00000000, 0b00000000, 0b00000000, 0b00000000, 0b00000000, 0b00000000, 0b00000000, 0b00000000],
    [0b00000000, 0b00000000, 0b00000000, 0b00000000, 0b00000000, 0b00000000, 0b00000000, 0b00000000,
     0b00000000, 0b00000000, 0b00000000, 0b00000000, 0b00000000, 0b00000000, 0b00000000, 0b00000000],
    [0b00000000, 0b00000000, 0b00000000, 0b00000000, 0b00000000, 0b00000000, 0b00000000, 0b00000000,
     0b00000000, 0b00000000, 0b00000000, 0b00000000, 0b00000000, 0b00000000, 0b00000000, 0b00000000],
    [0b00000000, 0b00000000, 0b00000000, 0b00000000, 0b00000000, 0b00000000, 0b00000000, 0b00000000,
     0b00000000, 0b00000000, 0b00000000, 0b00000000, 0b00000000, 0b00000000, 0b00000000, 0b00000000],
    [0b00000000, 0b00000000, 0b00000000, 0b00000000, 0b00000000, 0b00000000, 0b00000000, 0b00000000,
     0b00000000, 0b00000000, 0b00000000, 0b00000000, 0b00000000, 0b00000000, 0b00000000, 0b00000000],
    [0b00000000, 0b00000000, 0b00000000, 0b00000000, 0b00000000, 0b00000000, 0b00000000, 0b00000000,
     0b00000000, 0b00000000, 0b00000000, 0b00000000, 0b00000000, 0b00000000, 0b00000000, 0b00000000],
    [0b00000000, 0b00000000, 0b00000000, 0b00000000, 0b00000000, 0b00000000, 0b00000000, 0b00000000,
     0b00000000, 0b00000000, 0b00000000, 0b00000000, 0b00000000, 0b00000000, 0b00000000, 0b00000000]]"

definition fonts_a0 :: "glyph list" where
  "fonts_a0 = [
    [0b00000000, 0b00000000, 0b00000000, 0b00000000, 0b00000000, 0b00000000, 0b00000000, 0b00000000,
     0b00000000, 0b00000000, 0b00000000, 0b00000000, 0b00000000, 0b00000000, 0b00000000, 0b00000000],
    [0b00000000, 0b00000000, 0b00000000, 0b00000000, 0b00000000, 0b00000000, 0b00000000, 0b00000000,
     0b00000000, 0b00000000, 0b00000000, 0b00100000, 0b01010000, 0b01010000, 0b00100000, 0b00000000],
    [0b00000000, 0b00111110, 0b00100000, 0b00100000, 0b00100000, 0b00100000, 0b00100000, 0b00100000,
     0b00100000, 0b00100000, 0b00000000, 0b00000000, 0b00000000, 0b00000000, 0b00000000, 0b00000000],
    [0b00000000, 0b00000000, 0b00000000, 0b00000000, 0b00000000, 0b00000000, 0b00010000, 0b00010000,
     0b00010000, 0b00010000, 0b00010000, 0b00010000, 0b00010000, 0b00010000, 0b11110000, 0b00000000],
    [0b00000000, 0b00000000, 0b00000000, 0b00000000, 0b00000000, 0b00000000, 0b00000000, 0b00000000,
     0b00000000, 0b00000000, 0b00000000, 0b00000000, 0b00100000, 0b00010000, 0b00010000, 0b00000000],
    [0b00000000, 0b00000000, 0b00000000, 0b00000000, 0b00000000, 0b00000000, 0b00000000, 0b00011000,
     0b00011000, 0b00000000, 0b00000000, 0b00000000, 0b00000000, 0b00000000, 0b00000000, 0b00000000],
    [0b00000000, 0b00000000, 0b01111110, 0b00000010, 0b00000010, 0b00000010, 0b01111110, 0b00000100,
     0b00000100, 0b00001000, 0b00001000, 0b00010000, 0b00100000, 0b01000000, 0b00000000, 0b00000000],
    [0b00000000, 0b00000000, 0b00000000, 0b00000000, 0b00000000, 0b00000000, 0b00000000, 0b11111100,
     0b00100100, 0b00101000, 0b00110000, 0b00100000, 0b01000000, 0b01000000, 0b10000000, 0b00000000]]"

definition fonts_a8 :: "glyph list" where
  "fonts_a8 = [
    [0b00000000, 0b00000000, 0b00000000, 0b00000000, 0b00000000, 0b00000000, 0b00001000, 0b00001000,
     0b00010000, 0b00110000, 0b01010000, 0b10010000, 0b00010000, 0b00010000, 0b00010000, 0b00000000],
    [0b00000000, 0b00000000, 0b00000000, 0b00000000, 0b00000000, 0b00000000, 0b00100000, 0b00100000,
     0b11111100, 0b10000100, 0b10000100, 0b10001000, 0b00001000, 0b00010000, 0b00100000, 0b00000000],
    [0b00000000, 0b00000000, 0b00000000, 0b00000000, 0b00000000, 0b00000000, 0b00000000, 0b00000000,
     0b01111100, 0b00010000, 0b00010000, 0b00010000, 0b00010000, 0b11111110, 0b00000000, 0b00000000],
    [0b00000000, 0b00000000, 0b00000000, 0b00000000, 0b00000000, 0b00000000, 0b00001000, 0b00001000,
     0b11111110, 0b00001000, 0b00011000, 0b00101000, 0b01001000, 0b10001000, 0b00011000, 0b00000000],
    [0b00000000, 0b00000000, 0b00000000, 0b00000000, 0b00000000, 0b00000000, 0b01000000, 0b00100000,
     0b00111110, 0b11100100, 0b00101000, 0b00010000, 0b00010000, 0b00010000, 0b00000000, 0b00000000],
    [0b00000000, 0b00000000, 0b00000000, 0b00000000, 0b00000000, 0b00000000, 0b00000000, 0b00000000,
     0b01111000, 0b00001000, 0b00001000, 0b00001000, 0b11111110, 0b00000000, 0b00000000, 0b00000000],
    [0b00000000, 0b00000000, 0b00000000, 0b00000000, 0b00000000, 0b00000000, 0b00000000, 0b01111100,
     0b00000100, 0b00000100, 0b01111100, 0b00000100, 0b00000100, 0b01111100, 0b00000000, 0b00000000],
    [0b00000000, 0b00000000, 0b00000000, 0b00000000, 0b00000000, 0b00000000, 0b00100100, 0b10010100,
     0b01010100, 0b01000100, 0b00001000, 0b00001000, 0b00010000, 0b00100000, 0b00000000, 0b00000000]]"

definition fonts_b0 :: "glyph list" where
  "fonts_b0 = [
    [0b00000000, 0b00000000, 0b00000000, 0b00000000, 0b00000000, 0b00000000, 0b00111100, 0b00000000,
     0b00000000, 0b00000000, 0b00000000, 0b00000000, 0b00000000, 0b00000000, 0b00000000, 0b00000000],
    [0b00000000, 0b00000000, 0b11111110, 0b00000010, 0b00010010, 0b00010010, 0b00010100, 0b00011000,
     0b00010000, 0b00010000, 0b00100000, 0b00100000, 0b01000000, 0b10000000, 0b00000000, 0b00000000],
    [0b00000000, 0b00000010, 0b00000010, 0b00000100, 0b00000100, 0b00001000, 0b00011000, 0b00101000,
     0b01001000, 0b10001000, 0b00001000, 0b00001000, 0b00001000, 0b00001000, 0b00000000, 0b00000000],
    [0b00000000, 0b00010000, 0b00010000, 0b00010000, 0b11111110, 0b10000010, 0b10000010, 0b10000010,
     0b10000010, 0b00000100, 0b00000100, 0b00001000, 0b00010000, 0b00100000, 0b00000000, 0b00000000],
    [0b00000000, 0b00000000, 0b00000000, 0b11111110, 0b00010000, 0b00010000, 0b00010000, 0b00010000,
     0b00010000, 0b00010000, 0b00010000, 0b00010000, 0b11111111, 0b00000000, 0b00000000, 0b00000000],
    [0b00000000, 0b00001000, 0b00001000, 0b00001000, 0b11111110, 0b00001000, 0b00011000, 0b00011000,
     0b00101000, 0b00101000, 0b01001000, 0b10001000, 0b00001000, 0b00011000, 0b00000000, 0b00000000],
    [0b00000000, 0b00010000, 0b00010000, 0b00010000, 0b11111110, 0b00010010, 0b00010010, 0b00010010,
     0b00010010, 0b00100010, 0b00100010, 0b00100010, 0b01000010, 0b10001100, 0b00000000, 0b00000000],
    [0b00000000, 0b00100000, 0b00100000, 0b00111100, 0b11100000, 0b00010000, 0b00010000, 0b00011110,
     0b11110000, 0b00001000, 0b00001000, 0b00001000, 0b00001000, 0b00001000, 0b00000000, 0b00000000]]"

definition fonts_b8 :: "glyph list" where
  "fonts_b8 = [
    [0b00000000, 0b00100000, 0b00100000, 0b00111110, 0b00100010, 0b00100010, 0b01000010, 0b01000100,
     0b10000100, 0b00001000, 0b00001000, 0b00010000, 0b00100000, 0b01000000, 0b00000000, 0b00000000],
    [0b00000000, 0b01000000, 0b01000000, 0b01000000, 0b01111110, 0b01001000, 0b01001000, 0b01001000,
     0b10001000, 0b00001000, 0b00010000, 0b00010000, 0b00100000, 0b01000000, 0b00000000, 0b00000000],
    [0b00000000, 0b00000000, 0b00000000, 0b11111110, 0b00000010, 0b00000010, 0b00000010, 0b00000010,
     0b00000010, 0b00000010, 0b00000010, 0b11111110, 0b00000010, 0b00000000, 0b00000000, 0b00000000],
    [0b00000000, 0b00100100, 0b00100100, 0b00100100, 0b00100100, 0b11111110, 0b00100100, 0b00100100,
     0b00100100, 0b00100100, 0b00000100, 0b00001000, 0b00010000, 0b00100000, 0b00000000, 0b00000000],
    [0b00000000, 0b00000000, 0b01100000, 0b00010000, 0b00000000, 0b00000000, 0b11000010, 0b00100010,
     0b00000100, 0b00000100, 0b00001000, 0b00010000, 0b00100000, 0b11000000, 0b00000000, 0b00000000],
    [0b00000000, 0b00000000, 0b00000000, 0b11111110, 0b00000100, 0b00000100, 0b00000100, 0b00001000,
     0b00001000, 0b00011000, 0b00010100, 0b00100100, 0b01000010, 0b10000010, 0b00000000, 0b00000000],
    [0b00000000, 0b01000000, 0b01000000, 0b01000000, 0b01000000, 0b01001110, 0b01110010, 0b11000100,
     0b01001000, 0b01000000, 0b01000000, 0b01000000, 0b01000000, 0b00111110, 0b00000000, 0b00000000],
    [0b00000000, 0b00000000, 0b00000010, 0b10000010, 0b01000010, 0b01000010, 0b01000010, 0b00000100,
     0b00000100, 0b00001000, 0b00001000, 0b00010000, 0b00100000, 0b01000000, 0b00000000, 0b00000000]]"

definition fonts_c0 :: "glyph list" where
  "fonts_c0 = [
    [0b00000000, 0b00100000, 0b00100000, 0b00111110, 0b00100010, 0b01000010, 0b01100010, 0b01010100,
     0b10001100, 0b00001000, 0b00001000, 0b00010000, 0b00100000, 0b01000000, 0b00000000, 0b00000000],
    [0b00000000, 0b00000010, 0b00001100, 0b01111000, 0b00001000, 0b00001000, 0b11111111, 0b00001000,
     0b00001000, 0b00001000, 0b00001000, 0b00010000, 0b00100000, 0b01000000, 0b00000000, 0b00000000],
    [0b00000000, 0b00000000, 0b00100000, 0b00100010, 0b10010010, 0b10010010, 0b01000010, 0b01000100,
     0b00000100, 0b00001000, 0b00001000, 0b00010000, 0b00100000, 0b01000000, 0b00000000, 0b00000000],
    [0b00000000, 0b00000000, 0b01111110, 0b00000000, 0b00000000, 0b00000000, 0b11111110, 0b00001000,
     0b00001000, 0b00001000, 0b00001000, 0b00010000, 0b00100000, 0b01000000, 0b00000000, 0b00000000],
    [0b00000000, 0b00100000, 0b00100000, 0b00100000, 0b00100000, 0b00110000, 0b00101000, 0b00100100,
     0b00100010, 0b00100010, 0b00100000, 0b00100000, 0b00100000, 0b00100000, 0b00000000, 0b00000000],
    [0b00000000, 0b00001000, 0b00001000, 0b00001000, 0b11111110, 0b00001000, 0b00001000, 0b00001000,
     0b00001000, 0b00001000, 0b00010000, 0b00010000, 0b00100000, 0b01000000, 0b00000000, 0b00000000],
    [0b00000000, 0b00000000, 0b00000000, 0b01111100, 0b00000000, 0b00000000, 0b00000000, 0b00000000,
     0b00000000, 0b00000000, 0b00000000, 0b11111111, 0b00000000, 0b00000000, 0b00000000, 0b00000000],
    [0b00000000, 0b00000000, 0b01111110, 0b00000010, 0b00000010, 0b00100100, 0b00010100, 0b00001000,
     0b00001100, 0b00010100, 0b00010010, 0b00100010, 0b01000000, 0b10000000, 0b00000000, 0b00000000]]"

definition fonts_c8 :: "glyph list" where
  "fonts_c8 = [
    [0b00010000, 0b00010000, 0b00010000, 0b11111110, 0b00000100, 0b00000100, 0b00001000, 0b00011000,
     0b00110100, 0b01010010, 0b10010010, 0b00010000, 0b00010000, 0b00010000, 0b00000000, 0b00000000],
    [0b00000000, 0b00000010, 0b00000010, 0b00000010, 0b00000100, 0b00000100, 0b00000100, 0b00001000,
     0b00001000, 0b00010000, 0b00100000, 0b01000000, 0b10000000, 0b00000000, 0b00000000, 0b00000000],
    [0b00000000, 0b00000000, 0b00001000, 0b00001000, 0b00100100, 0b00100100, 0b00100100, 0b00100010,
     0b00100010, 0b00100010, 0b00100010, 0b01000010, 0b01000010, 0b10000010, 0b00000000, 0b00000000],
    [0b00000000, 0b01000000, 0b01000000, 0b01000000, 0b01000010, 0b01001100, 0b01110000, 0b01000000,
     0b01000000, 0b01000000, 0b01000000, 0b01000000, 0b01000000, 0b00111110, 0b00000000, 0b00000000],
    [0b00000000, 0b00000000, 0b11111110, 0b00000010, 0b00000010, 0b00000010, 0b00000010, 0b00000100,
     0b00000100, 0b00001000, 0b00001000, 0b00010000, 0b00100000, 0b01000000, 0b00000000, 0b00000000],
    [0b00000000, 0b00000000, 0b00100000, 0b00100000, 0b01010000, 0b01010000, 0b10001000, 0b10001000,
     0b00000100, 0b00000010, 0b00000001, 0b00000000, 0b00000000, 0b00000000, 0b00000000, 0b00000000],
    [0b00000000, 0b00010000, 0b00010000, 0b00010000, 0b11111110, 0b00010000, 0b00011000, 0b01010100,
     0b01010100, 0b01010010, 0b01010010, 0b10010010, 0b00010000, 0b00110000, 0b00000000, 0b00000000],
    [0b00000000, 0b00000000, 0b00000000, 0b11111110, 0b00000010, 0b00000010, 0b00000100, 0b00000100,
     0b11001000, 0b00110000, 0b00010000, 0b00001000, 0b00000100, 0b00000100, 0b00000000, 0b00000000]]"

definition fonts_d0 :: "glyph list" where
  "fonts_d0 = [
    [0b00000000, 0b01100000, 0b00011000, 0b00000100, 0b00000000, 0b00000000, 0b01100000, 0b00011000,
     0b00000100, 0b00000000, 0b11100000, 0b00011000, 0b00000100, 0b00000010, 0b00000000, 0b00000000],
    [0b00000000, 0b00010000, 0b00010000, 0b00010000, 0b00010000, 0b00010000, 0b00010000, 0b00101000,
     0b00100100, 0b00100100, 0b00100010, 0b01001110, 0b11110010, 0b00000010, 0b00000000, 0b00000000],
    [0b00000000, 0b00000100, 0b00000100, 0b00000100, 0b00000100, 0b01100100, 0b00011000, 0b00001000,
     0b00001100, 0b00010010, 0b00010000, 0b00100000, 0b01000000, 0b10000000, 0b00000000, 0b00000000],
    [0b00000000, 0b00000000, 0b11111110, 0b00100000, 0b00100000, 0b00100000, 0b11111110, 0b00100000,
     0b00100000, 0b00100000, 0b00100000, 0b00100000, 0b00011110, 0b00000000, 0b00000000, 0b00000000],
    [0b00000000, 0b00100000, 0b00100000, 0b00100000, 0b00010111, 0b00111001, 0b11010010, 0b00010010,
     0b00001100, 0b00001000, 0b00001000, 0b00000100, 0b00000100, 0b00000100, 0b00000000, 0b00000000],
    [0b00000000, 0b00000000, 0b00000000, 0b00000000, 0b01111100, 0b00000100, 0b00000100, 0b00000100,
     0b00000100, 0b00000100, 0b00000100, 0b00000100, 0b11111111, 0b00000000, 0b00000000, 0b00000000],
    [0b00000000, 0b00000000, 0b11111110, 0b00000010, 0b00000010, 0b00000010, 0b00000010, 0b01111110,
     0b00000010, 0b00000010, 0b00000010, 0b00000010, 0b00000010, 0b11111110, 0b00000000, 0b00000000],
    [0b00000000, 0b00000000, 0b01111100, 0b00000000, 0b00000000, 0b00000000, 0b11111110, 0b00000010,
     0b00000010, 0b00000100, 0b00000100, 0b00001000, 0b00010000, 0b01100000, 0b00000000, 0b00000000]]"

definition fonts_d8 :: "glyph list" where
  "fonts_d8 = [
    [0b00000000, 0b00000100, 0b01000100, 0b01000100, 0b01000100, 0b01000100, 0b01000100, 0b01000100,
     0b01000100, 0b00000100, 0b00001000, 0b00001000, 0b00010000, 0b00100000, 0b00000000, 0b00000000],
    [0b00000000, 0b00001000, 0b00001000, 0b00101000, 0b00101000, 0b00101000, 0b00101000, 0b00101001,
     0b00101001, 0b00101010, 0b01001010, 0b01001100, 0b01001000, 0b10000000, 0b00000000, 0b00000000],
    [0b00000000, 0b00000000, 0b01000000, 0b01000000, 0b01000000, 0b01000000, 0b01000000, 0b01000000,
     0b01000010, 0b01000100, 0b01000100, 0b01001000, 0b01010000, 0b01100000, 0b00000000, 0b00000000],
    [0b00000000, 0b00000000, 0b00000000, 0b11111110, 0b10000010, 0b10000010, 0b10000010, 0b10000010,
     0b10000010, 0b10000010, 0b10000010, 0b11111110, 0b10000010, 0b00000000, 0b00000000, 0b00000000],
    [0b00000000, 0b00000000, 0b00000000, 0b11111110, 0b10000010, 0b10000010, 0b10000010, 0b10000010,
     0b00000010, 0b00000100, 0b00000100, 0b00001000, 0b00010000, 0b00100000, 0b00000000, 0b00000000],
    [0b00000000, 0b00000000, 0b00000000, 0b11000000, 0b00100000, 0b00000010, 0b00000010, 0b00000010,
     0b00000100, 0b00000100, 0b00001000, 0b00010000, 0b00100000, 0b11000000, 0b00000000, 0b00000000],
    [0b00000000, 0b10010000, 0b01001000, 0b01001000, 0b00000000, 0b00000000, 0b00000000, 0b00000000,
     0b00000000, 0b00000000, 0b00000000, 0b00000000, 0b00000000, 0b00000000, 0b00000000, 0b00000000],
    [0b00000000, 0b01100000, 0b10010000, 0b10010000, 0b01100000, 0b00000000, 0b00000000, 0b00000000,
     0b00000000, 0b00000000, 0b00000000, 0b00000000, 0b00000000, 0b00000000, 0b00000000, 0b00000000]]"

definition fonts_e0 :: "glyph list" where
  "fonts_e0 = [
    [0b00000000, 0b00000000, 0b00000000, 0b00000000, 0b00000000, 0b00000000, 0b00000000, 0b00000000,
     0b00000000, 0b00000000, 0b00000000, 0b00000000, 0b00000000, 0b00000000, 0b00000000, 0b00000000],
    [0b00000000, 0b00000000, 0b00000000, 0b00000000, 0b00000000, 0b00000000, 0b00000000, 0b00000000,
     0b00000000, 0b00000000, 0b00000000, 0b00000000, 0b00000000, 0b00000000, 0b00000000, 0b00000000],
    [0b00000000, 0b00000000, 0b00000000, 0b00000000, 0b00000000, 0b00000000, 0b00000000, 0b00000000,
     0b00000000, 0b00000000, 0b00000000, 0b00000000, 0b00000000, 0b00000000, 0b00000000, 0b00000000],
    [0b00000000, 0b00000000, 0b00000000, 0b00000000, 0b00000000, 0b00000000, 0b00000000, 0b00000000,
     0b00000000, 0b00000000, 0b00000000, 0b00000000, 0b00000000, 0b00000000, 0b00000000, 0b00000000],
    [0b00000000, 0b00000000, 0b00000000, 0b00000000, 0b00000000, 0b00000000, 0b00000000, 0b00000000,
     0b00000000, 0b00000000, 0b00000000, 0b00000000, 0b00000000, 0b00000000, 0b00000000, 0b00000000],
    [0b00000000, 0b00000000, 0b00000000, 0b00000000, 0b00000000, 0b00000000, 0b00000000, 0b00000000,
     0b00000000, 0b00000000, 0b00000000, 0b00000000, 0b00000000, 0b00000000, 0b00000000, 0b00000000],
    [0b00000000, 0b00000000, 0b00000000, 0b00000000, 0b00000000, 0b00000000, 0b00000000, 0b00000000,
     0b00000000, 0b00000000, 0b00000000, 0b00000000, 0b00000000, 0b00000000, 0b00000000, 0b00000000],
    [0b00000000, 0b00000000, 0b00000000, 0b00000000, 0b00000000, 0b00000000, 0b00000000, 0b00000000,
     0b00000000, 0b00000000, 0b00000000, 0b00000000, 0b00000000, 0b00000000, 0b00000000, 0b00000000]]"

definition fonts_e8 :: "glyph list" where
  "fonts_e8 = [
    [0b00000000, 0b00000000, 0b00000000, 0b00000000, 0b00000000, 0b00000000, 0b00000000, 0b00000000,
     0b00000000, 0b00000000, 0b00000000, 0b00000000, 0b00000000, 0b00000000, 0b00000000, 0b00000000],
    [0b00000000, 0b00000000, 0b00000000, 0b00000000, 0b00000000, 0b00000000, 0b00000000, 0b00000000,
     0b00000000, 0b00000000, 0b00000000, 0b00000000, 0b00000000, 0b00000000, 0b00000000, 0b00000000],
    [0b00000000, 0b00000000, 0b00000000, 0b00000000, 0b00000000, 0b00000000, 0b00000000, 0b00000000,
     0b00000000, 0b00000000, 0b00000000, 0b00000000, 0b00000000, 0b00000000, 0b00000000, 0b00000000],
    [0b00000000, 0b00000000, 0b00000000, 0b00000000, 0b00000000, 0b00000000, 0b00000000, 0b00000000,
     0b00000000, 0b00000000, 0b00000000, 0b00000000, 0b00000000, 0b00000000, 0b00000000, 0b00000000],
    [0b00000000, 0b00000000, 0b00000000, 0b00000000, 0b00000000, 0b00000000, 0b00000000, 0b00000000,
     0b00000000, 0b00000000, 0b00000000, 0b00000000, 0b00000000, 0b00000000, 0b00000000, 0b00000000],
    [0b00000000, 0b00000000, 0b00000000, 0b00000000, 0b00000000, 0b00000000, 0b00000000, 0b00000000,
     0b00000000, 0b00000000, 0b00000000, 0b00000000, 0b00000000, 0b00000000, 0b00000000, 0b00000000],
    [0b00000000, 0b00000000, 0b00000000, 0b00000000, 0b00000000, 0b00000000, 0b00000000, 0b00000000,
     0b00000000, 0b00000000, 0b00000000, 0b00000000, 0b00000000, 0b00000000, 0b00000000, 0b00000000],
    [0b00000000, 0b00000000, 0b00000000, 0b00000000, 0b00000000, 0b00000000, 0b00000000, 0b00000000,
     0b00000000, 0b00000000, 0b00000000, 0b00000000, 0b00000000, 0b00000000, 0b00000000, 0b00000000]]"

definition fonts_f0 :: "glyph list" where
  "fonts_f0 = [
    [0b00000000, 0b00000000, 0b00000000, 0b00000000, 0b00000000, 0b00000000, 0b00000000, 0b00000000,
     0b00000000, 0b00000000, 0b00000000, 0b00000000, 0b00000000, 0b00000000, 0b00000000, 0b00000000],
    [0b00000000, 0b00000000, 0b00000000, 0b00000000, 0b00000000, 0b00000000, 0b00000000, 0b00000000,
     0b00000000, 0b00000000, 0b00000000, 0b00000000, 0b00000000, 0b00000000, 0b00000000, 0b00000000],
    [0b00000000, 0b00000000, 0b00000000, 0b00000000, 0b00000000, 0b00000000, 0b00000000, 0b00000000,
     0b00000000, 0b00000000, 0b00000000, 0b00000000, 0b00000000, 0b00000000, 0b00000000, 0b00000000],
    [0b00000000, 0b00000000, 0b00000000, 0b00000000, 0b00000000, 0b00000000, 0b00000000, 0b00000000,
     0b00000000, 0b00000000, 0b00000000, 0b00000000, 0b00000000, 0b00000000, 0b00000000, 0b00000000],
    [0b00000000, 0b00000000, 0b00000000, 0b00000000, 0b00000000, 0b00000000, 0b00000000, 0b00000000,
     0b00000000, 0b00000000, 0b00000000, 0b00000000, 0b00000000, 0b00000000, 0b00000000, 0b00000000],
    [0b00000000, 0b00000000, 0b00000000, 0b00000000, 0b00000000, 0b00000000, 0b00000000, 0b00000000,
     0b00000000, 0b00000000, 0b00000000, 0b00000000, 0b00000000, 0b00000000, 0b00000000, 0b00000000],
    [0b00000000, 0b00000000, 0b00000000, 0b00000000, 0b00000000, 0b00000000, 0b00000000, 0b00000000,
     0b00000000, 0b00000000, 0b00000000, 0b00000000, 0b00000000, 0b00000000, 0b00000000, 0b00000000],
    [0b00000000, 0b00000000, 0b00000000, 0b00000000, 0b00000000, 0b00000000, 0b00000000, 0b00000000,
     0b00000000, 0b00000000, 0b00000000, 0b00000000, 0b00000000, 0b00000000, 0b00000000, 0b00000000]]"

definition fonts_f8 :: "glyph list" where
  "fonts_f8 = [
    [0b00000000, 0b00000000, 0b00000000, 0b00000000, 0b00000000, 0b00000000, 0b00000000, 0b00000000,
     0b00000000, 0b00000000, 0b00000000, 0b00000000, 0b00000000, 0b00000000, 0b00000000, 0b00000000],
    [0b00000000, 0b00000000, 0b00000000, 0b00000000, 0b00000000, 0b00000000, 0b00000000, 0b00000000,
     0b00000000, 0b00000000, 0b00000000, 0b00000000, 0b00000000, 0b00000000, 0b00000000, 0b00000000],
    [0b00000000, 0b00000000, 0b00000000, 0b00000000, 0b00000000, 0b00000000, 0b00000000, 0b00000000,
     0b00000000, 0b00000000, 0b00000000, 0b00000000, 0b00000000, 0b00000000, 0b00000000, 0b00000000],
    [0b00000000, 0b00000000, 0b00000000, 0b00000000, 0b00000000, 0b00000000, 0b00000000, 0b00000000,
     0b00000000, 0b00000000, 0b00000000, 0b00000000, 0b00000000, 0b00000000, 0b00000000, 0b00000000],
    [0b00000000, 0b00000000, 0b00000000, 0b00000000, 0b00000000, 0b00000000, 0b00000000, 0b00000000,
     0b00000000, 0b00000000, 0b00000000, 0b00000000, 0b00000000, 0b00000000, 0b00000000, 0b00000000],
    [0b00000000, 0b00000000, 0b00000000, 0b00000000, 0b00000000, 0b00000000, 0b00000000, 0b00000000,
     0b00000000, 0b00000000, 0b00000000, 0b00000000, 0b00000000, 0b00000000, 0b00000000, 0b00000000],
    [0b00000000, 0b00000000, 0b00000000, 0b00000000, 0b00000000, 0b00000000, 0b00000000, 0b00000000,
     0b00000000, 0b00000000, 0b00000000, 0b00000000, 0b00000000, 0b00000000, 0b00000000, 0b00000000],
    [0b00000000, 0b00000000, 0b00000000, 0b00000000, 0b00000000, 0b00000000, 0b00000000, 0b00000000,
     0b00000000, 0b00000000, 0b00000000, 0b00000000, 0b00000000, 0b00000000, 0b00000000, 0b00000000]]"

definition FONTS :: "glyph list" where
  "FONTS = concat [fonts_00, fonts_08, fonts_10, fonts_18, fonts_20, fonts_28, fonts_30, fonts_38,
    fonts_40, fonts_48, fonts_50, fonts_58, fonts_60, fonts_68, fonts_70, fonts_78,
    fonts_80, fonts_88, fonts_90, fonts_98, fonts_a0, fonts_a8, fonts_b0, fonts_b8,
    fonts_c0, fonts_c8, fonts_d0, fonts_d8, fonts_e0, fonts_e8, fonts_f0, fonts_f8]"

lemma fonts_00_shape: "length fonts_00 = 8" "list_all (\<lambda>g. length g = 16) fonts_00"
  by (simp_all add: fonts_00_def)

lemma fonts_08_shape: "length fonts_08 = 8" "list_all (\<lambda>g. length g = 16) fonts_08"
  by (simp_all add: fonts_08_def)

lemma fonts_10_shape: "length fonts_10 = 8" "list_all (\<lambda>g. length g = 16) fonts_10"
  by (simp_all add: fonts_10_def)

lemma fonts_18_shape: "length fonts_18 = 8" "list_all (\<lambda>g. length g = 16) fonts_18"
  by (simp_all add: fonts_18_def)

lemma fonts_20_shape: "length fonts_20 = 8" "list_all (\<lambda>g. length g = 16) fonts_20"
  by (simp_all add: fonts_20_def)

lemma fonts_28_shape: "length fonts_28 = 8" "list_all (\<lambda>g. length g = 16) fonts_28"
  by (simp_all add: fonts_28_def)

lemma fonts_30_shape: "length fonts_30 = 8" "list_all (\<lambda>g. length g = 16) fonts_30"
  by (simp_all add: fonts_30_def)

lemma fonts_38_shape: "length fonts_38 = 8" "list_all (\<lambda>g. length g = 16) fonts_38"
  by (simp_all add: fonts_38_def)

lemma fonts_40_shape: "length fonts_40 = 8" "list_all (\<lambda>g. length g = 16) fonts_40"
  by (simp_all add: fonts_40_def)

lemma fonts_48_shape: "length fonts_48 = 8" "list_all (\<lambda>g. length g = 16) fonts_48"
  by (simp_all add: fonts_48_def)

lemma fonts_50_shape: "length fonts_50 = 8" "list_all (\<lambda>g. length g = 16) fonts_50"
  by (simp_all add: fonts_50_def)

lemma fonts_58_shape: "length fonts_58 = 8" "list_all (\<lambda>g. length g = 16) fonts_58"
  by (simp_all add: fonts_58_def)

lemma fonts_60_shape: "length fonts_60 = 8" "list_all (\<lambda>g. length g = 16) fonts_60"
  by (simp_all add: fonts_60_def)

lemma fonts_68_shape: "length fonts_68 = 8" "list_all (\<lambda>g. length g = 16) fonts_68"
  by (simp_all add: fonts_68_def)

lemma fonts_70_shape: "length fonts_70 = 8" "list_all (\<lambda>g. length g = 16) fonts_70"
  by (simp_all add: fonts_70_def)

lemma fonts_78_shape: "length fonts_78 = 8" "list_all (\<lambda>g. length g = 16) fonts_78"
  by (simp_all add: fonts_78_def)

lemma fonts_80_shape: "length fonts_80 = 8" "list_all (\<lambda>g. length g = 16) fonts_80"
  by (simp_all add: fonts_80_def)

lemma fonts_88_shape: "length fonts_88 = 8" "list_all (\<lambda>g. length g = 16) fonts_88"
  by (simp_all add: fonts_88_def)

lemma fonts_90_shape: "length fonts_90 = 8" "list_all (\<lambda>g. length g = 16) fonts_90"
  by (simp_all add: fonts_90_def)

lemma fonts_98_shape: "length fonts_98 = 8" "list_all (\<lambda>g. length g = 16) fonts_98"
  by (simp_all add: fonts_98_def)

lemma fonts_a0_shape: "length fonts_a0 = 8" "list_all (\<lambda>g. length g = 16) fonts_a0"
  by (simp_all add: fonts_a0_def)

lemma fonts_a8_shape: "length fonts_a8 = 8" "list_all (\<lambda>g. length g = 16) fonts_a8"
  by (simp_all add: fonts_a8_def)

lemma fonts_b0_shape: "length fonts_b0 = 8" "list_all (\<lambda>g. length g = 16) fonts_b0"
  by (simp_all add: fonts_b0_def)

lemma fonts_b8_shape: "length fonts_b8 = 8" "list_all (\<lambda>g. length g = 16) fonts_b8"
  by (simp_all add: fonts_b8_def)

lemma fonts_c0_shape: "length fonts_c0 = 8" "list_all (\<lambda>g. length g = 16) fonts_c0"
  by (simp_all add: fonts_c0_def)

lemma fonts_c8_shape: "length fonts_c8 = 8" "list_all (\<lambda>g. length g = 16) fonts_c8"
  by (simp_all add: fonts_c8_def)

lemma fonts_d0_shape: "length fonts_d0 = 8" "list_all (\<lambda>g. length g = 16) fonts_d0"
  by (simp_all add: fonts_d0_def)

lemma fonts_d8_shape: "length fonts_d8 = 8" "list_all (\<lambda>g. length g = 16) fonts_d8"
  by (simp_all add: fonts_d8_def)

lemma fonts_e0_shape: "length fonts_e0 = 8" "list_all (\<lambda>g. length g = 16) fonts_e0"
  by (simp_all add: fonts_e0_def)

lemma fonts_e8_shape: "length fonts_e8 = 8" "list_all (\<lambda>g. length g = 16) fonts_e8"
  by (simp_all add: fonts_e8_def)

lemma fonts_f0_shape: "length fonts_f0 = 8" "list_all (\<lambda>g. length g = 16) fonts_f0"
  by (simp_all add: fonts_f0_def)

lemma fonts_f8_shape: "length fonts_f8 = 8" "list_all (\<lambda>g. length g = 16) fonts_f8"
  by (simp_all add: fonts_f8_def)

lemma length_FONTS [simp]: "length FONTS = 256"
  by (simp add: FONTS_def fonts_00_shape(1) fonts_08_shape(1) fonts_10_shape(1) fonts_18_shape(1) fonts_20_shape(1) fonts_28_shape(1) fonts_30_shape(1) fonts_38_shape(1) fonts_40_shape(1) fonts_48_shape(1) fonts_50_shape(1) fonts_58_shape(1) fonts_60_shape(1) fonts_68_shape(1) fonts_70_shape(1) fonts_78_shape(1) fonts_80_shape(1) fonts_88_shape(1) fonts_90_shape(1) fonts_98_shape(1) fonts_a0_shape(1) fonts_a8_shape(1) fonts_b0_shape(1) fonts_b8_shape(1) fonts_c0_shape(1) fonts_c8_shape(1) fonts_d0_shape(1) fonts_d8_shape(1) fonts_e0_shape(1) fonts_e8_shape(1) fonts_f0_shape(1) fonts_f8_shape(1))

lemma FONTS_rows: "list_all (\<lambda>g. length g = 16) FONTS"
  by (simp add: FONTS_def fonts_00_shape(2) fonts_08_shape(2) fonts_10_shape(2) fonts_18_shape(2) fonts_20_shape(2) fonts_28_shape(2) fonts_30_shape(2) fonts_38_shape(2) fonts_40_shape(2) fonts_48_shape(2) fonts_50_shape(2) fonts_58_shape(2) fonts_60_shape(2) fonts_68_shape(2) fonts_70_shape(2) fonts_78_shape(2) fonts_80_shape(2) fonts_88_shape(2) fonts_90_shape(2) fonts_98_shape(2) fonts_a0_shape(2) fonts_a8_shape(2) fonts_b0_shape(2) fonts_b8_shape(2) fonts_c0_shape(2) fonts_c8_shape(2) fonts_d0_shape(2) fonts_d8_shape(2) fonts_e0_shape(2) fonts_e8_shape(2) fonts_f0_shape(2) fonts_f8_shape(2))

end
