(* ===== verification/Font.thy ===== *)
theory Font
  imports Frame_Buffer Font_Data
begin

text \<open>
  Text, \<^verbatim>\<open>kernel/src/graphic/font.rs\<close>: drawing characters and strings with a pixel writer, and the conversion
  of numbers and strings into bytes at the end of a buffer.
\<close>

section \<open>Drawing text\<close>

definition u32_add :: "nat \<Rightarrow> nat \<Rightarrow> nat res" where
  "u32_add a b = (if a + b < 2 ^ 32 then Inr (a + b) else Inl ArithOverflow)"

definition glyph_bit :: "glyph \<Rightarrow> nat \<Rightarrow> nat \<Rightarrow> bool" where
  "glyph_bit g dy dx \<longleftrightarrow> push_bit dx (g ! dy) AND 0b10000000 \<noteq> 0"

definition write_ascii ::
    "('g \<Rightarrow> vec2 \<Rightarrow> pixel_color \<Rightarrow> 'g res) \<Rightarrow> 'g \<Rightarrow> nat \<Rightarrow> nat \<Rightarrow> nat \<Rightarrow> pixel_color \<Rightarrow> 'g res" where
  "write_ascii write g x y c color =
     (if c \<ge> length FONTS then Inr g
      else foldM (\<lambda>dy. foldM (\<lambda>dx g.
        if glyph_bit (FONTS ! c) dy dx then
          rbind (u32_add x dx) (\<lambda>px. rbind (u32_add y dy) (\<lambda>py. write g (as_i32 px, as_i32 py) color))
        else Inr g) [0..<8]) [0..<16] g)"

definition write_string ::
    "('g \<Rightarrow> vec2 \<Rightarrow> pixel_color \<Rightarrow> 'g res) \<Rightarrow> 'g \<Rightarrow> nat \<Rightarrow> nat \<Rightarrow> u8 list \<Rightarrow> pixel_color \<Rightarrow> 'g res" where
  "write_string write g x y str color =
     foldM (\<lambda>i g. rbind (u32_mul 8 i) (\<lambda>off. rbind (u32_add x off) (\<lambda>px.
       rbind (index str i) (\<lambda>c. write_ascii write g px y (unat c) color))))
       [0..<length str mod 2 ^ 32] g"

section \<open>Numbers and strings into buffers\<close>

definition hex_digits :: "char list" where
  "hex_digits = ''0123456789ABCDEF''"

text \<open>
  The loop of \<^verbatim>\<open>u64_to_u8str\<close> writes digits from the end of the buffer; the result is the buffer and the
  index where the number starts. \<open>seek\<close> decreases, so the loop ends.
\<close>

fun u64_loop :: "nat \<Rightarrow> nat \<Rightarrow> u8 list \<Rightarrow> (u8 list \<times> nat) res" where
  "u64_loop 0 num buf =
     rbind (index hex_digits (num mod 16)) (\<lambda>d. rbind (store buf 0 (of_char d)) (\<lambda>buf.
     if num div 16 = 0 then Inr (buf, 0) else Inl ExplicitPanic))"
| "u64_loop (Suc seek) num buf =
     rbind (index hex_digits (num mod 16)) (\<lambda>d. rbind (store buf (Suc seek) (of_char d)) (\<lambda>buf.
     if num div 16 = 0 then Inr (buf, Suc seek) else u64_loop seek (num div 16) buf))"

definition u64_to_u8str :: "u64 \<Rightarrow> u8 list \<Rightarrow> (u8 list \<times> nat) res" where
  "u64_to_u8str num buf =
     rbind (rassert (buf \<noteq> [])) (\<lambda>_. rbind (usize_sub (length buf) 1) (\<lambda>seek. u64_loop seek (unat num) buf))"

definition concat_u8s :: "u8 list \<Rightarrow> u8 list \<Rightarrow> u8 list \<Rightarrow> (u8 list \<times> nat) res" where
  "concat_u8s arr1 arr2 buf =
     rbind (usize_add (length arr1) (length arr2)) (\<lambda>n.
     rbind (rassert (length buf \<ge> n)) (\<lambda>_.
     rbind (copy_from_slice buf 0 (length arr1) arr1) (\<lambda>buf.
     rbind (copy_from_slice buf (length arr1) n arr2) (\<lambda>buf. Inr (buf, n)))))"

definition int_into_u8s :: "nat \<Rightarrow> u8 list \<Rightarrow> (u8 list \<times> nat) res" where
  "int_into_u8s n buf = u64_to_u8str (of_nat n) buf"

definition str_into_u8s :: "u8 list \<Rightarrow> u8 list \<Rightarrow> (u8 list \<times> nat) res" where
  "str_into_u8s str buf =
     rbind (usize_sub (length buf) (length str)) (\<lambda>offset.
     rbind (copy_from_slice buf offset (length buf) str) (\<lambda>buf. Inr (buf, offset)))"

definition slice_into_u8s :: "u8 list \<Rightarrow> u8 list \<Rightarrow> (u8 list \<times> nat) res" where
  "slice_into_u8s str buf =
     rbind (usize_sub (length buf) (length str)) (\<lambda>offset.
     rbind (copy_from_slice buf offset (length buf) str) (\<lambda>buf. Inr (buf, offset)))"

section \<open>What text looks like\<close>

lemma glyph_bit_bit: "dx < 8 \<Longrightarrow> glyph_bit g dy dx \<longleftrightarrow> bit (g ! dy) (7 - dx)"
proof -
  assume dx: "dx < 8"
  have b: "bit (push_bit dx (g ! dy) AND 0b10000000) n \<longleftrightarrow> n = 7 \<and> bit (g ! dy) (7 - dx)" for n
  proof -
    have "bit (push_bit 7 (1 :: u8)) n \<longleftrightarrow> n = 7" unfolding bit_push_bit_iff bit_1_iff by auto
    then have "bit (0b10000000 :: u8) n \<longleftrightarrow> n = 7" by simp
    then show ?thesis using dx unfolding bit_and_iff bit_push_bit_iff by auto
  qed
  show ?thesis unfolding glyph_bit_def using b by (metis bit_eqI bit_0_eq bot_apply bot_bool_def)
qed

definition glyph_pixels :: "nat \<Rightarrow> nat \<Rightarrow> nat \<Rightarrow> vec2 set" where
  "glyph_pixels x y c = {(int (x + dx), int (y + dy)) | dx dy. dx < 8 \<and> dy < 16 \<and> bit (FONTS ! c ! dy) (7 - dx)}"

definition string_pixels :: "nat \<Rightarrow> nat \<Rightarrow> u8 list \<Rightarrow> vec2 set" where
  "string_pixels x y str = (\<Union>i < length str. glyph_pixels (x + 8 * i) y (unat (str ! i)))"

context pixel_writer
begin

text \<open>A character cell inside the picture: exactly the set bits of the glyph are painted.\<close>

lemma write_ascii_painted:
  assumes inv: "invar g" and c: "c < 256"
    and cell: "{int x..<int x + 8} \<times> {int y..<int y + 16} \<subseteq> inside g"
    and small: "x + 8 < 2 ^ 31" "y + 16 < 2 ^ 31"
  shows "\<exists>g'. write_ascii put g x y c color = Inr g' \<and> painted g (glyph_pixels x y c) (\<lambda>_. color) g'"
proof -
  let ?at = "\<lambda>dx dy. (int (x + dx), int (y + dy))"
  let ?S = "\<lambda>dx dy. if bit (FONTS ! c ! dy) (7 - dx) then {?at dx dy} else {}"
  let ?f = "\<lambda>dy dx g. if glyph_bit (FONTS ! c) dy dx then
      rbind (u32_add x dx) (\<lambda>px. rbind (u32_add y dy) (\<lambda>py. put g (as_i32 px, as_i32 py) color)) else Inr g"
  have one: "\<exists>t'. ?f dy dx t = Inr t' \<and> painted t (?S dx dy) (\<lambda>_. color) t'"
    if "dx < 8" "dy < 16" "invar t" "conf t = conf g" for dx dy t
  proof -
    have in': "?at dx dy \<in> inside t" using cell that inside_conf [OF that(4)] by (auto simp: subset_iff)
    have "u32_add x dx = Inr (x + dx)" "u32_add y dy = Inr (y + dy)" "as_i32 (x + dx) = int (x + dx)" "as_i32 (y + dy) = int (y + dy)"
      using small that by (simp_all add: u32_add_def)
    then show ?thesis
      using put_painted [OF that(3) in', of "\<lambda>_. color"] painted_refl [OF that(3)] glyph_bit_bit [OF that(1)] by auto
  qed
  have row: "\<exists>t'. foldM (?f dy) [0..<8] t = Inr t' \<and> painted t (\<Union>dx \<in> set [0..<8]. ?S dx dy) (\<lambda>_. color) t'"
    if "dy < 16" "invar t" "conf t = conf g" for dy t
    using that by (intro paint_loop one) auto
  have "\<exists>g'. foldM (\<lambda>dy. foldM (?f dy) [0..<8]) [0..<16] g = Inr g'
      \<and> painted g (\<Union>dy \<in> set [0..<16]. \<Union>dx \<in> set [0..<8]. ?S dx dy) (\<lambda>_. color) g'"
    by (rule paint_loop [OF inv], rule row) auto
  moreover have "(\<Union>dy \<in> set [0..<16]. \<Union>dx \<in> set [0..<8]. ?S dx dy) = glyph_pixels x y c"
    by (auto simp: glyph_pixels_def split: if_splits)
  ultimately show ?thesis using c by (simp add: write_ascii_def)
qed

lemma write_string_painted:
  assumes inv: "invar g" and box: "{int x..<int x + 8 * int (length str)} \<times> {int y..<int y + 16} \<subseteq> inside g"
    and small: "x + 8 * length str < 2 ^ 31" "y + 16 < 2 ^ 31"
  shows "\<exists>g'. write_string put g x y str color = Inr g' \<and> painted g (string_pixels x y str) (\<lambda>_. color) g'"
proof -
  let ?f = "\<lambda>i g. rbind (u32_mul 8 i) (\<lambda>off. rbind (u32_add x off) (\<lambda>px.
       rbind (index str i) (\<lambda>c. write_ascii put g px y (unat c) color)))"
  have one: "\<exists>t'. ?f i t = Inr t' \<and> painted t (glyph_pixels (x + 8 * i) y (unat (str ! i))) (\<lambda>_. color) t'"
    if i: "i < length str" "invar t" "conf t = conf g" for i t
  proof -
    have "{int (x + 8 * i)..<int (x + 8 * i) + 8} \<times> {int y..<int y + 16}
        \<subseteq> {int x..<int x + 8 * int (length str)} \<times> {int y..<int y + 16}"
      using i(1) by (intro Sigma_mono) auto
    then have cell: "{int (x + 8 * i)..<int (x + 8 * i) + 8} \<times> {int y..<int y + 16} \<subseteq> inside t"
      using box inside_conf [OF i(3)] by blast
    have "\<exists>t'. write_ascii put t (x + 8 * i) y (unat (str ! i)) color = Inr t'
        \<and> painted t (glyph_pixels (x + 8 * i) y (unat (str ! i))) (\<lambda>_. color) t'"
      using i(1) small unsigned_less [of "str ! i"] by (intro write_ascii_painted i(2) cell) auto
    moreover have "u32_mul 8 i = Inr (8 * i)" "u32_add x (8 * i) = Inr (x + 8 * i)"
      using i(1) small by (auto simp: u32_mul_def u32_add_def)
    ultimately show ?thesis using i(1) by (simp add: res_simps)
  qed
  have "\<exists>g'. foldM ?f [0..<length str] g = Inr g'
      \<and> painted g (\<Union>i \<in> set [0..<length str]. glyph_pixels (x + 8 * i) y (unat (str ! i))) (\<lambda>_. color) g'"
    using one by (intro paint_loop inv) auto
  then show ?thesis using small by (simp add: write_string_def string_pixels_def atLeast0LessThan)
qed

end

section \<open>Hexadecimal numbers\<close>

definition hex_digit :: "nat \<Rightarrow> u8" where
  "hex_digit d = of_char (hex_digits ! d)"

function hex_string :: "nat \<Rightarrow> u8 list" where
  "hex_string n = (if n < 16 then [hex_digit n] else hex_string (n div 16) @ [hex_digit (n mod 16)])"
  by pat_completeness auto
termination by (relation "measure id") auto

declare hex_string.simps [simp del]

definition digit_value :: "u8 \<Rightarrow> nat" where
  "digit_value w = (if w \<ge> 65 then unat w - 55 else unat w - 48)"

definition hex_value :: "u8 list \<Rightarrow> nat" where
  "hex_value ds = foldl (\<lambda>v d. v * 16 + digit_value d) 0 ds"

lemma hex_digit_eval:
  "hex_digit 0 = 48" "hex_digit 1 = 49" "hex_digit 2 = 50" "hex_digit 3 = 51" "hex_digit 4 = 52" "hex_digit 5 = 53"
  "hex_digit 6 = 54" "hex_digit 7 = 55" "hex_digit 8 = 56" "hex_digit 9 = 57" "hex_digit 10 = 65" "hex_digit 11 = 66"
  "hex_digit 12 = 67" "hex_digit 13 = 68" "hex_digit 14 = 69" "hex_digit 15 = 70"
  by (simp_all add: hex_digit_def hex_digits_def of_char_def)

lemma digit_value_hex_digit: "d < 16 \<Longrightarrow> digit_value (hex_digit d) = d"
proof -
  have "[0..<16] = [0, 1, 2, 3, 4, 5, 6, 7, 8, 9, 10, 11, 12, 13, 14, 15]" by code_simp
  then have "list_all (\<lambda>d. digit_value (hex_digit d) = d) [0..<16]"
    by (simp add: hex_digit_eval hex_digit_eval(2) [unfolded One_nat_def] digit_value_def)
  then show "d < 16 \<Longrightarrow> digit_value (hex_digit d) = d" by (simp add: list_all_iff)
qed

lemma hex_value_hex_string: "hex_value (hex_string n) = n"
proof (induction n rule: hex_string.induct)
  case (1 n)
  show ?case
  proof (cases "n < 16")
    case True
    then show ?thesis by (simp add: hex_string.simps [of n] hex_value_def digit_value_hex_digit)
  next
    case False
    then show ?thesis using 1 by (simp add: hex_string.simps [of n] hex_value_def digit_value_hex_digit)
  qed
qed

lemma hex_string_length: "length (hex_string n) \<le> Suc k \<longleftrightarrow> n < 16 ^ Suc k"
proof (induction k arbitrary: n)
  case 0
  have "hex_string n \<noteq> []" for n by (simp add: hex_string.simps [of n])
  then have "0 < length (hex_string n)" for n by blast
  then show ?case by (simp add: hex_string.simps [of n] not_le Suc_le_eq)
next
  case (Suc k)
  have "n < 16 ^ Suc (Suc k) \<longleftrightarrow> n div 16 < 16 ^ Suc k" by (simp add: div_less_iff_less_mult mult.commute)
  then show ?case using Suc.IH [of "n div 16"] by (cases "n < 16") (auto simp: hex_string.simps [of n])
qed

lemma hex_string_nonempty: "0 < length (hex_string n)"
  by (simp add: hex_string.simps [of n])

lemma u64_loop_spec:
  assumes "seek < length buf"
  shows "u64_loop seek num buf = (let h = hex_string num in
    if length h \<le> Suc seek then Inr (take (Suc seek - length h) buf @ h @ drop (Suc seek) buf, Suc seek - length h)
    else Inl ExplicitPanic)"
  using assms
proof (induction seek arbitrary: num buf)
  case 0
  have "num mod 16 < length hex_digits" by (simp add: hex_digits_def)
  then have i: "index hex_digits (num mod 16) = Inr (hex_digits ! (num mod 16))" by (rule index_in)
  have "length (hex_string num) \<le> Suc 0 \<longleftrightarrow> num < 16" using hex_string_length [of num 0] by simp
  moreover have "hex_string num = [hex_digit num]" "num mod 16 = num" if "num < 16" using that by (simp_all add: hex_string.simps [of num])
  moreover have "buf[0 := v] = v # drop (Suc 0) buf" for v using 0 by (cases buf) simp_all
  ultimately show ?case using 0 i by (auto simp: res_simps hex_digit_def div_eq_0_iff)
next
  case (Suc seek)
  have "num mod 16 < length hex_digits" by (simp add: hex_digits_def)
  then have i: "index hex_digits (num mod 16) = Inr (hex_digits ! (num mod 16))" by (rule index_in)
  let ?buf = "buf[Suc seek := hex_digit (num mod 16)]"
  have st: "u64_loop (Suc seek) num buf = (if num < 16 then Inr (?buf, Suc seek) else u64_loop seek (num div 16) ?buf)"
    using i Suc.prems by (simp add: res_simps hex_digit_def div_eq_0_iff)
  have upd: "drop (Suc seek) ?buf = hex_digit (num mod 16) # drop (Suc (Suc seek)) buf"
    "take m ?buf = take m buf" if "m \<le> Suc seek" for m
    using Suc.prems that by (simp_all add: drop_update_swap Cons_nth_drop_Suc [symmetric])
  show ?case
  proof (cases "num < 16")
    case True
    then have "hex_string num = [hex_digit (num mod 16)]" by (simp add: hex_string.simps [of num])
    then show ?thesis using True st Suc.prems by (simp add: upd_conv_take_nth_drop Let_def)
  next
    case False
    then have h: "hex_string num = hex_string (num div 16) @ [hex_digit (num mod 16)]" by (simp add: hex_string.simps [of num])
    have "seek < length ?buf" using Suc.prems by simp
    from Suc.IH [OF this, of "num div 16"] show ?thesis using False st h upd by (simp add: Let_def)
  qed
qed

section \<open>Properties\<close>

text \<open>
  \<^verbatim>\<open>write_string\<close> into a frame buffer: when the character cells lie inside the picture it never panics,
  paints the set bits of the glyphs side by side and leaves every other pixel alone.
\<close>

theorem write_string_correct:
  assumes "fb_wf fb" "x + 8 * length str \<le> horizontal_resolution (fb_conf fb)" "y + 16 \<le> vertical_resolution (fb_conf fb)"
  shows "\<exists>fb'. write_string fb_write fb x y str color = Inr fb' \<and> fb_wf fb' \<and> fb_conf fb' = fb_conf fb
    \<and> (\<forall>p \<in> fb_inside fb. fb_pixel fb' p = (if p \<in> string_pixels x y str then color else fb_pixel fb p))"
proof -
  have "{int x..<int x + 8 * int (length str)} \<times> {int y..<int y + 16} \<subseteq> fb_inside fb"
    using assms(2,3) unfolding fb_inside_def by (intro Sigma_mono) auto
  then have "\<exists>fb'. write_string fb_write fb x y str color = Inr fb' \<and> fbw.painted fb (string_pixels x y str) (\<lambda>_. color) fb'"
    using assms by (intro fbw.write_string_painted) (auto simp: fb_wf_def Let_def)
  then show ?thesis by (auto simp: fbw.painted_def)
qed

text \<open>
  (C38) \<^verbatim>\<open>u64_to_u8str\<close> writes the usual hexadecimal numeral, without leading zeros, at the end of the buffer and
  nothing else; reading the digits gives the number back. It panics exactly when the number needs more
  digits than the buffer has, or the buffer is empty.
\<close>

theorem u64_to_u8str_correct:
  "u64_to_u8str num buf = (let h = hex_string (unat num) in
     if buf = [] then Inl AssertFailed
     else if unat num < 16 ^ length buf then Inr (take (length buf - length h) buf @ h, length buf - length h)
     else Inl ExplicitPanic)
   \<and> hex_value (hex_string (unat num)) = unat num"
proof (cases buf)
  case Nil
  then show ?thesis by (simp add: u64_to_u8str_def hex_value_hex_string)
next
  case (Cons b bs)
  then show ?thesis using u64_loop_spec [of "length bs" buf "unat num"] hex_string_length [of "unat num" "length bs"]
    by (simp add: u64_to_u8str_def res_simps hex_value_hex_string Let_def)
qed

definition blank_card :: frame_buffer where
  "blank_card = \<lparr>fb_data = Shadow (replicate 1024 0), fb_conf = \<lparr>pixels_per_scanline = 16, horizontal_resolution = 16,
     vertical_resolution = 16, pixel_format = PixelBGRResv8BitPerColor\<rparr>\<rparr>"

lemma blank_card_wf: "fb_wf blank_card"
  by (simp add: fb_wf_def blank_card_def)

lemma FONTS_41: "FONTS ! 0x41 = fonts_40 ! 1"
  by (simp add: FONTS_def nth_append fonts_00_shape fonts_08_shape fonts_10_shape fonts_18_shape fonts_20_shape
      fonts_28_shape fonts_30_shape fonts_38_shape fonts_40_shape)

theorem write_string_correct_witness:
  "\<exists>fb'. write_string fb_write blank_card 0 0 [0x41, 0x20] (9, 9, 9) = Inr fb' \<and> fb_pixel fb' (3, 2) = (9, 9, 9)
     \<and> fb_pixel fb' (0, 0) = (0, 0, 0)"
proof -
  have c: "horizontal_resolution (fb_conf blank_card) = 16" "vertical_resolution (fb_conf blank_card) = 16"
    by (simp_all add: blank_card_def)
  have i: "(3, 2) \<in> fb_inside blank_card" "(0, 0) \<in> fb_inside blank_card" by (simp_all add: fb_inside_def c)
  have g: "(3, 2) \<in> glyph_pixels 0 0 0x41" "(0, 0) \<notin> glyph_pixels 0 0 0x41" "(0, 0) \<notin> glyph_pixels 8 0 0x20"
    by (auto simp: glyph_pixels_def FONTS_41 fonts_40_def intro!: exI [of _ 3] exI [of _ 2])
  have s: "string_pixels 0 0 [0x41, 0x20] = glyph_pixels 0 0 0x41 \<union> glyph_pixels 8 0 0x20"
    by (auto simp: string_pixels_def less_Suc_eq)
  have "fb_pixel blank_card (0, 0) = (0, 0, 0)" by (simp add: fb_pixel_def blank_card_def pix_index_def)
  with write_string_correct [OF blank_card_wf, of 0 "[0x41, 0x20]" 0 "(9, 9, 9)"] i g s show ?thesis by (auto simp: c)
qed

end
