(* ===== verification/Window.thy ===== *)
theory Window
  imports Frame_Buffer
begin

text \<open>
  Double-buffered canvases, windows and the layered window manager:
  \<^verbatim>\<open>kernel/src/graphic/buffered.rs\<close> and \<^verbatim>\<open>kernel/src/graphic/window.rs\<close>. The locks around a canvas and around
  a window are left out here: each operation below runs with the lock it takes, and the theory of the
  locks shows that the holder is alone. A window that is shared through an \<^verbatim>\<open>Arc\<close> is an entry of the
  manager's list of layers, a handle is its index.
\<close>

section \<open>BufferedCanvas\<close>

record buffered_canvas =
  fore :: frame_buffer
  back_buf :: frame_buffer
  is_updated :: bool

definition canvas_new :: "pixel_format option \<Rightarrow> nat \<Rightarrow> nat \<Rightarrow> buffered_canvas res" where
  "canvas_new dflt width height =
     rbind (fb_new dflt width height) (\<lambda>f. rbind (fb_new dflt width height) (\<lambda>b.
     Inr \<lparr>fore = f, back_buf = b, is_updated = False\<rparr>))"

definition canvas_flush :: "buffered_canvas \<Rightarrow> buffered_canvas res" where
  "canvas_flush c = rbind (fb_copy (fore c) (0, 0) (back_buf c)) (\<lambda>f. Inr (c\<lparr>fore := f\<rparr>))"

definition write_with :: "buffered_canvas \<Rightarrow> (frame_buffer \<Rightarrow> frame_buffer res) \<Rightarrow> buffered_canvas res" where
  "write_with c draw_func = rbind (draw_func (back_buf c)) (\<lambda>b. Inr (c\<lparr>back_buf := b, is_updated := True\<rparr>))"

definition clear_update_flag :: "buffered_canvas \<Rightarrow> buffered_canvas" where
  "clear_update_flag c = c\<lparr>is_updated := False\<rparr>"

section \<open>Window\<close>

record window =
  win_pos :: vec2
  win_width :: nat
  win_height :: nat
  transparant_color :: "pixel_color option"
  win_buffer :: buffered_canvas

definition window_new :: "pixel_format option \<Rightarrow> nat \<Rightarrow> nat \<Rightarrow> window res" where
  "window_new dflt width height =
     rbind (canvas_new dflt width height) (\<lambda>c.
     Inr \<lparr>win_pos = (0, 0), win_width = width, win_height = height, transparant_color = None, win_buffer = c\<rparr>)"

definition set_transparent_color :: "window \<Rightarrow> pixel_color option \<Rightarrow> window" where
  "set_transparent_color w color = w\<lparr>transparant_color := color\<rparr>"

definition win_is_inside :: "window \<Rightarrow> vec2 \<Rightarrow> bool" where
  "win_is_inside w pos \<longleftrightarrow> 0 \<le> fst pos \<and> fst pos < as_i32 (win_width w) \<and> 0 \<le> snd pos \<and> snd pos < as_i32 (win_height w)"

definition draw_pixel :: "window \<Rightarrow> pixel_color \<Rightarrow> nat \<Rightarrow> nat \<Rightarrow> frame_buffer \<Rightarrow> frame_buffer res" where
  "draw_pixel w tc y x buf =
     rbind (fb_color_at (fore (win_buffer w)) x y) (\<lambda>pixel.
     if pixel \<noteq> tc then rbind (vec_add (win_pos w) (as_i32 x, as_i32 y)) (\<lambda>p. fb_write buf p pixel)
     else Inr buf)"

definition draw_to :: "window \<Rightarrow> frame_buffer \<Rightarrow> frame_buffer res" where
  "draw_to w buf = (case transparant_color w of
     None \<Rightarrow> fb_copy buf (win_pos w) (fore (win_buffer w))
   | Some tc \<Rightarrow>
       rbind (rect_from_wh (fst (win_pos w)) (snd (win_pos w)) (as_i32 (win_width w)) (as_i32 (win_height w))) (\<lambda>r_window.
       rbind (rect_from_wh 0 0 (as_i32 (fst (fb_resolution buf))) (as_i32 (snd (fb_resolution buf)))) (\<lambda>r_fb.
       case rect_intersection r_fb r_window of
         None \<Rightarrow> Inr buf
       | Some r \<Rightarrow>
           rbind (i32_neg (fst (win_pos w))) (\<lambda>nx. rbind (i32_neg (snd (win_pos w))) (\<lambda>ny.
           rbind (rect_move_relative r nx ny) (\<lambda>r_draw.
           foldM (\<lambda>y. foldM (draw_pixel w tc y) [as_usize (x1 r_draw)..<as_usize (x2 r_draw)])
             [as_usize (y1 r_draw)..<as_usize (y2 r_draw)] buf))))))"

definition win_move_to :: "window \<Rightarrow> vec2 \<Rightarrow> window" where
  "win_move_to w pos = w\<lparr>win_pos := pos\<rparr>"

definition win_move_relative :: "window \<Rightarrow> vec2 \<Rightarrow> window res" where
  "win_move_relative w d = rbind (vec_add (win_pos w) d) (\<lambda>p. Inr (w\<lparr>win_pos := p\<rparr>))"

definition win_move_rect :: "window \<Rightarrow> vec2 \<Rightarrow> rect \<Rightarrow> window res" where
  "win_move_rect w to r =
     rbind (write_with (win_buffer w) (\<lambda>b. fb_move_rect b to r)) (\<lambda>c. Inr (w\<lparr>win_buffer := c\<rparr>))"

section \<open>LayeredWindowManager\<close>

record layered_window_manager =
  layers :: "window list"
  layer_stack :: "nat list"
  lwm_shadow :: frame_buffer
  lwm_buffer :: frame_buffer

definition lwm_new :: "pixel_format option \<Rightarrow> frame_buffer \<Rightarrow> layered_window_manager res" where
  "lwm_new dflt buffer = (case fb_resolution buffer of (width, height) \<Rightarrow>
     rbind (fb_new dflt width height) (\<lambda>s.
     Inr \<lparr>layers = [], layer_stack = [], lwm_shadow = s, lwm_buffer = buffer\<rparr>))"

definition new_layer :: "layered_window_manager \<Rightarrow> window \<Rightarrow> (nat \<times> layered_window_manager) res" where
  "new_layer m w =
     (let ls = layers m @ [w] in
      rbind (usize_sub (length ls) 1) (\<lambda>lid. Inr (lid, m\<lparr>layers := ls\<rparr>)))"

definition lwm_move_to :: "layered_window_manager \<Rightarrow> nat \<Rightarrow> vec2 \<Rightarrow> layered_window_manager res" where
  "lwm_move_to m lid pos =
     rbind (index (layers m) lid) (\<lambda>w. Inr (m\<lparr>layers := (layers m)[lid := win_move_to w pos]\<rparr>))"

definition lwm_move_relative :: "layered_window_manager \<Rightarrow> nat \<Rightarrow> vec2 \<Rightarrow> layered_window_manager res" where
  "lwm_move_relative m lid d =
     rbind (index (layers m) lid) (\<lambda>w. rbind (win_move_relative w d) (\<lambda>w'.
     Inr (m\<lparr>layers := (layers m)[lid := w']\<rparr>)))"

definition draw_layer :: "window list \<Rightarrow> nat \<Rightarrow> frame_buffer \<Rightarrow> frame_buffer res" where
  "draw_layer ls lid shadow =
     rbind (index ls lid) (\<lambda>win.
     if is_updated (win_buffer win) then draw_to win shadow else Inr shadow)"

definition lwm_draw :: "layered_window_manager \<Rightarrow> layered_window_manager res" where
  "lwm_draw m =
     rbind (foldM (draw_layer (layers m)) (layer_stack m) (lwm_shadow m)) (\<lambda>s.
     rbind (fb_copy (lwm_buffer m) (0, 0) s) (\<lambda>b.
     Inr (m\<lparr>lwm_shadow := s, lwm_buffer := b\<rparr>)))"

definition lwm_hide :: "layered_window_manager \<Rightarrow> nat \<Rightarrow> layered_window_manager" where
  "lwm_hide m lid = m\<lparr>layer_stack := filter (\<lambda>l. l \<noteq> lid) (layer_stack m)\<rparr>"

text \<open>\<^verbatim>\<open>Vec::insert\<close>\<close>

definition vec_insert :: "'a list \<Rightarrow> nat \<Rightarrow> 'a \<Rightarrow> 'a list res" where
  "vec_insert xs i x = (if i \<le> length xs then Inr (take i xs @ x # drop i xs) else Inl IndexOutOfBounds)"

definition up_down :: "layered_window_manager \<Rightarrow> nat \<Rightarrow> int \<Rightarrow> layered_window_manager res" where
  "up_down m lid height =
     (if height < 0 then Inr (lwm_hide m lid)
      else let new_height = min (as_usize height) (length (layer_stack m)) in
        case find (\<lambda>l. l = lid) (layer_stack m) of
          None \<Rightarrow> rbind (vec_insert (layer_stack m) new_height lid) (\<lambda>st. Inr (m\<lparr>layer_stack := st\<rparr>))
        | Some layer \<Rightarrow>
            let m' = lwm_hide m lid; h = min new_height (length (layer_stack m')) in
            rbind (vec_insert (layer_stack m') h layer) (\<lambda>st. Inr (m'\<lparr>layer_stack := st\<rparr>)))"

section \<open>What a window shows\<close>

definition canvas_wf :: "pixel_format \<Rightarrow> nat \<Rightarrow> nat \<Rightarrow> buffered_canvas \<Rightarrow> bool" where
  "canvas_wf fmt w h c \<longleftrightarrow> fb_wf (fore c) \<and> fb_wf (back_buf c) \<and> fb_resolution (fore c) = (w, h)
     \<and> fb_resolution (back_buf c) = (w, h) \<and> pixel_format (fb_conf (fore c)) = fmt \<and> pixel_format (fb_conf (back_buf c)) = fmt"

definition window_wf :: "pixel_format \<Rightarrow> window \<Rightarrow> bool" where
  "window_wf fmt w \<longleftrightarrow> canvas_wf fmt (win_width w) (win_height w) (win_buffer w)
     \<and> copy_pos_ok (win_pos w) (fore (win_buffer w))"

definition win_local :: "window \<Rightarrow> vec2 \<Rightarrow> vec2" where
  "win_local w p = (fst p - fst (win_pos w), snd p - snd (win_pos w))"

definition win_color :: "window \<Rightarrow> vec2 \<Rightarrow> pixel_color" where
  "win_color w p = fb_pixel (fore (win_buffer w)) (win_local w p)"

definition win_shows :: "window \<Rightarrow> vec2 \<Rightarrow> bool" where
  "win_shows w p \<longleftrightarrow> win_local w p \<in> fb_inside (fore (win_buffer w)) \<and> transparant_color w \<noteq> Some (win_color w p)"

lemma window_wfD:
  assumes "window_wf fmt w"
  shows "fb_wf (fore (win_buffer w))" "fb_wf (back_buf (win_buffer w))" "pixel_format (fb_conf (fore (win_buffer w))) = fmt"
    "horizontal_resolution (fb_conf (fore (win_buffer w))) = win_width w"
    "vertical_resolution (fb_conf (fore (win_buffer w))) = win_height w"
    "copy_pos_ok (win_pos w) (fore (win_buffer w))" "win_width w < 2 ^ 31" "win_height w < 2 ^ 31"
  using assms by (auto simp: window_wf_def canvas_wf_def fb_resolution_def fb_wf_def Let_def)

lemma fb_inside_conf: "fb_conf fb' = fb_conf fb \<Longrightarrow> fb_inside fb' = fb_inside fb"
  by (simp add: fb_inside_def)

lemma draw_pixel_painted:
  assumes w: "window_wf fmt w" and tc: "transparant_color w = Some tc"
    and buf: "fb_wf buf" and p: "p = (fst (win_pos w) + int x, snd (win_pos w) + int y)" "p \<in> fb_inside buf"
    and i: "win_local w p \<in> fb_inside (fore (win_buffer w))"
  shows "\<exists>buf'. draw_pixel w tc y x buf = Inr buf' \<and> fbw.painted buf ({p} \<inter> Collect (win_shows w)) (win_color w) buf'"
proof -
  have l: "win_local w p = (int x, int y)" using p(1) by (simp add: win_local_def)
  have c: "fb_color_at (fore (win_buffer w)) x y = Inr (win_color w p)"
    using fb_color_at_spec [OF window_wfD(1) [OF w]] i by (simp add: win_color_def l)
  have d: "int (horizontal_resolution (fb_conf buf)) < 2 ^ 31" "int (vertical_resolution (fb_conf buf)) < 2 ^ 31"
    using buf by (auto simp: fb_wf_def Let_def)
  have xy: "x < 2 ^ 31" "y < 2 ^ 31" using i window_wfD(4,5,7,8) [OF w] by (auto simp: l in_fb_inside)
  have a: "vec_add (win_pos w) (as_i32 x, as_i32 y) = Inr p"
    using p xy d by (simp add: vec_add_def i32_add_def res_simps i32_ok_def in_fb_inside)
  show ?thesis
  proof (cases "win_color w p = tc")
    case True
    then have "{p} \<inter> Collect (win_shows w) = {}" using tc by (auto simp: win_shows_def)
    then show ?thesis using True c fbw.painted_refl [OF buf] by (simp add: draw_pixel_def)
  next
    case False
    then have "{p} \<inter> Collect (win_shows w) = {p}" using tc i by (auto simp: win_shows_def)
    then show ?thesis using False c a fbw.put_painted [OF buf p(2), of "win_color w"] by (simp add: draw_pixel_def)
  qed
qed

lemma draw_to_opaque:
  assumes w: "window_wf fmt w" and tc: "transparant_color w = None"
    and buf: "fb_wf buf" "pixel_format (fb_conf buf) = fmt"
  shows "\<exists>buf'. draw_to w buf = Inr buf' \<and> fbw.painted buf (Collect (win_shows w)) (win_color w) buf'"
proof -
  let ?px = "fst (win_pos w)" and ?py = "snd (win_pos w)" and ?f = "fore (win_buffer w)"
  have "\<exists>buf'. fb_copy buf (?px, ?py) ?f = Inr buf' \<and> fb_wf buf' \<and> fb_conf buf' = fb_conf buf
    \<and> (\<forall>(x, y) \<in> fb_inside buf. fb_pixel buf' (x, y)
         = (if (x - ?px, y - ?py) \<in> fb_inside ?f then fb_pixel ?f (x - ?px, y - ?py) else fb_pixel buf (x, y)))"
    using window_wfD [OF w] buf by (intro fb_copy_spec) auto
  then obtain buf' where c: "draw_to w buf = Inr buf'" "fb_wf buf'" "fb_conf buf' = fb_conf buf"
    and px: "\<And>x y. (x, y) \<in> fb_inside buf \<Longrightarrow> fb_pixel buf' (x, y)
         = (if (x - ?px, y - ?py) \<in> fb_inside ?f then fb_pixel ?f (x - ?px, y - ?py) else fb_pixel buf (x, y))"
    using tc by (auto simp: draw_to_def)
  have "fb_pixel buf' p = (if p \<in> Collect (win_shows w) then win_color w p else fb_pixel buf p)" if "p \<in> fb_inside buf" for p
    using px [of "fst p" "snd p"] that tc by (simp add: win_shows_def win_color_def win_local_def)
  then show ?thesis using c by (auto simp: fbw.painted_def)
qed

lemma draw_loop:
  assumes w: "window_wf fmt w" and tc: "transparant_color w = Some tc" and buf: "fb_wf buf"
    and r: "\<And>x y. \<lbrakk>a \<le> x; x < b; c \<le> y; y < d\<rbrakk> \<Longrightarrow> (fst (win_pos w) + int x, snd (win_pos w) + int y) \<in> fb_inside buf
       \<and> (int x, int y) \<in> fb_inside (fore (win_buffer w))"
  shows "\<exists>buf'. foldM (\<lambda>y. foldM (draw_pixel w tc y) [a..<b]) [c..<d] buf = Inr buf'
    \<and> fbw.painted buf (\<Union>y \<in> {c..<d}. \<Union>x \<in> {a..<b}. {(fst (win_pos w) + int x, snd (win_pos w) + int y)} \<inter> Collect (win_shows w))
        (win_color w) buf'"
proof -
  let ?at = "\<lambda>x y. (fst (win_pos w) + int x, snd (win_pos w) + int y)"
  have row: "\<exists>t'. foldM (draw_pixel w tc y) [a..<b] t = Inr t'
      \<and> fbw.painted t (\<Union>x \<in> set [a..<b]. {?at x y} \<inter> Collect (win_shows w)) (win_color w) t'"
    if t: "c \<le> y" "y < d" "fb_wf t" "fb_conf t = fb_conf buf" for y t
  proof (rule fbw.paint_loop [OF t(3)])
    fix x t'
    assume x: "x \<in> set [a..<b]" "fb_wf t'" "fb_conf t' = fb_conf t"
    have "win_local w (?at x y) = (int x, int y)" by (simp add: win_local_def)
    then show "\<exists>t''. draw_pixel w tc y x t' = Inr t'' \<and> fbw.painted t' ({?at x y} \<inter> Collect (win_shows w)) (win_color w) t''"
      using r [of x y] x t fb_inside_conf [of t' buf] by (intro draw_pixel_painted [OF w tc x(2) refl]) auto
  qed
  have "\<exists>t'. foldM (\<lambda>y. foldM (draw_pixel w tc y) [a..<b]) [c..<d] buf = Inr t'
      \<and> fbw.painted buf (\<Union>y \<in> set [c..<d]. \<Union>x \<in> set [a..<b]. {?at x y} \<inter> Collect (win_shows w)) (win_color w) t'"
    by (rule fbw.paint_loop [OF buf], rule row) auto
  then show ?thesis by simp
qed

text \<open>The points of a rectangle, counted from an origin to its upper left.\<close>

lemma offset_points:
  assumes "px \<le> x1 m" "py \<le> y1 m"
  shows "(\<Union>y \<in> {nat (y1 m - py)..<nat (y2 m - py)}. \<Union>x \<in> {nat (x1 m - px)..<nat (x2 m - px)}.
    {(px + int x, py + int y)} \<inter> A) = points m \<inter> A" (is "?L = ?R")
proof
  show "?L \<subseteq> ?R" using assms by (auto simp: in_points)
  show "?R \<subseteq> ?L"
  proof
    fix p assume p: "p \<in> ?R"
    then have pm: "x1 m \<le> fst p" "fst p < x2 m" "y1 m \<le> snd p" "snd p < y2 m" by (auto simp: points_def)
    have y: "nat (snd p - py) \<in> {nat (y1 m - py)..<nat (y2 m - py)}" using pm(3,4) assms by simp
    have x: "nat (fst p - px) \<in> {nat (x1 m - px)..<nat (x2 m - px)}" using pm(1,2) assms by simp
    have "p = (px + int (nat (fst p - px)), py + int (nat (snd p - py)))" using pm assms by (simp add: prod_eq_iff)
    then have "p \<in> {(px + int (nat (fst p - px)), py + int (nat (snd p - py)))} \<inter> A" using p by simp
    then show "p \<in> ?L" by (intro UN_I [OF y] UN_I [OF x])
  qed
qed

lemma draw_to_transparent:
  assumes w: "window_wf fmt w" and tc: "transparant_color w = Some tc" and buf: "fb_wf buf"
  shows "\<exists>buf'. draw_to w buf = Inr buf' \<and> fbw.painted buf (Collect (win_shows w)) (win_color w) buf'"
proof -
  let ?px = "fst (win_pos w)" and ?py = "snd (win_pos w)" and ?f = "fore (win_buffer w)"
  let ?W = "\<lparr>x1 = ?px, y1 = ?py, x2 = ?px + int (win_width w), y2 = ?py + int (win_height w)\<rparr>"
  let ?S = "\<lparr>x1 = 0, y1 = 0, x2 = int (horizontal_resolution (fb_conf buf)), y2 = int (vertical_resolution (fb_conf buf))\<rparr>"
  note wD = window_wfD [OF w]
  have rw: "rect_from_wh ?px ?py (as_i32 (win_width w)) (as_i32 (win_height w)) = Inr ?W"
    using fb_rect_in [OF wD(1), of ?px ?py] wD(4-8) by (auto simp: fb_rect_def copy_pos_ok_def i32_ok_def)
  have rs: "rect_from_wh 0 0 (as_i32 (fst (fb_resolution buf))) (as_i32 (snd (fb_resolution buf))) = Inr ?S"
    using fb_screen_in [OF buf] by (simp add: fb_rect_def fb_resolution_def)
  have out: "p \<in> points ?S \<inter> points ?W" if "p \<in> Collect (win_shows w) \<inter> fb_inside buf" for p
    using that wD(4,5) by (cases p) (auto simp: win_shows_def win_local_def in_fb_inside in_points)
  show ?thesis
  proof (cases "rect_intersection ?S ?W")
    case None
    have "fbw.painted buf {} (win_color w) buf" by (rule fbw.painted_refl [OF buf])
    moreover have "{} \<inter> fb_inside buf = Collect (win_shows w) \<inter> fb_inside buf"
      using out intersection_None [OF None] by blast
    ultimately have "fbw.painted buf (Collect (win_shows w)) (win_color w) buf" by (rule fbw.painted_cong)
    then show ?thesis using None rw rs tc by (simp add: draw_to_def)
  next
    case (Some m)
    note mS = intersection_Some [OF Some]
    have mb: "0 \<le> x1 m" "x2 m \<le> int (horizontal_resolution (fb_conf buf))" "0 \<le> y1 m" "y2 m \<le> int (vertical_resolution (fb_conf buf))"
      "?px \<le> x1 m" "x2 m \<le> ?px + int (win_width w)" "?py \<le> y1 m" "y2 m \<le> ?py + int (win_height w)" "x1 m < x2 m" "y1 m < y2 m"
      using mS(2-7) by auto
    let ?c = "\<lparr>x1 = x1 m - ?px, y1 = y1 m - ?py, x2 = x2 m - ?px, y2 = y2 m - ?py\<rparr>"
    have mv: "rect_move_relative m (- ?px) (- ?py) = Inr ?c"
      using mb wD(7,8) by (simp add: rect_move_relative_def i32_add_def res_simps i32_ok_def)
    have neg: "i32_neg ?px = Inr (- ?px)" "i32_neg ?py = Inr (- ?py)"
      using wD(6) mb wD(7,8) by (auto simp: i32_neg_def res_simps copy_pos_ok_def i32_ok_def)
    let ?at = "\<lambda>x y. (?px + int x, ?py + int y)"
    have d: "draw_to w buf = foldM (\<lambda>y. foldM (draw_pixel w tc y) [nat (x1 m - ?px)..<nat (x2 m - ?px)])
        [nat (y1 m - ?py)..<nat (y2 m - ?py)] buf"
      using rw rs Some neg mv mb tc by (simp add: draw_to_def)
    have "\<exists>buf'. draw_to w buf = Inr buf' \<and> fbw.painted buf (\<Union>y \<in> {nat (y1 m - ?py)..<nat (y2 m - ?py)}.
        \<Union>x \<in> {nat (x1 m - ?px)..<nat (x2 m - ?px)}. {?at x y} \<inter> Collect (win_shows w)) (win_color w) buf'"
      unfolding d using mb wD(4,5) by (intro draw_loop [OF w tc buf]) (auto simp: in_fb_inside)
    then obtain buf' where b: "draw_to w buf = Inr buf'" "fbw.painted buf (points m \<inter> Collect (win_shows w)) (win_color w) buf'"
      unfolding offset_points [OF mb(5,7)] by blast
    have "points m \<inter> Collect (win_shows w) \<inter> fb_inside buf = Collect (win_shows w) \<inter> fb_inside buf"
      using out mS(1) by blast
    from fbw.painted_cong [OF b(2) this] show ?thesis using b(1) by blast
  qed
qed

lemma draw_to_spec:
  assumes "window_wf fmt w" "fb_wf buf" "pixel_format (fb_conf buf) = fmt"
  shows "\<exists>buf'. draw_to w buf = Inr buf' \<and> fbw.painted buf (Collect (win_shows w)) (win_color w) buf'"
  using assms draw_to_opaque draw_to_transparent by (cases "transparant_color w") blast+

section \<open>The picture on the screen\<close>

definition lwm_format :: "layered_window_manager \<Rightarrow> pixel_format" where
  "lwm_format m = pixel_format (fb_conf (lwm_buffer m))"

definition lwm_wf :: "layered_window_manager \<Rightarrow> bool" where
  "lwm_wf m \<longleftrightarrow> fb_wf (lwm_shadow m) \<and> fb_wf (lwm_buffer m) \<and> fb_resolution (lwm_shadow m) = fb_resolution (lwm_buffer m)
     \<and> pixel_format (fb_conf (lwm_shadow m)) = lwm_format m \<and> (\<forall>w \<in> set (layers m). window_wf (lwm_format m) w)
     \<and> distinct (layer_stack m) \<and> (\<forall>i \<in> set (layer_stack m). i < length (layers m))"

text \<open>The uppermost drawn layer that shows a colour at a point; the end of the stack is the top.\<close>

definition layer_hit :: "window list \<Rightarrow> vec2 \<Rightarrow> nat \<Rightarrow> bool" where
  "layer_hit ls p i \<longleftrightarrow> is_updated (win_buffer (ls ! i)) \<and> win_shows (ls ! i) p"

definition composite :: "window list \<Rightarrow> frame_buffer \<Rightarrow> nat list \<Rightarrow> vec2 \<Rightarrow> pixel_color" where
  "composite ls bg st p = (case find (layer_hit ls p) (rev st) of
     Some i \<Rightarrow> win_color (ls ! i) p | None \<Rightarrow> fb_pixel bg p)"

lemma composite_snoc:
  "composite ls bg (st @ [i]) p = (if layer_hit ls p i then win_color (ls ! i) p else composite ls bg st p)"
  by (simp add: composite_def)

lemma draw_layers:
  assumes wf: "fb_wf bg" "pixel_format (fb_conf bg) = fmt" "\<forall>w \<in> set ls. window_wf fmt w"
    "\<forall>i \<in> set st. i < length ls"
  shows "\<exists>s. foldM (draw_layer ls) st bg = Inr s \<and> fb_wf s \<and> fb_conf s = fb_conf bg
    \<and> (\<forall>p \<in> fb_inside bg. fb_pixel s p = composite ls bg st p)"
proof -
  let ?I = "\<lambda>done s. fb_wf s \<and> fb_conf s = fb_conf bg \<and> (\<forall>p \<in> fb_inside bg. fb_pixel s p = composite ls bg done p)"
  have "\<exists>s. foldM (draw_layer ls) st bg = Inr s \<and> ?I st s"
  proof (rule foldM_rule)
    show "?I [] bg" using wf(1) by (simp add: composite_def)
    fix "done" i todo t
    assume split: "st = done @ i # todo" and I: "?I done t"
    have i: "i < length ls" "window_wf fmt (ls ! i)" using split wf(3,4) by auto
    show "\<exists>t'. draw_layer ls i t = Inr t' \<and> ?I (done @ [i]) t'"
    proof (cases "is_updated (win_buffer (ls ! i))")
      case False
      then show ?thesis using I i(1) by (simp add: draw_layer_def res_simps composite_snoc layer_hit_def)
    next
      case True
      from draw_to_spec [OF i(2), of t] I wf(2) obtain t' where
        t': "draw_to (ls ! i) t = Inr t'" "fbw.painted t (Collect (win_shows (ls ! i))) (win_color (ls ! i)) t'" by auto
      then have "?I (done @ [i]) t'" using I True fb_inside_conf [of t bg]
        by (auto simp: fbw.painted_def composite_snoc layer_hit_def)
      then show ?thesis using t'(1) True i(1) by (simp add: draw_layer_def res_simps)
    qed
  qed
  then show ?thesis by blast
qed

lemma lwm_draw_spec:
  assumes wf: "lwm_wf m"
  shows "\<exists>m'. lwm_draw m = Inr m' \<and> lwm_wf m' \<and> layers m' = layers m \<and> layer_stack m' = layer_stack m
    \<and> fb_conf (lwm_buffer m') = fb_conf (lwm_buffer m)
    \<and> (\<forall>p \<in> fb_inside (lwm_buffer m). fb_pixel (lwm_buffer m') p = composite (layers m) (lwm_shadow m) (layer_stack m) p)"
proof -
  from draw_layers [of "lwm_shadow m" "lwm_format m" "layers m" "layer_stack m"] wf obtain s where
    s: "foldM (draw_layer (layers m)) (layer_stack m) (lwm_shadow m) = Inr s" "fb_wf s" "fb_conf s = fb_conf (lwm_shadow m)"
      "\<forall>p \<in> fb_inside (lwm_shadow m). fb_pixel s p = composite (layers m) (lwm_shadow m) (layer_stack m) p"
    by (auto simp: lwm_wf_def)
  have ins: "fb_inside s = fb_inside (lwm_buffer m)" "fb_inside (lwm_shadow m) = fb_inside (lwm_buffer m)"
    using s(3) wf by (auto simp: fb_inside_def lwm_wf_def fb_resolution_def)
  have "copy_pos_ok (0, 0) s" using s(2) by (simp add: copy_pos_ok_def fb_wf_def Let_def)
  with fb_copy_spec [of "lwm_buffer m" s 0 0] s(2,3) wf obtain b where
    b: "fb_copy (lwm_buffer m) (0, 0) s = Inr b" "fb_wf b" "fb_conf b = fb_conf (lwm_buffer m)"
      "\<forall>(x, y) \<in> fb_inside (lwm_buffer m). fb_pixel b (x, y)
         = (if (x - 0, y - 0) \<in> fb_inside s then fb_pixel s (x - 0, y - 0) else fb_pixel (lwm_buffer m) (x, y))"
    by (auto simp: lwm_wf_def lwm_format_def)
  have "fb_pixel b p = composite (layers m) (lwm_shadow m) (layer_stack m) p" if "p \<in> fb_inside (lwm_buffer m)" for p
    using bspec [OF b(4) that] s(4) ins that by (cases p) simp
  moreover have "lwm_wf (m\<lparr>lwm_shadow := s, lwm_buffer := b\<rparr>)"
    using wf s(2,3) b(2,3) by (simp add: lwm_wf_def lwm_format_def fb_resolution_def)
  ultimately show ?thesis using s(1) b(1,3) by (simp add: lwm_draw_def)
qed

text \<open>
  \<^verbatim>\<open>up_down\<close> puts the layer at the wanted height, or on top when the stack is lower, and keeps the order of
  the others; a negative height hides it.
\<close>

lemma up_down_spec:
  "\<exists>m'. up_down m i h = Inr m' \<and> m' = m\<lparr>layer_stack := (let rest = filter (\<lambda>l. l \<noteq> i) (layer_stack m) in
     if h < 0 then rest else take (nat h) rest @ i # drop (nat h) rest)\<rparr>"
proof -
  let ?rest = "filter (\<lambda>l. l \<noteq> i) (layer_stack m)"
  have le: "length ?rest \<le> length (layer_stack m)" by simp
  have tk: "take (min (nat h) n) xs = take (nat h) xs \<and> drop (min (nat h) n) xs = drop (nat h) xs"
    if "length xs \<le> n" for n and xs :: "nat list"
    using that by (simp add: min_def)
  show ?thesis
  proof (cases "find (\<lambda>l. l = i) (layer_stack m)")
    case None
    then have "i \<notin> set (layer_stack m)" by (auto simp: find_None_iff)
    then have "?rest = layer_stack m" by (intro filter_True) auto
    then show ?thesis using None tk [of "layer_stack m" "length (layer_stack m)"]
      by (auto simp: up_down_def lwm_hide_def vec_insert_def Let_def)
  next
    case (Some l)
    then have "l = i" by (auto simp: find_Some_iff)
    then show ?thesis using Some le tk [OF le] tk [of ?rest "min (length (layer_stack m)) (length ?rest)"]
      by (auto simp: up_down_def lwm_hide_def vec_insert_def Let_def min.assoc)
  qed
qed

section \<open>Runs of the window manager\<close>

text \<open>
  The calls a client makes: the methods of the manager, and through a handle the drawing into a window's
  back buffer and its \<^verbatim>\<open>flush\<close>.
\<close>

datatype lwm_op = NewLayer window | MoveTo nat vec2 | Hide nat | UpDown nat int | DrawAll
  | WriteBack nat "frame_buffer \<Rightarrow> frame_buffer res" | Flush nat

definition on_canvas :: "layered_window_manager \<Rightarrow> nat \<Rightarrow> (buffered_canvas \<Rightarrow> buffered_canvas res) \<Rightarrow> layered_window_manager res" where
  "on_canvas m i f =
     rbind (index (layers m) i) (\<lambda>w. rbind (f (win_buffer w)) (\<lambda>c. Inr (m\<lparr>layers := (layers m)[i := w\<lparr>win_buffer := c\<rparr>]\<rparr>)))"

fun lwm_step :: "lwm_op \<Rightarrow> layered_window_manager \<Rightarrow> layered_window_manager res" where
  "lwm_step (NewLayer w) m = rbind (new_layer m w) (\<lambda>(_, m'). Inr m')"
| "lwm_step (MoveTo i p) m = lwm_move_to m i p"
| "lwm_step (Hide i) m = Inr (lwm_hide m i)"
| "lwm_step (UpDown i h) m = up_down m i h"
| "lwm_step DrawAll m = lwm_draw m"
| "lwm_step (WriteBack i f) m = on_canvas m i (\<lambda>c. write_with c f)"
| "lwm_step (Flush i) m = on_canvas m i canvas_flush"

text \<open>A drawing function writes pixels: it returns, and keeps the shape of the buffer.\<close>

definition draws :: "(frame_buffer \<Rightarrow> frame_buffer res) \<Rightarrow> frame_buffer \<Rightarrow> bool" where
  "draws f fb \<longleftrightarrow> (case f fb of Inr fb' \<Rightarrow> fb_wf fb' \<and> fb_conf fb' = fb_conf fb | Inl _ \<Rightarrow> False)"

fun lwm_op_ok :: "layered_window_manager \<Rightarrow> lwm_op \<Rightarrow> bool" where
  "lwm_op_ok m (NewLayer w) \<longleftrightarrow> window_wf (lwm_format m) w"
| "lwm_op_ok m (MoveTo i p) \<longleftrightarrow> i < length (layers m) \<and> copy_pos_ok p (fore (win_buffer (layers m ! i)))"
| "lwm_op_ok m (Hide i) \<longleftrightarrow> True"
| "lwm_op_ok m (UpDown i h) \<longleftrightarrow> i < length (layers m)"
| "lwm_op_ok m DrawAll \<longleftrightarrow> True"
| "lwm_op_ok m (WriteBack i f) \<longleftrightarrow> i < length (layers m) \<and> draws f (back_buf (win_buffer (layers m ! i)))"
| "lwm_op_ok m (Flush i) \<longleftrightarrow> i < length (layers m)"

text \<open>
  Replacing a window by one with the same shape keeps the manager well formed.
\<close>

lemma lwm_wf_window:
  assumes "lwm_wf m" "window_wf (lwm_format m) w"
  shows "lwm_wf (m\<lparr>layers := (layers m)[i := w]\<rparr>)"
  using assms set_update_subset_insert [of "layers m" i w] by (auto simp: lwm_wf_def lwm_format_def)

lemma canvas_flush_spec:
  assumes "canvas_wf fmt w h c"
  shows "\<exists>c'. canvas_flush c = Inr c' \<and> canvas_wf fmt w h c' \<and> back_buf c' = back_buf c \<and> fb_conf (fore c') = fb_conf (fore c)
    \<and> (\<forall>p \<in> fb_inside (fore c). fb_pixel (fore c') p = fb_pixel (back_buf c) p)"
proof -
  have ins: "fb_inside (back_buf c) = fb_inside (fore c)"
    using assms by (auto simp: canvas_wf_def fb_inside_def fb_resolution_def)
  have "copy_pos_ok (0, 0) (back_buf c)" using assms by (simp add: canvas_wf_def copy_pos_ok_def fb_wf_def Let_def)
  with fb_copy_spec [of "fore c" "back_buf c" 0 0] assms obtain f where f: "fb_copy (fore c) (0, 0) (back_buf c) = Inr f"
    "fb_wf f" "fb_conf f = fb_conf (fore c)" "\<forall>(x, y) \<in> fb_inside (fore c). fb_pixel f (x, y)
       = (if (x - 0, y - 0) \<in> fb_inside (back_buf c) then fb_pixel (back_buf c) (x - 0, y - 0) else fb_pixel (fore c) (x, y))"
    by (auto simp: canvas_wf_def)
  then have "fb_pixel f p = fb_pixel (back_buf c) p" if "p \<in> fb_inside (fore c)" for p
    using bspec [OF f(4) that] that ins by (cases p) simp
  then show ?thesis using f(1-3) assms by (simp add: canvas_flush_def canvas_wf_def fb_resolution_def)
qed

lemma on_canvas_ok:
  assumes wf: "lwm_wf m" and i: "i < length (layers m)"
    and f: "\<exists>c. f (win_buffer (layers m ! i)) = Inr c \<and> canvas_wf (lwm_format m) (win_width (layers m ! i)) (win_height (layers m ! i)) c
      \<and> fb_conf (fore c) = fb_conf (fore (win_buffer (layers m ! i)))"
  shows "\<exists>m'. on_canvas m i f = Inr m' \<and> lwm_wf m'"
proof -
  from f obtain c where c: "f (win_buffer (layers m ! i)) = Inr c"
    "canvas_wf (lwm_format m) (win_width (layers m ! i)) (win_height (layers m ! i)) c"
    "fb_conf (fore c) = fb_conf (fore (win_buffer (layers m ! i)))" by blast
  have "window_wf (lwm_format m) (layers m ! i)" using wf i by (simp add: lwm_wf_def)
  then have "window_wf (lwm_format m) ((layers m ! i)\<lparr>win_buffer := c\<rparr>)"
    using c(2,3) by (simp add: window_wf_def copy_pos_ok_def)
  from lwm_wf_window [OF wf this, of i] show ?thesis using c(1) i by (simp add: on_canvas_def res_simps)
qed

lemma distinct_insert_at: "\<lbrakk>distinct xs; x \<notin> set xs\<rbrakk> \<Longrightarrow> distinct (take n xs @ x # drop n xs)"
  using set_take_disj_set_drop_if_distinct [of xs n n] by (auto dest: in_set_takeD in_set_dropD)

lemma up_down_wf:
  assumes "lwm_wf m" "i < length (layers m)"
  shows "\<exists>m'. up_down m i h = Inr m' \<and> lwm_wf m'"
proof -
  let ?rest = "filter (\<lambda>l. l \<noteq> i) (layer_stack m)"
  have "distinct (take (nat h) ?rest @ i # drop (nat h) ?rest)"
    using assms(1) by (intro distinct_insert_at) (auto simp: lwm_wf_def)
  moreover have "set (take (nat h) ?rest @ i # drop (nat h) ?rest) \<subseteq> insert i (set (layer_stack m))"
    by (auto dest: in_set_takeD in_set_dropD)
  ultimately show ?thesis using up_down_spec [of m i h] assms by (auto simp: lwm_wf_def lwm_format_def Let_def)
qed

lemma lwm_step_wf:
  assumes wf: "lwm_wf m" and ok: "lwm_op_ok m op"
  shows "\<exists>m'. lwm_step op m = Inr m' \<and> lwm_wf m'"
proof (cases op)
  case (NewLayer w)
  then show ?thesis using wf ok by (auto simp: new_layer_def lwm_wf_def lwm_format_def less_Suc_eq Let_def)
next
  case (MoveTo i p)
  have "window_wf (lwm_format m) (layers m ! i)" using wf ok MoveTo by (simp add: lwm_wf_def)
  then have "window_wf (lwm_format m) (win_move_to (layers m ! i) p)"
    using ok MoveTo by (simp add: window_wf_def win_move_to_def)
  from lwm_wf_window [OF wf this, of i] show ?thesis using MoveTo ok by (simp add: lwm_move_to_def res_simps)
next
  case (WriteBack i f)
  let ?w = "layers m ! i"
  have w: "window_wf (lwm_format m) ?w" using wf ok WriteBack by (simp add: lwm_wf_def)
  obtain b where b: "f (back_buf (win_buffer ?w)) = Inr b" "fb_wf b" "fb_conf b = fb_conf (back_buf (win_buffer ?w))"
    using ok WriteBack by (auto simp: draws_def split: sum.splits)
  then have "\<exists>m'. on_canvas m i (\<lambda>c. write_with c f) = Inr m' \<and> lwm_wf m'" using w ok WriteBack
    by (intro on_canvas_ok wf) (auto simp: write_with_def window_wf_def canvas_wf_def fb_resolution_def)
  then show ?thesis using WriteBack by simp
next
  case (Flush i)
  have "canvas_wf (lwm_format m) (win_width (layers m ! i)) (win_height (layers m ! i)) (win_buffer (layers m ! i))"
    using wf ok Flush by (simp add: lwm_wf_def window_wf_def)
  from canvas_flush_spec [OF this] have "\<exists>m'. on_canvas m i canvas_flush = Inr m' \<and> lwm_wf m'"
    using ok Flush by (intro on_canvas_ok wf) auto
  then show ?thesis using Flush by simp
next
  case (Hide i)
  then show ?thesis using wf by (auto simp: lwm_hide_def lwm_wf_def lwm_format_def)
next
  case (UpDown i h)
  then show ?thesis using up_down_wf [OF wf] ok by auto
next
  case DrawAll
  then show ?thesis using lwm_draw_spec [OF wf] by auto
qed

inductive lwm_run :: "layered_window_manager \<Rightarrow> layered_window_manager \<Rightarrow> bool" where
  lwm_run_refl: "lwm_run m m"
| lwm_run_step: "\<lbrakk>lwm_run m m'; lwm_op_ok m' op; lwm_step op m' = Inr m''\<rbrakk> \<Longrightarrow> lwm_run m m''"

lemma lwm_run_wf: "lwm_run m m' \<Longrightarrow> lwm_wf m \<Longrightarrow> lwm_wf m'"
proof (induction rule: lwm_run.induct)
  case (lwm_run_step m m' op m'')
  then show ?case using lwm_step_wf [of m' op] by auto
qed

lemma lwm_new_wf:
  assumes "fb_wf buffer"
  shows "\<exists>m. lwm_new (Some (pixel_format (fb_conf buffer))) buffer = Inr m \<and> lwm_wf m \<and> layers m = []"
proof -
  have "horizontal_resolution (fb_conf buffer) < 2 ^ 31" "vertical_resolution (fb_conf buffer) < 2 ^ 31"
    using assms by (auto simp: fb_wf_def Let_def)
  from fb_new_spec [OF this, of "pixel_format (fb_conf buffer)"] obtain s where
    "fb_new (Some (pixel_format (fb_conf buffer))) (horizontal_resolution (fb_conf buffer)) (vertical_resolution (fb_conf buffer)) = Inr s"
    "fb_wf s" "fb_resolution s = fb_resolution buffer" "pixel_format (fb_conf s) = pixel_format (fb_conf buffer)"
    by (auto simp: fb_resolution_def)
  then show ?thesis using assms by (simp add: lwm_new_def fb_resolution_def lwm_wf_def lwm_format_def)
qed

lemma window_new_wf:
  assumes "w < 2 ^ 31" "h < 2 ^ 31"
  shows "\<exists>win. window_new (Some fmt) w h = Inr win \<and> window_wf fmt win \<and> win_width win = w \<and> win_height win = h
    \<and> win_pos win = (0, 0) \<and> transparant_color win = None"
proof -
  from fb_new_spec [OF assms, of fmt] obtain f where
    f: "fb_new (Some fmt) w h = Inr f" "fb_wf f" "fb_resolution f = (w, h)" "pixel_format (fb_conf f) = fmt" by blast
  then show ?thesis
    by (auto simp: window_new_def canvas_new_def window_wf_def canvas_wf_def copy_pos_ok_def fb_wf_def Let_def)
qed

section \<open>Properties\<close>

text \<open>
  (C30) \<^verbatim>\<open>draw\<close> composes the screen: it never panics, and every visible pixel shows the uppermost layer that is
  drawn and not transparent there, or the old background where no layer covers it.
\<close>

theorem draw_composites:
  assumes "lwm_wf m"
  shows "\<exists>m'. lwm_draw m = Inr m' \<and> layers m' = layers m \<and> layer_stack m' = layer_stack m
    \<and> (\<forall>p \<in> fb_inside (lwm_buffer m). fb_pixel (lwm_buffer m') p
         = (case find (layer_hit (layers m) p) (rev (layer_stack m)) of
              Some i \<Rightarrow> win_color (layers m ! i) p | None \<Rightarrow> fb_pixel (lwm_shadow m) p))"
  using lwm_draw_spec [OF assms] unfolding composite_def by blast

text \<open>
  (C28) The window manager stays well-formed. Whatever a client does with a fresh manager, drawing, moving, hiding and restacking
  layers, the stack never holds a layer twice or the handle of a layer that does not exist, the buffers of every window have the
  size and the pixel format that they should have, and \<^verbatim>\<open>draw\<close> never panics.
\<close>

theorem window_manager_invariant:
  assumes "fb_wf buffer" "lwm_new (Some (pixel_format (fb_conf buffer))) buffer = Inr m0" "lwm_run m0 m"
  shows "distinct (layer_stack m) \<and> (\<forall>i \<in> set (layer_stack m). i < length (layers m))
    \<and> (\<forall>w \<in> set (layers m). window_wf (lwm_format m) w) \<and> (\<exists>m'. lwm_draw m = Inr m')"
proof -
  have "lwm_wf m0" using lwm_new_wf [OF assms(1)] assms(2) by auto
  then have "lwm_wf m" by (rule lwm_run_wf [OF assms(3)])
  then show ?thesis using lwm_draw_spec [of m] by (auto simp: lwm_wf_def)
qed

text \<open>
  \<^verbatim>\<open>up_down\<close> never panics: a negative height hides the layer; otherwise the layer ends up at the wanted
  height, or on top of a lower stack, and the other layers keep their order.
\<close>

theorem up_down_correct:
  "up_down m i h = Inr (m\<lparr>layer_stack := (let rest = filter (\<lambda>l. l \<noteq> i) (layer_stack m) in
     if h < 0 then rest else take (nat h) rest @ i # drop (nat h) rest)\<rparr>)"
  using up_down_spec [of m i h] by simp

text \<open>Two one-pixel windows over the small screen: the upper one is transparent where it is red.\<close>

definition dot :: "pixel_color \<Rightarrow> frame_buffer" where
  "dot c = \<lparr>fb_data = Shadow [fst c, fst (snd c), snd (snd c), 0],
     fb_conf = \<lparr>pixels_per_scanline = 1, horizontal_resolution = 1, vertical_resolution = 1,
       pixel_format = PixelRGBResv8BitPerColor\<rparr>\<rparr>"

definition dot_window :: "pixel_color \<Rightarrow> pixel_color option \<Rightarrow> window" where
  "dot_window c tc = \<lparr>win_pos = (1, 1), win_width = 1, win_height = 1, transparant_color = tc,
     win_buffer = \<lparr>fore = dot c, back_buf = dot c, is_updated = True\<rparr>\<rparr>"

definition two_dots :: layered_window_manager where
  "two_dots = \<lparr>layers = [dot_window (255, 0, 0) (Some (255, 0, 0)), dot_window (0, 255, 0) None], layer_stack = [1, 0],
     lwm_shadow = small_screen, lwm_buffer = small_screen\<rparr>"

lemma two_dots_wf: "lwm_wf two_dots"
  by (simp add: lwm_wf_def two_dots_def small_screen_def lwm_format_def window_wf_def canvas_wf_def dot_window_def dot_def
      fb_wf_def fb_resolution_def copy_pos_ok_def)

theorem draw_composites_witness:
  "\<exists>m'. lwm_draw two_dots = Inr m' \<and> fb_pixel (lwm_buffer m') (1, 1) = (0, 255, 0)
     \<and> fb_pixel (lwm_buffer m') (0, 0) = (7, 7, 7)"
proof -
  have "(1, 1) \<in> fb_inside (lwm_buffer two_dots)" "(0, 0) \<in> fb_inside (lwm_buffer two_dots)"
    by (simp_all add: fb_inside_def two_dots_def small_screen_def)
  moreover have "find (layer_hit (layers two_dots) (1, 1)) (rev (layer_stack two_dots)) = Some 1"
    "find (layer_hit (layers two_dots) (0, 0)) (rev (layer_stack two_dots)) = None"
    by (simp_all add: layer_hit_def two_dots_def win_shows_def win_local_def win_color_def fb_inside_def dot_window_def
        dot_def fb_pixel_def pix_index_def)
  moreover have "win_color (layers two_dots ! 1) (1, 1) = (0, 255, 0)" "fb_pixel (lwm_shadow two_dots) (0, 0) = (7, 7, 7)"
    by (simp_all add: two_dots_def win_local_def win_color_def dot_window_def dot_def small_screen_def fb_pixel_def pix_index_def)
  ultimately show ?thesis using draw_composites [OF two_dots_wf] by fastforce
qed

theorem window_manager_invariant_witness:
  "\<exists>m0 m m'. lwm_new (Some PixelRGBResv8BitPerColor) small_screen = Inr m0 \<and> lwm_run m0 m \<and> layer_stack m = [0]
     \<and> lwm_draw m = Inr m'"
proof -
  have f: "pixel_format (fb_conf small_screen) = PixelRGBResv8BitPerColor" by (simp add: small_screen_def)
  from lwm_new_wf [OF rgb_line_wf(2)] f obtain m0 where m0: "lwm_new (Some PixelRGBResv8BitPerColor) small_screen = Inr m0"
    "lwm_wf m0" "layers m0 = []" by auto
  have m0': "layer_stack m0 = []" "lwm_format m0 = PixelRGBResv8BitPerColor"
    using m0(1) f by (auto simp: lwm_new_def lwm_format_def split: prod.splits)
  let ?w = "dot_window (0, 255, 0) None"
  have "window_wf (lwm_format m0) ?w"
    by (simp add: m0' window_wf_def canvas_wf_def dot_window_def dot_def fb_wf_def fb_resolution_def copy_pos_ok_def)
  then have r1: "lwm_run m0 (m0\<lparr>layers := [?w]\<rparr>)"
    using m0(3) by (intro lwm_run_step [OF lwm_run_refl, of _ "NewLayer ?w"]) (auto simp: new_layer_def)
  have r: "lwm_run m0 (m0\<lparr>layers := [?w], layer_stack := [0]\<rparr>)"
    using m0' by (intro lwm_run_step [OF r1, of "UpDown 0 0"]) (auto simp: up_down_def vec_insert_def)
  from window_manager_invariant [OF rgb_line_wf(2) _ r] m0(1) f obtain m' where
    "lwm_draw (m0\<lparr>layers := [?w], layer_stack := [0]\<rparr>) = Inr m'" by auto
  then show ?thesis using m0(1) r by force
qed

end
