(* ===== verification/Console.thy ===== *)
theory Console
  imports Font Window
begin

text \<open>
  The text console, \<^verbatim>\<open>kernel/src/console.rs\<close>. Beside its picture the console keeps the characters in \<^verbatim>\<open>buffer\<close>;
  the theory models every operation on both, gives the abstract text screen it implements, and shows that
  the picture is the rendering of the text after any output.
\<close>

section \<open>The console\<close>

definition CHAR_W :: nat where
  "CHAR_W = 8"

definition CHAR_H :: nat where
  "CHAR_H = 16"

record console =
  con_layer :: nat
  fg_color :: pixel_color
  bg_color :: pixel_color
  n_rows :: nat
  n_cols :: nat
  con_buffer :: "u8 list list"
  cursor_row :: nat
  cursor_col :: nat

definition i32_mul :: "int \<Rightarrow> int \<Rightarrow> int res" where
  "i32_mul x y = i32_chk (x * y)"

text \<open>The loops that paint rows of pixels in the background colour; the bound of the inner loop is computed anew for every row.\<close>

definition bg_rows :: "pixel_color \<Rightarrow> nat \<Rightarrow> nat list \<Rightarrow> frame_buffer \<Rightarrow> frame_buffer res" where
  "bg_rows bg cols ys fb =
     foldM (\<lambda>y fb. rbind (usize_mul 8 cols) (\<lambda>w.
       foldM (\<lambda>x fb. fb_write fb (as_i32 x, as_i32 y) bg) [0..<w] fb)) ys fb"

definition console_new :: "nat \<Rightarrow> window \<Rightarrow> pixel_color \<Rightarrow> pixel_color \<Rightarrow> (console \<times> window) res" where
  "console_new layer win fg bg =
     (let cols = win_width win div CHAR_W; rows = win_height win div CHAR_H in
      rbind (write_with (win_buffer win) (\<lambda>back. rbind (usize_mul 16 rows) (\<lambda>h. bg_rows bg cols [0..<h] back))) (\<lambda>c.
      Inr (\<lparr>con_layer = layer, fg_color = fg, bg_color = bg, n_rows = rows, n_cols = cols,
        con_buffer = replicate rows (replicate cols 0), cursor_row = 0, cursor_col = 0\<rparr>, win\<lparr>win_buffer := c\<rparr>)))"

text \<open>\<^verbatim>\<open>init_console\<close> opens a window that covers the screen and puts it at the bottom of the stack.\<close>

definition init_console ::
    "pixel_format option \<Rightarrow> layered_window_manager \<Rightarrow> pixel_color \<Rightarrow> pixel_color \<Rightarrow> (console \<times> layered_window_manager) res" where
  "init_console dflt l fg bg = (case fb_resolution (lwm_buffer l) of (w, h) \<Rightarrow>
     rbind (window_new dflt w h) (\<lambda>win.
     rbind (new_layer l win) (\<lambda>(lid, l).
     rbind (up_down l lid 0) (\<lambda>l.
     rbind (index (layers l) lid) (\<lambda>win.
     rbind (console_new lid win fg bg) (\<lambda>(con, win).
     Inr (con, l\<lparr>layers := (layers l)[lid := win]\<rparr>)))))))"

text \<open>\<^verbatim>\<open>slice::swap\<close>\<close>

definition vec_swap :: "nat \<Rightarrow> nat \<Rightarrow> 'a list \<Rightarrow> 'a list res" where
  "vec_swap i j xs = rbind (index xs i) (\<lambda>a. rbind (index xs j) (\<lambda>b. Inr (xs[i := b, j := a])))"

definition scroll_up :: "console \<times> frame_buffer \<Rightarrow> (console \<times> frame_buffer) res" where
  "scroll_up s = (case s of (con, fb) \<Rightarrow>
     rbind (i32_mul 8 (as_i32 (n_cols con))) (\<lambda>w.
     rbind (i32_mul 16 (as_i32 (n_rows con))) (\<lambda>h.
     rbind (fb_move_rect fb (0, 0) (rect_from_points 0 16 w h)) (\<lambda>fb.
     rbind (usize_sub (n_rows con) 1) (\<lambda>last.
     rbind (usize_mul 16 last) (\<lambda>y0. rbind (usize_mul 16 (n_rows con)) (\<lambda>y1.
     rbind (bg_rows (bg_color con) (n_cols con) [y0..<y1] fb) (\<lambda>fb.
     rbind (foldM (\<lambda>row b. rbind (usize_add row 1) (\<lambda>r1. vec_swap row r1 b)) [0..<last] (con_buffer con)) (\<lambda>buf.
     rbind (index buf last) (\<lambda>row.
     Inr (con\<lparr>con_buffer := buf[last := replicate (length row) 0]\<rparr>, fb)))))))))))"

definition new_line :: "console \<times> frame_buffer \<Rightarrow> (console \<times> frame_buffer) res" where
  "new_line s = (case s of (con, fb) \<Rightarrow>
     let con = con\<lparr>cursor_col := 0\<rparr> in
     rbind (usize_sub (n_rows con) 1) (\<lambda>last.
     if cursor_row con < last then rbind (usize_add (cursor_row con) 1) (\<lambda>r. Inr (con\<lparr>cursor_row := r\<rparr>, fb))
     else scroll_up (con, fb)))"

definition put_char :: "u8 \<Rightarrow> console \<times> frame_buffer \<Rightarrow> (console \<times> frame_buffer) res" where
  "put_char c s =
     rbind (if c = 10 then new_line s else Inr s) (\<lambda>(con, fb).
     rbind (u32_mul 8 (cursor_col con mod 2 ^ 32)) (\<lambda>x.
     rbind (u32_mul 16 (cursor_row con mod 2 ^ 32)) (\<lambda>y.
     rbind (write_ascii fb_write fb x y (unat c) (fg_color con)) (\<lambda>fb.
     rbind (index (con_buffer con) (cursor_row con)) (\<lambda>row.
     rbind (store row (cursor_col con) c) (\<lambda>row.
     rbind (usize_add (cursor_col con) 1) (\<lambda>col.
     let con = con\<lparr>con_buffer := (con_buffer con)[cursor_row con := row], cursor_col := col\<rparr> in
     if cursor_col con = n_cols con then new_line (con, fb) else Inr (con, fb))))))))"

text \<open>\<^verbatim>\<open>put_string\<close>, and \<^verbatim>\<open>write_str\<close> that calls it: the characters go to the back buffer, which is then flushed.\<close>

definition put_string :: "u8 list \<Rightarrow> console \<times> window \<Rightarrow> (console \<times> window) res" where
  "put_string str s = (case s of (con, win) \<Rightarrow>
     rbind (foldM put_char str (con, back_buf (win_buffer win))) (\<lambda>(con, b).
     rbind (canvas_flush ((win_buffer win)\<lparr>back_buf := b, is_updated := True\<rparr>)) (\<lambda>c.
     Inr (con, win\<lparr>win_buffer := c\<rparr>))))"

section \<open>The abstract text screen\<close>

type_synonym text_screen = "u8 list list \<times> nat \<times> nat"

definition text_of :: "console \<Rightarrow> text_screen" where
  "text_of con = (con_buffer con, cursor_row con, cursor_col con)"

fun text_newline :: "nat \<Rightarrow> nat \<Rightarrow> text_screen \<Rightarrow> text_screen" where
  "text_newline rows cols (ls, r, c) =
     (if Suc r < rows then (ls, Suc r, 0) else (tl ls @ [replicate cols 0], r, 0))"

fun text_write :: "nat \<Rightarrow> nat \<Rightarrow> u8 \<Rightarrow> text_screen \<Rightarrow> text_screen" where
  "text_write rows cols ch (ls, r, c) =
     (let t = (ls[r := (ls ! r)[c := ch]], r, Suc c) in if Suc c = cols then text_newline rows cols t else t)"

definition text_put :: "nat \<Rightarrow> nat \<Rightarrow> u8 \<Rightarrow> text_screen \<Rightarrow> text_screen" where
  "text_put rows cols ch t = text_write rows cols ch (if ch = 10 then text_newline rows cols t else t)"

text \<open>Rendering: the colour of a pixel of the character grid.\<close>

definition render :: "console \<Rightarrow> nat \<Rightarrow> nat \<Rightarrow> pixel_color" where
  "render con x y = (if bit (FONTS ! unat (con_buffer con ! (y div 16) ! (x div 8)) ! (y mod 16)) (7 - x mod 8)
     then fg_color con else bg_color con)"

definition renders :: "console \<Rightarrow> frame_buffer \<Rightarrow> bool" where
  "renders con fb \<longleftrightarrow> (\<forall>x < 8 * n_cols con. \<forall>y < 16 * n_rows con. fb_pixel fb (int x, int y) = render con x y)"

text \<open>
  \<open>con_wf\<close>: the grid fits the buffer, the cursor is on the grid, and no character lies at or behind the cursor.
  In the middle of a step (\<open>con_grid\<close>) the cursor may stand behind the last column.
\<close>

definition con_shape :: "console \<Rightarrow> frame_buffer \<Rightarrow> bool" where
  "con_shape con fb \<longleftrightarrow> fb_wf fb \<and> 8 * n_cols con \<le> horizontal_resolution (fb_conf fb)
     \<and> 16 * n_rows con \<le> vertical_resolution (fb_conf fb) \<and> 0 < n_rows con \<and> 0 < n_cols con
     \<and> length (con_buffer con) = n_rows con \<and> (\<forall>row \<in> set (con_buffer con). length row = n_cols con)"

definition con_grid :: "console \<Rightarrow> frame_buffer \<Rightarrow> bool" where
  "con_grid con fb \<longleftrightarrow> con_shape con fb \<and> cursor_row con < n_rows con \<and> cursor_col con \<le> n_cols con
     \<and> (\<forall>r c. r < n_rows con \<longrightarrow> c < n_cols con \<longrightarrow> cursor_row con < r \<or> cursor_row con = r \<and> cursor_col con \<le> c
          \<longrightarrow> con_buffer con ! r ! c = 0)"

definition con_wf :: "console \<Rightarrow> frame_buffer \<Rightarrow> bool" where
  "con_wf con fb \<longleftrightarrow> con_grid con fb \<and> cursor_col con < n_cols con \<and> renders con fb"

text \<open>\<open>same_console\<close>: what no output changes.\<close>

definition same_console :: "console \<Rightarrow> console \<Rightarrow> bool" where
  "same_console con con' \<longleftrightarrow> n_rows con' = n_rows con \<and> n_cols con' = n_cols con \<and> fg_color con' = fg_color con
     \<and> bg_color con' = bg_color con \<and> con_layer con' = con_layer con"

section \<open>Scrolling\<close>

lemma bg_rows_painted:
  assumes fb: "fb_wf fb" and w: "8 * cols \<le> horizontal_resolution (fb_conf fb)"
    and ys: "\<forall>y \<in> set ys. y < vertical_resolution (fb_conf fb)"
  shows "\<exists>fb'. bg_rows bg cols ys fb = Inr fb'
    \<and> fbw.painted fb (\<Union>y \<in> set ys. \<Union>x \<in> {0..<8 * cols}. {(int x, int y)}) (\<lambda>_. bg) fb'"
proof -
  have dims: "horizontal_resolution (fb_conf fb) < 2 ^ 31" "vertical_resolution (fb_conf fb) < 2 ^ 31"
    using fb by (auto simp: fb_wf_def Let_def)
  have mul: "usize_mul 8 cols = Inr (8 * cols)" using w dims by (simp add: usize_bound_def res_simps)
  have row: "\<exists>t'. rbind (usize_mul 8 cols) (\<lambda>w. foldM (\<lambda>x fb. fb_write fb (as_i32 x, as_i32 y) bg) [0..<w] t) = Inr t'
      \<and> fbw.painted t (\<Union>x \<in> {0..<8 * cols}. {(int x, int y)}) (\<lambda>_. bg) t'"
    if y: "y \<in> set ys" "fb_wf t" "fb_conf t = fb_conf fb" for y t
  proof -
    have "\<exists>t'. foldM (\<lambda>x fb. fb_write fb (as_i32 x, as_i32 y) bg) [0..<8 * cols] t = Inr t'
      \<and> fbw.painted t (\<Union>x \<in> set [0..<8 * cols]. {(int x, int y)}) (\<lambda>_. bg) t'"
    proof (rule fbw.paint_loop [OF y(2)])
      fix x t'
      assume x: "x \<in> set [0..<8 * cols]" "fb_wf t'" "fb_conf t' = fb_conf t"
      then have p: "(int x, int y) \<in> fb_inside t'" using w ys y by (simp add: in_fb_inside)
      have "as_i32 x = int x" "as_i32 y = int y" using x(1) w ys y(1) dims by auto
      then show "\<exists>t''. fb_write t' (as_i32 x, as_i32 y) bg = Inr t'' \<and> fbw.painted t' {(int x, int y)} (\<lambda>_. bg) t''"
        using fbw.put_painted [OF x(2) p, of "\<lambda>_. bg"] by simp
    qed
    then show ?thesis using mul by simp
  qed
  show ?thesis unfolding bg_rows_def by (rule fbw.paint_loop [OF fb], rule row) auto
qed

lemma swap_rotates:
  "n < length xs \<Longrightarrow> foldM (\<lambda>row b. rbind (usize_add row 1) (\<lambda>r1. vec_swap row r1 b)) [0..<n] xs
     = (if n < usize_bound then Inr (take n (tl xs) @ hd xs # drop (Suc n) xs) else Inl ArithOverflow)"
proof (induction n)
  case 0
  then show ?case by (cases xs) (simp_all add: usize_bound_def)
next
  case (Suc n)
  let ?ys = "take n (tl xs) @ hd xs # drop (Suc n) xs"
  have x: "xs \<noteq> []" using Suc.prems by auto
  have l: "length (take n (tl xs)) = n" using Suc.prems by simp
  have n0: "?ys ! n = hd xs" using l by (simp add: nth_append)
  have n1: "?ys ! Suc n = xs ! Suc n" using l Suc.prems by (simp add: nth_append)
  have d: "drop (Suc n) xs = xs ! Suc n # drop (Suc (Suc n)) xs" using Suc.prems by (simp add: Cons_nth_drop_Suc)
  have "?ys[n := xs ! Suc n, Suc n := hd xs] = take n (tl xs) @ xs ! Suc n # hd xs # drop (Suc (Suc n)) xs"
    using l unfolding d by (simp add: list_update_append)
  also have "\<dots> = take (Suc n) (tl xs) @ hd xs # drop (Suc (Suc n)) xs"
    using Suc.prems x by (simp add: take_Suc_conv_app_nth nth_tl)
  finally have "vec_swap n (Suc n) ?ys = Inr (take (Suc n) (tl xs) @ hd xs # drop (Suc (Suc n)) xs)"
    using n0 n1 Suc.prems by (simp add: vec_swap_def res_simps)
  then show ?case using Suc by (simp add: foldM_append usize_add_def)
qed

lemma blank_glyph: "k < 16 \<Longrightarrow> FONTS ! 0 ! k = 0"
proof -
  assume k: "k < 16"
  have "FONTS ! 0 = fonts_00 ! 0" by (simp add: FONTS_def nth_append fonts_00_shape)
  also have "\<dots> = replicate 16 0" by (simp add: fonts_00_def numeral_eq_Suc)
  finally show ?thesis using k by simp
qed

lemma render_blank: "con_buffer con ! (y div 16) ! (x div 8) = 0 \<Longrightarrow> render con x y = bg_color con"
  by (simp add: render_def blank_glyph)

lemma scrolled_render:
  assumes len: "length (con_buffer con) = n_rows con" "0 < n_rows con" and x: "x < 8 * n_cols con" and y: "y < 16 * n_rows con"
    and con': "con' = con\<lparr>con_buffer := tl (con_buffer con) @ [replicate (n_cols con) 0]\<rparr>"
  shows "render con' x y = (if 16 * (n_rows con - 1) \<le> y then bg_color con else render con x (y + 16))"
proof (cases "16 * (n_rows con - 1) \<le> y")
  case True
  then have "y div 16 = n_rows con - 1" using y by auto
  then have "con_buffer con' ! (y div 16) = replicate (n_cols con) 0" using con' len by (simp add: nth_append)
  then have "con_buffer con' ! (y div 16) ! (x div 8) = 0" using x by (simp add: less_mult_imp_div_less mult.commute)
  then show ?thesis using True render_blank [of con'] con' by simp
next
  case False
  then have "y div 16 < n_rows con - 1" by (simp add: less_mult_imp_div_less mult.commute)
  then have "con_buffer con' ! (y div 16) = con_buffer con ! Suc (y div 16)" using con' len by (simp add: nth_append nth_tl)
  moreover have "(y + 16) div 16 = Suc (y div 16)" by simp
  ultimately show ?thesis using False con' by (simp only: render_def) simp
qed

lemma scroll_fb:
  assumes g: "con_shape con fb"
  shows "\<exists>fb1 fb2. fb_move_rect fb (0, 0) (rect_from_points 0 16 (8 * int (n_cols con)) (16 * int (n_rows con))) = Inr fb1
    \<and> bg_rows (bg_color con) (n_cols con) [16 * (n_rows con - 1)..<16 * n_rows con] fb1 = Inr fb2
    \<and> fb_wf fb2 \<and> fb_conf fb2 = fb_conf fb
    \<and> (\<forall>x < 8 * n_cols con. \<forall>y < 16 * n_rows con. fb_pixel fb2 (int x, int y)
         = (if 16 * (n_rows con - 1) \<le> y then bg_color con else fb_pixel fb (int x, int (y + 16))))"
proof -
  have wf: "fb_wf fb" and w: "8 * n_cols con \<le> horizontal_resolution (fb_conf fb)" and h: "16 * n_rows con \<le> vertical_resolution (fb_conf fb)"
    and r: "0 < n_rows con"
    using g by (auto simp: con_shape_def)
  have dims: "int (horizontal_resolution (fb_conf fb)) < 2 ^ 31" "int (vertical_resolution (fb_conf fb)) < 2 ^ 31"
    using wf by (auto simp: fb_wf_def Let_def)
  let ?r = "rect_from_points 0 16 (8 * int (n_cols con)) (16 * int (n_rows con))"
  have "\<exists>fb1. fb_move_rect fb (0, 0) ?r = Inr fb1 \<and> fb_wf fb1 \<and> fb_conf fb1 = fb_conf fb
    \<and> (\<forall>(x, y) \<in> fb_inside fb. fb_pixel fb1 (x, y)
         = (if (x - (0 - x1 ?r), y - (0 - y1 ?r)) \<in> points ?r then fb_pixel fb (x - (0 - x1 ?r), y - (0 - y1 ?r))
            else fb_pixel fb (x, y)))"
    using w h r dims by (intro fb_move_rect_spec wf) (auto simp: rect_from_points_def)
  then obtain fb1 where m: "fb_move_rect fb (0, 0) ?r = Inr fb1" "fb_wf fb1" "fb_conf fb1 = fb_conf fb"
    and mp: "\<And>x y. (x, y) \<in> fb_inside fb \<Longrightarrow> fb_pixel fb1 (x, y)
         = (if (x - (0 - x1 ?r), y - (0 - y1 ?r)) \<in> points ?r then fb_pixel fb (x - (0 - x1 ?r), y - (0 - y1 ?r))
            else fb_pixel fb (x, y))" by auto
  let ?S = "\<Union>y \<in> set [16 * (n_rows con - 1)..<16 * n_rows con]. \<Union>x \<in> {0..<8 * n_cols con}. {(int x, int y)}"
  have "\<exists>fb2. bg_rows (bg_color con) (n_cols con) [16 * (n_rows con - 1)..<16 * n_rows con] fb1 = Inr fb2
      \<and> fbw.painted fb1 ?S (\<lambda>_. bg_color con) fb2"
    using w h m(3) by (intro bg_rows_painted m(2)) auto
  then obtain fb2 where b: "bg_rows (bg_color con) (n_cols con) [16 * (n_rows con - 1)..<16 * n_rows con] fb1 = Inr fb2"
    "fbw.painted fb1 ?S (\<lambda>_. bg_color con) fb2" by blast
  have "fb_pixel fb2 (int x, int y) = (if 16 * (n_rows con - 1) \<le> y then bg_color con else fb_pixel fb (int x, int (y + 16)))"
    if x: "x < 8 * n_cols con" and y: "y < 16 * n_rows con" for x y
  proof -
    have i: "(int x, int y) \<in> fb_inside fb" "(int x, int y) \<in> fb_inside fb1" using x y w h m(3) by (auto simp: in_fb_inside)
    have "(int x, int y) \<in> ?S \<longleftrightarrow> 16 * (n_rows con - 1) \<le> y" using x y by auto
    moreover have "y < 16 * (n_rows con - 1) \<Longrightarrow> fb_pixel fb1 (int x, int y) = fb_pixel fb (int x, int (y + 16))"
      using mp [OF i(1)] x by (auto simp: rect_from_points_def in_points)
    ultimately show ?thesis using b(2) i(2) unfolding fbw.painted_def by auto
  qed
  then show ?thesis using m(1,3) b by (auto simp: fbw.painted_def)
qed

lemma scroll_up_spec:
  assumes g: "con_shape con fb" and r: "renders con fb"
    and con': "con' = con\<lparr>con_buffer := tl (con_buffer con) @ [replicate (n_cols con) 0]\<rparr>"
  shows "\<exists>fb'. scroll_up (con, fb) = Inr (con', fb') \<and> fb_wf fb' \<and> fb_conf fb' = fb_conf fb \<and> renders con' fb'"
proof -
  have len: "length (con_buffer con) = n_rows con" "0 < n_rows con" and rows: "\<forall>row \<in> set (con_buffer con). length row = n_cols con"
    and dims: "8 * n_cols con < 2 ^ 31" "16 * n_rows con < 2 ^ 31"
    using g by (auto simp: con_shape_def fb_wf_def Let_def)
  from scroll_fb [OF g] obtain fb1 fb2 where
    m: "fb_move_rect fb (0, 0) (rect_from_points 0 16 (8 * int (n_cols con)) (16 * int (n_rows con))) = Inr fb1"
    "bg_rows (bg_color con) (n_cols con) [16 * (n_rows con - 1)..<16 * n_rows con] fb1 = Inr fb2" "fb_wf fb2" "fb_conf fb2 = fb_conf fb"
    and px: "\<And>x y. \<lbrakk>x < 8 * n_cols con; y < 16 * n_rows con\<rbrakk> \<Longrightarrow> fb_pixel fb2 (int x, int y)
         = (if 16 * (n_rows con - 1) \<le> y then bg_color con else fb_pixel fb (int x, int (y + 16)))"
    by blast
  have ops: "i32_mul 8 (as_i32 (n_cols con)) = Inr (8 * int (n_cols con))" "i32_mul 16 (as_i32 (n_rows con)) = Inr (16 * int (n_rows con))"
    "usize_sub (n_rows con) 1 = Inr (n_rows con - 1)" "usize_mul 16 (n_rows con - 1) = Inr (16 * (n_rows con - 1))"
    "usize_mul 16 (n_rows con) = Inr (16 * n_rows con)"
    using dims len by (auto simp: i32_mul_def i32_ok_def usize_bound_def)
  let ?b = "con_buffer con" and ?n = "n_rows con - 1"
  have rot: "foldM (\<lambda>row b. rbind (usize_add row 1) (\<lambda>r1. vec_swap row r1 b)) [0..<?n] ?b = Inr (tl ?b @ [hd ?b])"
    using swap_rotates [of ?n ?b] len dims by (simp add: usize_bound_def)
  have "?b \<noteq> []" using len by auto
  then have h: "length (hd ?b) = n_cols con" "(tl ?b @ [hd ?b])[?n := replicate (n_cols con) 0] = tl ?b @ [replicate (n_cols con) 0]"
    "index (tl ?b @ [hd ?b]) ?n = Inr (hd ?b)"
    using rows len by (auto simp: list_update_append index_def nth_append)
  have "scroll_up (con, fb) = Inr (con', fb2)"
    using m(1,2) ops rot h con' by (simp add: scroll_up_def del: list_update_append)
  moreover have "renders con' fb2"
    unfolding renders_def
  proof (intro allI impI)
    fix x y
    assume "x < 8 * n_cols con'" "y < 16 * n_rows con'"
    then have xy: "x < 8 * n_cols con" "y < 16 * n_rows con" using con' by auto
    have "fb_pixel fb (int x, int (y + 16)) = render con x (y + 16)" if "\<not> 16 * ?n \<le> y"
    proof -
      have "y + 16 < 16 * n_rows con" using that len(2) by linarith
      then show ?thesis using r xy(1) unfolding renders_def by blast
    qed
    then show "fb_pixel fb2 (int x, int y) = render con' x y"
      unfolding px [OF xy] scrolled_render [OF len xy con'] by simp
  qed
  ultimately show ?thesis using m(3,4) by blast
qed

lemma new_line_spec:
  assumes g: "con_grid con fb" and r: "renders con fb"
  shows "\<exists>con' fb'. new_line (con, fb) = Inr (con', fb') \<and> con_wf con' fb' \<and> same_console con con' \<and> fb_conf fb' = fb_conf fb
    \<and> text_of con' = text_newline (n_rows con) (n_cols con) (text_of con)"
proof (cases "Suc (cursor_row con) < n_rows con")
  case True
  let ?c = "con\<lparr>cursor_col := 0, cursor_row := Suc (cursor_row con)\<rparr>"
  have "n_rows con < usize_bound" using g by (auto simp: con_grid_def con_shape_def fb_wf_def Let_def usize_bound_def)
  moreover have "cursor_row con < n_rows con - Suc 0" using True by simp
  ultimately have "new_line (con, fb) = Inr (?c, fb)" using True by (simp add: new_line_def Let_def res_simps)
  moreover have "con_wf ?c fb" using g r True by (auto simp: con_wf_def con_grid_def con_shape_def renders_def render_def)
  ultimately show ?thesis using True by (simp add: same_console_def text_of_def)
next
  case False
  let ?c0 = "con\<lparr>cursor_col := 0\<rparr>" and ?b = "tl (con_buffer con) @ [replicate (n_cols con) 0]"
  have last: "cursor_row con = n_rows con - 1" "0 < n_rows con" using False g by (auto simp: con_grid_def con_shape_def)
  have "con_shape ?c0 fb" "renders ?c0 fb" using g r by (auto simp: con_grid_def con_shape_def renders_def render_def)
  from scroll_up_spec [OF this refl] obtain fb' where
    s: "scroll_up (?c0, fb) = Inr (?c0\<lparr>con_buffer := ?b\<rparr>, fb')" "fb_wf fb'" "fb_conf fb' = fb_conf fb" "renders (?c0\<lparr>con_buffer := ?b\<rparr>) fb'"
    by auto
  let ?c = "?c0\<lparr>con_buffer := ?b\<rparr>"
  have "new_line (con, fb) = Inr (?c, fb')" using s(1) last by (simp add: new_line_def Let_def res_simps)
  moreover have "con_wf ?c fb'"
    using g s(2-4) last by (auto simp: con_wf_def con_grid_def con_shape_def renders_def render_def nth_append dest: list.set_sel(2) [rotated])
  ultimately show ?thesis using False s(3) by (simp add: same_console_def text_of_def)
qed

text \<open>Writing a character into the blank cell at the cursor.\<close>

lemma cell_pixels:
  assumes "x < 8 * cols"
  shows "(int x, int y) \<in> glyph_pixels (8 * c) (16 * r) ch \<longleftrightarrow> x div 8 = c \<and> y div 16 = r \<and> bit (FONTS ! ch ! (y mod 16)) (7 - x mod 8)"
proof
  assume "(int x, int y) \<in> glyph_pixels (8 * c) (16 * r) ch"
  then obtain dx dy where d: "x = 8 * c + dx" "y = 16 * r + dy" "dx < 8" "dy < 16" "bit (FONTS ! ch ! dy) (7 - dx)"
    by (auto simp: glyph_pixels_def simp flip: of_nat_add of_nat_mult)
  then show "x div 8 = c \<and> y div 16 = r \<and> bit (FONTS ! ch ! (y mod 16)) (7 - x mod 8)" by simp
next
  assume a: "x div 8 = c \<and> y div 16 = r \<and> bit (FONTS ! ch ! (y mod 16)) (7 - x mod 8)"
  then have "8 * c + x mod 8 = x" "16 * r + y mod 16 = y" by auto
  then show "(int x, int y) \<in> glyph_pixels (8 * c) (16 * r) ch" using a
    unfolding glyph_pixels_def by (intro CollectI exI [of _ "x mod 8"] exI [of _ "y mod 16"]) (simp del: of_nat_add of_nat_mult)
qed

lemma write_cell:
  assumes wf: "con_wf con fb"
    and con': "con' = con\<lparr>con_buffer := (con_buffer con)[cursor_row con := (con_buffer con ! cursor_row con)[cursor_col con := ch]],
      cursor_col := Suc (cursor_col con)\<rparr>"
  shows "\<exists>fb'. write_ascii fb_write fb (8 * cursor_col con) (16 * cursor_row con) (unat ch) (fg_color con) = Inr fb'
    \<and> con_grid con' fb' \<and> renders con' fb' \<and> fb_conf fb' = fb_conf fb"
proof -
  let ?r = "cursor_row con" and ?c = "cursor_col con"
  have g: "con_grid con fb" and rn: "renders con fb" and c: "?c < n_cols con" using wf by (auto simp: con_wf_def)
  have f: "fb_wf fb" "8 * n_cols con \<le> horizontal_resolution (fb_conf fb)" "16 * n_rows con \<le> vertical_resolution (fb_conf fb)"
    "?r < n_rows con" "length (con_buffer con) = n_rows con" "length (con_buffer con ! ?r) = n_cols con"
    "con_buffer con ! ?r ! ?c = 0"
    using g c by (auto simp: con_grid_def con_shape_def)
  have dims: "horizontal_resolution (fb_conf fb) < 2 ^ 31" "vertical_resolution (fb_conf fb) < 2 ^ 31"
    using f(1) by (auto simp: fb_wf_def Let_def)
  have "\<exists>fb'. write_ascii fb_write fb (8 * ?c) (16 * ?r) (unat ch) (fg_color con) = Inr fb'
      \<and> fbw.painted fb (glyph_pixels (8 * ?c) (16 * ?r) (unat ch)) (\<lambda>_. fg_color con) fb'"
    using f c dims unsigned_less [of ch]
    by (intro fbw.write_ascii_painted) (auto simp: fb_inside_def)
  then obtain fb' where fb': "write_ascii fb_write fb (8 * ?c) (16 * ?r) (unat ch) (fg_color con) = Inr fb'" "fb_wf fb'"
    "fb_conf fb' = fb_conf fb" and px: "\<And>q. q \<in> fb_inside fb \<Longrightarrow> fb_pixel fb' q
       = (if q \<in> glyph_pixels (8 * ?c) (16 * ?r) (unat ch) then fg_color con else fb_pixel fb q)"
    by (auto simp: fbw.painted_def)
  have "con_grid con' fb'"
    using g c fb'(2,3) con' by (auto simp: con_grid_def con_shape_def nth_list_update dest!: set_update_subset_insert [THEN subsetD])
  moreover have "renders con' fb'"
    unfolding renders_def
  proof (intro allI impI)
    fix x y
    assume "x < 8 * n_cols con'" "y < 16 * n_rows con'"
    then have xy: "x < 8 * n_cols con" "y < 16 * n_rows con" using con' by auto
    then have i: "(int x, int y) \<in> fb_inside fb" using f by (simp add: in_fb_inside)
    have old: "fb_pixel fb (int x, int y) = render con x y" using rn xy by (simp add: renders_def)
    have cell: "con_buffer con' ! (y div 16) ! (x div 8)
        = (if x div 8 = ?c \<and> y div 16 = ?r then ch else con_buffer con ! (y div 16) ! (x div 8))"
      using f(4-6) c con' by (auto simp: nth_list_update)
    show "fb_pixel fb' (int x, int y) = render con' x y"
      unfolding px [OF i] cell_pixels [OF xy(1)] old
      using cell f(7) con' by (auto simp: render_def blank_glyph)
  qed
  ultimately show ?thesis using fb'(1,3) by blast
qed

lemma put_char_spec:
  assumes wf: "con_wf con fb"
  shows "\<exists>con' fb'. put_char ch (con, fb) = Inr (con', fb') \<and> con_wf con' fb' \<and> same_console con con' \<and> fb_conf fb' = fb_conf fb
    \<and> text_of con' = text_put (n_rows con) (n_cols con) ch (text_of con)"
proof -
  have g: "con_grid con fb" "renders con fb" using wf by (auto simp: con_wf_def)
  from new_line_spec [OF g] wf obtain con1 fb1 where
    n: "(if ch = 10 then new_line (con, fb) else Inr (con, fb)) = Inr (con1, fb1)" "con_wf con1 fb1" "same_console con con1"
      "fb_conf fb1 = fb_conf fb"
      "text_of con1 = (if ch = 10 then text_newline (n_rows con) (n_cols con) (text_of con) else text_of con)"
    by (cases "ch = 10") (auto simp: same_console_def)
  let ?r = "cursor_row con1" and ?c = "cursor_col con1"
  define con2 where "con2 = con1\<lparr>con_buffer := (con_buffer con1)[?r := (con_buffer con1 ! ?r)[?c := ch]], cursor_col := Suc ?c\<rparr>"
  from write_cell [OF n(2) con2_def] obtain fb2 where
    w: "write_ascii fb_write fb1 (8 * ?c) (16 * ?r) (unat ch) (fg_color con1) = Inr fb2" "con_grid con2 fb2" "renders con2 fb2"
      "fb_conf fb2 = fb_conf fb1" by blast
  have b: "?c < n_cols con1" "?r < n_rows con1" "length (con_buffer con1) = n_rows con1" "length (con_buffer con1 ! ?r) = n_cols con1"
    "8 * n_cols con1 < 2 ^ 31" "16 * n_rows con1 < 2 ^ 31"
    using n(2) by (auto simp: con_wf_def con_grid_def con_shape_def fb_wf_def Let_def)
  have "put_char ch (con, fb) = (if Suc ?c = n_cols con1 then new_line (con2, fb2) else Inr (con2, fb2))"
    using n(1) w(1) b by (simp add: put_char_def con2_def u32_mul_def res_simps usize_bound_def Let_def)
  moreover have t2: "text_of con2 = ((con_buffer con1)[?r := (con_buffer con1 ! ?r)[?c := ch]], ?r, Suc ?c)"
    "n_rows con2 = n_rows con" "n_cols con2 = n_cols con" "same_console con con2"
    using n(3) by (auto simp: con2_def text_of_def same_console_def)
  have t1: "text_put (n_rows con) (n_cols con) ch (text_of con)
      = (if Suc ?c = n_cols con1 then text_newline (n_rows con) (n_cols con) (text_of con2) else text_of con2)"
    unfolding text_put_def n(5) [symmetric] using t2(1) n(3) by (simp add: text_of_def Let_def same_console_def)
  show ?thesis
  proof (cases "Suc ?c = n_cols con1")
    case True
    with new_line_spec [OF w(2,3)] show ?thesis using calculation t1 t2 w(4) n(4) by (auto simp: same_console_def)
  next
    case False
    then have "con_wf con2 fb2" using w(2,3) b by (auto simp: con_wf_def con2_def)
    then show ?thesis using False calculation t1 t2 w(4) n(4) by auto
  qed
qed

section \<open>Output of strings\<close>

lemma put_chars_spec:
  "con_wf con fb \<Longrightarrow> \<exists>con' fb'. foldM put_char str (con, fb) = Inr (con', fb') \<and> con_wf con' fb' \<and> same_console con con'
    \<and> fb_conf fb' = fb_conf fb \<and> text_of con' = fold (text_put (n_rows con) (n_cols con)) str (text_of con)"
proof (induction str arbitrary: con fb)
  case Nil
  then show ?case by (simp add: same_console_def)
next
  case (Cons ch str)
  from put_char_spec [OF Cons.prems, of ch] obtain con1 fb1 where
    p: "put_char ch (con, fb) = Inr (con1, fb1)" "con_wf con1 fb1" "same_console con con1" "fb_conf fb1 = fb_conf fb"
      "text_of con1 = text_put (n_rows con) (n_cols con) ch (text_of con)" by blast
  from Cons.IH [OF p(2)] show ?case using p by (auto simp: same_console_def)
qed

lemma put_string_spec:
  assumes w: "window_wf fmt win" and con: "con_wf con (back_buf (win_buffer win))"
  shows "\<exists>con' win'. put_string str (con, win) = Inr (con', win') \<and> window_wf fmt win' \<and> con_wf con' (back_buf (win_buffer win'))
    \<and> same_console con con' \<and> text_of con' = fold (text_put (n_rows con) (n_cols con)) str (text_of con)
    \<and> renders con' (fore (win_buffer win')) \<and> is_updated (win_buffer win')"
proof -
  let ?c = "win_buffer win"
  from put_chars_spec [OF con] obtain con' b where
    p: "foldM put_char str (con, back_buf ?c) = Inr (con', b)" "con_wf con' b" "same_console con con'"
      "fb_conf b = fb_conf (back_buf ?c)" "text_of con' = fold (text_put (n_rows con) (n_cols con)) str (text_of con)" by blast
  let ?c1 = "?c\<lparr>back_buf := b, is_updated := True\<rparr>"
  have "fb_wf b" using p(2) by (simp add: con_wf_def con_grid_def con_shape_def)
  then have "canvas_wf fmt (win_width win) (win_height win) ?c1"
    using w p(4) by (auto simp: window_wf_def canvas_wf_def fb_resolution_def)
  from canvas_flush_spec [OF this] obtain c2 where
    c2: "canvas_flush ?c1 = Inr c2" "canvas_wf fmt (win_width win) (win_height win) c2" "back_buf c2 = b"
      "fb_conf (fore c2) = fb_conf (fore ?c)" "\<forall>p \<in> fb_inside (fore ?c). fb_pixel (fore c2) p = fb_pixel b p" by auto
  have ins: "fb_inside b = fb_inside (fore ?c)"
    using w p(4) by (auto simp: window_wf_def canvas_wf_def fb_resolution_def fb_inside_def)
  have up: "is_updated c2" using c2(1) by (auto simp: canvas_flush_def)
  have "renders con' (fore c2)"
    unfolding renders_def
  proof (intro allI impI)
    fix x y
    assume xy: "x < 8 * n_cols con'" "y < 16 * n_rows con'"
    then have "(int x, int y) \<in> fb_inside b" using p(2) by (auto simp: con_wf_def con_grid_def con_shape_def in_fb_inside)
    then show "fb_pixel (fore c2) (int x, int y) = render con' x y" using c2(5) ins p(2) xy by (simp add: con_wf_def renders_def)
  qed
  moreover have "window_wf fmt (win\<lparr>win_buffer := c2\<rparr>)" using w c2(2,4) by (auto simp: window_wf_def copy_pos_ok_def)
  ultimately show ?thesis using p c2 up by (auto simp: put_string_def)
qed

lemma console_new_spec:
  assumes w: "window_wf fmt win" and d: "8 \<le> win_width win" "16 \<le> win_height win"
  shows "\<exists>con win'. console_new lid win fg bg = Inr (con, win') \<and> window_wf fmt win' \<and> con_wf con (back_buf (win_buffer win'))
    \<and> con_layer con = lid \<and> n_cols con = win_width win div 8 \<and> n_rows con = win_height win div 16
    \<and> text_of con = (replicate (win_height win div 16) (replicate (win_width win div 8) 0), 0, 0) \<and> fg_color con = fg"
proof -
  let ?b = "back_buf (win_buffer win)" and ?w = "win_width win div 8" and ?h = "win_height win div 16"
  note wD = window_wfD [OF w]
  have res: "horizontal_resolution (fb_conf ?b) = win_width win" "vertical_resolution (fb_conf ?b) = win_height win"
    using w by (auto simp: window_wf_def canvas_wf_def fb_resolution_def)
  let ?S = "\<Union>y \<in> set [0..<16 * ?h]. \<Union>x \<in> {0..<8 * ?w}. {(int x, int y)}"
  have "\<exists>b. bg_rows bg ?w [0..<16 * ?h] ?b = Inr b \<and> fbw.painted ?b ?S (\<lambda>_. bg) b"
    using res by (intro bg_rows_painted wD(2)) auto
  then obtain b where b: "bg_rows bg ?w [0..<16 * ?h] ?b = Inr b" "fbw.painted ?b ?S (\<lambda>_. bg) b" by blast
  have mul: "usize_mul 16 ?h = Inr (16 * ?h)" using wD(8) by (simp add: usize_bound_def res_simps)
  let ?con = "\<lparr>con_layer = lid, fg_color = fg, bg_color = bg, n_rows = ?h, n_cols = ?w,
        con_buffer = replicate ?h (replicate ?w 0), cursor_row = 0, cursor_col = 0\<rparr>"
  let ?win = "win\<lparr>win_buffer := (win_buffer win)\<lparr>back_buf := b, is_updated := True\<rparr>\<rparr>"
  have n: "console_new lid win fg bg = Inr (?con, ?win)"
    using b(1) mul by (simp add: console_new_def write_with_def CHAR_W_def CHAR_H_def Let_def)
  have px: "fb_pixel b (int x, int y) = bg" if "x < 8 * ?w" "y < 16 * ?h" for x y
  proof -
    have "(int x, int y) \<in> fb_inside ?b" "(int x, int y) \<in> ?S" using that res by (auto simp: in_fb_inside)
    then show ?thesis using b(2) unfolding fbw.painted_def by auto
  qed
  have "renders ?con b"
    unfolding renders_def using px
    by (auto simp: render_def less_mult_imp_div_less mult.commute blank_glyph)
  then have "con_wf ?con b"
    using b(2) res d by (auto simp: con_wf_def con_grid_def con_shape_def fbw.painted_def)
  moreover have "window_wf fmt ?win"
    using w b(2) by (auto simp: window_wf_def canvas_wf_def fbw.painted_def fb_resolution_def copy_pos_ok_def)
  ultimately show ?thesis using n by (auto simp: text_of_def)
qed

lemma init_console_spec:
  assumes l: "lwm_wf l" and d: "8 \<le> fst (fb_resolution (lwm_buffer l))" "16 \<le> snd (fb_resolution (lwm_buffer l))"
  shows "\<exists>con l'. init_console (Some (lwm_format l)) l fg bg = Inr (con, l') \<and> lwm_wf l' \<and> con_layer con < length (layers l')
    \<and> con_wf con (back_buf (win_buffer (layers l' ! con_layer con))) \<and> layer_stack l' = con_layer con # layer_stack l"
proof -
  obtain w h where wh: "fb_resolution (lwm_buffer l) = (w, h)" by fastforce
  have "w < 2 ^ 31" "h < 2 ^ 31" using l wh by (auto simp: lwm_wf_def fb_wf_def Let_def fb_resolution_def)
  from window_new_wf [OF this, of "lwm_format l"] obtain win where
    win: "window_new (Some (lwm_format l)) w h = Inr win" "window_wf (lwm_format l) win" "win_width win = w" "win_height win = h" by blast
  let ?n = "length (layers l)"
  let ?l1 = "l\<lparr>layers := layers l @ [win]\<rparr>"
  let ?l2 = "?l1\<lparr>layer_stack := ?n # layer_stack l\<rparr>"
  have n: "?n \<notin> set (layer_stack l)" using l by (auto simp: lwm_wf_def)
  have l1: "new_layer l win = Inr (?n, ?l1)" by (simp add: new_layer_def res_simps)
  have rest: "filter (\<lambda>i. i \<noteq> ?n) (layer_stack l) = layer_stack l" using n by (intro filter_True) auto
  have u: "up_down ?l1 ?n 0 = Inr ?l2" using up_down_spec [of ?l1 ?n 0] rest by (simp add: Let_def)
  have wf2: "lwm_wf ?l2" using l n win(2) by (auto simp: lwm_wf_def lwm_format_def less_Suc_eq)
  from console_new_spec [OF win(2), of ?n fg bg] d wh win(3,4) obtain con win' where
    c: "console_new ?n win fg bg = Inr (con, win')" "window_wf (lwm_format l) win'" "con_wf con (back_buf (win_buffer win'))"
      "con_layer con = ?n" by auto
  have fmt: "lwm_format ?l2 = lwm_format l" by (simp add: lwm_format_def)
  have "init_console (Some (lwm_format l)) l fg bg = Inr (con, ?l2\<lparr>layers := layers l @ [win']\<rparr>)"
    using wh win(1) l1 u c(1) by (simp add: init_console_def res_simps)
  moreover have "lwm_wf (?l2\<lparr>layers := layers l @ [win']\<rparr>)"
    using lwm_wf_window [OF wf2, of win' ?n] c(2) fmt by simp
  ultimately show ?thesis using c(3,4) by (intro exI conjI) (assumption | simp)+
qed

section \<open>Properties\<close>

text \<open>
  (C29) The console implements the text screen: printing a string never panics, the characters and the cursor
  move as the abstract screen says, with line wrap and scrolling, and the window then shows exactly the
  rendering of the text.
\<close>

theorem console_refines_text:
  assumes "window_wf fmt win" "con_wf con (back_buf (win_buffer win))"
  shows "\<exists>con' win'. put_string str (con, win) = Inr (con', win')
    \<and> text_of con' = fold (text_put (n_rows con) (n_cols con)) str (text_of con)
    \<and> renders con' (fore (win_buffer win'))
    \<and> window_wf fmt win' \<and> con_wf con' (back_buf (win_buffer win'))"
  using put_string_spec [OF assms] by blast

text \<open>
  A newline does not end the step: after moving to the next line \<^verbatim>\<open>put_string\<close> draws the glyph of the control
  character there and moves on, so the text of the new line starts in the second column.
\<close>

theorem newline_draws_glyph:
  assumes "con_wf con fb" "Suc (cursor_row con) < n_rows con" "1 < n_cols con"
  shows "\<exists>con' fb'. put_char 10 (con, fb) = Inr (con', fb') \<and> cursor_row con' = Suc (cursor_row con) \<and> cursor_col con' = 1
    \<and> con_buffer con' ! cursor_row con' ! 0 = 10 \<and> fb_pixel fb' (0, int (16 * Suc (cursor_row con) + 2)) = fg_color con"
proof -
  let ?r = "Suc (cursor_row con)"
  from put_char_spec [OF assms(1), of 10] obtain con' fb' where
    p: "put_char 10 (con, fb) = Inr (con', fb')" "con_wf con' fb'" "same_console con con'"
      "text_of con' = text_put (n_rows con) (n_cols con) 10 (text_of con)" by blast
  have len: "length (con_buffer con) = n_rows con" "\<forall>row \<in> set (con_buffer con). length row = n_cols con"
    using assms(1) by (auto simp: con_wf_def con_grid_def con_shape_def)
  have t: "cursor_row con' = ?r" "cursor_col con' = 1" "con_buffer con' = (con_buffer con)[?r := (con_buffer con ! ?r)[0 := 10]]"
    using p(4) assms(2,3) by (auto simp: text_put_def text_of_def Let_def)
  have c: "con_buffer con' ! ?r ! 0 = 10" using t(3) len assms(2,3) by simp
  have "FONTS ! 10 = fonts_08 ! 2" by (simp add: FONTS_def nth_append fonts_00_shape fonts_08_shape)
  then have b: "bit (FONTS ! 10 ! 2) 7" by (simp add: fonts_08_def)
  have y: "(16 * ?r + 2) div 16 = ?r" "(16 * ?r + 2) mod 16 = 2" by (simp_all add: div_add1_eq)
  have "fb_pixel fb' (int 0, int (16 * ?r + 2)) = render con' 0 (16 * ?r + 2)"
  proof -
    have "0 < 8 * n_cols con'" "16 * ?r + 2 < 16 * n_rows con'" using p(3) assms(2,3) by (simp_all add: same_console_def)
    then show ?thesis using p(2) unfolding con_wf_def renders_def by blast
  qed
  also have "\<dots> = fg_color con" using b c y p(3) unfolding render_def same_console_def by simp
  finally show ?thesis using p(1) t c by auto
qed

text \<open>A console of two rows and two columns.\<close>

lemma small_console:
  "\<exists>con win. window_wf PixelRGBResv8BitPerColor win \<and> con_wf con (back_buf (win_buffer win)) \<and> n_rows con = 2 \<and> n_cols con = 2
     \<and> text_of con = ([[0, 0], [0, 0]], 0, 0) \<and> fg_color con = (255, 255, 255)"
proof -
  have "(16::nat) < 2 ^ 31" "(32::nat) < 2 ^ 31" by simp_all
  from window_new_wf [OF this, of PixelRGBResv8BitPerColor] obtain win where
    win: "window_wf PixelRGBResv8BitPerColor win" "win_width win = 16" "win_height win = 32" by blast
  from console_new_spec [OF win(1), of 0 "(255, 255, 255)" "(0, 0, 0)"] win(2,3) show ?thesis
    by (auto simp: numeral_2_eq_2)
qed

theorem console_refines_text_witness:
  "\<exists>con win con' win'. put_string [0x41, 0x42, 0x43] (con, win) = Inr (con', win')
     \<and> text_of con' = ([[0x41, 0x42], [0x43, 0]], 1, 1) \<and> renders con' (fore (win_buffer win'))"
proof -
  from small_console obtain con win where c: "window_wf PixelRGBResv8BitPerColor win" "con_wf con (back_buf (win_buffer win))"
    "n_rows con = 2" "n_cols con = 2" "text_of con = ([[0, 0], [0, 0]], 0, 0)" by blast
  have "fold (text_put 2 2) [0x41, 0x42, 0x43] ([[0, 0], [0, 0]], 0, 0) = ([[0x41, 0x42], [0x43, 0]], 1, 1)"
    by (simp add: text_put_def Let_def)
  then show ?thesis using console_refines_text [OF c(1,2), of "[0x41, 0x42, 0x43]"] c(3-5) by auto
qed

theorem newline_draws_glyph_witness:
  "\<exists>con fb con' fb'. text_of con = ([[0, 0], [0, 0]], 0, 0) \<and> put_char 10 (con, fb) = Inr (con', fb') \<and> cursor_col con' = 1
     \<and> con_buffer con' ! 1 ! 0 = 10 \<and> fb_pixel fb' (0, 18) = (255, 255, 255)"
proof -
  from small_console obtain con and win :: window where c: "con_wf con (back_buf (win_buffer win))"
    "n_rows con = 2" "n_cols con = 2" "text_of con = ([[0, 0], [0, 0]], 0, 0)" "fg_color con = (255, 255, 255)" by blast
  have r: "cursor_row con = 0" using c(4) by (simp add: text_of_def)
  show ?thesis using newline_draws_glyph [OF c(1)] c(2-5) r by fastforce
qed

end
