(* ===== verification/Desktop.thy ===== *)
theory Desktop
  imports Console
begin

text \<open>
  What the kernel draws: the mouse cursor (\<^verbatim>\<open>kernel/src/mouse.rs\<close>), window frames and the start of the desktop
  (\<^verbatim>\<open>draw_window\<close>, \<^verbatim>\<open>initialize_windows\<close>, \<^verbatim>\<open>initialize_winmgr\<close>), the handler of mouse reports and the drawing part of
  the main loop (\<^verbatim>\<open>kernel/src/main.rs\<close>), and the second task (\<^verbatim>\<open>kernel/src/taskB.rs\<close>).
\<close>

section \<open>The mouse cursor\<close>

definition MOUSE_CURSOR_DIMENSION :: "nat \<times> nat" where
  "MOUSE_CURSOR_DIMENSION = (15, 24)"

definition MOUSE_CURSOR_SHAPE :: "string list" where
  "MOUSE_CURSOR_SHAPE = [
    ''@              '',
    ''@@             '',
    ''@.@            '',
    ''@..@           '',
    ''@...@          '',
    ''@....@         '',
    ''@.....@        '',
    ''@......@       '',
    ''@.......@      '',
    ''@........@     '',
    ''@.........@    '',
    ''@..........@   '',
    ''@...........@  '',
    ''@............@ '',
    ''@......@@@@@@@@'',
    ''@......@       '',
    ''@....@@.@      '',
    ''@...@ @.@      '',
    ''@..@   @.@     '',
    ''@.@    @.@     '',
    ''@@      @.@    '',
    ''@       @.@    '',
    ''@        @.@   '',
    ''         @@@   '']"

definition cursor_color :: "char \<Rightarrow> pixel_color" where
  "cursor_color ch = (if ch = CHR ''.'' then (255, 255, 255) else if ch = CHR ''@'' then (0, 0, 0) else (1, 1, 1))"

definition draw_cursor :: "('g \<Rightarrow> vec2 \<Rightarrow> pixel_color \<Rightarrow> 'g res) \<Rightarrow> 'g \<Rightarrow> 'g res" where
  "draw_cursor write g =
     foldM (\<lambda>dy g. rbind (index MOUSE_CURSOR_SHAPE dy) (\<lambda>row.
       foldM (\<lambda>dx g. rbind (index row dx) (\<lambda>ch. write g (as_i32 dx, as_i32 dy) (cursor_color ch)))
         [0..<fst MOUSE_CURSOR_DIMENSION] g)) [0..<snd MOUSE_CURSOR_DIMENSION] g"

section \<open>Window frames\<close>

definition u32_sub :: "nat \<Rightarrow> nat \<Rightarrow> nat res" where
  "u32_sub a b = (if b \<le> a then Inr (a - b) else Inl ArithOverflow)"

definition draw_window :: "frame_buffer \<Rightarrow> u8 list \<Rightarrow> frame_buffer res" where
  "draw_window fb title = (case fb_resolution fb of (w, h) \<Rightarrow>
     rbind (fill_rect fb_write fb (0, 0) (w, 1) (0xc6, 0xc6, 0xc6)) (\<lambda>fb.
     rbind (u32_sub w 2) (\<lambda>w2.
     rbind (fill_rect fb_write fb (1, 1) (w2, 1) (0xff, 0xff, 0xff)) (\<lambda>fb.
     rbind (fill_rect fb_write fb (0, 0) (1, h) (0xc6, 0xc6, 0xc6)) (\<lambda>fb.
     rbind (u32_sub h 2) (\<lambda>h2.
     rbind (fill_rect fb_write fb (1, 1) (1, h2) (0xff, 0xff, 0xff)) (\<lambda>fb.
     rbind (i32_sub (as_i32 w) 2) (\<lambda>x2.
     rbind (fill_rect fb_write fb (x2, 1) (1, h2) (0x84, 0x84, 0x84)) (\<lambda>fb.
     rbind (i32_sub (as_i32 w) 1) (\<lambda>x1.
     rbind (fill_rect fb_write fb (x1, 0) (1, h) (0x00, 0x00, 0x00)) (\<lambda>fb.
     rbind (u32_sub w 4) (\<lambda>w4. rbind (u32_sub h 4) (\<lambda>h4.
     rbind (fill_rect fb_write fb (2, 2) (w4, h4) (0xc6, 0xc6, 0xc6)) (\<lambda>fb.
     rbind (u32_sub w 6) (\<lambda>w6.
     rbind (fill_rect fb_write fb (3, 3) (w6, 18) (0x00, 0x00, 0x84)) (\<lambda>fb.
     rbind (i32_sub (as_i32 h) 2) (\<lambda>y2.
     rbind (fill_rect fb_write fb (1, y2) (w2, 1) (0x84, 0x84, 0x84)) (\<lambda>fb.
     rbind (i32_sub (as_i32 h) 1) (\<lambda>y1.
     rbind (fill_rect fb_write fb (0, y1) (w, 1) (0x00, 0x00, 0x00)) (\<lambda>fb.
     write_string fb_write fb 24 4 title (0xff, 0xff, 0xff)))))))))))))))))))))"

definition as_bytes :: "string \<Rightarrow> u8 list" where
  "as_bytes s = map of_char s"

section \<open>The desktop\<close>

text \<open>\<^verbatim>\<open>initialize_winmgr\<close>: the pixel format of the screen becomes the default format, the first component.\<close>

definition initialize_winmgr :: "frame_buffer_raw \<Rightarrow> (pixel_format option \<times> layered_window_manager) res" where
  "initialize_winmgr raw =
     rbind (fb_from_raw raw) (\<lambda>fb.
     let dflt = Some (pixel_format (fb_conf fb)) in rbind (lwm_new dflt fb) (\<lambda>m. Inr (dflt, m)))"

definition mouse_window :: "pixel_format option \<Rightarrow> window res" where
  "mouse_window dflt =
     rbind (window_new dflt 15 24) (\<lambda>w.
     let w = set_transparent_color w (Some (1, 1, 1)) in
     rbind (write_with (win_buffer w) (draw_cursor fb_write)) (\<lambda>c.
     rbind (canvas_flush c) (\<lambda>c. Inr (w\<lparr>win_buffer := c\<rparr>))))"

definition test_window :: "pixel_format option \<Rightarrow> window res" where
  "test_window dflt =
     rbind (window_new dflt 160 68) (\<lambda>w.
     let w = win_move_to w (100, 200) in
     rbind (write_with (win_buffer w) (\<lambda>back.
       rbind (write_string fb_write back 24 28 (as_bytes ''Welcome to'') (0, 0, 0)) (\<lambda>back.
       rbind (write_string fb_write back 24 44 (as_bytes ''Mikanami world!'') (0, 0, 0)) (\<lambda>back.
       draw_window back (as_bytes ''test window''))))) (\<lambda>c.
     rbind (canvas_flush c) (\<lambda>c. Inr (w\<lparr>win_buffer := c\<rparr>))))"

definition initialize_windows ::
    "pixel_format option \<Rightarrow> layered_window_manager \<Rightarrow> (nat \<times> nat \<times> layered_window_manager) res" where
  "initialize_windows dflt m =
     rbind (mouse_window dflt) (\<lambda>mw.
     rbind (new_layer m mw) (\<lambda>(mouse_hndl, m).
     rbind (test_window dflt) (\<lambda>tw.
     rbind (new_layer m tw) (\<lambda>(test_hndl, m).
     rbind (up_down m test_hndl 1) (\<lambda>m.
     rbind (up_down m mouse_hndl 2) (\<lambda>m.
     Inr (mouse_hndl, test_hndl, m)))))))"

text \<open>The handler of mouse reports that \<^verbatim>\<open>KernelMain2\<close> installs; \<open>dx\<close> and \<open>dy\<close> are the \<^verbatim>\<open>i8\<close> values of the report.\<close>

definition on_mouse_report :: "nat \<Rightarrow> int \<times> int \<Rightarrow> layered_window_manager \<Rightarrow> layered_window_manager res" where
  "on_mouse_report hndl d m = (case fb_resolution (lwm_buffer m) of (w, h) \<Rightarrow>
     rbind (index (layers m) hndl) (\<lambda>win.
     rbind (vec_add (win_pos win) d) (\<lambda>p.
     let new_pos = vec_clamp p (0, 0) (as_i32 w, as_i32 h) in
     lwm_draw (m\<lparr>layers := (layers m)[hndl := win_move_to win new_pos]\<rparr>))))"

text \<open>The drawing part of the main loop: the tick is written to the back buffer of the test window, and the layers are drawn.\<close>

function dec_string :: "nat \<Rightarrow> u8 list" where
  "dec_string n = (if n < 10 then [of_nat (48 + n)] else dec_string (n div 10) @ [of_nat (48 + n mod 10)])"
  by pat_completeness auto
termination by (relation "measure id") auto

declare dec_string.simps [simp del]

definition main_loop_draw :: "nat \<Rightarrow> nat \<Rightarrow> layered_window_manager \<Rightarrow> layered_window_manager res" where
  "main_loop_draw hndl tick m =
     rbind (on_canvas m hndl (\<lambda>c. write_with c (\<lambda>back.
       rbind (u32_mul 8 10) (\<lambda>w.
       rbind (fill_rect fb_write back (24, 28) (w, 16) (0xc6, 0xc6, 0xc6)) (\<lambda>back.
       write_string fb_write back 24 28 (dec_string tick) (0, 0, 0)))))) (\<lambda>m. lwm_draw m)"

section \<open>Task B\<close>

definition initialize_taskB_window ::
    "pixel_format option \<Rightarrow> layered_window_manager \<Rightarrow> (nat \<times> layered_window_manager) res" where
  "initialize_taskB_window dflt m =
     rbind (window_new dflt 160 52) (\<lambda>w.
     let w = win_move_to w (100, 200) in
     rbind (write_with (win_buffer w) (\<lambda>back. draw_window back (as_bytes ''taskB!''))) (\<lambda>c.
     rbind (canvas_flush c) (\<lambda>c.
     rbind (new_layer m (w\<lparr>win_buffer := c\<rparr>)) (\<lambda>(h, m).
     rbind (up_down m h 2) (\<lambda>m. Inr (h, m))))))"

definition pad_dec :: "nat \<Rightarrow> nat \<Rightarrow> u8 list" where
  "pad_dec k n = replicate (k - length (dec_string n)) 48 @ dec_string n"

text \<open>One round of the loop of \<^verbatim>\<open>taskB\<close>; the counter is an \<^verbatim>\<open>i32\<close>.\<close>

definition taskB_round :: "nat \<Rightarrow> int \<times> layered_window_manager \<Rightarrow> (int \<times> layered_window_manager) res" where
  "taskB_round hndl s = (case s of (cnt, m) \<Rightarrow>
     rbind (i32_add cnt 1) (\<lambda>cnt.
     let a = pad_dec 10 (nat cnt) in
     rbind (on_canvas m hndl (\<lambda>c.
       rbind (write_with c (\<lambda>back.
         rbind (draw_window back (as_bytes ''taskB!'')) (\<lambda>back.
         rbind (fill_rect fb_write back (24, 28) (80, 16) (0xc6, 0xc6, 0xc6)) (\<lambda>back.
         write_string fb_write back 24 28 a (0, 0, 0))))) (\<lambda>c.
       canvas_flush c))) (\<lambda>m. Inr (cnt, m))))"

section \<open>Shapes\<close>

definition box :: "int \<Rightarrow> int \<Rightarrow> nat \<Rightarrow> nat \<Rightarrow> vec2 set" where
  "box x y w h = {x..<x + int w} \<times> {y..<y + int h}"

lemma fb_fill_painted:
  assumes wf: "fb_wf fb" and r: "0 \<le> x" "x + int w \<le> int (horizontal_resolution (fb_conf fb))" "0 \<le> y"
    "y + int h \<le> int (vertical_resolution (fb_conf fb))"
  shows "\<exists>fb'. fill_rect fb_write fb (x, y) (w, h) c = Inr fb' \<and> fbw.painted fb (box x y w h) (\<lambda>_. c) fb'"
proof -
  have d: "int (horizontal_resolution (fb_conf fb)) < 2 ^ 31" "int (vertical_resolution (fb_conf fb)) < 2 ^ 31"
    using wf by (auto simp: fb_wf_def Let_def)
  have "\<exists>fb'. fill_rect fb_write fb (x, y) (w, h) c = Inr fb'
      \<and> fbw.painted fb ({fst (x, y)..<fst (x, y) + int w} \<times> {snd (x, y)..<snd (x, y) + int h}) (\<lambda>_. c) fb'"
  proof (rule fbw.fill_rect_painted [OF wf])
    show "w < 2 ^ 31" using r d by auto
    show "h < 2 ^ 31" using r d by auto
    show "{fst (x, y)..<fst (x, y) + int w} \<times> {snd (x, y)..<snd (x, y) + int h} \<subseteq> fb_inside fb"
      unfolding fb_inside_def using r by (intro Sigma_mono) auto
    show "i32_ok a \<and> i32_ok b" if "(a, b) \<in> fb_inside fb" for a b
      using that d by (auto simp: in_fb_inside i32_ok_def)
  qed
  then show ?thesis by (simp add: box_def)
qed

lemma fb_fill_step:
  assumes p: "fbw.paints g ops fb" and r: "0 \<le> x" "x + int w \<le> int (horizontal_resolution (fb_conf g))" "0 \<le> y"
    "y + int h \<le> int (vertical_resolution (fb_conf g))"
  shows "\<exists>fb'. fill_rect fb_write fb (x, y) (w, h) c = Inr fb' \<and> fbw.paints g (ops @ [(box x y w h, c)]) fb'"
proof -
  have "\<exists>fb'. fill_rect fb_write fb (x, y) (w, h) c = Inr fb' \<and> fbw.painted fb (box x y w h) (\<lambda>_. c) fb'"
    using p r by (intro fb_fill_painted) (auto simp: fbw.paints_def)
  then show ?thesis using fbw.paints_step [OF p] by blast
qed

lemma fb_string_step:
  assumes p: "fbw.paints g ops fb" and r: "x + 8 * length str \<le> horizontal_resolution (fb_conf g)" "y + 16 \<le> vertical_resolution (fb_conf g)"
  shows "\<exists>fb'. write_string fb_write fb x y str c = Inr fb' \<and> fbw.paints g (ops @ [(string_pixels x y str, c)]) fb'"
proof -
  have f: "fb_wf fb" "fb_conf fb = fb_conf g" using p by (auto simp: fbw.paints_def)
  have "{int x..<int x + 8 * int (length str)} \<times> {int y..<int y + 16} \<subseteq> fb_inside fb"
    using r f(2) unfolding fb_inside_def by (intro Sigma_mono) auto
  then have "\<exists>fb'. write_string fb_write fb x y str c = Inr fb' \<and> fbw.painted fb (string_pixels x y str) (\<lambda>_. c) fb'"
    using r f by (intro fbw.write_string_painted) (auto simp: fb_wf_def Let_def)
  then show ?thesis using fbw.paints_step [OF p] by blast
qed

text \<open>The picture of a window frame of size \<open>w\<close> by \<open>h\<close>, the later shapes over the earlier ones.\<close>

definition frame_shapes :: "nat \<Rightarrow> nat \<Rightarrow> u8 list \<Rightarrow> (vec2 set \<times> pixel_color) list" where
  "frame_shapes w h title =
    [(box 0 0 w 1, (0xc6, 0xc6, 0xc6)), (box 1 1 (w - 2) 1, (0xff, 0xff, 0xff)),
     (box 0 0 1 h, (0xc6, 0xc6, 0xc6)), (box 1 1 1 (h - 2), (0xff, 0xff, 0xff)),
     (box (int w - 2) 1 1 (h - 2), (0x84, 0x84, 0x84)), (box (int w - 1) 0 1 h, (0, 0, 0)),
     (box 2 2 (w - 4) (h - 4), (0xc6, 0xc6, 0xc6)), (box 3 3 (w - 6) 18, (0, 0, 0x84)),
     (box 1 (int h - 2) (w - 2) 1, (0x84, 0x84, 0x84)), (box 0 (int h - 1) w 1, (0, 0, 0)),
     (string_pixels 24 4 title, (0xff, 0xff, 0xff))]"

lemma draw_window_paints:
  assumes p: "fbw.paints g ops fb" and r: "fb_resolution g = (w, h)" and t: "24 + 8 * length title \<le> w" "21 \<le> h"
  shows "\<exists>fb'. draw_window fb title = Inr fb' \<and> fbw.paints g (ops @ frame_shapes w h title) fb'"
proof -
  let ?S = "frame_shapes w h title"
  have fb: "fb_wf fb" "fb_resolution fb = (w, h)" using p r by (auto simp: fbw.paints_def fb_resolution_def)
  have d: "w = horizontal_resolution (fb_conf g)" "h = vertical_resolution (fb_conf g)" "24 \<le> w" "21 \<le> h"
    using r t by (auto simp: fb_resolution_def)
  have small: "w < 2 ^ 31" "h < 2 ^ 31" using fb by (auto simp: fb_wf_def Let_def fb_resolution_def)
  obtain f1 where f1: "fill_rect fb_write fb (0, 0) (w, 1) (0xc6, 0xc6, 0xc6) = Inr f1" "fbw.paints g (ops @ take 1 ?S) f1"
    using fb_fill_step [OF p, of "0" "w" "0" "1" "(0xc6, 0xc6, 0xc6)"] d by (auto simp: frame_shapes_def)
  obtain f2 where f2: "fill_rect fb_write f1 (1, 1) (w - 2, 1) (0xff, 0xff, 0xff) = Inr f2" "fbw.paints g (ops @ take 2 ?S) f2"
    using fb_fill_step [OF f1(2), of "1" "w - 2" "1" "1" "(0xff, 0xff, 0xff)"] d by (auto simp: frame_shapes_def)
  obtain f3 where f3: "fill_rect fb_write f2 (0, 0) (1, h) (0xc6, 0xc6, 0xc6) = Inr f3" "fbw.paints g (ops @ take 3 ?S) f3"
    using fb_fill_step [OF f2(2), of "0" "1" "0" "h" "(0xc6, 0xc6, 0xc6)"] d by (auto simp: frame_shapes_def)
  obtain f4 where f4: "fill_rect fb_write f3 (1, 1) (1, h - 2) (0xff, 0xff, 0xff) = Inr f4" "fbw.paints g (ops @ take 4 ?S) f4"
    using fb_fill_step [OF f3(2), of "1" "1" "1" "h - 2" "(0xff, 0xff, 0xff)"] d by (auto simp: frame_shapes_def)
  obtain f5 where f5: "fill_rect fb_write f4 (int w - 2, 1) (1, h - 2) (0x84, 0x84, 0x84) = Inr f5" "fbw.paints g (ops @ take 5 ?S) f5"
    using fb_fill_step [OF f4(2), of "int w - 2" "1" "1" "h - 2" "(0x84, 0x84, 0x84)"] d by (auto simp: frame_shapes_def)
  obtain f6 where f6: "fill_rect fb_write f5 (int w - 1, 0) (1, h) (0, 0, 0) = Inr f6" "fbw.paints g (ops @ take 6 ?S) f6"
    using fb_fill_step [OF f5(2), of "int w - 1" "1" "0" "h" "(0, 0, 0)"] d by (auto simp: frame_shapes_def)
  obtain f7 where f7: "fill_rect fb_write f6 (2, 2) (w - 4, h - 4) (0xc6, 0xc6, 0xc6) = Inr f7" "fbw.paints g (ops @ take 7 ?S) f7"
    using fb_fill_step [OF f6(2), of "2" "w - 4" "2" "h - 4" "(0xc6, 0xc6, 0xc6)"] d by (auto simp: frame_shapes_def)
  obtain f8 where f8: "fill_rect fb_write f7 (3, 3) (w - 6, 18) (0, 0, 0x84) = Inr f8" "fbw.paints g (ops @ take 8 ?S) f8"
    using fb_fill_step [OF f7(2), of "3" "w - 6" "3" "18" "(0, 0, 0x84)"] d by (auto simp: frame_shapes_def)
  obtain f9 where f9: "fill_rect fb_write f8 (1, int h - 2) (w - 2, 1) (0x84, 0x84, 0x84) = Inr f9" "fbw.paints g (ops @ take 9 ?S) f9"
    using fb_fill_step [OF f8(2), of "1" "w - 2" "int h - 2" "1" "(0x84, 0x84, 0x84)"] d by (auto simp: frame_shapes_def)
  obtain f10 where f10: "fill_rect fb_write f9 (0, int h - 1) (w, 1) (0, 0, 0) = Inr f10" "fbw.paints g (ops @ take 10 ?S) f10"
    using fb_fill_step [OF f9(2), of "0" "w" "int h - 1" "1" "(0, 0, 0)"] d by (auto simp: frame_shapes_def)
  obtain f11 where f11: "write_string fb_write f10 24 4 title (0xff, 0xff, 0xff) = Inr f11" "fbw.paints g (ops @ take 11 ?S) f11"
    using fb_string_step [OF f10(2), of 24 title 4 "(0xff, 0xff, 0xff)"] t d by (auto simp: frame_shapes_def)
  have "draw_window fb title = Inr f11"
    using fb(2) t d small f1(1) f2(1) f3(1) f4(1) f5(1) f6(1) f7(1) f8(1) f9(1) f10(1) f11(1)
    by (simp add: draw_window_def u32_sub_def i32_sub_def res_simps i32_ok_def)
  moreover have "take 11 ?S = ?S" by (simp add: frame_shapes_def)
  ultimately show ?thesis using f11(2) by auto
qed

lemma cursor_rows: "length MOUSE_CURSOR_SHAPE = 24" "list_all (\<lambda>r. length r = 15) MOUSE_CURSOR_SHAPE"
  by (simp_all add: MOUSE_CURSOR_SHAPE_def)

definition cursor_picture :: "vec2 \<Rightarrow> pixel_color" where
  "cursor_picture p = cursor_color (MOUSE_CURSOR_SHAPE ! nat (snd p) ! nat (fst p))"

lemma draw_cursor_painted:
  assumes wf: "fb_wf fb" and d: "15 \<le> horizontal_resolution (fb_conf fb)" "24 \<le> vertical_resolution (fb_conf fb)"
  shows "\<exists>fb'. draw_cursor fb_write fb = Inr fb' \<and> fbw.painted fb (box 0 0 15 24) cursor_picture fb'"
proof -
  have rows: "length (MOUSE_CURSOR_SHAPE ! dy) = 15" if "dy < 24" for dy
    using cursor_rows that by (simp add: list_all_length)
  have row: "\<exists>t'. rbind (index MOUSE_CURSOR_SHAPE dy) (\<lambda>row.
       foldM (\<lambda>dx g. rbind (index row dx) (\<lambda>ch. fb_write g (as_i32 dx, as_i32 dy) (cursor_color ch))) [0..<15] t) = Inr t'
      \<and> fbw.painted t (\<Union>dx \<in> {0..<15}. {(int dx, int dy)}) cursor_picture t'"
    if y: "dy < 24" "fb_wf t" "fb_conf t = fb_conf fb" for dy t
  proof -
    have "\<exists>t'. foldM (\<lambda>dx g. rbind (index (MOUSE_CURSOR_SHAPE ! dy) dx) (\<lambda>ch. fb_write g (as_i32 dx, as_i32 dy) (cursor_color ch))) [0..<15] t = Inr t'
        \<and> fbw.painted t (\<Union>dx \<in> set [0..<15]. {(int dx, int dy)}) cursor_picture t'"
    proof (rule fbw.paint_loop [OF y(2)])
      fix dx t'
      assume x: "dx \<in> set [0..<15]" "fb_wf t'" "fb_conf t' = fb_conf t"
      have p: "(int dx, int dy) \<in> fb_inside t'" using x y d by (simp add: in_fb_inside)
      have "as_i32 dx = int dx" "as_i32 dy = int dy" "index (MOUSE_CURSOR_SHAPE ! dy) dx = Inr (MOUSE_CURSOR_SHAPE ! dy ! dx)"
        using x(1) y(1) rows [OF y(1)] by (auto simp: res_simps)
      then show "\<exists>t''. rbind (index (MOUSE_CURSOR_SHAPE ! dy) dx) (\<lambda>ch. fb_write t' (as_i32 dx, as_i32 dy) (cursor_color ch)) = Inr t''
          \<and> fbw.painted t' {(int dx, int dy)} cursor_picture t''"
        using fbw.put_painted [OF x(2) p, of cursor_picture] by (simp add: cursor_picture_def)
    qed
    then show ?thesis using y(1) cursor_rows(1) by (simp add: res_simps)
  qed
  have "\<exists>fb'. draw_cursor fb_write fb = Inr fb'
      \<and> fbw.painted fb (\<Union>dy \<in> set [0..<24]. \<Union>dx \<in> {0..<15}. {(int dx, int dy)}) cursor_picture fb'"
    unfolding draw_cursor_def MOUSE_CURSOR_DIMENSION_def fst_conv snd_conv
    by (rule fbw.paint_loop [OF wf], rule row) auto
  moreover have "(\<Union>dy \<in> set [0..<24]. \<Union>dx \<in> {0..<15}. {(int dx, int dy)}) = box 0 0 15 24"
  proof -
    have "(a, b) \<in> (\<Union>dy \<in> set [0..<24]. \<Union>dx \<in> {0..<15}. {(int dx, int dy)})" if "0 \<le> a" "a < 15" "0 \<le> b" "b < 24" for a b
      using that by (intro UN_I [of "nat b"] UN_I [of "nat a"]) auto
    then show ?thesis by (auto simp: box_def)
  qed
  ultimately show ?thesis by simp
qed

section \<open>Drawing into a window and showing it\<close>

lemma write_flush:
  assumes w: "window_wf fmt w" and b: "f (back_buf (win_buffer w)) = Inr b" "fb_wf b" "fb_conf b = fb_conf (back_buf (win_buffer w))"
  shows "\<exists>c0 c. write_with (win_buffer w) f = Inr c0 \<and> canvas_flush c0 = Inr c \<and> window_wf fmt (w\<lparr>win_buffer := c\<rparr>)
    \<and> back_buf c = b \<and> is_updated c \<and> (\<forall>p \<in> fb_inside b. fb_pixel (fore c) p = fb_pixel b p)"
proof -
  let ?c0 = "(win_buffer w)\<lparr>back_buf := b, is_updated := True\<rparr>"
  have "canvas_wf fmt (win_width w) (win_height w) ?c0" using w b by (auto simp: window_wf_def canvas_wf_def fb_resolution_def)
  from canvas_flush_spec [OF this] obtain c where
    c: "canvas_flush ?c0 = Inr c" "canvas_wf fmt (win_width w) (win_height w) c" "back_buf c = b"
      "fb_conf (fore c) = fb_conf (fore (win_buffer w))" "\<forall>p \<in> fb_inside (fore (win_buffer w)). fb_pixel (fore c) p = fb_pixel b p" by auto
  have "fb_inside b = fb_inside (fore (win_buffer w))"
    using w b(3) by (auto simp: window_wf_def canvas_wf_def fb_resolution_def fb_inside_def)
  moreover have "is_updated c" using c(1) by (auto simp: canvas_flush_def)
  moreover have "write_with (win_buffer w) f = Inr ?c0" using b(1) by (simp add: write_with_def)
  ultimately show ?thesis using c w by (auto simp: window_wf_def copy_pos_ok_def)
qed

lemma window_back_dims:
  assumes "window_wf fmt w"
  shows "fb_resolution (back_buf (win_buffer w)) = (win_width w, win_height w)" "fb_wf (back_buf (win_buffer w))"
    "horizontal_resolution (fb_conf (back_buf (win_buffer w))) = win_width w"
    "vertical_resolution (fb_conf (back_buf (win_buffer w))) = win_height w"
  using assms by (auto simp: window_wf_def canvas_wf_def fb_resolution_def)

lemma mouse_window_spec:
  "\<exists>w. mouse_window (Some fmt) = Inr w \<and> window_wf fmt w \<and> win_width w = 15 \<and> win_height w = 24 \<and> win_pos w = (0, 0)
     \<and> transparant_color w = Some (1, 1, 1) \<and> (\<forall>p \<in> box 0 0 15 24. fb_pixel (fore (win_buffer w)) p = cursor_picture p)"
proof -
  have "(15::nat) < 2 ^ 31" "(24::nat) < 2 ^ 31" by simp_all
  from window_new_wf [OF this, of fmt] obtain w0 where
    w0: "window_new (Some fmt) 15 24 = Inr w0" "window_wf fmt w0" "win_width w0 = 15" "win_height w0 = 24" "win_pos w0 = (0, 0)" by blast
  let ?w = "set_transparent_color w0 (Some (1, 1, 1))"
  have w: "window_wf fmt ?w" "win_width ?w = 15" "win_height ?w = 24" using w0 by (simp_all add: set_transparent_color_def window_wf_def)
  note wd = window_back_dims [OF w(1)]
  obtain b where b: "draw_cursor fb_write (back_buf (win_buffer ?w)) = Inr b"
    "fbw.painted (back_buf (win_buffer ?w)) (box 0 0 15 24) cursor_picture b"
    using draw_cursor_painted [OF wd(2)] wd(3,4) w(2,3) by auto
  have bw: "fb_wf b" "fb_conf b = fb_conf (back_buf (win_buffer ?w))" using b(2) by (auto simp: fbw.painted_def)
  from write_flush [where f = "draw_cursor fb_write", OF w(1) b(1) bw] obtain c0 c where
    c: "write_with (win_buffer ?w) (draw_cursor fb_write) = Inr c0" "canvas_flush c0 = Inr c" "window_wf fmt (?w\<lparr>win_buffer := c\<rparr>)"
      "\<forall>p \<in> fb_inside b. fb_pixel (fore c) p = fb_pixel b p" by blast
  have "box 0 0 15 24 = fb_inside (back_buf (win_buffer ?w))" using wd(3,4) w(2,3) by (simp add: box_def fb_inside_def)
  then have "\<forall>p \<in> box 0 0 15 24. fb_pixel (fore c) p = cursor_picture p"
    using c(4) b(2) fb_inside_conf [OF bw(2)] by (simp add: fbw.painted_def)
  then show ?thesis using w0 c(1-3) by (auto simp: mouse_window_def Let_def set_transparent_color_def)
qed

definition test_shapes :: "(vec2 set \<times> pixel_color) list" where
  "test_shapes = [(string_pixels 24 28 (as_bytes ''Welcome to''), (0, 0, 0)),
     (string_pixels 24 44 (as_bytes ''Mikanami world!''), (0, 0, 0))] @ frame_shapes 160 68 (as_bytes ''test window'')"

lemma test_window_spec:
  "\<exists>w b. test_window (Some fmt) = Inr w \<and> window_wf fmt w \<and> win_width w = 160 \<and> win_height w = 68 \<and> win_pos w = (100, 200)
     \<and> transparant_color w = None \<and> is_updated (win_buffer w) \<and> fb_inside b = box 0 0 160 68
     \<and> fbw.paints b test_shapes (back_buf (win_buffer w))
     \<and> (\<forall>p \<in> box 0 0 160 68. fb_pixel (fore (win_buffer w)) p = fb_pixel (back_buf (win_buffer w)) p)"
proof -
  have "(160::nat) < 2 ^ 31" "(68::nat) < 2 ^ 31" by simp_all
  from window_new_wf [OF this, of fmt] obtain w0 where
    w0: "window_new (Some fmt) 160 68 = Inr w0" "window_wf fmt w0" "win_width w0 = 160" "win_height w0 = 68" "transparant_color w0 = None" by blast
  let ?w = "win_move_to w0 (100, 200)"
  have w: "window_wf fmt ?w" "win_width ?w = 160" "win_height ?w = 68"
    using w0 window_wfD(4,5) [OF w0(2)] by (auto simp: win_move_to_def window_wf_def copy_pos_ok_def)
  let ?b = "back_buf (win_buffer ?w)"
  note wd = window_back_dims [OF w(1)]
  have p0: "fbw.paints ?b [] ?b" by (rule fbw.paints_refl [OF wd(2)])
  obtain f1 where f1: "write_string fb_write ?b 24 28 (as_bytes ''Welcome to'') (0, 0, 0) = Inr f1" "fbw.paints ?b (take 1 test_shapes) f1"
    using fb_string_step [OF p0, of 24 "as_bytes ''Welcome to''" 28 "(0, 0, 0)"] wd(3,4) w(2,3) by (auto simp: as_bytes_def test_shapes_def)
  obtain f2 where f2: "write_string fb_write f1 24 44 (as_bytes ''Mikanami world!'') (0, 0, 0) = Inr f2" "fbw.paints ?b (take 2 test_shapes) f2"
    using fb_string_step [OF f1(2), of 24 "as_bytes ''Mikanami world!''" 44 "(0, 0, 0)"] wd(3,4) w(2,3) by (auto simp: as_bytes_def test_shapes_def)
  obtain f3 where f3: "draw_window f2 (as_bytes ''test window'') = Inr f3" "fbw.paints ?b test_shapes f3"
    using draw_window_paints [OF f2(2), of 160 68 "as_bytes ''test window''"] wd(1) w(2,3) by (auto simp: as_bytes_def test_shapes_def)
  let ?f = "\<lambda>back. rbind (write_string fb_write back 24 28 (as_bytes ''Welcome to'') (0, 0, 0)) (\<lambda>back.
       rbind (write_string fb_write back 24 44 (as_bytes ''Mikanami world!'') (0, 0, 0)) (\<lambda>back. draw_window back (as_bytes ''test window'')))"
  have f: "?f ?b = Inr f3" using f1(1) f2(1) f3(1) by simp
  have bw: "fb_wf f3" "fb_conf f3 = fb_conf ?b" using f3(2) by (auto simp: fbw.paints_def)
  from write_flush [where f = ?f, OF w(1) f bw] obtain c0 c where
    c: "write_with (win_buffer ?w) ?f = Inr c0" "canvas_flush c0 = Inr c" "window_wf fmt (?w\<lparr>win_buffer := c\<rparr>)" "back_buf c = f3" "is_updated c"
      "\<forall>p \<in> fb_inside f3. fb_pixel (fore c) p = fb_pixel f3 p" by blast
  have ins: "fb_inside ?b = box 0 0 160 68" "fb_inside f3 = box 0 0 160 68"
    using wd(3,4) w(2,3) fb_inside_conf [OF bw(2)] by (simp_all add: box_def fb_inside_def)
  have "test_window (Some fmt) = Inr (?w\<lparr>win_buffer := c\<rparr>)" using w0(1) c(1,2) unfolding test_window_def Let_def by simp
  then show ?thesis using w0 w c(3-6) ins f3(2) by (intro exI [of _ "?w\<lparr>win_buffer := c\<rparr>"] exI [of _ ?b]) (simp add: win_move_to_def)
qed

section \<open>Starting the desktop\<close>

lemma new_layer_wf:
  assumes "lwm_wf m" "window_wf (lwm_format m) w"
  shows "new_layer m w = Inr (length (layers m), m\<lparr>layers := layers m @ [w]\<rparr>)" "lwm_wf (m\<lparr>layers := layers m @ [w]\<rparr>)"
  using assms by (auto simp: new_layer_def lwm_wf_def lwm_format_def less_Suc_eq res_simps)

text \<open>Putting a layer that is not on the stack at a height that is at least the height of the stack.\<close>

lemma up_down_top:
  assumes wf: "lwm_wf m" "i < length (layers m)" and i: "i \<notin> set (layer_stack m)" and h: "int (length (layer_stack m)) \<le> h"
  shows "up_down m i h = Inr (m\<lparr>layer_stack := layer_stack m @ [i]\<rparr>)" "lwm_wf (m\<lparr>layer_stack := layer_stack m @ [i]\<rparr>)"
proof -
  have "filter (\<lambda>l. l \<noteq> i) (layer_stack m) = layer_stack m" using i by (intro filter_True) auto
  then show u: "up_down m i h = Inr (m\<lparr>layer_stack := layer_stack m @ [i]\<rparr>)"
    using up_down_spec [of m i h] h by (auto simp: Let_def)
  show "lwm_wf (m\<lparr>layer_stack := layer_stack m @ [i]\<rparr>)" using up_down_wf [OF wf, of h] u by auto
qed

lemma initialize_windows_spec:
  assumes wf: "lwm_wf m" and e: "layers m = []" "layer_stack m = []"
  shows "\<exists>m'. initialize_windows (Some (lwm_format m)) m = Inr (0, 1, m') \<and> lwm_wf m' \<and> lwm_buffer m' = lwm_buffer m
    \<and> layer_stack m' = [1, 0] \<and> (\<exists>mw tw. mouse_window (Some (lwm_format m)) = Inr mw \<and> test_window (Some (lwm_format m)) = Inr tw
        \<and> layers m' = [mw, tw])"
proof -
  from mouse_window_spec [of "lwm_format m"] obtain mw where mw: "mouse_window (Some (lwm_format m)) = Inr mw" "window_wf (lwm_format m) mw" by blast
  from test_window_spec [of "lwm_format m"] obtain tw where tw: "test_window (Some (lwm_format m)) = Inr tw" "window_wf (lwm_format m) tw" by blast
  let ?m1 = "m\<lparr>layers := [mw]\<rparr>" and ?m2 = "m\<lparr>layers := [mw, tw]\<rparr>"
  have m1: "new_layer m mw = Inr (0, ?m1)" "lwm_wf ?m1" using new_layer_wf [OF wf mw(2)] e by simp_all
  have "window_wf (lwm_format ?m1) tw" using tw(2) by (simp add: lwm_format_def)
  then have m2: "new_layer ?m1 tw = Inr (1, ?m2)" "lwm_wf ?m2" using new_layer_wf [OF m1(2)] by simp_all
  let ?m3 = "?m2\<lparr>layer_stack := [1]\<rparr>"
  have m3: "up_down ?m2 1 1 = Inr ?m3" "lwm_wf ?m3" using up_down_top [OF m2(2), of 1 1] e by simp_all
  have m4: "up_down ?m3 0 2 = Inr (?m3\<lparr>layer_stack := [1, 0]\<rparr>)" "lwm_wf (?m3\<lparr>layer_stack := [1, 0]\<rparr>)"
    using up_down_top [OF m3(2), of 0 2] by simp_all
  show ?thesis using mw(1) tw(1) m1(1) m2(1) m3(1) m4 by (simp add: initialize_windows_def)
qed

section \<open>Properties\<close>

definition raw_ok :: "frame_buffer_raw \<Rightarrow> bool" where
  "raw_ok raw \<longleftrightarrow> fbr_pixels_per_scanline raw * fbr_vertical_resolution raw * 4 < 2 ^ 32
     \<and> fbr_pixels_per_scanline raw * fbr_vertical_resolution raw * 4 \<le> length (fbr_buf raw)
     \<and> fbr_horizontal_resolution raw \<le> fbr_pixels_per_scanline raw
     \<and> fbr_pixels_per_scanline raw < 2 ^ 31 \<and> fbr_vertical_resolution raw < 2 ^ 31
     \<and> 8 \<le> fbr_horizontal_resolution raw \<and> 16 \<le> fbr_vertical_resolution raw"

lemma init_console_layers:
  "init_console dflt m fg bg = Inr (con, m') \<Longrightarrow> \<exists>w. layers m' = layers m @ [w] \<and> lwm_buffer m' = lwm_buffer m"
  by (auto simp: init_console_def new_layer_def up_down_def lwm_hide_def Let_def split: prod.splits option.splits)

lemma desktop_boot_spec:
  assumes raw: "raw_ok raw"
  shows "\<exists>dflt m0 m1 con m2 mw tw cw. initialize_winmgr raw = Inr (dflt, m0) \<and> initialize_windows dflt m0 = Inr (0, 1, m1)
    \<and> init_console dflt m1 fg bg = Inr (con, m2) \<and> lwm_wf m2 \<and> layer_stack m2 = [2, 1, 0] \<and> con_layer con = 2
    \<and> con_wf con (back_buf (win_buffer (layers m2 ! 2))) \<and> dflt = Some (lwm_format m2) \<and> layers m2 = [mw, tw, cw]
    \<and> mouse_window dflt = Inr mw \<and> test_window dflt = Inr tw
    \<and> fb_resolution (lwm_buffer m2) = (fbr_horizontal_resolution raw, fbr_vertical_resolution raw)"
proof -
  from fb_from_raw_spec [of raw] raw obtain fb where fb: "fb_from_raw raw = Inr fb" "fb_wf fb"
    "fb_resolution fb = (fbr_horizontal_resolution raw, fbr_vertical_resolution raw)" by (auto simp: raw_ok_def)
  from lwm_new_wf [OF fb(2)] obtain m0 where m0: "lwm_new (Some (pixel_format (fb_conf fb))) fb = Inr m0" "lwm_wf m0" "layers m0 = []" by blast
  have m0': "lwm_buffer m0 = fb" "layer_stack m0 = []" "lwm_format m0 = pixel_format (fb_conf fb)"
    using m0(1) by (auto simp: lwm_new_def lwm_format_def split: prod.splits)
  from initialize_windows_spec [OF m0(2,3) m0'(2)] obtain m1 mw tw where m1: "initialize_windows (Some (lwm_format m0)) m0 = Inr (0, 1, m1)"
    "lwm_wf m1" "lwm_buffer m1 = fb" "layer_stack m1 = [1, 0]" "layers m1 = [mw, tw]"
    "mouse_window (Some (lwm_format m0)) = Inr mw" "test_window (Some (lwm_format m0)) = Inr tw" using m0'(1) by auto
  have f: "lwm_format m1 = lwm_format m0" using m1(3) m0'(1) by (simp add: lwm_format_def)
  have "\<exists>con l'. init_console (Some (lwm_format m1)) m1 fg bg = Inr (con, l') \<and> lwm_wf l' \<and> con_layer con < length (layers l')
    \<and> con_wf con (back_buf (win_buffer (layers l' ! con_layer con))) \<and> layer_stack l' = con_layer con # layer_stack m1"
    using m1(3) fb(3) raw by (intro init_console_spec m1(2)) (auto simp: raw_ok_def)
  then obtain con m2 where m2: "init_console (Some (lwm_format m1)) m1 fg bg = Inr (con, m2)" "lwm_wf m2" "con_layer con < length (layers m2)"
    "con_wf con (back_buf (win_buffer (layers m2 ! con_layer con)))" "layer_stack m2 = con_layer con # layer_stack m1" by blast
  from init_console_layers [OF m2(1)] m1(5) obtain cw where l: "layers m2 = [mw, tw, cw]" "lwm_buffer m2 = fb" using m1(3) by auto
  have "con_layer con \<notin> {1, 0}" using m2(2,5) m1(4) by (simp add: lwm_wf_def)
  then have c: "con_layer con = 2" using m2(3) l(1) by auto
  have g: "lwm_format m2 = lwm_format m0" using l(2) m0'(1) by (simp add: lwm_format_def)
  have "initialize_winmgr raw = Inr (Some (lwm_format m0), m0)" using fb(1) m0(1) m0'(3) by (simp add: initialize_winmgr_def Let_def)
  moreover have "layer_stack m2 = [2, 1, 0]" using m2(5) c m1(4) by simp
  ultimately show ?thesis using m1(1,6,7) m2(1,2,4) f g l fb(3) c
    by (intro exI [of _ "Some (lwm_format m0)"] exI [of _ m0] exI [of _ m1] exI [of _ con] exI [of _ m2] exI [of _ mw] exI [of _ tw] exI [of _ cw]) simp
qed

text \<open>
  The graphical start of the kernel never panics on a screen of at least one character cell: the window
  manager, the mouse and test windows and the console come up, with the console at the bottom of the stack
  and the mouse on top, and the console shows its empty text.
\<close>

theorem desktop_boot:
  assumes "fbr_pixels_per_scanline raw * fbr_vertical_resolution raw * 4 < 2 ^ 32"
    "fbr_pixels_per_scanline raw * fbr_vertical_resolution raw * 4 \<le> length (fbr_buf raw)"
    "fbr_horizontal_resolution raw \<le> fbr_pixels_per_scanline raw"
    "fbr_pixels_per_scanline raw < 2 ^ 31" "fbr_vertical_resolution raw < 2 ^ 31"
    "8 \<le> fbr_horizontal_resolution raw" "16 \<le> fbr_vertical_resolution raw"
  shows "\<exists>dflt m0 m1 con m2. initialize_winmgr raw = Inr (dflt, m0) \<and> initialize_windows dflt m0 = Inr (0, 1, m1)
    \<and> init_console dflt m1 fg bg = Inr (con, m2) \<and> lwm_wf m2 \<and> layer_stack m2 = [2, 1, 0] \<and> con_layer con = 2
    \<and> con_wf con (back_buf (win_buffer (layers m2 ! 2)))"
proof -
  have "raw_ok raw" using assms by (simp add: raw_ok_def)
  from desktop_boot_spec [OF this, of fg bg] show ?thesis by blast
qed

lemma text_box: "string_pixels x y str \<subseteq> box (int x) (int y) (8 * length str) 16"
proof
  fix p assume "p \<in> string_pixels x y str"
  then obtain i dx dy where i: "i < length str" "dx < 8" "dy < 16" "p = (int (x + 8 * i + dx), int (y + dy))"
    by (auto simp: string_pixels_def glyph_pixels_def)
  then have "8 * i + dx < 8 * length str" by linarith
  then show "p \<in> box (int x) (int y) (8 * length str) 16" using i by (simp add: box_def)
qed

text \<open>
  \<^verbatim>\<open>initialize_windows\<close> writes the greeting before it draws the frame, and the frame is filled: no pixel of the
  greeting is visible in the test window, only the background remains there.
\<close>

theorem greeting_is_hidden:
  "\<exists>w. test_window (Some fmt) = Inr w
     \<and> (\<forall>p \<in> string_pixels 24 28 (as_bytes ''Welcome to'') \<union> string_pixels 24 44 (as_bytes ''Mikanami world!'').
          fb_pixel (fore (win_buffer w)) p = (0xc6, 0xc6, 0xc6))"
proof -
  from test_window_spec [of fmt] obtain w b where w: "test_window (Some fmt) = Inr w" "fb_inside b = box 0 0 160 68"
    "fbw.paints b test_shapes (back_buf (win_buffer w))"
    "\<forall>p \<in> box 0 0 160 68. fb_pixel (fore (win_buffer w)) p = fb_pixel (back_buf (win_buffer w)) p" by blast
  have "fb_pixel (fore (win_buffer w)) p = (0xc6, 0xc6, 0xc6)"
    if "p \<in> string_pixels 24 28 (as_bytes ''Welcome to'') \<union> string_pixels 24 44 (as_bytes ''Mikanami world!'')" for p
  proof -
    have "p \<in> box 24 28 80 16 \<union> box 24 44 120 16"
      using that text_box [of 24 28 "as_bytes ''Welcome to''"] text_box [of 24 44 "as_bytes ''Mikanami world!''"] by (auto simp: as_bytes_def)
    then have p: "24 \<le> fst p" "fst p < 144" "28 \<le> snd p" "snd p < 60" by (auto simp: box_def)
    then have i: "p \<in> box 0 0 160 68" by (cases p) (simp add: box_def)
    have "p \<notin> string_pixels 24 4 (as_bytes ''test window'')"
      using p text_box [of 24 4 "as_bytes ''test window''"] by (auto simp: box_def as_bytes_def)
    then have "find (\<lambda>(S, c). p \<in> S) (rev test_shapes) = Some (box 2 2 156 64, (0xc6, 0xc6, 0xc6))"
      using p by (cases p) (simp add: test_shapes_def frame_shapes_def box_def)
    then show ?thesis using w(2-4) i unfolding fbw.paints_def by simp
  qed
  then show ?thesis using w(1) by blast
qed

text \<open>The upper left pixel of the first letter.\<close>

theorem greeting_is_hidden_witness:
  "\<exists>w. test_window (Some PixelRGBResv8BitPerColor) = Inr w \<and> (24, 29) \<in> string_pixels 24 28 (as_bytes ''Welcome to'')
     \<and> fb_pixel (fore (win_buffer w)) (24, 29) = (0xc6, 0xc6, 0xc6)"
proof -
  have "FONTS ! 0x57 = fonts_50 ! 7"
    by (simp add: FONTS_def nth_append fonts_00_shape fonts_08_shape fonts_10_shape fonts_18_shape fonts_20_shape
        fonts_28_shape fonts_30_shape fonts_38_shape fonts_40_shape fonts_48_shape fonts_50_shape)
  then have "bit (FONTS ! 0x57 ! 1) 7" by (simp add: fonts_50_def)
  then have "(24, 29) \<in> glyph_pixels 24 28 0x57" by (auto simp: glyph_pixels_def intro!: exI [of _ 0] exI [of _ 1])
  then have "(24, 29) \<in> string_pixels 24 28 (as_bytes ''Welcome to'')"
    unfolding string_pixels_def by (intro UN_I [of 0]) (simp_all add: as_bytes_def of_char_def)
  then show ?thesis using greeting_is_hidden [of PixelRGBResv8BitPerColor] by blast
qed

text \<open>A screen of one character cell, as the firmware hands it over.\<close>

definition tiny_raw :: frame_buffer_raw where
  "tiny_raw = \<lparr>fbr_buf = replicate 512 0, fbr_pixels_per_scanline = 8, fbr_horizontal_resolution = 8,
     fbr_vertical_resolution = 16, fbr_pixel_format = PixelBGRResv8BitPerColor\<rparr>"

theorem desktop_boot_witness:
  "\<exists>dflt m0 m1 con m2. initialize_winmgr tiny_raw = Inr (dflt, m0) \<and> initialize_windows dflt m0 = Inr (0, 1, m1)
    \<and> init_console dflt m1 (255, 255, 255) (100, 100, 100) = Inr (con, m2) \<and> layer_stack m2 = [2, 1, 0]"
  using desktop_boot [of tiny_raw "(255, 255, 255)" "(100, 100, 100)"] by (auto simp: tiny_raw_def)

section \<open>Mouse reports\<close>

definition mouse_ok :: "nat \<Rightarrow> layered_window_manager \<Rightarrow> bool" where
  "mouse_ok hndl m \<longleftrightarrow> lwm_wf m \<and> hndl < length (layers m)
     \<and> (let w = layers m ! hndl; r = fb_resolution (lwm_buffer m) in
        0 \<le> fst (win_pos w) \<and> fst (win_pos w) \<le> int (fst r) \<and> 0 \<le> snd (win_pos w) \<and> snd (win_pos w) \<le> int (snd r)
        \<and> int (fst r) + int (win_width w) < 2 ^ 31 - 128 \<and> int (snd r) + int (win_height w) < 2 ^ 31 - 128)"

text \<open>The specification of a move: each coordinate is kept within the resolution.\<close>

fun pointer_to :: "nat \<times> nat \<Rightarrow> int \<times> int \<Rightarrow> int \<times> int \<Rightarrow> int \<times> int" where
  "pointer_to (w, h) (dx, dy) (x, y) = (max 0 (min (int w) (x + dx)), max 0 (min (int h) (y + dy)))"

lemma on_mouse_report_run:
  assumes ok: "mouse_ok hndl m" and d: "- 128 \<le> dx" "dx < 128" "- 128 \<le> dy" "dy < 128"
  shows "\<exists>m'. on_mouse_report hndl (dx, dy) m = Inr m' \<and> mouse_ok hndl m'
    \<and> layers m' = (layers m)[hndl := win_move_to (layers m ! hndl) (pointer_to (fb_resolution (lwm_buffer m)) (dx, dy) (win_pos (layers m ! hndl)))]
    \<and> fb_conf (lwm_buffer m') = fb_conf (lwm_buffer m)"
proof -
  obtain w h where wh: "fb_resolution (lwm_buffer m) = (w, h)" by fastforce
  let ?win = "layers m ! hndl"
  have wf: "lwm_wf m" "hndl < length (layers m)" and pos: "0 \<le> fst (win_pos ?win)" "fst (win_pos ?win) \<le> int w"
    "0 \<le> snd (win_pos ?win)" "snd (win_pos ?win) \<le> int h"
    and sz: "int w + int (win_width ?win) < 2 ^ 31 - 128" "int h + int (win_height ?win) < 2 ^ 31 - 128"
    using ok wh by (auto simp: mouse_ok_def Let_def)
  have win: "window_wf (lwm_format m) ?win" using wf by (simp add: lwm_wf_def)
  let ?p = "(fst (win_pos ?win) + dx, snd (win_pos ?win) + dy)"
  have add: "vec_add (win_pos ?win) (dx, dy) = Inr ?p"
    using pos sz d by (simp add: vec_add_def i32_add_def res_simps i32_ok_def)
  let ?q = "vec_clamp ?p (0, 0) (as_i32 w, as_i32 h)"
  have asw: "as_i32 w = int w" "as_i32 h = int h" using sz by auto
  have q: "0 \<le> fst ?q" "fst ?q \<le> int w" "0 \<le> snd ?q" "snd ?q \<le> int h" using asw by (auto simp: vec_clamp_def)
  have "copy_pos_ok ?q (fore (win_buffer ?win))"
    using q sz window_wfD(4,5) [OF win] by (auto simp: copy_pos_ok_def)
  then have "window_wf (lwm_format m) (win_move_to ?win ?q)" using win by (simp add: window_wf_def win_move_to_def)
  from lwm_draw_spec [OF lwm_wf_window [OF wf(1) this, of hndl]] obtain m' where
    m': "lwm_draw (m\<lparr>layers := (layers m)[hndl := win_move_to ?win ?q]\<rparr>) = Inr m'" "lwm_wf m'"
      "layers m' = (layers m)[hndl := win_move_to ?win ?q]" "fb_conf (lwm_buffer m') = fb_conf (lwm_buffer m)" by auto
  have "on_mouse_report hndl (dx, dy) m = Inr m'" using wh wf add m'(1) by (simp add: on_mouse_report_def res_simps Let_def)
  moreover have "mouse_ok hndl m'"
    using m'(2-4) wf(2) q sz wh by (auto simp: mouse_ok_def Let_def win_move_to_def fb_resolution_def)
  moreover have "?q = pointer_to (fb_resolution (lwm_buffer m)) (dx, dy) (win_pos ?win)"
    unfolding wh asw by (cases "win_pos ?win") (simp add: vec_clamp_def min_def max_def)
  ultimately show ?thesis using m'(3,4) by metis
qed

lemma on_mouse_report_ok:
  assumes "mouse_ok hndl m" "- 128 \<le> dx" "dx < 128" "- 128 \<le> dy" "dy < 128"
  shows "\<exists>m'. on_mouse_report hndl (dx, dy) m = Inr m' \<and> mouse_ok hndl m'"
  using on_mouse_report_run [OF assms] by blast

text \<open>
  Whatever the mouse reports, the handler never panics and the pointer stays on the screen.
\<close>

theorem mouse_stays_on_screen:
  assumes "mouse_ok hndl m" "\<forall>(dx, dy) \<in> set ds. - 128 \<le> dx \<and> dx < 128 \<and> - 128 \<le> dy \<and> dy < 128"
  shows "\<exists>m'. foldM (on_mouse_report hndl) ds m = Inr m'
    \<and> (let p = win_pos (layers m' ! hndl); r = fb_resolution (lwm_buffer m') in
       0 \<le> fst p \<and> fst p \<le> int (fst r) \<and> 0 \<le> snd p \<and> snd p \<le> int (snd r))"
proof -
  have "\<exists>m'. foldM (on_mouse_report hndl) ds m = Inr m' \<and> (\<lambda>_. mouse_ok hndl) ds m'"
  proof (rule foldM_rule)
    fix "done" d todo t
    assume "ds = done @ d # todo" "mouse_ok hndl t"
    then show "\<exists>t'. on_mouse_report hndl d t = Inr t' \<and> mouse_ok hndl t'"
      using assms(2) on_mouse_report_ok [of hndl t "fst d" "snd d"] by auto
  qed (rule assms(1))
  then show ?thesis by (auto simp: mouse_ok_def Let_def)
qed

theorem mouse_stays_on_screen_witness:
  "\<exists>m'. foldM (on_mouse_report 0) [(-100, 3), (127, 127)] two_dots = Inr m'
    \<and> (let p = win_pos (layers m' ! 0); r = fb_resolution (lwm_buffer m') in
       0 \<le> fst p \<and> fst p \<le> int (fst r) \<and> 0 \<le> snd p \<and> snd p \<le> int (snd r))"
proof -
  have "mouse_ok 0 two_dots" unfolding mouse_ok_def using two_dots_wf
    by (simp add: two_dots_def dot_window_def small_screen_def fb_resolution_def)
  then show ?thesis by (rule mouse_stays_on_screen) auto
qed

section \<open>The main loop and task B\<close>

lemma dec_string_length: "n < 10 ^ Suc k \<Longrightarrow> length (dec_string n) \<le> Suc k"
proof (induction k arbitrary: n)
  case 0
  then show ?case by (simp add: dec_string.simps [of n])
next
  case (Suc k)
  have "n div 10 < 10 ^ Suc k" using Suc.prems by (simp add: div_less_iff_less_mult mult.commute)
  from Suc.IH [OF this] show ?case by (auto simp: dec_string.simps [of n])
qed

lemma composite_back:
  assumes "h < length ls" "is_updated (win_buffer (ls ! h))"
  shows "composite (ls[h := (ls ! h)\<lparr>win_buffer := (win_buffer (ls ! h))\<lparr>back_buf := b, is_updated := True\<rparr>\<rparr>]) bg st p = composite ls bg st p"
    (is "composite ?ls bg st p = _")
proof -
  have "layer_hit ?ls p i = layer_hit ls p i" "win_color (?ls ! i) p = win_color (ls ! i) p" for i
    using assms by (cases "i = h"; simp add: layer_hit_def win_shows_def win_color_def win_local_def)+
  then have "layer_hit ?ls p = layer_hit ls p" "\<And>i. win_color (?ls ! i) p = win_color (ls ! i) p" by (simp_all add: fun_eq_iff)
  then show ?thesis by (simp only: composite_def)
qed

text \<open>The windows after the tick was written to the back buffer, which is then \<open>b\<close>.\<close>

definition tick_drawn :: "nat \<Rightarrow> frame_buffer \<Rightarrow> layered_window_manager \<Rightarrow> layered_window_manager" where
  "tick_drawn hndl b m = (let w = layers m ! hndl in
     m\<lparr>layers := (layers m)[hndl := w\<lparr>win_buffer := (win_buffer w)\<lparr>back_buf := b, is_updated := True\<rparr>\<rparr>]\<rparr>)"

lemma main_loop_draw_run:
  assumes wf: "lwm_wf m" and h: "hndl < length (layers m)"
    and sz: "160 \<le> win_width (layers m ! hndl)" "44 \<le> win_height (layers m ! hndl)" and t: "tick < 10 ^ 17"
  shows "\<exists>b. main_loop_draw hndl tick m = lwm_draw (tick_drawn hndl b m) \<and> lwm_wf (tick_drawn hndl b m)"
proof -
  let ?w = "layers m ! hndl" let ?b = "back_buf (win_buffer ?w)"
  have w: "window_wf (lwm_format m) ?w" using wf h by (simp add: lwm_wf_def)
  note wd = window_back_dims [OF w]
  let ?s = "[(box 24 28 80 16, (0xc6, 0xc6, 0xc6))]"
  obtain f1 where f1: "fill_rect fb_write ?b (24, 28) (80, 16) (0xc6, 0xc6, 0xc6) = Inr f1" "fbw.paints ?b ?s f1"
    using fb_fill_step [OF fbw.paints_refl [OF wd(2)], of 24 80 28 16 "(0xc6, 0xc6, 0xc6)"] wd(3,4) sz by auto
  have "length (dec_string tick) \<le> 17" using dec_string_length [of tick 16] t by simp
  then obtain f2 where f2: "write_string fb_write f1 24 28 (dec_string tick) (0, 0, 0) = Inr f2"
    "fbw.paints ?b (?s @ [(string_pixels 24 28 (dec_string tick), (0, 0, 0))]) f2"
    using fb_string_step [OF f1(2), of 24 "dec_string tick" 28 "(0, 0, 0)"] wd(3,4) sz by auto
  have bw: "fb_wf f2" "fb_conf f2 = fb_conf ?b" using f2(2) by (auto simp: fbw.paints_def)
  let ?w' = "?w\<lparr>win_buffer := (win_buffer ?w)\<lparr>back_buf := f2, is_updated := True\<rparr>\<rparr>"
  have "window_wf (lwm_format m) ?w'" using w bw by (auto simp: window_wf_def canvas_wf_def fb_resolution_def)
  from lwm_wf_window [OF wf this, of hndl] have "lwm_wf (tick_drawn hndl f2 m)" by (simp add: tick_drawn_def Let_def)
  moreover have "main_loop_draw hndl tick m = lwm_draw (tick_drawn hndl f2 m)"
    using f1(1) f2(1) h by (simp add: main_loop_draw_def on_canvas_def write_with_def u32_mul_def res_simps tick_drawn_def Let_def)
  ultimately show ?thesis by blast
qed

text \<open>
  A round of the main loop writes the tick into the back buffer of the test window and draws the layers
  without a flush: the drawing never panics, but the screen afterwards is what it would be without the tick.
\<close>

theorem tick_is_not_shown:
  assumes wf: "lwm_wf m" and h: "hndl < length (layers m)" "is_updated (win_buffer (layers m ! hndl))"
    and sz: "160 \<le> win_width (layers m ! hndl)" "44 \<le> win_height (layers m ! hndl)" and t: "tick < 10 ^ 17"
  shows "\<exists>m'. main_loop_draw hndl tick m = Inr m' \<and> lwm_wf m'
    \<and> (\<forall>p \<in> fb_inside (lwm_buffer m). fb_pixel (lwm_buffer m') p = composite (layers m) (lwm_shadow m) (layer_stack m) p)"
proof -
  from main_loop_draw_run [OF wf h(1) sz t] obtain b where
    b: "main_loop_draw hndl tick m = lwm_draw (tick_drawn hndl b m)" "lwm_wf (tick_drawn hndl b m)" by blast
  from lwm_draw_spec [OF b(2)] obtain m' where
    m': "lwm_draw (tick_drawn hndl b m) = Inr m'" "lwm_wf m'" "\<forall>p \<in> fb_inside (lwm_buffer (tick_drawn hndl b m)). fb_pixel (lwm_buffer m') p
      = composite (layers (tick_drawn hndl b m)) (lwm_shadow (tick_drawn hndl b m)) (layer_stack (tick_drawn hndl b m)) p" by blast
  then have "\<forall>p \<in> fb_inside (lwm_buffer m). fb_pixel (lwm_buffer m') p = composite (layers m) (lwm_shadow m) (layer_stack m) p"
    using composite_back [OF h] by (simp add: tick_drawn_def Let_def)
  then show ?thesis using b(1) m' by simp
qed

theorem tick_is_not_shown_witness:
  "\<exists>dflt m0 m m'. initialize_winmgr tiny_raw = Inr (dflt, m0) \<and> initialize_windows dflt m0 = Inr (0, 1, m)
     \<and> main_loop_draw 1 200 m = Inr m'
     \<and> (\<forall>p \<in> fb_inside (lwm_buffer m). fb_pixel (lwm_buffer m') p = composite (layers m) (lwm_shadow m) (layer_stack m) p)"
proof -
  from fb_from_raw_spec [of tiny_raw] obtain fb where fb: "fb_from_raw tiny_raw = Inr fb" "fb_wf fb" by (auto simp: tiny_raw_def)
  from lwm_new_wf [OF fb(2)] obtain m0 where m0: "lwm_new (Some (pixel_format (fb_conf fb))) fb = Inr m0" "lwm_wf m0" "layers m0 = []" by blast
  have m0': "layer_stack m0 = []" "lwm_format m0 = pixel_format (fb_conf fb)"
    using m0(1) by (auto simp: lwm_new_def lwm_format_def split: prod.splits)
  from initialize_windows_spec [OF m0(2,3) m0'(1)] obtain m mw tw where m: "initialize_windows (Some (lwm_format m0)) m0 = Inr (0, 1, m)"
    "lwm_wf m" "test_window (Some (lwm_format m0)) = Inr tw" "layers m = [mw, tw]" by blast
  have tw: "win_width tw = 160" "win_height tw = 68" "is_updated (win_buffer tw)" using test_window_spec [of "lwm_format m0"] m(3) by auto
  have "initialize_winmgr tiny_raw = Inr (Some (lwm_format m0), m0)" using fb(1) m0(1) m0'(2) by (simp add: initialize_winmgr_def Let_def)
  then show ?thesis using tick_is_not_shown [OF m(2), of 1 200] m tw by fastforce
qed

lemma taskB_window_paints:
  assumes w: "window_wf fmt w" "win_width w = 160" "win_height w = 52" and a: "length a \<le> 17"
  shows "\<exists>c b. rbind (write_with (win_buffer w) (\<lambda>back.
         rbind (draw_window back (as_bytes ''taskB!'')) (\<lambda>back.
         rbind (fill_rect fb_write back (24, 28) (80, 16) (0xc6, 0xc6, 0xc6)) (\<lambda>back.
         write_string fb_write back 24 28 a (0, 0, 0))))) canvas_flush = Inr c
    \<and> window_wf fmt (w\<lparr>win_buffer := c\<rparr>) \<and> fb_inside b = box 0 0 160 52 \<and> back_buf c = b
    \<and> (\<forall>p \<in> box 0 0 160 52. fb_pixel (fore c) p = fb_pixel b p) \<and> fbw.paints (back_buf (win_buffer w))
        (frame_shapes 160 52 (as_bytes ''taskB!'') @ [(box 24 28 80 16, (0xc6, 0xc6, 0xc6)), (string_pixels 24 28 a, (0, 0, 0))]) b"
proof -
  let ?b = "back_buf (win_buffer w)"
  note wd = window_back_dims [OF w(1)]
  obtain f1 where f1: "draw_window ?b (as_bytes ''taskB!'') = Inr f1" "fbw.paints ?b (frame_shapes 160 52 (as_bytes ''taskB!'')) f1"
    using draw_window_paints [OF fbw.paints_refl [OF wd(2)], of 160 52 "as_bytes ''taskB!''"] wd(1) w(2,3) by (auto simp: as_bytes_def)
  obtain f2 where f2: "fill_rect fb_write f1 (24, 28) (80, 16) (0xc6, 0xc6, 0xc6) = Inr f2"
    "fbw.paints ?b (frame_shapes 160 52 (as_bytes ''taskB!'') @ [(box 24 28 80 16, (0xc6, 0xc6, 0xc6))]) f2"
    using fb_fill_step [OF f1(2), of 24 80 28 16 "(0xc6, 0xc6, 0xc6)"] wd(3,4) w(2,3) by auto
  obtain f3 where f3: "write_string fb_write f2 24 28 a (0, 0, 0) = Inr f3"
    "fbw.paints ?b (frame_shapes 160 52 (as_bytes ''taskB!'') @ [(box 24 28 80 16, (0xc6, 0xc6, 0xc6)), (string_pixels 24 28 a, (0, 0, 0))]) f3"
    using fb_string_step [OF f2(2), of 24 a 28 "(0, 0, 0)"] wd(3,4) w(2,3) a by auto
  let ?f = "\<lambda>back. rbind (draw_window back (as_bytes ''taskB!'')) (\<lambda>back.
         rbind (fill_rect fb_write back (24, 28) (80, 16) (0xc6, 0xc6, 0xc6)) (\<lambda>back. write_string fb_write back 24 28 a (0, 0, 0)))"
  have f: "?f ?b = Inr f3" using f1(1) f2(1) f3(1) by simp
  have bw: "fb_wf f3" "fb_conf f3 = fb_conf ?b" using f3(2) by (auto simp: fbw.paints_def)
  from write_flush [where f = ?f, OF w(1) f bw] obtain c0 c where
    c: "write_with (win_buffer w) ?f = Inr c0" "canvas_flush c0 = Inr c" "window_wf fmt (w\<lparr>win_buffer := c\<rparr>)" "back_buf c = f3"
      "\<forall>p \<in> fb_inside f3. fb_pixel (fore c) p = fb_pixel f3 p" by blast
  have "fb_inside f3 = box 0 0 160 52" using wd(3,4) w(2,3) fb_inside_conf [OF bw(2)] by (simp add: box_def fb_inside_def)
  then show ?thesis using c f3(2) by (intro exI [of _ c] exI [of _ f3]) simp
qed

lemma taskB_round_run:
  assumes "lwm_wf m" "hndl < length (layers m)" "win_width (layers m ! hndl) = 160" "win_height (layers m ! hndl) = 52" "0 \<le> cnt" "cnt < 2 ^ 31 - 1"
  shows "\<exists>c. taskB_round hndl (cnt, m) = Inr (cnt + 1, m\<lparr>layers := (layers m)[hndl := (layers m ! hndl)\<lparr>win_buffer := c\<rparr>]\<rparr>)
    \<and> lwm_wf (m\<lparr>layers := (layers m)[hndl := (layers m ! hndl)\<lparr>win_buffer := c\<rparr>]\<rparr>)
    \<and> (\<forall>p \<in> string_pixels 24 28 (pad_dec 10 (nat (cnt + 1))). fb_pixel (fore c) p = (0, 0, 0))"
proof -
  let ?a = "pad_dec 10 (nat (cnt + 1))" and ?w = "layers m ! hndl"
  have add: "i32_add cnt 1 = Inr (cnt + 1)" using assms(5,6) by (simp add: i32_add_def res_simps i32_ok_def)
  have "nat (cnt + 1) < 10 ^ Suc 9" using assms(5,6) by simp
  from dec_string_length [OF this] have len: "length ?a = 10" by (simp add: pad_dec_def)
  have w: "window_wf (lwm_format m) ?w" using assms(1,2) by (simp add: lwm_wf_def)
  from taskB_window_paints [OF w assms(3,4), of ?a] len obtain c b where
    c: "rbind (write_with (win_buffer ?w) (\<lambda>back.
         rbind (draw_window back (as_bytes ''taskB!'')) (\<lambda>back.
         rbind (fill_rect fb_write back (24, 28) (80, 16) (0xc6, 0xc6, 0xc6)) (\<lambda>back.
         write_string fb_write back 24 28 ?a (0, 0, 0))))) canvas_flush = Inr c"
      "window_wf (lwm_format m) (?w\<lparr>win_buffer := c\<rparr>)" "fb_inside b = box 0 0 160 52"
      "\<forall>p \<in> box 0 0 160 52. fb_pixel (fore c) p = fb_pixel b p" "fbw.paints (back_buf (win_buffer ?w))
        (frame_shapes 160 52 (as_bytes ''taskB!'') @ [(box 24 28 80 16, (0xc6, 0xc6, 0xc6)), (string_pixels 24 28 ?a, (0, 0, 0))]) b" by auto
  let ?m = "m\<lparr>layers := (layers m)[hndl := ?w\<lparr>win_buffer := c\<rparr>]\<rparr>"
  have "taskB_round hndl (cnt, m) = Inr (cnt + 1, ?m)"
    using add c(1) assms(2) unfolding taskB_round_def on_canvas_def Let_def by (auto simp: res_simps)
  moreover have "lwm_wf ?m" by (rule lwm_wf_window [OF assms(1) c(2)])
  moreover have "fb_pixel (fore c) p = (0, 0, 0)" if "p \<in> string_pixels 24 28 ?a" for p
  proof -
    have i: "p \<in> box 0 0 160 52" using that text_box [of 24 28 ?a] len by (auto simp: box_def)
    then have "p \<in> fb_inside (back_buf (win_buffer ?w))"
      using window_back_dims(3,4) [OF w] assms(3,4) by (auto simp: fb_inside_def box_def)
    then show ?thesis using c(4,5) i that unfolding fbw.paints_def by simp
  qed
  ultimately show ?thesis by blast
qed

text \<open>
  A round of task B: until its counter reaches the largest \<^verbatim>\<open>i32\<close> it never panics, and its window then shows
  the counter in black at its place; in the round after that the addition overflows and the kernel panics.
\<close>

theorem taskB_counts:
  assumes "lwm_wf m" "hndl < length (layers m)" "win_width (layers m ! hndl) = 160" "win_height (layers m ! hndl) = 52" "0 \<le> cnt" "cnt < 2 ^ 31"
  shows "if cnt = 2 ^ 31 - 1 then taskB_round hndl (cnt, m) = Inl ArithOverflow
    else \<exists>m'. taskB_round hndl (cnt, m) = Inr (cnt + 1, m') \<and> lwm_wf m'
      \<and> (\<forall>p \<in> string_pixels 24 28 (pad_dec 10 (nat (cnt + 1))). fb_pixel (fore (win_buffer (layers m' ! hndl))) p = (0, 0, 0))"
proof (cases "cnt = 2 ^ 31 - 1")
  case True
  then show ?thesis by (simp add: taskB_round_def i32_add_def i32_chk_def i32_ok_def)
next
  case False
  then have "cnt < 2 ^ 31 - 1" using assms(6) by simp
  from taskB_round_run [OF assms(1-5) this] assms(2) False show ?thesis by auto
qed

theorem taskB_counts_witness:
  "\<exists>hndl m m'. taskB_round hndl (41, m) = Inr (42, m')"
proof -
  from window_new_wf [of 160 52 PixelRGBResv8BitPerColor] obtain w where
    w: "window_wf PixelRGBResv8BitPerColor w" "win_width w = 160" "win_height w = 52" by auto
  let ?m = "two_dots\<lparr>layers := layers two_dots @ [w]\<rparr>"
  have f: "lwm_format two_dots = PixelRGBResv8BitPerColor" "length (layers two_dots) = 2"
    by (simp_all add: lwm_format_def two_dots_def small_screen_def)
  have "lwm_wf ?m" using new_layer_wf(2) [OF two_dots_wf] w(1) f(1) by simp
  from taskB_counts [OF this, of 2 41] w f show ?thesis by (auto simp: nth_append)
qed

end
