(* ===== verification/Screen.thy ===== *)
theory Screen
  imports Desktop
begin

text \<open>
  The screen as the running kernel uses it: the pointer is layer 0, the test window layer 1, the console layer 2, and task B
  adds one more layer. The interrupt handler of the mouse, the main loop, the console and task B all draw on it. The theory
  has the output of the console onto its layer (\<^verbatim>\<open>_print\<close> and the macros of \<^verbatim>\<open>kernel/src/console.rs\<close>), an invariant of the
  screen, and that each of the four keeps it.
\<close>

section \<open>Printing\<close>

text \<open>\<^verbatim>\<open>_print\<close>: \<^verbatim>\<open>write_fmt\<close> gives the pieces of the formatted text to \<^verbatim>\<open>write_str\<close> one by one.\<close>

definition write_str :: "u8 list \<Rightarrow> console \<times> layered_window_manager \<Rightarrow> (console \<times> layered_window_manager) res" where
  "write_str str = (\<lambda>(con, m).
     rbind (index (layers m) (con_layer con)) (\<lambda>win.
     rbind (put_string str (con, win)) (\<lambda>(con', win).
     Inr (con', m\<lparr>layers := (layers m)[con_layer con := win]\<rparr>))))"

definition print :: "u8 list list \<Rightarrow> console \<times> layered_window_manager \<Rightarrow> (console \<times> layered_window_manager) res" where
  "print pieces = foldM write_str pieces"

definition println :: "u8 list list \<Rightarrow> console \<times> layered_window_manager \<Rightarrow> (console \<times> layered_window_manager) res" where
  "println pieces s = rbind (print pieces s) (print [as_bytes [CHR 0x0A]])"

section \<open>What drawing keeps\<close>

definition same_windows :: "layered_window_manager \<Rightarrow> layered_window_manager \<Rightarrow> bool" where
  "same_windows m m' \<longleftrightarrow> length (layers m') = length (layers m) \<and> lwm_format m' = lwm_format m
     \<and> (\<forall>i < length (layers m). win_width (layers m' ! i) = win_width (layers m ! i) \<and> win_height (layers m' ! i) = win_height (layers m ! i))"

definition screen_inv :: "console \<Rightarrow> layered_window_manager \<Rightarrow> bool" where
  "screen_inv con m \<longleftrightarrow> mouse_ok 0 m \<and> 2 < length (layers m) \<and> win_width (layers m ! 1) = 160 \<and> win_height (layers m ! 1) = 68
     \<and> con_layer con = 2 \<and> con_wf con (back_buf (win_buffer (layers m ! 2)))"

text \<open>One window got another picture at the same place.\<close>

definition repainted :: "nat \<Rightarrow> layered_window_manager \<Rightarrow> layered_window_manager \<Rightarrow> bool" where
  "repainted i m m' \<longleftrightarrow> lwm_wf m' \<and> fb_conf (lwm_buffer m') = fb_conf (lwm_buffer m)
     \<and> (\<exists>c. layers m' = (layers m)[i := (layers m ! i)\<lparr>win_buffer := c\<rparr>])"

lemma same_windows_refl [simp]: "same_windows m m"
  by (simp add: same_windows_def)

lemma same_windows_trans: "\<lbrakk>same_windows m1 m2; same_windows m2 m3\<rbrakk> \<Longrightarrow> same_windows m1 m3"
  by (simp add: same_windows_def)

lemma screen_inv_wf: "screen_inv con m \<Longrightarrow> lwm_wf m"
  by (simp add: screen_inv_def mouse_ok_def)

lemma repainted_windows:
  assumes "repainted i m m'" "i < length (layers m)"
  shows "same_windows m m'"
  using assms by (auto simp: repainted_def same_windows_def lwm_format_def nth_list_update)

lemma repainted_mouse:
  assumes r: "repainted i m m'" "i < length (layers m)" and ok: "mouse_ok 0 m"
  shows "mouse_ok 0 m'"
proof -
  obtain c where c: "layers m' = (layers m)[i := (layers m ! i)\<lparr>win_buffer := c\<rparr>]" using r(1) by (auto simp: repainted_def)
  then have "win_pos (layers m' ! 0) = win_pos (layers m ! 0)" "win_width (layers m' ! 0) = win_width (layers m ! 0)"
    "win_height (layers m' ! 0) = win_height (layers m ! 0)"
    using r(2) by (cases "i = 0"; simp)+
  moreover have "fb_resolution (lwm_buffer m') = fb_resolution (lwm_buffer m)" "lwm_wf m'"
    using r(1) by (auto simp: repainted_def fb_resolution_def)
  ultimately show ?thesis using ok c by (simp add: mouse_ok_def Let_def)
qed

lemma repainted_inv:
  assumes r: "repainted i m m'" "i < length (layers m)" and inv: "screen_inv con m"
    and con: "con_layer con' = 2" "con_wf con' (back_buf (win_buffer (layers m' ! 2)))"
  shows "screen_inv con' m'"
  using repainted_mouse [OF r] repainted_windows [OF r] inv con by (auto simp: screen_inv_def same_windows_def)

lemma repainted_other:
  assumes "repainted i m m'" "i < length (layers m)" "screen_inv con m" "i \<noteq> 2"
  shows "screen_inv con m'"
  using repainted_inv [OF assms(1-3), of con] assms by (auto simp: screen_inv_def repainted_def)

section \<open>The four that draw\<close>

lemma write_str_ok:
  assumes inv: "screen_inv con m"
  shows "\<exists>con' m'. write_str str (con, m) = Inr (con', m') \<and> screen_inv con' m' \<and> same_windows m m' \<and> same_console con con'
    \<and> text_of con' = fold (text_put (n_rows con) (n_cols con)) str (text_of con)"
proof -
  let ?w = "layers m ! 2"
  have l: "2 < length (layers m)" "con_layer con = 2" and cw: "con_wf con (back_buf (win_buffer ?w))" and wf: "lwm_wf m"
    using inv by (auto simp: screen_inv_def mouse_ok_def)
  have w: "window_wf (lwm_format m) ?w" using wf l(1) by (simp add: lwm_wf_def)
  from put_string_spec [OF w cw, of str] obtain con' win' where
    p: "put_string str (con, ?w) = Inr (con', win')" "window_wf (lwm_format m) win'" "con_wf con' (back_buf (win_buffer win'))"
      "same_console con con'" "text_of con' = fold (text_put (n_rows con) (n_cols con)) str (text_of con)" by blast
  let ?m = "m\<lparr>layers := (layers m)[2 := win']\<rparr>"
  obtain c where win': "win' = ?w\<lparr>win_buffer := c\<rparr>" using p(1) by (auto simp: put_string_def split: prod.splits)
  have r: "repainted 2 m ?m" using lwm_wf_window [OF wf p(2), of 2] win' by (auto simp: repainted_def)
  have "con_layer con' = 2" using p(4) l(2) by (simp add: same_console_def)
  with repainted_inv [OF r l(1) inv, of con'] p(3) l(1) have "screen_inv con' ?m" by simp
  moreover have "write_str str (con, m) = Inr (con', ?m)" using l p(1) by (simp add: write_str_def res_simps)
  ultimately show ?thesis using repainted_windows [OF r l(1)] p(4,5) by blast
qed

lemma print_ok:
  "screen_inv con m \<Longrightarrow> \<exists>con' m'. print pieces (con, m) = Inr (con', m') \<and> screen_inv con' m' \<and> same_windows m m' \<and> same_console con con'
    \<and> text_of con' = fold (text_put (n_rows con) (n_cols con)) (concat pieces) (text_of con)"
proof (induction pieces arbitrary: con m)
  case Nil
  then show ?case by (simp add: print_def same_console_def)
next
  case (Cons str pieces)
  from write_str_ok [OF Cons.prems, of str] obtain con1 m1 where
    s: "write_str str (con, m) = Inr (con1, m1)" "screen_inv con1 m1" "same_windows m m1" "same_console con con1"
      "text_of con1 = fold (text_put (n_rows con) (n_cols con)) str (text_of con)" by blast
  from Cons.IH [OF s(2)] obtain con2 m2 where
    t: "print pieces (con1, m1) = Inr (con2, m2)" "screen_inv con2 m2" "same_windows m1 m2" "same_console con1 con2"
      "text_of con2 = fold (text_put (n_rows con1) (n_cols con1)) (concat pieces) (text_of con1)" by blast
  have "print (str # pieces) (con, m) = Inr (con2, m2)" using s(1) t(1) by (simp add: print_def)
  moreover have "text_of con2 = fold (text_put (n_rows con) (n_cols con)) (concat (str # pieces)) (text_of con)"
    using s(4,5) t(5) by (simp add: same_console_def)
  ultimately show ?case using s(4) t(2,4) same_windows_trans [OF s(3) t(3)] by (auto simp: same_console_def)
qed

text \<open>A line of output: the text screen gets the text of the pieces and a newline.\<close>

lemma println_ok:
  assumes "screen_inv con m"
  shows "\<exists>con' m'. println pieces (con, m) = Inr (con', m') \<and> screen_inv con' m' \<and> same_windows m m' \<and> same_console con con'
    \<and> text_of con' = fold (text_put (n_rows con) (n_cols con)) (concat pieces @ [10]) (text_of con)"
proof -
  have "println pieces (con, m) = print (pieces @ [[10]]) (con, m)"
    by (simp add: println_def print_def foldM_append as_bytes_def)
  with print_ok [OF assms, of "pieces @ [[10]]"] show ?thesis by simp
qed

lemma main_loop_draw_ok:
  assumes inv: "screen_inv con m" and t: "tick < 10 ^ 17"
  shows "\<exists>m'. main_loop_draw 1 tick m = Inr m' \<and> screen_inv con m' \<and> same_windows m m'"
proof -
  have wf: "lwm_wf m" and l: "1 < length (layers m)" using inv by (auto simp: screen_inv_def mouse_ok_def)
  from main_loop_draw_run [OF wf l _ _ t] inv obtain b where
    b: "main_loop_draw 1 tick m = lwm_draw (tick_drawn 1 b m)" "lwm_wf (tick_drawn 1 b m)" by (auto simp: screen_inv_def)
  from lwm_draw_spec [OF b(2)] obtain m' where
    m': "lwm_draw (tick_drawn 1 b m) = Inr m'" "lwm_wf m'" "layers m' = layers (tick_drawn 1 b m)"
      "fb_conf (lwm_buffer m') = fb_conf (lwm_buffer (tick_drawn 1 b m))" by blast
  then have r: "repainted 1 m m'" by (auto simp: repainted_def tick_drawn_def Let_def)
  show ?thesis using b(1) m'(1) repainted_other [OF r l inv] repainted_windows [OF r l] by simp
qed

lemma on_mouse_report_screen:
  assumes inv: "screen_inv con m" and d: "- 128 \<le> dx" "dx < 128" "- 128 \<le> dy" "dy < 128"
  shows "\<exists>m'. on_mouse_report 0 (dx, dy) m = Inr m' \<and> screen_inv con m' \<and> same_windows m m' \<and> fb_resolution (lwm_buffer m') = fb_resolution (lwm_buffer m)
    \<and> win_pos (layers m' ! 0) = pointer_to (fb_resolution (lwm_buffer m)) (dx, dy) (win_pos (layers m ! 0))"
proof -
  let ?pos = "pointer_to (fb_resolution (lwm_buffer m)) (dx, dy) (win_pos (layers m ! 0))"
  from on_mouse_report_run [OF _ d, of 0 m] inv obtain m' where
    m': "on_mouse_report 0 (dx, dy) m = Inr m'" "mouse_ok 0 m'" "layers m' = (layers m)[0 := win_move_to (layers m ! 0) ?pos]"
      "fb_conf (lwm_buffer m') = fb_conf (lwm_buffer m)" by (auto simp: screen_inv_def)
  have "0 < length (layers m)" using inv by (auto simp: screen_inv_def)
  then have "same_windows m m'" "win_pos (layers m' ! 0) = ?pos" using m'(3,4) by (auto simp: same_windows_def lwm_format_def win_move_to_def nth_list_update)
  moreover have "screen_inv con m'" using inv m'(2,3) by (simp add: screen_inv_def)
  moreover have "fb_resolution (lwm_buffer m') = fb_resolution (lwm_buffer m)" using m'(4) by (simp add: fb_resolution_def)
  ultimately show ?thesis using m'(1) by blast
qed

text \<open>Task B: its window, and a round of its loop.\<close>

definition taskB_window :: "nat \<Rightarrow> layered_window_manager \<Rightarrow> bool" where
  "taskB_window h m \<longleftrightarrow> 2 < h \<and> h < length (layers m) \<and> win_width (layers m ! h) = 160 \<and> win_height (layers m ! h) = 52"

lemma taskB_window_same: "\<lbrakk>taskB_window h m; same_windows m m'\<rbrakk> \<Longrightarrow> taskB_window h m'"
  by (simp add: taskB_window_def same_windows_def)

lemma taskB_round_ok:
  assumes inv: "screen_inv con m" and w: "taskB_window h m" and c: "0 \<le> cnt" "cnt < 2 ^ 31 - 1"
  shows "\<exists>m'. taskB_round h (cnt, m) = Inr (cnt + 1, m') \<and> screen_inv con m' \<and> same_windows m m'"
proof -
  have l: "h < length (layers m)" "h \<noteq> 2" "win_width (layers m ! h) = 160" "win_height (layers m ! h) = 52"
    using w by (auto simp: taskB_window_def)
  from taskB_round_run [OF screen_inv_wf [OF inv] l(1,3,4) c] obtain c where
    c: "taskB_round h (cnt, m) = Inr (cnt + 1, m\<lparr>layers := (layers m)[h := (layers m ! h)\<lparr>win_buffer := c\<rparr>]\<rparr>)"
      "lwm_wf (m\<lparr>layers := (layers m)[h := (layers m ! h)\<lparr>win_buffer := c\<rparr>]\<rparr>)" by blast
  then obtain m' where m': "taskB_round h (cnt, m) = Inr (cnt + 1, m')" "repainted h m m'" unfolding repainted_def by fastforce
  then show ?thesis using repainted_other [OF m'(2) l(1) inv l(2)] repainted_windows [OF m'(2) l(1)] by blast
qed

lemma initialize_taskB_window_ok:
  assumes inv: "screen_inv con m"
  shows "\<exists>h m'. initialize_taskB_window (Some (lwm_format m)) m = Inr (h, m') \<and> screen_inv con m' \<and> taskB_window h m'
    \<and> lwm_format m' = lwm_format m"
proof -
  have wf: "lwm_wf m" and l: "2 < length (layers m)" using inv by (auto simp: screen_inv_def mouse_ok_def)
  obtain w0 where w0: "window_new (Some (lwm_format m)) 160 52 = Inr w0" "window_wf (lwm_format m) w0" "win_width w0 = 160" "win_height w0 = 52"
    using window_new_wf [of 160 52 "lwm_format m"] by auto
  let ?w1 = "win_move_to w0 (100, 200)"
  have w1: "window_wf (lwm_format m) ?w1" using w0(2-4) window_wfD(4,5) [OF w0(2)]
    by (auto simp: window_wf_def win_move_to_def copy_pos_ok_def)
  note wd = window_back_dims [OF w1]
  let ?b = "back_buf (win_buffer ?w1)"
  obtain b where b: "draw_window ?b (as_bytes ''taskB!'') = Inr b" "fb_wf b" "fb_conf b = fb_conf ?b"
    using draw_window_paints [OF fbw.paints_refl [OF wd(2)], of 160 52 "as_bytes ''taskB!''"] wd(1) w0(3,4)
    by (auto simp: as_bytes_def fbw.paints_def win_move_to_def)
  from write_flush [where f = "\<lambda>back. draw_window back (as_bytes ''taskB!'')", OF w1 b] obtain c0 c where
    c: "write_with (win_buffer ?w1) (\<lambda>back. draw_window back (as_bytes ''taskB!'')) = Inr c0" "canvas_flush c0 = Inr c"
      "window_wf (lwm_format m) (?w1\<lparr>win_buffer := c\<rparr>)" by blast
  let ?w = "?w1\<lparr>win_buffer := c\<rparr>" and ?h = "length (layers m)"
  let ?m1 = "m\<lparr>layers := layers m @ [?w]\<rparr>"
  note n = new_layer_wf [OF wf c(3)]
  from up_down_wf [OF n(2), of ?h 2] up_down_spec [of ?m1 ?h 2] obtain m' where
    m': "up_down ?m1 ?h 2 = Inr m'" "lwm_wf m'" "layers m' = layers m @ [?w]" "lwm_buffer m' = lwm_buffer m" by auto
  have "initialize_taskB_window (Some (lwm_format m)) m = Inr (?h, m')"
    using w0(1) c(1,2) n(1) m'(1) by (simp add: initialize_taskB_window_def Let_def)
  moreover have "taskB_window ?h m'" using l m'(3) w0(3,4) by (simp add: taskB_window_def win_move_to_def)
  moreover have "screen_inv con m'" using inv m'(2-4) l by (simp add: screen_inv_def mouse_ok_def nth_append Let_def)
  ultimately show ?thesis using m'(4) by (auto simp: lwm_format_def)
qed

section \<open>The screen after the boot\<close>

lemma screen_boot:
  assumes raw: "raw_ok raw" and d: "fbr_horizontal_resolution raw + 15 < 2 ^ 31 - 128" "fbr_vertical_resolution raw + 24 < 2 ^ 31 - 128"
  shows "\<exists>dflt m0 m1 con m. initialize_winmgr raw = Inr (dflt, m0) \<and> initialize_windows dflt m0 = Inr (0, 1, m1)
    \<and> init_console dflt m1 fg bg = Inr (con, m) \<and> screen_inv con m \<and> dflt = Some (lwm_format m)"
proof -
  from desktop_boot_spec [OF raw, of fg bg] obtain dflt m0 m1 con m mw tw cw where
    b: "initialize_winmgr raw = Inr (dflt, m0)" "initialize_windows dflt m0 = Inr (0, 1, m1)" "init_console dflt m1 fg bg = Inr (con, m)"
    and m: "lwm_wf m" "con_layer con = 2" "con_wf con (back_buf (win_buffer (layers m ! 2)))" "dflt = Some (lwm_format m)" "layers m = [mw, tw, cw]"
      "mouse_window dflt = Inr mw" "test_window dflt = Inr tw" "fb_resolution (lwm_buffer m) = (fbr_horizontal_resolution raw, fbr_vertical_resolution raw)"
    by blast
  have mw: "win_width mw = 15" "win_height mw = 24" "win_pos mw = (0, 0)" using mouse_window_spec [of "lwm_format m"] m(4,6) by auto
  have tw: "win_width tw = 160" "win_height tw = 68" using test_window_spec [of "lwm_format m"] m(4,7) by auto
  have "mouse_ok 0 m" using m(1,5,8) mw d by (simp add: mouse_ok_def)
  then have "screen_inv con m" using m(2,3,5) tw by (simp add: screen_inv_def)
  then show ?thesis using b m(4) by blast
qed

section \<open>Output at the start\<close>

lemma prints_ok:
  assumes "screen_inv con m"
  shows "\<exists>con' m'. foldM print texts (con, m) = Inr (con', m') \<and> screen_inv con' m' \<and> same_windows m m'"
  using assms
proof (induction texts arbitrary: con m)
  case Nil
  then show ?case by simp
next
  case (Cons l texts)
  from print_ok [OF Cons.prems, of l] obtain con1 m1 where 1: "print l (con, m) = Inr (con1, m1)" "screen_inv con1 m1" "same_windows m m1" by blast
  from Cons.IH [OF 1(2)] obtain con2 m2 where "foldM print texts (con1, m1) = Inr (con2, m2)" "screen_inv con2 m2" "same_windows m1 m2" by blast
  then show ?case using 1(1) same_windows_trans [OF 1(3)] by simp
qed

text \<open>Lines are printed as texts.\<close>

lemma println_prints: "foldM println lines s = foldM print (concat (map (\<lambda>l. [l, [as_bytes [CHR 0x0A]]]) lines)) s"
proof (induction lines arbitrary: s)
  case Nil
  then show ?case by simp
next
  case (Cons l lines)
  have e: "foldM println lines = foldM print (concat (map (\<lambda>l. [l, [as_bytes [CHR 0x0A]]]) lines))" using Cons.IH by (rule ext)
  have "println l s = rbind (print l s) (print [as_bytes [CHR 0x0A]])" by (simp add: println_def)
  then show ?case by (cases "print l s") (simp_all add: e)
qed

lemma lines_ok:
  assumes "screen_inv con m"
  shows "\<exists>con' m'. foldM println lines (con, m) = Inr (con', m') \<and> screen_inv con' m' \<and> same_windows m m'"
  unfolding println_prints by (rule prints_ok [OF assms])

end
