(* ===== verification/Kernel.thy ===== *)
theory Kernel
  imports Timer Task Screen
begin

text \<open>
  The running kernel: the interrupt handlers and the main loop of \<^verbatim>\<open>kernel/src/main.rs\<close>, together with the event queue, the
  timers, the two tasks and the screen they work on. The main loop and task B run in any interleaving with the interrupts
  and are switched by the timer. A step of a task is a stretch of code between two points at which an interrupt can make a
  difference: what runs with interrupts disabled or inside one lock is one step.

  The handler of the USB stack, \<^verbatim>\<open>usb::on_xhc_interrupt\<close>, is the argument \<open>usb\<close> here; the root theory instantiates it.
\<close>

section \<open>State\<close>

text \<open>
  Where the main task is: at the start, when it arms the timers 1 and 2 (\<open>Get_Tick\<close> before \<^verbatim>\<open>get_current_tick\<close>, \<open>Arm\<close> after
  it), at the top of its loop (\<open>Wait\<close>), or at work on a message.
\<close>

datatype main_pc =
    Get_Tick u64
  | Arm u64 nat
  | Wait
  | Draw "message option"
  | Paint "message option" nat
  | Dispatch "message option"
  | Announce u64 nat
  | Rearm u64 nat

datatype taskB_pc = B_Start | B_Loop nat int

datatype task_id = Main_Task | Task_B

text \<open>
  The statics: the event queue, the timers, the layers with the default pixel format, the console and the state of the USB
  stack; the queue of the task contexts and the task that runs; the writes to the registers of the local APIC.
\<close>

record 'u kernel =
  k_events :: message_queue
  k_timer :: timer_manager
  k_format :: "pixel_format option"
  k_layers :: layered_window_manager
  k_console :: console
  k_usb :: 'u
  k_running :: task_id
  k_ctxs :: "task_id list"
  k_main :: main_pc
  k_taskB :: taskB_pc
  k_lapic :: "(addr \<times> nat) list"

type_synonym 'u usb_handler =
  "'u \<times> console \<times> layered_window_manager \<Rightarrow> ('u \<times> console \<times> layered_window_manager) res option"

section \<open>Interrupt handlers\<close>

definition notify_end_of_interrupt :: "(addr \<times> nat) list" where
  "notify_end_of_interrupt = [(0xfee000b0, 0)]"

definition xhci_interrupt_handler :: "'u kernel \<Rightarrow> 'u kernel res" where
  "xhci_interrupt_handler k =
     rbind (mq_push (k_events k) Xhci) (\<lambda>(_, q).
     Inr (k\<lparr>k_events := q, k_lapic := k_lapic k @ notify_end_of_interrupt\<rparr>))"

text \<open>\<open>front\<close>: how many contexts are in the first piece of the queue of the task manager, as in \<^const>\<open>switch_tasks\<close>.\<close>

definition lapic_interrupt_handler :: "nat \<Rightarrow> 'u kernel \<Rightarrow> 'u kernel res option" where
  "lapic_interrupt_handler front k =
     cbind (tm_tick (k_timer k) 1 (k_events k)) (\<lambda>(task_timer_timeout, t, q).
     let k = k\<lparr>k_timer := t, k_events := q, k_lapic := k_lapic k @ notify_end_of_interrupt\<rparr> in
     if task_timer_timeout then
       cbind (Some (switch_tasks front (k_running k) (k_ctxs k))) (\<lambda>(new_task, ctxs).
       Some (Inr (k\<lparr>k_running := new_task, k_ctxs := ctxs\<rparr>)))
     else Some (Inr k))"

section \<open>The main loop\<close>

definition get_current_tick :: "'u kernel \<Rightarrow> nat" where
  "get_current_tick k = tmg_tick (k_timer k)"

definition add_timer :: "nat \<Rightarrow> u64 \<Rightarrow> 'u kernel \<Rightarrow> 'u kernel" where
  "add_timer timeout val k = k\<lparr>k_timer := tm_add_timer (k_timer k) timeout val\<rparr>"

text \<open>Timer 1 is armed for 200 ticks, timer 2 for 600.\<close>

definition timer_interval :: "u64 \<Rightarrow> nat" where
  "timer_interval val = (if val = 1 then 200 else 600)"

definition arm_timer :: "u64 \<Rightarrow> nat \<Rightarrow> main_pc \<Rightarrow> 'u kernel \<Rightarrow> 'u kernel res" where
  "arm_timer val tick pc k =
     rbind (usize_add tick (timer_interval val)) (\<lambda>timeout.
     Inr ((add_timer timeout val k)\<lparr>k_main := pc\<rparr>))"

text \<open>The top of the loop: with the interrupts off, look into the queue and take the first message, if any.\<close>

definition take_message :: "'u kernel \<Rightarrow> 'u kernel res" where
  "take_message k =
     (if mq_cnt (k_events k) = 0 then Inr k
      else rbind (mq_pop (k_events k)) (\<lambda>(msg, q). Inr (k\<lparr>k_events := q, k_main := Draw msg\<rparr>)))"

definition timer_line :: "u64 \<Rightarrow> nat \<Rightarrow> u8 list list" where
  "timer_line val tick = [as_bytes ''tick '', dec_string tick, as_bytes (if val = 1 then '': timer 1'' else '': timer 2'')]"

fun main_step :: "'u usb_handler \<Rightarrow> main_pc \<Rightarrow> 'u kernel \<Rightarrow> 'u kernel res option" where
  "main_step usb (Get_Tick val) k = Some (Inr (k\<lparr>k_main := Arm val (get_current_tick k)\<rparr>))"
| "main_step usb (Arm val tick) k = Some (arm_timer val tick (if val = 1 then Get_Tick 2 else Wait) k)"
| "main_step usb Wait k = Some (take_message k)"
| "main_step usb (Draw msg) k = Some (Inr (k\<lparr>k_main := Paint msg (get_current_tick k)\<rparr>))"
| "main_step usb (Paint msg tick) k =
     Some (rbind (main_loop_draw 1 tick (k_layers k)) (\<lambda>m. Inr (k\<lparr>k_layers := m, k_main := Dispatch msg\<rparr>)))"
| "main_step usb (Dispatch msg) k = (case msg of
     Some Xhci \<Rightarrow>
       cbind (usb (k_usb k, k_console k, k_layers k)) (\<lambda>(u, con, m).
       Some (Inr (k\<lparr>k_usb := u, k_console := con, k_layers := m, k_main := Wait\<rparr>)))
   | Some (TimerTimeout val) \<Rightarrow>
       if val = 1 \<or> val = 2 then Some (Inr (k\<lparr>k_main := Announce val (get_current_tick k)\<rparr>))
       else Some (Inr (k\<lparr>k_main := Wait\<rparr>))
   | None \<Rightarrow> Some (Inr (k\<lparr>k_main := Wait\<rparr>)))"
| "main_step usb (Announce val tick) k =
     Some (rbind (println (timer_line val tick) (k_console k, k_layers k)) (\<lambda>(con, m).
     Inr (k\<lparr>k_console := con, k_layers := m, k_main := Rearm val tick\<rparr>)))"
| "main_step usb (Rearm val tick) k = Some (arm_timer val tick Wait k)"

fun taskB_step :: "taskB_pc \<Rightarrow> 'u kernel \<Rightarrow> 'u kernel res" where
  "taskB_step B_Start k =
     rbind (initialize_taskB_window (k_format k) (k_layers k)) (\<lambda>(h, m). Inr (k\<lparr>k_layers := m, k_taskB := B_Loop h 0\<rparr>))"
| "taskB_step (B_Loop h cnt) k =
     rbind (taskB_round h (cnt, k_layers k)) (\<lambda>(cnt, m). Inr (k\<lparr>k_layers := m, k_taskB := B_Loop h cnt\<rparr>))"

text \<open>What can happen next: an interrupt, or a step of the task that runs.\<close>

datatype kernel_event = Xhci_Irq | Timer_Irq nat | Run

fun kernel_step :: "'u usb_handler \<Rightarrow> kernel_event \<Rightarrow> 'u kernel \<Rightarrow> 'u kernel res option" where
  "kernel_step usb Xhci_Irq k = Some (xhci_interrupt_handler k)"
| "kernel_step usb (Timer_Irq front) k = lapic_interrupt_handler front k"
| "kernel_step usb Run k = (case k_running k of
     Main_Task \<Rightarrow> main_step usb (k_main k) k
   | Task_B \<Rightarrow> Some (taskB_step (k_taskB k) k))"

definition kernel_run :: "'u usb_handler \<Rightarrow> kernel_event list \<Rightarrow> 'u kernel \<Rightarrow> 'u kernel res option" where
  "kernel_run usb = cfoldM (kernel_step usb)"

section \<open>Invariant\<close>

text \<open>The ticks a step remembers are not in the future.\<close>

fun main_pc_ok :: "nat \<Rightarrow> main_pc \<Rightarrow> bool" where
  "main_pc_ok now (Get_Tick val) \<longleftrightarrow> val = 1 \<or> val = 2"
| "main_pc_ok now (Arm val tick) \<longleftrightarrow> (val = 1 \<or> val = 2) \<and> tick \<le> now"
| "main_pc_ok now (Paint msg tick) \<longleftrightarrow> tick \<le> now"
| "main_pc_ok now (Announce val tick) \<longleftrightarrow> (val = 1 \<or> val = 2) \<and> tick \<le> now"
| "main_pc_ok now (Rearm val tick) \<longleftrightarrow> (val = 1 \<or> val = 2) \<and> tick \<le> now"
| "main_pc_ok now _ \<longleftrightarrow> True"

fun taskB_ok :: "layered_window_manager \<Rightarrow> taskB_pc \<Rightarrow> bool" where
  "taskB_ok m B_Start \<longleftrightarrow> True"
| "taskB_ok m (B_Loop h cnt) \<longleftrightarrow> taskB_window h m \<and> 0 \<le> cnt"

fun taskB_count :: "taskB_pc \<Rightarrow> int" where
  "taskB_count B_Start = 0"
| "taskB_count (B_Loop h cnt) = cnt"

fun other_task :: "task_id \<Rightarrow> task_id" where
  "other_task Main_Task = Task_B"
| "other_task Task_B = Main_Task"

definition kernel_inv :: "('u \<Rightarrow> bool) \<Rightarrow> 'u kernel \<Rightarrow> bool" where
  "kernel_inv ok k \<longleftrightarrow> mq_inv (k_events k) \<and> mq_capacity (k_events k) = 1024 \<and> task_inv (k_timer k)
     \<and> screen_inv (k_console k) (k_layers k) \<and> k_format k = Some (lwm_format (k_layers k)) \<and> ok (k_usb k)
     \<and> (\<exists>x. k_ctxs k = [x, other_task (k_running k)])
     \<and> main_pc_ok (get_current_tick k) (k_main k) \<and> taskB_ok (k_layers k) (k_taskB k)"

text \<open>Nothing overflows in the next step: ticks stay below 17 digits, the counter of task B is below the largest \<^verbatim>\<open>i32\<close>.\<close>

definition kernel_room :: "nat \<Rightarrow> 'u kernel \<Rightarrow> bool" where
  "kernel_room n k \<longleftrightarrow> get_current_tick k + n + 600 < 10 ^ 17 \<and> taskB_count (k_taskB k) + int n < 2 ^ 31"

lemma tick_bounds: "kernel_room (Suc n) k \<Longrightarrow> get_current_tick k + 1 + TASK_TIMER_PERIOD < usize_bound"
  by (simp add: kernel_room_def TASK_TIMER_PERIOD_def TIMER_FREQ_def usize_bound_def)

lemma main_pc_ok_mono: "\<lbrakk>main_pc_ok now pc; now \<le> now'\<rbrakk> \<Longrightarrow> main_pc_ok now' pc"
  by (cases pc) auto

lemma taskB_ok_same: "\<lbrakk>taskB_ok m pc; same_windows m m'\<rbrakk> \<Longrightarrow> taskB_ok m' pc"
  by (cases pc) (auto intro: taskB_window_same)

lemma other_other [simp]: "other_task (other_task t) = t"
  by (cases t) auto

section \<open>The interrupts keep the invariant\<close>

lemma xhci_irq_ok:
  assumes "kernel_inv ok k"
  shows "\<exists>q. xhci_interrupt_handler k = Inr (k\<lparr>k_events := q, k_lapic := k_lapic k @ notify_end_of_interrupt\<rparr>)
    \<and> mq_contents q = take 1024 (mq_contents (k_events k) @ [Xhci])
    \<and> kernel_inv ok (k\<lparr>k_events := q, k_lapic := k_lapic k @ notify_end_of_interrupt\<rparr>)"
proof -
  have inv: "mq_inv (k_events k)" "mq_capacity (k_events k) = 1024" using assms by (auto simp: kernel_inv_def)
  from mq.push_ignore [OF inv(1), of Xhci] inv(2) obtain r q where
    q: "mq_push (k_events k) Xhci = Inr (r, q)" "mq_inv q" "mq_capacity q = 1024" "mq_contents q = take 1024 (mq_contents (k_events k) @ [Xhci])"
    by metis
  have "kernel_inv ok (k\<lparr>k_events := q, k_lapic := k_lapic k @ notify_end_of_interrupt\<rparr>)"
    using assms q(2,3) by (auto simp: kernel_inv_def get_current_tick_def)
  then show ?thesis using q by (intro exI [of _ q]) (simp add: xhci_interrupt_handler_def del: take_append)
qed

text \<open>The timer interrupt: \<open>es\<close> are the timers that expire.\<close>

definition timer_irq_post :: "timer list \<Rightarrow> 'u kernel \<Rightarrow> 'u kernel \<Rightarrow> bool" where
  "timer_irq_post es k k' \<longleftrightarrow>
     (\<exists>flag. tick_post (get_current_tick k + 1) (tmg_timers (k_timer k)) (k_events k) False es (flag, tmg_timers (k_timer k'), k_events k'))
     \<and> get_current_tick k' = get_current_tick k + 1 \<and> k_main k' = k_main k \<and> k_taskB k' = k_taskB k
     \<and> k_layers k' = k_layers k \<and> k_console k' = k_console k \<and> k_usb k' = k_usb k"

lemma timer_irq_ok:
  assumes inv: "kernel_inv ok k" and room: "kernel_room (Suc n) k" and f: "0 < front"
  shows "\<exists>es k'. lapic_interrupt_handler front k = Some (Inr k') \<and> kernel_inv ok k' \<and> timer_irq_post es k k'"
proof -
  let ?now = "get_current_tick k + 1"
  have i: "mq_inv (k_events k)" "task_inv (k_timer k)" "heap_ok timer_le (tmg_timers (k_timer k))"
    using inv by (auto simp: kernel_inv_def task_inv_def)
  note b = tick_bounds [OF room, unfolded get_current_tick_def]
  obtain es flag ts q where
    t: "tm_tick (k_timer k) 1 (k_events k) = Some (Inr (flag, (k_timer k)\<lparr>tmg_tick := tmg_tick (k_timer k) + 1, tmg_timers := ts\<rparr>, q))"
    and post: "tick_post (tmg_tick (k_timer k) + 1) (tmg_timers (k_timer k)) (k_events k) False es (flag, ts, q)"
    by (rule tm_tick_run [OF i(3,1) b])
  let ?t = "(k_timer k)\<lparr>tmg_tick := tmg_tick (k_timer k) + 1, tmg_timers := ts\<rparr>"
  obtain x where "filter_mset is_task (mset (tmg_timers (k_timer k))) = {#x#}" using i(2) by (auto simp: task_inv_def)
  from tm_tick_task [OF i(2,1) b this] t have ti: "task_inv ?t" by auto
  have q: "mq_inv q" "mq_capacity q = 1024" using post inv by (auto simp: tick_post_def kernel_inv_def)
  obtain c where c: "k_ctxs k = [c, other_task (k_running k)]" using inv by (auto simp: kernel_inv_def)
  from switch_tasks_rotates [OF f, of "[other_task (k_running k)]" "k_running k" c] have
    sw: "switch_tasks front (k_running k) (k_ctxs k) = Inr (other_task (k_running k), [other_task (k_running k), k_running k])" by (simp add: c)
  let ?k = "k\<lparr>k_timer := ?t, k_events := q, k_lapic := k_lapic k @ notify_end_of_interrupt\<rparr>"
  let ?k' = "if flag then ?k\<lparr>k_running := other_task (k_running k), k_ctxs := [other_task (k_running k), k_running k]\<rparr> else ?k"
  have "lapic_interrupt_handler front k = Some (Inr ?k')"
    using t sw by (simp add: lapic_interrupt_handler_def Let_def)
  moreover have "kernel_inv ok ?k'"
    using inv ti q c main_pc_ok_mono [of "tmg_tick (k_timer k)" "k_main k"] by (auto simp: kernel_inv_def get_current_tick_def)
  moreover have "timer_irq_post es k ?k'" using post by (auto simp: timer_irq_post_def get_current_tick_def)
  ultimately show ?thesis by blast
qed

section \<open>The steps of the tasks keep it\<close>

text \<open>What the kernel needs of the handler of the USB stack: it returns, and keeps its own invariant and the screen.\<close>

locale usb_interrupt =
  fixes usb :: "'u usb_handler" and ok :: "'u \<Rightarrow> bool"
  assumes handled: "\<lbrakk>ok u; screen_inv con m\<rbrakk> \<Longrightarrow>
    \<exists>u' con' m'. usb (u, con, m) = Some (Inr (u', con', m')) \<and> ok u' \<and> screen_inv con' m' \<and> same_windows m m'"

text \<open>
  A step of the main task: where it goes and which timer it arms depends only on where it is, the tick and the first message.
\<close>

fun next_pc :: "nat \<Rightarrow> message list \<Rightarrow> main_pc \<Rightarrow> main_pc" where
  "next_pc now ms (Get_Tick v) = Arm v now"
| "next_pc now ms (Arm v _) = (if v = 1 then Get_Tick 2 else Wait)"
| "next_pc now ms Wait = (case ms of [] \<Rightarrow> Wait | msg # _ \<Rightarrow> Draw (Some msg))"
| "next_pc now ms (Draw msg) = Paint msg now"
| "next_pc now ms (Paint msg _) = Dispatch msg"
| "next_pc now ms (Dispatch msg) = (case msg of
     Some (TimerTimeout v) \<Rightarrow> if v = 1 \<or> v = 2 then Announce v now else Wait
   | _ \<Rightarrow> Wait)"
| "next_pc now ms (Announce v tick) = Rearm v tick"
| "next_pc now ms (Rearm _ _) = Wait"

fun pc_arms :: "main_pc \<Rightarrow> timer multiset" where
  "pc_arms (Arm v tick) = {#\<lparr>tm_timeout = tick + timer_interval v, tm_value = v\<rparr>#}"
| "pc_arms (Rearm v tick) = {#\<lparr>tm_timeout = tick + timer_interval v, tm_value = v\<rparr>#}"
| "pc_arms _ = {#}"

abbreviation k_pending :: "'u kernel \<Rightarrow> message list" where
  "k_pending k \<equiv> mq_contents (k_events k)"

abbreviation k_timers :: "'u kernel \<Rightarrow> timer multiset" where
  "k_timers k \<equiv> mset (tmg_timers (k_timer k))"

definition main_post :: "'u kernel \<Rightarrow> 'u kernel \<Rightarrow> bool" where
  "main_post k k' \<longleftrightarrow> get_current_tick k' = get_current_tick k \<and> k_taskB k' = k_taskB k \<and> k_running k' = k_running k
     \<and> k_main k' = next_pc (get_current_tick k) (k_pending k) (k_main k)
     \<and> k_timers k' = k_timers k + pc_arms (k_main k)
     \<and> k_pending k' = (if k_main k = Wait then tl (k_pending k) else k_pending k)"

lemma next_pc_ok: "main_pc_ok now pc \<Longrightarrow> main_pc_ok now (next_pc now ms pc)"
  by (cases pc) (auto split: list.split option.split message.split)

lemma kernel_heap: "kernel_inv ok k \<Longrightarrow> heap_ok timer_le (tmg_timers (k_timer k))"
  by (simp add: kernel_inv_def task_inv_def)

lemma arm_timer_ok:
  assumes inv: "kernel_inv ok k" and pc: "val = 1 \<or> val = 2" "tick \<le> get_current_tick k" and room: "kernel_room (Suc n) k"
    and nxt: "pc = next_pc (get_current_tick k) (k_pending k) (k_main k)" "k_main k \<noteq> Wait"
    and arms: "pc_arms (k_main k) = {#\<lparr>tm_timeout = tick + timer_interval val, tm_value = val\<rparr>#}"
  shows "\<exists>k'. arm_timer val tick pc k = Inr k' \<and> kernel_inv ok k' \<and> main_post k k'"
proof -
  have b: "tick + timer_interval val < usize_bound"
    using pc(2) room by (simp add: kernel_room_def timer_interval_def usize_bound_def)
  have v: "val \<noteq> TASK_TIMER_VALUE" using pc(1) by (auto simp: TASK_TIMER_VALUE_def)
  let ?k = "(add_timer (tick + timer_interval val) val k)\<lparr>k_main := pc\<rparr>"
  have i: "task_inv (k_timer k)" using inv by (simp add: kernel_inv_def)
  note t = tm_add_timer_inv [OF i v, of "tick + timer_interval val"]
  have "main_pc_ok (get_current_tick k) pc" using inv nxt(1) next_pc_ok by (simp add: kernel_inv_def)
  then have "kernel_inv ok ?k" using inv t by (simp add: kernel_inv_def add_timer_def get_current_tick_def)
  moreover have "main_post k ?k"
    using t(2) nxt tm.bh.push_law [OF kernel_heap [OF inv], of "\<lparr>tm_timeout = tick + timer_interval val, tm_value = val\<rparr>"] arms
    by (simp add: main_post_def add_timer_def get_current_tick_def tm_add_timer_def)
  moreover have "arm_timer val tick pc k = Inr ?k" using b by (simp add: arm_timer_def res_simps)
  ultimately show ?thesis by blast
qed

lemma take_message_ok:
  assumes inv: "kernel_inv ok k" and pc: "k_main k = Wait"
  shows "\<exists>k'. take_message k = Inr k' \<and> kernel_inv ok k' \<and> main_post k k'"
proof (cases "k_pending k")
  case Nil
  then have "mq_cnt (k_events k) = 0" by (simp add: mq_contents_def)
  then show ?thesis using inv pc Nil by (simp add: take_message_def main_post_def)
next
  case (Cons msg rest)
  then have c: "mq_cnt (k_events k) \<noteq> 0" by (metis length_0_conv length_map length_upt list.distinct(1) minus_nat.diff_0 mq_contents_def)
  have i: "mq_inv (k_events k)" "mq_capacity (k_events k) = 1024" using inv by (auto simp: kernel_inv_def)
  from mq.pop_Cons [OF i(1) Cons] obtain q where
    q: "mq_pop (k_events k) = Inr (Some msg, q)" "mq_inv q" "mq_contents q = rest" "mq_capacity q = 1024" using i(2) by auto
  let ?k = "k\<lparr>k_events := q, k_main := Draw (Some msg)\<rparr>"
  have "kernel_inv ok ?k" using inv q by (simp add: kernel_inv_def get_current_tick_def)
  moreover have "main_post k ?k" using Cons q(3) pc by (simp add: main_post_def get_current_tick_def)
  ultimately show ?thesis using c q(1) Cons by (simp add: take_message_def)
qed

text \<open>A step that only moves on or draws.\<close>

lemma drawn_ok:
  assumes inv: "kernel_inv ok k" and s: "screen_inv con m" "same_windows (k_layers k) m" "ok u"
    and pc: "pc = next_pc (get_current_tick k) (k_pending k) (k_main k)" "k_main k \<noteq> Wait" "pc_arms (k_main k) = {#}"
  shows "kernel_inv ok (k\<lparr>k_usb := u, k_console := con, k_layers := m, k_main := pc\<rparr>)
    \<and> main_post k (k\<lparr>k_usb := u, k_console := con, k_layers := m, k_main := pc\<rparr>)"
proof -
  have "main_pc_ok (get_current_tick k) pc" using inv pc(1) next_pc_ok by (simp add: kernel_inv_def)
  then show ?thesis using assms taskB_ok_same [OF _ s(2), of "k_taskB k"]
    by (simp add: kernel_inv_def main_post_def get_current_tick_def same_windows_def)
qed

lemma moved_ok:
  assumes "kernel_inv ok k" "pc = next_pc (get_current_tick k) (k_pending k) (k_main k)" "k_main k \<noteq> Wait" "pc_arms (k_main k) = {#}"
  shows "kernel_inv ok (k\<lparr>k_main := pc\<rparr>) \<and> main_post k (k\<lparr>k_main := pc\<rparr>)"
proof -
  have "screen_inv (k_console k) (k_layers k)" "ok (k_usb k)" using assms(1) by (auto simp: kernel_inv_def)
  from drawn_ok [OF assms(1) this(1) same_windows_refl this(2) assms(2-4)] show ?thesis by simp
qed

context usb_interrupt
begin

lemma dispatch_ok:
  assumes inv: "kernel_inv ok k" and pc: "k_main k = Dispatch msg"
  shows "\<exists>k'. main_step usb (Dispatch msg) k = Some (Inr k') \<and> kernel_inv ok k' \<and> main_post k k'"
proof (cases "msg = Some Xhci")
  case True
  have "screen_inv (k_console k) (k_layers k)" "ok (k_usb k)" using inv by (auto simp: kernel_inv_def)
  from handled [OF this(2,1)] obtain u' con' m' where
    h: "usb (k_usb k, k_console k, k_layers k) = Some (Inr (u', con', m'))" "ok u'" "screen_inv con' m'" "same_windows (k_layers k) m'" by blast
  from drawn_ok [OF inv h(3,4,2), of Wait] show ?thesis using True pc h(1) by simp
next
  case False
  then have "main_step usb (Dispatch msg) k = Some (Inr (k\<lparr>k_main := next_pc (get_current_tick k) (k_pending k) (k_main k)\<rparr>))"
    using pc by (auto split: option.split message.split)
  then show ?thesis using moved_ok [OF inv refl] pc by simp
qed

lemma main_step_ok:
  assumes inv: "kernel_inv ok k" and room: "kernel_room (Suc n) k"
  shows "\<exists>k'. main_step usb (k_main k) k = Some (Inr k') \<and> kernel_inv ok k' \<and> main_post k k'"
proof -
  have pc: "main_pc_ok (get_current_tick k) (k_main k)" and s: "screen_inv (k_console k) (k_layers k)" and u: "ok (k_usb k)"
    using inv by (auto simp: kernel_inv_def)
  show ?thesis
  proof (cases "k_main k")
    case (Get_Tick v)
    then show ?thesis using moved_ok [OF inv, of "Arm v (get_current_tick k)"] by simp
  next
    case (Arm v tick)
    then show ?thesis using arm_timer_ok [OF inv _ _ room, of v tick "if v = 1 then Get_Tick 2 else Wait"] pc by auto
  next
    case Wait
    then show ?thesis using take_message_ok [OF inv Wait] by auto
  next
    case (Draw msg)
    then show ?thesis using moved_ok [OF inv, of "Paint msg (get_current_tick k)"] by simp
  next
    case (Paint msg tick)
    have "tick < 10 ^ 17" using pc room Paint by (simp add: kernel_room_def)
    from main_loop_draw_ok [OF s this] obtain m where
      m: "main_loop_draw 1 tick (k_layers k) = Inr m" "screen_inv (k_console k) m" "same_windows (k_layers k) m" by blast
    from drawn_ok [OF inv m(2,3) u, of "Dispatch msg"] show ?thesis using Paint m(1) by simp
  next
    case (Dispatch msg)
    then show ?thesis using dispatch_ok [OF inv Dispatch] by simp
  next
    case (Announce v tick)
    from println_ok [OF s, of "timer_line v tick"] obtain con m where
      m: "println (timer_line v tick) (k_console k, k_layers k) = Inr (con, m)" "screen_inv con m" "same_windows (k_layers k) m" by blast
    from drawn_ok [OF inv m(2,3) u, of "Rearm v tick"] show ?thesis using Announce m(1) by simp
  next
    case (Rearm v tick)
    then show ?thesis using arm_timer_ok [OF inv _ _ room, of v tick Wait] pc by auto
  qed
qed

end

lemma taskB_step_ok:
  assumes inv: "kernel_inv ok k" and room: "kernel_room (Suc n) k"
  shows "\<exists>k'. taskB_step (k_taskB k) k = Inr k' \<and> kernel_inv ok k' \<and> taskB_count (k_taskB k') \<le> taskB_count (k_taskB k) + 1
    \<and> (\<exists>m pc. k' = k\<lparr>k_layers := m, k_taskB := pc\<rparr>)"
proof -
  have s: "screen_inv (k_console k) (k_layers k)" and f: "k_format k = Some (lwm_format (k_layers k))" and b: "taskB_ok (k_layers k) (k_taskB k)"
    using inv by (auto simp: kernel_inv_def)
  show ?thesis
  proof (cases "k_taskB k")
    case B_Start
    from initialize_taskB_window_ok [OF s] obtain h m where
      m: "initialize_taskB_window (k_format k) (k_layers k) = Inr (h, m)" "screen_inv (k_console k) m" "taskB_window h m"
        "lwm_format m = lwm_format (k_layers k)" using f by metis
    have "kernel_inv ok (k\<lparr>k_layers := m, k_taskB := B_Loop h 0\<rparr>)"
      using inv m(2-4) by (auto simp: kernel_inv_def get_current_tick_def)
    then show ?thesis using B_Start m(1) by auto
  next
    case (B_Loop h cnt)
    then have c: "0 \<le> cnt" "cnt < 2 ^ 31 - 1" "taskB_window h (k_layers k)" using b room by (auto simp: kernel_room_def)
    from taskB_round_ok [OF s c(3,1,2)] obtain m where
      m: "taskB_round h (cnt, k_layers k) = Inr (cnt + 1, m)" "screen_inv (k_console k) m" "same_windows (k_layers k) m" by blast
    have "kernel_inv ok (k\<lparr>k_layers := m, k_taskB := B_Loop h (cnt + 1)\<rparr>)"
      using inv m(2,3) taskB_window_same [OF c(3) m(3)] c(1) by (auto simp: kernel_inv_def get_current_tick_def same_windows_def)
    then show ?thesis using B_Loop m(1) by auto
  qed
qed

section \<open>Runs\<close>

text \<open>What one event does to the parts that the timers depend on.\<close>

definition step_post :: "kernel_event \<Rightarrow> 'u kernel \<Rightarrow> 'u kernel \<Rightarrow> bool" where
  "step_post ev k k' \<longleftrightarrow> (case ev of
     Xhci_Irq \<Rightarrow> k_pending k' = take 1024 (k_pending k @ [Xhci]) \<and> k_timers k' = k_timers k \<and> k_main k' = k_main k
   | Timer_Irq _ \<Rightarrow> \<exists>es. timer_irq_post es k k'
   | Run \<Rightarrow> main_post k k' \<or> k_pending k' = k_pending k \<and> k_timers k' = k_timers k \<and> k_main k' = k_main k)"

context usb_interrupt
begin

lemma kernel_step_ok:
  assumes inv: "kernel_inv ok k" and room: "kernel_room (Suc n) k" and ev: "ev \<noteq> Timer_Irq 0"
  shows "\<exists>k'. kernel_step usb ev k = Some (Inr k') \<and> kernel_inv ok k' \<and> kernel_room n k' \<and> step_post ev k k'"
proof (cases ev)
  case Xhci_Irq
  then show ?thesis using xhci_irq_ok [OF inv] room
    by (auto simp: step_post_def kernel_room_def get_current_tick_def)
next
  case (Timer_Irq front)
  from timer_irq_ok [OF inv room, of front] ev Timer_Irq obtain es k' where
    k': "lapic_interrupt_handler front k = Some (Inr k')" "kernel_inv ok k'" "timer_irq_post es k k'" by auto
  then have "kernel_room n k'" using room by (simp add: kernel_room_def timer_irq_post_def)
  then show ?thesis using k' Timer_Irq by (auto simp: step_post_def)
next
  case Run
  show ?thesis
  proof (cases "k_running k")
    case Main_Task
    from main_step_ok [OF inv room] obtain k' where "main_step usb (k_main k) k = Some (Inr k')" "kernel_inv ok k'" "main_post k k'" by blast
    then show ?thesis using Run Main_Task room by (auto simp: step_post_def kernel_room_def main_post_def)
  next
    case Task_B
    from taskB_step_ok [OF inv room] obtain k' where
      k': "taskB_step (k_taskB k) k = Inr k'" "kernel_inv ok k'" "taskB_count (k_taskB k') \<le> taskB_count (k_taskB k) + 1"
        "\<exists>m pc. k' = k\<lparr>k_layers := m, k_taskB := pc\<rparr>" by blast
    then have "kernel_room n k'" using room by (auto simp: kernel_room_def get_current_tick_def)
    then show ?thesis using k' Run Task_B by (auto simp: step_post_def)
  qed
qed

text \<open>Any interleaving runs to its end, and what every step keeps holds there.\<close>

lemma kernel_run_ok:
  assumes "kernel_inv ok k" "kernel_room (length evs + n) k" "Timer_Irq 0 \<notin> set evs" "I k"
    and "\<And>ev k k'. \<lbrakk>kernel_inv ok k; I k; step_post ev k k'\<rbrakk> \<Longrightarrow> I k'"
  shows "\<exists>k'. kernel_run usb evs k = Some (Inr k') \<and> kernel_inv ok k' \<and> kernel_room n k' \<and> I k'"
  using assms(1-4)
proof (induction evs arbitrary: k)
  case Nil
  then show ?case by (simp add: kernel_run_def)
next
  case (Cons ev evs)
  from kernel_step_ok [of k "length evs + n" ev] Cons.prems obtain k1 where
    k1: "kernel_step usb ev k = Some (Inr k1)" "kernel_inv ok k1" "kernel_room (length evs + n) k1" "step_post ev k k1" by auto
  have "I k1" using assms(5) [OF Cons.prems(1,4) k1(4)] .
  from Cons.IH [OF k1(2,3) _ this] Cons.prems(3) k1(1) show ?case by (simp add: kernel_run_def)
qed

end

section \<open>Where the timers are\<close>

text \<open>Timer \<open>v\<close> is in the heap, a message in the queue, or in the hands of the main task.\<close>

fun pc_message :: "main_pc \<Rightarrow> message option" where
  "pc_message (Draw msg) = msg"
| "pc_message (Paint msg _) = msg"
| "pc_message (Dispatch msg) = msg"
| "pc_message (Announce v _) = Some (TimerTimeout v)"
| "pc_message (Rearm v _) = Some (TimerTimeout v)"
| "pc_message _ = None"

fun pc_starts :: "u64 \<Rightarrow> main_pc \<Rightarrow> bool" where
  "pc_starts v (Get_Tick w) \<longleftrightarrow> w = v \<or> w = 1 \<and> v = 2"
| "pc_starts v (Arm w _) \<longleftrightarrow> w = v \<or> w = 1 \<and> v = 2"
| "pc_starts v _ \<longleftrightarrow> False"

definition held :: "u64 \<Rightarrow> main_pc \<Rightarrow> nat" where
  "held v pc = (if pc_starts v pc \<or> pc_message pc = Some (TimerTimeout v) then 1 else 0)"

definition in_heap :: "u64 \<Rightarrow> timer multiset \<Rightarrow> nat" where
  "in_heap v ts = size (filter_mset (\<lambda>t. tm_value t = v) ts)"

definition places :: "u64 \<Rightarrow> 'u kernel \<Rightarrow> nat" where
  "places v k = in_heap v (k_timers k) + count_list (k_pending k) (TimerTimeout v) + held v (k_main k)"

lemma in_heap_union [simp]: "in_heap v (M + N) = in_heap v M + in_heap v N"
  by (simp add: in_heap_def)

lemma next_pc_held:
  assumes "main_pc_ok now pc" "v = 1 \<or> v = 2" "pc \<noteq> Wait"
  shows "held v (next_pc now ms pc) + in_heap v (pc_arms pc) = held v pc"
  using assms by (cases pc) (auto simp: held_def in_heap_def split: option.split message.split)

lemma main_post_places:
  assumes post: "main_post k k'" and pc: "main_pc_ok (get_current_tick k) (k_main k)" and v: "v = 1 \<or> v = 2"
  shows "places v k' = places v k"
proof (cases "k_main k = Wait")
  case True
  then show ?thesis using post by (cases "k_pending k") (auto simp: main_post_def places_def held_def in_heap_def)
next
  case False
  from next_pc_held [OF pc v False, of "k_pending k"] post False show ?thesis by (simp add: main_post_def places_def)
qed

lemma tick_post_heap:
  assumes post: "tick_post now ts q False es (flag, ts', q')" and v: "v \<noteq> TASK_TIMER_VALUE"
  shows "in_heap v (mset ts') + count_list (timer_messages es) (TimerTimeout v) = in_heap v (mset ts)"
proof -
  let ?V = "\<lambda>t. tm_value t = v"
  have "count_list (timer_messages es) (TimerTimeout v) = length (filter ?V es)"
    using v by (induction es) (auto simp: timer_messages_def is_task_def)
  also have "\<dots> = in_heap v (mset es)" by (simp add: in_heap_def flip: mset_filter)
  finally have es: "count_list (timer_messages es) (TimerTimeout v) = in_heap v (filter_mset (\<lambda>t. is_over t now) (mset ts))"
    using post by (simp add: tick_post_def)
  have "in_heap v (replicate_mset n (rearmed now)) = 0" for n
    using v by (induction n) (auto simp: in_heap_def rearmed_def)
  then have "in_heap v (mset ts') = in_heap v (filter_mset (\<lambda>t. \<not> is_over t now) (mset ts))"
    using post by (simp add: tick_post_def)
  then show ?thesis using es multiset_partition [of "mset ts" "\<lambda>t. is_over t now"] by (metis add.commute in_heap_union)
qed

lemma count_list_take: "count_list (take n xs) x \<le> count_list xs x"
  by (metis append_take_drop_id count_list_append le_add1)

lemma timer_irq_places:
  assumes post: "timer_irq_post es k k'" and v: "v \<noteq> TASK_TIMER_VALUE" and c: "mq_capacity (k_events k) = 1024"
  shows "places v k' \<le> places v k"
    and "length (k_pending k) + length (timer_messages es) \<le> 1024 \<Longrightarrow> places v k' = places v k"
proof -
  obtain flag where t: "tick_post (get_current_tick k + 1) (tmg_timers (k_timer k)) (k_events k) False es (flag, tmg_timers (k_timer k'), k_events k')"
    and m: "k_main k' = k_main k" using post by (auto simp: timer_irq_post_def)
  have q: "k_pending k' = take 1024 (k_pending k @ timer_messages es)" using t c by (simp add: tick_post_def)
  note h = tick_post_heap [OF t v]
  show "places v k' \<le> places v k"
    using h count_list_take [of 1024 "k_pending k @ timer_messages es" "TimerTimeout v"] unfolding places_def q m by simp
  show "places v k' = places v k" if "length (k_pending k) + length (timer_messages es) \<le> 1024"
    using h that unfolding places_def q m by simp
qed

text \<open>Only the task timer and the timers 1 and 2 exist.\<close>

definition known_timers :: "'u kernel \<Rightarrow> bool" where
  "known_timers k \<longleftrightarrow> (\<forall>t \<in># k_timers k. tm_value t = TASK_TIMER_VALUE \<or> tm_value t = 1 \<or> tm_value t = 2)
     \<and> set (k_pending k) \<subseteq> {Xhci, TimerTimeout 1, TimerTimeout 2}"

lemma tick_post_known:
  assumes post: "tick_post now ts q False es (flag, ts', q')"
    and ts: "\<forall>t \<in> set ts. tm_value t = TASK_TIMER_VALUE \<or> tm_value t = 1 \<or> tm_value t = 2"
  shows "\<forall>t \<in> set ts'. tm_value t = TASK_TIMER_VALUE \<or> tm_value t = 1 \<or> tm_value t = 2"
    and "set (timer_messages es) \<subseteq> {TimerTimeout 1, TimerTimeout 2}"
proof -
  have "set_mset (mset ts') \<subseteq> insert (rearmed now) (set ts)" "set_mset (mset es) \<subseteq> set ts"
    using post by (auto simp: tick_post_def in_replicate_mset)
  then have "set ts' \<subseteq> insert (rearmed now) (set ts)" "set es \<subseteq> set ts" by simp_all
  then show "\<forall>t \<in> set ts'. tm_value t = TASK_TIMER_VALUE \<or> tm_value t = 1 \<or> tm_value t = 2"
    "set (timer_messages es) \<subseteq> {TimerTimeout 1, TimerTimeout 2}"
    using ts by (auto simp: rearmed_def timer_messages_def is_task_def)
qed

lemma step_known:
  assumes "kernel_inv ok k" "known_timers k" "step_post ev k k'"
  shows "known_timers k'"
proof (cases ev)
  case Xhci_Irq
  then show ?thesis using assms(2,3) by (auto simp: step_post_def known_timers_def dest: in_set_takeD)
next
  case (Timer_Irq front)
  then obtain es flag where
    t: "tick_post (get_current_tick k + 1) (tmg_timers (k_timer k)) (k_events k) False es (flag, tmg_timers (k_timer k'), k_events k')"
    using assms(3) by (auto simp: step_post_def timer_irq_post_def)
  have "set (k_pending k') \<subseteq> set (k_pending k) \<union> set (timer_messages es)" using t by (auto simp: tick_post_def dest: in_set_takeD)
  then show ?thesis using tick_post_known [OF t] assms(2) by (auto simp: known_timers_def)
next
  case Run
  have a: "\<forall>t \<in># pc_arms (k_main k). tm_value t = 1 \<or> tm_value t = 2" using assms(1) by (cases "k_main k") (auto simp: kernel_inv_def)
  obtain N where N: "k_timers k' = k_timers k + N" "\<forall>t \<in># N. tm_value t = 1 \<or> tm_value t = 2"
  proof -
    have "k_timers k' = k_timers k + pc_arms (k_main k) \<or> k_timers k' = k_timers k + {#}" using assms(3) Run by (auto simp: step_post_def main_post_def)
    then show thesis using that a by (metis empty_iff set_mset_empty)
  qed
  have "set_mset (k_timers k') = set_mset (k_timers k) \<union> set_mset N" by (simp only: N(1) set_mset_union)
  moreover have "set (k_pending k') \<subseteq> set (k_pending k)"
    using assms(3) Run by (cases "k_pending k") (auto simp: step_post_def main_post_def split: if_splits)
  ultimately show ?thesis using assms(2) N(2) by (auto simp: known_timers_def)
qed

lemma length_known: "set xs \<subseteq> {Xhci, TimerTimeout 1, TimerTimeout 2} \<Longrightarrow>
    length xs = count_list xs Xhci + count_list xs (TimerTimeout 1) + count_list xs (TimerTimeout 2)"
  by (induction xs) auto

text \<open>No timer is lost in a step while the queue has room for both.\<close>

lemma step_places:
  assumes inv: "kernel_inv ok k" and known: "known_timers k" and post: "step_post ev k k'"
    and p: "places 1 k = 1" "places 2 k = 1" and room: "count_list (k_pending k) Xhci \<le> 1022"
  shows "places 1 k' = 1 \<and> places 2 k' = 1"
proof (cases ev)
  case Xhci_Irq
  have "length (k_pending k) \<le> 1024" using mq.contents_bound [of "k_events k"] inv by (simp add: kernel_inv_def)
  then have "count_list (take 1024 (k_pending k @ [Xhci])) (TimerTimeout v) = count_list (k_pending k) (TimerTimeout v)" for v
    by (cases "length (k_pending k) = 1024") auto
  then show ?thesis using post p Xhci_Irq by (simp add: step_post_def places_def)
next
  case (Timer_Irq front)
  then obtain es where t: "timer_irq_post es k k'" using post by (auto simp: step_post_def)
  then obtain flag where tp: "tick_post (get_current_tick k + 1) (tmg_timers (k_timer k)) (k_events k) False es (flag, tmg_timers (k_timer k'), k_events k')"
    by (auto simp: timer_irq_post_def)
  have ms: "set (timer_messages es) \<subseteq> {TimerTimeout 1, TimerTimeout 2}" using tick_post_known(2) [OF tp] known by (simp add: known_timers_def)
  have n: "(1 :: u64) \<noteq> TASK_TIMER_VALUE" "(2 :: u64) \<noteq> TASK_TIMER_VALUE" by (simp_all add: TASK_TIMER_VALUE_def)
  have "Xhci \<notin> set (timer_messages es)" using ms by auto
  then have "length (timer_messages es) = count_list (timer_messages es) (TimerTimeout 1) + count_list (timer_messages es) (TimerTimeout 2)"
    using length_known [of "timer_messages es"] ms count_notin [of Xhci "timer_messages es"] by (simp add: subset_insertI2)
  moreover have "length (k_pending k) = count_list (k_pending k) Xhci + count_list (k_pending k) (TimerTimeout 1) + count_list (k_pending k) (TimerTimeout 2)"
    using known by (intro length_known) (simp add: known_timers_def)
  ultimately have "length (k_pending k) + length (timer_messages es) \<le> 1024"
    using tick_post_heap [OF tp n(1)] tick_post_heap [OF tp n(2)] room p unfolding places_def by linarith
  then show ?thesis using timer_irq_places(2) [OF t] n p inv by (simp add: kernel_inv_def)
next
  case Run
  have "main_pc_ok (get_current_tick k) (k_main k)" using inv by (simp add: kernel_inv_def)
  with main_post_places [of k k' 1] main_post_places [of k k' 2] have "main_post k k' \<Longrightarrow> ?thesis" using p by simp
  then show ?thesis using post Run p by (auto simp: step_post_def places_def)
qed

lemma step_lost:
  assumes inv: "kernel_inv ok k" and post: "step_post ev k k'" and v: "v = 1 \<or> v = 2" and p: "places v k = 0"
  shows "places v k' = 0"
proof (cases ev)
  case Xhci_Irq
  then show ?thesis using post p count_list_take [of 1024 "k_pending k @ [Xhci]" "TimerTimeout v"]
    by (simp add: step_post_def places_def del: take_append)
next
  case (Timer_Irq front)
  have "v \<noteq> TASK_TIMER_VALUE" using v by (auto simp: TASK_TIMER_VALUE_def)
  then show ?thesis using Timer_Irq post p timer_irq_places(1) [of _ k k' v] inv by (auto simp: step_post_def kernel_inv_def)
next
  case Run
  have "main_pc_ok (get_current_tick k) (k_main k)" using inv by (simp add: kernel_inv_def)
  with main_post_places [OF _ this v] have "main_post k k' \<Longrightarrow> ?thesis" using p by metis
  then show ?thesis using post Run p by (auto simp: step_post_def places_def)
qed

context usb_interrupt
begin

lemma timers_kept:
  assumes "kernel_inv ok k" "kernel_room (length evs) k" "Timer_Irq 0 \<notin> set evs" "known_timers k" "places 1 k = 1" "places 2 k = 1"
    and "\<forall>i < length evs. \<forall>k'. kernel_run usb (take i evs) k = Some (Inr k') \<longrightarrow> count_list (k_pending k') Xhci \<le> 1022"
  shows "\<exists>k'. kernel_run usb evs k = Some (Inr k') \<and> kernel_inv ok k' \<and> places 1 k' = 1 \<and> places 2 k' = 1"
  using assms
proof (induction evs arbitrary: k)
  case Nil
  then show ?case by (simp add: kernel_run_def)
next
  case (Cons ev evs)
  from kernel_step_ok [of k "length evs" ev] Cons.prems obtain k1 where
    k1: "kernel_step usb ev k = Some (Inr k1)" "kernel_inv ok k1" "kernel_room (length evs) k1" "step_post ev k k1" by auto
  have "count_list (k_pending k) Xhci \<le> 1022" using Cons.prems(7) [rule_format, of 0 k] by (simp add: kernel_run_def)
  from step_places [OF Cons.prems(1,4) k1(4) Cons.prems(5,6) this] have p: "places 1 k1 = 1" "places 2 k1 = 1" by auto
  have "\<forall>i < length evs. \<forall>k'. kernel_run usb (take i evs) k1 = Some (Inr k') \<longrightarrow> count_list (k_pending k') Xhci \<le> 1022"
  proof (intro allI impI)
    fix i k'
    assume "i < length evs" "kernel_run usb (take i evs) k1 = Some (Inr k')"
    then show "count_list (k_pending k') Xhci \<le> 1022"
      using Cons.prems(7) [rule_format, of "Suc i" k'] k1(1) by (simp add: kernel_run_def)
  qed
  from Cons.IH [OF k1(2,3) _ step_known [OF Cons.prems(1,4) k1(4)] p this] Cons.prems(3) k1(1) show ?case by (simp add: kernel_run_def)
qed

lemma timer_lost:
  assumes inv: "kernel_inv ok k" and room: "kernel_room (Suc (length evs)) k" and evs: "0 < front" "Timer_Irq 0 \<notin> set evs"
    and full: "length (k_pending k) = 1024" "TimerTimeout v \<notin> set (k_pending k)"
    and v: "v = 1 \<or> v = 2" and over: "\<forall>t \<in># k_timers k. tm_value t = v \<longrightarrow> tm_timeout t \<le> get_current_tick k" "held v (k_main k) = 0"
  shows "\<exists>k'. kernel_run usb (Timer_Irq front # evs) k = Some (Inr k') \<and> places v k' = 0"
proof -
  from timer_irq_ok [OF inv room evs(1)] obtain es k1 where
    k1: "lapic_interrupt_handler front k = Some (Inr k1)" "kernel_inv ok k1" "timer_irq_post es k k1" by blast
  then obtain flag where t: "tick_post (get_current_tick k + 1) (tmg_timers (k_timer k)) (k_events k) False es (flag, tmg_timers (k_timer k1), k_events k1)"
    and m: "k_main k1 = k_main k" "get_current_tick k1 = get_current_tick k + 1" "k_taskB k1 = k_taskB k" by (auto simp: timer_irq_post_def)
  have "k_pending k1 = k_pending k" using t full(1) inv by (simp add: tick_post_def kernel_inv_def)
  then have c: "count_list (k_pending k1) (TimerTimeout v) = 0" using full(2) count_notin by metis
  have "tm_value (rearmed (get_current_tick k + 1)) \<noteq> v" using v by (auto simp: rearmed_def TASK_TIMER_VALUE_def)
  moreover have "k_timers k1 = filter_mset (\<lambda>t. \<not> is_over t (get_current_tick k + 1)) (k_timers k)
      + replicate_mset (length (filter is_task es)) (rearmed (get_current_tick k + 1))" using t by (simp add: tick_post_def)
  ultimately have "filter_mset (\<lambda>t. tm_value t = v) (k_timers k1) = {#}"
    using over(1) by (auto simp: filter_mset_eq_conv is_over_def in_replicate_mset)
  then have p: "places v k1 = 0" using c m(1) over(2) by (simp add: places_def in_heap_def)
  have "kernel_room (length evs + 0) k1" using room m(2,3) by (simp add: kernel_room_def)
  from kernel_run_ok [OF k1(2) this evs(2), of "\<lambda>k. places v k = 0"] p step_lost [of ok _ _ _ v] v k1(1)
  show ?thesis by (auto simp: kernel_run_def)
qed

end

section \<open>The main loop drains the queue\<close>

text \<open>The timer that the main loop arms for a message.\<close>

fun turn_arms :: "nat \<Rightarrow> message \<Rightarrow> timer multiset" where
  "turn_arms now Xhci = {#}"
| "turn_arms now (TimerTimeout v) = (if v = 1 \<or> v = 2 then {#\<lparr>tm_timeout = now + timer_interval v, tm_value = v\<rparr>#} else {#})"

text \<open>\<open>k\<close> becomes \<open>k'\<close> when the main task makes \<open>n\<close> steps without an interrupt.\<close>

definition main_runs :: "'u usb_handler \<Rightarrow> ('u \<Rightarrow> bool) \<Rightarrow> nat \<Rightarrow> 'u kernel \<Rightarrow> 'u kernel \<Rightarrow> bool" where
  "main_runs usb ok n k k' \<longleftrightarrow> kernel_run usb (replicate n Run) k = Some (Inr k') \<and> kernel_inv ok k' \<and> k_running k' = Main_Task
     \<and> get_current_tick k' = get_current_tick k \<and> k_taskB k' = k_taskB k"

lemma main_runs_trans:
  assumes "main_runs usb ok a k1 k2" "main_runs usb ok b k2 k3"
  shows "main_runs usb ok (a + b) k1 k3"
  using assms by (simp add: main_runs_def kernel_run_def replicate_add cfoldM_append)

context usb_interrupt
begin

lemma main_runs_1:
  assumes "kernel_inv ok k" "kernel_room (Suc 0) k" "k_running k = Main_Task"
  shows "\<exists>k'. main_runs usb ok 1 k k' \<and> main_post k k'"
proof -
  from main_step_ok [OF assms(1,2)] obtain k' where "main_step usb (k_main k) k = Some (Inr k')" "kernel_inv ok k'" "main_post k k'" by blast
  then show ?thesis using assms(3) by (auto simp: main_runs_def kernel_run_def main_post_def)
qed

lemma main_runs_next:
  assumes r: "main_runs usb ok n k k1" and room: "kernel_room (Suc 0) k"
  shows "\<exists>k2. main_runs usb ok (Suc n) k k2 \<and> main_post k1 k2"
proof -
  have "kernel_room (Suc 0) k1" using r room by (simp add: main_runs_def kernel_room_def)
  with main_runs_1 [of k1] r obtain k2 where "main_runs usb ok 1 k1 k2" "main_post k1 k2" by (auto simp: main_runs_def)
  with main_runs_trans [OF r this(1)] show ?thesis by auto
qed

text \<open>A message is handled in at most six steps.\<close>

lemma main_turn:
  assumes inv: "kernel_inv ok k" and room: "kernel_room (Suc 0) k" and main: "k_running k = Main_Task" "k_main k = Wait"
    and msg: "k_pending k = msg # rest"
  shows "\<exists>n k'. n \<le> 6 \<and> main_runs usb ok n k k' \<and> k_main k' = Wait \<and> k_pending k' = rest \<and> k_timers k' = k_timers k + turn_arms (get_current_tick k) msg"
proof -
  let ?now = "get_current_tick k"
  from main_runs_1 [OF inv room main(1)] main msg obtain k1 where
    k1: "main_runs usb ok 1 k k1" "k_main k1 = Draw (Some msg)" "k_pending k1 = rest" "k_timers k1 = k_timers k" by (auto simp: main_post_def)
  have t: "get_current_tick k1 = ?now" using k1(1) by (simp add: main_runs_def)
  from main_runs_next [OF k1(1) room] k1(2-4) t obtain k2 where
    k2: "main_runs usb ok 2 k k2" "k_main k2 = Paint (Some msg) ?now" "k_pending k2 = rest" "k_timers k2 = k_timers k"
    by (auto simp: main_post_def numeral_2_eq_2)
  from main_runs_next [OF k2(1) room] k2(2-4) obtain k3 where
    k3: "main_runs usb ok 3 k k3" "k_main k3 = Dispatch (Some msg)" "k_pending k3 = rest" "k_timers k3 = k_timers k"
    by (auto simp: main_post_def eval_nat_numeral)
  have t3: "get_current_tick k3 = ?now" using k3(1) by (simp add: main_runs_def)
  from main_runs_next [OF k3(1) room] k3(2-4) t3 obtain k4 where
    k4: "main_runs usb ok 4 k k4" "k_main k4 = next_pc ?now rest (Dispatch (Some msg))" "k_pending k4 = rest" "k_timers k4 = k_timers k"
    by (auto simp: main_post_def eval_nat_numeral)
  show ?thesis
  proof (cases "\<exists>v. msg = TimerTimeout v \<and> (v = 1 \<or> v = 2)")
    case False
    then have "next_pc ?now rest (Dispatch (Some msg)) = Wait" "turn_arms ?now msg = {#}" by (auto split: message.split) (cases msg; auto)
    then show ?thesis using k4 by (intro exI [of _ 4] exI [of _ k4]) simp
  next
    case True
    then obtain v where v: "msg = TimerTimeout v" "v = 1 \<or> v = 2" by blast
    then have "k_main k4 = Announce v ?now" using k4(2) by auto
    with main_runs_next [OF k4(1) room] k4(3,4) obtain k5 where
      k5: "main_runs usb ok 5 k k5" "k_main k5 = Rearm v ?now" "k_pending k5 = rest" "k_timers k5 = k_timers k"
      by (auto simp: main_post_def eval_nat_numeral)
    from main_runs_next [OF k5(1) room] k5(2-4) obtain k6 where
      k6: "main_runs usb ok 6 k k6" "k_main k6 = Wait" "k_pending k6 = rest" "k_timers k6 = k_timers k + pc_arms (Rearm v ?now)"
      by (auto simp: main_post_def eval_nat_numeral)
    then show ?thesis using v by (intro exI [of _ 6] exI [of _ k6]) auto
  qed
qed

lemma main_drains:
  assumes "kernel_inv ok k" "kernel_room (Suc 0) k" "k_running k = Main_Task" "k_main k = Wait"
  shows "\<exists>n k'. n \<le> 6 * length (k_pending k) \<and> main_runs usb ok n k k' \<and> k_main k' = Wait \<and> k_pending k' = []
    \<and> k_timers k' = k_timers k + (\<Sum>msg \<leftarrow> k_pending k. turn_arms (get_current_tick k) msg)"
  using assms
proof (induction "k_pending k" arbitrary: k)
  case Nil
  then have "main_runs usb ok 0 k k" by (simp add: main_runs_def kernel_run_def)
  then show ?case using Nil by (intro exI [of _ 0] exI [of _ k]) simp
next
  case (Cons msg rest)
  from main_turn [OF Cons.prems, of msg rest] Cons.hyps(2) obtain a k1 where
    a: "a \<le> 6" "main_runs usb ok a k k1" "k_main k1 = Wait" "k_pending k1 = rest" "k_timers k1 = k_timers k + turn_arms (get_current_tick k) msg" by metis
  have i: "kernel_inv ok k1" "kernel_room (Suc 0) k1" "k_running k1 = Main_Task" "get_current_tick k1 = get_current_tick k"
    using a(2) Cons.prems(2) by (auto simp: main_runs_def kernel_room_def)
  from Cons.hyps(1) [OF a(4) [symmetric] i(1-3) a(3)] obtain b k2 where
    b: "b \<le> 6 * length rest" "main_runs usb ok b k1 k2" "k_main k2 = Wait" "k_pending k2 = []"
      "k_timers k2 = k_timers k1 + (\<Sum>msg \<leftarrow> rest. turn_arms (get_current_tick k) msg)" using a(4) i(4) by auto
  have "k_timers k2 = k_timers k + (\<Sum>msg \<leftarrow> k_pending k. turn_arms (get_current_tick k) msg)"
    using a(5) b(5) unfolding Cons.hyps(2) [symmetric] by (simp add: add.assoc)
  moreover have "a + b \<le> 6 * length (k_pending k)" using a(1) b(1) unfolding Cons.hyps(2) [symmetric] by simp
  ultimately show ?case using main_runs_trans [OF a(2) b(2)] b(3,4) by blast
qed

end

section \<open>How a full queue comes about\<close>

lemma kernel_run_append: "kernel_run usb (xs @ ys) k = cbind (kernel_run usb xs k) (kernel_run usb ys)"
  by (simp add: kernel_run_def cfoldM_append)

lemma kernel_room_mono: "\<lbrakk>kernel_room n k; m \<le> n\<rbrakk> \<Longrightarrow> kernel_room m k"
  by (simp add: kernel_room_def)

text \<open>The first steps of the main task, then 1024 interrupts of the controller, then ticks until timer 1 has expired.\<close>

definition jam :: "kernel_event list" where
  "jam = replicate 4 Run @ replicate 1024 Xhci_Irq @ replicate 201 (Timer_Irq 1)"

text \<open>The first four steps of the main task arm the timers.\<close>

lemma arms_simps: "timer_interval 1 = 200" "timer_interval 2 = 600"
  by (simp_all add: timer_interval_def)

context usb_interrupt
begin

lemma first_steps:
  assumes inv: "kernel_inv ok k" and room: "kernel_room (Suc 0) k" and main: "k_running k = Main_Task" "k_main k = Get_Tick 1"
  shows "\<exists>k'. main_runs usb ok 4 k k' \<and> k_main k' = Wait \<and> k_pending k' = k_pending k
    \<and> k_timers k' = k_timers k + {#\<lparr>tm_timeout = get_current_tick k + 200, tm_value = 1\<rparr>, \<lparr>tm_timeout = get_current_tick k + 600, tm_value = 2\<rparr>#}"
proof -
  let ?now = "get_current_tick k"
  from main_runs_1 [OF inv room main(1)] main obtain k1 where
    k1: "main_runs usb ok 1 k k1" "k_main k1 = Arm 1 ?now" "k_pending k1 = k_pending k" "k_timers k1 = k_timers k" by (auto simp: main_post_def)
  from main_runs_next [OF k1(1) room] k1(2-4) obtain k2 where
    k2: "main_runs usb ok 2 k k2" "k_main k2 = Get_Tick 2" "k_pending k2 = k_pending k" "k_timers k2 = k_timers k + {#\<lparr>tm_timeout = ?now + 200, tm_value = 1\<rparr>#}"
    by (auto simp: main_post_def numeral_2_eq_2 arms_simps)
  have t: "get_current_tick k2 = ?now" using k2(1) by (simp add: main_runs_def)
  from main_runs_next [OF k2(1) room] k2(2-4) t obtain k3 where
    k3: "main_runs usb ok 3 k k3" "k_main k3 = Arm 2 ?now" "k_pending k3 = k_pending k" "k_timers k3 = k_timers k + {#\<lparr>tm_timeout = ?now + 200, tm_value = 1\<rparr>#}"
    by (auto simp: main_post_def eval_nat_numeral)
  from main_runs_next [OF k3(1) room] k3(2-4) show ?thesis by (auto simp: main_post_def eval_nat_numeral arms_simps)
qed

text \<open>Interrupts of the controller pile up in the queue.\<close>

lemma fill_queue:
  assumes "kernel_inv ok k" "k_pending k = replicate j Xhci" "j + n \<le> 1024"
  shows "\<exists>k'. kernel_run usb (replicate n Xhci_Irq) k = Some (Inr k') \<and> kernel_inv ok k' \<and> k_pending k' = replicate (j + n) Xhci \<and> k_timers k' = k_timers k
    \<and> k_main k' = k_main k \<and> k_running k' = k_running k \<and> get_current_tick k' = get_current_tick k \<and> k_taskB k' = k_taskB k"
  using assms
proof (induction n arbitrary: k j)
  case 0
  then show ?case by (simp add: kernel_run_def)
next
  case (Suc n)
  from xhci_irq_ok [OF Suc.prems(1)] obtain q where
    q: "xhci_interrupt_handler k = Inr (k\<lparr>k_events := q, k_lapic := k_lapic k @ notify_end_of_interrupt\<rparr>)" "mq_contents q = take 1024 (k_pending k @ [Xhci])"
      "kernel_inv ok (k\<lparr>k_events := q, k_lapic := k_lapic k @ notify_end_of_interrupt\<rparr>)" by blast
  let ?k = "k\<lparr>k_events := q, k_lapic := k_lapic k @ notify_end_of_interrupt\<rparr>"
  have "k_pending ?k = replicate (Suc j) Xhci" using q(2) Suc.prems(2,3) by (simp add: replicate_append_same)
  from Suc.IH [OF q(3) this] Suc.prems(3) q(1) show ?case by (simp add: kernel_run_def get_current_tick_def)
qed

text \<open>Ticks that pass while the queue is full.\<close>

lemma full_ticks:
  assumes "kernel_inv ok k" "kernel_room n k" "length (k_pending k) = 1024"
  shows "\<exists>k'. kernel_run usb (replicate n (Timer_Irq 1)) k = Some (Inr k') \<and> kernel_inv ok k' \<and> k_pending k' = k_pending k \<and> k_main k' = k_main k
    \<and> get_current_tick k' = get_current_tick k + n \<and> k_taskB k' = k_taskB k
    \<and> (\<forall>t \<in># k_timers k'. tm_value t = TASK_TIMER_VALUE \<or> t \<in># k_timers k)"
  using assms
proof (induction n arbitrary: k)
  case 0
  then show ?case by (simp add: kernel_run_def)
next
  case (Suc n)
  from timer_irq_ok [OF Suc.prems(1,2), of 1] obtain es k1 where
    k1: "lapic_interrupt_handler 1 k = Some (Inr k1)" "kernel_inv ok k1" "timer_irq_post es k k1" by auto
  then obtain flag where t: "tick_post (get_current_tick k + 1) (tmg_timers (k_timer k)) (k_events k) False es (flag, tmg_timers (k_timer k1), k_events k1)"
    and f: "get_current_tick k1 = get_current_tick k + 1" "k_main k1 = k_main k" "k_taskB k1 = k_taskB k" by (auto simp: timer_irq_post_def)
  have p: "k_pending k1 = k_pending k" using t Suc.prems(1,3) by (simp add: tick_post_def kernel_inv_def)
  have "k_timers k1 = filter_mset (\<lambda>t. \<not> is_over t (get_current_tick k + 1)) (k_timers k)
      + replicate_mset (length (filter is_task es)) (rearmed (get_current_tick k + 1))" using t by (simp add: tick_post_def)
  then have "set_mset (k_timers k1) \<subseteq> insert (rearmed (get_current_tick k + 1)) (set_mset (k_timers k))" by (auto simp: in_replicate_mset)
  then have ts: "\<forall>t \<in># k_timers k1. tm_value t = TASK_TIMER_VALUE \<or> t \<in># k_timers k" by (auto simp: rearmed_def)
  have "kernel_room n k1" using Suc.prems(2) f by (simp add: kernel_room_def)
  from Suc.IH [OF k1(2) this] p Suc.prems(3) obtain k' where
    "kernel_run usb (replicate n (Timer_Irq 1)) k1 = Some (Inr k')" "kernel_inv ok k'" "k_pending k' = k_pending k1" "k_main k' = k_main k1"
      "get_current_tick k' = get_current_tick k1 + n" "k_taskB k' = k_taskB k1" "\<forall>t \<in># k_timers k'. tm_value t = TASK_TIMER_VALUE \<or> t \<in># k_timers k1" by auto
  then show ?case using k1(1) p f ts by (auto simp: kernel_run_def)
qed

text \<open>Timer 1 is lost when 1024 interrupts come before its first timeout.\<close>

lemma jammed:
  assumes inv: "kernel_inv ok k" and room: "kernel_room (201 + length evs) k" and main: "k_running k = Main_Task" "k_main k = Get_Tick 1"
    and start: "k_pending k = []" "known_timers k" "in_heap 1 (k_timers k) = 0" and evs: "Timer_Irq 0 \<notin> set evs"
  shows "\<exists>k'. kernel_run usb (jam @ evs) k = Some (Inr k') \<and> places 1 k' = 0"
proof -
  have r1: "kernel_room (Suc 0) k" using room by (rule kernel_room_mono) simp
  from first_steps [OF inv r1 main] obtain k1 where
    k1: "main_runs usb ok 4 k k1" "k_main k1 = Wait" "k_pending k1 = []"
      "k_timers k1 = k_timers k + {#\<lparr>tm_timeout = get_current_tick k + 200, tm_value = 1\<rparr>, \<lparr>tm_timeout = get_current_tick k + 600, tm_value = 2\<rparr>#}"
    using start(1) by auto
  have i1: "kernel_inv ok k1" "kernel_run usb (replicate 4 Run) k = Some (Inr k1)" "get_current_tick k1 = get_current_tick k" "k_taskB k1 = k_taskB k"
    using k1(1) by (auto simp: main_runs_def)
  from fill_queue [OF i1(1), of 0 1024] k1(2,3) obtain k2 where
    k2: "kernel_run usb (replicate 1024 Xhci_Irq) k1 = Some (Inr k2)" "kernel_inv ok k2" "k_pending k2 = replicate 1024 Xhci" "k_timers k2 = k_timers k1"
      "k_main k2 = Wait" "get_current_tick k2 = get_current_tick k" "k_taskB k2 = k_taskB k" using i1(3,4) by auto
  have "kernel_room 200 k2" using room k2(6,7) by (simp add: kernel_room_def)
  from full_ticks [OF k2(2) this] k2(3,5) obtain k3 where
    k3: "kernel_run usb (replicate 200 (Timer_Irq 1)) k2 = Some (Inr k3)" "kernel_inv ok k3" "k_pending k3 = replicate 1024 Xhci" "k_main k3 = Wait"
      "get_current_tick k3 = get_current_tick k + 200" "k_taskB k3 = k_taskB k" "\<forall>t \<in># k_timers k3. tm_value t = TASK_TIMER_VALUE \<or> t \<in># k_timers k2"
    using k2(6,7) by auto
  have "\<forall>t \<in># k_timers k3. tm_value t = 1 \<longrightarrow> tm_timeout t \<le> get_current_tick k3"
  proof (intro ballI impI)
    fix t
    assume t: "t \<in># k_timers k3" "tm_value t = 1"
    then have "t \<in># k_timers k1" using k3(7) k2(4) by (auto simp: TASK_TIMER_VALUE_def)
    moreover have "t \<notin># k_timers k" using start(3) t(2) by (auto simp: in_heap_def filter_mset_eq_conv)
    ultimately show "tm_timeout t \<le> get_current_tick k3" using t(2) k3(5) unfolding k1(4) by auto
  qed
  moreover have "kernel_room (Suc (length evs)) k3" using room k3(5,6) by (simp add: kernel_room_def)
  moreover have "length (k_pending k3) = 1024" "TimerTimeout 1 \<notin> set (k_pending k3)" "held 1 (k_main k3) = 0" using k3(3,4) by (simp_all add: held_def)
  ultimately obtain k4 where k4: "kernel_run usb (Timer_Irq 1 # evs) k3 = Some (Inr k4)" "places 1 k4 = 0"
    using timer_lost [OF k3(2) _ _ evs, of 1 1] by auto
  have "replicate 201 x = replicate 200 x @ [x]" for x :: kernel_event using replicate_add [of 200 1 x] by simp
  then have j: "jam @ evs = replicate 4 Run @ replicate 1024 Xhci_Irq @ replicate 200 (Timer_Irq 1) @ Timer_Irq 1 # evs"
    by (simp only: jam_def append_assoc append_Cons append_Nil)
  show ?thesis unfolding j kernel_run_append i1(2) k2(1) k3(1) cbind_simps using k4 by blast
qed

lemma pending_xhci:
  assumes "kernel_inv ok k" "kernel_room (length evs) k" "Timer_Irq 0 \<notin> set evs" "kernel_run usb evs k = Some (Inr k')"
  shows "count_list (k_pending k') Xhci \<le> count_list (k_pending k) Xhci + length evs"
  using assms
proof (induction evs arbitrary: k)
  case Nil
  then show ?case by (simp add: kernel_run_def)
next
  case (Cons ev evs)
  from kernel_step_ok [of k "length evs" ev] Cons.prems obtain k1 where
    k1: "kernel_step usb ev k = Some (Inr k1)" "kernel_inv ok k1" "kernel_room (length evs) k1" "step_post ev k k1" by auto
  have "count_list (k_pending k1) Xhci \<le> count_list (k_pending k) Xhci + 1"
  proof (cases ev)
    case Xhci_Irq
    then show ?thesis using k1(4) count_list_take [of 1024 "k_pending k @ [Xhci]" Xhci] by (simp add: step_post_def del: take_append)
  next
    case (Timer_Irq front)
    then obtain es where q: "k_pending k1 = take 1024 (k_pending k @ timer_messages es)"
      using k1(4) Cons.prems(1) by (auto simp: step_post_def timer_irq_post_def tick_post_def kernel_inv_def simp del: take_append)
    have "Xhci \<notin> set (timer_messages es)" by (auto simp: timer_messages_def)
    then show ?thesis using q count_list_take [of 1024 "k_pending k @ timer_messages es" Xhci] by (simp add: count_notin del: take_append)
  next
    case Run
    then show ?thesis using k1(4) by (cases "k_pending k") (auto simp: step_post_def main_post_def split: if_splits)
  qed
  moreover have "count_list (k_pending k') Xhci \<le> count_list (k_pending k1) Xhci + length evs"
    using Cons.IH [OF k1(2,3)] Cons.prems(3,4) k1(1) by (simp add: kernel_run_def)
  ultimately show ?case by simp
qed

end

section \<open>The start\<close>

text \<open>
  The state in which \<^verbatim>\<open>KernelMain2\<close> enables the interrupts: the event queue is empty, the timers and the screen are set up, and
  the main task runs.
\<close>

definition start_kernel :: "timer_manager \<Rightarrow> pixel_format option \<Rightarrow> layered_window_manager \<Rightarrow> console \<Rightarrow> 'u \<Rightarrow> 'u kernel" where
  "start_kernel t dflt m con u =
     \<lparr>k_events = mq_new 1024, k_timer = t, k_format = dflt, k_layers = m, k_console = con, k_usb = u, k_running = Main_Task,
      k_ctxs = init_task_manager Main_Task Task_B, k_main = Get_Tick 1, k_taskB = B_Start, k_lapic = []\<rparr>"

lemma start_kernel_inv:
  assumes "initialize_timer = Inr t" "screen_inv con m" "dflt = Some (lwm_format m)" "ok u"
  shows "kernel_inv ok (start_kernel t dflt m con u)" "known_timers (start_kernel t dflt m con u)"
    "places 1 (start_kernel t dflt m con u) = 1" "places 2 (start_kernel t dflt m con u) = 1"
    "get_current_tick (start_kernel t dflt m con u) = 0"
proof -
  let ?k = "start_kernel t dflt m con u"
  have t: "task_inv t" "tmg_tick t = 0" using initialize_timer_inv unfolding assms(1) by auto
  have ts: "tmg_timers t = [\<lparr>tm_timeout = TASK_TIMER_PERIOD, tm_value = TASK_TIMER_VALUE\<rparr>]"
    using assms(1) by (auto simp: initialize_timer_def tm_new_def tm_add_timer_def bh_push_def sift_up.simps Let_def)
  have q: "mq_inv (mq_new 1024)" by (rule mq_new_inv) (simp_all add: usize_bound_def)
  show "kernel_inv ok ?k" using t q assms
    by (simp add: kernel_inv_def start_kernel_def init_task_manager_def mq_capacity_def mq_new_def)
  show "known_timers ?k" "places 1 ?k = 1" "places 2 ?k = 1" "get_current_tick ?k = 0"
    using ts t(2) by (simp_all add: known_timers_def places_def start_kernel_def mq_new_contents in_heap_def held_def get_current_tick_def TASK_TIMER_VALUE_def)
qed

end
