(* ===== verification/Descriptors.thy ===== *)
theory Descriptors
  imports Prelude
begin

text \<open>
  Segment descriptors (\<^verbatim>\<open>kernel/src/segment.rs\<close>) and interrupt descriptors (\<^verbatim>\<open>kernel/src/interrupt.rs\<close>). The setters of
  the packed structures are generated by the \<^verbatim>\<open>bitfield\<close> crate, which is not part of the sources: they are the
  parameters \<open>sr\<close> (a range of bits) and \<open>sb\<close> (one bit), and what the crate documents of them is \<open>sets_range\<close> and
  \<open>sets_bit\<close>.
\<close>

section \<open>The bitfield crate\<close>

definition sets_range :: "('a::len word \<Rightarrow> nat \<Rightarrow> nat \<Rightarrow> 'b::len word \<Rightarrow> 'a word) \<Rightarrow> bool" where
  "sets_range sr \<longleftrightarrow> (\<forall>w msb lsb v n. lsb \<le> msb \<longrightarrow> msb < LENGTH('a) \<longrightarrow>
     bit (sr w msb lsb v) n = (if lsb \<le> n \<and> n \<le> msb then bit v (n - lsb) else bit w n))"

definition sets_bit :: "('a::len word \<Rightarrow> nat \<Rightarrow> bool \<Rightarrow> 'a word) \<Rightarrow> bool" where
  "sets_bit sb \<longleftrightarrow> (\<forall>w k b n. k < LENGTH('a) \<longrightarrow> bit (sb w k b) n = (if n = k then b else bit w n))"

lemma sets_rangeD:
  fixes sr :: "'a::len word \<Rightarrow> nat \<Rightarrow> nat \<Rightarrow> 'b::len word \<Rightarrow> 'a word"
  assumes "sets_range sr" "lsb \<le> msb" "msb < LENGTH('a)"
  shows "bit (sr w msb lsb v) n = (if lsb \<le> n \<and> n \<le> msb then bit v (n - lsb) else bit w n)"
  using assms by (simp add: sets_range_def)

lemma sets_bitD:
  fixes sb :: "'a::len word \<Rightarrow> nat \<Rightarrow> bool \<Rightarrow> 'a word"
  assumes "sets_bit sb" "k < LENGTH('a)"
  shows "bit (sb w k b) n = (if n = k then b else bit w n)"
  using assms by (simp add: sets_bit_def)

section \<open>Descriptor types\<close>

datatype descriptor_type = Upper8Bytes | LDTOrReadWrite | TSSAvailable | TSSBusy | CallGate | InterruptGate | TrapGate | ExecuteRead

fun descriptor_type_code :: "descriptor_type \<Rightarrow> nat" where
  "descriptor_type_code Upper8Bytes = 0"
| "descriptor_type_code LDTOrReadWrite = 2"
| "descriptor_type_code TSSAvailable = 9"
| "descriptor_type_code TSSBusy = 11"
| "descriptor_type_code CallGate = 12"
| "descriptor_type_code InterruptGate = 14"
| "descriptor_type_code TrapGate = 15"
| "descriptor_type_code ExecuteRead = 10"

section \<open>Segments\<close>

definition KERNEL_CS :: u16 where
  "KERNEL_CS = push_bit 3 1"

definition KERNEL_SS :: u16 where
  "KERNEL_SS = push_bit 3 2"

type_synonym seg_sr = "u64 \<Rightarrow> nat \<Rightarrow> nat \<Rightarrow> u16 \<Rightarrow> u64"
type_synonym seg_sb = "u64 \<Rightarrow> nat \<Rightarrow> bool \<Rightarrow> u64"

definition seg_set_base :: "seg_sr \<Rightarrow> u64 \<Rightarrow> u32 \<Rightarrow> u64" where
  "seg_set_base sr desc base =
     (let desc = sr desc 31 16 (ucast base);
          desc = sr desc 39 32 (ucast (drop_bit 16 base) AND 0xff);
          desc = sr desc 63 56 (ucast (drop_bit 24 base) AND 0xff)
      in desc)"

definition seg_set_limit :: "seg_sr \<Rightarrow> u64 \<Rightarrow> u32 \<Rightarrow> u64" where
  "seg_set_limit sr desc limit =
     (let desc = sr desc 15 0 (ucast limit AND 0xfff);
          desc = sr desc 51 48 (ucast (drop_bit 16 limit) AND 0xf)
      in desc)"

definition set_code_segment :: "seg_sr \<Rightarrow> seg_sb \<Rightarrow> descriptor_type \<Rightarrow> u16 \<Rightarrow> u32 \<Rightarrow> u32 \<Rightarrow> u64" where
  "set_code_segment sr sb type dpl base limit =
     (let desc = 0;
          desc = seg_set_base sr desc base;
          desc = seg_set_limit sr desc limit;
          desc = sr desc 43 40 (of_nat (descriptor_type_code type));
          desc = sb desc 44 True;
          desc = sr desc 46 45 dpl;
          desc = sb desc 47 True;
          desc = sb desc 52 False;
          desc = sb desc 53 True;
          desc = sb desc 54 False;
          desc = sb desc 55 True
      in desc)"

definition set_data_segment :: "seg_sr \<Rightarrow> seg_sb \<Rightarrow> descriptor_type \<Rightarrow> u16 \<Rightarrow> u32 \<Rightarrow> u32 \<Rightarrow> u64" where
  "set_data_segment sr sb type dpl base limit =
     (let desc = set_code_segment sr sb type dpl base limit;
          desc = sb desc 53 False;
          desc = sb desc 54 True
      in desc)"

text \<open>\<^verbatim>\<open>setup_segments\<close>: the global descriptor table, the limit that \<^verbatim>\<open>lgdt\<close> gets, and the selectors loaded into the segment registers.\<close>

definition setup_segments :: "seg_sr \<Rightarrow> seg_sb \<Rightarrow> u64 list \<times> u16 \<times> u16 \<times> u16 \<times> u16" where
  "setup_segments sr sb =
     (let gdt = [0, set_code_segment sr sb ExecuteRead 0 0 0xfffff, set_data_segment sr sb LDTOrReadWrite 0 0 0xfffff];
          limit = of_nat (8 * length gdt) - 1
      in (gdt, limit, 0, KERNEL_CS, KERNEL_SS))"

section \<open>Interrupt descriptors\<close>

record interrupt_descriptor =
  offset_low :: u16
  segment_selector :: u16
  id_attr :: u16
  offset_middle :: u16
  offset_high :: u32
  id_reserved :: u32

definition ZERO_DESCRIPTOR :: interrupt_descriptor where
  "ZERO_DESCRIPTOR = \<lparr>offset_low = 0, segment_selector = 0, id_attr = 0, offset_middle = 0, offset_high = 0, id_reserved = 0\<rparr>"

definition IDT_init :: "interrupt_descriptor list" where
  "IDT_init = replicate 256 ZERO_DESCRIPTOR"

definition attribute_new :: "(u16 \<Rightarrow> nat \<Rightarrow> nat \<Rightarrow> u8 \<Rightarrow> u16) \<Rightarrow> (u16 \<Rightarrow> nat \<Rightarrow> bool \<Rightarrow> u16) \<Rightarrow> u8 \<Rightarrow> descriptor_type \<Rightarrow> u16" where
  "attribute_new sr sb dpl type =
     (let a = sb 0 15 True;
          a = sr a 14 13 dpl;
          a = sr a 11 8 (of_nat (descriptor_type_code type));
          a = sr a 2 0 0
      in a)"

definition interrupt_descriptor_new :: "u16 \<Rightarrow> u16 \<Rightarrow> u64 \<Rightarrow> interrupt_descriptor" where
  "interrupt_descriptor_new selector attr offset =
     \<lparr>offset_low = ucast (offset AND 0xffff), segment_selector = selector, id_attr = attr,
      offset_middle = ucast (drop_bit 16 offset AND 0xffff), offset_high = ucast (drop_bit 32 offset), id_reserved = 0\<rparr>"

datatype iv_index = XHCI | LapicTimer

fun iv_code :: "iv_index \<Rightarrow> nat" where
  "iv_code XHCI = 0x40"
| "iv_code LapicTimer = 0x41"

definition set_idt_entry :: "iv_index \<Rightarrow> interrupt_descriptor \<Rightarrow> interrupt_descriptor list \<Rightarrow> interrupt_descriptor list res" where
  "set_idt_entry i entry idt = store idt (iv_code i) entry"

text \<open>The part of \<^verbatim>\<open>KernelMain2\<close> that fills the table; the handlers' addresses are given by the linker.\<close>

definition setup_idt :: "(u16 \<Rightarrow> nat \<Rightarrow> nat \<Rightarrow> u8 \<Rightarrow> u16) \<Rightarrow> (u16 \<Rightarrow> nat \<Rightarrow> bool \<Rightarrow> u16) \<Rightarrow> u16 \<Rightarrow> u64 \<Rightarrow> u64
    \<Rightarrow> interrupt_descriptor list \<Rightarrow> interrupt_descriptor list res" where
  "setup_idt sr sb cs xhci_handler lapic_handler idt =
     rbind (set_idt_entry XHCI (interrupt_descriptor_new cs (attribute_new sr sb 0 InterruptGate) xhci_handler) idt) (\<lambda>idt.
     set_idt_entry LapicTimer (interrupt_descriptor_new cs (attribute_new sr sb 0 InterruptGate) lapic_handler) idt)"

text \<open>\<^verbatim>\<open>load_idt\<close>: the limit is the size of the table minus one.\<close>

definition idt_limit :: u16 where
  "idt_limit = of_nat (256 * 16 - 1)"

section \<open>What the processor reads\<close>

text \<open>A present interrupt gate of privilege level zero delivers its vector to the handler in a code segment.\<close>

definition gate_target :: "interrupt_descriptor \<Rightarrow> (u16 \<times> nat) option" where
  "gate_target d = (if bit (id_attr d) 15 \<and> take_bit 4 (drop_bit 8 (id_attr d)) = 14
     then Some (segment_selector d, unat (offset_low d) + unat (offset_middle d) * 2 ^ 16 + unat (offset_high d) * 2 ^ 32) else None)"

lemma word_eq_by_bits:
  fixes w v :: "'a::len word"
  assumes "list_all (\<lambda>n. bit w n = bit v n) [0..<LENGTH('a)]"
  shows "w = v"
  by (rule bit_word_eqI) (use assms in \<open>simp add: list_all_iff\<close>)

lemma gate_attr:
  assumes "sets_range sr" "sets_bit sb"
  shows "attribute_new sr sb 0 InterruptGate = 0x8e00"
  by (rule word_eq_by_bits) (simp add: attribute_new_def Let_def sets_rangeD [OF assms(1)] sets_bitD [OF assms(2)] upt_rec)

lemma code_segment_value:
  assumes "sets_range sr" "sets_bit sb"
  shows "set_code_segment sr sb ExecuteRead 0 0 0xfffff = 0x00af9a0000000fff"
  by (rule word_eq_by_bits)
    (simp add: set_code_segment_def seg_set_base_def seg_set_limit_def Let_def sets_rangeD [OF assms(1)] sets_bitD [OF assms(2)] upt_rec)

lemma data_segment_value:
  assumes "sets_range sr" "sets_bit sb"
  shows "set_data_segment sr sb LDTOrReadWrite 0 0 0xfffff = 0x00cf920000000fff"
  by (rule word_eq_by_bits)
    (simp add: set_data_segment_def set_code_segment_def seg_set_base_def seg_set_limit_def Let_def sets_rangeD [OF assms(1)]
      sets_bitD [OF assms(2)] upt_rec)

lemma three_parts: "n mod k + n div k mod k * k + n div k div k * (k * k) = (n::nat)"
proof -
  have "n div k mod k * k + n div k div k * (k * k) = (n div k mod k + n div k div k * k) * k" by (simp only: distrib_right mult.assoc)
  also have "\<dots> = n div k * k" by (simp only: mod_div_mult_eq)
  finally have "n div k mod k * k + n div k div k * (k * k) = n div k * k" .
  then show ?thesis by (simp only: add.assoc mod_div_mult_eq)
qed

lemma split_offset:
  fixes w :: u64
  shows "unat (ucast (w AND 0xffff) :: u16) + unat (ucast (drop_bit 16 w AND 0xffff) :: u16) * 2 ^ 16
    + unat (ucast (drop_bit 32 w) :: u32) * 2 ^ 32 = unat w"
proof -
  let ?n = "unat w"
  have m: "(0xffff :: u64) = mask 16" by (simp add: mask_eq_exp_minus_1)
  have l: "unat (ucast (w AND 0xffff) :: u16) = ?n mod 2 ^ 16"
    by (simp add: m unsigned_ucast_eq unsigned_and_eq take_bit_eq_mod unat_mod flip: take_bit_eq_mask)
  have mid: "unat (ucast (drop_bit 16 w AND 0xffff) :: u16) = ?n div 2 ^ 16 mod 2 ^ 16"
    by (simp add: m unsigned_ucast_eq unsigned_drop_bit_eq drop_bit_eq_div take_bit_eq_mod unat_mod unat_div flip: take_bit_eq_mask)
  have "?n < 2 ^ 64" using unsigned_less [of w] by simp
  then have h: "unat (ucast (drop_bit 32 w) :: u32) = ?n div 2 ^ 16 div 2 ^ 16"
    by (simp add: unsigned_ucast_eq unsigned_drop_bit_eq drop_bit_eq_div take_bit_eq_mod unat_div div_mult2_eq [symmetric] less_mult_imp_div_less)
  show ?thesis unfolding l mid h using three_parts [of ?n "2 ^ 16"] by simp
qed

section \<open>Properties\<close>

text \<open>
  \<^verbatim>\<open>setup_segments\<close> with any bitfield implementation that sets the named bits: a null descriptor, a present 64-bit
  code segment and a present data segment of privilege level zero and base zero, and the selectors of the
  second and third entry. The limit field of both is \<open>0xf0fff\<close> although \<open>0xfffff\<close> is asked for.
\<close>

theorem segments_correct:
  assumes "sets_range sr" "sets_bit sb"
  shows "setup_segments sr sb = ([0, 0x00af9a0000000fff, 0x00cf920000000fff], 23, 0, 8, 16)
    \<and> unat KERNEL_CS div 8 = 1 \<and> unat KERNEL_SS div 8 = 2"
  using code_segment_value [OF assms] data_segment_value [OF assms]
  by (simp add: setup_segments_def Let_def KERNEL_CS_def KERNEL_SS_def)

lemma idt_run:
  assumes "sets_range sr" "sets_bit sb"
  shows "\<exists>idt. setup_idt sr sb cs xhci lapic IDT_init = Inr idt \<and> (\<forall>v < 256. gate_target (idt ! v)
    = (if v = 0x40 then Some (cs, unat xhci) else if v = 0x41 then Some (cs, unat lapic) else None))"
proof -
  let ?g = "\<lambda>h. interrupt_descriptor_new cs 0x8e00 h"
  have "setup_idt sr sb cs xhci lapic IDT_init = Inr (IDT_init[0x40 := ?g xhci, 0x41 := ?g lapic])"
    by (simp add: setup_idt_def set_idt_entry_def IDT_init_def gate_attr [OF assms(1,2)] res_simps)
  moreover have "gate_target (?g h) = Some (cs, unat h)" for h
    using split_offset [of h] by (simp add: gate_target_def interrupt_descriptor_new_def)
  moreover have "gate_target ZERO_DESCRIPTOR = None" by (simp add: gate_target_def ZERO_DESCRIPTOR_def)
  ultimately show ?thesis by (auto simp: IDT_init_def nth_list_update)
qed

text \<open>
  After the kernel filled the interrupt descriptor table, the processor delivers the xHCI vector and the timer
  vector to their handlers in the kernel's code segment, and every other vector has no present gate.
\<close>

theorem idt_routes_interrupts:
  assumes "sets_range sr" "sets_bit sb" "v < 256"
  shows "\<exists>idt. setup_idt sr sb cs xhci lapic IDT_init = Inr idt \<and> gate_target (idt ! v)
    = (if v = 0x40 then Some (cs, unat xhci) else if v = 0x41 then Some (cs, unat lapic) else None)"
  using idt_run [OF assms(1,2)] assms(3) by blast

text \<open>An implementation of the setters: clear the range, then insert the value.\<close>

definition put_range :: "'a::len word \<Rightarrow> nat \<Rightarrow> nat \<Rightarrow> 'b::len word \<Rightarrow> 'a word" where
  "put_range w msb lsb v = (w AND NOT (push_bit lsb (mask (Suc msb - lsb)))) OR push_bit lsb (take_bit (Suc msb - lsb) (ucast v))"

definition put_bit :: "'a::len word \<Rightarrow> nat \<Rightarrow> bool \<Rightarrow> 'a word" where
  "put_bit w k b = (if b then set_bit k w else unset_bit k w)"

lemma sets_put_bit: "sets_bit (put_bit :: 'a::len word \<Rightarrow> _)"
  by (auto simp: sets_bit_def put_bit_def bit_set_bit_iff bit_unset_bit_iff)

lemma sets_put_range: "sets_range (put_range :: 'a::len word \<Rightarrow> nat \<Rightarrow> nat \<Rightarrow> 'b::len word \<Rightarrow> 'a word)"
  unfolding sets_range_def
proof (intro allI impI)
  fix w :: "'a word" and msb lsb n :: nat and v :: "'b word"
  assume a: "lsb \<le> msb" "msb < LENGTH('a)"
  show "bit (put_range w msb lsb v) n = (if lsb \<le> n \<and> n \<le> msb then bit v (n - lsb) else bit w n)"
  proof (cases "n < LENGTH('a)")
    case True
    then show ?thesis using a
      by (auto simp: put_range_def bit_or_iff bit_and_iff bit_not_iff bit_push_bit_iff bit_mask_iff bit_take_bit_iff bit_ucast_iff)
  next
    case False
    then have "\<not> bit w n" "\<not> bit (put_range w msb lsb v) n" by (auto dest: bit_imp_le_length)
    then show ?thesis using False a by auto
  qed
qed

theorem segments_correct_witness:
  "setup_segments put_range put_bit = ([0, 0x00af9a0000000fff, 0x00cf920000000fff], 23, 0, 8, 16)"
  using segments_correct [OF sets_put_range sets_put_bit] by simp

theorem idt_routes_interrupts_witness:
  "\<exists>idt. setup_idt put_range put_bit 8 0x1234567890ab 0xffff800000001000 IDT_init = Inr idt
     \<and> gate_target (idt ! 0x40) = Some (8, 0x1234567890ab)"
  using idt_routes_interrupts [OF sets_put_range sets_put_bit, of "0x40" 8 "0x1234567890ab" "0xffff800000001000"] by simp

end
