(* ===== verification/Pci.thy ===== *)
theory Pci
  imports Descriptors
begin

text \<open>
  The PCI bus, \<^verbatim>\<open>kernel/src/pci.rs\<close>, and the search for the USB controller in \<^verbatim>\<open>kernel/src/main.rs\<close>. Configuration
  space is a function from the address register to the data register: a read of port \<^verbatim>\<open>0xcfc\<close> returns the
  register that port \<^verbatim>\<open>0xcf8\<close> selects, a write replaces it. The scan recurses over bridges, which the firmware
  may have wired in a circle: it is modelled with fuel, and the number of device slots bounds it.
\<close>

section \<open>Configuration space\<close>

type_synonym pci_config = "u32 \<Rightarrow> u32"

definition make_address :: "u8 \<Rightarrow> u8 \<Rightarrow> u8 \<Rightarrow> u8 \<Rightarrow> u32" where
  "make_address bus device function reg_addr =
     push_bit 31 1 OR push_bit 16 (ucast bus) OR push_bit 11 (ucast device) OR push_bit 8 (ucast function)
       OR (ucast reg_addr AND 0xfc)"

record pci_device =
  pci_bus :: u8
  pci_dev :: u8
  pci_fun :: u8

definition pci_device_new :: "u8 \<Rightarrow> u8 \<Rightarrow> u8 \<Rightarrow> pci_device" where
  "pci_device_new bus device function = \<lparr>pci_bus = bus, pci_dev = device, pci_fun = function\<rparr>"

definition dev_address :: "pci_device \<Rightarrow> u8 \<Rightarrow> u32" where
  "dev_address d reg_addr = make_address (pci_bus d) (pci_dev d) (pci_fun d) reg_addr"

definition read_confreg :: "pci_config \<Rightarrow> pci_device \<Rightarrow> u8 \<Rightarrow> u32" where
  "read_confreg cfg d reg_addr = cfg (dev_address d reg_addr)"

definition write_confreg :: "pci_device \<Rightarrow> u8 \<Rightarrow> u32 \<Rightarrow> pci_config \<Rightarrow> pci_config" where
  "write_confreg d reg_addr value cfg = cfg(dev_address d reg_addr := value)"

definition read_header_type :: "pci_config \<Rightarrow> pci_device \<Rightarrow> u8" where
  "read_header_type cfg d = ucast (drop_bit 16 (read_confreg cfg d 0x0c) AND 0x00ff)"

definition read_vendor_id :: "pci_config \<Rightarrow> pci_device \<Rightarrow> u16" where
  "read_vendor_id cfg d = ucast (read_confreg cfg d 0x0 AND 0xffff)"

definition is_single_function_device :: "pci_config \<Rightarrow> pci_device \<Rightarrow> bool" where
  "is_single_function_device cfg d \<longleftrightarrow> read_header_type cfg d AND 0x80 = 0"

record class_code =
  cc_base :: u8
  cc_sub :: u8
  cc_interface :: u8

definition read_class_code :: "pci_config \<Rightarrow> pci_device \<Rightarrow> class_code" where
  "read_class_code cfg d = (let reg = read_confreg cfg d 0x08 in
     \<lparr>cc_base = ucast (drop_bit 24 reg AND 0xff), cc_sub = ucast (drop_bit 16 reg AND 0xff), cc_interface = ucast (drop_bit 8 reg AND 0xff)\<rparr>)"

definition class_matches :: "class_code \<Rightarrow> u8 \<Rightarrow> u8 \<Rightarrow> u8 \<Rightarrow> bool" where
  "class_matches c base sub interface \<longleftrightarrow> (cc_base c, cc_sub c, cc_interface c) = (base, sub, interface)"

definition read_bus_numbers :: "pci_config \<Rightarrow> pci_device \<Rightarrow> u32" where
  "read_bus_numbers cfg d = read_confreg cfg d 0x18"

definition u8_add :: "u8 \<Rightarrow> u8 \<Rightarrow> u8 res" where
  "u8_add a b = (if unat a + unat b < 256 then Inr (a + b) else Inl ArithOverflow)"

definition read_bar :: "pci_config \<Rightarrow> pci_device \<Rightarrow> u8 \<Rightarrow> u64 res" where
  "read_bar cfg d i =
     (if i \<ge> 6 then Inl ExplicitPanic
      else let bar = ucast (read_confreg cfg d (0x10 + 0x04 * i)) :: u64 in
        if bar AND 4 = 0 then Inr bar
        else if i = 5 then Inl ExplicitPanic
        else let bar_upper = ucast (read_confreg cfg d (0x10 + 0x04 * (i + 1))) :: u64 in
          Inr (push_bit 32 bar_upper OR bar))"

definition read_cap_ptr :: "pci_config \<Rightarrow> pci_device \<Rightarrow> u8" where
  "read_cap_ptr cfg d = ucast (read_confreg cfg d 0x34 AND 0xff)"

definition dev_is_valid :: "pci_config \<Rightarrow> pci_device \<Rightarrow> bool" where
  "dev_is_valid cfg d \<longleftrightarrow> read_vendor_id cfg d \<noteq> 0xffff"

section \<open>The scan\<close>

datatype pci_error = DevicesAreFull

definition u8_range :: "nat \<Rightarrow> nat \<Rightarrow> u8 list" where
  "u8_range a b = map of_nat [a..<b]"

text \<open>The controller: the used part of its array of 32 slots.\<close>

type_synonym pci_controller = "pci_device list"

definition add_device :: "pci_device \<Rightarrow> pci_controller \<Rightarrow> pci_error + pci_controller" where
  "add_device d devs = (if length devs = 32 then Inl DevicesAreFull else Inr (devs @ [d]))"

text \<open>The methods call each other; \<open>rec\<close> is \<^verbatim>\<open>scan_bus\<close> with less fuel.\<close>

definition scan_function ::
    "(u8 \<Rightarrow> pci_controller \<Rightarrow> (pci_error + pci_controller) option) \<Rightarrow> pci_config \<Rightarrow> u8 \<Rightarrow> u8 \<Rightarrow> u8 \<Rightarrow> pci_controller
      \<Rightarrow> (pci_error + pci_device \<times> pci_controller) option" where
  "scan_function rec cfg bus device function devs =
     (let d = pci_device_new bus device function in
      cbind (Some (add_device d devs)) (\<lambda>devs.
      let c = read_class_code cfg d in
      if cc_base c = 0x06 \<and> cc_sub c = 0x04 then
        let secondary_bus = ucast (drop_bit 8 (read_bus_numbers cfg d) AND 0xff) in
        cbind (rec secondary_bus devs) (\<lambda>devs. Some (Inr (d, devs)))
      else Some (Inr (d, devs))))"

definition scan_device ::
    "(u8 \<Rightarrow> pci_controller \<Rightarrow> (pci_error + pci_controller) option) \<Rightarrow> pci_config \<Rightarrow> u8 \<Rightarrow> u8 \<Rightarrow> pci_controller
      \<Rightarrow> (pci_error + pci_controller) option" where
  "scan_device rec cfg bus device devs =
     cbind (scan_function rec cfg bus device 0 devs) (\<lambda>(device_zero, devs).
     if is_single_function_device cfg device_zero then Some (Inr devs)
     else cfoldM (\<lambda>function devs.
       if dev_is_valid cfg (pci_device_new bus device function)
       then cbind (scan_function rec cfg bus device function devs) (\<lambda>(_, devs). Some (Inr devs))
       else Some (Inr devs)) (u8_range 1 8) devs)"

fun scan_bus :: "nat \<Rightarrow> pci_config \<Rightarrow> u8 \<Rightarrow> pci_controller \<Rightarrow> (pci_error + pci_controller) option" where
  "scan_bus 0 cfg bus devs = None"
| "scan_bus (Suc fuel) cfg bus devs =
     cfoldM (\<lambda>device devs.
       if dev_is_valid cfg (pci_device_new bus device 0) then scan_device (scan_bus fuel cfg) cfg bus device devs
       else Some (Inr devs)) (u8_range 0 32) devs"

definition scan_all_bus :: "nat \<Rightarrow> pci_config \<Rightarrow> pci_controller \<Rightarrow> (pci_error + pci_controller) option" where
  "scan_all_bus fuel cfg devs =
     (let host_bridge = pci_device_new 0 0 0 in
      if is_single_function_device cfg host_bridge then scan_bus fuel cfg 0 devs
      else cfoldM (\<lambda>function devs.
        if read_vendor_id cfg (pci_device_new 0 0 function) \<noteq> 0xffff then scan_bus fuel cfg function devs
        else Some (Inr devs)) (u8_range 0 8) devs)"

section \<open>The USB controller\<close>

fun pick_xhc :: "pci_config \<Rightarrow> pci_device option \<Rightarrow> pci_device list \<Rightarrow> pci_device option" where
  "pick_xhc cfg found [] = found"
| "pick_xhc cfg found (d # ds) =
     (if class_matches (read_class_code cfg d) 0x0c 0x03 0x30 then
        (if read_vendor_id cfg d = 0x8086 then Some d else pick_xhc cfg (Some d) ds)
      else pick_xhc cfg found ds)"

definition find_xhc_device :: "nat \<Rightarrow> pci_config \<Rightarrow> pci_device res option" where
  "find_xhc_device fuel cfg = (case scan_all_bus fuel cfg [] of
     None \<Rightarrow> None
   | Some (Inl _) \<Rightarrow> Some (Inl UnwrapNone)
   | Some (Inr devs) \<Rightarrow> Some (unwrap (pick_xhc cfg None devs)))"

definition intel_ehci_found :: "pci_config \<Rightarrow> pci_device list \<Rightarrow> bool" where
  "intel_ehci_found cfg devs \<longleftrightarrow>
     list_ex (\<lambda>d. read_vendor_id cfg d = 0x8086 \<and> class_matches (read_class_code cfg d) 0x0c 0x03 0x20) devs"

section \<open>Message signalled interrupts\<close>

text \<open>The setters and getters of the packed registers are generated by the bitfield crate.\<close>

record msi_fields =
  sr16 :: "u32 \<Rightarrow> nat \<Rightarrow> nat \<Rightarrow> u16 \<Rightarrow> u32"
  sr8 :: "u32 \<Rightarrow> nat \<Rightarrow> nat \<Rightarrow> u8 \<Rightarrow> u32"
  sb1 :: "u32 \<Rightarrow> nat \<Rightarrow> bool \<Rightarrow> u32"
  gb1 :: "u32 \<Rightarrow> nat \<Rightarrow> bool"

definition configure_msi_register :: "msi_fields \<Rightarrow> pci_device \<Rightarrow> u8 \<Rightarrow> u8 \<Rightarrow> u8 \<Rightarrow> pci_config \<Rightarrow> pci_config res" where
  "configure_msi_register bf d cap_addr apic_id vector cfg =
     (let header = read_confreg cfg d cap_addr in
      rbind (u8_add cap_addr 4) (\<lambda>msg_addr_reg.
      let msg_addr = read_confreg cfg d msg_addr_reg in
      rbind (u8_add cap_addr (if gb1 bf header 23 then 12 else 8)) (\<lambda>msg_data_addr.
      let msg_data = read_confreg cfg d msg_data_addr;
          header = sb1 bf header 16 True;
          msg_addr = sr16 bf msg_addr 19 12 (ucast apic_id);
          msg_addr = sr16 bf msg_addr 31 20 0xfee;
          msg_data = sr8 bf msg_data 10 8 0;
          msg_data = sb1 bf msg_data 15 True;
          msg_data = sb1 bf msg_data 14 True;
          msg_data = sr8 bf msg_data 7 0 vector;
          msg_addr = sb1 bf msg_addr 3 False
      in Inr (write_confreg d msg_data_addr msg_data (write_confreg d msg_addr_reg msg_addr (write_confreg d cap_addr header cfg))))))"

text \<open>The loop over the capability list follows pointers that the device supplies; it need not end.\<close>

partial_function (option) msi_loop :: "msi_fields \<Rightarrow> pci_device \<Rightarrow> u8 \<Rightarrow> u8 \<Rightarrow> u8 \<Rightarrow> pci_config \<Rightarrow> pci_config res option" where
  "msi_loop bf d apic_id vector cap_addr cfg =
     (if cap_addr = 0 then Some (Inr cfg)
      else let header = read_confreg cfg d cap_addr in
        if ucast (header AND 0xff) = (5 :: u8) then Some (configure_msi_register bf d cap_addr apic_id vector cfg)
        else msi_loop bf d apic_id vector (ucast (drop_bit 8 header AND 0xff)) cfg)"

definition configure_msi_fixed_destination :: "msi_fields \<Rightarrow> pci_device \<Rightarrow> u8 \<Rightarrow> u8 \<Rightarrow> pci_config \<Rightarrow> pci_config res option" where
  "configure_msi_fixed_destination bf d apic_id vector cfg = msi_loop bf d apic_id vector (read_cap_ptr cfg d) cfg"

section \<open>The functions on the buses\<close>

definition is_bridge :: "pci_config \<Rightarrow> pci_device \<Rightarrow> bool" where
  "is_bridge cfg d \<longleftrightarrow> cc_base (read_class_code cfg d) = 0x06 \<and> cc_sub (read_class_code cfg d) = 0x04"

definition secondary_bus :: "pci_config \<Rightarrow> pci_device \<Rightarrow> u8" where
  "secondary_bus cfg d = ucast (drop_bit 8 (read_bus_numbers cfg d) AND 0xff)"

text \<open>A function is there when the first function of its device is, and a further one only in a multi-function device.\<close>

definition functions_on :: "pci_config \<Rightarrow> u8 \<Rightarrow> pci_device set" where
  "functions_on cfg bus = {pci_device_new bus d f | d f. d \<in> set (u8_range 0 32) \<and> dev_is_valid cfg (pci_device_new bus d 0)
     \<and> (f = 0 \<or> f \<in> set (u8_range 1 8) \<and> \<not> is_single_function_device cfg (pci_device_new bus d 0) \<and> dev_is_valid cfg (pci_device_new bus d f))}"

definition root_buses :: "pci_config \<Rightarrow> u8 set" where
  "root_buses cfg = (if is_single_function_device cfg (pci_device_new 0 0 0) then {0}
     else {f \<in> set (u8_range 0 8). read_vendor_id cfg (pci_device_new 0 0 f) \<noteq> 0xffff})"

inductive reachable_bus :: "pci_config \<Rightarrow> u8 \<Rightarrow> bool" for cfg where
  root: "b \<in> root_buses cfg \<Longrightarrow> reachable_bus cfg b"
| bridge: "\<lbrakk>reachable_bus cfg b; d \<in> functions_on cfg b; is_bridge cfg d\<rbrakk> \<Longrightarrow> reachable_bus cfg (secondary_bus cfg d)"

definition all_functions :: "pci_config \<Rightarrow> pci_device set" where
  "all_functions cfg = (\<Union>b \<in> {b. reachable_bus cfg b}. functions_on cfg b)"

text \<open>
  \<open>extends\<close>: what a part of the scan adds: only functions that are there, and behind every added bridge
  everything is found.
\<close>

definition extends :: "pci_config \<Rightarrow> pci_controller \<Rightarrow> pci_controller \<Rightarrow> bool" where
  "extends cfg devs devs' \<longleftrightarrow> set devs \<subseteq> set devs' \<and> set devs' \<subseteq> set devs \<union> all_functions cfg
     \<and> (\<forall>d \<in> set devs' - set devs. is_bridge cfg d \<longrightarrow> functions_on cfg (secondary_bus cfg d) \<subseteq> set devs')"

lemma extends_refl [simp]: "extends cfg devs devs"
  by (simp add: extends_def)

lemma extends_trans: "\<lbrakk>extends cfg a b; extends cfg b c\<rbrakk> \<Longrightarrow> extends cfg a c"
  unfolding extends_def by blast

lemma extends_mono: "\<lbrakk>extends cfg a b; S \<subseteq> set a\<rbrakk> \<Longrightarrow> S \<subseteq> set b"
  by (auto simp: extends_def)

definition scans :: "pci_config \<Rightarrow> (u8 \<Rightarrow> pci_controller \<Rightarrow> (pci_error + pci_controller) option) \<Rightarrow> bool" where
  "scans cfg rec \<longleftrightarrow> (\<forall>b devs devs'. reachable_bus cfg b \<longrightarrow> rec b devs = Some (Inr devs')
     \<longrightarrow> extends cfg devs devs' \<and> functions_on cfg b \<subseteq> set devs')"

lemma scan_function_scans:
  assumes r: "scans cfg rec" and b: "reachable_bus cfg bus" "pci_device_new bus device function \<in> functions_on cfg bus"
    and s: "scan_function rec cfg bus device function devs = Some (Inr (d, devs'))"
  shows "d = pci_device_new bus device function \<and> extends cfg devs devs' \<and> d \<in> set devs'"
proof -
  let ?d = "pci_device_new bus device function"
  have ok: "length devs \<noteq> 32" using s by (auto simp: scan_function_def add_device_def Let_def)
  have a: "?d \<in> all_functions cfg" using b by (auto simp: all_functions_def)
  show ?thesis
  proof (cases "is_bridge cfg ?d")
    case True
    then have "rec (secondary_bus cfg ?d) (devs @ [?d]) = Some (Inr devs')" "d = ?d"
      using s ok by (auto simp: scan_function_def add_device_def Let_def is_bridge_def secondary_bus_def)
    moreover have "reachable_bus cfg (secondary_bus cfg ?d)" by (rule reachable_bus.bridge [OF b True])
    ultimately have "extends cfg (devs @ [?d]) devs'" "functions_on cfg (secondary_bus cfg ?d) \<subseteq> set devs'"
      using r by (auto simp: scans_def)
    then show ?thesis using \<open>d = ?d\<close> a unfolding extends_def by auto
  next
    case False
    then have "devs' = devs @ [?d]" "d = ?d"
      using s ok by (auto simp: scan_function_def add_device_def Let_def is_bridge_def)
    then show ?thesis using False a by (auto simp: extends_def)
  qed
qed

lemma cfoldM_scan:
  assumes "cfoldM f xs devs = Some (Inr devs')"
    and "\<And>x t t'. \<lbrakk>x \<in> set xs; f x t = Some (Inr t')\<rbrakk> \<Longrightarrow> extends cfg t t' \<and> S x \<subseteq> set t'"
  shows "extends cfg devs devs' \<and> (\<Union>x \<in> set xs. S x) \<subseteq> set devs'"
  using assms
proof (induction xs arbitrary: devs)
  case Nil
  then show ?case by simp
next
  case (Cons x xs)
  then obtain t where t: "f x devs = Some (Inr t)" "cfoldM f xs t = Some (Inr devs')" by auto
  have 1: "extends cfg devs t" "S x \<subseteq> set t" using Cons.prems(2) [of x devs t] t(1) by auto
  have 2: "extends cfg t devs' \<and> (\<Union>x \<in> set xs. S x) \<subseteq> set devs'"
    by (rule Cons.IH [OF t(2)]) (rule Cons.prems(2), auto)
  have "S x \<subseteq> set devs'" by (rule extends_mono [OF conjunct1 [OF 2] 1(2)])
  moreover have "extends cfg devs devs'" by (rule extends_trans [OF 1(1) conjunct1 [OF 2]])
  ultimately show ?case using 2 by simp
qed

lemma scan_device_scans:
  assumes r: "scans cfg rec" and b: "reachable_bus cfg bus" and d: "device \<in> set (u8_range 0 32)" "dev_is_valid cfg (pci_device_new bus device 0)"
    and s: "scan_device rec cfg bus device devs = Some (Inr devs')"
  shows "extends cfg devs devs' \<and> {x \<in> functions_on cfg bus. pci_dev x = device} \<subseteq> set devs'"
proof -
  let ?n = "pci_device_new bus device"
  have f0: "?n 0 \<in> functions_on cfg bus" using d by (auto simp: functions_on_def)
  obtain z t where z: "scan_function rec cfg bus device 0 devs = Some (Inr (z, t))" using s by (auto simp: scan_device_def)
  from scan_function_scans [OF r b f0 z] have z0: "z = ?n 0" "extends cfg devs t" "?n 0 \<in> set t" by auto
  show ?thesis
  proof (cases "is_single_function_device cfg (?n 0)")
    case True
    then have "devs' = t" using s z z0 by (simp add: scan_device_def)
    moreover have "{x \<in> functions_on cfg bus. pci_dev x = device} \<subseteq> {?n 0}"
      using True by (auto simp: functions_on_def pci_device_new_def)
    ultimately show ?thesis using z0 by auto
  next
    case False
    let ?f = "\<lambda>function devs. if dev_is_valid cfg (?n function)
       then cbind (scan_function rec cfg bus device function devs) (\<lambda>(_, devs). Some (Inr devs)) else Some (Inr devs)"
    have loop: "cfoldM ?f (u8_range 1 8) t = Some (Inr devs')" using s z z0 False by (simp add: scan_device_def)
    have "extends cfg t devs' \<and> (\<Union>f \<in> set (u8_range 1 8). {x. x = ?n f \<and> dev_is_valid cfg x}) \<subseteq> set devs'"
    proof (rule cfoldM_scan [OF loop])
      fix f u u'
      assume f: "f \<in> set (u8_range 1 8)" "?f f u = Some (Inr u')"
      show "extends cfg u u' \<and> {x. x = ?n f \<and> dev_is_valid cfg x} \<subseteq> set u'"
      proof (cases "dev_is_valid cfg (?n f)")
        case True
        then have "?n f \<in> functions_on cfg bus" using f(1) d False by (auto simp: functions_on_def)
        moreover obtain y where "scan_function rec cfg bus device f u = Some (Inr (y, u'))"
          using f(2) True by (auto simp: cbind_def split: option.splits sum.splits)
        ultimately show ?thesis using scan_function_scans [OF r b] by blast
      qed (use f in auto)
    qed
    then have e: "extends cfg t devs'" "(\<Union>f \<in> set (u8_range 1 8). {x. x = ?n f \<and> dev_is_valid cfg x}) \<subseteq> set devs'" by blast+
    have n0: "?n 0 \<in> set devs'" using extends_mono [OF e(1), of "{?n 0}"] z0(3) by simp
    have "{x \<in> functions_on cfg bus. pci_dev x = device} \<subseteq> insert (?n 0) (\<Union>f \<in> set (u8_range 1 8). {x. x = ?n f \<and> dev_is_valid cfg x})"
      by (auto simp: functions_on_def pci_device_new_def)
    then have "{x \<in> functions_on cfg bus. pci_dev x = device} \<subseteq> set devs'"
      by (rule order_trans) (simp only: insert_subset n0 e(2) simp_thms)
    then show ?thesis using extends_trans [OF z0(2) e(1)] by blast
  qed
qed

lemma scan_bus_scans: "scans cfg (scan_bus fuel cfg)"
proof (induction fuel)
  case 0
  then show ?case by (simp add: scans_def)
next
  case (Suc fuel)
  show ?case
    unfolding scans_def
  proof (intro allI impI)
    fix b devs devs'
    assume b: "reachable_bus cfg b" and s: "scan_bus (Suc fuel) cfg b devs = Some (Inr devs')"
    let ?f = "\<lambda>device devs. if dev_is_valid cfg (pci_device_new b device 0) then scan_device (scan_bus fuel cfg) cfg b device devs else Some (Inr devs)"
    have "extends cfg devs devs' \<and> (\<Union>d \<in> set (u8_range 0 32). {x \<in> functions_on cfg b. pci_dev x = d}) \<subseteq> set devs'"
    proof (rule cfoldM_scan)
      show "cfoldM ?f (u8_range 0 32) devs = Some (Inr devs')" using s by simp
      fix d t t'
      assume d: "d \<in> set (u8_range 0 32)" "?f d t = Some (Inr t')"
      show "extends cfg t t' \<and> {x \<in> functions_on cfg b. pci_dev x = d} \<subseteq> set t'"
      proof (cases "dev_is_valid cfg (pci_device_new b d 0)")
        case True
        then show ?thesis using scan_device_scans [OF Suc.IH b d(1) True] d(2) by auto
      next
        case False
        then have "{x \<in> functions_on cfg b. pci_dev x = d} = {}" by (auto simp: functions_on_def pci_device_new_def)
        then show ?thesis using False d(2) by auto
      qed
    qed
    moreover have "functions_on cfg b \<subseteq> (\<Union>d \<in> set (u8_range 0 32). {x \<in> functions_on cfg b. pci_dev x = d})"
      by (auto simp: functions_on_def pci_device_new_def)
    ultimately show "extends cfg devs devs' \<and> functions_on cfg b \<subseteq> set devs'" by blast
  qed
qed

section \<open>The scan ends\<close>

definition within :: "nat \<Rightarrow> pci_controller \<Rightarrow> bool" where
  "within fuel devs \<longleftrightarrow> length devs \<le> 32 \<and> 32 \<le> length devs + fuel"

text \<open>\<open>ends fuel m\<close>: the computation returns, and a result has at least as many devices.\<close>

definition ends :: "nat \<Rightarrow> (pci_error + pci_controller) option \<Rightarrow> bool" where
  "ends fuel m \<longleftrightarrow> (case m of None \<Rightarrow> False | Some (Inl _) \<Rightarrow> True | Some (Inr devs) \<Rightarrow> within fuel devs)"

lemma ends_simps [simp]: "ends k (Some (Inr devs)) = within k devs" "ends k (Some (Inl e))" "\<not> ends k None"
  by (simp_all add: ends_def)

lemma ends_cbind: "\<lbrakk>ends k m; \<And>devs. within k devs \<Longrightarrow> ends k (f devs)\<rbrakk> \<Longrightarrow> ends k (cbind m f)"
  by (cases m; cases "the m") (auto simp: cbind_def)

lemma ends_cfoldM: "\<lbrakk>within k devs; \<And>x t. within k t \<Longrightarrow> ends k (f x t)\<rbrakk> \<Longrightarrow> ends k (cfoldM f xs devs)"
  by (induction xs arbitrary: devs) (auto intro!: ends_cbind)

lemma scan_function_ends:
  assumes "within k devs" and rec: "\<And>b t j. \<lbrakk>k = Suc j; within j t\<rbrakk> \<Longrightarrow> ends j (rec b t)"
  shows "ends k (cbind (scan_function rec cfg bus device function devs) (\<lambda>(_, devs). Some (Inr devs)))"
proof (cases "length devs = 32")
  case True
  then show ?thesis by (simp add: scan_function_def add_device_def Let_def)
next
  case False
  let ?d = "pci_device_new bus device function"
  obtain j where j: "k = Suc j" "within j (devs @ [?d])" using assms(1) False by (cases k) (auto simp: within_def)
  have w: "within k t" if "within j t" for t using that j(1) by (simp add: within_def)
  have "ends j (rec (secondary_bus cfg ?d) (devs @ [?d]))" using rec j by blast
  then show ?thesis using False w [OF j(2)] w
    by (auto simp: scan_function_def add_device_def Let_def secondary_bus_def ends_def cbind_def split: option.splits sum.splits)
qed

lemma scan_device_ends:
  assumes "within k devs"
    and f: "\<And>f t. within k t \<Longrightarrow> ends k (cbind (scan_function rec cfg bus device f t) (\<lambda>(_, devs). Some (Inr devs)))"
  shows "ends k (scan_device rec cfg bus device devs)"
proof (cases "scan_function rec cfg bus device 0 devs")
  case None
  then show ?thesis using f [OF assms(1), of 0] by simp
next
  case (Some r)
  show ?thesis
  proof (cases r)
    case (Inl e)
    then show ?thesis using Some by (simp add: scan_device_def)
  next
    case (Inr zt)
    obtain z t where zt: "zt = (z, t)" by fastforce
    have "within k t" using f [OF assms(1), of 0] Some Inr zt by simp
    then show ?thesis using Some Inr zt f by (auto simp: scan_device_def intro!: ends_cfoldM)
  qed
qed

lemma scan_bus_ends: "within k devs \<Longrightarrow> ends k (scan_bus (Suc k) cfg bus devs)"
proof (induction k arbitrary: bus devs rule: less_induct)
  case (less k)
  have rec: "ends j (scan_bus k cfg b t)" if "k = Suc j" "within j t" for b t j using less.IH [of j t b] that by simp
  have f: "ends k (cbind (scan_function (scan_bus k cfg) cfg bus d f t) (\<lambda>(_, devs). Some (Inr devs)))" if "within k t" for d f t
    by (rule scan_function_ends [OF that rec])
  show ?case unfolding scan_bus.simps using less.prems scan_device_ends [OF _ f] by (intro ends_cfoldM) auto
qed

lemma scan_all_bus_ends: "ends 32 (scan_all_bus 33 cfg [])"
proof -
  have w: "within 32 []" by (simp add: within_def)
  have "ends 32 (scan_bus 33 cfg b t)" if "within 32 t" for b t
    using scan_bus_ends [OF that, of cfg b] by (simp add: eval_nat_numeral)
  then show ?thesis using w by (auto simp: scan_all_bus_def Let_def intro!: ends_cfoldM)
qed

lemma scan_all_bus_complete:
  assumes s: "scan_all_bus fuel cfg [] = Some (Inr devs)"
  shows "set devs = all_functions cfg"
proof -
  have sc: "extends cfg t t' \<and> functions_on cfg b \<subseteq> set t'" if "b \<in> root_buses cfg" "scan_bus fuel cfg b t = Some (Inr t')" for b t t'
    using scan_bus_scans [of cfg fuel] reachable_bus.root [OF that(1)] that(2) by (simp add: scans_def)
  have e: "extends cfg [] devs \<and> (\<Union>b \<in> root_buses cfg. functions_on cfg b) \<subseteq> set devs"
  proof (cases "is_single_function_device cfg (pci_device_new 0 0 0)")
    case True
    then show ?thesis using s sc [of 0] by (auto simp: scan_all_bus_def root_buses_def)
  next
    case False
    let ?f = "\<lambda>function devs. if read_vendor_id cfg (pci_device_new 0 0 function) \<noteq> 0xffff then scan_bus fuel cfg function devs else Some (Inr devs)"
    have "extends cfg [] devs \<and> (\<Union>f \<in> set (u8_range 0 8). \<Union>b \<in> {b \<in> root_buses cfg. b = f}. functions_on cfg b) \<subseteq> set devs"
    proof (rule cfoldM_scan)
      show "cfoldM ?f (u8_range 0 8) [] = Some (Inr devs)" using s False by (simp add: scan_all_bus_def)
      fix f t t'
      assume f: "f \<in> set (u8_range 0 8)" "?f f t = Some (Inr t')"
      have r: "f \<in> root_buses cfg \<longleftrightarrow> read_vendor_id cfg (pci_device_new 0 0 f) \<noteq> 0xffff" using f(1) False by (simp add: root_buses_def)
      show "extends cfg t t' \<and> (\<Union>b \<in> {b \<in> root_buses cfg. b = f}. functions_on cfg b) \<subseteq> set t'"
        using f(2) r sc [of f t t'] by (cases "f \<in> root_buses cfg") auto
    qed
    moreover have "root_buses cfg \<subseteq> set (u8_range 0 8)" using False by (auto simp: root_buses_def)
    ultimately show ?thesis by blast
  qed
  then have sub: "set devs \<subseteq> all_functions cfg" and cl: "\<And>d. \<lbrakk>d \<in> set devs; is_bridge cfg d\<rbrakk> \<Longrightarrow> functions_on cfg (secondary_bus cfg d) \<subseteq> set devs"
    by (auto simp: extends_def)
  have "functions_on cfg b \<subseteq> set devs" if "reachable_bus cfg b" for b
    using that
  proof (induction rule: reachable_bus.induct)
    case (root b)
    then show ?case using e by blast
  next
    case (bridge b d)
    then show ?case using cl by blast
  qed
  then show ?thesis using sub by (auto simp: all_functions_def)
qed

section \<open>Finding the controller\<close>

definition is_xhc :: "pci_config \<Rightarrow> pci_device \<Rightarrow> bool" where
  "is_xhc cfg d \<longleftrightarrow> class_matches (read_class_code cfg d) 0x0c 0x03 0x30"

definition is_intel :: "pci_config \<Rightarrow> pci_device \<Rightarrow> bool" where
  "is_intel cfg d \<longleftrightarrow> read_vendor_id cfg d = 0x8086"

lemma pick_xhc_spec:
  "(pick_xhc cfg found ds = None \<longleftrightarrow> found = None \<and> (\<forall>d \<in> set ds. \<not> is_xhc cfg d))
   \<and> (\<forall>d. pick_xhc cfg found ds = Some d \<longrightarrow> found = Some d \<or> d \<in> set ds \<and> is_xhc cfg d)
   \<and> ((\<exists>d \<in> set ds. is_xhc cfg d \<and> is_intel cfg d) \<longrightarrow> (\<exists>d. pick_xhc cfg found ds = Some d \<and> d \<in> set ds \<and> is_xhc cfg d \<and> is_intel cfg d))"
  by (induction ds arbitrary: found) (auto simp: is_xhc_def is_intel_def)

section \<open>The registers of a function\<close>

lemma bit_beyond: "LENGTH('a) \<le> n \<Longrightarrow> \<not> bit (w :: 'a::len word) n"
  by (auto dest: bit_imp_le_length)

lemma fc_mask: "(0xfc :: 'a::len word) = push_bit 2 (mask 6)"
  by (simp add: mask_eq_exp_minus_1)

lemma bit_dev_address_low: "n < 8 \<Longrightarrow> bit (dev_address d r) n = bit (r AND 0xfc) n"
  unfolding dev_address_def make_address_def fc_mask bit_or_iff bit_and_iff bit_push_bit_iff bit_ucast_iff bit_mask_iff
  by auto

lemma and_fc: "unat ((r :: u8) AND 0xfc) = unat r div 4 * 4"
proof -
  have unat_lt: "unat r < 256" using unsigned_less [of r, where 'a = nat] by simp
  have "r AND 0xfc = push_bit 2 (drop_bit 2 r)"
  proof (rule bit_word_eqI)
    fix n assume "n < LENGTH(8)"
    then show "bit (r AND 0xfc) n = bit (push_bit 2 (drop_bit 2 r)) n"
      unfolding fc_mask bit_and_iff bit_push_bit_iff bit_mask_iff bit_drop_bit_eq by (auto simp: numeral_2_eq_2 Suc_diff_Suc)
  qed
  also have "unat (push_bit 2 (drop_bit 2 r)) = unat r div 4 * 4 mod 256"
    by (simp add: push_bit_eq_mult unat_word_ariths unat_drop_bit_eq drop_bit_eq_div unat_div mod_mult_left_eq)
  also have "\<dots> = unat r div 4 * 4" using unat_lt by (intro mod_less) simp
  finally show ?thesis .
qed

lemma dev_address_eq: "dev_address d r = dev_address d r' \<Longrightarrow> unat r div 4 = unat r' div 4"
proof -
  assume a: "dev_address d r = dev_address d r'"
  have "bit (r AND 0xfc) n = bit (r' AND 0xfc) n" if "n < 8" for n
    using bit_dev_address_low [OF that, of d r] bit_dev_address_low [OF that, of d r'] a by simp
  then have "r AND 0xfc = r' AND 0xfc" by (intro bit_word_eqI) simp
  then show ?thesis using and_fc [of r] and_fc [of r'] by simp
qed

lemma dev_address_offset: "\<lbrakk>u8_add r k = Inr r'; 4 \<le> unat k\<rbrakk> \<Longrightarrow> dev_address d r' \<noteq> dev_address d r"
  by (drule sym) (auto simp: u8_add_def unat_word_ariths split: if_splits dest!: dev_address_eq)

section \<open>The capability list\<close>

definition cap_id :: "pci_config \<Rightarrow> pci_device \<Rightarrow> u8 \<Rightarrow> u8" where
  "cap_id cfg d a = ucast (read_confreg cfg d a AND 0xff)"

definition next_cap_ptr :: "pci_config \<Rightarrow> pci_device \<Rightarrow> u8 \<Rightarrow> u8" where
  "next_cap_ptr cfg d a = ucast (drop_bit 8 (read_confreg cfg d a) AND 0xff)"

text \<open>\<open>msi_capability cfg d a c\<close>: the list that starts at \<open>a\<close> has its first MSI capability at \<open>c\<close>.\<close>

inductive msi_capability :: "pci_config \<Rightarrow> pci_device \<Rightarrow> u8 \<Rightarrow> u8 \<Rightarrow> bool" for cfg d where
  here: "\<lbrakk>a \<noteq> 0; cap_id cfg d a = 5\<rbrakk> \<Longrightarrow> msi_capability cfg d a a"
| next_one: "\<lbrakk>a \<noteq> 0; cap_id cfg d a \<noteq> 5; msi_capability cfg d (next_cap_ptr cfg d a) c\<rbrakk> \<Longrightarrow> msi_capability cfg d a c"

lemma msi_loop_configures:
  "msi_capability cfg d a c \<Longrightarrow> msi_loop bf d apic_id vector a cfg = Some (configure_msi_register bf d c apic_id vector cfg)"
proof (induction rule: msi_capability.induct)
  case (here a)
  then show ?case by (subst msi_loop.simps) (simp add: cap_id_def Let_def)
next
  case (next_one a c)
  then show ?case by (subst msi_loop.simps) (simp add: cap_id_def next_cap_ptr_def Let_def)
qed

definition bitfield_laws :: "msi_fields \<Rightarrow> bool" where
  "bitfield_laws bf \<longleftrightarrow> sets_range (sr16 bf) \<and> sets_range (sr8 bf) \<and> sets_bit (sb1 bf) \<and> (\<forall>w n. n < 32 \<longrightarrow> gb1 bf w n = bit w n)"

section \<open>Properties\<close>

text \<open>
  (C25) The scan of the PCI buses always ends, however the bridges are wired: a depth of 33 is enough, because each
  level fills a slot. It either reports that the 32 slots are full, or finds exactly the functions that are
  reachable from the root buses through bridges.
\<close>

theorem pci_scan_correct:
  "scan_all_bus 33 cfg [] = Some (Inl DevicesAreFull)
   \<or> (\<exists>devs. scan_all_bus 33 cfg [] = Some (Inr devs) \<and> set devs = all_functions cfg \<and> length devs \<le> 32)"
proof (cases "scan_all_bus 33 cfg []")
  case None
  then show ?thesis using scan_all_bus_ends [of cfg] by simp
next
  case (Some r)
  show ?thesis
  proof (cases r)
    case (Inl e)
    then show ?thesis using Some by (cases e) simp
  next
    case (Inr devs)
    then show ?thesis using Some scan_all_bus_complete [of 33 cfg devs] scan_all_bus_ends [of cfg] by (simp add: within_def)
  qed
qed

text \<open>
  \<^verbatim>\<open>find_xhc_device\<close>, when the slots suffice: it returns a USB controller whenever one is reachable, one made by
  Intel whenever there is such a one, and panics when there is none.
\<close>

theorem find_xhc_correct:
  assumes "scan_all_bus 33 cfg [] \<noteq> Some (Inl DevicesAreFull)"
  shows "case find_xhc_device 33 cfg of
      Some (Inr d) \<Rightarrow> d \<in> all_functions cfg \<and> is_xhc cfg d
        \<and> ((\<exists>d' \<in> all_functions cfg. is_xhc cfg d' \<and> is_intel cfg d') \<longrightarrow> is_intel cfg d)
    | Some (Inl p) \<Rightarrow> p = UnwrapNone \<and> (\<forall>d \<in> all_functions cfg. \<not> is_xhc cfg d)
    | None \<Rightarrow> False"
proof (cases "scan_all_bus 33 cfg []")
  case None
  then show ?thesis using scan_all_bus_ends [of cfg] by simp
next
  case (Some r)
  obtain devs where devs: "r = Inr devs" using Some assms by (cases r) (auto intro: pci_error.exhaust)
  have all: "set devs = all_functions cfg" using scan_all_bus_complete Some devs by blast
  note p = pick_xhc_spec [of cfg None devs, unfolded all]
  show ?thesis
  proof (cases "pick_xhc cfg None devs")
    case None
    then show ?thesis using Some devs p by (simp add: find_xhc_device_def unwrap_def)
  next
    case (Some d)
    then show ?thesis using \<open>scan_all_bus 33 cfg [] = Some r\<close> devs p by (auto simp: find_xhc_device_def)
  qed
qed

lemma msi_run:
  assumes laws: "bitfield_laws bf" and c: "msi_capability cfg d (read_cap_ptr cfg d) c" "unat c + 12 < 256"
  shows "\<exists>cfg'. configure_msi_fixed_destination bf d apic_id vector cfg = Some (Inr cfg')
    \<and> (let data = (if bit (read_confreg cfg d c) 23 then c + 12 else c + 8); addr' = read_confreg cfg' d (c + 4); data' = read_confreg cfg' d data in
       read_confreg cfg' d c = set_bit 16 (read_confreg cfg d c)
       \<and> drop_bit 20 addr' = 0xfee \<and> take_bit 8 (drop_bit 12 addr') = ucast apic_id \<and> \<not> bit addr' 3
       \<and> take_bit 8 data' = ucast vector \<and> take_bit 3 (drop_bit 8 data') = 0 \<and> bit data' 14 \<and> bit data' 15
       \<and> (\<forall>a. a \<notin> {dev_address d c, dev_address d (c + 4), dev_address d data} \<longrightarrow> cfg' a = cfg a))"
proof -
  let ?r = "read_confreg cfg d"
  define data where "data = (if bit (?r c) 23 then c + 12 else c + 8)"
  note bf = laws [unfolded bitfield_laws_def]
  note bits = sets_rangeD [of "sr16 bf"] sets_rangeD [of "sr8 bf"] sets_bitD [of "sb1 bf"]
  define h where "h = sb1 bf (?r c) 16 True"
  define m where "m = sb1 bf (sr16 bf (sr16 bf (?r (c + 4)) 19 12 (ucast apic_id)) 31 20 0xfee) 3 False"
  define v where "v = sr8 bf (sb1 bf (sb1 bf (sr8 bf (?r data) 10 8 0) 15 True) 14 True) 7 0 vector"
  have add: "u8_add c 4 = Inr (c + 4)" "u8_add c 8 = Inr (c + 8)" "u8_add c 12 = Inr (c + 12)" "u8_add (c + 4) 4 = Inr (c + 8)" "u8_add (c + 4) 8 = Inr (c + 12)"
    using c(2) by (auto simp: u8_add_def unat_word_ariths)
  have ne: "dev_address d (c + 4) \<noteq> dev_address d c" "dev_address d data \<noteq> dev_address d c" "dev_address d data \<noteq> dev_address d (c + 4)"
    using add [THEN dev_address_offset, of d] by (auto simp: data_def)
  let ?cfg = "write_confreg d data v (write_confreg d (c + 4) m (write_confreg d c h cfg))"
  have run: "configure_msi_fixed_destination bf d apic_id vector cfg = Some (Inr ?cfg)"
    using add bf by (simp add: configure_msi_fixed_destination_def msi_loop_configures [OF c(1)] configure_msi_register_def Let_def h_def m_def v_def data_def)
  have rd: "read_confreg ?cfg d c = h" "read_confreg ?cfg d (c + 4) = m" "read_confreg ?cfg d data = v"
    using ne by (auto simp: read_confreg_def write_confreg_def)
  have "h = set_bit 16 (?r c)"
    using bf by (intro bit_word_eqI) (simp add: h_def bits bit_set_bit_iff)
  moreover have "drop_bit 20 m = 0xfee"
    using bf by (intro word_eq_by_bits) (simp add: m_def bits bit_drop_bit_eq upt_rec bit_beyond)
  moreover have "take_bit 8 (drop_bit 12 m) = ucast apic_id"
    using bf by (intro bit_word_eqI) (auto simp: m_def bits bit_simps bit_beyond)
  moreover have "take_bit 8 v = ucast vector"
    using bf by (intro bit_word_eqI) (auto simp: v_def bits bit_simps bit_beyond)
  moreover have "take_bit 3 (drop_bit 8 v) = 0"
    using bf by (intro bit_word_eqI) (auto simp: v_def bits bit_simps bit_beyond)
  moreover have "\<not> bit m 3" "bit v 14" "bit v 15" using bf by (simp_all add: m_def v_def bits)
  moreover have "?cfg a = cfg a" if "a \<notin> {dev_address d c, dev_address d (c + 4), dev_address d data}" for a
    using that by (simp add: write_confreg_def)
  ultimately show ?thesis using run rd unfolding data_def [symmetric] Let_def by (intro exI [of _ ?cfg]) simp
qed

text \<open>
  When the capability list of a function has an MSI capability that fits in configuration space, the kernel
  enables it, and messages then go to the given local APIC with the given vector, in fixed delivery mode, level
  triggered. No other register changes.
\<close>

theorem msi_configured:
  assumes laws: "bitfield_laws bf" and c: "msi_capability cfg d (read_cap_ptr cfg d) c" "unat c + 12 < 256"
  shows "\<exists>cfg'. configure_msi_fixed_destination bf d apic_id vector cfg = Some (Inr cfg')
    \<and> (let data = (if bit (read_confreg cfg d c) 23 then c + 12 else c + 8); addr' = read_confreg cfg' d (c + 4); data' = read_confreg cfg' d data in
       read_confreg cfg' d c = set_bit 16 (read_confreg cfg d c)
       \<and> drop_bit 20 addr' = 0xfee \<and> take_bit 8 (drop_bit 12 addr') = ucast apic_id \<and> \<not> bit addr' 3
       \<and> take_bit 8 data' = ucast vector \<and> take_bit 3 (drop_bit 8 data') = 0 \<and> bit data' 14 \<and> bit data' 15
       \<and> (\<forall>a. a \<notin> {dev_address d c, dev_address d (c + 4), dev_address d data} \<longrightarrow> cfg' a = cfg a))"
  by (rule msi_run [OF assms])

section \<open>A machine with a USB controller\<close>

definition example_config :: pci_config where
  "example_config a =
     (if a = 0x80000000 \<or> a = 0x80000800 then 0x00008086
      else if a = 0x80000008 then 0x06000000
      else if a = 0x80000808 then 0x0c033000
      else if a = 0x8000000c \<or> a = 0x8000080c then 0
      else if a = 0x80000834 then 0x50
      else if a = 0x80000850 then 0x00000005
      else 0xffffffff)"

lemma example_scan: "scan_all_bus 33 example_config [] = Some (Inr [pci_device_new 0 0 0, pci_device_new 0 1 0])"
  by code_simp

theorem find_xhc_correct_witness:
  "find_xhc_device 33 example_config = Some (Inr (pci_device_new 0 1 0)) \<and> is_xhc example_config (pci_device_new 0 1 0)"
proof -
  have f: "find_xhc_device 33 example_config = Some (Inr (pci_device_new 0 1 0))"
  proof -
    have "pick_xhc example_config None [pci_device_new 0 0 0, pci_device_new 0 1 0] = Some (pci_device_new 0 1 0)" by code_simp
    then show ?thesis by (simp add: find_xhc_device_def example_scan)
  qed
  show ?thesis using find_xhc_correct [of example_config] f by (simp add: example_scan)
qed

definition put_fields :: msi_fields where
  "put_fields = \<lparr>sr16 = put_range, sr8 = put_range, sb1 = put_bit, gb1 = bit\<rparr>"

lemma put_fields_laws: "bitfield_laws put_fields"
  by (simp add: bitfield_laws_def put_fields_def sets_put_bit sets_put_range)

theorem msi_configured_witness:
  "\<exists>cfg'. configure_msi_fixed_destination put_fields (pci_device_new 0 1 0) 0 0x40 example_config = Some (Inr cfg')
     \<and> read_confreg cfg' (pci_device_new 0 1 0) 0x50 = 0x00010005"
proof -
  let ?d = "pci_device_new 0 1 0"
  have e: "read_cap_ptr example_config ?d = 0x50" "cap_id example_config ?d 0x50 = 5" "read_confreg example_config ?d 0x50 = 5" by code_simp+
  have s: "set_bit 16 (5 :: u32) = 0x10005" by code_simp
  show ?thesis
    using msi_configured [OF put_fields_laws, of example_config ?d "0x50" 0 "0x40"] e
    by (auto simp: msi_capability.here Let_def s)
qed

end
