(* ===== verification/Usb_Ring.thy ===== *)
theory Usb_Ring
  imports Descriptors
begin

text \<open>
  The rings through which the kernel and the USB host controller exchange transfer request blocks,
  \<^verbatim>\<open>kernel/src/usb/ring/ring.rs\<close>. A block is 128 bits; bit 96 is its cycle bit, by which the reader of a ring
  tells fresh blocks from stale ones. The accessors that the \<^verbatim>\<open>bitfield\<close> crate generates are the parameters \<open>sb\<close>
  and \<open>gb\<close>, and \<open>lk\<close> is the link block that the \<^verbatim>\<open>xhci\<close> crate builds for the address of a segment. The controller
  is specified as the xHCI standard describes it: it follows the cycle bits and, at the link, toggles its own.
\<close>

section \<open>Blocks\<close>

type_synonym trb = "128 word"
type_synonym trb_sb = "trb \<Rightarrow> nat \<Rightarrow> bool \<Rightarrow> trb"
type_synonym trb_gb = "trb \<Rightarrow> nat \<Rightarrow> bool"

datatype xhci_error =
    InvalidTrb
  | RingIsFull
  | InvalidCommandCompletionTrb
  | AddressDeviceCommandFailed trb
  | UnexpectedDescriptor
  | TransferError trb

definition set_cycle_bit :: "trb_sb \<Rightarrow> bool \<Rightarrow> trb \<Rightarrow> trb" where
  "set_cycle_bit sb b t = sb t 96 b"

definition cycle_bit :: "trb_gb \<Rightarrow> trb \<Rightarrow> bool" where
  "cycle_bit gb t = gb t 96"

definition UnknownTRB_default :: trb where
  "UnknownTRB_default = 0"

definition TRB_SIZE :: nat where
  "TRB_SIZE = 16"

section \<open>ProducerRing\<close>

text \<open>\<open>pr_base\<close> is the address of the allocation that holds \<^verbatim>\<open>data\<close>.\<close>

record producer_ring =
  pr_base :: addr
  pr_data :: "trb list"
  pr_cycle :: bool
  pr_enque :: nat
  pr_deque :: nat

definition producer_new :: "(addr \<Rightarrow> trb) \<Rightarrow> addr \<Rightarrow> nat \<Rightarrow> producer_ring res" where
  "producer_new lk base n =
     rbind (usize_sub n 1) (\<lambda>last.
     rbind (store (replicate n UnknownTRB_default) last (lk base)) (\<lambda>data.
     Inr \<lparr>pr_base = base, pr_data = data, pr_cycle = True, pr_enque = 0, pr_deque = 0\<rparr>))"

definition next_ptr :: "producer_ring \<Rightarrow> nat \<Rightarrow> nat res" where
  "next_ptr r ptr =
     rbind (usize_sub (length (pr_data r)) 2) (\<lambda>m.
     rbind (rassert (ptr \<le> m)) (\<lambda>_.
     Inr (if ptr + 1 = length (pr_data r) - 1 then 0 else ptr + 1)))"

definition advance_enque_ptr :: "trb_sb \<Rightarrow> producer_ring \<Rightarrow> producer_ring res" where
  "advance_enque_ptr sb r =
     (let enque = pr_enque r + 1 in
      rbind (usize_sub (length (pr_data r)) 1) (\<lambda>last.
      if enque = last then
        rbind (index (pr_data r) enque) (\<lambda>link.
        Inr (r\<lparr>pr_data := (pr_data r)[enque := set_cycle_bit sb (pr_cycle r) link], pr_enque := 0, pr_cycle := \<not> pr_cycle r\<rparr>))
      else Inr (r\<lparr>pr_enque := enque\<rparr>)))"

definition producer_push :: "trb_sb \<Rightarrow> producer_ring \<Rightarrow> trb \<Rightarrow> ((xhci_error + addr) \<times> producer_ring) res" where
  "producer_push sb r trb =
     rbind (next_ptr r (pr_enque r)) (\<lambda>nxt.
     if nxt = pr_deque r then Inr (Inl RingIsFull, r)
     else
       let trb = set_cycle_bit sb (pr_cycle r) trb in
       rbind (store (pr_data r) (pr_enque r) trb) (\<lambda>data.
       let r = r\<lparr>pr_data := data\<rparr>; ret_ptr = pr_base r + TRB_SIZE * pr_enque r in
       rbind (advance_enque_ptr sb r) (\<lambda>r. Inr (Inr ret_ptr, r))))"

definition set_deque_ptr :: "producer_ring \<Rightarrow> addr \<Rightarrow> producer_ring res" where
  "set_deque_ptr r deque_ptr =
     rbind (usize_sub deque_ptr (pr_base r)) (\<lambda>off.
     rbind (next_ptr r (off div TRB_SIZE)) (\<lambda>nxt. Inr (r\<lparr>pr_deque := nxt\<rparr>)))"

definition get_enque_ptr :: "producer_ring \<Rightarrow> addr res" where
  "get_enque_ptr r = rbind (index (pr_data r) (pr_enque r)) (\<lambda>_. Inr (pr_base r + TRB_SIZE * pr_enque r))"

section \<open>ConsumerRing\<close>

record consumer_ring =
  cr_base :: addr
  cr_data :: "trb list"
  cr_cycle :: bool
  cr_deque :: nat

definition consumer_new :: "addr \<Rightarrow> nat \<Rightarrow> consumer_ring" where
  "consumer_new base n = \<lparr>cr_base = base, cr_data = replicate n UnknownTRB_default, cr_cycle = True, cr_deque = 0\<rparr>"

definition consumer_pop :: "trb_gb \<Rightarrow> consumer_ring \<Rightarrow> (trb option \<times> consumer_ring) res" where
  "consumer_pop gb r =
     rbind (index (cr_data r) (cr_deque r)) (\<lambda>trb.
     if cycle_bit gb trb \<noteq> cr_cycle r then Inr (None, r)
     else
       let r = r\<lparr>cr_deque := cr_deque r + 1\<rparr>;
           r = (if cr_deque r = length (cr_data r) then r\<lparr>cr_deque := 0, cr_cycle := \<not> cr_cycle r\<rparr> else r)
       in Inr (Some trb, r))"

section \<open>The laws of the crates\<close>

definition trb_laws :: "trb_sb \<Rightarrow> trb_gb \<Rightarrow> (addr \<Rightarrow> trb) \<Rightarrow> bool" where
  "trb_laws sb gb lk \<longleftrightarrow> sets_bit sb \<and> (\<forall>t n. n < 128 \<longrightarrow> gb t n = bit t n) \<and> (\<forall>a. \<not> bit (lk a) 96)"

text \<open>What the controller is told by a block, apart from the cycle bit.\<close>

definition payload :: "trb \<Rightarrow> trb" where
  "payload t = unset_bit 96 t"

lemma cycle_simps:
  assumes "trb_laws sb gb lk"
  shows "cycle_bit gb (set_cycle_bit sb b t) = b" "payload (set_cycle_bit sb b t) = payload t"
    "cycle_bit gb UnknownTRB_default = False" "cycle_bit gb (lk a) = False"
proof -
  have l: "sets_bit sb" "\<And>t. gb t 96 = bit t 96" "\<And>a. \<not> bit (lk a) 96" using assms by (auto simp: trb_laws_def)
  show "cycle_bit gb (set_cycle_bit sb b t) = b" "cycle_bit gb UnknownTRB_default = False" "cycle_bit gb (lk a) = False"
    by (simp_all add: cycle_bit_def set_cycle_bit_def UnknownTRB_default_def l(2,3) sets_bitD [OF l(1)])
  show "payload (set_cycle_bit sb b t) = payload t"
    by (rule bit_word_eqI) (simp add: payload_def set_cycle_bit_def bit_unset_bit_iff sets_bitD [OF l(1)])
qed

section \<open>The round trip of virtual positions\<close>

text \<open>
  Blocks are numbered in the order in which they are written. Block \<open>v\<close> of a ring with \<open>m\<close> places lies at \<open>v mod m\<close>
  and carries the cycle bit of its round \<open>v div m\<close>.
\<close>

definition vcycle :: "nat \<Rightarrow> nat \<Rightarrow> bool" where
  "vcycle m v = even (v div m)"

lemma vcycle_next_round: "0 < m \<Longrightarrow> vcycle m (v + m) = (\<not> vcycle m v)"
  by (simp add: vcycle_def div_add_self2)

lemma vcycle_0 [simp]: "v < m \<Longrightarrow> vcycle m v"
  by (simp add: vcycle_def)

lemma vpos_Suc: "0 < m \<Longrightarrow> (if v mod m + 1 = m then 0 else v mod m + 1) = Suc v mod m"
  by (auto simp: mod_Suc)

lemma vcycle_Suc: "0 < m \<Longrightarrow> vcycle m (Suc v) = (if v mod m + 1 = m then \<not> vcycle m v else vcycle m v)"
  by (auto simp: vcycle_def div_Suc mod_Suc)

lemma mod_eq_window: "\<lbrakk>(a::nat) mod m = b mod m; a \<le> b; b < a + m\<rbrakk> \<Longrightarrow> a = b"
proof -
  assume a: "a mod m = b mod m" "a \<le> b" "b < a + m"
  then have "m dvd b - a" using mod_eq_dvd_iff_nat [of a b m] by simp
  moreover have "b - a < m" using a by simp
  ultimately have "b - a = 0" by (auto dest: dvd_imp_le)
  with a(2) show ?thesis by simp
qed

text \<open>
  \<open>slots gb m P data T\<close>: the places hold the last \<open>m\<close> of the \<open>P\<close> blocks written so far, and the untouched ones
  still have a cleared cycle bit.
\<close>

definition slots :: "trb_gb \<Rightarrow> nat \<Rightarrow> nat \<Rightarrow> trb list \<Rightarrow> (nat \<Rightarrow> trb) \<Rightarrow> bool" where
  "slots gb m P data T \<longleftrightarrow> (\<forall>v. v < P \<longrightarrow> P \<le> v + m \<longrightarrow> payload (data ! (v mod m)) = T v \<and> cycle_bit gb (data ! (v mod m)) = vcycle m v)
     \<and> (\<forall>i. P \<le> i \<longrightarrow> i < m \<longrightarrow> \<not> cycle_bit gb (data ! i))"

text \<open>A reader that has consumed \<open>v\<close> blocks sees the next one exactly when it has been written.\<close>

lemma slots_fresh:
  assumes "slots gb m P data T" "v \<le> P" "P \<le> v + m" "0 < m"
  shows "(cycle_bit gb (data ! (v mod m)) = vcycle m v) = (v < P)"
proof (cases "v < P")
  case True
  then show ?thesis using assms by (simp add: slots_def)
next
  case False
  then have v: "v = P" using assms(2) by simp
  show ?thesis
  proof (cases "P < m")
    case True
    then show ?thesis using assms(1) v by (simp add: slots_def)
  next
    case False
    then have "cycle_bit gb (data ! ((P - m) mod m)) = vcycle m (P - m)" using assms(1,4) by (simp add: slots_def)
    moreover have "(P - m) mod m = P mod m" using False by (simp add: mod_if)
    moreover have "vcycle m P = (\<not> vcycle m (P - m))" using vcycle_next_round [OF assms(4), of "P - m"] False by simp
    ultimately show ?thesis using v by simp
  qed
qed

lemma slots_read: "\<lbrakk>slots gb m P data T; v < P; P \<le> v + m\<rbrakk> \<Longrightarrow> payload (data ! (v mod m)) = T v"
  by (simp add: slots_def)

lemma slots_write:
  assumes "slots gb m P data T" "0 < m" "m \<le> length data" "cycle_bit gb t = vcycle m P"
  shows "slots gb m (Suc P) (data[P mod m := t]) (T(P := payload t))"
proof -
  have P: "P mod m < length data" using assms(2,3) by (metis mod_less_divisor order_less_le_trans)
  have ne: "v mod m \<noteq> P mod m" if "v < P" "Suc P \<le> v + m" for v using mod_eq_window [of v m P] that by auto
  have "payload (data[P mod m := t] ! (v mod m)) = (T(P := payload t)) v \<and> cycle_bit gb (data[P mod m := t] ! (v mod m)) = vcycle m v"
    if "v < Suc P" "Suc P \<le> v + m" for v
  proof (cases "v = P")
    case True
    then show ?thesis using P assms(4) by simp
  next
    case False
    then show ?thesis using that ne [of v] assms(1) by (simp add: slots_def)
  qed
  moreover have "\<not> cycle_bit gb (data[P mod m := t] ! i)" if "Suc P \<le> i" "i < m" for i
    using that assms(1) by (simp add: slots_def)
  ultimately show ?thesis by (simp add: slots_def)
qed

lemma slots_beyond: "slots gb m P data T \<Longrightarrow> m \<le> k \<Longrightarrow> slots gb m P (data[k := x]) T"
  unfolding slots_def
proof (intro conjI allI impI; elim conjE)
  fix v
  assume a: "m \<le> k" "v < P" "P \<le> v + m" and s: "\<forall>v. v < P \<longrightarrow> P \<le> v + m \<longrightarrow> payload (data ! (v mod m)) = T v \<and> cycle_bit gb (data ! (v mod m)) = vcycle m v"
  have "v mod m \<noteq> k" using a by (cases "m = 0") (auto dest: leD)
  then show "payload (data[k := x] ! (v mod m)) = T v" "cycle_bit gb (data[k := x] ! (v mod m)) = vcycle m v" using s a by auto
qed auto

section \<open>The event ring as a queue\<close>

text \<open>
  The controller writes events; \<open>ev_erdp\<close> counts the events that the kernel has acknowledged by the dequeue pointer
  register. The controller keeps one place free.
\<close>

record hw_events =
  ev_count :: nat
  ev_erdp :: nat

datatype ev_op = Post trb | Pop_Event | Acknowledge

datatype ev_out = Posted bool | Popped_Event "trb option" | Acknowledged addr

definition ev_step :: "trb_sb \<Rightarrow> trb_gb \<Rightarrow> ev_op \<Rightarrow> consumer_ring \<times> hw_events \<Rightarrow> (ev_out \<times> consumer_ring \<times> hw_events) res" where
  "ev_step sb gb op = (\<lambda>(r, hw). case op of
     Post t \<Rightarrow>
       (let n = length (cr_data r) in
        if ev_count hw + 1 < ev_erdp hw + n
        then Inr (Posted True, r\<lparr>cr_data := (cr_data r)[ev_count hw mod n := set_cycle_bit sb (vcycle n (ev_count hw)) t]\<rparr>, hw\<lparr>ev_count := ev_count hw + 1\<rparr>)
        else Inr (Posted False, r, hw))
   | Pop_Event \<Rightarrow> rbind (consumer_pop gb r) (\<lambda>(t, r). Inr (Popped_Event (map_option payload t), r, hw))
   | Acknowledge \<Rightarrow>
       (let n = length (cr_data r); passed = (cr_deque r + n - ev_erdp hw mod n) mod n
        in Inr (Acknowledged (cr_base r + TRB_SIZE * cr_deque r), r, hw\<lparr>ev_erdp := ev_erdp hw + passed\<rparr>)))"

definition ev_run :: "trb_sb \<Rightarrow> trb_gb \<Rightarrow> ev_op list \<Rightarrow> ev_out list \<times> consumer_ring \<times> hw_events \<Rightarrow> (ev_out list \<times> consumer_ring \<times> hw_events) res" where
  "ev_run sb gb = foldM (\<lambda>op (outs, s). rbind (ev_step sb gb op s) (\<lambda>(out, s). Inr (outs @ [out], s)))"

text \<open>
  The queue that the two sides should see: the number of events taken, the events still to be taken, and how many
  of the taken ones the controller does not know to be free yet.
\<close>

type_synonym ev_queue = "nat \<times> trb list \<times> nat"

fun ev_spec :: "nat \<Rightarrow> addr \<Rightarrow> ev_op \<Rightarrow> ev_queue \<Rightarrow> ev_out \<times> ev_queue" where
  "ev_spec n base (Post t) (taken, pend, u) =
     (if length pend + u + 1 < n then (Posted True, taken, pend @ [payload t], u) else (Posted False, taken, pend, u))"
| "ev_spec n base Pop_Event (taken, [], u) = (Popped_Event None, taken, [], u)"
| "ev_spec n base Pop_Event (taken, x # pend, u) = (Popped_Event (Some x), taken + 1, pend, u + 1)"
| "ev_spec n base Acknowledge (taken, pend, u) = (Acknowledged (base + TRB_SIZE * (taken mod n)), taken, pend, 0)"

fun ev_spec_run :: "nat \<Rightarrow> addr \<Rightarrow> ev_op list \<Rightarrow> ev_out list \<times> ev_queue \<Rightarrow> ev_out list \<times> ev_queue" where
  "ev_spec_run n base [] (outs, q) = (outs, q)"
| "ev_spec_run n base (op # ops) (outs, q) = (let (out, q) = ev_spec n base op q in ev_spec_run n base ops (outs @ [out], q))"

definition ev_inv :: "trb_gb \<Rightarrow> nat \<Rightarrow> addr \<Rightarrow> ev_queue \<Rightarrow> consumer_ring \<times> hw_events \<Rightarrow> bool" where
  "ev_inv gb n base = (\<lambda>(taken, pend, u) (r, hw). 2 \<le> n \<and> length (cr_data r) = n \<and> cr_base r = base \<and> u \<le> taken \<and> length pend + u < n
     \<and> cr_deque r = taken mod n \<and> cr_cycle r = vcycle n taken \<and> ev_count hw = taken + length pend \<and> ev_erdp hw = taken - u
     \<and> (\<exists>T. slots gb n (taken + length pend) (cr_data r) T \<and> (\<forall>i < length pend. T (taken + i) = pend ! i)))"

lemma pop_step:
  assumes I: "ev_inv gb n base (taken, pend, u) (r, hw)"
  shows "case pend of
      [] \<Rightarrow> consumer_pop gb r = Inr (None, r)
    | x # xs \<Rightarrow> \<exists>t r'. consumer_pop gb r = Inr (Some t, r') \<and> payload t = x \<and> ev_inv gb n base (taken + 1, xs, u + 1) (r', hw)"
proof -
  obtain T where T: "slots gb n (taken + length pend) (cr_data r) T" "\<And>i. i < length pend \<Longrightarrow> T (taken + i) = pend ! i"
    using I by (auto simp: ev_inv_def)
  have n: "2 \<le> n" "length (cr_data r) = n" "cr_deque r = taken mod n" "cr_cycle r = vcycle n taken" "length pend + u < n"
    using I by (auto simp: ev_inv_def)
  let ?t = "cr_data r ! (taken mod n)"
  have idx: "index (cr_data r) (cr_deque r) = Inr ?t" using n by (simp add: index_def)
  have fresh: "(cycle_bit gb ?t = vcycle n taken) = (pend \<noteq> [])"
    using slots_fresh [OF T(1), of taken] n by simp
  show ?thesis
  proof (cases pend)
    case Nil
    then show ?thesis using fresh idx n by (simp add: consumer_pop_def)
  next
    case (Cons x xs)
    let ?r = "r\<lparr>cr_deque := Suc taken mod n, cr_cycle := vcycle n (Suc taken)\<rparr>"
    have "consumer_pop gb r = Inr (Some ?t, ?r)"
      using fresh Cons idx n vpos_Suc [of n taken] vcycle_Suc [of n taken]
      by (auto simp: consumer_pop_def Let_def split: if_splits)
    moreover have "payload ?t = x" using slots_read [OF T(1), of taken] T(2) [of 0] Cons n by simp
    moreover have "ev_inv gb n base (taken + 1, xs, u + 1) (?r, hw)"
    proof -
      have "\<forall>i < length xs. T (taken + 1 + i) = xs ! i" using T(2) [of "Suc i" for i] Cons by auto
      then show ?thesis using I T(1) Cons by (auto simp: ev_inv_def)
    qed
    ultimately show ?thesis using Cons by auto
  qed
qed

lemma post_step:
  assumes L: "trb_laws sb gb lk" and I: "ev_inv gb n base (taken, pend, u) (r, hw)" and room: "length pend + u + 1 < n"
  shows "ev_inv gb n base (taken, pend @ [payload t], u)
    (r\<lparr>cr_data := (cr_data r)[ev_count hw mod n := set_cycle_bit sb (vcycle n (ev_count hw)) t]\<rparr>, hw\<lparr>ev_count := ev_count hw + 1\<rparr>)"
proof -
  obtain T where T: "slots gb n (taken + length pend) (cr_data r) T" "\<And>i. i < length pend \<Longrightarrow> T (taken + i) = pend ! i"
    using I by (auto simp: ev_inv_def)
  have n: "2 \<le> n" "length (cr_data r) = n" "ev_count hw = taken + length pend" using I by (auto simp: ev_inv_def)
  let ?P = "taken + length pend"
  have "slots gb n (Suc ?P) ((cr_data r)[?P mod n := set_cycle_bit sb (vcycle n ?P) t]) (T(?P := payload t))"
    using slots_write [OF T(1), of "set_cycle_bit sb (vcycle n ?P) t"] n by (simp add: cycle_simps [OF L])
  moreover have "\<forall>i < Suc (length pend). (T(?P := payload t)) (taken + i) = (pend @ [payload t]) ! i"
    using T(2) by (auto simp: nth_append less_Suc_eq)
  ultimately show ?thesis using I room n by (auto simp: ev_inv_def)
qed

lemma ack_passed: "\<lbrakk>(u::nat) \<le> taken; u < n\<rbrakk> \<Longrightarrow> (taken mod n + n - (taken - u) mod n) mod n = u"
proof -
  assume a: "u \<le> taken" "u < n"
  define r where "r = (taken - u) mod n"
  have r: "r < n" using a by (simp add: r_def)
  have "taken mod n = (r + u) mod n" using a by (simp add: r_def mod_add_left_eq)
  also have "\<dots> = (if r + u < n then r + u else r + u - n)" using r a by (simp add: mod_if)
  finally show ?thesis unfolding r_def [symmetric] using r a by (auto simp: mod_if)
qed

lemma ev_step_refines:
  assumes L: "trb_laws sb gb lk" and I: "ev_inv gb n base q s"
  shows "\<exists>s'. ev_step sb gb op s = Inr (fst (ev_spec n base op q), s') \<and> ev_inv gb n base (snd (ev_spec n base op q)) s'"
proof -
  obtain taken pend u r hw where q: "q = (taken, pend, u)" "s = (r, hw)" by (metis prod_cases3 surj_pair)
  have f: "length (cr_data r) = n" "ev_count hw = taken + length pend" "ev_erdp hw = taken - u" "u \<le> taken" "length pend + u < n" "0 < n"
    "cr_base r = base" "cr_deque r = taken mod n"
    using I by (auto simp: ev_inv_def q)
  show ?thesis
  proof (cases op)
    case (Post t)
    have "(ev_count hw + 1 < ev_erdp hw + n) = (length pend + u + 1 < n)" using f by auto
    then show ?thesis using post_step [OF L I [unfolded q], of t] I f(1) by (auto simp: Post ev_step_def q Let_def)
  next
    case Pop_Event
    then show ?thesis using pop_step [OF I [unfolded q]] I by (cases pend) (auto simp: ev_step_def q)
  next
    case Acknowledge
    have "ev_inv gb n base (taken, pend, 0) (r, hw\<lparr>ev_erdp := taken\<rparr>)" using I by (auto simp: ev_inv_def q)
    moreover have "ev_erdp hw + (cr_deque r + n - ev_erdp hw mod n) mod n = taken" using ack_passed [of u taken n] f by simp
    ultimately show ?thesis using f by (simp add: Acknowledge ev_step_def q Let_def)
  qed
qed

lemma ev_run_refines:
  assumes L: "trb_laws sb gb lk" and I: "ev_inv gb n base q s"
  shows "\<exists>s'. ev_run sb gb ops (outs, s) = Inr (fst (ev_spec_run n base ops (outs, q)), s') \<and> ev_inv gb n base (snd (ev_spec_run n base ops (outs, q))) s'"
  using I
proof (induction ops arbitrary: outs q s)
  case Nil
  then show ?case by (simp add: ev_run_def)
next
  case (Cons op ops)
  from ev_step_refines [OF L Cons.prems, of op] obtain s' where
    s': "ev_step sb gb op s = Inr (fst (ev_spec n base op q), s')" "ev_inv gb n base (snd (ev_spec n base op q)) s'" by blast
  then show ?case using Cons.IH [OF s'(2), of "outs @ [fst (ev_spec n base op q)]"] by (simp add: ev_run_def case_prod_beta)
qed

lemma ev_inv_new: "2 \<le> n \<Longrightarrow> trb_laws sb gb lk \<Longrightarrow> ev_inv gb n base (0, [], 0) (consumer_new base n, \<lparr>ev_count = 0, ev_erdp = 0\<rparr>)"
  by (auto simp: ev_inv_def consumer_new_def slots_def cycle_simps)

section \<open>The producer ring as a queue\<close>

text \<open>
  The controller reads the ring at a place and with a cycle state of its own. At the last place it finds the link
  block; when that is valid it goes back to the start and toggles its state. It keeps the addresses of the blocks
  it has fetched and not reported yet.
\<close>

record hw_reader =
  hr_pos :: nat
  hr_cycle :: bool
  hr_inflight :: "addr list"

definition hw_fetch :: "trb_gb \<Rightarrow> producer_ring \<Rightarrow> hw_reader \<Rightarrow> trb option \<times> hw_reader" where
  "hw_fetch gb r hw =
     (let last = length (pr_data r) - 1;
          (i, c) = (if hr_pos hw = last \<and> cycle_bit gb (pr_data r ! last) = hr_cycle hw then (0, \<not> hr_cycle hw) else (hr_pos hw, hr_cycle hw))
      in if i < last \<and> cycle_bit gb (pr_data r ! i) = c
         then (Some (pr_data r ! i), \<lparr>hr_pos = i + 1, hr_cycle = c, hr_inflight = hr_inflight hw @ [pr_base r + TRB_SIZE * i]\<rparr>)
         else (None, hw))"

datatype pr_op = Push_Trb trb | Fetch | Complete nat

datatype pr_out = Pushed_Trb "xhci_error + addr" | Fetched "trb option" | Completed

text \<open>\<open>Complete k\<close>: the controller reports the \<open>k\<close>-th of the blocks in flight, and with it the earlier ones.\<close>

definition pr_step :: "trb_sb \<Rightarrow> trb_gb \<Rightarrow> pr_op \<Rightarrow> producer_ring \<times> hw_reader \<Rightarrow> (pr_out \<times> producer_ring \<times> hw_reader) res" where
  "pr_step sb gb op = (\<lambda>(r, hw). case op of
     Push_Trb t \<Rightarrow> rbind (producer_push sb r t) (\<lambda>(res, r). Inr (Pushed_Trb res, r, hw))
   | Fetch \<Rightarrow> (let (t, hw) = hw_fetch gb r hw in Inr (Fetched (map_option payload t), r, hw))
   | Complete k \<Rightarrow>
       if k < length (hr_inflight hw)
       then rbind (set_deque_ptr r (hr_inflight hw ! k)) (\<lambda>r. Inr (Completed, r, hw\<lparr>hr_inflight := drop (Suc k) (hr_inflight hw)\<rparr>))
       else Inr (Completed, r, hw))"

definition pr_run :: "trb_sb \<Rightarrow> trb_gb \<Rightarrow> pr_op list \<Rightarrow> pr_out list \<times> producer_ring \<times> hw_reader \<Rightarrow> (pr_out list \<times> producer_ring \<times> hw_reader) res" where
  "pr_run sb gb = foldM (\<lambda>op (outs, s). rbind (pr_step sb gb op s) (\<lambda>(out, s). Inr (outs @ [out], s)))"

text \<open>The queue: the number of blocks fetched, the blocks still to be fetched, the number of blocks in flight.\<close>

type_synonym pr_queue = "nat \<times> trb list \<times> nat"

fun pr_spec :: "nat \<Rightarrow> addr \<Rightarrow> pr_op \<Rightarrow> pr_queue \<Rightarrow> pr_out \<times> pr_queue" where
  "pr_spec m base (Push_Trb t) (taken, pend, k) =
     (if length pend + k + 1 = m then (Pushed_Trb (Inl RingIsFull), taken, pend, k)
      else (Pushed_Trb (Inr (base + TRB_SIZE * ((taken + length pend) mod m))), taken, pend @ [payload t], k))"
| "pr_spec m base Fetch (taken, [], k) = (Fetched None, taken, [], k)"
| "pr_spec m base Fetch (taken, x # pend, k) = (Fetched (Some x), taken + 1, pend, k + 1)"
| "pr_spec m base (Complete j) (taken, pend, k) = (Completed, taken, pend, if j < k then k - Suc j else k)"

fun pr_spec_run :: "nat \<Rightarrow> addr \<Rightarrow> pr_op list \<Rightarrow> pr_out list \<times> pr_queue \<Rightarrow> pr_out list \<times> pr_queue" where
  "pr_spec_run m base [] (outs, q) = (outs, q)"
| "pr_spec_run m base (op # ops) (outs, q) = (let (out, q) = pr_spec m base op q in pr_spec_run m base ops (outs @ [out], q))"

text \<open>The place of the controller: at the next block, or at the link block behind a full round.\<close>

definition hr_at :: "nat \<Rightarrow> nat \<Rightarrow> hw_reader \<Rightarrow> bool" where
  "hr_at m v hw \<longleftrightarrow> hr_pos hw = v mod m \<and> hr_cycle hw = vcycle m v
     \<or> 0 < v \<and> v mod m = 0 \<and> hr_pos hw = m \<and> hr_cycle hw = (\<not> vcycle m v)"

definition inflight_at :: "nat \<Rightarrow> addr \<Rightarrow> nat \<Rightarrow> nat \<Rightarrow> addr list" where
  "inflight_at m base a b = map (\<lambda>v. base + TRB_SIZE * (v mod m)) [a..<b]"

definition pr_ring_inv :: "trb_gb \<Rightarrow> nat \<Rightarrow> addr \<Rightarrow> nat \<Rightarrow> nat \<Rightarrow> producer_ring \<Rightarrow> bool" where
  "pr_ring_inv gb m base D P r \<longleftrightarrow> 2 \<le> m \<and> length (pr_data r) = m + 1 \<and> pr_base r = base \<and> D \<le> P \<and> P < D + m
     \<and> pr_enque r = P mod m \<and> pr_cycle r = vcycle m P \<and> pr_deque r = D mod m
     \<and> cycle_bit gb (pr_data r ! m) = (m \<le> P \<and> \<not> vcycle m P)"

definition pr_inv :: "trb_gb \<Rightarrow> nat \<Rightarrow> addr \<Rightarrow> pr_queue \<Rightarrow> producer_ring \<times> hw_reader \<Rightarrow> bool" where
  "pr_inv gb m base = (\<lambda>(taken, pend, k) (r, hw). k \<le> taken \<and> pr_ring_inv gb m base (taken - k) (taken + length pend) r
     \<and> hr_at m taken hw \<and> hr_inflight hw = inflight_at m base (taken - k) taken
     \<and> (\<exists>T. slots gb m (taken + length pend) (pr_data r) T \<and> (\<forall>i < length pend. T (taken + i) = pend ! i)))"

lemma next_ptr_in: "\<lbrakk>length (pr_data r) = m + 1; 0 < m\<rbrakk> \<Longrightarrow> next_ptr r (v mod m) = Inr (Suc v mod m)"
proof -
  assume a: "length (pr_data r) = m + 1" "0 < m"
  then have "v mod m \<le> m - 1" using mod_less_divisor [of m v] by linarith
  then show ?thesis using a vpos_Suc [of m v] by (simp add: next_ptr_def res_simps)
qed

lemma ring_full: "\<lbrakk>D \<le> P; P < D + m\<rbrakk> \<Longrightarrow> (Suc P mod m = D mod m) = (Suc P = D + m)"
proof -
  assume a: "D \<le> P" "P < D + m"
  show ?thesis
  proof (cases "Suc P = D + m")
    case False
    then show ?thesis using a mod_eq_window [of D m "Suc P"] by auto
  next
    case True
    then show ?thesis by (simp only: mod_add_self2 refl)
  qed
qed

lemma advance_step:
  assumes L: "trb_laws sb gb lk" and I: "pr_ring_inv gb m base D P r" and room: "Suc P < D + m" and t: "cycle_bit gb t = vcycle m P"
    and s: "slots gb m P (pr_data r) T"
  shows "\<exists>r'. advance_enque_ptr sb (r\<lparr>pr_data := (pr_data r)[P mod m := t]\<rparr>) = Inr r' \<and> pr_ring_inv gb m base D (Suc P) r'
    \<and> slots gb m (Suc P) (pr_data r') (T(P := payload t))"
proof -
  have f: "2 \<le> m" "length (pr_data r) = m + 1" "pr_enque r = P mod m" "pr_cycle r = vcycle m P" using I by (auto simp: pr_ring_inv_def)
  have lt: "P mod m < m" using f(1) by simp
  have sl: "slots gb m (Suc P) ((pr_data r)[P mod m := t]) (T(P := payload t))"
    by (rule slots_write [OF s _ _ t]) (use f in auto)
  show ?thesis
  proof (cases "P mod m + 1 = m")
    case True
    let ?d = "(pr_data r)[P mod m := t, m := set_cycle_bit sb (vcycle m P) (pr_data r ! m)]"
    let ?r = "r\<lparr>pr_data := ?d, pr_enque := 0, pr_cycle := \<not> vcycle m P\<rparr>"
    have "advance_enque_ptr sb (r\<lparr>pr_data := (pr_data r)[P mod m := t]\<rparr>) = Inr ?r"
      using f True lt by (simp add: advance_enque_ptr_def Let_def res_simps)
    moreover have "m \<le> Suc P" using True by (metis Suc_eq_plus1 Suc_leI mod_less_eq_dividend not_less_eq_eq le_trans)
    then have "pr_ring_inv gb m base D (Suc P) ?r"
      using I room True vpos_Suc [of m P] vcycle_Suc [of m P] by (simp add: pr_ring_inv_def cycle_simps [OF L])
    moreover have "slots gb m (Suc P) ?d (T(P := payload t))" by (rule slots_beyond [OF sl]) simp
    ultimately show ?thesis by (intro exI [of _ ?r]) simp
  next
    case False
    let ?r = "r\<lparr>pr_data := (pr_data r)[P mod m := t], pr_enque := P mod m + 1\<rparr>"
    have adv: "advance_enque_ptr sb (r\<lparr>pr_data := (pr_data r)[P mod m := t]\<rparr>) = Inr ?r"
      using f False by (simp add: advance_enque_ptr_def Let_def res_simps)
    have "(m \<le> Suc P) = (m \<le> P)" using False f(1) by (cases "Suc P = m") (auto simp: mod_if)
    moreover have "(pr_data r)[P mod m := t] ! m = pr_data r ! m" using lt by simp
    ultimately have "pr_ring_inv gb m base D (Suc P) ?r"
      using I room False vpos_Suc [of m P] vcycle_Suc [of m P] by (simp add: pr_ring_inv_def)
    then show ?thesis using sl adv by (intro exI [of _ ?r]) simp
  qed
qed

lemma push_step:
  assumes L: "trb_laws sb gb lk" and I: "pr_ring_inv gb m base D P r" and s: "slots gb m P (pr_data r) T"
  shows "if Suc P = D + m then producer_push sb r t = Inr (Inl RingIsFull, r)
    else \<exists>r'. producer_push sb r t = Inr (Inr (base + TRB_SIZE * (P mod m)), r') \<and> pr_ring_inv gb m base D (Suc P) r'
      \<and> slots gb m (Suc P) (pr_data r') (T(P := payload t))"
proof -
  have f: "2 \<le> m" "length (pr_data r) = m + 1" "pr_enque r = P mod m" "pr_cycle r = vcycle m P" "pr_deque r = D mod m" "D \<le> P" "P < D + m" "pr_base r = base"
    using I by (auto simp: pr_ring_inv_def)
  have nx: "next_ptr r (pr_enque r) = Inr (Suc P mod m)" using next_ptr_in [of r m P] f by simp
  have full: "(Suc P mod m = pr_deque r) = (Suc P = D + m)" using ring_full [OF f(6,7)] f(5) by simp
  show ?thesis
  proof (cases "Suc P = D + m")
    case True
    then show ?thesis using nx full by (simp add: producer_push_def)
  next
    case False
    let ?t = "set_cycle_bit sb (vcycle m P) t"
    have "P mod m < m" using f(1) by simp
    then have "store (pr_data r) (P mod m) ?t = Inr ((pr_data r)[P mod m := ?t])" using f(2) by (simp add: store_def)
    moreover obtain r' where "advance_enque_ptr sb (r\<lparr>pr_data := (pr_data r)[P mod m := ?t]\<rparr>) = Inr r'" "pr_ring_inv gb m base D (Suc P) r'"
      "slots gb m (Suc P) (pr_data r') (T(P := payload ?t))"
      using advance_step [OF L I _ _ s, of ?t] False f(7) by (auto simp: cycle_simps [OF L])
    ultimately show ?thesis using False nx full f by (simp add: producer_push_def Let_def cycle_simps [OF L])
  qed
qed

lemma fetch_step:
  assumes I: "pr_ring_inv gb m base D P r" and s: "slots gb m P (pr_data r) T" and h: "hr_at m v hw" and v: "D \<le> v" "v \<le> P"
  shows "if v = P then hw_fetch gb r hw = (None, hw)
    else \<exists>t hw'. hw_fetch gb r hw = (Some t, hw') \<and> payload t = T v \<and> hr_at m (Suc v) hw'
      \<and> hr_inflight hw' = hr_inflight hw @ [base + TRB_SIZE * (v mod m)]"
proof -
  have f: "2 \<le> m" "length (pr_data r) = m + 1" "P < D + m" "pr_base r = base" "cycle_bit gb (pr_data r ! m) = (m \<le> P \<and> \<not> vcycle m P)"
    using I by (auto simp: pr_ring_inv_def)
  have lt: "v mod m < m" using f(1) by simp
  have fresh: "(cycle_bit gb (pr_data r ! (v mod m)) = vcycle m v) = (v < P)" using slots_fresh [OF s] v f by simp
  have read: "v < P \<Longrightarrow> payload (pr_data r ! (v mod m)) = T v" using slots_read [OF s] v f by simp
  have at: "(if hr_pos hw = m \<and> cycle_bit gb (pr_data r ! m) = hr_cycle hw then (0, \<not> hr_cycle hw) else (hr_pos hw, hr_cycle hw))
      = (v mod m, vcycle m v)"
  proof (cases "hr_pos hw = m")
    case True
    then have hl: "0 < v" "v mod m = 0" "hr_cycle hw = (\<not> vcycle m v)" using h lt by (auto simp: hr_at_def)
    have "m \<le> v" using hl(1,2) by (auto intro: dvd_imp_le)
    moreover have "P div m = v div m"
    proof -
      have "P = v + (P - v)" "P - v < m" using v f by auto
      then show ?thesis using hl(2) by (metis add.commute add_cancel_right_right div_add1_eq div_less mod_by_1 mod_less plus_nat.add_0)
    qed
    ultimately show ?thesis using True hl v f(5) by (simp add: vcycle_def)
  next
    case False
    then show ?thesis using h by (auto simp: hr_at_def)
  qed
  have run: "hw_fetch gb r hw = (if cycle_bit gb (pr_data r ! (v mod m)) = vcycle m v
      then (Some (pr_data r ! (v mod m)), \<lparr>hr_pos = v mod m + 1, hr_cycle = vcycle m v, hr_inflight = hr_inflight hw @ [base + TRB_SIZE * (v mod m)]\<rparr>)
      else (None, hw))"
    using f(2,4) lt unfolding hw_fetch_def Let_def by (simp add: at)
  have "hr_at m (Suc v) \<lparr>hr_pos = v mod m + 1, hr_cycle = vcycle m v, hr_inflight = l\<rparr>" for l
    using vpos_Suc [of m v] vcycle_Suc [of m v] f(1) by (auto simp: hr_at_def split: if_splits)
  then show ?thesis using run fresh read v by auto
qed

lemma inflight_nth: "k < b - a \<Longrightarrow> inflight_at m base a b ! k = base + TRB_SIZE * ((a + k) mod m)"
  by (simp add: inflight_at_def)

lemma complete_step:
  assumes I: "pr_ring_inv gb m base D P r" and v: "D \<le> v" "v < P"
  shows "set_deque_ptr r (base + TRB_SIZE * (v mod m)) = Inr (r\<lparr>pr_deque := Suc v mod m\<rparr>)
    \<and> pr_ring_inv gb m base (Suc v) P (r\<lparr>pr_deque := Suc v mod m\<rparr>)"
  using I v next_ptr_in [of r m v] by (auto simp: pr_ring_inv_def set_deque_ptr_def TRB_SIZE_def res_simps)

lemma pr_step_refines:
  assumes L: "trb_laws sb gb lk" and I: "pr_inv gb m base q s"
  shows "\<exists>s'. pr_step sb gb op s = Inr (fst (pr_spec m base op q), s') \<and> pr_inv gb m base (snd (pr_spec m base op q)) s'"
proof -
  obtain taken pend k r hw where q: "q = (taken, pend, k)" "s = (r, hw)" by (metis prod_cases3 surj_pair)
  let ?P = "taken + length pend" and ?D = "taken - k"
  have R: "pr_ring_inv gb m base ?D ?P r" and k: "k \<le> taken" and h: "hr_at m taken hw" "hr_inflight hw = inflight_at m base ?D taken"
    using I by (auto simp: pr_inv_def q)
  obtain T where T: "slots gb m ?P (pr_data r) T" "\<And>i. i < length pend \<Longrightarrow> T (taken + i) = pend ! i"
    using I by (auto simp: pr_inv_def q)
  show ?thesis
  proof (cases op)
    case (Push_Trb t)
    have full: "(Suc ?P = ?D + m) = (length pend + k + 1 = m)" using k by auto
    have "\<forall>i < Suc (length pend). (T(?P := payload t)) (taken + i) = (pend @ [payload t]) ! i"
      using T(2) by (auto simp: nth_append less_Suc_eq)
    note T' = this
    show ?thesis
    proof (cases "length pend + k + 1 = m")
      case True
      then show ?thesis using push_step [OF L R T(1), of t] full I by (simp add: Push_Trb pr_step_def q)
    next
      case False
      then obtain r' where r': "producer_push sb r t = Inr (Inr (base + TRB_SIZE * (?P mod m)), r')" "pr_ring_inv gb m base ?D (Suc ?P) r'"
        "slots gb m (Suc ?P) (pr_data r') (T(?P := payload t))"
        using push_step [OF L R T(1), of t] full by auto
      then have "pr_inv gb m base (taken, pend @ [payload t], k) (r', hw)"
        using k h T' by (auto simp: pr_inv_def simp del: fun_upd_apply)
      then show ?thesis using r'(1) False by (simp add: Push_Trb pr_step_def q)
    qed
  next
    case Fetch
    show ?thesis
    proof (cases pend)
      case Nil
      then show ?thesis using fetch_step [OF R T(1) h(1)] I by (simp add: Fetch pr_step_def q)
    next
      case (Cons x xs)
      obtain t hw' where f: "hw_fetch gb r hw = (Some t, hw')" "payload t = T taken" "hr_at m (Suc taken) hw'"
        "hr_inflight hw' = hr_inflight hw @ [base + TRB_SIZE * (taken mod m)]"
        using fetch_step [OF R T(1) h(1)] Cons by auto
      have "\<forall>i < length xs. T (Suc taken + i) = xs ! i" using T(2) [of "Suc i" for i] Cons by auto
      then have "pr_inv gb m base (taken + 1, xs, k + 1) (r, hw')"
        using R T(1) f k h(2) Cons by (auto simp: pr_inv_def inflight_at_def)
      moreover have "payload t = x" using f(2) T(2) [of 0] Cons by simp
      ultimately show ?thesis using f(1) Cons by (simp add: Fetch pr_step_def q)
    qed
  next
    case (Complete j)
    show ?thesis
    proof (cases "j < k")
      case True
      let ?v = "?D + j"
      have nth: "hr_inflight hw ! j = base + TRB_SIZE * (?v mod m)" "length (hr_inflight hw) = k"
        using h(2) True k by (auto simp: inflight_nth) (simp add: inflight_at_def)
      have Rv: "set_deque_ptr r (base + TRB_SIZE * (?v mod m)) = Inr (r\<lparr>pr_deque := Suc ?v mod m\<rparr>)"
        "pr_ring_inv gb m base (Suc ?v) ?P (r\<lparr>pr_deque := Suc ?v mod m\<rparr>)"
        using complete_step [OF R, of ?v] True k by auto
      have "taken - (k - Suc j) = Suc ?v" using True k by auto
      moreover have "drop (Suc j) (hr_inflight hw) = inflight_at m base (Suc ?v) taken"
        using h(2) by (simp add: inflight_at_def drop_map)
      ultimately have "pr_inv gb m base (taken, pend, k - Suc j) (r\<lparr>pr_deque := Suc ?v mod m\<rparr>, hw\<lparr>hr_inflight := drop (Suc j) (hr_inflight hw)\<rparr>)"
        using Rv(2) k h(1) T by (auto simp: pr_inv_def hr_at_def)
      then show ?thesis using Rv(1) nth True by (simp add: Complete pr_step_def q)
    next
      case False
      then have "\<not> j < length (hr_inflight hw)" using h(2) k by (simp add: inflight_at_def)
      then show ?thesis using False I by (simp add: Complete pr_step_def q)
    qed
  qed
qed

lemma pr_run_refines:
  assumes L: "trb_laws sb gb lk" and I: "pr_inv gb m base q s"
  shows "\<exists>s'. pr_run sb gb ops (outs, s) = Inr (fst (pr_spec_run m base ops (outs, q)), s') \<and> pr_inv gb m base (snd (pr_spec_run m base ops (outs, q))) s'"
  using I
proof (induction ops arbitrary: outs q s)
  case Nil
  then show ?case by (simp add: pr_run_def)
next
  case (Cons op ops)
  from pr_step_refines [OF L Cons.prems, of op] obtain s' where
    s': "pr_step sb gb op s = Inr (fst (pr_spec m base op q), s')" "pr_inv gb m base (snd (pr_spec m base op q)) s'" by blast
  then show ?case using Cons.IH [OF s'(2), of "outs @ [fst (pr_spec m base op q)]"] by (simp add: pr_run_def case_prod_beta)
qed

lemma pr_inv_new:
  assumes "trb_laws sb gb lk" "2 \<le> m"
  shows "\<exists>r. producer_new lk base (m + 1) = Inr r \<and> pr_inv gb m base (0, [], 0) (r, \<lparr>hr_pos = 0, hr_cycle = True, hr_inflight = []\<rparr>)"
proof -
  have "slots gb m 0 ((replicate (m + 1) UnknownTRB_default)[m := lk base]) (\<lambda>_. 0)"
    by (rule slots_beyond) (simp_all add: slots_def cycle_simps [OF assms(1)] del: replicate_Suc)
  then show ?thesis using assms(2)
    by (simp add: producer_new_def res_simps pr_inv_def pr_ring_inv_def hr_at_def inflight_at_def cycle_simps [OF assms(1)] del: replicate_Suc) auto
qed

section \<open>Properties\<close>

text \<open>
  (C18) The event ring is a first-in first-out queue from the controller to the kernel: whatever the order of posts,
  pops and acknowledgements, the kernel takes exactly the posted events, in order and once each, the controller
  never overwrites an event that was not taken, and the pointer that the kernel writes back is that of the next event.
\<close>

theorem event_ring_refines_queue:
  assumes "trb_laws sb gb lk" "2 \<le> n"
  shows "\<exists>s. ev_run sb gb ops ([], consumer_new base n, \<lparr>ev_count = 0, ev_erdp = 0\<rparr>) = Inr (fst (ev_spec_run n base ops ([], 0, [], 0)), s)"
  using ev_run_refines [OF assms(1) ev_inv_new [OF assms(2,1)], of ops "[]"] by blast

text \<open>
  (C17) A transfer or command ring is a first-in first-out queue from the kernel to the controller, also across the
  link block at its end: a block is refused exactly when all places but one are waiting to be fetched or reported,
  the returned address is that of its place, and the controller fetches exactly the accepted blocks, in order and
  once each.
\<close>

theorem producer_ring_refines_queue:
  assumes "trb_laws sb gb lk" "2 \<le> m"
  shows "\<exists>r s. producer_new lk base (m + 1) = Inr r
    \<and> pr_run sb gb ops ([], r, \<lparr>hr_pos = 0, hr_cycle = True, hr_inflight = []\<rparr>) = Inr (fst (pr_spec_run m base ops ([], 0, [], 0)), s)"
proof -
  obtain r where r: "producer_new lk base (m + 1) = Inr r" "pr_inv gb m base (0, [], 0) (r, \<lparr>hr_pos = 0, hr_cycle = True, hr_inflight = []\<rparr>)"
    using pr_inv_new [OF assms] by blast
  from pr_run_refines [OF assms(1) r(2), of ops "[]"] r(1) show ?thesis by blast
qed

text \<open>A link block: the type code of a link in its place, the segment address, the toggle flag.\<close>

definition example_link :: "addr \<Rightarrow> trb" where
  "example_link a = of_nat a OR push_bit 97 1 OR push_bit 106 6"

lemma example_laws: "trb_laws put_bit bit (\<lambda>a. unset_bit 96 (example_link a))"
  by (simp add: trb_laws_def sets_put_bit bit_unset_bit_iff)

lemma payload_id: "\<not> bit t 96 \<Longrightarrow> payload t = t"
  by (rule bit_word_eqI) (auto simp: payload_def bit_unset_bit_iff)

lemma example_payloads: "payload 7 = 7" "payload 9 = 9" "payload 11 = 11" "payload 13 = 13"
  by (simp_all add: payload_id)

theorem event_ring_refines_queue_witness:
  "\<exists>s. ev_run put_bit bit [Post 7, Post 9, Post 11, Pop_Event, Acknowledge, Post 13, Pop_Event]
      ([], consumer_new 64 3, \<lparr>ev_count = 0, ev_erdp = 0\<rparr>)
    = Inr ([Posted True, Posted True, Posted False, Popped_Event (Some 7), Acknowledged 80, Posted True, Popped_Event (Some 9)], s)"
proof -
  let ?ops = "[Post 7, Post 9, Post 11, Pop_Event, Acknowledge, Post 13, Pop_Event]"
  have "fst (ev_spec_run 3 64 ?ops ([], 0, [], 0)) = [Posted True, Posted True, Posted False, Popped_Event (Some 7), Acknowledged 80,
      Posted True, Popped_Event (Some 9)]" by (simp add: example_payloads TRB_SIZE_def)
  moreover have "2 \<le> (3 :: nat)" by simp
  note event_ring_refines_queue [OF example_laws this, of ?ops 64]
  ultimately show ?thesis by (simp only:)
qed

theorem producer_ring_refines_queue_witness:
  "\<exists>r s. producer_new (\<lambda>a. unset_bit 96 (example_link a)) 64 (2 + 1) = Inr r
    \<and> pr_run put_bit bit [Push_Trb 7, Push_Trb 9, Fetch, Complete 0, Push_Trb 9, Fetch] ([], r, \<lparr>hr_pos = 0, hr_cycle = True, hr_inflight = []\<rparr>)
      = Inr ([Pushed_Trb (Inr 64), Pushed_Trb (Inl RingIsFull), Fetched (Some 7), Completed, Pushed_Trb (Inr 80), Fetched (Some 9)], s)"
proof -
  let ?ops = "[Push_Trb 7, Push_Trb 9, Fetch, Complete 0, Push_Trb 9, Fetch]"
  have "fst (pr_spec_run 2 64 ?ops ([], 0, [], 0)) = [Pushed_Trb (Inr 64), Pushed_Trb (Inl RingIsFull), Fetched (Some 7), Completed,
      Pushed_Trb (Inr 80), Fetched (Some 9)]" by (simp add: example_payloads TRB_SIZE_def)
  moreover have "2 \<le> (2 :: nat)" by simp
  note producer_ring_refines_queue [OF example_laws this, of 64 ?ops]
  ultimately show ?thesis by (simp only:)
qed

end
