(* ===== verification/Usb_Runtime.thy ===== *)
theory Usb_Runtime
  imports Usb_Ring
begin

text \<open>
  The asynchronous runtime of the USB driver, \<^verbatim>\<open>kernel/src/usb/runtime.rs\<close>: channels, the executor and its tasks.
  A task is known by its number, which also stands for its waker: waking a task sends its number to the queue of the
  executor. A future is a value together with a \<open>poll\<close> function that is given the number of the task, the future and
  the shared state, and returns the next future or the result, the new state and the tasks that it woke. Locks are
  left out here: every operation runs under the locks it takes.
\<close>

section \<open>Channels\<close>

type_synonym task_id = nat

text \<open>The queue and the waker that \<^verbatim>\<open>Sender\<close> and \<^verbatim>\<open>Receiver\<close> share.\<close>

record 'v channel =
  ch_queue :: "'v list"
  ch_waker :: "task_id option"

definition new_channel :: "'v channel" where
  "new_channel = \<lparr>ch_queue = [], ch_waker = None\<rparr>"

text \<open>The second component is the list of the tasks woken.\<close>

definition sender_send :: "'v \<Rightarrow> 'v channel \<Rightarrow> 'v channel \<times> task_id list" where
  "sender_send v c =
     (let c = c\<lparr>ch_queue := ch_queue c @ [v]\<rparr> in
      case ch_waker c of None \<Rightarrow> (c, []) | Some w \<Rightarrow> (c\<lparr>ch_waker := None\<rparr>, [w]))"

definition receiver_receive :: "'v channel \<Rightarrow> 'v option \<times> 'v channel" where
  "receiver_receive c = (case ch_queue c of [] \<Rightarrow> (None, c) | v # vs \<Rightarrow> (Some v, c\<lparr>ch_queue := vs\<rparr>))"

definition has_content :: "'v channel \<Rightarrow> bool" where
  "has_content c \<longleftrightarrow> ch_queue c \<noteq> []"

text \<open>\<^verbatim>\<open>Recv::poll\<close>: the next value, or registration of the waker.\<close>

definition recv_poll :: "task_id \<Rightarrow> 'v channel \<Rightarrow> 'v option \<times> 'v channel" where
  "recv_poll t c = (case ch_queue c of [] \<Rightarrow> (None, c\<lparr>ch_waker := Some t\<rparr>) | v # vs \<Rightarrow> (Some v, c\<lparr>ch_queue := vs\<rparr>))"

section \<open>Broadcast channels\<close>

record broadcast =
  bc_flag :: bool
  bc_wakers :: "task_id list"

definition new_broadcast_channel :: broadcast where
  "new_broadcast_channel = \<lparr>bc_flag = False, bc_wakers = []\<rparr>"

definition broadcast_poll :: "task_id \<Rightarrow> broadcast \<Rightarrow> bool \<times> broadcast" where
  "broadcast_poll t b = (if bc_flag b then (True, b) else (False, b\<lparr>bc_wakers := bc_wakers b @ [t]\<rparr>))"

definition broadcast_send :: "broadcast \<Rightarrow> broadcast \<times> task_id list" where
  "broadcast_send b = (b\<lparr>bc_flag := True, bc_wakers := []\<rparr>, bc_wakers b)"

section \<open>The executor\<close>

datatype ('r, 'f) poll = Ready 'r | Pending 'f

type_synonym ('f, 'r, 'w) poll_fun = "task_id \<Rightarrow> 'f \<Rightarrow> 'w \<Rightarrow> (('r, 'f) poll \<times> 'w \<times> task_id list) res"

text \<open>\<open>ex_slot\<close> is the slot of each task for its future; \<open>ex_next\<close> numbers the tasks.\<close>

record 'f executor =
  ex_queue :: "task_id channel"
  ex_slot :: "task_id \<Rightarrow> 'f option"
  ex_next :: nat

definition new_executor :: "'f executor" where
  "new_executor = \<lparr>ex_queue = new_channel, ex_slot = (\<lambda>_. None), ex_next = 0\<rparr>"

definition wake_by_ref :: "task_id \<Rightarrow> 'f executor \<Rightarrow> 'f executor" where
  "wake_by_ref t ex = ex\<lparr>ex_queue := fst (sender_send t (ex_queue ex))\<rparr>"

definition spawn :: "'f \<Rightarrow> 'f executor \<Rightarrow> 'f executor" where
  "spawn f ex = wake_by_ref (ex_next ex) (ex\<lparr>ex_slot := (ex_slot ex)(ex_next ex \<mapsto> f), ex_next := ex_next ex + 1\<rparr>)"

definition task_exec :: "('f, 'r, 'w) poll_fun \<Rightarrow> task_id \<Rightarrow> 'f executor \<times> 'w \<Rightarrow> ('r option \<times> 'f executor \<times> 'w) res" where
  "task_exec poll t = (\<lambda>(ex, w).
     case ex_slot ex t of
       None \<Rightarrow> Inr (None, ex, w)
     | Some f \<Rightarrow> rbind (poll t f w) (\<lambda>(p, w, woken).
         let ex = fold wake_by_ref woken ex in
         case p of
           Ready r \<Rightarrow> Inr (Some r, ex\<lparr>ex_slot := (ex_slot ex)(t := None)\<rparr>, w)
         | Pending f \<Rightarrow> Inr (None, ex\<lparr>ex_slot := (ex_slot ex)(t \<mapsto> f)\<rparr>, w)))"

text \<open>\<open>Inl ()\<close> is \<^verbatim>\<open>NoMoreTask\<close>.\<close>

definition process_next_task :: "('f, 'r, 'w) poll_fun \<Rightarrow> 'f executor \<times> 'w \<Rightarrow> ((unit + 'r option) \<times> 'f executor \<times> 'w) res" where
  "process_next_task poll = (\<lambda>(ex, w).
     case receiver_receive (ex_queue ex) of
       (None, _) \<Rightarrow> Inr (Inl (), ex, w)
     | (Some t, q) \<Rightarrow> rbind (task_exec poll t (ex\<lparr>ex_queue := q\<rparr>, w)) (\<lambda>(r, s). Inr (Inr r, s)))"

definition has_next_task :: "'f executor \<Rightarrow> bool" where
  "has_next_task ex = has_content (ex_queue ex)"

text \<open>The loop of \<^verbatim>\<open>on_xhc_interrupt\<close> in \<^verbatim>\<open>kernel/src/usb/mod.rs\<close>; a failed task is only reported.\<close>

partial_function (option) run_tasks :: "('f, 'r, 'w) poll_fun \<Rightarrow> 'f executor \<times> 'w \<Rightarrow> ('f executor \<times> 'w) res option" where
  "run_tasks poll s =
     (if has_next_task (fst s) then
        (case process_next_task poll s of
           Inl p \<Rightarrow> Some (Inl p)
         | Inr (Inl _, _) \<Rightarrow> Some (Inl UnwrapNone)
         | Inr (Inr _, s) \<Rightarrow> run_tasks poll s)
      else Some (Inr s))"

section \<open>Consumer loops\<close>

text \<open>
  The body of the tasks that dispatch events: receive from a channel, handle the value, and so on until the channel
  is empty. Each task has its own channel; \<open>handle\<close> acts on the rest of the state.
\<close>

function consume_loop :: "('v \<Rightarrow> 's \<Rightarrow> 's) \<Rightarrow> task_id \<Rightarrow> 'v channel \<Rightarrow> 's \<Rightarrow> 'v channel \<times> 's" where
  "consume_loop handle t c s =
     (case recv_poll t c of
        (None, c) \<Rightarrow> (c, s)
      | (Some v, c) \<Rightarrow> consume_loop handle t c (handle v s))"
  by pat_completeness auto
termination
  by (relation "measure (\<lambda>(_, _, c, _). length (ch_queue c))") (auto simp: recv_poll_def split: list.splits)

declare consume_loop.simps [simp del]

definition consume_poll :: "(task_id \<Rightarrow> 'v \<Rightarrow> 's \<Rightarrow> 's) \<Rightarrow> (unit, 'r, (task_id \<Rightarrow> 'v channel) \<times> 's) poll_fun" where
  "consume_poll handle t f = (\<lambda>(chs, s).
     let (c, s) = consume_loop (handle t) t (chs t) s in Inr (Pending f, (chs(t := c), s), []))"

lemma consume_loop_drains:
  "consume_loop h t c s = (\<lparr>ch_queue = [], ch_waker = Some t\<rparr>, fold h (ch_queue c) s)"
proof (induction h t c s rule: consume_loop.induct)
  case (1 h t c s)
  show ?case
  proof (cases "ch_queue c")
    case Nil
    then show ?thesis by (subst consume_loop.simps) (simp add: recv_poll_def)
  next
    case (Cons v vs)
    then have "recv_poll t c = (Some v, c\<lparr>ch_queue := vs\<rparr>)" by (simp add: recv_poll_def)
    then show ?thesis using 1 Cons by (subst consume_loop.simps) simp
  qed
qed

section \<open>A system of consumers\<close>

datatype 'v rt_op = Send_To task_id 'v | Wake_Up task_id | Turn

type_synonym 'v rt_state = "unit executor \<times> (task_id \<Rightarrow> 'v channel) \<times> (task_id \<Rightarrow> 'v list)"

text \<open>What a task has handled is recorded.\<close>

definition record_handle :: "task_id \<Rightarrow> 'v \<Rightarrow> (task_id \<Rightarrow> 'v list) \<Rightarrow> (task_id \<Rightarrow> 'v list)" where
  "record_handle t v log = log(t := log t @ [v])"

abbreviation record_poll :: "(unit, 'r, (task_id \<Rightarrow> 'v channel) \<times> (task_id \<Rightarrow> 'v list)) poll_fun" where
  "record_poll \<equiv> consume_poll record_handle"

definition rt_step :: "'v rt_op \<Rightarrow> 'v rt_state \<Rightarrow> 'v rt_state res" where
  "rt_step op = (\<lambda>(ex, chs, log). case op of
     Send_To t v \<Rightarrow> (let (c, woken) = sender_send v (chs t) in Inr (fold wake_by_ref woken ex, chs(t := c), log))
   | Wake_Up t \<Rightarrow> Inr (wake_by_ref t ex, chs, log)
   | Turn \<Rightarrow> rbind (process_next_task (record_poll :: (unit, unit, _) poll_fun) (ex, chs, log)) (\<lambda>(r, s). Inr s))"

definition rt_init :: "nat \<Rightarrow> 'v rt_state" where
  "rt_init n = (((spawn ()) ^^ n) new_executor, (\<lambda>_. new_channel), (\<lambda>_. []))"

definition sent_to :: "'v rt_op list \<Rightarrow> task_id \<Rightarrow> 'v list" where
  "sent_to ops t = concat (map (\<lambda>op. case op of Send_To u v \<Rightarrow> if u = t then [v] else [] | _ \<Rightarrow> []) ops)"

abbreviation run_queue :: "'f executor \<Rightarrow> task_id list" where
  "run_queue ex \<equiv> ch_queue (ex_queue ex)"

text \<open>
  No wake-up is lost: a task that is not in the run queue has an empty channel in which its waker is registered.
\<close>

definition rt_inv :: "nat \<Rightarrow> (task_id \<Rightarrow> 'v list) \<Rightarrow> 'v rt_state \<Rightarrow> bool" where
  "rt_inv n sent = (\<lambda>(ex, chs, log). ch_waker (ex_queue ex) = None \<and> (\<forall>t. ex_slot ex t = (if t < n then Some () else None))
     \<and> (\<forall>t < n. log t @ ch_queue (chs t) = sent t \<and> (t \<notin> set (run_queue ex) \<longrightarrow> ch_queue (chs t) = [] \<and> ch_waker (chs t) = Some t)
          \<and> ch_waker (chs t) \<in> {None, Some t}))"

lemma wake_by_ref_simps [simp]:
  "ch_waker (ex_queue ex) = None \<Longrightarrow> ch_waker (ex_queue (wake_by_ref t ex)) = None"
  "run_queue (wake_by_ref t ex) = run_queue ex @ [t]"
  "ex_slot (wake_by_ref t ex) = ex_slot ex"
  by (simp_all add: wake_by_ref_def sender_send_def Let_def split: option.splits)

lemma rt_inv_init: "rt_inv n (\<lambda>_. []) (rt_init n :: 'v rt_state)"
proof -
  let ?e = "\<lambda>n. ((spawn ()) ^^ n) new_executor"
  have "ch_waker (ex_queue (?e n)) = None \<and> ex_next (?e n) = n \<and> (\<forall>t. ex_slot (?e n) t = (if t < n then Some () else None)) \<and> run_queue (?e n) = [0..<n]"
  proof (induction n)
    case 0
    then show ?case by (simp add: new_executor_def new_channel_def)
  next
    case (Suc n)
    then show ?case by (auto simp: spawn_def wake_by_ref_def sender_send_def)
  qed
  then show ?thesis by (auto simp: rt_inv_def rt_init_def new_channel_def)
qed

text \<open>A turn takes the first task from the run queue and lets it handle all that is in its channel.\<close>

lemma turn_step:
  assumes I: "rt_inv n sent (ex, chs, log)" and q: "run_queue ex = t # ts"
  shows "\<exists>r ex' chs' log'. process_next_task (record_poll :: (unit, unit, _) poll_fun) (ex, chs, log) = Inr (Inr r, ex', chs', log')
    \<and> run_queue ex' = ts \<and> rt_inv n sent (ex', chs', log')"
proof (cases "t < n")
  case False
  let ?ex = "ex\<lparr>ex_queue := (ex_queue ex)\<lparr>ch_queue := ts\<rparr>\<rparr>"
  have "process_next_task (record_poll :: (unit, unit, _) poll_fun) (ex, chs, log) = Inr (Inr None, ?ex, chs, log)"
    using I q False by (simp add: process_next_task_def receiver_receive_def task_exec_def rt_inv_def)
  moreover have "rt_inv n sent (?ex, chs, log)" using I q False by (auto simp: rt_inv_def)
  ultimately show ?thesis by auto
next
  case True
  have rec: "fold (record_handle t) vs log = log(t := log t @ vs)" for vs and log :: "nat \<Rightarrow> 'b list"
    by (induction vs arbitrary: log) (auto simp: record_handle_def)
  let ?ex = "ex\<lparr>ex_queue := (ex_queue ex)\<lparr>ch_queue := ts\<rparr>, ex_slot := (ex_slot ex)(t \<mapsto> ())\<rparr>"
  let ?chs = "chs(t := \<lparr>ch_queue = [], ch_waker = Some t\<rparr>)" and ?log = "log(t := log t @ ch_queue (chs t))"
  have "process_next_task (record_poll :: (unit, unit, _) poll_fun) (ex, chs, log) = Inr (Inr None, ?ex, ?chs, ?log)"
    using I q True by (simp add: process_next_task_def receiver_receive_def task_exec_def consume_poll_def consume_loop_drains rec rt_inv_def)
  moreover have "rt_inv n sent (?ex, ?chs, ?log)" using I q True by (auto simp: rt_inv_def)
  ultimately show ?thesis by auto
qed

lemma rt_step_inv:
  assumes I: "rt_inv n sent s"
  shows "\<exists>s'. rt_step op s = Inr s' \<and> rt_inv n (\<lambda>t. sent t @ sent_to [op] t) s'"
proof -
  obtain ex chs log where s: "s = (ex, chs, log)" by (cases s) auto
  show ?thesis
  proof (cases op)
    case (Send_To u v)
    have "ch_waker (chs u) = None \<or> ch_waker (chs u) = Some u \<or> \<not> u < n" using I by (auto simp: rt_inv_def s)
    then show ?thesis using I
      by (cases "ch_waker (chs u)") (auto simp: Send_To rt_step_def s sender_send_def rt_inv_def sent_to_def Let_def)
  next
    case (Wake_Up u)
    then show ?thesis using I by (auto simp: rt_step_def s rt_inv_def sent_to_def)
  next
    case Turn
    show ?thesis
    proof (cases "run_queue ex")
      case Nil
      then show ?thesis using I by (simp add: Turn rt_step_def s process_next_task_def receiver_receive_def sent_to_def)
    next
      case (Cons t ts)
      from turn_step [OF I [unfolded s] this] show ?thesis by (auto simp: Turn rt_step_def s sent_to_def)
    qed
  qed
qed

lemma rt_run_inv:
  "rt_inv n sent s \<Longrightarrow> \<exists>s'. foldM rt_step ops s = Inr s' \<and> rt_inv n (\<lambda>t. sent t @ sent_to ops t) s'"
proof (induction ops arbitrary: sent s)
  case Nil
  then show ?case by (simp add: sent_to_def)
next
  case (Cons op ops)
  from rt_step_inv [OF Cons.prems, of op] obtain s1 where s1: "rt_step op s = Inr s1" "rt_inv n (\<lambda>t. sent t @ sent_to [op] t) s1" by blast
  have "sent_to (op # ops) t = sent_to [op] t @ sent_to ops t" for t by (simp add: sent_to_def)
  then show ?case using Cons.IH [OF s1(2)] s1(1) by simp
qed

lemma run_tasks_drains:
  assumes "rt_inv n sent (ex, w)"
  shows "\<exists>ex' w'. run_tasks (record_poll :: (unit, unit, _) poll_fun) (ex, w) = Some (Inr (ex', w')) \<and> run_queue ex' = [] \<and> rt_inv n sent (ex', w')"
  using assms
proof (induction "length (run_queue ex)" arbitrary: ex w)
  case 0
  then show ?case by (subst run_tasks.simps) (simp add: has_next_task_def has_content_def)
next
  case (Suc k)
  then obtain t ts where q: "run_queue ex = t # ts" by (cases "run_queue ex") auto
  obtain chs log where w: "w = (chs, log)" by fastforce
  from turn_step [OF Suc.prems [unfolded w] q] obtain r ex1 chs1 log1 where
    t: "process_next_task (record_poll :: (unit, unit, _) poll_fun) (ex, chs, log) = Inr (Inr r, ex1, chs1, log1)"
      "run_queue ex1 = ts" "rt_inv n sent (ex1, chs1, log1)" by blast
  from Suc.hyps(1) [of ex1 "(chs1, log1)"] t(2,3) q Suc.hyps(2) t(1) show ?case
    by (subst run_tasks.simps) (simp add: has_next_task_def has_content_def w)
qed

section \<open>Properties\<close>

text \<open>
  (C19) The runtime loses no message and no wake-up: however sends, spurious wake-ups and turns of the executor are
  interleaved, running the executor until it is idle always ends, and then every task has handled exactly the messages
  sent to it, in order.
\<close>

theorem runtime_delivers_all:
  "\<exists>s ex' chs log. foldM rt_step ops (rt_init n) = Inr s
     \<and> run_tasks (record_poll :: (unit, unit, _) poll_fun) s = Some (Inr (ex', chs, log))
     \<and> (\<forall>t < n. log t = sent_to ops t \<and> ch_queue (chs t) = [])"
proof -
  obtain s where s: "foldM rt_step ops (rt_init n) = Inr s" "rt_inv n (\<lambda>t. [] @ sent_to ops t) s" using rt_run_inv [OF rt_inv_init] by blast
  obtain ex w where "s = (ex, w)" by (cases s) auto
  then obtain ex' chs log where r: "run_tasks (record_poll :: (unit, unit, _) poll_fun) s = Some (Inr (ex', chs, log))" "run_queue ex' = []"
    "rt_inv n (sent_to ops) (ex', chs, log)" using run_tasks_drains [of n "sent_to ops" ex w] s(2) by auto
  then have "\<forall>t < n. log t = sent_to ops t \<and> ch_queue (chs t) = []" by (auto simp: rt_inv_def)
  then show ?thesis using s(1) r(1) by blast
qed

theorem runtime_delivers_all_witness:
  "\<exists>s ex' chs log. foldM rt_step [Turn, Send_To 1 (7 :: nat), Send_To 1 8, Wake_Up 0, Turn, Send_To 1 9] (rt_init 2) = Inr s
     \<and> run_tasks (record_poll :: (unit, unit, _) poll_fun) s = Some (Inr (ex', chs, log)) \<and> log 1 = [7, 8, 9]"
  using runtime_delivers_all [of "[Turn, Send_To 1 (7 :: nat), Send_To 1 8, Wake_Up 0, Turn, Send_To 1 9]" 2]
  by (fastforce simp: sent_to_def)

end
