(* ===== verification/Usb_Event.thy ===== *)
theory Usb_Event
  imports Usb_Runtime
begin

text \<open>
  The event ring of the USB host controller and its interrupt handler, \<^verbatim>\<open>kernel/src/usb/ring/event.rs\<close>, with the
  classification of raw blocks of \<^verbatim>\<open>kernel/src/usb/xhci.rs\<close>. The type code of a block is read by the \<^verbatim>\<open>bitfield\<close> crate
  (\<open>gr\<close>) and decoded by the \<^verbatim>\<open>xhci\<close> crate (\<open>from_u8\<close>).
\<close>

section \<open>Kinds of blocks\<close>

text \<open>The types of the \<^verbatim>\<open>xhci\<close> crate that the code distinguishes.\<close>

datatype trb_type =
    T_Normal | T_SetupStage | T_DataStage | T_StatusStage | T_Isoch | T_Link | T_EventData | T_NoopTransfer
  | T_EnableSlot | T_DisableSlot | T_AddressDevice | T_ConfigureEndpoint | T_EvaluateContext | T_ResetEndpoint | T_StopEndpoint
  | T_SetTrDequeuePointer | T_ResetDevice | T_ForceEvent | T_NegotiateBandwidth | T_SetLatencyToleranceValue | T_GetPortBandwidth
  | T_ForceHeader | T_NoopCommand | T_GetExtendedProperty | T_SetExtendedProperty
  | T_TransferEvent | T_CommandCompletion | T_PortStatusChange | T_BandwidthRequest | T_Doorbell | T_HostController
  | T_DeviceNotification | T_MfindexWrap

record trb_decoder =
  get_range :: "trb \<Rightarrow> nat \<Rightarrow> nat \<Rightarrow> u8"
  from_u8 :: "u8 \<Rightarrow> trb_type option"

definition trb_type_of :: "trb_decoder \<Rightarrow> trb \<Rightarrow> trb_type option" where
  "trb_type_of d t = from_u8 d (get_range d t 111 106)"

definition into_cmd_trb :: "trb_decoder \<Rightarrow> trb \<Rightarrow> trb_type option" where
  "into_cmd_trb d t = (case trb_type_of d t of None \<Rightarrow> None | Some ty \<Rightarrow>
     if ty \<in> {T_AddressDevice, T_Link, T_EnableSlot, T_DisableSlot, T_ConfigureEndpoint, T_EvaluateContext, T_ResetEndpoint, T_StopEndpoint,
       T_SetTrDequeuePointer, T_ResetDevice, T_ForceEvent, T_NegotiateBandwidth, T_SetLatencyToleranceValue, T_GetPortBandwidth,
       T_ForceHeader, T_NoopCommand, T_GetExtendedProperty, T_SetExtendedProperty} then Some ty else None)"

definition into_trans_trb :: "trb_decoder \<Rightarrow> trb \<Rightarrow> trb_type option" where
  "into_trans_trb d t = (case trb_type_of d t of None \<Rightarrow> None | Some ty \<Rightarrow>
     if ty \<in> {T_Normal, T_SetupStage, T_DataStage, T_StatusStage, T_Isoch, T_Link, T_EventData, T_NoopTransfer} then Some ty else None)"

definition into_event_trb :: "trb_decoder \<Rightarrow> trb \<Rightarrow> trb_type option" where
  "into_event_trb d t = (case trb_type_of d t of None \<Rightarrow> None | Some ty \<Rightarrow>
     if ty \<in> {T_TransferEvent, T_CommandCompletion, T_PortStatusChange, T_BandwidthRequest, T_Doorbell, T_HostController,
       T_DeviceNotification, T_MfindexWrap} then Some ty else None)"

section \<open>EventRing\<close>

record event_ring =
  er_ring :: consumer_ring
  er_trf :: "trb channel"
  er_cmd :: "trb channel"
  er_port :: "trb channel"

definition segment_table_entry :: "(128 word \<Rightarrow> nat \<Rightarrow> nat \<Rightarrow> u64 \<Rightarrow> 128 word) \<Rightarrow> addr \<Rightarrow> nat \<Rightarrow> 128 word" where
  "segment_table_entry sr base n = (let e = sr 0 63 0 (of_nat base) in sr e 79 64 (of_nat n))"

text \<open>The ring, the entry of the segment table, and the size and dequeue pointer written to the registers.\<close>

definition init_event_ring ::
    "(128 word \<Rightarrow> nat \<Rightarrow> nat \<Rightarrow> u64 \<Rightarrow> 128 word) \<Rightarrow> addr \<Rightarrow> trb channel \<Rightarrow> trb channel \<Rightarrow> trb channel \<Rightarrow> event_ring \<times> 128 word \<times> nat \<times> addr" where
  "init_event_ring sr base trf_listener cmd_listener port_listener =
     (let ring = consumer_new base 32 in
      (\<lparr>er_ring = ring, er_trf = trf_listener, er_cmd = cmd_listener, er_port = port_listener\<rparr>,
       segment_table_entry sr (cr_base ring) (length (cr_data ring)), 1, cr_base ring))"

fun process_event :: "trb_type \<Rightarrow> trb \<Rightarrow> event_ring \<Rightarrow> (event_ring \<times> task_id list) res" where
  "process_event T_TransferEvent t er = (let (c, woken) = sender_send t (er_trf er) in Inr (er\<lparr>er_trf := c\<rparr>, woken))"
| "process_event T_CommandCompletion t er = (let (c, woken) = sender_send t (er_cmd er) in Inr (er\<lparr>er_cmd := c\<rparr>, woken))"
| "process_event T_PortStatusChange t er = (let (c, woken) = sender_send t (er_port er) in Inr (er\<lparr>er_port := c\<rparr>, woken))"
| "process_event _ t er = Inl Unimplemented"

partial_function (option) event_loop :: "trb_gb \<Rightarrow> trb_decoder \<Rightarrow> event_ring \<Rightarrow> task_id list \<Rightarrow> (event_ring \<times> task_id list) res option" where
  "event_loop gb d er woken =
     (case consumer_pop gb (er_ring er) of
        Inl p \<Rightarrow> Some (Inl p)
      | Inr (None, ring) \<Rightarrow> Some (Inr (er\<lparr>er_ring := ring\<rparr>, woken))
      | Inr (Some t, ring) \<Rightarrow>
          (case into_event_trb d t of
             None \<Rightarrow> Some (Inl UnwrapNone)
           | Some ty \<Rightarrow>
               (case process_event ty t (er\<lparr>er_ring := ring\<rparr>) of
                  Inl p \<Rightarrow> Some (Inl p)
                | Inr (er, ws) \<Rightarrow> event_loop gb d er (woken @ ws))))"

text \<open>The result: the ring, the tasks woken, and the dequeue pointer written to the register.\<close>

definition on_xhc_interrupt :: "trb_gb \<Rightarrow> trb_decoder \<Rightarrow> event_ring \<Rightarrow> (event_ring \<times> task_id list \<times> addr) res option" where
  "on_xhc_interrupt gb d er = cbind (event_loop gb d er []) (\<lambda>(er, woken).
     Some (Inr (er, woken, cr_deque (er_ring er) * TRB_SIZE + cr_base (er_ring er))))"

section \<open>Dispatch\<close>

definition decoder_ok :: "trb_decoder \<Rightarrow> bool" where
  "decoder_ok d \<longleftrightarrow> (\<forall>t. get_range d t 111 106 = ucast (take_bit 6 (drop_bit 106 t)))"

lemma type_payload: "decoder_ok d \<Longrightarrow> trb_type_of d (payload t) = trb_type_of d t"
proof -
  have "take_bit 6 (drop_bit 106 (payload t)) = take_bit 6 (drop_bit 106 t)"
    by (rule bit_word_eqI) (auto simp: payload_def bit_simps)
  then show "decoder_ok d \<Longrightarrow> trb_type_of d (payload t) = trb_type_of d t" by (simp add: decoder_ok_def trb_type_of_def)
qed

definition dispatched :: "trb_decoder \<Rightarrow> trb_type \<Rightarrow> trb list \<Rightarrow> trb channel \<Rightarrow> trb channel \<Rightarrow> task_id list \<Rightarrow> bool" where
  "dispatched d ty es c c' woken \<longleftrightarrow>
     (let mine = filter (\<lambda>e. trb_type_of d e = Some ty) es in
      map payload (ch_queue c') = map payload (ch_queue c) @ mine
      \<and> (if mine = [] then ch_waker c' = ch_waker c else ch_waker c' = None \<and> (\<forall>t. ch_waker c = Some t \<longrightarrow> t \<in> set woken)))"

lemma dispatched_Nil: "dispatched d ty [] c c woken"
  by (simp add: dispatched_def)

lemma dispatched_mine:
  assumes "dispatched d ty es (fst (sender_send t c)) c' woken" "trb_type_of d (payload t) = Some ty"
  shows "dispatched d ty (payload t # es) c c' (snd (sender_send t c) @ woken)"
  using assms by (auto simp: dispatched_def sender_send_def Let_def split: option.splits if_splits)

lemma dispatched_other:
  "\<lbrakk>dispatched d ty es c c' woken; trb_type_of d x \<noteq> Some ty\<rbrakk> \<Longrightarrow> dispatched d ty (x # es) c c' (ws @ woken)"
  by (auto simp: dispatched_def Let_def split: if_splits)

definition dispatched_all :: "trb_decoder \<Rightarrow> trb list \<Rightarrow> event_ring \<Rightarrow> event_ring \<Rightarrow> task_id list \<Rightarrow> bool" where
  "dispatched_all d es er er' woken \<longleftrightarrow> dispatched d T_TransferEvent es (er_trf er) (er_trf er') woken
     \<and> dispatched d T_CommandCompletion es (er_cmd er) (er_cmd er') woken
     \<and> dispatched d T_PortStatusChange es (er_port er) (er_port er') woken"

lemma process_event_step:
  assumes "trb_type_of d (payload t) = Some ty" "ty \<in> {T_TransferEvent, T_CommandCompletion, T_PortStatusChange}"
  shows "\<exists>er1 ws. process_event ty t er = Inr (er1, ws) \<and> er_ring er1 = er_ring er
    \<and> (\<forall>es er' woken. dispatched_all d es er1 er' woken \<longrightarrow> dispatched_all d (payload t # es) er er' (ws @ woken))"
proof -
  have "ty = T_TransferEvent \<or> ty = T_CommandCompletion \<or> ty = T_PortStatusChange" using assms(2) by auto
  then show ?thesis using assms(1) dispatched_mine [of d]
    by (elim disjE) (auto simp: dispatched_all_def case_prod_beta intro: dispatched_other)
qed

lemma event_loop_dispatches:
  assumes ok: "decoder_ok d" and I: "ev_inv gb n base (taken, pend, u) (er_ring er, hw)"
    and kinds: "\<And>e. e \<in> set pend \<Longrightarrow> trb_type_of d e \<in> {Some T_TransferEvent, Some T_CommandCompletion, Some T_PortStatusChange}"
  shows "\<exists>er' ws. event_loop gb d er woken = Some (Inr (er', woken @ ws)) \<and> dispatched_all d pend er er' ws
    \<and> ev_inv gb n base (taken + length pend, [], u + length pend) (er_ring er', hw)"
  using I kinds
proof (induction pend arbitrary: taken u er woken)
  case Nil
  then have "consumer_pop gb (er_ring er) = Inr (None, er_ring er)" using pop_step [OF Nil.prems(1)] by simp
  then show ?case using Nil.prems by (subst event_loop.simps) (simp add: dispatched_all_def dispatched_Nil)
next
  case (Cons x pend)
  from pop_step [OF Cons.prems(1)] obtain t r' where
    t: "consumer_pop gb (er_ring er) = Inr (Some t, r')" "payload t = x" "ev_inv gb n base (taken + 1, pend, u + 1) (r', hw)" by auto
  obtain ty where ty: "trb_type_of d x = Some ty" "ty \<in> {T_TransferEvent, T_CommandCompletion, T_PortStatusChange}"
    using Cons.prems(2) [of x] by auto
  have "trb_type_of d t = Some ty" using ty(1) type_payload [OF ok, of t] t(2) by simp
  then have into: "into_event_trb d t = Some ty" using ty(2) by (auto simp: into_event_trb_def)
  from process_event_step [of d t ty "er\<lparr>er_ring := r'\<rparr>"] ty t(2) obtain er1 ws1 where
    p: "process_event ty t (er\<lparr>er_ring := r'\<rparr>) = Inr (er1, ws1)" "er_ring er1 = r'"
      "\<And>es er' woken. dispatched_all d es er1 er' woken \<Longrightarrow> dispatched_all d (x # es) (er\<lparr>er_ring := r'\<rparr>) er' (ws1 @ woken)" by auto
  from Cons.IH [of "taken + 1" "u + 1" er1 "woken @ ws1"] t(3) p(2) Cons.prems(2) obtain er' ws where
    l: "event_loop gb d er1 (woken @ ws1) = Some (Inr (er', (woken @ ws1) @ ws))" "dispatched_all d pend er1 er' ws"
      "ev_inv gb n base (taken + 1 + length pend, [], u + 1 + length pend) (er_ring er', hw)" by auto
  have "dispatched_all d (x # pend) er er' (ws1 @ ws)" using p(3) [OF l(2)] by (simp add: dispatched_all_def)
  moreover have "event_loop gb d er woken = Some (Inr (er', woken @ (ws1 @ ws)))"
    using t(1) into p(1) l(1) by (subst event_loop.simps) simp
  ultimately show ?case using l(3) by auto
qed

section \<open>Properties\<close>


definition example_decoder :: trb_decoder where
  "example_decoder = \<lparr>get_range = (\<lambda>t msb lsb. ucast (take_bit (Suc msb - lsb) (drop_bit lsb t))),
     from_u8 = (\<lambda>b. if b = 32 then Some T_TransferEvent else if b = 33 then Some T_CommandCompletion else if b = 34 then Some T_PortStatusChange else None)\<rparr>"

definition example_event_ring :: "consumer_ring \<Rightarrow> event_ring" where
  "example_event_ring r = \<lparr>er_ring = r, er_trf = new_channel, er_cmd = \<lparr>ch_queue = [], ch_waker = Some 5\<rparr>, er_port = new_channel\<rparr>"


end
