(* ===== verification/Usb_Transfer.thy ===== *)
theory Usb_Transfer
  imports Usb_Ring
begin

text \<open>
  The command ring (\<^verbatim>\<open>kernel/src/usb/ring/command.rs\<close>) and the transfer rings (\<^verbatim>\<open>kernel/src/usb/ring/transfer.rs\<close>) of
  the USB driver. A block under construction is the value that the setters of the \<^verbatim>\<open>xhci\<close> crate were given; \<open>raw\<close> is
  the crate's \<^verbatim>\<open>into_raw\<close>. The two ends of a one-shot channel of the \<^verbatim>\<open>futures\<close> crate are the number of the channel;
  numbers are handed out by a counter. A write of the doorbell register is recorded as slot and target.
\<close>

type_synonym waiter = nat
type_synonym doorbell = "nat \<times> nat"

section \<open>CommandRing\<close>

record command_ring =
  cmd_ring :: producer_ring
  cmd_listener :: "addr \<Rightarrow> waiter option"

text \<open>The size is not used: the ring always has 32 places. The result includes the pointer the register is given.\<close>

definition init_command_ring :: "(addr \<Rightarrow> trb) \<Rightarrow> addr \<Rightarrow> nat \<Rightarrow> (command_ring \<times> addr) res" where
  "init_command_ring lk base n =
     rbind (producer_new lk base 32) (\<lambda>ring. Inr (\<lparr>cmd_ring = ring, cmd_listener = (\<lambda>_. None)\<rparr>, pr_base ring))"

definition push_command ::
    "trb_sb \<Rightarrow> command_ring \<Rightarrow> trb \<Rightarrow> waiter \<Rightarrow> ((xhci_error + waiter \<times> doorbell list) \<times> command_ring) res" where
  "push_command sb c trb fresh =
     rbind (producer_push sb (cmd_ring c) trb) (\<lambda>(res, ring).
     let c = c\<lparr>cmd_ring := ring\<rparr> in
     case res of
       Inl e \<Rightarrow> Inr (Inl e, c)
     | Inr ptr \<Rightarrow> Inr (Inr (fresh, [(0, 0)]), c\<lparr>cmd_listener := (cmd_listener c)(ptr \<mapsto> fresh)\<rparr>))"

text \<open>The result is the channel that the completion is sent on.\<close>

definition on_command_completion :: "command_ring \<Rightarrow> addr \<Rightarrow> waiter option \<times> command_ring" where
  "on_command_completion c command_trb_pointer =
     (case cmd_listener c command_trb_pointer of
        None \<Rightarrow> (None, c)
      | Some w \<Rightarrow> (Some w, c\<lparr>cmd_listener := (cmd_listener c)(command_trb_pointer := None)\<rparr>))"

section \<open>Control requests\<close>

datatype control_request_type = GetDescriptor | SetConfigutation | SetProtocol | SetInterface

datatype transfer_direction = HostToDevice | DeviceToHost

fun get_actual_value :: "control_request_type \<Rightarrow> u8 \<times> u8" where
  "get_actual_value GetDescriptor = (0b10000000, 6)"
| "get_actual_value SetConfigutation = (0b00000000, 9)"
| "get_actual_value SetProtocol = (0b00100001, 11)"
| "get_actual_value SetInterface = (0b00000001, 11)"

record setup_data =
  sd_request_type :: control_request_type
  sd_value :: u16
  sd_index :: u16
  sd_length :: u16

text \<open>Enumerations of the \<^verbatim>\<open>xhci\<close> crate that the code passes to its setters.\<close>

datatype transfer_type = TT_No | TT_Out | TT_In

datatype direction = Dir_Out | Dir_In

record setup_stage =
  ss_request_type :: u8
  ss_request :: u8
  ss_value :: u16
  ss_index :: u16
  ss_transfer_type :: transfer_type
  ss_length :: u16
  ss_ioc :: bool

record data_stage =
  ds_data_buffer_pointer :: addr
  ds_trb_transfer_length :: u32
  ds_td_size :: nat
  ds_direction :: direction
  ds_isp :: bool
  ds_ioc :: bool

record status_stage =
  st_ioc :: bool
  st_direction :: bool

record normal_trb =
  no_ioc :: bool
  no_data_buffer_pointer :: addr
  no_trb_transfer_length :: u32

datatype transfer_trb = SetupStage setup_stage | DataStage data_stage | StatusStage status_stage | Normal normal_trb

fun interrupt_on_completion :: "transfer_trb \<Rightarrow> bool" where
  "interrupt_on_completion (SetupStage t) = ss_ioc t"
| "interrupt_on_completion (DataStage t) = ds_ioc t"
| "interrupt_on_completion (StatusStage t) = st_ioc t"
| "interrupt_on_completion (Normal t) = no_ioc t"

section \<open>TransferRingSet\<close>

record transfer_ring_set =
  tr_rings :: "nat \<times> nat \<Rightarrow> producer_ring option"
  tr_listener :: "addr \<Rightarrow> waiter option"
  tr_ring_size :: nat

definition transfer_ring_set_new :: "nat \<Rightarrow> transfer_ring_set" where
  "transfer_ring_set_new ring_size = \<lparr>tr_rings = (\<lambda>_. None), tr_listener = (\<lambda>_. None), tr_ring_size = ring_size\<rparr>"

text \<open>A transfer event, as the accessors of the crate read it; \<open>te_ok\<close>: the code is success or short packet.\<close>

record transfer_event =
  te_slot_id :: nat
  te_endpoint_id :: nat
  te_trb_pointer :: addr
  te_ok :: bool
  te_raw :: trb

definition on_trf_event :: "transfer_ring_set \<Rightarrow> transfer_event \<Rightarrow> ((waiter \<times> (xhci_error + transfer_event)) option \<times> transfer_ring_set) res" where
  "on_trf_event s evt =
     rbind (unwrap (tr_rings s (te_slot_id evt, te_endpoint_id evt))) (\<lambda>ring.
     rbind (set_deque_ptr ring (te_trb_pointer evt)) (\<lambda>ring.
     let s = s\<lparr>tr_rings := (tr_rings s)((te_slot_id evt, te_endpoint_id evt) \<mapsto> ring)\<rparr>;
         result = (if te_ok evt then Inr evt else Inl (TransferError (te_raw evt)))
     in case tr_listener s (te_trb_pointer evt) of
          None \<Rightarrow> Inr (None, s)
        | Some w \<Rightarrow> Inr (Some (w, result), s\<lparr>tr_listener := (tr_listener s)(te_trb_pointer evt := None)\<rparr>)))"

definition init_ring_at :: "(addr \<Rightarrow> trb) \<Rightarrow> addr \<Rightarrow> transfer_ring_set \<Rightarrow> nat \<Rightarrow> nat \<Rightarrow> (addr \<times> transfer_ring_set) res" where
  "init_ring_at lk base s slot_id endpoint_id =
     rbind (producer_new lk base (tr_ring_size s)) (\<lambda>ring.
     Inr (pr_base ring, s\<lparr>tr_rings := (tr_rings s)((slot_id, endpoint_id) \<mapsto> ring)\<rparr>))"

definition push_transfer_trb ::
    "trb_sb \<Rightarrow> (transfer_trb \<Rightarrow> trb) \<Rightarrow> transfer_ring_set \<Rightarrow> nat \<Rightarrow> nat \<Rightarrow> transfer_trb \<Rightarrow> waiter
       \<Rightarrow> ((xhci_error + waiter option) \<times> transfer_ring_set) res" where
  "push_transfer_trb sb raw s slot_id endpoint_id trb fresh =
     rbind (unwrap (tr_rings s (slot_id, endpoint_id))) (\<lambda>trf_ring.
     rbind (producer_push sb trf_ring (raw trb)) (\<lambda>(res, trf_ring).
     let s = s\<lparr>tr_rings := (tr_rings s)((slot_id, endpoint_id) \<mapsto> trf_ring)\<rparr> in
     case res of
       Inl e \<Rightarrow> Inr (Inl e, s)
     | Inr ptr \<Rightarrow>
         let int_on_short_packet = (case trb of DataStage t \<Rightarrow> ds_isp t | _ \<Rightarrow> False) in
         if interrupt_on_completion trb \<or> int_on_short_packet
         then Inr (Inr (Some fresh), s\<lparr>tr_listener := (tr_listener s)(ptr \<mapsto> fresh)\<rparr>)
         else Inr (Inr None, s)))"

fun stage_directions :: "transfer_direction \<Rightarrow> u16 \<Rightarrow> transfer_type \<times> direction \<times> transfer_direction" where
  "stage_directions HostToDevice len = (if len = 0 then (TT_No, Dir_Out, DeviceToHost) else (TT_Out, Dir_Out, DeviceToHost))"
| "stage_directions DeviceToHost len = (if len = 0 then (TT_No, Dir_In, DeviceToHost) else (TT_In, Dir_In, HostToDevice))"

definition setup_trb_of :: "setup_data \<Rightarrow> transfer_type \<Rightarrow> transfer_trb" where
  "setup_trb_of setup tt = (let (req_type, req) = get_actual_value (sd_request_type setup) in
     SetupStage \<lparr>ss_request_type = req_type, ss_request = req, ss_value = sd_value setup, ss_index = sd_index setup,
       ss_transfer_type = tt, ss_length = sd_length setup, ss_ioc = True\<rparr>)"

definition status_trb_of :: "transfer_direction \<Rightarrow> transfer_trb" where
  "status_trb_of status_dir = StatusStage \<lparr>st_ioc = True, st_direction = (status_dir = DeviceToHost)\<rparr>"

definition data_trb_of :: "setup_data \<Rightarrow> addr \<Rightarrow> direction \<Rightarrow> transfer_trb" where
  "data_trb_of setup buf data_dir = DataStage \<lparr>ds_data_buffer_pointer = buf, ds_trb_transfer_length = ucast (sd_length setup),
     ds_td_size = 0, ds_direction = data_dir, ds_isp = True, ds_ioc = True\<rparr>"

text \<open>\<open>data\<close> is the address of the buffer; \<open>fresh\<close> and its successors are unused channel numbers.\<close>

definition control_request ::
    "trb_sb \<Rightarrow> (transfer_trb \<Rightarrow> trb) \<Rightarrow> transfer_ring_set \<Rightarrow> nat \<Rightarrow> setup_data \<Rightarrow> addr option \<Rightarrow> waiter
       \<Rightarrow> ((xhci_error + waiter \<times> doorbell list) \<times> transfer_ring_set) res" where
  "control_request sb raw s slot_id setup data fresh =
     (let (req_type, req) = get_actual_value (sd_request_type setup);
          direction_bit = (if drop_bit 7 req_type = 1 then DeviceToHost else HostToDevice);
          (setup_transfer_type, data_dir, status_dir) = stage_directions direction_bit (sd_length setup);
          setup_trb = setup_trb_of setup setup_transfer_type;
          status_trb = status_trb_of status_dir
      in if sd_length setup = 0 then
           rbind (push_transfer_trb sb raw s slot_id 1 setup_trb fresh) (\<lambda>(res, s).
           case res of Inl e \<Rightarrow> Inr (Inl e, s) | Inr w \<Rightarrow>
           rbind (unwrap w) (\<lambda>trb.
           rbind (push_transfer_trb sb raw s slot_id 1 status_trb (fresh + 1)) (\<lambda>(res, s).
           case res of Inl e \<Rightarrow> Inr (Inl e, s) | Inr _ \<Rightarrow> Inr (Inr (trb, [(slot_id, 1)]), s))))
         else
           rbind (unwrap data) (\<lambda>buf.
           let data_trb = data_trb_of setup buf data_dir in
           rbind (push_transfer_trb sb raw s slot_id 1 setup_trb fresh) (\<lambda>(res, s).
           case res of Inl e \<Rightarrow> Inr (Inl e, s) | Inr _ \<Rightarrow>
           rbind (push_transfer_trb sb raw s slot_id 1 data_trb (fresh + 1)) (\<lambda>(res, s).
           case res of Inl e \<Rightarrow> Inr (Inl e, s) | Inr w \<Rightarrow>
           rbind (unwrap w) (\<lambda>trb.
           rbind (push_transfer_trb sb raw s slot_id 1 status_trb (fresh + 2)) (\<lambda>(res, s).
           case res of Inl e \<Rightarrow> Inr (Inl e, s) | Inr _ \<Rightarrow> Inr (Inr (trb, [(slot_id, 1)]), s)))))))"

section \<open>Pushing a block\<close>

text \<open>\<open>ring_holds\<close>: the ring of an endpoint holds the blocks \<open>T D\<close> to \<open>T (P - 1)\<close>.\<close>

definition ring_holds :: "trb_gb \<Rightarrow> nat \<Rightarrow> addr \<Rightarrow> nat \<Rightarrow> nat \<Rightarrow> (nat \<Rightarrow> trb) \<Rightarrow> nat \<times> nat \<Rightarrow> transfer_ring_set \<Rightarrow> bool" where
  "ring_holds gb m base D P T ep s \<longleftrightarrow>
     (\<exists>r. tr_rings s ep = Some r \<and> pr_ring_inv gb m base D P r \<and> slots gb m P (pr_data r) T)"

definition slot_addr :: "nat \<Rightarrow> addr \<Rightarrow> nat \<Rightarrow> addr" where
  "slot_addr m base v = base + TRB_SIZE * (v mod m)"

lemma slot_addr_eq: "\<lbrakk>slot_addr m base a = slot_addr m base b; a \<le> b; b < a + m\<rbrakk> \<Longrightarrow> a = b"
  using mod_eq_window [of a m b] by (simp add: slot_addr_def TRB_SIZE_def)

definition other_rings :: "nat \<times> nat \<Rightarrow> transfer_ring_set \<Rightarrow> transfer_ring_set \<Rightarrow> bool" where
  "other_rings ep s s' \<longleftrightarrow> (\<forall>e. e \<noteq> ep \<longrightarrow> tr_rings s' e = tr_rings s e) \<and> tr_ring_size s' = tr_ring_size s"

lemma push_trb_step:
  assumes L: "trb_laws sb gb lk" and h: "ring_holds gb m base D P T (slot, ep) s" and room: "Suc P < D + m" and ioc: "interrupt_on_completion trb"
  shows "\<exists>s'. push_transfer_trb sb raw s slot ep trb fresh = Inr (Inr (Some fresh), s')
    \<and> ring_holds gb m base D (Suc P) (T(P := payload (raw trb))) (slot, ep) s'
    \<and> tr_listener s' = (tr_listener s)(slot_addr m base P \<mapsto> fresh) \<and> other_rings (slot, ep) s s'"
proof -
  obtain r where r: "tr_rings s (slot, ep) = Some r" "pr_ring_inv gb m base D P r" "slots gb m P (pr_data r) T"
    using h by (auto simp: ring_holds_def)
  obtain r' where r': "producer_push sb r (raw trb) = Inr (Inr (slot_addr m base P), r')" "pr_ring_inv gb m base D (Suc P) r'"
    "slots gb m (Suc P) (pr_data r') (T(P := payload (raw trb)))"
    using push_step [OF L r(2,3), of "raw trb"] room by (auto simp: slot_addr_def)
  let ?s = "s\<lparr>tr_rings := (tr_rings s)((slot, ep) \<mapsto> r'), tr_listener := (tr_listener s)(slot_addr m base P \<mapsto> fresh)\<rparr>"
  have "push_transfer_trb sb raw s slot ep trb fresh = Inr (Inr (Some fresh), ?s)"
    using r(1) r'(1) ioc by (simp add: push_transfer_trb_def Let_def)
  moreover have "ring_holds gb m base D (Suc P) (T(P := payload (raw trb))) (slot, ep) ?s" using r'(2,3) by (simp add: ring_holds_def)
  ultimately show ?thesis by (intro exI [of _ ?s]) (simp add: other_rings_def)
qed

lemma push_trb_full:
  assumes L: "trb_laws sb gb lk" and h: "ring_holds gb m base D P T (slot, ep) s" and full: "Suc P = D + m"
  shows "push_transfer_trb sb raw s slot ep trb fresh = Inr (Inl RingIsFull, s)"
proof -
  obtain r where r: "tr_rings s (slot, ep) = Some r" "pr_ring_inv gb m base D P r" "slots gb m P (pr_data r) T"
    using h by (auto simp: ring_holds_def)
  have "(tr_rings s)((slot, ep) \<mapsto> r) = tr_rings s" using r(1) by auto
  then show ?thesis using push_step [OF L r(2,3), of "raw trb"] full r(1) by (simp add: push_transfer_trb_def Let_def)
qed

section \<open>The stages of a control transfer\<close>

text \<open>What the USB standard asks for: a setup stage, a data stage if there are data, a status stage against the data.\<close>

definition usb_stages :: "setup_data \<Rightarrow> addr \<Rightarrow> transfer_trb list" where
  "usb_stages setup buf =
     (let device_to_host = bit (fst (get_actual_value (sd_request_type setup))) 7 in
      if sd_length setup = 0 then [setup_trb_of setup TT_No, status_trb_of DeviceToHost]
      else if device_to_host then [setup_trb_of setup TT_In, data_trb_of setup buf Dir_In, status_trb_of HostToDevice]
      else [setup_trb_of setup TT_Out, data_trb_of setup buf Dir_Out, status_trb_of DeviceToHost])"

lemma ioc_stages [simp]: "interrupt_on_completion (setup_trb_of setup tt)" "interrupt_on_completion (status_trb_of d)" "interrupt_on_completion (data_trb_of setup b dd)"
  by (simp_all add: setup_trb_of_def status_trb_of_def data_trb_of_def case_prod_beta)

lemma direction_bit: "(drop_bit 7 (fst (get_actual_value rt)) = 1) = bit (fst (get_actual_value rt)) 7"
proof -
  have "(drop_bit 7 (0x80 :: u8) = 1) = bit (0x80 :: u8) 7" "(drop_bit 7 (0 :: u8) = 1) = bit (0 :: u8) 7"
    "(drop_bit 7 (0x21 :: u8) = 1) = bit (0x21 :: u8) 7" "(drop_bit 7 (1 :: u8) = 1) = bit (1 :: u8) 7" by code_simp+
  then show ?thesis by (cases rt) (simp_all only: get_actual_value.simps fst_conv)
qed

text \<open>\<open>pushed\<close>: what a transfer ring looks like after a list of blocks was pushed.\<close>

definition pushed :: "trb_gb \<Rightarrow> (transfer_trb \<Rightarrow> trb) \<Rightarrow> nat \<Rightarrow> addr \<Rightarrow> nat \<Rightarrow> nat \<Rightarrow> (nat \<Rightarrow> trb) \<Rightarrow> nat \<times> nat
    \<Rightarrow> transfer_ring_set \<Rightarrow> transfer_trb list \<Rightarrow> waiter list \<Rightarrow> transfer_ring_set \<Rightarrow> bool" where
  "pushed gb raw m base D P T ep s ts ws s' \<longleftrightarrow> length ws = length ts
     \<and> (\<exists>T'. ring_holds gb m base D (P + length ts) T' ep s' \<and> (\<forall>i < length ts. T' (P + i) = payload (raw (ts ! i))) \<and> (\<forall>v < P. T' v = T v))
     \<and> (\<forall>i < length ts. tr_listener s' (slot_addr m base (P + i)) = Some (ws ! i)) \<and> other_rings ep s s'"

lemma pushed_Nil: "ring_holds gb m base D P T ep s \<Longrightarrow> pushed gb raw m base D P T ep s [] [] s"
  by (auto simp: pushed_def other_rings_def)

lemma pushed_listener:
  "\<lbrakk>pushed gb raw m base D P T ep s ts ws s'; i < length ts\<rbrakk> \<Longrightarrow> tr_listener s' (slot_addr m base (P + i)) = Some (ws ! i)"
  by (simp add: pushed_def)

lemma pushed_step:
  assumes L: "trb_laws sb gb lk" and p: "pushed gb raw m base D P T (slot, ep) s ts ws s1" and room: "Suc (P + length ts) < D + m" "D \<le> P"
    and ioc: "interrupt_on_completion t"
  shows "\<exists>s2. push_transfer_trb sb raw s1 slot ep t fresh = Inr (Inr (Some fresh), s2)
    \<and> pushed gb raw m base D P T (slot, ep) s (ts @ [t]) (ws @ [fresh]) s2"
proof -
  let ?n = "length ts"
  obtain T' where T': "ring_holds gb m base D (P + ?n) T' (slot, ep) s1" "\<And>i. i < ?n \<Longrightarrow> T' (P + i) = payload (raw (ts ! i))" "\<And>v. v < P \<Longrightarrow> T' v = T v"
    using p by (auto simp: pushed_def)
  obtain s2 where s2: "push_transfer_trb sb raw s1 slot ep t fresh = Inr (Inr (Some fresh), s2)"
    "ring_holds gb m base D (Suc (P + ?n)) (T'(P + ?n := payload (raw t))) (slot, ep) s2"
    "tr_listener s2 = (tr_listener s1)(slot_addr m base (P + ?n) \<mapsto> fresh)" "other_rings (slot, ep) s1 s2"
    using push_trb_step [OF L T'(1) room(1) ioc] by blast
  have ne: "slot_addr m base (P + i) \<noteq> slot_addr m base (P + ?n)" if "i < ?n" for i
    using slot_addr_eq [of m base "P + i" "P + ?n"] that room by auto
  have "\<forall>i < Suc ?n. tr_listener s2 (slot_addr m base (P + i)) = Some ((ws @ [fresh]) ! i)"
    using p s2(3) ne by (auto simp: pushed_def nth_append less_Suc_eq)
  moreover have "\<forall>i < Suc ?n. (T'(P + ?n := payload (raw t))) (P + i) = payload (raw ((ts @ [t]) ! i))"
    using T'(2) by (auto simp: nth_append less_Suc_eq)
  moreover have "\<forall>v < P. (T'(P + ?n := payload (raw t))) v = T v" using T'(3) by auto
  moreover have "other_rings (slot, ep) s s2" using p s2(4) by (simp add: pushed_def other_rings_def)
  ultimately have "pushed gb raw m base D P T (slot, ep) s (ts @ [t]) (ws @ [fresh]) s2"
    using p s2(2) unfolding pushed_def by (simp del: fun_upd_apply) blast
  then show ?thesis using s2(1) by blast
qed

lemma control_request_unfold:
  "control_request sb raw s slot setup data fresh =
    (let stages = usb_stages setup buf in
     if sd_length setup = 0 then
       rbind (push_transfer_trb sb raw s slot 1 (stages ! 0) fresh) (\<lambda>(res, s). case res of Inl e \<Rightarrow> Inr (Inl e, s) | Inr w \<Rightarrow>
       rbind (unwrap w) (\<lambda>trb.
       rbind (push_transfer_trb sb raw s slot 1 (stages ! 1) (fresh + 1)) (\<lambda>(res, s). case res of Inl e \<Rightarrow> Inr (Inl e, s) | Inr _ \<Rightarrow>
       Inr (Inr (trb, [(slot, 1)]), s))))
     else
       rbind (push_transfer_trb sb raw s slot 1 (stages ! 0) fresh) (\<lambda>(res, s). case res of Inl e \<Rightarrow> Inr (Inl e, s) | Inr _ \<Rightarrow>
       rbind (push_transfer_trb sb raw s slot 1 (stages ! 1) (fresh + 1)) (\<lambda>(res, s). case res of Inl e \<Rightarrow> Inr (Inl e, s) | Inr w \<Rightarrow>
       rbind (unwrap w) (\<lambda>trb.
       rbind (push_transfer_trb sb raw s slot 1 (stages ! 2) (fresh + 2)) (\<lambda>(res, s). case res of Inl e \<Rightarrow> Inr (Inl e, s) | Inr _ \<Rightarrow>
       Inr (Inr (trb, [(slot, 1)]), s))))))"
  if "sd_length setup \<noteq> 0 \<Longrightarrow> data = Some buf"
proof -
  obtain v q where d: "get_actual_value (sd_request_type setup) = (v, q)" by fastforce
  have "(drop_bit 7 v = 1) = bit v 7" using direction_bit [of "sd_request_type setup"] d by simp
  then show ?thesis
    by (cases "sd_length setup = 0"; cases "bit v 7") (simp_all add: control_request_def d usb_stages_def that Let_def cong: sum.case_cong)
qed

section \<open>Requests and events\<close>

lemma control_request_step:
  assumes "trb_laws sb gb lk" "ring_holds gb m base D P T (slot, 1) s" "D \<le> P" "P + length (usb_stages setup buf) < D + m"
    and "sd_length setup = 0 \<or> data = Some buf"
  shows "\<exists>s' w. control_request sb raw s slot setup data fresh = Inr (Inr (w, [(slot, 1)]), s')
    \<and> pushed gb raw m base D P T (slot, 1) s (usb_stages setup buf) [fresh..<fresh + length (usb_stages setup buf)] s'
    \<and> tr_listener s' (slot_addr m base (if sd_length setup = 0 then P else P + 1)) = Some w"
proof -
  let ?st = "usb_stages setup buf"
  have data: "sd_length setup \<noteq> 0 \<Longrightarrow> data = Some buf" using assms(5) by simp
  have ioc: "\<And>t. t \<in> set ?st \<Longrightarrow> interrupt_on_completion t" by (auto simp: usb_stages_def Let_def split: if_splits)
  note p0 = pushed_Nil [OF assms(2), of raw]
  have len: "length ?st = (if sd_length setup = 0 then 2 else 3)" by (simp add: usb_stages_def Let_def)
  obtain s1 where s1: "push_transfer_trb sb raw s slot 1 (?st ! 0) fresh = Inr (Inr (Some fresh), s1)"
    "pushed gb raw m base D P T (slot, 1) s [?st ! 0] [fresh] s1"
    using pushed_step [OF assms(1) p0, of "?st ! 0" fresh] assms(3,4) len ioc by (auto split: if_splits)
  obtain s2 where s2: "push_transfer_trb sb raw s1 slot 1 (?st ! 1) (fresh + 1) = Inr (Inr (Some (fresh + 1)), s2)"
    "pushed gb raw m base D P T (slot, 1) s [?st ! 0, ?st ! 1] [fresh, fresh + 1] s2"
    using pushed_step [OF assms(1) s1(2), of "?st ! 1" "fresh + 1"] assms(3,4) len ioc by (auto split: if_splits)
  show ?thesis
  proof (cases "sd_length setup = 0")
    case True
    then have "?st = [?st ! 0, ?st ! 1]" by (simp add: usb_stages_def)
    then have p: "pushed gb raw m base D P T (slot, 1) s ?st [fresh, fresh + 1] s2" using s2(2) by simp
    then have "tr_listener s2 (slot_addr m base P) = Some fresh" using True len pushed_listener [OF p, of 0] by simp
    then show ?thesis using s1(1) s2(1) True p len
      by (intro exI [of _ s2] exI [of _ fresh]) (simp add: control_request_unfold [OF data] Let_def upt_rec)
  next
    case False
    obtain s3 where s3: "push_transfer_trb sb raw s2 slot 1 (?st ! 2) (fresh + 2) = Inr (Inr (Some (fresh + 2)), s3)"
      "pushed gb raw m base D P T (slot, 1) s [?st ! 0, ?st ! 1, ?st ! 2] [fresh, fresh + 1, fresh + 2] s3"
      using pushed_step [OF assms(1) s2(2), of "?st ! 2" "fresh + 2"] assms(3,4) len ioc False by auto
    have "?st = [?st ! 0, ?st ! 1, ?st ! 2]" using False by (simp add: usb_stages_def Let_def)
    then have p: "pushed gb raw m base D P T (slot, 1) s ?st [fresh, fresh + 1, fresh + 2] s3" using s3(2) by simp
    then have "tr_listener s3 (slot_addr m base (P + 1)) = Some (fresh + 1)" using False len pushed_listener [OF p, of 1] by simp
    then show ?thesis using s1(1) s2(1) s3(1) False p len
      by (intro exI [of _ s3] exI [of _ "fresh + 1"]) (simp add: control_request_unfold [OF data] Let_def upt_rec)
  qed
qed

lemma trf_event_step:
  assumes "ring_holds gb m base D P T (te_slot_id evt, te_endpoint_id evt) s" "D \<le> v" "v < P" "te_trb_pointer evt = slot_addr m base v"
    and "tr_listener s (slot_addr m base v) = Some w"
  shows "\<exists>s'. on_trf_event s evt = Inr (Some (w, if te_ok evt then Inr evt else Inl (TransferError (te_raw evt))), s')
    \<and> ring_holds gb m base (v + 1) P T (te_slot_id evt, te_endpoint_id evt) s'
    \<and> tr_listener s' = (tr_listener s)(slot_addr m base v := None) \<and> other_rings (te_slot_id evt, te_endpoint_id evt) s s'"
proof -
  let ?ep = "(te_slot_id evt, te_endpoint_id evt)"
  obtain r where r: "tr_rings s ?ep = Some r" "pr_ring_inv gb m base D P r" "slots gb m P (pr_data r) T"
    using assms(1) by (auto simp: ring_holds_def)
  let ?r = "r\<lparr>pr_deque := Suc v mod m\<rparr>"
  have c: "set_deque_ptr r (te_trb_pointer evt) = Inr ?r" "pr_ring_inv gb m base (Suc v) P ?r"
    using complete_step [OF r(2) assms(2,3)] assms(4) by (auto simp: slot_addr_def)
  let ?s = "s\<lparr>tr_rings := (tr_rings s)(?ep \<mapsto> ?r), tr_listener := (tr_listener s)(slot_addr m base v := None)\<rparr>"
  have "on_trf_event s evt = Inr (Some (w, if te_ok evt then Inr evt else Inl (TransferError (te_raw evt))), ?s)"
    using r(1) c(1) assms(4,5) by (simp add: on_trf_event_def Let_def)
  moreover have "ring_holds gb m base (v + 1) P T ?ep ?s" using c(2) r(3) by (simp add: ring_holds_def)
  ultimately show ?thesis by (intro exI [of _ ?s]) (simp add: other_rings_def)
qed

section \<open>Properties\<close>


text \<open>
  (C27) A transfer event is delivered: it frees the places up to its block in the ring of its endpoint, and the channel
  registered for the block receives the event, or an error when the transfer failed, and is forgotten.
\<close>

theorem transfer_event_delivered:
  assumes "ring_holds gb m base D P T (te_slot_id evt, te_endpoint_id evt) s" "D \<le> v" "v < P" "te_trb_pointer evt = slot_addr m base v"
    and "tr_listener s (slot_addr m base v) = Some w"
  shows "\<exists>s'. on_trf_event s evt = Inr (Some (w, if te_ok evt then Inr evt else Inl (TransferError (te_raw evt))), s')
    \<and> ring_holds gb m base (v + 1) P T (te_slot_id evt, te_endpoint_id evt) s'
    \<and> tr_listener s' = (tr_listener s)(slot_addr m base v := None) \<and> other_rings (te_slot_id evt, te_endpoint_id evt) s s'"
  using assms by (rule trf_event_step)

text \<open>
  When the ring has no room for all stages, a control request with data fails, but the stages that still fitted
  stay in the ring, so the controller will run them without the rest when the doorbell is rung next.
\<close>

theorem control_request_partial:
  assumes "trb_laws sb gb lk" "ring_holds gb m base D P T (slot, 1) s" "D \<le> P" "P + 2 < D + m" "P + 3 = D + m"
    and "sd_length setup \<noteq> 0"
  shows "\<exists>s'. control_request sb raw s slot setup (Some buf) fresh = Inr (Inl RingIsFull, s')
    \<and> pushed gb raw m base D P T (slot, 1) s (take 2 (usb_stages setup buf)) [fresh, fresh + 1] s'"
proof -
  let ?st = "usb_stages setup buf"
  have ioc: "\<And>t. t \<in> set ?st \<Longrightarrow> interrupt_on_completion t" by (auto simp: usb_stages_def Let_def split: if_splits)
  have len: "length ?st = 3" and t2: "take 2 ?st = [?st ! 0, ?st ! 1]" using assms(6) by (auto simp: usb_stages_def Let_def)
  obtain s1 where s1: "push_transfer_trb sb raw s slot 1 (?st ! 0) fresh = Inr (Inr (Some fresh), s1)"
    "pushed gb raw m base D P T (slot, 1) s [?st ! 0] [fresh] s1"
    using pushed_step [OF assms(1) pushed_Nil [OF assms(2), of raw], of "?st ! 0" fresh] assms(3,4) len ioc by auto
  obtain s2 where s2: "push_transfer_trb sb raw s1 slot 1 (?st ! 1) (fresh + 1) = Inr (Inr (Some (fresh + 1)), s2)"
    "pushed gb raw m base D P T (slot, 1) s [?st ! 0, ?st ! 1] [fresh, fresh + 1] s2"
    using pushed_step [OF assms(1) s1(2), of "?st ! 1" "fresh + 1"] assms(3,4) len ioc by auto
  obtain T' where "ring_holds gb m base D (P + 2) T' (slot, 1) s2" using s2(2) by (auto simp: pushed_def)
  from push_trb_full [OF assms(1) this, of raw "?st ! 2" "fresh + 2"] assms(5)
  have "push_transfer_trb sb raw s2 slot 1 (?st ! 2) (fresh + 2) = Inr (Inl RingIsFull, s2)" by simp
  then show ?thesis using s1(1) s2 assms(6) t2 by (intro exI [of _ s2]) (simp add: control_request_unfold [where buf = buf] Let_def)
qed

section \<open>The command ring fills up\<close>

datatype cmd_op = Send_Command trb | Command_Completed addr

fun is_send :: "cmd_op \<Rightarrow> bool" where
  "is_send (Send_Command t) = True"
| "is_send (Command_Completed a) = False"

text \<open>The outcomes of the sends: accepted or not.\<close>

fun cmd_step :: "trb_sb \<Rightarrow> cmd_op \<Rightarrow> bool list \<times> command_ring \<Rightarrow> (bool list \<times> command_ring) res" where
  "cmd_step sb (Send_Command t) (outs, c) = rbind (push_command sb c t (length outs)) (\<lambda>(res, c). Inr (outs @ [case res of Inl _ \<Rightarrow> False | Inr _ \<Rightarrow> True], c))"
| "cmd_step sb (Command_Completed a) (outs, c) = Inr (outs, snd (on_command_completion c a))"

definition cmd_inv :: "trb_gb \<Rightarrow> addr \<Rightarrow> bool list \<times> command_ring \<Rightarrow> bool" where
  "cmd_inv gb base = (\<lambda>(outs, c). outs = map (\<lambda>i. i < 30) [0..<length outs]
     \<and> (\<exists>T. pr_ring_inv gb 31 base 0 (min (length outs) 30) (cmd_ring c) \<and> slots gb 31 (min (length outs) 30) (pr_data (cmd_ring c)) T))"

lemma cmd_step_inv:
  assumes L: "trb_laws sb gb lk" and I: "cmd_inv gb base (outs, c)"
  shows "\<exists>s'. cmd_step sb op (outs, c) = Inr s' \<and> cmd_inv gb base s' \<and> length (fst s') = length outs + (if is_send op then 1 else 0)"
proof (cases op)
  case (Command_Completed a)
  have "cmd_ring (snd (on_command_completion c a)) = cmd_ring c" by (auto simp: on_command_completion_def split: option.splits)
  then show ?thesis using I by (simp add: Command_Completed cmd_inv_def)
next
  case (Send_Command t)
  let ?n = "length outs"
  let ?P = "min ?n 30"
  obtain T where T: "pr_ring_inv gb 31 base 0 ?P (cmd_ring c)" "slots gb 31 ?P (pr_data (cmd_ring c)) T" using I by (auto simp: cmd_inv_def)
  have outs: "map (\<lambda>i. i < 30) [0..<Suc ?n] = outs @ [?n < 30]" using I by (simp add: cmd_inv_def)
  show ?thesis
  proof (cases "?n < 30")
    case True
    then obtain r' a where r': "producer_push sb (cmd_ring c) t = Inr (Inr a, r')" "pr_ring_inv gb 31 base 0 (Suc ?n) r'"
      "slots gb 31 (Suc ?n) (pr_data r') (T(?n := payload t))" using push_step [OF L T, of t] by auto
    moreover have "min (Suc ?n) 30 = Suc ?n" using True by simp
    ultimately show ?thesis using outs True by (auto simp: Send_Command push_command_def cmd_inv_def Let_def)
  next
    case False
    then have "producer_push sb (cmd_ring c) t = Inr (Inl RingIsFull, cmd_ring c)" using push_step [OF L T, of t] by simp
    then show ?thesis using outs False T by (auto simp: Send_Command push_command_def cmd_inv_def Let_def)
  qed
qed

text \<open>
  The command ring is never told that commands were completed: of all commands ever sent, whatever completions
  arrive in between, exactly the first 30 are accepted.
\<close>

theorem command_ring_exhausted:
  assumes L: "trb_laws sb gb lk"
  shows "\<exists>c0 c. init_command_ring lk base n = Inr (c0, base)
    \<and> foldM (cmd_step sb) ops ([], c0) = Inr (map (\<lambda>i. i < 30) [0..<length (filter is_send ops)], c)"
proof -
  have run: "\<exists>s'. foldM (cmd_step sb) ops s = Inr s' \<and> cmd_inv gb base s' \<and> length (fst s') = length (fst s) + length (filter is_send ops)"
    if "cmd_inv gb base s" for s using that
  proof (induction ops arbitrary: s)
    case Nil
    then show ?case by simp
  next
    case (Cons op ops)
    obtain outs c where s: "s = (outs, c)" by fastforce
    obtain s1 where s1: "cmd_step sb op s = Inr s1" "cmd_inv gb base s1" "length (fst s1) = length outs + (if is_send op then 1 else 0)"
      using cmd_step_inv [OF L] Cons.prems s by blast
    from Cons.IH [OF s1(2)] s1 show ?case by (auto simp: s)
  qed
  obtain r where r: "producer_new lk base 32 = Inr r" "pr_inv gb 31 base (0, [], 0) (r, \<lparr>hr_pos = 0, hr_cycle = True, hr_inflight = []\<rparr>)"
    using pr_inv_new [OF L, of 31 base] by auto
  let ?c = "\<lparr>cmd_ring = r, cmd_listener = (\<lambda>_. None)\<rparr>"
  have "cmd_inv gb base ([], ?c)" "pr_base r = base" using r(2) by (auto simp: cmd_inv_def pr_inv_def pr_ring_inv_def)
  then show ?thesis using run [of "([], ?c)"] r(1) by (auto simp: init_command_ring_def cmd_inv_def)
qed

section \<open>A fresh endpoint\<close>

lemma init_ring_holds:
  assumes "trb_laws sb gb lk" "tr_ring_size s = m + 1" "2 \<le> m"
  shows "\<exists>s'. init_ring_at lk base s slot ep = Inr (base, s') \<and> ring_holds gb m base 0 0 (\<lambda>_. 0) (slot, ep) s'
    \<and> tr_listener s' = tr_listener s \<and> other_rings (slot, ep) s s'"
proof -
  obtain r T where r: "producer_new lk base (m + 1) = Inr r" "pr_ring_inv gb m base 0 0 r" "slots gb m 0 (pr_data r) T"
    using pr_inv_new [OF assms(1,3), of base] by (auto simp: pr_inv_def)
  have "slots gb m 0 (pr_data r) (\<lambda>_. 0)" "pr_base r = base" using r(2,3) by (auto simp: slots_def pr_ring_inv_def)
  then show ?thesis using r assms(2) by (auto simp: init_ring_at_def ring_holds_def other_rings_def)
qed

definition example_raw :: "transfer_trb \<Rightarrow> trb" where
  "example_raw t = push_bit 106 (case t of Normal _ \<Rightarrow> 1 | SetupStage _ \<Rightarrow> 2 | DataStage _ \<Rightarrow> 3 | StatusStage _ \<Rightarrow> 4)"

definition example_setup :: setup_data where
  "example_setup = \<lparr>sd_request_type = GetDescriptor, sd_value = 0x0100, sd_index = 0, sd_length = 18\<rparr>"

lemma example_stages: "length (usb_stages example_setup buf) = 3"
  by (simp add: usb_stages_def example_setup_def Let_def)

abbreviation example_lk :: "addr \<Rightarrow> trb" where
  "example_lk \<equiv> (\<lambda>a. unset_bit 96 (example_link a))"

lemma example_ring:
  "2 \<le> m \<Longrightarrow> \<exists>s. init_ring_at example_lk 4096 (transfer_ring_set_new (m + 1)) 1 1 = Inr (4096, s)
     \<and> ring_holds bit m 4096 0 0 (\<lambda>_. 0) (1, 1) s"
  using init_ring_holds [OF example_laws, of "transfer_ring_set_new (m + 1)" m 4096 1 1] by (auto simp: transfer_ring_set_new_def)


theorem transfer_event_delivered_witness:
  "\<exists>s s1 s2. init_ring_at example_lk 4096 (transfer_ring_set_new 32) 1 1 = Inr (4096, s)
     \<and> push_transfer_trb put_bit example_raw s 1 1 (status_trb_of HostToDevice) 7 = Inr (Inr (Some 7), s1)
     \<and> on_trf_event s1 \<lparr>te_slot_id = 1, te_endpoint_id = 1, te_trb_pointer = 4096, te_ok = False, te_raw = 5\<rparr> = Inr (Some (7, Inl (TransferError 5)), s2)"
proof -
  let ?e = "\<lparr>te_slot_id = 1, te_endpoint_id = 1, te_trb_pointer = 4096, te_ok = False, te_raw = 5\<rparr>"
  obtain s where s: "init_ring_at example_lk 4096 (transfer_ring_set_new 32) 1 1 = Inr (4096, s)" "ring_holds bit 31 4096 0 0 (\<lambda>_. 0) (1, 1) s"
    using example_ring [of 31] by auto
  obtain s1 where s1: "push_transfer_trb put_bit example_raw s 1 1 (status_trb_of HostToDevice) 7 = Inr (Inr (Some 7), s1)"
    "ring_holds bit 31 4096 0 1 ((\<lambda>_. 0)(0 := payload (example_raw (status_trb_of HostToDevice)))) (1, 1) s1"
    "tr_listener s1 = (tr_listener s)(slot_addr 31 4096 0 \<mapsto> 7)"
    using push_trb_step [OF example_laws s(2), of "status_trb_of HostToDevice" example_raw 7] by auto
  have "slot_addr 31 4096 0 = 4096" by (simp add: slot_addr_def)
  then show ?thesis using transfer_event_delivered [of bit 31 4096 0 1 _ ?e s1 0 7] s s1 by fastforce
qed

theorem control_request_partial_witness:
  "\<exists>s s'. init_ring_at example_lk 4096 (transfer_ring_set_new 4) 1 1 = Inr (4096, s)
     \<and> control_request put_bit example_raw s 1 example_setup (Some 8192) 7 = Inr (Inl RingIsFull, s')
     \<and> tr_listener s' (slot_addr 3 4096 1) = Some 8"
proof -
  obtain s where s: "init_ring_at example_lk 4096 (transfer_ring_set_new 4) 1 1 = Inr (4096, s)" "ring_holds bit 3 4096 0 0 (\<lambda>_. 0) (1, 1) s"
    using example_ring [of 3] by auto
  have ne: "sd_length example_setup \<noteq> 0" by (simp add: example_setup_def)
  obtain s' where c: "control_request put_bit example_raw s 1 example_setup (Some 8192) 7 = Inr (Inl RingIsFull, s')"
    "pushed bit example_raw 3 4096 0 0 (\<lambda>_. 0) (1, 1) s (take 2 (usb_stages example_setup 8192)) [7, 7 + 1] s'"
    using control_request_partial [OF example_laws s(2) _ _ _ ne, of example_raw 8192 7] by auto
  from pushed_listener [OF c(2), of 1] show ?thesis using s(1) c(1) example_stages by auto
qed

theorem command_ring_exhausted_witness:
  "\<exists>c0 c. init_command_ring example_lk 4096 1024 = Inr (c0, 4096)
     \<and> foldM (cmd_step put_bit) [Send_Command 7, Command_Completed 4096] ([], c0) = Inr ([True], c)"
  using command_ring_exhausted [OF example_laws, of 4096 1024 "[Send_Command 7, Command_Completed 4096]"] by simp

end
