(* ===== verification/Usb_Context.thy ===== *)
theory Usb_Context
  imports Usb_Transfer
begin

text \<open>
  The contexts that the kernel shares with the USB host controller, \<^verbatim>\<open>kernel/src/usb/device.rs\<close> and
  \<^verbatim>\<open>kernel/src/usb/util.rs\<close>. A device context is written by the controller and known by its address; an input context is
  a structure of the \<^verbatim>\<open>xhci\<close> crate and modelled as the list of the calls of the crate's setters, in order. What the
  capability registers return and the addresses the allocator returns are arguments.
\<close>

section \<open>Input contexts\<close>

datatype endpoint_type = IsochOut | BulkOut | InterruptOut | Control | IsochIn | BulkIn | InterruptIn

datatype ep_call =
    Set_Endpoint_Type endpoint_type
  | Set_Max_Packet_Size u16
  | Set_Max_Burst_Size nat
  | Set_TR_Dequeue_Pointer addr
  | Set_Dequeue_Cycle_State
  | Set_Interval u8
  | Set_Max_Primary_Streams nat
  | Set_Mult nat
  | Set_Error_Count nat

datatype ctx_call =
    Set_Add_Context_Flag nat
  | Set_Route_String nat
  | Set_Root_Hub_Port_Number u8
  | Set_Interrupter_Target nat
  | Set_Speed u8
  | Set_Context_Entries u8
  | On_Endpoint nat ep_call

section \<open>Page sizes\<close>

definition find_lsb :: "u16 \<Rightarrow> nat" where
  "find_lsb bits = (case find (\<lambda>i. drop_bit i bits AND 1 = 1) [0..<15] of Some i \<Rightarrow> i | None \<Rightarrow> 16)"

text \<open>\<open>data\<close> is what the allocator returns.\<close>

definition aligned_zeros :: "addr \<Rightarrow> nat \<Rightarrow> addr list res" where
  "aligned_zeros data len = rbind (usize_mul len 8) (\<lambda>_. if data = 0 then Inl UndefinedBehaviour else Inr (replicate len 0))"

section \<open>The device context array\<close>

datatype context_size = Csz32Bytes | Csz64Bytes

fun context_bytes :: "context_size \<Rightarrow> nat" where
  "context_bytes Csz32Bytes = 32"
| "context_bytes Csz64Bytes = 64"

record dcbaa =
  dc_base :: addr
  dc_array :: "addr list"
  dc_contexts :: "nat \<Rightarrow> addr option"
  dc_ctx_size :: context_size
  dc_scratchpad :: "(addr \<times> addr list) option"

text \<open>\<open>page i\<close>: the \<open>i\<close>-th page the allocator returns; each page is filled with zeros.\<close>

definition make_scratchpad :: "(nat \<Rightarrow> addr) \<Rightarrow> nat \<Rightarrow> nat \<Rightarrow> memory \<Rightarrow> (addr list \<times> memory) res" where
  "make_scratchpad page num_scratch_pads page_size mem =
     foldM (\<lambda>i (page_ptrs, mem).
         if page i = 0 then Inl ExplicitPanic
         else Inr (page_ptrs @ [page i], place (page i) (replicate page_size 0) mem)) [0..<num_scratch_pads] ([], mem)"

record hc_capabilities =
  number_of_device_slots :: u8
  context_size_64 :: bool
  max_scratchpad_buffers :: nat
  pagesize_register :: u16

text \<open>
  \<open>base\<close> and \<open>arr\<close> are the addresses of the array and of the scratchpad array. The result: the array, the memory, and
  the number of slots and the address that are written to the registers.
\<close>

definition init_dcbaa :: "hc_capabilities \<Rightarrow> addr \<Rightarrow> addr \<Rightarrow> (nat \<Rightarrow> addr) \<Rightarrow> memory \<Rightarrow> (dcbaa \<times> memory \<times> u8 \<times> addr) res" where
  "init_dcbaa cap base arr page mem =
     (let max_slots = number_of_device_slots cap;
          ctx_size = (if context_size_64 cap then Csz64Bytes else Csz32Bytes);
          num_scratch_pads = max_scratchpad_buffers cap;
          page_size = 2 ^ (12 + find_lsb (pagesize_register cap))
      in rbind (aligned_zeros base (unat max_slots + 1)) (\<lambda>array.
         rbind (if num_scratch_pads > 0 then
                  rbind (make_scratchpad page num_scratch_pads page_size mem) (\<lambda>(page_ptrs, mem).
                  rbind (store array 0 arr) (\<lambda>array. Inr (array, Some (arr, page_ptrs), mem)))
                else Inr (array, None, mem)) (\<lambda>(array, scratchpad_buf_arr, mem).
         Inr (\<lparr>dc_base = base, dc_array = array, dc_contexts = (\<lambda>_. None), dc_ctx_size = ctx_size, dc_scratchpad = scratchpad_buf_arr\<rparr>,
              mem, max_slots, base))))"

definition get_context_at :: "dcbaa \<Rightarrow> nat \<Rightarrow> addr res" where
  "get_context_at d slot_id = unwrap (dc_contexts d slot_id)"

text \<open>\<open>ctx\<close>: the address of the new context.\<close>

definition init_context_at :: "addr \<Rightarrow> nat \<Rightarrow> dcbaa \<Rightarrow> dcbaa res" where
  "init_context_at ctx slot_id d =
     (let d = d\<lparr>dc_contexts := (dc_contexts d)(slot_id \<mapsto> ctx)\<rparr> in
      rbind (store (dc_array d) slot_id ctx) (\<lambda>array. Inr (d\<lparr>dc_array := array\<rparr>)))"

section \<open>The lowest set bit\<close>

text \<open>
  The routine finds the lowest set bit unless it is bit 15: the loop leaves it out, so for \<^verbatim>\<open>0x8000\<close> the routine
  answers 16, as for zero.
\<close>

lemma find_upt_Some: "find P [0..<n] = Some i \<longleftrightarrow> i < n \<and> P i \<and> (\<forall>j < i. \<not> P j)"
  by (auto simp: find_Some_iff intro!: exI [of _ i])

lemma drop_bit_and_1: "drop_bit i (w :: u16) AND 1 = 1 \<longleftrightarrow> bit w i"
  by (simp add: and_one_eq odd_iff_mod_2_eq_one [symmetric] bit_iff_odd_drop_bit)

lemma find_lsb_low: "\<exists>j < 15. bit w j \<Longrightarrow> bit w (find_lsb w) \<and> (\<forall>j < find_lsb w. \<not> bit w j)"
  by (auto simp: find_lsb_def drop_bit_and_1 find_upt_Some find_None_iff split: option.splits)

lemma find_lsb_none: "\<forall>j < 15. \<not> bit w j \<Longrightarrow> find_lsb w = 16"
  by (auto simp: find_lsb_def drop_bit_and_1 find_upt_Some split: option.splits)

lemma bit_top: "bit (0x8000 :: u16) n \<longleftrightarrow> n = 15"
proof -
  have "(0x8000 :: u16) = push_bit 15 1" by (simp add: push_bit_eq_mult)
  then have "bit (0x8000 :: u16) n = bit (push_bit 15 1 :: u16) n" by simp
  also have "\<dots> = (n = 15)" unfolding bit_push_bit_iff by (auto simp: bit_1_iff)
  finally show ?thesis .
qed

theorem find_lsb_misses_top:
  "find_lsb 0x8000 = 16 \<and> (\<forall>w. w \<noteq> 0x8000 \<and> w \<noteq> 0 \<longrightarrow> bit w (find_lsb w) \<and> (\<forall>j < find_lsb w. \<not> bit w j))"
proof -
  have "bit w (find_lsb w) \<and> (\<forall>j < find_lsb w. \<not> bit w j)" if w: "w \<noteq> 0x8000" "w \<noteq> 0" for w
  proof -
    have "\<exists>j < 15. bit w j"
    proof (rule ccontr)
      assume none: "\<not> (\<exists>j < 15. bit w j)"
      have up: "n = 15" if "bit w n" for n
      proof -
        have "n < 16" using bit_imp_le_length [OF that] by simp
        moreover have "\<not> n < 15" using none that by blast
        ultimately show ?thesis by simp
      qed
      have "w = 0x8000 \<or> w = 0"
      proof (cases "bit w 15")
        case True
        then have "w = 0x8000" by (metis bit_eqI bit_top up)
        then show ?thesis ..
      next
        case False
        then show ?thesis using up by (intro disjI2 bit_eqI) auto
      qed
      then show False using w by simp
    qed
    then show ?thesis by (rule find_lsb_low)
  qed
  moreover have "find_lsb 0x8000 = 16" by (rule find_lsb_none) (metis bit_top less_irrefl)
  ultimately show ?thesis by blast
qed

end
