(* ===== verification/Usb_World.thy ===== *)
theory Usb_World
  imports Usb_Context
begin

text \<open>
  The shared state of the USB tasks and their requests to the controller. The statics \<^verbatim>\<open>CMD_RING\<close>, \<^verbatim>\<open>TRF_RINGS\<close> and
  \<^verbatim>\<open>DCBAA\<close> of \<^verbatim>\<open>kernel/src/usb/xhci.rs\<close> are the record \<open>usb_world\<close>. An asynchronous function of the driver is a
  computation on this state that may panic or return an \<^verbatim>\<open>XhciError\<close>; \<open>ubind\<close> is its \<^verbatim>\<open>?\<close>. At an \<^verbatim>\<open>await\<close> the task waits
  for a one-shot channel, and everything else happens meanwhile: the controller, the device, the interrupt handler and the
  other tasks. This is the parameter \<open>usb_env\<close>, which is given the state and returns what the channel delivers (nothing,
  if its sender was dropped) and the state in which the task goes on.
\<close>

section \<open>State and environment\<close>

text \<open>A finished command, as the accessors of the \<^verbatim>\<open>xhci\<close> crate read it.\<close>

record completion =
  cc_slot_id :: u8
  cc_success :: bool
  cc_raw :: trb

datatype command =
    EnableSlot
  | AddressDevice "ctx_call list" u8 bool
  | ConfigureEndpoint "ctx_call list" u8

text \<open>\<open>w_fresh\<close> numbers the one-shot channels, \<open>w_alloc\<close> the allocations; \<open>w_bells\<close> are the doorbells rung.\<close>

record usb_world =
  w_cmd :: command_ring
  w_rings :: transfer_ring_set
  w_dcbaa :: dcbaa
  w_fresh :: waiter
  w_alloc :: nat
  w_bells :: "doorbell list"

text \<open>
  \<open>en_sb\<close>, \<open>en_lk\<close>, \<open>en_raw\<close> and \<open>en_cmd_raw\<close> are functions of the crates, \<open>en_addr n\<close> is the address of the \<open>n\<close>-th allocation,
  \<open>en_mem\<close> the memory around a buffer, \<open>en_slot_ctx\<close> the port and speed in the device context at an address.
  \<open>en_transfer slot ep req buf\<close> answers a transfer with a buffer of content \<open>buf\<close>; \<open>req\<close> is the request of a control transfer.
\<close>

record usb_env =
  en_sb :: trb_sb
  en_lk :: "addr \<Rightarrow> trb"
  en_raw :: "transfer_trb \<Rightarrow> trb"
  en_cmd_raw :: "command \<Rightarrow> trb"
  en_addr :: "nat \<Rightarrow> addr"
  en_mem :: memory
  en_slot_ctx :: "addr \<Rightarrow> u8 \<times> u8"
  en_transfer :: "nat \<Rightarrow> nat \<Rightarrow> setup_data option \<Rightarrow> u8 list \<Rightarrow> waiter \<Rightarrow> usb_world \<Rightarrow> ((xhci_error + u8 list) option \<times> usb_world) res"
  en_command :: "command \<Rightarrow> waiter \<Rightarrow> usb_world \<Rightarrow> (completion option \<times> usb_world) res"

section \<open>Asynchronous functions\<close>

type_synonym 'a usb = "usb_world \<Rightarrow> ((xhci_error + 'a) \<times> usb_world) res"

definition ureturn :: "'a \<Rightarrow> 'a usb" where
  "ureturn x w = Inr (Inr x, w)"

definition uthrow :: "xhci_error \<Rightarrow> 'a usb" where
  "uthrow e w = Inr (Inl e, w)"

definition ubind :: "'a usb \<Rightarrow> ('a \<Rightarrow> 'b usb) \<Rightarrow> 'b usb" where
  "ubind m f w = rbind (m w) (\<lambda>(r, w). case r of Inl e \<Rightarrow> Inr (Inl e, w) | Inr x \<Rightarrow> f x w)"

text \<open>A computation that touches nothing but may panic.\<close>

definition ulift :: "'a res \<Rightarrow> 'a usb" where
  "ulift r w = rbind r (\<lambda>x. Inr (Inr x, w))"

fun ufold :: "('a \<Rightarrow> 's \<Rightarrow> 's usb) \<Rightarrow> 'a list \<Rightarrow> 's \<Rightarrow> 's usb" where
  "ufold f [] s = ureturn s"
| "ufold f (x # xs) s = ubind (f x s) (ufold f xs)"

lemma ubind_simps [simp]:
  "m w = Inl p \<Longrightarrow> ubind m f w = Inl p"
  "m w = Inr (Inl e, w') \<Longrightarrow> ubind m f w = Inr (Inl e, w')"
  "m w = Inr (Inr x, w') \<Longrightarrow> ubind m f w = f x w'"
  by (simp_all add: ubind_def)

lemma ureturn_simps [simp]: "ureturn x w = Inr (Inr x, w)" "ubind (ureturn x) f = f x" "uthrow e w = Inr (Inl e, w)" "ubind (uthrow e) f = uthrow e"
  by (auto simp: ureturn_def ubind_def uthrow_def fun_eq_iff)

lemma ulift_simps [simp]: "ulift (Inr x) = ureturn x" "ulift (Inl p) w = Inl p" "ubind (ulift (Inl p)) f w = Inl p"
  by (auto simp: ulift_def ubind_def fun_eq_iff)

lemma ubind_assoc: "ubind (ubind m f) g = ubind m (\<lambda>x. ubind (f x) g)"
proof
  fix w
  show "ubind (ubind m f) g w = ubind m (\<lambda>x. ubind (f x) g) w"
    by (cases "m w") (auto simp: ubind_def split: sum.splits prod.splits)
qed

section \<open>Requests to the controller\<close>

text \<open>\<^verbatim>\<open>push_command(..)?.await.unwrap()\<close>.\<close>

definition run_command :: "usb_env \<Rightarrow> command \<Rightarrow> completion usb" where
  "run_command env cmd w =
     rbind (push_command (en_sb env) (w_cmd w) (en_cmd_raw env cmd) (w_fresh w)) (\<lambda>(r, ring).
     let w = w\<lparr>w_cmd := ring\<rparr> in
     case r of
       Inl e \<Rightarrow> Inr (Inl e, w)
     | Inr (recv, bells) \<Rightarrow>
         rbind (en_command env cmd recv (w\<lparr>w_fresh := w_fresh w + 1, w_bells := w_bells w @ bells\<rparr>)) (\<lambda>(answer, w).
         rbind (unwrap answer) (\<lambda>result. Inr (Inr result, w))))"

text \<open>
  \<^verbatim>\<open>control_request(..)?.await.unwrap()?\<close> with a buffer of content \<open>data\<close>, if any, which is a new allocation. The result
  is the content of the buffer afterwards.
\<close>

definition bytes_of :: "u8 list option \<Rightarrow> u8 list" where
  "bytes_of data = (case data of None \<Rightarrow> [] | Some buf \<Rightarrow> buf)"

definition control_transfer :: "usb_env \<Rightarrow> nat \<Rightarrow> setup_data \<Rightarrow> u8 list option \<Rightarrow> u8 list usb" where
  "control_transfer env slot_id setup data w =
     rbind (control_request (en_sb env) (en_raw env) (w_rings w) slot_id setup (map_option (\<lambda>_. en_addr env (w_alloc w)) data) (w_fresh w)) (\<lambda>(r, rings).
     let w = w\<lparr>w_rings := rings, w_fresh := w_fresh w + 3, w_alloc := w_alloc w + 1\<rparr> in
     case r of
       Inl e \<Rightarrow> Inr (Inl e, w)
     | Inr (recv, bells) \<Rightarrow>
         rbind (en_transfer env slot_id 1 (Some setup) (bytes_of data) recv (w\<lparr>w_bells := w_bells w @ bells\<rparr>)) (\<lambda>(answer, w).
         rbind (unwrap answer) (\<lambda>result. Inr (result, w))))"

text \<open>\<^verbatim>\<open>with_trf_rings(|r| r.init_ring_at(..))\<close> and \<^verbatim>\<open>with_dcbaa(|d| d.init_context_at(..))\<close>: both allocate.\<close>

definition new_ring :: "usb_env \<Rightarrow> nat \<Rightarrow> nat \<Rightarrow> addr usb" where
  "new_ring env slot_id endpoint_id w =
     rbind (init_ring_at (en_lk env) (en_addr env (w_alloc w)) (w_rings w) slot_id endpoint_id) (\<lambda>(ptr, rings).
     Inr (Inr ptr, w\<lparr>w_rings := rings, w_alloc := w_alloc w + 1\<rparr>))"

definition new_context :: "usb_env \<Rightarrow> nat \<Rightarrow> unit usb" where
  "new_context env slot_id w =
     rbind (init_context_at (en_addr env (w_alloc w)) slot_id (w_dcbaa w)) (\<lambda>d.
     Inr (Inr (), w\<lparr>w_dcbaa := d, w_alloc := w_alloc w + 1\<rparr>))"

section \<open>A controller\<close>

text \<open>
  A controller and its devices as the driver expects them, to instantiate the environment with: it runs the blocks of a
  ring in order and posts an event for each; the tasks of \<^verbatim>\<open>initialize_xhci\<close> hand the events to the rings before the
  waiting task goes on. \<open>hc_reply\<close> is what the buffer of a control request holds afterwards, \<open>hc_report\<close> what the buffer of a
  report holds, which may be another one each time, \<open>hc_ok\<close> whether the \<open>k\<close>-th block of a transfer succeeds.
\<close>

record controller =
  hc_reply :: "nat \<Rightarrow> setup_data \<Rightarrow> u8 list \<Rightarrow> u8 list"
  hc_report :: "nat \<Rightarrow> nat \<Rightarrow> waiter \<Rightarrow> u8 list \<Rightarrow> u8 list"
  hc_ok :: "nat \<Rightarrow> nat \<Rightarrow> setup_data option \<Rightarrow> nat \<Rightarrow> bool"
  hc_event :: "nat \<Rightarrow> trb"
  hc_completion :: "command \<Rightarrow> addr \<Rightarrow> completion"

definition pending :: "producer_ring \<Rightarrow> addr list" where
  "pending r = (let m = length (pr_data r) - 1 in
     map (\<lambda>k. pr_base r + TRB_SIZE * ((pr_deque r + k) mod m)) [0..<(pr_enque r + m - pr_deque r) mod m])"

definition block_event :: "controller \<Rightarrow> nat \<Rightarrow> nat \<Rightarrow> setup_data option \<Rightarrow> nat \<Rightarrow> addr \<Rightarrow> transfer_event" where
  "block_event hc slot ep req k ptr = \<lparr>te_slot_id = slot, te_endpoint_id = ep, te_trb_pointer = ptr, te_ok = hc_ok hc slot ep req k, te_raw = hc_event hc k\<rparr>"

definition deliver :: "controller \<Rightarrow> nat \<Rightarrow> nat \<Rightarrow> setup_data option \<Rightarrow> nat \<times> addr
    \<Rightarrow> (waiter \<times> (xhci_error + transfer_event)) list \<times> transfer_ring_set \<Rightarrow> ((waiter \<times> (xhci_error + transfer_event)) list \<times> transfer_ring_set) res" where
  "deliver hc slot ep req = (\<lambda>(k, ptr) (sent, s).
     rbind (on_trf_event s (block_event hc slot ep req k ptr)) (\<lambda>(d, s). Inr (sent @ (case d of None \<Rightarrow> [] | Some x \<Rightarrow> [x]), s)))"

definition hc_answer :: "controller \<Rightarrow> nat \<Rightarrow> nat \<Rightarrow> setup_data option \<Rightarrow> u8 list \<Rightarrow> waiter \<Rightarrow> u8 list" where
  "hc_answer hc slot ep req buf recv = (case req of Some sd \<Rightarrow> hc_reply hc slot sd buf | None \<Rightarrow> hc_report hc slot ep recv buf)"

definition hc_transfer :: "controller \<Rightarrow> nat \<Rightarrow> nat \<Rightarrow> setup_data option \<Rightarrow> u8 list \<Rightarrow> waiter \<Rightarrow> usb_world \<Rightarrow> ((xhci_error + u8 list) option \<times> usb_world) res" where
  "hc_transfer hc slot ep req buf recv w =
     rbind (unwrap (tr_rings (w_rings w) (slot, ep))) (\<lambda>r.
     rbind (foldM (deliver hc slot ep req) (enumerate 0 (pending r)) ([], w_rings w)) (\<lambda>(sent, s).
     Inr (map_option (map_sum id (\<lambda>_. hc_answer hc slot ep req buf recv)) (map_of sent recv), w\<lparr>w_rings := s\<rparr>)))"

definition hc_command :: "controller \<Rightarrow> command \<Rightarrow> waiter \<Rightarrow> usb_world \<Rightarrow> (completion option \<times> usb_world) res" where
  "hc_command hc cmd recv w =
     (let ptr = last (pending (cmd_ring (w_cmd w))); (d, c) = on_command_completion (w_cmd w) ptr in
      Inr (if d = Some recv then Some (hc_completion hc cmd ptr) else None, w\<lparr>w_cmd := c\<rparr>))"

lemma pending_eq:
  assumes "pr_ring_inv gb m base D P r"
  shows "pending r = map (slot_addr m base) [D..<P]"
proof -
  have f: "length (pr_data r) = m + 1" "pr_base r = base" "pr_deque r = D mod m" "pr_enque r = P mod m" "D \<le> P" "P < D + m" "2 \<le> m"
    using assms by (auto simp: pr_ring_inv_def)
  have "(P mod m + m - D mod m) mod m = P - D" using ack_passed [of "P - D" P m] f(5,6) by simp
  moreover have "[D..<P] = map (\<lambda>k. D + k) [0..<P - D]" using f(5) by (simp add: map_add_upt add.commute [of D])
  ultimately show ?thesis by (simp add: pending_def f slot_addr_def Let_def mod_simps)
qed

text \<open>Handing over the events of all blocks of a ring empties the ring and answers every waiting task.\<close>

definition block_result :: "controller \<Rightarrow> nat \<Rightarrow> nat \<Rightarrow> setup_data option \<Rightarrow> nat \<Rightarrow> addr \<Rightarrow> xhci_error + transfer_event" where
  "block_result hc slot ep req k ptr = (if hc_ok hc slot ep req k then Inr (block_event hc slot ep req k ptr) else Inl (TransferError (hc_event hc k)))"

lemma deliver_all:
  assumes "ring_holds gb m base D P T (slot, ep) s" "D \<le> P" "P < D + m" "\<And>v. \<lbrakk>D \<le> v; v < P\<rbrakk> \<Longrightarrow> tr_listener s (slot_addr m base v) = Some (ws v)"
  shows "\<exists>s'. foldM (deliver hc slot ep req) (enumerate k (map (slot_addr m base) [D..<P])) (sent, s)
      = Inr (sent @ map (\<lambda>v. (ws v, block_result hc slot ep req (k + (v - D)) (slot_addr m base v))) [D..<P], s')
    \<and> ring_holds gb m base P P T (slot, ep) s' \<and> other_rings (slot, ep) s s'"
  using assms
proof (induction "P - D" arbitrary: D k sent s)
  case 0
  then have "D = P" by simp
  then show ?case using "0.prems"(1) by (auto simp: other_rings_def)
next
  case (Suc n)
  let ?e = "block_event hc slot ep req k (slot_addr m base D)"
  let ?sent = "sent @ [(ws D, block_result hc slot ep req k (slot_addr m base D))]"
  have lt: "D < P" using Suc.hyps(2) by simp
  obtain s1 where s1: "on_trf_event s ?e = Inr (Some (ws D, block_result hc slot ep req k (slot_addr m base D)), s1)"
    "ring_holds gb m base (Suc D) P T (slot, ep) s1" "tr_listener s1 = (tr_listener s)(slot_addr m base D := None)" "other_rings (slot, ep) s s1"
    using trf_event_step [of gb m base D P T ?e s D "ws D"] Suc.prems lt by (auto simp: block_event_def block_result_def)
  have l: "tr_listener s1 (slot_addr m base v) = Some (ws v)" if "Suc D \<le> v" "v < P" for v
    using slot_addr_eq [of m base D v] that Suc.prems(3,4) s1(3) by force
  have n: "n = P - Suc D" "Suc D \<le> P" "P < Suc D + m" using Suc.hyps(2) lt Suc.prems(3) by auto
  obtain s2 where s2: "foldM (deliver hc slot ep req) (enumerate (Suc k) (map (slot_addr m base) [Suc D..<P])) (?sent, s1)
      = Inr (?sent @ map (\<lambda>v. (ws v, block_result hc slot ep req (Suc k + (v - Suc D)) (slot_addr m base v))) [Suc D..<P], s2)"
    "ring_holds gb m base P P T (slot, ep) s2" "other_rings (slot, ep) s1 s2" using Suc.hyps(1) [OF n(1) s1(2) n(2,3) l] by blast
  have m: "map (\<lambda>v. (ws v, block_result hc slot ep req (Suc k + (v - Suc D)) (slot_addr m base v))) [Suc D..<P]
      = map (\<lambda>v. (ws v, block_result hc slot ep req (k + (v - D)) (slot_addr m base v))) [Suc D..<P]"
    by (rule map_cong) (auto simp: Suc_diff_Suc simp flip: add_Suc_right)
  have o: "other_rings (slot, ep) s s2" using s1(4) s2(3) by (simp add: other_rings_def)
  have d: "deliver hc slot ep req (k, slot_addr m base D) (sent, s) = Inr (?sent, s1)" using s1(1) by (simp add: deliver_def)
  show ?case using d s2(1,2) o lt unfolding m by (intro exI [of _ s2]) (simp add: upt_conv_Cons)
qed

lemma map_of_inj: "\<lbrakk>inj_on f (set xs); x \<in> set xs\<rbrakk> \<Longrightarrow> map_of (map (\<lambda>v. (f v, g v)) xs) (f x) = Some (g x)"
  by (induction xs) (auto simp: inj_on_def)

text \<open>The answer of the controller to blocks just pushed.\<close>

lemma hc_transfer_pushed:
  assumes p: "pushed gb raw m base D D T (slot, ep) s ts [fresh..<fresh + length ts] s'" and i: "i < length ts" and lt: "length ts < m"
    and w: "w_rings w = s'"
  shows "\<exists>s2 T'. hc_transfer hc slot ep req buf (fresh + i) w
      = Inr (Some (if hc_ok hc slot ep req i then Inr (hc_answer hc slot ep req buf (fresh + i)) else Inl (TransferError (hc_event hc i))), w\<lparr>w_rings := s2\<rparr>)
    \<and> ring_holds gb m base (D + length ts) (D + length ts) T' (slot, ep) s2 \<and> other_rings (slot, ep) s s2"
proof -
  let ?P = "D + length ts"
  let ?ws = "\<lambda>v. fresh + (v - D)"
  obtain T' where T': "ring_holds gb m base D ?P T' (slot, ep) s'" using p by (auto simp: pushed_def)
  have l: "tr_listener s' (slot_addr m base v) = Some (?ws v)" if "D \<le> v" "v < ?P" for v
    using pushed_listener [OF p, of "v - D"] that by auto
  obtain r where r: "tr_rings s' (slot, ep) = Some r" "pr_ring_inv gb m base D ?P r" using T' by (auto simp: ring_holds_def)
  obtain s2 where s2: "foldM (deliver hc slot ep req) (enumerate 0 (map (slot_addr m base) [D..<?P])) ([], s')
      = Inr (map (\<lambda>v. (?ws v, block_result hc slot ep req (v - D) (slot_addr m base v))) [D..<?P], s2)"
    "ring_holds gb m base ?P ?P T' (slot, ep) s2" "other_rings (slot, ep) s' s2"
    using deliver_all [OF T' _ _ l, of hc req 0 "[]"] lt by auto
  have "map_of (map (\<lambda>v. (?ws v, block_result hc slot ep req (v - D) (slot_addr m base v))) [D..<?P]) (?ws (D + i)) = Some (block_result hc slot ep req (D + i - D) (slot_addr m base (D + i)))"
    by (rule map_of_inj) (use i in \<open>auto simp: inj_on_def\<close>)
  then have "hc_transfer hc slot ep req buf (fresh + i) w
      = Inr (Some (if hc_ok hc slot ep req i then Inr (hc_answer hc slot ep req buf (fresh + i)) else Inl (TransferError (hc_event hc i))), w\<lparr>w_rings := s2\<rparr>)"
    using r(1) s2(1) by (simp add: hc_transfer_def w pending_eq [OF r(2)] block_result_def)
  moreover have "other_rings (slot, ep) s s2" using p s2(3) by (simp add: pushed_def other_rings_def)
  ultimately show ?thesis using s2(2) by blast
qed

section \<open>The services of the controller\<close>

text \<open>
  What the driver relies on. In the state \<open>ready n\<close> there is room for \<open>n\<close> commands. A control transfer on an idle default
  pipe returns what the device replies, a command is completed, a new ring is idle, and idle rings stay idle.
\<close>

definition request_ok :: "setup_data \<Rightarrow> u8 list option \<Rightarrow> bool" where
  "request_ok setup data \<longleftrightarrow> sd_length setup = 0 \<or> data \<noteq> None"

definition framed :: "(nat \<times> nat \<Rightarrow> usb_world \<Rightarrow> bool) \<Rightarrow> usb_world \<Rightarrow> usb_world \<Rightarrow> bool" where
  "framed idle w w' \<longleftrightarrow> (\<forall>ep. idle ep w \<longrightarrow> idle ep w') \<and> w_dcbaa w' = w_dcbaa w"

lemma framed_refl [simp]: "framed idle w w"
  by (simp add: framed_def)

lemma framed_trans [trans]: "framed idle w1 w2 \<Longrightarrow> framed idle w2 w3 \<Longrightarrow> framed idle w1 w3"
  by (simp add: framed_def)

lemma framed_idle: "framed idle w w' \<Longrightarrow> idle ep w \<Longrightarrow> idle ep w'"
  by (cases ep) (simp add: framed_def)

definition control_step :: "usb_env \<Rightarrow> nat \<Rightarrow> setup_data \<times> u8 list option \<Rightarrow> u8 list list \<Rightarrow> u8 list list usb" where
  "control_step env slot = (\<lambda>(setup, data) answers. ubind (control_transfer env slot setup data) (\<lambda>buf. ureturn (answers @ [buf])))"

locale usb_service =
  fixes env :: usb_env and ready :: "nat \<Rightarrow> usb_world \<Rightarrow> bool" and idle :: "nat \<times> nat \<Rightarrow> usb_world \<Rightarrow> bool"
    and reply :: "nat \<Rightarrow> setup_data \<Rightarrow> u8 list \<Rightarrow> u8 list" and complete :: "command \<Rightarrow> addr \<Rightarrow> completion"
  assumes control_law: "\<lbrakk>ready n w; idle (slot, 1) w; request_ok setup data\<rbrakk>
      \<Longrightarrow> \<exists>w'. control_transfer env slot setup data w = Inr (Inr (reply slot setup (bytes_of data)), w') \<and> ready n w' \<and> framed idle w w'"
    and command_law: "ready (Suc n) w \<Longrightarrow> \<exists>w' ptr. run_command env cmd w = Inr (Inr (complete cmd ptr), w') \<and> ready n w' \<and> framed idle w w'"
    and full_law: "ready 0 w \<Longrightarrow> run_command env cmd w = Inr (Inl RingIsFull, w)"
    and ring_law: "ready n w \<Longrightarrow> \<exists>w'. new_ring env slot ep w = Inr (Inr (en_addr env (w_alloc w)), w') \<and> ready n w' \<and> framed idle w w' \<and> idle (slot, ep) w'"
    and context_law: "\<lbrakk>ready n w; slot < length (dc_array (w_dcbaa w))\<rbrakk>
      \<Longrightarrow> \<exists>w'. new_context env slot w = Inr (Inr (), w') \<and> ready n w' \<and> (\<forall>ep. idle ep w \<longrightarrow> idle ep w')
        \<and> dc_contexts (w_dcbaa w') slot = Some (en_addr env (w_alloc w)) \<and> length (dc_array (w_dcbaa w')) = length (dc_array (w_dcbaa w))"
begin

text \<open>Any number of control transfers can follow each other.\<close>

lemma controls:
  assumes "ready n w" "idle (slot, 1) w" "\<forall>(setup, data) \<in> set reqs. request_ok setup data"
  shows "\<exists>w'. ufold (control_step env slot) reqs out w
      = Inr (Inr (out @ map (\<lambda>(setup, data). reply slot setup (bytes_of data)) reqs), w') \<and> ready n w' \<and> framed idle w w'"
  using assms
proof (induction reqs arbitrary: w out)
  case Nil
  then show ?case by simp
next
  case (Cons r reqs)
  obtain sd data where r: "r = (sd, data)" by fastforce
  obtain w1 where w1: "control_transfer env slot sd data w = Inr (Inr (reply slot sd (bytes_of data)), w1)" "ready n w1" "framed idle w w1"
    using control_law [OF Cons.prems(1,2), of sd data] Cons.prems(3) r by auto
  from Cons.IH [OF w1(2) framed_idle [OF w1(3) Cons.prems(2)]] Cons.prems(3) obtain w2 where
    "ufold (control_step env slot) reqs (out @ [reply slot sd (bytes_of data)]) w1
      = Inr (Inr ((out @ [reply slot sd (bytes_of data)]) @ map (\<lambda>(setup, data). reply slot setup (bytes_of data)) reqs), w2)"
    "ready n w2" "framed idle w1 w2" by fastforce
  then show ?case using w1 r framed_trans [OF w1(3)] by (auto simp: control_step_def)
qed

end

text \<open>The rings and the controller provide them.\<close>

definition idle :: "trb_gb \<Rightarrow> nat \<Rightarrow> nat \<times> nat \<Rightarrow> usb_world \<Rightarrow> bool" where
  "idle gb m ep w \<longleftrightarrow> (\<exists>base D T. ring_holds gb m base D D T ep (w_rings w))"

definition room :: "trb_gb \<Rightarrow> nat \<Rightarrow> usb_world \<Rightarrow> bool" where
  "room gb n w \<longleftrightarrow> (\<exists>base P T. pr_ring_inv gb 31 base 0 P (cmd_ring (w_cmd w)) \<and> slots gb 31 P (pr_data (cmd_ring (w_cmd w))) T \<and> P + n = 30)"

definition usb_inv :: "trb_gb \<Rightarrow> nat \<Rightarrow> controller \<Rightarrow> usb_env \<Rightarrow> nat \<Rightarrow> usb_world \<Rightarrow> bool" where
  "usb_inv gb m hc env n w \<longleftrightarrow> trb_laws (en_sb env) gb (en_lk env) \<and> 4 \<le> m \<and> tr_ring_size (w_rings w) = m + 1
     \<and> en_transfer env = hc_transfer hc \<and> en_command env = hc_command hc \<and> (\<forall>slot ep req k. hc_ok hc slot ep req k) \<and> room gb n w"

lemma idle_other:
  assumes "other_rings e (w_rings w) (w_rings w')" "ring_holds gb m base D D T e (w_rings w')" "idle gb m ep w"
  shows "idle gb m ep w'"
proof (cases "ep = e")
  case False
  then have "tr_rings (w_rings w') ep = tr_rings (w_rings w) ep" using assms(1) by (cases ep) (simp add: other_rings_def)
  then show ?thesis using assms(3) by (simp add: idle_def ring_holds_def)
qed (use assms(2) in \<open>auto simp: idle_def\<close>)

lemma control_transfer_run:
  assumes L: "trb_laws (en_sb env) gb (en_lk env)" "4 \<le> m" "en_transfer env = hc_transfer hc" and idle: "idle gb m (slot, 1) w" and ok: "request_ok sd data"
  shows "\<exists>s'. control_transfer env slot sd data w
      = Inr (if hc_ok hc slot 1 (Some sd) (if sd_length sd = 0 then 0 else 1) then Inr (hc_reply hc slot sd (bytes_of data))
               else Inl (TransferError (hc_event hc (if sd_length sd = 0 then 0 else 1))),
             w\<lparr>w_rings := s', w_fresh := w_fresh w + 3, w_alloc := w_alloc w + 1, w_bells := w_bells w @ [(slot, 1)]\<rparr>)
    \<and> other_rings (slot, 1) (w_rings w) s' \<and> (\<exists>base D T. ring_holds gb m base D D T (slot, 1) s')"
proof -
  let ?buf = "en_addr env (w_alloc w)"
  let ?st = "usb_stages sd ?buf"
  let ?n = "length ?st"
  obtain base D T where h: "ring_holds gb m base D D T (slot, 1) (w_rings w)" using idle by (auto simp: idle_def)
  have len: "?n = (if sd_length sd = 0 then 2 else 3)" by (simp add: usb_stages_def Let_def)
  have dat: "sd_length sd = 0 \<or> map_option (\<lambda>_. ?buf) data = Some ?buf" using ok by (auto simp: request_ok_def)
  have room: "D + ?n < D + m" using L(2) len by simp
  obtain s' x where s': "control_request (en_sb env) (en_raw env) (w_rings w) slot sd (map_option (\<lambda>_. ?buf) data) (w_fresh w) = Inr (Inr (x, [(slot, 1)]), s')"
    "pushed gb (en_raw env) m base D D T (slot, 1) (w_rings w) ?st [w_fresh w..<w_fresh w + ?n] s'"
    "tr_listener s' (slot_addr m base (if sd_length sd = 0 then D else D + 1)) = Some x"
    using control_request_step [OF L(1) h _ room dat, of "en_raw env" "w_fresh w"] by blast
  let ?i = "if sd_length sd = 0 then 0 else 1 :: nat"
  have x: "x = w_fresh w + ?i" using pushed_listener [OF s'(2), of ?i] s'(3) len by (auto split: if_splits)
  let ?w = "w\<lparr>w_rings := s', w_fresh := w_fresh w + 3, w_alloc := w_alloc w + 1, w_bells := w_bells w @ [(slot, 1)]\<rparr>"
  have i: "?i < ?n" "?n < m" "w_rings ?w = s'" using len L(2) by auto
  obtain s2 T' where s2: "hc_transfer hc slot 1 (Some sd) (bytes_of data) x ?w
      = Inr (Some (if hc_ok hc slot 1 (Some sd) ?i then Inr (hc_reply hc slot sd (bytes_of data)) else Inl (TransferError (hc_event hc ?i))), ?w\<lparr>w_rings := s2\<rparr>)"
    "ring_holds gb m base (D + ?n) (D + ?n) T' (slot, 1) s2" "other_rings (slot, 1) (w_rings w) s2"
    using hc_transfer_pushed [OF s'(2) i, of hc "Some sd" "bytes_of data"] unfolding x hc_answer_def option.case by blast
  have "control_transfer env slot sd data w
      = Inr (if hc_ok hc slot 1 (Some sd) ?i then Inr (hc_reply hc slot sd (bytes_of data)) else Inl (TransferError (hc_event hc ?i)), ?w\<lparr>w_rings := s2\<rparr>)"
    using s'(1) s2(1) by (simp add: control_transfer_def L(3) Let_def)
  then show ?thesis using s2(2,3) by (intro exI [of _ s2]) auto
qed

lemma control_provided:
  assumes I: "usb_inv gb m hc env n w" and idle: "idle gb m (slot, 1) w" and ok: "request_ok sd data"
  shows "\<exists>w'. control_transfer env slot sd data w = Inr (Inr (hc_reply hc slot sd (bytes_of data)), w') \<and> usb_inv gb m hc env n w'
    \<and> framed (idle gb m) w w'"
proof -
  have f: "trb_laws (en_sb env) gb (en_lk env)" "4 \<le> m" "en_transfer env = hc_transfer hc" "hc_ok hc slot ep req k" for slot ep req k
    using I by (auto simp: usb_inv_def)
  obtain s' base D T where s': "control_transfer env slot sd data w = Inr (Inr (hc_reply hc slot sd (bytes_of data)),
      w\<lparr>w_rings := s', w_fresh := w_fresh w + 3, w_alloc := w_alloc w + 1, w_bells := w_bells w @ [(slot, 1)]\<rparr>)"
    "other_rings (slot, 1) (w_rings w) s'" "ring_holds gb m base D D T (slot, 1) s'"
    using control_transfer_run [OF f(1-3) idle ok] f(4) by auto
  let ?w' = "w\<lparr>w_rings := s', w_fresh := w_fresh w + 3, w_alloc := w_alloc w + 1, w_bells := w_bells w @ [(slot, 1)]\<rparr>"
  have "usb_inv gb m hc env n ?w'" using I s'(2) by (simp add: usb_inv_def room_def other_rings_def)
  moreover have "framed (idle gb m) w ?w'" using idle_other [of "(slot, 1)" w ?w'] s'(2,3) by (simp add: framed_def)
  ultimately show ?thesis using s'(1) by blast
qed

lemma command_provided:
  assumes I: "usb_inv gb m hc env (Suc n) w"
  shows "\<exists>w' ptr. run_command env cmd w = Inr (Inr (hc_completion hc cmd ptr), w') \<and> usb_inv gb m hc env n w' \<and> framed (idle gb m) w w'"
proof -
  have L: "trb_laws (en_sb env) gb (en_lk env)" "en_command env = hc_command hc" using I by (auto simp: usb_inv_def)
  obtain base P T where r: "pr_ring_inv gb 31 base 0 P (cmd_ring (w_cmd w))" "slots gb 31 P (pr_data (cmd_ring (w_cmd w))) T" "P + Suc n = 30"
    using I by (auto simp: usb_inv_def room_def)
  obtain a ring where p: "producer_push (en_sb env) (cmd_ring (w_cmd w)) (en_cmd_raw env cmd) = Inr (Inr a, ring)" "pr_ring_inv gb 31 base 0 (Suc P) ring"
    "slots gb 31 (Suc P) (pr_data ring) (T(P := payload (en_cmd_raw env cmd)))" "a = slot_addr 31 base P"
    using push_step [OF L(1) r(1,2), of "en_cmd_raw env cmd"] r(3) by (auto simp: slot_addr_def)
  let ?c = "(w_cmd w)\<lparr>cmd_ring := ring, cmd_listener := (cmd_listener (w_cmd w))(a := None)\<rparr>"
  let ?w' = "w\<lparr>w_cmd := ?c, w_fresh := w_fresh w + 1, w_bells := w_bells w @ [(0, 0)]\<rparr>"
  have "last (pending ring) = a" by (simp add: pending_eq [OF p(2)] p(4))
  then have "run_command env cmd w = Inr (Inr (hc_completion hc cmd a), ?w')"
    using p(1) by (simp add: run_command_def push_command_def L(2) hc_command_def on_command_completion_def Let_def)
  moreover have "room gb n ?w'" unfolding room_def using p(2,3) r(3)
    by (intro exI [of _ base] exI [of _ "Suc P"] exI [of _ "T(P := payload (en_cmd_raw env cmd))"]) simp
  then have "usb_inv gb m hc env n ?w'" using I by (simp add: usb_inv_def)
  moreover have "framed (idle gb m) w ?w'" by (simp add: framed_def idle_def)
  ultimately show ?thesis by blast
qed

lemma full_provided: "usb_inv gb m hc env 0 w \<Longrightarrow> run_command env cmd w = Inr (Inl RingIsFull, w)"
proof -
  assume I: "usb_inv gb m hc env 0 w"
  then obtain base T where r: "pr_ring_inv gb 31 base 0 30 (cmd_ring (w_cmd w))" "slots gb 31 30 (pr_data (cmd_ring (w_cmd w))) T"
    by (auto simp: usb_inv_def room_def)
  have "trb_laws (en_sb env) gb (en_lk env)" using I by (simp add: usb_inv_def)
  from push_step [OF this r, of "en_cmd_raw env cmd"] show ?thesis by (simp add: run_command_def push_command_def)
qed

lemma new_ring_run:
  assumes "trb_laws (en_sb env) gb (en_lk env)" "tr_ring_size (w_rings w) = m + 1" "2 \<le> m"
  shows "\<exists>s'. new_ring env slot ep w = Inr (Inr (en_addr env (w_alloc w)), w\<lparr>w_rings := s', w_alloc := w_alloc w + 1\<rparr>)
    \<and> ring_holds gb m (en_addr env (w_alloc w)) 0 0 (\<lambda>_. 0) (slot, ep) s' \<and> other_rings (slot, ep) (w_rings w) s'"
proof -
  obtain s' where "init_ring_at (en_lk env) (en_addr env (w_alloc w)) (w_rings w) slot ep = Inr (en_addr env (w_alloc w), s')"
    "ring_holds gb m (en_addr env (w_alloc w)) 0 0 (\<lambda>_. 0) (slot, ep) s'" "other_rings (slot, ep) (w_rings w) s'"
    using init_ring_holds [OF assms] by blast
  then show ?thesis by (auto simp: new_ring_def)
qed

lemma ring_provided:
  assumes I: "usb_inv gb m hc env n w"
  shows "\<exists>w'. new_ring env slot ep w = Inr (Inr (en_addr env (w_alloc w)), w') \<and> usb_inv gb m hc env n w' \<and> framed (idle gb m) w w' \<and> idle gb m (slot, ep) w'"
proof -
  have f: "trb_laws (en_sb env) gb (en_lk env)" "tr_ring_size (w_rings w) = m + 1" "2 \<le> m" using I by (auto simp: usb_inv_def)
  obtain s' where s': "new_ring env slot ep w = Inr (Inr (en_addr env (w_alloc w)), w\<lparr>w_rings := s', w_alloc := w_alloc w + 1\<rparr>)"
    "ring_holds gb m (en_addr env (w_alloc w)) 0 0 (\<lambda>_. 0) (slot, ep) s'" "other_rings (slot, ep) (w_rings w) s'"
    using new_ring_run [OF f] by blast
  let ?w' = "w\<lparr>w_rings := s', w_alloc := w_alloc w + 1\<rparr>"
  have "usb_inv gb m hc env n ?w'" using I s'(3) by (simp add: usb_inv_def room_def other_rings_def)
  moreover have "framed (idle gb m) w ?w'" using idle_other [of "(slot, ep)" w ?w'] s'(2,3) by (simp add: framed_def)
  moreover have "idle gb m (slot, ep) ?w'" using s'(2) by (auto simp: idle_def)
  ultimately show ?thesis using s'(1) by blast
qed

interpretation xhc: usb_service env "usb_inv gb m hc env" "idle gb m" "hc_reply hc" "hc_completion hc"
proof unfold_locales
  fix n w slot
  assume "usb_inv gb m hc env n w" "slot < length (dc_array (w_dcbaa w))"
  then show "\<exists>w'. new_context env slot w = Inr (Inr (), w') \<and> usb_inv gb m hc env n w' \<and> (\<forall>ep. idle gb m ep w \<longrightarrow> idle gb m ep w')
      \<and> dc_contexts (w_dcbaa w') slot = Some (en_addr env (w_alloc w)) \<and> length (dc_array (w_dcbaa w')) = length (dc_array (w_dcbaa w))"
    by (simp add: new_context_def init_context_at_def store_def usb_inv_def room_def idle_def)
qed (blast intro: control_provided command_provided full_provided ring_provided)+

section \<open>Properties\<close>

text \<open>
  Control transfers never fill the ring of the default pipe: with a controller that reports every block, any
  number of requests after each other are all accepted, each returns what the device answers to it, and the ring
  is empty again afterwards. The ring has 31 places and a request takes up to three of them.
\<close>

theorem control_transfers_repeat:
  assumes "usb_inv gb m hc env n w" "idle gb m (slot, 1) w" "\<forall>(sd, data) \<in> set reqs. sd_length sd = 0 \<or> data \<noteq> None"
  shows "\<exists>w'. ufold (control_step env slot) reqs [] w = Inr (Inr (map (\<lambda>(sd, data). hc_reply hc slot sd (bytes_of data)) reqs), w')
    \<and> usb_inv gb m hc env n w' \<and> idle gb m (slot, 1) w'"
proof -
  obtain w' where "ufold (control_step env slot) reqs [] w = Inr (Inr ([] @ map (\<lambda>(sd, data). hc_reply hc slot sd (bytes_of data)) reqs), w')"
    "usb_inv gb m hc env n w'" "framed (idle gb m) w w'" using xhc.controls [OF assms(1,2), of reqs "[]"] assms(3) by (auto simp: request_ok_def)
  then show ?thesis using framed_idle assms(2) by auto
qed

text \<open>
  A request without data is reported as done when its setup stage is: a device that refuses the request in the status
  stage is not noticed.
\<close>

theorem refused_request_unnoticed:
  assumes "trb_laws (en_sb env) gb (en_lk env)" "4 \<le> m" "en_transfer env = hc_transfer hc" "idle gb m (slot, 1) w"
    and "sd_length sd = 0" "hc_ok hc slot 1 (Some sd) 0" "\<not> hc_ok hc slot 1 (Some sd) 1"
  shows "\<exists>w'. control_transfer env slot sd None w = Inr (Inr (hc_reply hc slot sd []), w')"
  using control_transfer_run [OF assms(1-4), of sd None] assms(5,6) by (auto simp: request_ok_def bytes_of_def)

section \<open>An example\<close>

definition example_env :: "controller \<Rightarrow> usb_env" where
  "example_env hc = \<lparr>en_sb = put_bit, en_lk = example_lk, en_raw = example_raw, en_cmd_raw = (\<lambda>_. 7), en_addr = (\<lambda>n. 4096 * (n + 1)), en_mem = (\<lambda>_. 0),
     en_slot_ctx = (\<lambda>_. (1, 2)), en_transfer = hc_transfer hc, en_command = hc_command hc\<rparr>"

definition example_hc :: "(nat \<Rightarrow> setup_data \<Rightarrow> u8 list \<Rightarrow> u8 list) \<Rightarrow> controller" where
  "example_hc rep = \<lparr>hc_reply = rep, hc_report = (\<lambda>_ _ recv buf. [0, of_nat recv, 1]), hc_ok = (\<lambda>_ _ _ _. True), hc_event = (\<lambda>_. 0), hc_completion = (\<lambda>_ _. \<lparr>cc_slot_id = 1, cc_success = True, cc_raw = 0\<rparr>)\<rparr>"

text \<open>The state after \<^verbatim>\<open>initialize_xhci\<close>, for a controller with \<open>slots\<close> slots.\<close>

definition initial_world :: "nat \<Rightarrow> command_ring \<Rightarrow> usb_world" where
  "initial_world nslots c = \<lparr>w_cmd = c, w_rings = transfer_ring_set_new 32,
     w_dcbaa = \<lparr>dc_base = 64, dc_array = replicate (nslots + 1) 0, dc_contexts = (\<lambda>_. None), dc_ctx_size = Csz32Bytes, dc_scratchpad = None\<rparr>,
     w_fresh = 0, w_alloc = 0, w_bells = []\<rparr>"

lemma initial_inv:
  "\<exists>c. init_command_ring example_lk 4096 32 = Inr (c, 4096) \<and> usb_inv bit 31 (example_hc rep) (example_env (example_hc rep)) 30 (initial_world nslots c)"
proof -
  obtain r T where r: "producer_new example_lk 4096 32 = Inr r" "pr_ring_inv bit 31 4096 0 0 r" "slots bit 31 0 (pr_data r) T" "pr_base r = 4096"
    using pr_inv_new [OF example_laws, of 31 4096] by (auto simp: pr_inv_def pr_ring_inv_def)
  let ?c = "\<lparr>cmd_ring = r, cmd_listener = (\<lambda>_. None)\<rparr>"
  have "room bit 30 (initial_world nslots ?c)" using r(2,3) unfolding room_def initial_world_def
    by (intro exI [of _ 4096] exI [of _ 0] exI [of _ T]) simp
  then show ?thesis using r(1,4) example_laws
    by (intro exI [of _ ?c]) (simp add: init_command_ring_def usb_inv_def example_env_def example_hc_def initial_world_def transfer_ring_set_new_def)
qed

lemma example_idle:
  "\<exists>c w. init_command_ring example_lk 4096 32 = Inr (c, 4096) \<and> new_ring (example_env (example_hc rep)) 1 1 (initial_world nslots c) = Inr (Inr 4096, w)
     \<and> usb_inv bit 31 (example_hc rep) (example_env (example_hc rep)) 30 w \<and> idle bit 31 (1, 1) w"
proof -
  obtain c where c: "init_command_ring example_lk 4096 32 = Inr (c, 4096)" "usb_inv bit 31 (example_hc rep) (example_env (example_hc rep)) 30 (initial_world nslots c)"
    using initial_inv by blast
  have "en_addr (example_env (example_hc rep)) (w_alloc (initial_world nslots c)) = 4096" by (simp add: example_env_def initial_world_def)
  then show ?thesis using ring_provided [OF c(2), of 1 1] c(1) by auto
qed

theorem control_transfers_repeat_witness:
  "\<exists>c w w'. init_command_ring example_lk 4096 32 = Inr (c, 4096) \<and> new_ring (example_env (example_hc (\<lambda>_ _ _. [5]))) 1 1 (initial_world 8 c) = Inr (Inr 4096, w)
     \<and> ufold (control_step (example_env (example_hc (\<lambda>_ _ _. [5]))) 1) (replicate 100 (example_setup, Some [0])) [] w = Inr (Inr (replicate 100 [5]), w')"
proof -
  let ?hc = "example_hc (\<lambda>_ _ _. [5])"
  obtain c w where w: "init_command_ring example_lk 4096 32 = Inr (c, 4096)" "new_ring (example_env ?hc) 1 1 (initial_world 8 c) = Inr (Inr 4096, w)"
    "usb_inv bit 31 ?hc (example_env ?hc) 30 w" "idle bit 31 (1, 1) w" using example_idle by blast
  obtain w' where "ufold (control_step (example_env ?hc) 1) (replicate 100 (example_setup, Some [0])) [] w
      = Inr (Inr (map (\<lambda>(sd, data). hc_reply ?hc 1 sd (bytes_of data)) (replicate 100 (example_setup, Some [0]))), w')"
    using control_transfers_repeat [OF w(3,4), of "replicate 100 (example_setup, Some [0])"] by auto
  moreover have "map (\<lambda>(sd, data). hc_reply ?hc 1 sd (bytes_of data)) (replicate 100 (example_setup, Some [0])) = replicate 100 [5]"
    by (simp add: example_hc_def)
  ultimately show ?thesis using w(1,2) by auto
qed

theorem refused_request_unnoticed_witness:
  "\<exists>c w w'. let hc = (example_hc (\<lambda>_ _ buf. buf))\<lparr>hc_ok := (\<lambda>_ _ _ k. k = 0)\<rparr> in
     init_command_ring example_lk 4096 32 = Inr (c, 4096) \<and> new_ring (example_env hc) 1 1 (initial_world 8 c) = Inr (Inr 4096, w)
     \<and> control_transfer (example_env hc) 1 \<lparr>sd_request_type = SetProtocol, sd_value = 0, sd_index = 0, sd_length = 0\<rparr> None w = Inr (Inr [], w')"
proof -
  let ?hc = "(example_hc (\<lambda>_ _ buf. buf))\<lparr>hc_ok := (\<lambda>_ _ _ k. k = 0)\<rparr>"
  let ?sd = "\<lparr>sd_request_type = SetProtocol, sd_value = 0, sd_index = 0, sd_length = 0\<rparr>"
  obtain c w where w: "init_command_ring example_lk 4096 32 = Inr (c, 4096)" "new_ring (example_env (example_hc (\<lambda>_ _ buf. buf))) 1 1 (initial_world 8 c) = Inr (Inr 4096, w)"
    "idle bit 31 (1, 1) w" using example_idle by blast
  have e: "new_ring (example_env ?hc) 1 1 (initial_world 8 c) = Inr (Inr 4096, w)" using w(2) by (simp add: new_ring_def example_env_def)
  have "trb_laws (en_sb (example_env ?hc)) bit (en_lk (example_env ?hc))" "en_transfer (example_env ?hc) = hc_transfer ?hc"
    using example_laws by (simp_all add: example_env_def)
  from refused_request_unnoticed [OF this(1) _ this(2) w(3), of ?sd] obtain w' where
    "control_transfer (example_env ?hc) 1 ?sd None w = Inr (Inr (hc_reply ?hc 1 ?sd []), w')" by auto
  then show ?thesis using w(1) e by (auto simp: Let_def example_hc_def)
qed

end
