(* ===== verification/Usb_Descriptor.thy ===== *)
theory Usb_Descriptor
  imports Usb_Transfer
begin

text \<open>
  USB descriptors, \<^verbatim>\<open>kernel/src/usb/usbd.rs\<close>: reading the bytes a device returns as a list of descriptors, and building
  the tree of configurations, interfaces and alternate settings from it. A descriptor declared with the \<^verbatim>\<open>bitfield\<close>
  crate is its array of bytes, and its getters are calls of \<open>g\<close>; the endpoint descriptor is a packed structure.
  Pointers are addresses into memory, so reading behind the buffer reads what happens to be there.
\<close>

section \<open>Descriptors\<close>

type_synonym bits_get = "u8 list \<Rightarrow> nat \<Rightarrow> nat \<Rightarrow> u8"

record endpoint_descriptor =
  ed_length :: u8
  ed_descriptor_type :: u8
  ed_endpoint_addr :: u8
  ed_bm_attributes :: u8
  ed_max_packet_size :: u16
  ed_interval :: u8

definition calc_dci :: "endpoint_descriptor \<Rightarrow> nat" where
  "calc_dci ep = (let addr = ed_endpoint_addr ep in unat (2 * (addr AND 0b1111) + drop_bit 7 addr))"

datatype descriptor =
    Configuration "u8 list"
  | Interface "u8 list"
  | Endpoint endpoint_descriptor
  | Hid "u8 list"
  | Unknown "u8 list"

definition configuration_value :: "bits_get \<Rightarrow> u8 list \<Rightarrow> u8" where
  "configuration_value g d = g d 47 40"

definition i_configuration :: "bits_get \<Rightarrow> u8 list \<Rightarrow> u8" where
  "i_configuration g d = g d 55 48"

definition cd_bm_attributes :: "bits_get \<Rightarrow> u8 list \<Rightarrow> u8" where
  "cd_bm_attributes g d = g d 63 56"

definition max_power :: "bits_get \<Rightarrow> u8 list \<Rightarrow> u8" where
  "max_power g d = g d 71 64"

definition interface_number :: "bits_get \<Rightarrow> u8 list \<Rightarrow> u8" where
  "interface_number g d = g d 23 16"

definition alternate_setting :: "bits_get \<Rightarrow> u8 list \<Rightarrow> u8" where
  "alternate_setting g d = g d 31 24"

definition interface_class :: "bits_get \<Rightarrow> u8 list \<Rightarrow> u8" where
  "interface_class g d = g d 47 40"

definition interface_subclass :: "bits_get \<Rightarrow> u8 list \<Rightarrow> u8" where
  "interface_subclass g d = g d 55 48"

definition interface_protocol :: "bits_get \<Rightarrow> u8 list \<Rightarrow> u8" where
  "interface_protocol g d = g d 63 56"

definition i_interface :: "bits_get \<Rightarrow> u8 list \<Rightarrow> u8" where
  "i_interface g d = g d 71 64"

definition b_num_configurations :: "bits_get \<Rightarrow> u8 list \<Rightarrow> u8" where
  "b_num_configurations g d = g d 143 136"

section \<open>Reading descriptors\<close>

definition endpoint_at :: "memory \<Rightarrow> addr \<Rightarrow> endpoint_descriptor" where
  "endpoint_at mem p = \<lparr>ed_length = mem p, ed_descriptor_type = mem (p + 1), ed_endpoint_addr = mem (p + 2), ed_bm_attributes = mem (p + 3),
     ed_max_packet_size = read_u16 mem (p + 4), ed_interval = mem (p + 6)\<rparr>"

definition clone_from_ptr :: "memory \<Rightarrow> addr \<Rightarrow> u8 list" where
  "clone_from_ptr mem p = bytes_at mem p (unat (mem p))"

definition read_descriptor :: "memory \<Rightarrow> addr \<Rightarrow> (descriptor \<times> addr) option" where
  "read_descriptor mem p =
     (let len = unat (mem p) in
      if len = 0 then None
      else let desc_type = mem (p + 1);
               desc = (if desc_type = 2 then Configuration (bytes_at mem p 9)
                 else if desc_type = 4 then Interface (bytes_at mem p 9)
                 else if desc_type = 5 then Endpoint (endpoint_at mem p)
                 else if desc_type = 33 then Hid (bytes_at mem p 9)
                 else Unknown (clone_from_ptr mem p))
        in Some (desc, p + len))"

function read_loop :: "memory \<Rightarrow> addr \<Rightarrow> addr \<Rightarrow> descriptor list" where
  "read_loop mem p buf_end =
     (if p < buf_end then (case read_descriptor mem p of None \<Rightarrow> [] | Some (desc, q) \<Rightarrow> desc # read_loop mem q buf_end) else [])"
  by pat_completeness auto
termination
  by (relation "measure (\<lambda>(_, p, e). e - p)") (auto simp: read_descriptor_def Let_def split: if_splits)

declare read_loop.simps [simp del]

text \<open>\<open>b\<close> is the address of the buffer and \<open>m0\<close> the memory around it.\<close>

definition parse_config :: "memory \<Rightarrow> addr \<Rightarrow> u8 list \<Rightarrow> descriptor list res" where
  "parse_config m0 b buf =
     rbind (index buf 2) (\<lambda>lo. rbind (index buf 3) (\<lambda>hi.
     let total_len = le_nat [lo, hi] in Inr (read_loop (place b buf m0) b (b + total_len))))"

section \<open>The tree of a configuration\<close>

record usb_interface_alternate =
  ua_endpoints :: "descriptor list"
  ua_interface_num :: u8
  ua_alternate_setting_num :: u8
  ua_class :: u8
  ua_subclass :: u8
  ua_protocol :: u8
  ua_i_interface :: u8

definition usb_interface_alternate_new :: "bits_get \<Rightarrow> u8 list \<Rightarrow> descriptor list \<Rightarrow> usb_interface_alternate" where
  "usb_interface_alternate_new g desc endpoints = \<lparr>ua_endpoints = endpoints, ua_interface_num = interface_number g desc,
     ua_alternate_setting_num = alternate_setting g desc, ua_class = interface_class g desc, ua_subclass = interface_subclass g desc,
     ua_protocol = interface_protocol g desc, ua_i_interface = i_interface g desc\<rparr>"

record usb_interface =
  ui_alternates :: "usb_interface_alternate list"
  ui_interface_num :: u8

record usb_configuration =
  uc_interfaces :: "usb_interface list"
  uc_configuration_val :: u8
  uc_i_configuration :: u8
  uc_bm_attributes :: u8
  uc_max_power :: u8

definition usb_configuration_new :: "bits_get \<Rightarrow> u8 list \<Rightarrow> usb_interface list \<Rightarrow> usb_configuration" where
  "usb_configuration_new g desc interfaces = \<lparr>uc_interfaces = interfaces, uc_configuration_val = configuration_value g desc,
     uc_i_configuration = i_configuration g desc, uc_bm_attributes = cd_bm_attributes g desc, uc_max_power = max_power g desc\<rparr>"

fun try_configuration :: "descriptor \<Rightarrow> xhci_error + u8 list" where
  "try_configuration (Configuration d) = Inr d"
| "try_configuration _ = Inl UnexpectedDescriptor"

fun try_interface :: "descriptor \<Rightarrow> xhci_error + u8 list" where
  "try_interface (Interface d) = Inr d"
| "try_interface _ = Inl UnexpectedDescriptor"

text \<open>The loop of \<^verbatim>\<open>construct_interface_alternate\<close>: the endpoints up to the next interface, and the rest.\<close>

fun alternate_loop :: "descriptor list \<Rightarrow> descriptor list \<Rightarrow> (descriptor list \<times> descriptor list) option" where
  "alternate_loop eps [] = Some (eps, [])"
| "alternate_loop eps (Interface d # ds) = Some (eps, Interface d # ds)"
| "alternate_loop eps (Configuration d # ds) = None"
| "alternate_loop eps (d # ds) = alternate_loop (eps @ [d]) ds"

definition construct_interface_alternate :: "bits_get \<Rightarrow> descriptor list \<Rightarrow> (usb_interface_alternate \<times> descriptor list) option" where
  "construct_interface_alternate g ds = (case ds of
     [] \<Rightarrow> None
   | d # rest \<Rightarrow> (case try_interface d of
       Inl _ \<Rightarrow> None
     | Inr alt \<Rightarrow> (case alternate_loop [] rest of
         None \<Rightarrow> None
       | Some (eps, remain) \<Rightarrow> Some (usb_interface_alternate_new g alt eps, remain))))"

lemma alternate_loop_length: "alternate_loop eps ds = Some (e, r) \<Longrightarrow> length r \<le> length ds"
  by (induction eps ds rule: alternate_loop.induct) auto

lemma construct_alternate_length: "construct_interface_alternate g ds = Some (a, r) \<Longrightarrow> length r < length ds"
  by (auto simp: construct_interface_alternate_def less_Suc_eq_le split: list.splits sum.splits option.splits dest: alternate_loop_length)

function interface_loop :: "bits_get \<Rightarrow> u8 \<Rightarrow> usb_interface_alternate list \<Rightarrow> descriptor list \<Rightarrow> usb_interface \<times> descriptor list" where
  "interface_loop g intf_num alts ds =
     (case construct_interface_alternate g ds of
        None \<Rightarrow> (\<lparr>ui_alternates = alts, ui_interface_num = intf_num\<rparr>, ds)
      | Some (alt, remain) \<Rightarrow>
          if ua_interface_num alt = intf_num then interface_loop g intf_num (alts @ [alt]) remain
          else (\<lparr>ui_alternates = alts, ui_interface_num = intf_num\<rparr>, ds))"
  by pat_completeness auto
termination
  by (relation "measure (\<lambda>(_, _, _, ds). length ds)") (auto dest: construct_alternate_length)

declare interface_loop.simps [simp del]

definition construct_interface :: "bits_get \<Rightarrow> descriptor list \<Rightarrow> (usb_interface \<times> descriptor list) option" where
  "construct_interface g ds = (case ds of
     [] \<Rightarrow> None
   | d # _ \<Rightarrow> (case try_interface d of Inl _ \<Rightarrow> None | Inr alt \<Rightarrow> Some (interface_loop g (interface_number g alt) [] ds)))"

partial_function (option) configuration_loop :: "bits_get \<Rightarrow> usb_interface list \<Rightarrow> descriptor list \<Rightarrow> usb_interface list option" where
  "configuration_loop g intfs ds =
     (case construct_interface g ds of
        None \<Rightarrow> Some intfs
      | Some (intf, remain) \<Rightarrow> configuration_loop g (intfs @ [intf]) remain)"

definition construct_configuration :: "bits_get \<Rightarrow> descriptor list \<Rightarrow> usb_configuration option option" where
  "construct_configuration g ds = (case ds of
     [] \<Rightarrow> Some None
   | d # rest \<Rightarrow> (case try_configuration d of
       Inl _ \<Rightarrow> Some None
     | Inr conf_desc \<Rightarrow> (case configuration_loop g [] rest of None \<Rightarrow> None | Some intfs \<Rightarrow> Some (Some (usb_configuration_new g conf_desc intfs)))))"

section \<open>Printing descriptors\<close>

definition encode_endpoint :: "endpoint_descriptor \<Rightarrow> u8 list" where
  "encode_endpoint e = [ed_length e, ed_descriptor_type e, ed_endpoint_addr e, ed_bm_attributes e] @ le_bytes 2 (unat (ed_max_packet_size e)) @ [ed_interval e]"

fun encode :: "descriptor \<Rightarrow> u8 list" where
  "encode (Configuration d) = d"
| "encode (Interface d) = d"
| "encode (Endpoint e) = encode_endpoint e"
| "encode (Hid d) = d"
| "encode (Unknown d) = d"

fun wf_descriptor :: "descriptor \<Rightarrow> bool" where
  "wf_descriptor (Configuration d) \<longleftrightarrow> length d = 9 \<and> d ! 0 = 9 \<and> d ! 1 = 2"
| "wf_descriptor (Interface d) \<longleftrightarrow> length d = 9 \<and> d ! 0 = 9 \<and> d ! 1 = 4"
| "wf_descriptor (Endpoint e) \<longleftrightarrow> ed_length e = 7 \<and> ed_descriptor_type e = 5"
| "wf_descriptor (Hid d) \<longleftrightarrow> length d = 9 \<and> d ! 0 = 9 \<and> d ! 1 = 33"
| "wf_descriptor (Unknown d) \<longleftrightarrow> 2 \<le> length d \<and> unat (d ! 0) = length d \<and> d ! 1 \<notin> {2, 4, 5, 33}"

definition encode_all :: "descriptor list \<Rightarrow> u8 list" where
  "encode_all ds = concat (map encode ds)"

lemma length_encode_endpoint [simp]: "length (encode_endpoint e) = 7"
  by (simp add: encode_endpoint_def)

lemma read_endpoint:
  assumes "bytes_at mem p 7 = encode_endpoint e"
  shows "endpoint_at mem p = e"
proof -
  have m: "mem (p + i) = encode_endpoint e ! i" if "i < 7" for i using bytes_at_nth [OF assms that] .
  have b: "le_bytes 2 (unat (ed_max_packet_size e)) = [word_of_nat (unat (ed_max_packet_size e)), word_of_nat (unat (ed_max_packet_size e) div 256)]"
    by (simp add: numeral_2_eq_2)
  have "bytes_at mem (p + 4) 2 = le_bytes 2 (unat (ed_max_packet_size e))"
    using m [of 4] m [of 5] b by (simp add: bytes_at_def upt_rec encode_endpoint_def add.commute [of p])
  moreover have "unat (ed_max_packet_size e) mod 65536 = unat (ed_max_packet_size e)"
    using unsigned_less [of "ed_max_packet_size e", where 'a = nat] by simp
  ultimately have "read_u16 mem (p + 4) = ed_max_packet_size e" by (simp add: read_u16_def le_nat_le_bytes)
  then show ?thesis using m [of 0] m [of 1] m [of 2] m [of 3] m [of 6] b by (simp add: endpoint_at_def encode_endpoint_def)
qed

lemma encode_nonempty: "wf_descriptor d \<Longrightarrow> 2 \<le> length (encode d) \<and> length (encode d) = unat (encode d ! 0)"
  by (cases d) (auto simp: encode_endpoint_def)

lemma read_descriptor_encode:
  assumes m: "bytes_at mem p (length (encode d)) = encode d" and w: "wf_descriptor d"
  shows "read_descriptor mem p = Some (d, p + length (encode d))"
proof -
  have n: "mem p = encode d ! 0" "mem (p + 1) = encode d ! 1" using bytes_at_nth [OF m, of 0] bytes_at_nth [OF m, of 1] encode_nonempty [OF w] by auto
  have l: "unat (mem p) = length (encode d)" "unat (mem p) \<noteq> 0" using n encode_nonempty [OF w] by auto
  show ?thesis
  proof (cases d)
    case (Endpoint e)
    then show ?thesis using l n w m read_endpoint [of mem p e] by (simp add: read_descriptor_def encode_endpoint_def)
  qed (use l n w m in \<open>auto simp: read_descriptor_def clone_from_ptr_def\<close>)
qed

lemma read_loop_encode:
  assumes "bytes_at mem p (length (encode_all ds)) = encode_all ds" "\<forall>d \<in> set ds. wf_descriptor d"
  shows "read_loop mem p (p + length (encode_all ds) + k) = ds @ (read_loop mem (p + length (encode_all ds)) (p + length (encode_all ds) + k))"
  using assms
proof (induction ds arbitrary: p)
  case Nil
  then show ?case by (simp add: encode_all_def)
next
  case (Cons d ds)
  have e: "encode_all (d # ds) = encode d @ encode_all ds" by (simp add: encode_all_def)
  have b: "bytes_at mem p (length (encode d)) = encode d" "bytes_at mem (p + length (encode d)) (length (encode_all ds)) = encode_all ds"
    using Cons.prems(1) bytes_at_append [of mem p "length (encode d)" "length (encode_all ds)"] by (auto simp: e)
  have r: "read_descriptor mem p = Some (d, p + length (encode d))" using read_descriptor_encode [OF b(1)] Cons.prems(2) by simp
  have "0 < length (encode d)" using encode_nonempty [of d] Cons.prems(2) by force
  then show ?case using Cons.IH [OF b(2)] Cons.prems(2) r by (subst read_loop.simps) (simp add: e add.assoc)
qed

lemma bytes_placed: "n \<le> length l \<Longrightarrow> bytes_at (place b l m0) b n = take n l"
  using bytes_at_place_in [of b b n l m0] by simp

section \<open>Building the tree\<close>

fun is_interface :: "descriptor \<Rightarrow> bool" where
  "is_interface (Interface d) = True"
| "is_interface _ = False"

fun is_configuration :: "descriptor \<Rightarrow> bool" where
  "is_configuration (Configuration d) = True"
| "is_configuration _ = False"

text \<open>A setting is its interface descriptor and the descriptors up to the next one; an interface a list of settings.\<close>

type_synonym setting = "u8 list \<times> descriptor list"

definition flat_setting :: "setting \<Rightarrow> descriptor list" where
  "flat_setting s = Interface (fst s) # snd s"

definition flat_interface :: "setting list \<Rightarrow> descriptor list" where
  "flat_interface p = concat (map flat_setting p)"

definition alternate_of :: "bits_get \<Rightarrow> setting \<Rightarrow> usb_interface_alternate" where
  "alternate_of g s = usb_interface_alternate_new g (fst s) (snd s)"

definition interface_of :: "bits_get \<Rightarrow> setting list \<Rightarrow> usb_interface" where
  "interface_of g p = \<lparr>ui_alternates = map (alternate_of g) p, ui_interface_num = interface_number g (fst (hd p))\<rparr>"

definition starts_interface :: "descriptor list \<Rightarrow> bool" where
  "starts_interface ds \<longleftrightarrow> ds = [] \<or> is_interface (hd ds)"

lemma alternate_loop_splits:
  "\<forall>d \<in> set ds. \<not> is_configuration d \<Longrightarrow> \<exists>es rest. alternate_loop eps ds = Some (eps @ es, rest) \<and> ds = es @ rest
     \<and> starts_interface rest \<and> (\<forall>d \<in> set es. \<not> is_interface d)"
proof (induction eps ds rule: alternate_loop.induct)
  case (1 eps)
  then show ?case by (simp add: starts_interface_def)
next
  case (2 eps d ds)
  then show ?case by (simp add: starts_interface_def)
next
  case (3 eps d ds)
  then show ?case by simp
qed (fastforce simp: starts_interface_def)+

lemma construct_alternate_splits:
  assumes "\<forall>d \<in> set ds. \<not> is_configuration d" "starts_interface ds" "ds \<noteq> []"
  shows "\<exists>s rest. construct_interface_alternate g ds = Some (alternate_of g s, rest) \<and> ds = flat_setting s @ rest
    \<and> starts_interface rest \<and> (\<forall>d \<in> set (snd s). \<not> is_interface d)"
proof -
  obtain i rest where ds: "ds = Interface i # rest" using assms(2,3) by (cases ds; cases "hd ds") (auto simp: starts_interface_def)
  from alternate_loop_splits [of rest "[]"] assms(1) ds obtain es r where
    "alternate_loop [] rest = Some (es, r)" "rest = es @ r" "starts_interface r" "\<forall>d \<in> set es. \<not> is_interface d" by auto
  then show ?thesis using ds
    by (intro exI [of _ "(i, es)"] exI [of _ r]) (simp add: construct_interface_alternate_def alternate_of_def flat_setting_def)
qed

definition setting_num :: "bits_get \<Rightarrow> setting \<Rightarrow> u8" where
  "setting_num g s = interface_number g (fst s)"

lemma interface_loop_splits:
  assumes "\<forall>d \<in> set ds. \<not> is_configuration d" "starts_interface ds"
  shows "\<exists>p rest. interface_loop g n alts ds = (\<lparr>ui_alternates = alts @ map (alternate_of g) p, ui_interface_num = n\<rparr>, rest)
    \<and> ds = flat_interface p @ rest \<and> starts_interface rest
    \<and> (\<forall>s \<in> set p. setting_num g s = n \<and> (\<forall>d \<in> set (snd s). \<not> is_interface d))
    \<and> (\<forall>d r. rest = Interface d # r \<longrightarrow> interface_number g d \<noteq> n)"
  using assms
proof (induction "length ds" arbitrary: ds alts rule: less_induct)
  case less
  show ?case
  proof (cases "ds = []")
    case True
    then show ?thesis
      by (subst interface_loop.simps, intro exI [of _ "[]"] exI [of _ "[]"])
        (simp add: construct_interface_alternate_def flat_interface_def starts_interface_def)
  next
    case False
    obtain s rest where s: "construct_interface_alternate g ds = Some (alternate_of g s, rest)" "ds = flat_setting s @ rest"
      "starts_interface rest" "\<forall>d \<in> set (snd s). \<not> is_interface d"
      using construct_alternate_splits [OF less.prems False] by blast
    have num: "ua_interface_num (alternate_of g s) = setting_num g s" by (simp add: alternate_of_def usb_interface_alternate_new_def setting_num_def)
    show ?thesis
    proof (cases "setting_num g s = n")
      case True
      have "length rest < length ds" "\<forall>d \<in> set rest. \<not> is_configuration d" using s(2) less.prems(1) by (auto simp: flat_setting_def)
      from less.hyps [OF this s(3), of "alts @ [alternate_of g s]"] obtain p r where
        p: "interface_loop g n (alts @ [alternate_of g s]) rest = (\<lparr>ui_alternates = (alts @ [alternate_of g s]) @ map (alternate_of g) p, ui_interface_num = n\<rparr>, r)"
          "rest = flat_interface p @ r" "starts_interface r" "\<forall>s \<in> set p. setting_num g s = n \<and> (\<forall>d \<in> set (snd s). \<not> is_interface d)"
          "\<forall>d q. r = Interface d # q \<longrightarrow> interface_number g d \<noteq> n" by blast
      then show ?thesis using s True num
        by (subst interface_loop.simps, intro exI [of _ "s # p"] exI [of _ r]) (simp add: flat_interface_def)
    next
      case False
      then show ?thesis using s num less.prems
        by (subst interface_loop.simps, intro exI [of _ "[]"] exI [of _ ds]) (auto simp: flat_interface_def flat_setting_def setting_num_def)
    qed
  qed
qed

text \<open>A list of interfaces: each has settings, all with its number, and neighbours have different numbers.\<close>

definition interfaces_ok :: "bits_get \<Rightarrow> setting list list \<Rightarrow> bool" where
  "interfaces_ok g ps \<longleftrightarrow>
     (\<forall>p \<in> set ps. p \<noteq> [] \<and> (\<forall>s \<in> set p. setting_num g s = setting_num g (hd p) \<and> (\<forall>d \<in> set (snd s). \<not> is_interface d)))
     \<and> successively (\<lambda>p q. setting_num g (hd p) \<noteq> setting_num g (hd q)) ps"

lemma interfaces_ok_Cons:
  "\<lbrakk>p \<noteq> []; \<forall>s \<in> set p. setting_num g s = setting_num g (hd p) \<and> (\<forall>d \<in> set (snd s). \<not> is_interface d); interfaces_ok g ps;
     ps \<noteq> [] \<Longrightarrow> setting_num g (hd p) \<noteq> setting_num g (hd (hd ps))\<rbrakk> \<Longrightarrow> interfaces_ok g (p # ps)"
  unfolding interfaces_ok_def successively_Cons list.set(2) by blast

lemma construct_interface_splits:
  assumes "\<forall>d \<in> set ds. \<not> is_configuration d" "starts_interface ds" "ds \<noteq> []"
  shows "\<exists>p rest. construct_interface g ds = Some (interface_of g p, rest) \<and> ds = flat_interface p @ rest \<and> starts_interface rest \<and> p \<noteq> []
    \<and> (\<forall>s \<in> set p. setting_num g s = setting_num g (hd p) \<and> (\<forall>d \<in> set (snd s). \<not> is_interface d))
    \<and> (\<forall>d r. rest = Interface d # r \<longrightarrow> interface_number g d \<noteq> setting_num g (hd p))"
proof -
  obtain i r0 where ds: "ds = Interface i # r0" using assms(2,3) by (cases ds; cases "hd ds") (auto simp: starts_interface_def)
  obtain p rest where p: "interface_loop g (interface_number g i) [] ds = (\<lparr>ui_alternates = map (alternate_of g) p, ui_interface_num = interface_number g i\<rparr>, rest)"
    "ds = flat_interface p @ rest" "starts_interface rest"
    "\<forall>s \<in> set p. setting_num g s = interface_number g i \<and> (\<forall>d \<in> set (snd s). \<not> is_interface d)"
    "\<forall>d r. rest = Interface d # r \<longrightarrow> interface_number g d \<noteq> interface_number g i"
    using interface_loop_splits [OF assms(1,2), of g "interface_number g i" "[]"] by auto
  have ne: "p \<noteq> []" using p(2,5) ds by (cases p) (auto simp: flat_interface_def)
  then have "fst (hd p) = i" using p(2) ds by (cases p) (auto simp: flat_interface_def flat_setting_def)
  then have num: "interface_number g i = setting_num g (hd p)" by (simp add: setting_num_def)
  have "construct_interface g ds = Some (interface_loop g (interface_number g i) [] ds)" using ds by (simp add: construct_interface_def)
  also have "\<dots> = Some (interface_of g p, rest)" unfolding p(1) by (simp add: interface_of_def num setting_num_def)
  finally show ?thesis using p(2-5) ne unfolding num by blast
qed

lemma configuration_loop_splits:
  assumes "\<forall>d \<in> set ds. \<not> is_configuration d" "starts_interface ds"
  shows "\<exists>ps. configuration_loop g intfs ds = Some (intfs @ map (interface_of g) ps) \<and> ds = concat (map flat_interface ps) \<and> interfaces_ok g ps"
  using assms
proof (induction "length ds" arbitrary: ds intfs rule: less_induct)
  case less
  show ?case
  proof (cases "ds = []")
    case True
    then show ?thesis
      by (subst configuration_loop.simps, intro exI [of _ "[]"]) (simp add: construct_interface_def interfaces_ok_def)
  next
    case False
    obtain p rest where p: "construct_interface g ds = Some (interface_of g p, rest)" "ds = flat_interface p @ rest" "starts_interface rest" "p \<noteq> []"
      "\<forall>s \<in> set p. setting_num g s = setting_num g (hd p) \<and> (\<forall>d \<in> set (snd s). \<not> is_interface d)"
      "\<forall>d r. rest = Interface d # r \<longrightarrow> interface_number g d \<noteq> setting_num g (hd p)"
      using construct_interface_splits [OF less.prems False, of g] by blast
    have "0 < length (flat_interface p)" using p(4) by (cases p) (auto simp: flat_interface_def flat_setting_def)
    then have "length rest < length ds" "\<forall>d \<in> set rest. \<not> is_configuration d" using p(2) less.prems(1) by auto
    from less.hyps [OF this p(3), of "intfs @ [interface_of g p]"] obtain ps where
      ps: "configuration_loop g (intfs @ [interface_of g p]) rest = Some ((intfs @ [interface_of g p]) @ map (interface_of g) ps)"
        "rest = concat (map flat_interface ps)" "interfaces_ok g ps" by blast
    have "setting_num g (hd p) \<noteq> setting_num g (hd (hd ps))" if ne: "ps \<noteq> []"
    proof -
      obtain q qs where q: "ps = q # qs" using ne by (cases ps) auto
      moreover obtain s ss where "q = s # ss" using ps(3) q by (cases q) (auto simp: interfaces_ok_def)
      ultimately show ?thesis using p(6) ps(2) by (auto simp: flat_interface_def flat_setting_def setting_num_def)
    qed
    then have "interfaces_ok g (p # ps)" using interfaces_ok_Cons [OF p(4,5) ps(3)] by blast
    then show ?thesis using p(1,2) ps by (subst configuration_loop.simps, intro exI [of _ "p # ps"]) simp
  qed
qed

text \<open>
  (C36) For a configuration without a second configuration descriptor whose first descriptor is that of an interface, the
  driver always finishes building the tree. The tree has all the descriptors in their order: each interface has the
  neighbouring settings of one number, each setting the descriptors up to the next interface descriptor.
\<close>

theorem construct_configuration_correct:
  assumes "\<forall>d \<in> set ds. \<not> is_configuration d" "starts_interface ds"
  shows "\<exists>ps. construct_configuration g (Configuration c # ds) = Some (Some (usb_configuration_new g c (map (interface_of g) ps)))
    \<and> ds = concat (map flat_interface ps) \<and> interfaces_ok g ps"
  using configuration_loop_splits [OF assms, of g "[]"] by (auto simp: construct_configuration_def)

section \<open>A device can hang the kernel\<close>

lemma alternate_loop_configuration:
  "\<forall>d \<in> set es. \<not> is_interface d \<Longrightarrow> alternate_loop eps (es @ Configuration c # ds) = None"
proof (induction es arbitrary: eps)
  case Nil
  then show ?case by simp
next
  case (Cons e es)
  then show ?case by (cases e) auto
qed

lemma construct_interface_stuck:
  assumes "\<forall>d \<in> set es. \<not> is_interface d"
  shows "construct_interface g (Interface i # es @ Configuration c # ds) = Some (\<lparr>ui_alternates = [], ui_interface_num = interface_number g i\<rparr>, Interface i # es @ Configuration c # ds)"
  using alternate_loop_configuration [OF assms, of "[]" c ds]
  by (simp add: construct_interface_def interface_loop.simps construct_interface_alternate_def)

lemma configuration_loop_diverges:
  assumes "construct_interface g ds = Some (intf, ds)"
  shows "configuration_loop g intfs ds = None"
proof (rule ccontr)
  assume "configuration_loop g intfs ds \<noteq> None"
  then obtain r where "configuration_loop g intfs ds = Some r" by auto
  then have "g = g \<longrightarrow> ds = ds \<longrightarrow> False"
  proof (rule configuration_loop.raw_induct [where P = "\<lambda>g' i d r. g' = g \<longrightarrow> d = ds \<longrightarrow> False", rotated])
    fix f g' i d r
    assume IH: "\<And>g' i d r. f g' i d = Some r \<Longrightarrow> g' = g \<longrightarrow> d = ds \<longrightarrow> False"
      and eq: "(case construct_interface g' d of None \<Rightarrow> Some i | Some (intf, remain) \<Rightarrow> f g' (i @ [intf]) remain) = Some r"
    show "g' = g \<longrightarrow> d = ds \<longrightarrow> False" using eq assms IH [of g "i @ [intf]" ds r] by auto
  qed
  then show False by simp
qed

text \<open>
  A configuration descriptor between the descriptors of an interface makes the driver loop forever: the interface
  is built without settings and nothing is consumed, again and again.
\<close>

theorem nested_configuration_hangs:
  assumes "\<forall>d \<in> set es. \<not> is_interface d"
  shows "construct_configuration g (Configuration c # Interface i # es @ Configuration c' # ds) = None"
  using configuration_loop_diverges [OF construct_interface_stuck [OF assms, of g i c' ds]] by (simp add: construct_configuration_def)

section \<open>A mouse\<close>

definition byte_get :: bits_get where
  "byte_get bs msb lsb = bs ! (lsb div 8)"

definition mouse_interface :: "u8 list" where
  "mouse_interface = [9, 4, 0, 0, 1, 3, 1, 2, 0]"

definition mouse_endpoint :: endpoint_descriptor where
  "mouse_endpoint = \<lparr>ed_length = 7, ed_descriptor_type = 5, ed_endpoint_addr = 0x81, ed_bm_attributes = 3, ed_max_packet_size = 8, ed_interval = 4\<rparr>"

definition mouse_descriptors :: "nat \<Rightarrow> descriptor list" where
  "mouse_descriptors n = [Configuration [9, 2, of_nat n, 0, 1, 1, 0, 0xa0, 50], Interface mouse_interface, Hid [9, 33, 0x11, 1, 0, 1, 34, 52, 0],
     Endpoint mouse_endpoint]"

lemma mouse_endpoint_encoded: "encode_endpoint mouse_endpoint = [7, 5, 0x81, 3, 8, 0, 4]"
  by code_simp

lemma mouse_encoded: "encode_all (mouse_descriptors n) = [9, 2, of_nat n, 0, 1, 1, 0, 0xa0, 50, 9, 4, 0, 0, 1, 3, 1, 2, 0, 9, 33, 0x11, 1, 0, 1, 34, 52, 0, 7, 5, 0x81, 3, 8, 0, 4]"
  by (simp add: encode_all_def mouse_descriptors_def mouse_interface_def mouse_endpoint_encoded)

lemma mouse_wf: "\<forall>d \<in> set (mouse_descriptors n). wf_descriptor d"
  by (simp add: mouse_descriptors_def mouse_interface_def mouse_endpoint_def)

theorem construct_configuration_correct_witness:
  "\<exists>ps. construct_configuration byte_get (mouse_descriptors 34)
      = Some (Some (usb_configuration_new byte_get [9, 2, 34, 0, 1, 1, 0, 0xa0, 50] (map (interface_of byte_get) ps)))
    \<and> tl (mouse_descriptors 34) = concat (map flat_interface ps)"
  using construct_configuration_correct [of "tl (mouse_descriptors 34)" byte_get "[9, 2, 34, 0, 1, 1, 0, 0xa0, 50]"]
  by (auto simp: mouse_descriptors_def starts_interface_def)

theorem nested_configuration_hangs_witness:
  "construct_configuration byte_get (mouse_descriptors 34 @ [Configuration [9, 2, 9, 0, 0, 2, 0, 0x80, 50]]) = None"
  using nested_configuration_hangs [of "[Hid [9, 33, 0x11, 1, 0, 1, 34, 52, 0], Endpoint mouse_endpoint]" byte_get "[9, 2, 34, 0, 1, 1, 0, 0xa0, 50]"
      mouse_interface "[9, 2, 9, 0, 0, 2, 0, 0x80, 50]" "[]"]
  by (simp add: mouse_descriptors_def)

end
