(* ===== verification/Usb_Config.thy ===== *)
theory Usb_Config
  imports Usb_World Usb_Descriptor
begin

text \<open>
  Reading the descriptors of a device over its default pipe, \<^verbatim>\<open>read_device_descriptor\<close>, \<^verbatim>\<open>get_config_descriptor\<close> and
  \<^verbatim>\<open>read_config\<close> of \<^verbatim>\<open>UsbDriver\<close> in \<^verbatim>\<open>kernel/src/usb/usbd.rs\<close>, and \<^verbatim>\<open>construct_device\<close>, which builds the trees.
\<close>

section \<open>Requests for descriptors\<close>

definition read_device_descriptor :: "usb_env \<Rightarrow> nat \<Rightarrow> u8 list usb" where
  "read_device_descriptor env slot_id =
     (let dev_desc = replicate 18 0;
          setup = \<lparr>sd_request_type = GetDescriptor, sd_value = 0x0100, sd_index = 0, sd_length = 18\<rparr>
      in control_transfer env slot_id setup (Some dev_desc))"

text \<open>The vector that is returned is its address and its content.\<close>

definition get_config_descriptor :: "usb_env \<Rightarrow> nat \<Rightarrow> nat \<Rightarrow> nat \<Rightarrow> (nat + addr \<times> u8 list) usb" where
  "get_config_descriptor env slot_id i_conf buf_sz w =
     (let buf = replicate buf_sz 0;
          setup = \<lparr>sd_request_type = GetDescriptor, sd_value = 0x0200 OR of_nat i_conf, sd_index = 0, sd_length = of_nat buf_sz\<rparr>
      in ubind (control_transfer env slot_id setup (Some buf)) (\<lambda>buf.
         ubind (ulift (index buf 2)) (\<lambda>lo. ubind (ulift (index buf 3)) (\<lambda>hi.
         let total_len = le_nat [lo, hi] in
         ureturn (if total_len < buf_sz then Inl total_len else Inr (en_addr env (w_alloc w), buf))))) w)"

definition read_config :: "usb_env \<Rightarrow> nat \<Rightarrow> nat \<Rightarrow> nat \<Rightarrow> descriptor list usb" where
  "read_config env slot_id i_conf buf_sz =
     ubind (get_config_descriptor env slot_id i_conf buf_sz) (\<lambda>r.
     ubind (case r of
         Inr desc \<Rightarrow> ureturn desc
       | Inl total_size \<Rightarrow>
           ubind (get_config_descriptor env slot_id i_conf total_size) (\<lambda>r.
           case r of Inr desc \<Rightarrow> ureturn desc | Inl _ \<Rightarrow> ulift (Inl UnwrapNone))) (\<lambda>(b, buf).
     ulift (parse_config (en_mem env) b buf)))"

section \<open>Devices that serve a configuration\<close>

text \<open>\<open>serves\<close>: the device answers a request for configuration \<open>i\<close> with as many of its bytes as fit.\<close>

definition serves :: "u8 list \<Rightarrow> nat \<Rightarrow> (setup_data \<Rightarrow> u8 list \<Rightarrow> u8 list) \<Rightarrow> bool" where
  "serves conf i reply \<longleftrightarrow> (\<forall>sd buf. sd_request_type sd = GetDescriptor \<longrightarrow> sd_value sd = 0x0200 OR of_nat i
     \<longrightarrow> unat (sd_length sd) = length buf \<longrightarrow> reply sd buf = take (length buf) conf @ drop (length conf) buf)"

context usb_service
begin

lemma get_config_serves:
  assumes "ready k w" "idle (slot, 1) w" "serves conf i (reply slot)" "4 \<le> n" "n < 2 ^ 16" "4 \<le> length conf" "le_nat [conf ! 2, conf ! 3] = length conf"
  shows "\<exists>w'. get_config_descriptor env slot i n w
      = Inr (Inr (if length conf < n then Inl (length conf) else Inr (en_addr env (w_alloc w), take n conf)), w') \<and> ready k w' \<and> framed idle w w'"
proof -
  let ?b = "take n conf @ replicate (n - length conf) 0"
  let ?sd = "\<lparr>sd_request_type = GetDescriptor, sd_value = 0x0200 OR of_nat i, sd_index = 0, sd_length = of_nat n\<rparr>"
  have "unat (of_nat n :: u16) = n" using assms(5) by (simp add: unat_of_nat)
  then have "reply slot ?sd (replicate n 0) = ?b" using assms(3) by (simp add: serves_def)
  then obtain w' where c: "control_transfer env slot ?sd (Some (replicate n 0)) w = Inr (Inr ?b, w')" "ready k w'" "framed idle w w'"
    using control_law [OF assms(1,2), of ?sd "Some (replicate n 0)"] by (auto simp: request_ok_def bytes_of_def)
  have "index ?b 2 = Inr (conf ! 2)" "index ?b 3 = Inr (conf ! 3)" using assms(4,6) by (auto simp: index_def nth_append)
  then show ?thesis using c assms(7) by (intro exI [of _ w']) (simp add: get_config_descriptor_def Let_def)
qed

lemma read_config_serves:
  assumes "ready k w" "idle (slot, 1) w" "serves conf i (reply slot)" "4 \<le> length conf" "length conf < 2 ^ 16" "le_nat [conf ! 2, conf ! 3] = length conf"
  shows "\<exists>w' b. read_config env slot i 64 w = Inr (Inr (read_loop (place b (take 64 conf) (en_mem env)) b (b + length conf)), w')
    \<and> ready k w' \<and> framed idle w w' \<and> b \<in> range (en_addr env)"
proof -
  note g = get_config_serves [OF _ _ assms(3) _ _ assms(4,6)]
  have p: "parse_config (en_mem env) b (take n conf) = Inr (read_loop (place b (take n conf) (en_mem env)) b (b + length conf))" if "4 \<le> n" for n b
    using that assms(4,6) by (simp add: parse_config_def index_def)
  obtain w1 where w1: "get_config_descriptor env slot i 64 w
      = Inr (Inr (if length conf < 64 then Inl (length conf) else Inr (en_addr env (w_alloc w), take 64 conf)), w1)" "ready k w1" "framed idle w w1"
    using g [OF assms(1,2), of 64] by auto
  show ?thesis
  proof (cases "length conf < 64")
    case True
    obtain w2 where w2: "get_config_descriptor env slot i (length conf) w1 = Inr (Inr (Inr (en_addr env (w_alloc w1), take (length conf) conf)), w2)" "ready k w2" "framed idle w1 w2"
      using g [OF w1(2) framed_idle [OF w1(3) assms(2)], of "length conf"] assms(4,5) by auto
    have "read_config env slot i 64 w = Inr (Inr (read_loop (place (en_addr env (w_alloc w1)) (take 64 conf) (en_mem env)) (en_addr env (w_alloc w1)) (en_addr env (w_alloc w1) + length conf)), w2)"
      using w1(1) w2(1) True p [of "length conf" "en_addr env (w_alloc w1)"] assms(4) by (simp add: read_config_def)
    then show ?thesis using w2(2) framed_trans [OF w1(3) w2(3)] by blast
  next
    case False
    then show ?thesis using w1 p [of 64 "en_addr env (w_alloc w)"] by (auto simp: read_config_def)
  qed
qed

text \<open>Descriptors that fit into the buffer are read back, whatever is in memory behind it.\<close>

lemma read_config_fits:
  assumes "ready k w" "idle (slot, 1) w" "serves (encode_all ds) i (reply slot)" "4 \<le> length (encode_all ds)" "length (encode_all ds) \<le> 64"
    and "le_nat [encode_all ds ! 2, encode_all ds ! 3] = length (encode_all ds)" "\<forall>d \<in> set ds. wf_descriptor d"
  shows "\<exists>w'. read_config env slot i 64 w = Inr (Inr ds, w') \<and> ready k w' \<and> framed idle w w'"
proof -
  let ?c = "encode_all ds"
  have "read_loop (place b ?c m0) b (b + length ?c) = ds" for b m0
  proof -
    have "bytes_at (place b ?c m0) b (length ?c) = ?c" using bytes_placed [of "length ?c" ?c] by simp
    from read_loop_encode [OF this assms(7), of 0] show ?thesis by (simp add: read_loop.simps [of _ "b + length ?c"])
  qed
  then show ?thesis using read_config_serves [OF assms(1-4) _ assms(6)] assms(5) by fastforce
qed

end

section \<open>Properties\<close>

text \<open>
  (C35) Reading what a device prints: when the descriptors of a configuration take up at most 64 bytes, the driver reads
  exactly them back, whatever is in memory behind its buffer, and the default pipe is ready for the next request.
\<close>

theorem read_config_roundtrip:
  assumes "usb_inv gb m hc env k w" "idle gb m (slot, 1) w" "serves (encode_all ds) i (hc_reply hc slot)" "4 \<le> length (encode_all ds)" "length (encode_all ds) \<le> 64"
    and "le_nat [encode_all ds ! 2, encode_all ds ! 3] = length (encode_all ds)" "\<forall>d \<in> set ds. wf_descriptor d"
  shows "\<exists>w'. read_config env slot i 64 w = Inr (Inr ds, w') \<and> usb_inv gb m hc env k w' \<and> idle gb m (slot, 1) w'"
  using xhc.read_config_fits [OF assms] framed_idle assms(2) by blast

text \<open>
  A configuration of more than 64 bytes is not read completely: the comparison that should ask for a larger
  buffer is the wrong way round, the driver goes on with 64 bytes and reads the rest from the memory behind the buffer.
  With zeros there, the descriptors from that point on are lost.
\<close>

theorem long_config_truncated:
  assumes "usb_inv gb m hc env k w" "idle gb m (slot, 1) w" "serves (encode_all (ds @ rest)) i (hc_reply hc slot)"
    and "length (encode_all ds) = 64" "length (encode_all (ds @ rest)) < 2 ^ 16"
    and "le_nat [encode_all (ds @ rest) ! 2, encode_all (ds @ rest) ! 3] = length (encode_all (ds @ rest))"
    and "\<forall>d \<in> set ds. wf_descriptor d" "\<And>n. en_mem env (en_addr env n + 64) = 0"
  shows "\<exists>w'. read_config env slot i 64 w = Inr (Inr ds, w')"
proof -
  let ?c = "encode_all ds"
  have e: "encode_all (ds @ rest) = ?c @ encode_all rest" by (simp add: encode_all_def)
  have t: "take 64 (encode_all (ds @ rest)) = ?c" using assms(4) by (simp add: e)
  have "read_loop (place b ?c (en_mem env)) b (b + length (encode_all (ds @ rest))) = ds" if b: "b \<in> range (en_addr env)" for b
  proof -
    have "bytes_at (place b ?c (en_mem env)) b (length ?c) = ?c" using bytes_placed [of "length ?c" ?c] by simp
    from read_loop_encode [OF this assms(7), of "length (encode_all rest)"]
    have l: "read_loop (place b ?c (en_mem env)) b (b + length (encode_all (ds @ rest)))
        = ds @ read_loop (place b ?c (en_mem env)) (b + 64) (b + 64 + length (encode_all rest))" using assms(4) by (simp add: e add.assoc)
    have "place b ?c (en_mem env) (b + 64) = 0" using assms(4,8) b by (auto simp: place_def)
    then show ?thesis using l by (simp add: read_loop.simps [of _ "b + 64"] read_descriptor_def)
  qed
  then show ?thesis using xhc.read_config_serves [OF assms(1-3) _ assms(5,6)] t assms(4) by (auto simp: e)
qed

section \<open>Examples\<close>

text \<open>A device with one configuration: its device descriptor and its configuration; other requests leave the buffer alone.\<close>

definition example_device_descriptor :: "u8 list" where
  "example_device_descriptor = [18, 1, 0, 2, 0, 0, 0, 8, 0x6d, 4, 0x77, 0xc0, 0, 0x72, 1, 2, 0, 1]"

definition serve_bytes :: "u8 list \<Rightarrow> nat \<Rightarrow> setup_data \<Rightarrow> u8 list \<Rightarrow> u8 list" where
  "serve_bytes conf slot sd buf =
     (if sd_request_type sd = GetDescriptor then (if sd_value sd = 0x0100 then example_device_descriptor else take (length buf) conf @ drop (length conf) buf) else buf)"

lemma serve_bytes_serves: "serves conf 0 (serve_bytes conf slot)"
  by (simp add: serves_def serve_bytes_def)

theorem read_config_roundtrip_witness:
  "\<exists>c w w'. let hc = example_hc (serve_bytes (encode_all (mouse_descriptors 34))) in
     init_command_ring example_lk 4096 32 = Inr (c, 4096) \<and> new_ring (example_env hc) 1 1 (initial_world 8 c) = Inr (Inr 4096, w)
     \<and> read_config (example_env hc) 1 0 64 w = Inr (Inr (mouse_descriptors 34), w')"
proof -
  let ?hc = "example_hc (serve_bytes (encode_all (mouse_descriptors 34)))"
  obtain c w where w: "init_command_ring example_lk 4096 32 = Inr (c, 4096)" "new_ring (example_env ?hc) 1 1 (initial_world 8 c) = Inr (Inr 4096, w)"
    "usb_inv bit 31 ?hc (example_env ?hc) 30 w" "idle bit 31 (1, 1) w" using example_idle by blast
  have "serves (encode_all (mouse_descriptors 34)) 0 (hc_reply ?hc 1)" using serve_bytes_serves by (simp add: example_hc_def)
  from read_config_roundtrip [OF w(3,4) this _ _ _ mouse_wf] show ?thesis using w(1,2) by (auto simp: mouse_encoded Let_def)
qed

theorem long_config_truncated_witness:
  "\<exists>c w w'. let ds = mouse_descriptors 98 @ [Unknown (30 # replicate 29 0)]; hc = example_hc (serve_bytes (encode_all (ds @ mouse_descriptors 98))) in
     init_command_ring example_lk 4096 32 = Inr (c, 4096) \<and> new_ring (example_env hc) 1 1 (initial_world 8 c) = Inr (Inr 4096, w)
     \<and> read_config (example_env hc) 1 0 64 w = Inr (Inr ds, w')"
proof -
  let ?ds = "mouse_descriptors 98 @ [Unknown (30 # replicate 29 0)]"
  let ?hc = "example_hc (serve_bytes (encode_all (?ds @ mouse_descriptors 98)))"
  obtain c w where w: "init_command_ring example_lk 4096 32 = Inr (c, 4096)" "new_ring (example_env ?hc) 1 1 (initial_world 8 c) = Inr (Inr 4096, w)"
    "usb_inv bit 31 ?hc (example_env ?hc) 30 w" "idle bit 31 (1, 1) w" using example_idle by blast
  have e: "encode_all (xs @ ys) = encode_all xs @ encode_all ys" "encode_all (d # ds) = encode d @ encode_all ds" "encode_all [] = []" for xs ys d ds
    by (simp_all add: encode_all_def)
  have wf: "\<forall>d \<in> set ?ds. wf_descriptor d" using mouse_wf [of 98] by simp
  have sv: "serves (encode_all (?ds @ mouse_descriptors 98)) 0 (hc_reply ?hc 1)" using serve_bytes_serves by (simp add: example_hc_def)
  have mem: "en_mem (example_env ?hc) a = 0" for a by (simp add: example_env_def)
  obtain w' where "read_config (example_env ?hc) 1 0 64 w = Inr (Inr ?ds, w')"
    using long_config_truncated [OF w(3,4) sv _ _ _ wf mem] by (auto simp: e mouse_encoded)
  then show ?thesis using w(1,2) by (auto simp: Let_def)
qed

end
