(* ===== verification/Usb_Device.thy ===== *)
theory Usb_Device
  imports Usb_Config
begin

text \<open>
  A USB device after its descriptors are read (\<^verbatim>\<open>UsbDevice\<close> in \<^verbatim>\<open>kernel/src/usb/usbd.rs\<close>) and the mouse and keyboard drivers
  (\<^verbatim>\<open>kernel/src/usb/class\<close>). The requests and commands are those of the environment.
\<close>

section \<open>UsbDevice\<close>

record usb_device =
  ud_slot_id :: nat
  ud_configs :: "usb_configuration list"
  ud_config_selected :: "nat option"
  ud_alternates_selected :: "u8 list"

definition usb_device_new :: "nat \<Rightarrow> usb_configuration list \<Rightarrow> usb_device" where
  "usb_device_new slot_id configs = \<lparr>ud_slot_id = slot_id, ud_configs = configs, ud_config_selected = None, ud_alternates_selected = []\<rparr>"

definition set_configuration :: "usb_env \<Rightarrow> usb_device \<Rightarrow> nat \<Rightarrow> usb_device usb" where
  "set_configuration env dev config =
     ubind (ulift (index (ud_configs dev) config)) (\<lambda>conf.
     let setup = \<lparr>sd_request_type = SetConfigutation, sd_value = ucast (uc_configuration_val conf), sd_index = 0, sd_length = 0\<rparr> in
     ubind (control_transfer env (ud_slot_id dev) setup None) (\<lambda>_.
     ureturn (dev\<lparr>ud_config_selected := Some config,
         ud_alternates_selected := ud_alternates_selected dev @ replicate (length (uc_interfaces conf)) 0\<rparr>)))"

text \<open>The device is changed before the request, so it is changed even if the request fails.\<close>

definition set_interface :: "usb_env \<Rightarrow> usb_device \<Rightarrow> nat \<Rightarrow> nat \<Rightarrow> usb_world \<Rightarrow> ((xhci_error + unit) \<times> usb_device \<times> usb_world) res" where
  "set_interface env dev interface alternate w =
     rbind (unwrap (ud_config_selected dev)) (\<lambda>c.
     rbind (index (ud_configs dev) c) (\<lambda>config.
     rbind (index (uc_interfaces config) interface) (\<lambda>intf.
     rbind (rassert (length (ui_alternates intf) > alternate)) (\<lambda>_.
     rbind (store (ud_alternates_selected dev) interface (of_nat alternate)) (\<lambda>alts.
     let dev = dev\<lparr>ud_alternates_selected := alts\<rparr>;
         setup = \<lparr>sd_request_type = SetInterface, sd_value = of_nat alternate, sd_index = of_nat interface, sd_length = 0\<rparr>
     in rbind (control_transfer env (ud_slot_id dev) setup None w) (\<lambda>(r, w). Inr (map_sum id (\<lambda>_. ()) r, dev, w)))))))"

section \<open>Enabling the endpoints\<close>

text \<open>The match on direction and transfer type; the first argument is the top bit of the address.\<close>

definition endpoint_type_of :: "u8 \<Rightarrow> u8 \<Rightarrow> endpoint_type res" where
  "endpoint_type_of direction transfer_type =
     (if (direction, transfer_type) = (0, 1) then Inr IsochOut
      else if (direction, transfer_type) = (0, 2) then Inr BulkOut
      else if (direction, transfer_type) = (0, 3) then Inr InterruptOut
      else if transfer_type = 0 then Inr Control
      else if (direction, transfer_type) = (1, 1) then Inr IsochIn
      else if (direction, transfer_type) = (1, 2) then Inr BulkIn
      else if (direction, transfer_type) = (1, 3) then Inr InterruptIn
      else Inl ExplicitPanic)"

text \<open>The state of the loop: the calls so far and \<^verbatim>\<open>context_entries\<close>.\<close>

type_synonym ep_state = "ctx_call list \<times> nat"

definition enable_endpoint :: "usb_env \<Rightarrow> nat \<Rightarrow> endpoint_descriptor \<Rightarrow> ep_state \<Rightarrow> ep_state usb" where
  "enable_endpoint env slot_id ep = (\<lambda>(calls, context_entries).
     let ep_addr = ed_endpoint_addr ep;
         direction = drop_bit 7 ep_addr;
         dci = unat (2 * (ep_addr AND 0b1111) + direction);
         transfer_type = ed_bm_attributes ep AND 0b11
     in ubind (ulift (endpoint_type_of direction transfer_type)) (\<lambda>ty.
        ubind (new_ring env slot_id dci) (\<lambda>ring_ptr.
        ureturn (calls @ Set_Add_Context_Flag dci # map (On_Endpoint dci) [Set_Endpoint_Type ty, Set_Max_Packet_Size (ed_max_packet_size ep),
               Set_Max_Burst_Size 0, Set_TR_Dequeue_Pointer ring_ptr, Set_Dequeue_Cycle_State, Set_Interval (ed_interval ep),
               Set_Max_Primary_Streams 0, Set_Mult 0, Set_Error_Count 3],
             max context_entries (dci + 1)))))"

definition enable_descriptor :: "usb_env \<Rightarrow> nat \<Rightarrow> descriptor \<Rightarrow> ep_state \<Rightarrow> ep_state usb" where
  "enable_descriptor env slot_id d s = (case d of Endpoint ep \<Rightarrow> enable_endpoint env slot_id ep s | _ \<Rightarrow> ureturn s)"

definition enable_interface :: "usb_env \<Rightarrow> usb_device \<Rightarrow> usb_interface \<Rightarrow> ep_state \<Rightarrow> ep_state usb" where
  "enable_interface env dev intf s =
     ubind (ulift (index (ud_alternates_selected dev) (unat (ui_interface_num intf)))) (\<lambda>sel.
     ubind (ulift (index (ui_alternates intf) (unat sel))) (\<lambda>alt.
     ufold (enable_descriptor env (ud_slot_id dev)) (ua_endpoints alt) s))"

text \<open>The completion code of the command is not looked at.\<close>

definition enable_endpoints :: "usb_env \<Rightarrow> usb_device \<Rightarrow> unit usb" where
  "enable_endpoints env dev w =
     ubind (ulift (get_context_at (w_dcbaa w) (ud_slot_id dev))) (\<lambda>ctx.
     let (port, speed) = en_slot_ctx env ctx;
         calls = [Set_Add_Context_Flag 0, Set_Route_String 0, Set_Root_Hub_Port_Number port, Set_Interrupter_Target 0, Set_Speed speed] in
     ubind (ulift (unwrap (ud_config_selected dev))) (\<lambda>c.
     ubind (ulift (index (ud_configs dev) c)) (\<lambda>config.
     ubind (ufold (enable_interface env dev) (uc_interfaces config) (calls, 1)) (\<lambda>(calls, context_entries).
     ubind (run_command env (ConfigureEndpoint (calls @ [Set_Context_Entries (of_nat context_entries)]) (of_nat (ud_slot_id dev)))) (\<lambda>_.
     ureturn ()))))) w"

section \<open>Class drivers\<close>

record class_driver =
  kd_slot_id :: nat
  kd_interface :: u8
  kd_dci :: nat

fun first_endpoint :: "descriptor list \<Rightarrow> nat option" where
  "first_endpoint [] = None"
| "first_endpoint (Endpoint ep # ds) = Some (calc_dci ep)"
| "first_endpoint (_ # ds) = first_endpoint ds"

definition mouse_class_new :: "nat \<Rightarrow> usb_interface_alternate \<Rightarrow> class_driver option" where
  "mouse_class_new slot_id interface = (case first_endpoint (ua_endpoints interface) of
     None \<Rightarrow> None | Some dci \<Rightarrow> Some \<lparr>kd_slot_id = slot_id, kd_interface = ua_interface_num interface, kd_dci = dci\<rparr>)"

definition keyboard_class_new :: "nat \<Rightarrow> usb_interface_alternate \<Rightarrow> class_driver option" where
  "keyboard_class_new slot_id interface = (case first_endpoint (ua_endpoints interface) of
     None \<Rightarrow> None | Some dci \<Rightarrow> Some \<lparr>kd_slot_id = slot_id, kd_interface = ua_interface_num interface, kd_dci = dci\<rparr>)"

definition class_initialize :: "usb_env \<Rightarrow> class_driver \<Rightarrow> unit usb" where
  "class_initialize env k =
     (let setup = \<lparr>sd_request_type = SetProtocol, sd_value = 0, sd_index = ucast (kd_interface k), sd_length = 0\<rparr>
      in ubind (control_transfer env (kd_slot_id k) setup None) (\<lambda>_. ureturn ()))"

text \<open>The result: the channel of the event and the address of the report.\<close>

definition subscribe_once :: "usb_env \<Rightarrow> class_driver \<Rightarrow> (waiter \<times> addr) usb" where
  "subscribe_once env k w =
     (let buf = en_addr env (w_alloc w);
          trb = Normal \<lparr>no_ioc = True, no_data_buffer_pointer = buf, no_trb_transfer_length = 8\<rparr>
      in rbind (push_transfer_trb (en_sb env) (en_raw env) (w_rings w) (kd_slot_id k) (kd_dci k) trb (w_fresh w)) (\<lambda>(res, s).
         let w = w\<lparr>w_rings := s, w_alloc := w_alloc w + 1, w_fresh := w_fresh w + 1\<rparr> in
         case res of
           Inl e \<Rightarrow> Inr (Inl e, w)
         | Inr r \<Rightarrow> rbind (unwrap r) (\<lambda>recv. Inr (Inr (recv, buf), w\<lparr>w_bells := w_bells w @ [(kd_slot_id k, kd_dci k)]\<rparr>))))"

section \<open>Choosing a driver\<close>

datatype driver = Mouse_Driver class_driver | Keyboard_Driver class_driver

text \<open>
  The part of \<^verbatim>\<open>UsbDriver::main_loop\<close> behind the descriptors: select the first configuration, enable its endpoints and
  start a driver for the first interface, if it is a boot mouse or keyboard and has no driver yet.
\<close>

definition choose_driver :: "nat \<Rightarrow> usb_interface_alternate \<Rightarrow> bool \<Rightarrow> bool \<Rightarrow> driver option res" where
  "choose_driver slot_id intf mouse_free keyboard_free =
     (if mouse_free \<and> ua_class intf = 3 \<and> ua_subclass intf = 1 \<and> ua_protocol intf = 2
      then rbind (unwrap (mouse_class_new slot_id intf)) (\<lambda>k. Inr (Some (Mouse_Driver k)))
      else if keyboard_free \<and> ua_class intf = 3 \<and> ua_subclass intf = 1 \<and> ua_protocol intf = 1
      then rbind (unwrap (keyboard_class_new slot_id intf)) (\<lambda>k. Inr (Some (Keyboard_Driver k)))
      else Inr None)"

definition configure_device :: "usb_env \<Rightarrow> bool \<Rightarrow> bool \<Rightarrow> usb_device \<Rightarrow> (driver option \<times> usb_device) usb" where
  "configure_device env mouse_free keyboard_free dev =
     ubind (set_configuration env dev 0) (\<lambda>dev.
     ubind (enable_endpoints env dev) (\<lambda>_.
     ubind (ulift (index (ud_configs dev) 0)) (\<lambda>conf.
     ubind (ulift (index (uc_interfaces conf) 0)) (\<lambda>intf.
     ubind (ulift (index (ui_alternates intf) 0)) (\<lambda>alt.
     ubind (ulift (choose_driver (ud_slot_id dev) alt mouse_free keyboard_free)) (\<lambda>drv.
     case drv of
       None \<Rightarrow> ureturn (None, dev)
     | Some (Mouse_Driver k) \<Rightarrow> ubind (class_initialize env k) (\<lambda>_. ureturn (drv, dev))
     | Some (Keyboard_Driver k) \<Rightarrow> ubind (class_initialize env k) (\<lambda>_. ureturn (drv, dev))))))))"

section \<open>Addresses and types of endpoints\<close>

lemma calc_dci_value: "calc_dci ep = 2 * (unat (ed_endpoint_addr ep) mod 16) + unat (ed_endpoint_addr ep) div 128"
proof -
  let ?a = "ed_endpoint_addr ep"
  have lt: "unat ?a < 256" using unsigned_less [of ?a, where 'a = nat] by simp
  have "(0b1111 :: u8) = mask 4" by (simp add: mask_eq_exp_minus_1)
  then have m: "unat (?a AND 0b1111) = unat ?a mod 16"
    by (simp only: take_bit_eq_mask [symmetric] unsigned_take_bit_eq) (simp add: take_bit_eq_mod)
  have d: "unat (drop_bit 7 ?a) = unat ?a div 128" by (simp add: unat_drop_bit_eq drop_bit_eq_div unat_div)
  have "unat (2 * (?a AND 0b1111)) = 2 * (unat ?a mod 16)" using m by (simp add: unat_word_ariths)
  moreover have "unat ?a div 128 \<le> 1" using lt by simp
  ultimately show ?thesis using d m by (simp add: calc_dci_def unat_word_ariths Let_def)
qed

lemma calc_dci_bound: "calc_dci ep \<le> 31"
  using calc_dci_value [of ep] unsigned_less [of "ed_endpoint_addr ep", where 'a = nat] by simp

lemma direction_cases: "drop_bit 7 (a :: u8) = 0 \<or> drop_bit 7 a = 1"
proof -
  have "unat (drop_bit 7 a) < 2" using unsigned_less [of a, where 'a = nat] by (simp add: unat_drop_bit_eq drop_bit_eq_div unat_div)
  then have "unat (drop_bit 7 a) = unat (0 :: u8) \<or> unat (drop_bit 7 a) = unat (1 :: u8)" by auto
  then show ?thesis by (simp only: word_unat_eq_iff)
qed

lemma transfer_type_cases: "(t :: u8) AND 0b11 = 0 \<or> t AND 0b11 = 1 \<or> t AND 0b11 = 2 \<or> t AND 0b11 = 3"
proof -
  have "(0b11 :: u8) = mask 2" by (simp add: mask_eq_exp_minus_1)
  then have "unat (t AND 0b11) = unat t mod 4"
    by (simp only: take_bit_eq_mask [symmetric] unsigned_take_bit_eq) (simp add: take_bit_eq_mod)
  moreover have "unat t mod 4 < 4" by simp
  ultimately have "unat (t AND 0b11) = unat (0 :: u8) \<or> unat (t AND 0b11) = unat (1 :: u8) \<or> unat (t AND 0b11) = unat (2 :: u8) \<or> unat (t AND 0b11) = unat (3 :: u8)"
    by auto
  then show ?thesis by (simp only: word_unat_eq_iff)
qed

text \<open>The last branch of the match is never taken.\<close>

definition type_of_endpoint :: "endpoint_descriptor \<Rightarrow> endpoint_type" where
  "type_of_endpoint ep = (if ed_bm_attributes ep AND 0b11 = 0 then Control
     else if bit (ed_endpoint_addr ep) 7 then (if ed_bm_attributes ep AND 0b11 = 1 then IsochIn else if ed_bm_attributes ep AND 0b11 = 2 then BulkIn else InterruptIn)
     else (if ed_bm_attributes ep AND 0b11 = 1 then IsochOut else if ed_bm_attributes ep AND 0b11 = 2 then BulkOut else InterruptOut))"

lemma endpoint_type_total:
  "endpoint_type_of (drop_bit 7 (ed_endpoint_addr ep)) (ed_bm_attributes ep AND 0b11) = Inr (type_of_endpoint ep)"
proof -
  have b: "bit (ed_endpoint_addr ep) 7 = odd (drop_bit 7 (ed_endpoint_addr ep))" by (simp only: bit_iff_odd_drop_bit)
  show ?thesis unfolding type_of_endpoint_def b
    using direction_cases [of "ed_endpoint_addr ep"] transfer_type_cases [of "ed_bm_attributes ep"]
    by (elim disjE) (simp_all add: endpoint_type_of_def)
qed

section \<open>Enabling a list of endpoints\<close>

definition endpoint_calls :: "addr \<Rightarrow> endpoint_descriptor \<Rightarrow> ctx_call list" where
  "endpoint_calls base ep = Set_Add_Context_Flag (calc_dci ep) # map (On_Endpoint (calc_dci ep))
     [Set_Endpoint_Type (type_of_endpoint ep), Set_Max_Packet_Size (ed_max_packet_size ep), Set_Max_Burst_Size 0, Set_TR_Dequeue_Pointer base,
      Set_Dequeue_Cycle_State, Set_Interval (ed_interval ep), Set_Max_Primary_Streams 0, Set_Mult 0, Set_Error_Count 3]"

definition endpoints_of :: "descriptor list \<Rightarrow> endpoint_descriptor list" where
  "endpoints_of ds = concat (map (\<lambda>d. case d of Endpoint ep \<Rightarrow> [ep] | _ \<Rightarrow> []) ds)"

definition enabled :: "trb_gb \<Rightarrow> usb_env \<Rightarrow> nat \<Rightarrow> nat \<Rightarrow> ctx_call list \<Rightarrow> usb_world \<Rightarrow> endpoint_descriptor list \<Rightarrow> ep_state \<Rightarrow> usb_world \<Rightarrow> bool" where
  "enabled gb env slot m calls0 w0 eps s w \<longleftrightarrow>
     s = (calls0 @ concat (map (\<lambda>i. endpoint_calls (en_addr env (w_alloc w0 + i)) (eps ! i)) [0..<length eps]), Max (insert 1 (Suc ` calc_dci ` set eps)))
     \<and> w = w0\<lparr>w_rings := w_rings w, w_alloc := w_alloc w0 + length eps\<rparr> \<and> tr_ring_size (w_rings w) = m + 1
     \<and> (\<forall>e. e \<notin> Pair slot ` calc_dci ` set eps \<longrightarrow> tr_rings (w_rings w) e = tr_rings (w_rings w0) e)
     \<and> (\<forall>d \<in> calc_dci ` set eps. idle gb m (slot, d) w)
     \<and> (distinct (map calc_dci eps) \<longrightarrow> (\<forall>i < length eps. ring_holds gb m (en_addr env (w_alloc w0 + i)) 0 0 (\<lambda>_. 0) (slot, calc_dci (eps ! i)) (w_rings w)))"

lemma enabled_Nil: "tr_ring_size (w_rings w) = m + 1 \<Longrightarrow> enabled gb env slot m calls0 w [] (calls0, 1) w"
  by (simp add: enabled_def)

lemma enabled_framed: "enabled gb env slot m calls0 w0 eps s w \<Longrightarrow> framed (idle gb m) w0 w"
  unfolding framed_def
proof (intro conjI allI impI)
  fix ep
  assume e: "enabled gb env slot m calls0 w0 eps s w" and i: "idle gb m ep w0"
  show "idle gb m ep w"
  proof (cases "ep \<in> Pair slot ` calc_dci ` set eps")
    case False
    then have "tr_rings (w_rings w) ep = tr_rings (w_rings w0) ep" using e by (cases ep) (simp add: enabled_def)
    then show ?thesis using i by (simp add: idle_def ring_holds_def)
  qed (use e in \<open>auto simp: enabled_def\<close>)
next
  assume "enabled gb env slot m calls0 w0 eps s w"
  then obtain r a where "w = w0\<lparr>w_rings := r, w_alloc := a\<rparr>" unfolding enabled_def by blast
  then show "w_dcbaa w = w_dcbaa w0" by simp
qed

lemma enabled_step:
  assumes L: "trb_laws (en_sb env) gb (en_lk env)" and m: "2 \<le> m" and e: "enabled gb env slot m calls0 w0 eps s w"
  shows "\<exists>s' w'. enable_endpoint env slot ep s w = Inr (Inr s', w') \<and> enabled gb env slot m calls0 w0 (eps @ [ep]) s' w'"
proof -
  let ?d = "calc_dci ep"
  let ?n = "length eps"
  let ?a = "en_addr env (w_alloc w0 + ?n)"
  obtain calls entries where s: "s = (calls, entries)" by (cases s) auto
  have f: "tr_ring_size (w_rings w) = m + 1" "calls = calls0 @ concat (map (\<lambda>i. endpoint_calls (en_addr env (w_alloc w0 + i)) (eps ! i)) [0..<?n])"
    "entries = Max (insert 1 (Suc ` calc_dci ` set eps))" and w: "w = w0\<lparr>w_rings := w_rings w, w_alloc := w_alloc w0 + ?n\<rparr>"
    using e by (auto simp: enabled_def s)
  have al: "w_alloc w = w_alloc w0 + ?n" by (subst w) simp
  obtain r where r: "new_ring env slot ?d w = Inr (Inr ?a, w\<lparr>w_rings := r, w_alloc := w_alloc w0 + Suc ?n\<rparr>)"
    "ring_holds gb m ?a 0 0 (\<lambda>_. 0) (slot, ?d) r" "other_rings (slot, ?d) (w_rings w) r"
    using new_ring_run [OF L f(1) m, of slot ?d] by (auto simp: al)
  let ?w = "w\<lparr>w_rings := r, w_alloc := w_alloc w0 + Suc ?n\<rparr>"
  have run: "enable_endpoint env slot ep s w = Inr (Inr (calls @ endpoint_calls ?a ep, max entries (?d + 1)), ?w)"
    using r(1) by (simp add: enable_endpoint_def s Let_def endpoint_type_total endpoint_calls_def calc_dci_def)
  have cm: "map (\<lambda>i. endpoint_calls (en_addr env (w_alloc w0 + i)) ((eps @ [ep]) ! i)) [0..<?n] = map (\<lambda>i. endpoint_calls (en_addr env (w_alloc w0 + i)) (eps ! i)) [0..<?n]"
    by (simp add: nth_append)
  have c: "calls @ endpoint_calls ?a ep = calls0 @ concat (map (\<lambda>i. endpoint_calls (en_addr env (w_alloc w0 + i)) ((eps @ [ep]) ! i)) [0..<length (eps @ [ep])])"
    using f(2) by (simp add: cm)
  have x: "max entries (?d + 1) = Max (insert 1 (Suc ` calc_dci ` set (eps @ [ep])))"
  proof -
    have "insert 1 (Suc ` calc_dci ` set (eps @ [ep])) = insert (Suc ?d) (insert 1 (Suc ` calc_dci ` set eps))" by auto
    then show ?thesis using f(3) by (simp only: Max_insert finite_insert finite_imageI finite_set insert_not_empty not_False_eq_True Suc_eq_plus1 max.commute)
  qed
  have o: "\<forall>e. e \<notin> Pair slot ` calc_dci ` set (eps @ [ep]) \<longrightarrow> tr_rings r e = tr_rings (w_rings w0) e" "tr_ring_size r = m + 1"
    using e r(3) f(1) by (auto simp: enabled_def other_rings_def)
  have id: "idle gb m (slot, d) ?w" if d: "d \<in> calc_dci ` set (eps @ [ep])" for d
  proof (cases "d = ?d")
    case True
    then show ?thesis using r(2) unfolding idle_def by auto
  next
    case False
    then have "idle gb m (slot, d) w" using d e by (auto simp: enabled_def)
    moreover have "tr_rings r (slot, d) = tr_rings (w_rings w) (slot, d)" using r(3) False by (simp add: other_rings_def)
    ultimately show ?thesis by (simp add: idle_def ring_holds_def)
  qed
  have "ring_holds gb m (en_addr env (w_alloc w0 + i)) 0 0 (\<lambda>_. 0) (slot, calc_dci ((eps @ [ep]) ! i)) r"
    if dist: "distinct (map calc_dci (eps @ [ep]))" and i: "i < length (eps @ [ep])" for i
  proof (cases "i = length eps")
    case True
    then show ?thesis using r(2) by simp
  next
    case False
    then have "i < length eps" using i by simp
    moreover have "?d \<notin> calc_dci ` set eps" "calc_dci (eps ! i) \<in> calc_dci ` set eps" using dist \<open>i < length eps\<close> by simp_all
    then have "calc_dci (eps ! i) \<noteq> ?d" by metis
    ultimately show ?thesis using e dist r(3) by (simp add: enabled_def nth_append ring_holds_def other_rings_def)
  qed
  moreover have "?w = w0\<lparr>w_rings := r, w_alloc := w_alloc w0 + length (eps @ [ep])\<rparr>" by (subst w) simp
  ultimately have "enabled gb env slot m calls0 w0 (eps @ [ep]) (calls @ endpoint_calls ?a ep, max entries (?d + 1)) ?w"
    using c x o id by (simp add: enabled_def del: upt_Suc)
  then show ?thesis using run by blast
qed

lemma enabled_descriptors:
  assumes L: "trb_laws (en_sb env) gb (en_lk env)" and m: "2 \<le> m" and e: "enabled gb env slot m calls0 w0 eps s w"
  shows "\<exists>s' w'. ufold (enable_descriptor env slot) ds s w = Inr (Inr s', w') \<and> enabled gb env slot m calls0 w0 (eps @ endpoints_of ds) s' w'"
  using e
proof (induction ds arbitrary: eps s w)
  case Nil
  then show ?case by (simp add: endpoints_of_def)
next
  case (Cons d ds)
  show ?case
  proof (cases d)
    case (Endpoint ep)
    obtain s1 w1 where s1: "enable_endpoint env slot ep s w = Inr (Inr s1, w1)" "enabled gb env slot m calls0 w0 (eps @ [ep]) s1 w1"
      using enabled_step [OF L m Cons.prems] by blast
    then show ?thesis using Cons.IH [OF s1(2)] by (simp add: Endpoint enable_descriptor_def endpoints_of_def)
  qed (use Cons.IH [OF Cons.prems] in \<open>simp_all add: enable_descriptor_def endpoints_of_def\<close>)
qed

definition selection_ok :: "usb_device \<Rightarrow> usb_interface \<Rightarrow> bool" where
  "selection_ok dev intf \<longleftrightarrow> unat (ui_interface_num intf) < length (ud_alternates_selected dev)
     \<and> unat (ud_alternates_selected dev ! unat (ui_interface_num intf)) < length (ui_alternates intf)"

definition selected_endpoints :: "usb_device \<Rightarrow> usb_interface list \<Rightarrow> endpoint_descriptor list" where
  "selected_endpoints dev intfs =
     concat (map (\<lambda>intf. endpoints_of (ua_endpoints (ui_alternates intf ! unat (ud_alternates_selected dev ! unat (ui_interface_num intf))))) intfs)"

lemma enabled_interfaces:
  assumes L: "trb_laws (en_sb env) gb (en_lk env)" and m: "2 \<le> m" and e: "enabled gb env (ud_slot_id dev) m calls0 w0 eps s w"
    and ok: "\<forall>intf \<in> set intfs. selection_ok dev intf"
  shows "\<exists>s' w'. ufold (enable_interface env dev) intfs s w = Inr (Inr s', w')
    \<and> enabled gb env (ud_slot_id dev) m calls0 w0 (eps @ selected_endpoints dev intfs) s' w'"
  using e ok
proof (induction intfs arbitrary: eps s w)
  case Nil
  then show ?case by (simp add: selected_endpoints_def)
next
  case (Cons intf intfs)
  let ?alt = "ui_alternates intf ! unat (ud_alternates_selected dev ! unat (ui_interface_num intf))"
  obtain s1 w1 where s1: "ufold (enable_descriptor env (ud_slot_id dev)) (ua_endpoints ?alt) s w = Inr (Inr s1, w1)"
    "enabled gb env (ud_slot_id dev) m calls0 w0 (eps @ endpoints_of (ua_endpoints ?alt)) s1 w1"
    using enabled_descriptors [OF L m Cons.prems(1)] by blast
  have "enable_interface env dev intf s w = Inr (Inr s1, w1)"
    using Cons.prems(2) s1(1) by (simp add: enable_interface_def selection_ok_def index_in)
  then show ?case using Cons.IH [OF s1(2)] Cons.prems(2) by (simp add: selected_endpoints_def)
qed

abbreviation slot_calls :: "u8 \<Rightarrow> u8 \<Rightarrow> ctx_call list" where
  "slot_calls port speed \<equiv> [Set_Add_Context_Flag 0, Set_Route_String 0, Set_Root_Hub_Port_Number port, Set_Interrupter_Target 0, Set_Speed speed]"

definition selected_config :: "usb_device \<Rightarrow> usb_interface list \<Rightarrow> bool" where
  "selected_config dev intfs \<longleftrightarrow> (\<exists>c. ud_config_selected dev = Some c \<and> c < length (ud_configs dev) \<and> uc_interfaces (ud_configs dev ! c) = intfs)
     \<and> (\<forall>intf \<in> set intfs. selection_ok dev intf)"

lemma enable_endpoints_run:
  assumes "trb_laws (en_sb env) gb (en_lk env)" "2 \<le> m" "tr_ring_size (w_rings w) = m + 1" "selected_config dev intfs"
    and "dc_contexts (w_dcbaa w) (ud_slot_id dev) = Some ctx" "en_slot_ctx env ctx = (port, speed)"
  shows "\<exists>calls entries w'. enable_endpoints env dev w
      = ubind (run_command env (ConfigureEndpoint (calls @ [Set_Context_Entries (of_nat entries)]) (of_nat (ud_slot_id dev)))) (\<lambda>_. ureturn ()) w'
    \<and> enabled gb env (ud_slot_id dev) m (slot_calls port speed) w (selected_endpoints dev intfs) (calls, entries) w'"
proof -
  have ok: "\<forall>intf \<in> set intfs. selection_ok dev intf" using assms(4) by (simp add: selected_config_def)
  obtain calls entries w' where s: "ufold (enable_interface env dev) intfs (slot_calls port speed, 1) w = Inr (Inr (calls, entries), w')"
    "enabled gb env (ud_slot_id dev) m (slot_calls port speed) w ([] @ selected_endpoints dev intfs) (calls, entries) w'"
    using enabled_interfaces [OF assms(1,2) enabled_Nil [OF assms(3)] ok] by (metis surj_pair)
  have "enable_endpoints env dev w
      = ubind (run_command env (ConfigureEndpoint (calls @ [Set_Context_Entries (of_nat entries)]) (of_nat (ud_slot_id dev)))) (\<lambda>_. ureturn ()) w'"
    using s(1) assms(4-6) by (auto simp: enable_endpoints_def selected_config_def index_in get_context_at_def)
  then show ?thesis using s(2) by auto
qed

lemma enabled_inv: "\<lbrakk>enabled gb env slot m calls0 w0 eps s w; usb_inv gb m hc env n w0\<rbrakk> \<Longrightarrow> usb_inv gb m hc env n w"
proof -
  assume e: "enabled gb env slot m calls0 w0 eps s w" and I: "usb_inv gb m hc env n w0"
  obtain r a where "w = w0\<lparr>w_rings := r, w_alloc := a\<rparr>" using e unfolding enabled_def by blast
  moreover have "tr_ring_size (w_rings w) = m + 1" using e by (simp add: enabled_def)
  ultimately show ?thesis using I by (simp add: usb_inv_def room_def)
qed

lemma enable_endpoints_ok:
  assumes I: "usb_inv gb m hc env (Suc n) w" and sel: "selected_config dev intfs" and ctx: "dc_contexts (w_dcbaa w) (ud_slot_id dev) = Some ctx"
  shows "\<exists>w'. enable_endpoints env dev w = Inr (Inr (), w') \<and> usb_inv gb m hc env n w' \<and> framed (idle gb m) w w'
    \<and> (\<forall>ep \<in> set (selected_endpoints dev intfs). idle gb m (ud_slot_id dev, calc_dci ep) w')"
proof -
  have f: "trb_laws (en_sb env) gb (en_lk env)" "2 \<le> m" "tr_ring_size (w_rings w) = m + 1" using I by (auto simp: usb_inv_def)
  obtain port speed where ps: "en_slot_ctx env ctx = (port, speed)" by fastforce
  obtain calls entries w1 where w1: "enable_endpoints env dev w
      = ubind (run_command env (ConfigureEndpoint (calls @ [Set_Context_Entries (of_nat entries)]) (of_nat (ud_slot_id dev)))) (\<lambda>_. ureturn ()) w1"
    "enabled gb env (ud_slot_id dev) m (slot_calls port speed) w (selected_endpoints dev intfs) (calls, entries) w1"
    using enable_endpoints_run [OF f sel ctx ps] by blast
  obtain w2 ptr where w2: "run_command env (ConfigureEndpoint (calls @ [Set_Context_Entries (of_nat entries)]) (of_nat (ud_slot_id dev))) w1 = Inr (Inr ptr, w2)"
    "usb_inv gb m hc env n w2" "framed (idle gb m) w1 w2" using command_provided [OF enabled_inv [OF w1(2) I]] by blast
  have "enable_endpoints env dev w = Inr (Inr (), w2)" using w1(1) w2(1) by simp
  moreover have "\<forall>ep \<in> set (selected_endpoints dev intfs). idle gb m (ud_slot_id dev, calc_dci ep) w2"
    using w1(2) framed_idle [OF w2(3)] by (auto simp: enabled_def)
  ultimately show ?thesis using w2(2) framed_trans [OF enabled_framed [OF w1(2)] w2(3)] by blast
qed

context usb_service
begin

lemma set_configuration_ok:
  assumes "ready n w" "idle (ud_slot_id dev, 1) w" "c < length (ud_configs dev)"
  shows "\<exists>w'. set_configuration env dev c w = Inr (Inr (dev\<lparr>ud_config_selected := Some c,
      ud_alternates_selected := ud_alternates_selected dev @ replicate (length (uc_interfaces (ud_configs dev ! c))) 0\<rparr>), w') \<and> ready n w' \<and> framed idle w w'"
proof -
  let ?sd = "\<lparr>sd_request_type = SetConfigutation, sd_value = ucast (uc_configuration_val (ud_configs dev ! c)), sd_index = 0, sd_length = 0\<rparr>"
  obtain w' where "control_transfer env (ud_slot_id dev) ?sd None w = Inr (Inr (reply (ud_slot_id dev) ?sd (bytes_of None)), w')" "ready n w'" "framed idle w w'"
    using control_law [OF assms(1,2), of ?sd None] by (auto simp: request_ok_def)
  then show ?thesis using assms(3) by (intro exI [of _ w']) (simp add: set_configuration_def index_in)
qed

lemma class_initialize_ok:
  assumes "ready n w" "idle (kd_slot_id k, 1) w"
  shows "\<exists>w'. class_initialize env k w = Inr (Inr (), w') \<and> ready n w' \<and> framed idle w w'"
proof -
  let ?sd = "\<lparr>sd_request_type = SetProtocol, sd_value = 0, sd_index = ucast (kd_interface k), sd_length = 0\<rparr>"
  obtain w' where "control_transfer env (kd_slot_id k) ?sd None w = Inr (Inr (reply (kd_slot_id k) ?sd (bytes_of None)), w')" "ready n w'" "framed idle w w'"
    using control_law [OF assms, of ?sd None] by (auto simp: request_ok_def)
  then show ?thesis by (intro exI [of _ w']) (simp add: class_initialize_def)
qed

end

text \<open>The device after its first configuration was selected.\<close>

definition configured :: "nat \<Rightarrow> usb_configuration list \<Rightarrow> usb_device" where
  "configured slot confs = \<lparr>ud_slot_id = slot, ud_configs = confs, ud_config_selected = Some 0,
     ud_alternates_selected = replicate (length (uc_interfaces (confs ! 0))) 0\<rparr>"

lemma select_first:
  assumes "usb_inv gb m hc env n w" "idle gb m (slot, 1) w"
  shows "\<exists>w'. set_configuration env (usb_device_new slot (conf # confs)) 0 w = Inr (Inr (configured slot (conf # confs)), w')
    \<and> usb_inv gb m hc env n w' \<and> framed (idle gb m) w w'"
  using xhc.set_configuration_ok [OF assms(1), of "usb_device_new slot (conf # confs)" 0] assms(2)
  by (simp add: usb_device_new_def configured_def)

text \<open>The endpoints of the first settings of a configuration.\<close>

definition first_endpoints :: "usb_configuration \<Rightarrow> endpoint_descriptor list" where
  "first_endpoints conf = concat (map (\<lambda>i. endpoints_of (ua_endpoints (hd (ui_alternates i)))) (uc_interfaces conf))"

definition numbered :: "usb_configuration \<Rightarrow> bool" where
  "numbered conf \<longleftrightarrow> (\<forall>i \<in> set (uc_interfaces conf). unat (ui_interface_num i) < length (uc_interfaces conf) \<and> ui_alternates i \<noteq> [])"

lemma configured_selected:
  assumes "numbered conf"
  shows "selected_config (configured slot (conf # confs)) (uc_interfaces conf)"
    and "selected_endpoints (configured slot (conf # confs)) (uc_interfaces conf) = first_endpoints conf"
proof -
  show "selected_config (configured slot (conf # confs)) (uc_interfaces conf)"
    using assms by (auto simp: selected_config_def configured_def selection_ok_def numbered_def)
  show "selected_endpoints (configured slot (conf # confs)) (uc_interfaces conf) = first_endpoints conf"
    unfolding selected_endpoints_def first_endpoints_def
    by (rule arg_cong [where f = concat], rule map_cong) (use assms in \<open>auto simp: hd_conv_nth numbered_def configured_def\<close>)
qed

lemma first_endpoint_eq: "first_endpoint ds = (case endpoints_of ds of [] \<Rightarrow> None | ep # _ \<Rightarrow> Some (calc_dci ep))"
  by (induction ds rule: first_endpoint.induct) (auto simp: endpoints_of_def split: list.splits)

text \<open>Selecting the first configuration and enabling its endpoints.\<close>

lemma configure_run:
  assumes I: "usb_inv gb m hc env (Suc n) w" and idle: "idle gb m (slot, 1) w" and ctx: "dc_contexts (w_dcbaa w) slot = Some ctx" and num: "numbered conf"
  shows "\<exists>w'. configure_device env mf kf (usb_device_new slot (conf # confs)) w
      = ubind (ulift (index (uc_interfaces conf) 0)) (\<lambda>intf. ubind (ulift (index (ui_alternates intf) 0)) (\<lambda>alt.
        ubind (ulift (choose_driver slot alt mf kf)) (\<lambda>drv. case drv of None \<Rightarrow> ureturn (None, configured slot (conf # confs))
          | Some (Mouse_Driver k) \<Rightarrow> ubind (class_initialize env k) (\<lambda>_. ureturn (drv, configured slot (conf # confs)))
          | Some (Keyboard_Driver k) \<Rightarrow> ubind (class_initialize env k) (\<lambda>_. ureturn (drv, configured slot (conf # confs)))))) w'
    \<and> usb_inv gb m hc env n w' \<and> framed (idle gb m) w w' \<and> (\<forall>ep \<in> set (first_endpoints conf). idle gb m (slot, calc_dci ep) w')"
proof -
  obtain w1 where w1: "set_configuration env (usb_device_new slot (conf # confs)) 0 w = Inr (Inr (configured slot (conf # confs)), w1)"
    "usb_inv gb m hc env (Suc n) w1" "framed (idle gb m) w w1" using select_first [OF I idle] by blast
  let ?dev = "configured slot (conf # confs)"
  have slot: "ud_slot_id ?dev = slot" "ud_configs ?dev = conf # confs" by (simp_all add: configured_def)
  have "dc_contexts (w_dcbaa w1) (ud_slot_id ?dev) = Some ctx" using w1(3) ctx slot by (simp add: framed_def)
  from enable_endpoints_ok [OF w1(2) configured_selected(1) [OF num] this] obtain w2 where
    w2: "enable_endpoints env ?dev w1 = Inr (Inr (), w2)" "usb_inv gb m hc env n w2" "framed (idle gb m) w1 w2"
      "\<forall>ep \<in> set (first_endpoints conf). idle gb m (slot, calc_dci ep) w2"
    unfolding slot configured_selected(2) [OF num] by blast
  then show ?thesis using w1(1) framed_trans [OF w1(3) w2(3)]
    by (intro exI [of _ w2]) (simp add: configure_device_def slot index_def)
qed

lemma configure_mouse:
  assumes "usb_inv gb m hc env (Suc n) w" "idle gb m (slot, 1) w" "dc_contexts (w_dcbaa w) slot = Some ctx" "numbered conf"
    and "uc_interfaces conf = intf # intfs" "ui_alternates intf = alt # alts" "(ua_class alt, ua_subclass alt, ua_protocol alt) = (3, 1, 2)"
    and "endpoints_of (ua_endpoints alt) = ep # eps"
  shows "\<exists>dev w'. configure_device env True keyboard_free (usb_device_new slot (conf # confs)) w
      = Inr (Inr (Some (Mouse_Driver \<lparr>kd_slot_id = slot, kd_interface = ua_interface_num alt, kd_dci = calc_dci ep\<rparr>), dev), w')
    \<and> usb_inv gb m hc env n w' \<and> idle gb m (slot, 1) w' \<and> idle gb m (slot, calc_dci ep) w'"
proof -
  let ?k = "\<lparr>kd_slot_id = slot, kd_interface = ua_interface_num alt, kd_dci = calc_dci ep\<rparr>"
  have ch: "choose_driver slot alt True keyboard_free = Inr (Some (Mouse_Driver ?k))"
    using assms(7,8) by (simp add: choose_driver_def mouse_class_new_def first_endpoint_eq)
  obtain w1 where w1: "configure_device env True keyboard_free (usb_device_new slot (conf # confs)) w
      = ubind (class_initialize env ?k) (\<lambda>_. ureturn (Some (Mouse_Driver ?k), configured slot (conf # confs))) w1"
    "usb_inv gb m hc env n w1" "framed (idle gb m) w w1" "\<forall>ep \<in> set (first_endpoints conf). idle gb m (slot, calc_dci ep) w1"
    using configure_run [OF assms(1-4), of True keyboard_free confs] assms(5,6) ch by (auto simp: index_def)
  have ep: "ep \<in> set (first_endpoints conf)" using assms(5,6,8) by (simp add: first_endpoints_def)
  obtain w2 where w2: "class_initialize env ?k w1 = Inr (Inr (), w2)" "usb_inv gb m hc env n w2" "framed (idle gb m) w1 w2"
    using xhc.class_initialize_ok [OF w1(2), of ?k] framed_idle [OF w1(3) assms(2)] by auto
  then show ?thesis using w1 ep framed_idle [OF w2(3)] framed_idle [OF w1(3) assms(2)] by auto
qed

section \<open>Properties\<close>

text \<open>
  Enabling the endpoints of the selected configuration: the input context gets, for each endpoint of the selected
  settings in order, its flag, type, packet size and the address of its transfer ring, the dequeue pointer before the
  cycle state; the number of entries covers the largest endpoint. Each endpoint gets an empty transfer ring at the
  address that the context has, and the rings of other devices are left alone. Then exactly this context is handed to
  the controller.
\<close>

theorem enable_endpoints_correct:
  assumes "trb_laws (en_sb env) gb (en_lk env)" "2 \<le> m" "tr_ring_size (w_rings w) = m + 1" "selected_config dev intfs"
    and "dc_contexts (w_dcbaa w) (ud_slot_id dev) = Some ctx" "en_slot_ctx env ctx = (port, speed)" "eps = selected_endpoints dev intfs"
  shows "\<exists>w'. enable_endpoints env dev w = ubind (run_command env (ConfigureEndpoint
      ([Set_Add_Context_Flag 0, Set_Route_String 0, Set_Root_Hub_Port_Number port, Set_Interrupter_Target 0, Set_Speed speed]
        @ concat (map (\<lambda>i. endpoint_calls (en_addr env (w_alloc w + i)) (eps ! i)) [0..<length eps])
        @ [Set_Context_Entries (of_nat (Max (insert 1 (Suc ` calc_dci ` set eps))))]) (of_nat (ud_slot_id dev)))) (\<lambda>_. ureturn ()) w'
    \<and> w_cmd w' = w_cmd w \<and> (\<forall>e. fst e \<noteq> ud_slot_id dev \<longrightarrow> tr_rings (w_rings w') e = tr_rings (w_rings w) e)
    \<and> (distinct (map calc_dci eps) \<longrightarrow> (\<forall>i < length eps. ring_holds gb m (en_addr env (w_alloc w + i)) 0 0 (\<lambda>_. 0) (ud_slot_id dev, calc_dci (eps ! i)) (w_rings w')))"
proof -
  obtain calls entries w' where s: "enable_endpoints env dev w
      = ubind (run_command env (ConfigureEndpoint (calls @ [Set_Context_Entries (of_nat entries)]) (of_nat (ud_slot_id dev)))) (\<lambda>_. ureturn ()) w'"
    "enabled gb env (ud_slot_id dev) m (slot_calls port speed) w eps (calls, entries) w'"
    using enable_endpoints_run [OF assms(1-6)] assms(7) by blast
  obtain r a where "w' = w\<lparr>w_rings := r, w_alloc := a\<rparr>" using s(2) unfolding enabled_def by blast
  moreover have "e \<notin> Pair (ud_slot_id dev) ` calc_dci ` set eps" if "fst e \<noteq> ud_slot_id dev" for e using that by auto
  ultimately show ?thesis using s by (intro exI [of _ w']) (auto simp: enabled_def)
qed

text \<open>
  A boot mouse is driven: when the interfaces are numbered from zero and the first one is a boot mouse with an
  endpoint, configuring the device succeeds with one command and yields a mouse driver on the first endpoint, whose
  ring is empty and ready for requests, as is the default pipe.
\<close>

theorem boot_mouse_driven:
  assumes "usb_inv gb m hc env (Suc n) w" "idle gb m (slot, 1) w" "dc_contexts (w_dcbaa w) slot = Some ctx" "numbered conf"
    and "uc_interfaces conf = intf # intfs" "ui_alternates intf = alt # alts" "(ua_class alt, ua_subclass alt, ua_protocol alt) = (3, 1, 2)"
    and "endpoints_of (ua_endpoints alt) = ep # eps"
  shows "\<exists>dev w'. configure_device env True keyboard_free (usb_device_new slot (conf # confs)) w
      = Inr (Inr (Some (Mouse_Driver \<lparr>kd_slot_id = slot, kd_interface = ua_interface_num alt, kd_dci = calc_dci ep\<rparr>), dev), w')
    \<and> usb_inv gb m hc env n w' \<and> idle gb m (slot, 1) w' \<and> idle gb m (slot, calc_dci ep) w'"
  using assms by (rule configure_mouse)

text \<open>
  A device whose first interface does not have a number below the number of its interfaces stops the kernel: the
  number is used as an index into the list of selected settings.
\<close>

theorem interface_number_panics:
  assumes "usb_inv gb m hc env n w" "idle gb m (slot, 1) w" "dc_contexts (w_dcbaa w) slot = Some ctx"
    and "uc_interfaces conf = intf # intfs" "length (uc_interfaces conf) \<le> unat (ui_interface_num intf)"
  shows "configure_device env mouse_free keyboard_free (usb_device_new slot [conf]) w = Inl IndexOutOfBounds"
proof -
  obtain w1 where w1: "set_configuration env (usb_device_new slot [conf]) 0 w = Inr (Inr (configured slot [conf]), w1)" "framed (idle gb m) w w1"
    using select_first [OF assms(1,2), of conf "[]"] by blast
  obtain port speed where ps: "en_slot_ctx env ctx = (port, speed)" by fastforce
  have "enable_endpoints env (configured slot [conf]) w1 = Inl IndexOutOfBounds"
    using w1(2) assms(3-5) ps by (simp add: enable_endpoints_def get_context_at_def framed_def configured_def index_def enable_interface_def)
  then show ?thesis using w1(1) by (simp add: configure_device_def)
qed

text \<open>
  A configuration whose first descriptor is not that of an interface, such as the association descriptor of a
  composite device, is read as one without interfaces, and configuring the device stops the kernel.
\<close>

theorem association_descriptor_panics:
  assumes "usb_inv gb m hc env (Suc n) w" "idle gb m (slot, 1) w" "dc_contexts (w_dcbaa w) slot = Some ctx" "\<not> is_interface d"
  shows "\<exists>conf. construct_configuration g (Configuration c # d # ds) = Some (Some conf)
    \<and> configure_device env mouse_free keyboard_free (usb_device_new slot [conf]) w = Inl IndexOutOfBounds"
proof -
  let ?conf = "usb_configuration_new g c []"
  have "construct_interface g (d # ds) = None" using assms(4) by (cases d) (auto simp: construct_interface_def)
  then have "construct_configuration g (Configuration c # d # ds) = Some (Some ?conf)"
    by (simp add: construct_configuration_def configuration_loop.simps)
  moreover have "numbered ?conf" "uc_interfaces ?conf = []" by (simp_all add: numbered_def usb_configuration_new_def)
  then have "configure_device env mouse_free keyboard_free (usb_device_new slot [?conf]) w = Inl IndexOutOfBounds"
    using configure_run [OF assms(1-3), of ?conf mouse_free keyboard_free "[]"] by (auto simp: index_def)
  ultimately show ?thesis by blast
qed

section \<open>Examples\<close>

definition mouse_alternate :: usb_interface_alternate where
  "mouse_alternate = usb_interface_alternate_new byte_get mouse_interface [Hid [9, 33, 0x11, 1, 0, 1, 34, 52, 0], Endpoint mouse_endpoint]"

definition mouse_configuration :: "u8 \<Rightarrow> usb_configuration" where
  "mouse_configuration n = usb_configuration_new byte_get [9, 2, 34, 0, 1, 1, 0, 0xa0, 50]
     [\<lparr>ui_alternates = [mouse_alternate], ui_interface_num = n\<rparr>]"

lemma mouse_fields: "ua_class mouse_alternate = 3" "ua_subclass mouse_alternate = 1" "ua_protocol mouse_alternate = 2" "ua_interface_num mouse_alternate = 0"
  "endpoints_of (ua_endpoints mouse_alternate) = [mouse_endpoint]" "uc_interfaces (mouse_configuration n) = [\<lparr>ui_alternates = [mouse_alternate], ui_interface_num = n\<rparr>]"
  "calc_dci mouse_endpoint = 3"
  by (simp_all add: mouse_alternate_def usb_interface_alternate_new_def interface_class_def interface_subclass_def interface_protocol_def
      interface_number_def byte_get_def mouse_interface_def endpoints_of_def mouse_configuration_def usb_configuration_new_def calc_dci_value mouse_endpoint_def)

text \<open>A state in which the device in slot 1 has its context and its default pipe.\<close>

definition plain_hc :: controller where
  "plain_hc = example_hc (\<lambda>_ _ buf. buf)"

definition addressed_world :: "controller \<Rightarrow> usb_world res" where
  "addressed_world hc = rbind (init_command_ring example_lk 4096 32) (\<lambda>(c, _).
     rbind (new_ring (example_env hc) 1 1 (initial_world 8 c)) (\<lambda>(_, w). rbind (new_context (example_env hc) 1 w) (\<lambda>(_, w). Inr w)))"

lemma addressed_ok:
  "\<exists>w ctx. addressed_world (example_hc rep) = Inr w \<and> usb_inv bit 31 (example_hc rep) (example_env (example_hc rep)) 30 w \<and> idle bit 31 (1, 1) w
     \<and> dc_contexts (w_dcbaa w) 1 = Some ctx \<and> w_alloc w = 2"
proof -
  obtain c w where w: "init_command_ring example_lk 4096 32 = Inr (c, 4096)" "new_ring (example_env (example_hc rep)) 1 1 (initial_world 8 c) = Inr (Inr 4096, w)"
    "usb_inv bit 31 (example_hc rep) (example_env (example_hc rep)) 30 w" "idle bit 31 (1, 1) w" using example_idle by blast
  have d: "w_dcbaa w = w_dcbaa (initial_world 8 c)" "w_alloc w = 1" using w(2)
    by (auto simp: new_ring_def init_ring_at_def initial_world_def)
  then have "1 < length (dc_array (w_dcbaa w))" by (simp add: initial_world_def)
  from xhc.context_law [OF w(3) this] obtain w' where w': "new_context (example_env (example_hc rep)) 1 w = Inr (Inr (), w')"
    "usb_inv bit 31 (example_hc rep) (example_env (example_hc rep)) 30 w'" "idle bit 31 (1, 1) w'"
    "dc_contexts (w_dcbaa w') 1 = Some (en_addr (example_env (example_hc rep)) (w_alloc w))" using w(4) by blast
  moreover have "w_alloc w' = 2" using w'(1) d(2) by (auto simp: new_context_def)
  ultimately show ?thesis using w(1,2) by (auto simp: addressed_world_def)
qed

theorem boot_mouse_driven_witness:
  "\<exists>w dev w'. addressed_world plain_hc = Inr w
    \<and> configure_device (example_env plain_hc) True True (usb_device_new 1 [mouse_configuration 0]) w
      = Inr (Inr (Some (Mouse_Driver \<lparr>kd_slot_id = 1, kd_interface = 0, kd_dci = 3\<rparr>), dev), w')"
proof -
  obtain w ctx where w: "addressed_world plain_hc = Inr w" "usb_inv bit 31 plain_hc (example_env plain_hc) (Suc 29) w" "idle bit 31 (1, 1) w" "dc_contexts (w_dcbaa w) 1 = Some ctx"
    using addressed_ok unfolding plain_hc_def by fastforce
  have "numbered (mouse_configuration 0)" by (simp add: numbered_def mouse_fields)
  from boot_mouse_driven [OF w(2-4) this] show ?thesis using w(1) by (fastforce simp: mouse_fields)
qed

theorem enable_endpoints_correct_witness:
  "\<exists>w w'. addressed_world plain_hc = Inr w \<and> enable_endpoints (example_env plain_hc) (configured 1 [mouse_configuration 0]) w
    = ubind (run_command (example_env plain_hc) (ConfigureEndpoint ([Set_Add_Context_Flag 0, Set_Route_String 0, Set_Root_Hub_Port_Number 1, Set_Interrupter_Target 0, Set_Speed 2]
        @ endpoint_calls 12288 mouse_endpoint @ [Set_Context_Entries 4]) 1)) (\<lambda>_. ureturn ()) w'"
proof -
  obtain w ctx where w: "addressed_world plain_hc = Inr w" "usb_inv bit 31 plain_hc (example_env plain_hc) 30 w" "dc_contexts (w_dcbaa w) 1 = Some ctx" "w_alloc w = 2"
    using addressed_ok unfolding plain_hc_def by blast
  have f: "trb_laws (en_sb (example_env plain_hc)) bit (en_lk (example_env plain_hc))" "(2 :: nat) \<le> 31" "tr_ring_size (w_rings w) = 31 + 1"
    using w(2) by (auto simp: usb_inv_def)
  have n: "numbered (mouse_configuration 0)" by (simp add: numbered_def mouse_fields)
  have c: "dc_contexts (w_dcbaa w) (ud_slot_id (configured 1 [mouse_configuration 0])) = Some ctx" "en_slot_ctx (example_env plain_hc) ctx = (1, 2)"
    using w(3) by (simp_all add: configured_def example_env_def)
  have e: "[mouse_endpoint] = selected_endpoints (configured 1 [mouse_configuration 0]) (uc_interfaces (mouse_configuration 0))"
    using configured_selected(2) [OF n] by (simp add: first_endpoints_def mouse_fields)
  have a: "en_addr (example_env plain_hc) (w_alloc w) = 12288" "ud_slot_id (configured slot [mouse_configuration 0]) = slot" for slot
    using w(4) by (simp_all add: example_env_def configured_def)
  show ?thesis using w(1) enable_endpoints_correct [OF f configured_selected(1) [OF n] c e] by (auto simp: a mouse_fields)
qed

theorem interface_number_panics_witness:
  "\<exists>w. addressed_world plain_hc = Inr w
    \<and> configure_device (example_env plain_hc) True True (usb_device_new 1 [mouse_configuration 2]) w = Inl IndexOutOfBounds"
proof -
  obtain w ctx where w: "addressed_world plain_hc = Inr w" "usb_inv bit 31 plain_hc (example_env plain_hc) 30 w" "idle bit 31 (1, 1) w" "dc_contexts (w_dcbaa w) 1 = Some ctx"
    using addressed_ok unfolding plain_hc_def by blast
  have "configure_device (example_env plain_hc) True True (usb_device_new 1 [mouse_configuration 2]) w = Inl IndexOutOfBounds"
    by (rule interface_number_panics [OF w(2-4) mouse_fields(6)]) (simp add: mouse_fields)
  then show ?thesis using w(1) by blast
qed

theorem association_descriptor_panics_witness:
  "\<exists>w conf. addressed_world plain_hc = Inr w
    \<and> construct_configuration byte_get (Configuration [9, 2, 42, 0, 1, 1, 0, 0xa0, 50] # Unknown [8, 11, 0, 2, 3, 1, 1, 0] # tl (mouse_descriptors 42))
      = Some (Some conf)
    \<and> configure_device (example_env plain_hc) True True (usb_device_new 1 [conf]) w = Inl IndexOutOfBounds"
proof -
  obtain w ctx where w: "addressed_world plain_hc = Inr w" "usb_inv bit 31 plain_hc (example_env plain_hc) (Suc 29) w" "idle bit 31 (1, 1) w" "dc_contexts (w_dcbaa w) 1 = Some ctx"
    using addressed_ok unfolding plain_hc_def by fastforce
  show ?thesis using w(1) association_descriptor_panics [OF w(2-4), of "Unknown [8, 11, 0, 2, 3, 1, 1, 0]" byte_get "[9, 2, 42, 0, 1, 1, 0, 0xa0, 50]" "tl (mouse_descriptors 42)" True True]
    by auto
qed

end
