(* ===== verification/Usb_Init.thy ===== *)
theory Usb_Init
  imports Usb_World
begin

text \<open>
  The task that addresses new devices, \<^verbatim>\<open>kernel/src/usb/action/init_device.rs\<close>. What the registers of a port show is an
  argument; what is written to them is the list of the calls of the setters of the \<^verbatim>\<open>xhci\<close> crate, in order. The slots
  that the task announces to the driver are a result.
\<close>

section \<open>Addressing a device\<close>

definition config_slot_context :: "(nat \<Rightarrow> u8) \<Rightarrow> nat \<Rightarrow> ctx_call list res" where
  "config_slot_context port_speed port_id =
     (let speed = port_speed port_id in
      if unat (of_nat port_id :: u8) + 1 < 256
      then Inr [Set_Root_Hub_Port_Number (of_nat port_id + 1), Set_Route_String 0, Set_Context_Entries 1, Set_Speed speed]
      else Inl ArithOverflow)"

definition config_default_control_pipe :: "(nat \<Rightarrow> u8) \<Rightarrow> nat \<Rightarrow> addr \<Rightarrow> ctx_call list" where
  "config_default_control_pipe port_speed port_id tr_deque_ptr =
     (let speed = port_speed port_id;
          max_packet_size = (if speed = 1 then 64 else if speed = 2 then 8 else if speed = 3 then 64 else if speed = 4 then 512 else 8)
      in map (On_Endpoint 1)
           [Set_Endpoint_Type Control, Set_Max_Packet_Size max_packet_size, Set_Max_Burst_Size 0, Set_TR_Dequeue_Pointer tr_deque_ptr,
            Set_Dequeue_Cycle_State, Set_Interval 0, Set_Max_Primary_Streams 0, Set_Mult 0, Set_Error_Count 3])"

definition prepare_input_ctx_for_address_device :: "(nat \<Rightarrow> u8) \<Rightarrow> nat \<Rightarrow> addr \<Rightarrow> ctx_call list res" where
  "prepare_input_ctx_for_address_device port_speed port_id deque_ptr =
     rbind (config_slot_context port_speed port_id) (\<lambda>slot_calls.
     Inr ([Set_Add_Context_Flag 0, Set_Add_Context_Flag 1] @ slot_calls @ config_default_control_pipe port_speed port_id deque_ptr))"

definition enable_slot_async :: "usb_env \<Rightarrow> nat usb" where
  "enable_slot_async env = ubind (run_command env EnableSlot) (\<lambda>c. ureturn (unat (cc_slot_id c)))"

definition address_device_async :: "usb_env \<Rightarrow> (nat \<Rightarrow> u8) \<Rightarrow> nat \<Rightarrow> nat \<Rightarrow> bool \<Rightarrow> unit usb" where
  "address_device_async env port_speed port_id slot_id bsr =
     ubind (new_context env slot_id) (\<lambda>_.
     ubind (new_ring env slot_id 1) (\<lambda>trf_ring_ptr.
     ubind (ulift (prepare_input_ctx_for_address_device port_speed port_id trf_ring_ptr)) (\<lambda>input_ctx.
     ubind (run_command env (AddressDevice input_ctx (of_nat slot_id) bsr)) (\<lambda>result.
     if cc_success result then ureturn () else uthrow (AddressDeviceCommandFailed (cc_raw result))))))"

text \<open>The result is the slot that is sent to the driver.\<close>

definition init_device_async :: "usb_env \<Rightarrow> (nat \<Rightarrow> u8) \<Rightarrow> nat \<Rightarrow> nat usb" where
  "init_device_async env port_speed port_id =
     ubind (enable_slot_async env) (\<lambda>slot_id.
     ubind (address_device_async env port_speed port_id slot_id False) (\<lambda>_.
     ureturn slot_id))"

section \<open>The ports\<close>

datatype portsc_call =
    Set_0_Connect_Status_Change | Set_0_Over_Current_Change | Set_0_Port_Config_Error_Change | Set_0_Port_Enabled_Disabled
  | Set_0_Port_Enabled_Disabled_Change | Set_0_Port_Link_State_Change | Set_0_Port_Reset_Change | Set_0_Warm_Port_Reset_Change
  | Clear_Connect_Status_Change | Clear_Port_Reset_Change | Set_Port_Reset

text \<open>The calls that keep the flags that a one would clear.\<close>

definition keep_flags :: "portsc_call list" where
  "keep_flags = [Set_0_Connect_Status_Change, Set_0_Over_Current_Change, Set_0_Port_Config_Error_Change, Set_0_Port_Enabled_Disabled,
     Set_0_Port_Enabled_Disabled_Change, Set_0_Port_Link_State_Change, Set_0_Port_Reset_Change, Set_0_Warm_Port_Reset_Change]"

definition clear_csc :: "portsc_call list" where
  "clear_csc = keep_flags @ [Clear_Connect_Status_Change]"

definition clear_port_reset :: "portsc_call list" where
  "clear_port_reset = keep_flags @ [Clear_Port_Reset_Change]"

definition set_port_reset :: "portsc_call list" where
  "set_port_reset = keep_flags @ [Set_Port_Reset]"

text \<open>The flags of a port that the task reads.\<close>

record portsc =
  current_connect_status :: bool
  connect_status_change :: bool
  port_reset_change :: bool

text \<open>The state of the task, the slots it sent and the writes to the registers of the ports.\<close>

record device_init_action =
  ia_current_port :: "nat option"
  ia_waiting_port :: "nat list"
  ia_sent :: "nat list"
  ia_writes :: "(nat \<times> portsc_call list) list"

definition device_init_action_new :: device_init_action where
  "device_init_action_new = \<lparr>ia_current_port = None, ia_waiting_port = [], ia_sent = [], ia_writes = []\<rparr>"

type_synonym action_state = "device_init_action \<times> usb_world"

definition write_port :: "nat \<Rightarrow> portsc_call list \<Rightarrow> device_init_action \<Rightarrow> device_init_action" where
  "write_port port_id calls s = s\<lparr>ia_writes := ia_writes s @ [(port_id, calls)]\<rparr>"

text \<open>\<^verbatim>\<open>self.init_device_async(..).await;\<close>: an error is dropped.\<close>

definition init_and_send :: "usb_env \<Rightarrow> (nat \<Rightarrow> u8) \<Rightarrow> nat \<Rightarrow> action_state \<Rightarrow> action_state res" where
  "init_and_send env port_speed port_id = (\<lambda>(s, w).
     rbind (init_device_async env port_speed port_id w) (\<lambda>(r, w).
     Inr (case r of Inl _ \<Rightarrow> s | Inr slot \<Rightarrow> s\<lparr>ia_sent := ia_sent s @ [slot]\<rparr>, w)))"

text \<open>The first loop of \<^verbatim>\<open>main_loop\<close>: the ports that are connected at the start.\<close>

definition init_connected :: "usb_env \<Rightarrow> (nat \<Rightarrow> u8) \<Rightarrow> (nat \<Rightarrow> bool) \<Rightarrow> nat \<Rightarrow> action_state \<Rightarrow> action_state res" where
  "init_connected env port_speed connected num_ports =
     foldM (\<lambda>port_id (s, w).
       if connected port_id then init_and_send env port_speed port_id (write_port port_id [Clear_Connect_Status_Change] s, w) else Inr (s, w)) [0..<num_ports]"

definition reset_port :: "nat \<Rightarrow> device_init_action \<Rightarrow> device_init_action" where
  "reset_port port_id s = write_port port_id set_port_reset s"

text \<open>A turn of its second loop, for an event of \<open>event_port\<close> when the port's register shows \<open>p\<close>.\<close>

definition port_event :: "usb_env \<Rightarrow> (nat \<Rightarrow> u8) \<Rightarrow> u8 \<times> portsc \<Rightarrow> action_state \<Rightarrow> action_state res" where
  "port_event env port_speed = (\<lambda>(event_port, p) (s, w).
     if event_port = 0 then Inl ArithOverflow
     else
       let port_id = unat (event_port - 1) in
       rbind (if connect_status_change p \<and> current_connect_status p then
                Inr ((write_port port_id clear_csc s)\<lparr>ia_waiting_port := ia_waiting_port s @ [port_id]\<rparr>, w)
              else if port_reset_change p then
                let s = write_port port_id clear_port_reset s in
                if ia_current_port s = Some port_id then init_and_send env port_speed port_id (s, w) else Inr (s, w)
              else Inr (s, w)) (\<lambda>(s, w).
       case (ia_current_port s, ia_waiting_port s) of
         (None, port # rest) \<Rightarrow> Inr (reset_port port (s\<lparr>ia_current_port := Some port, ia_waiting_port := rest\<rparr>), w)
       | _ \<Rightarrow> Inr (s, w)))"

section \<open>Addressing succeeds\<close>

text \<open>The commands succeed and the slots are in the range of the array.\<close>

definition slots_ok :: "controller \<Rightarrow> usb_world \<Rightarrow> bool" where
  "slots_ok hc w \<longleftrightarrow> (\<forall>ptr. unat (cc_slot_id (hc_completion hc EnableSlot ptr)) < length (dc_array (w_dcbaa w)))
     \<and> (\<forall>cmd ptr. cc_success (hc_completion hc cmd ptr))"

text \<open>\<open>addressed\<close>: the device in \<open>slot\<close> has a context and an idle default pipe, and there is room for \<open>n\<close> more commands.\<close>

definition addressed :: "trb_gb \<Rightarrow> nat \<Rightarrow> controller \<Rightarrow> usb_env \<Rightarrow> nat \<Rightarrow> nat \<Rightarrow> usb_world \<Rightarrow> bool" where
  "addressed gb m hc env n slot w \<longleftrightarrow> (\<exists>ptr. slot = unat (cc_slot_id (hc_completion hc EnableSlot ptr)))
     \<and> usb_inv gb m hc env n w \<and> idle gb m (slot, 1) w \<and> dc_contexts (w_dcbaa w) slot \<noteq> None \<and> slots_ok hc w"

lemma context_calls_ok: "port_id < 255 \<Longrightarrow> \<exists>calls. prepare_input_ctx_for_address_device port_speed port_id a = Inr calls"
  by (simp add: prepare_input_ctx_for_address_device_def config_slot_context_def Let_def unat_of_nat)

lemma address_device_run:
  assumes I: "usb_inv gb m hc env n w" and slot: "slot < length (dc_array (w_dcbaa w))" and port: "port_id < 255"
  shows "\<exists>w1 calls. address_device_async env port_speed port_id slot False w
      = ubind (run_command env (AddressDevice calls (of_nat slot) False))
          (\<lambda>result. if cc_success result then ureturn () else uthrow (AddressDeviceCommandFailed (cc_raw result))) w1
    \<and> prepare_input_ctx_for_address_device port_speed port_id (en_addr env (w_alloc w1 - 1)) = Inr calls
    \<and> usb_inv gb m hc env n w1 \<and> idle gb m (slot, 1) w1 \<and> (\<forall>ep. idle gb m ep w \<longrightarrow> idle gb m ep w1)
    \<and> dc_contexts (w_dcbaa w1) slot \<noteq> None \<and> length (dc_array (w_dcbaa w1)) = length (dc_array (w_dcbaa w))"
proof -
  obtain w1 where w1: "new_context env slot w = Inr (Inr (), w1)" "usb_inv gb m hc env n w1" "\<forall>ep. idle gb m ep w \<longrightarrow> idle gb m ep w1"
    "dc_contexts (w_dcbaa w1) slot = Some (en_addr env (w_alloc w))" "length (dc_array (w_dcbaa w1)) = length (dc_array (w_dcbaa w))"
    using xhc.context_law [OF I slot] by blast
  obtain w2 where w2: "new_ring env slot 1 w1 = Inr (Inr (en_addr env (w_alloc w1)), w2)" "usb_inv gb m hc env n w2" "framed (idle gb m) w1 w2" "idle gb m (slot, 1) w2"
    using ring_provided [OF w1(2)] by blast
  have al: "w_alloc w2 = w_alloc w1 + 1" using w2(1) by (auto simp: new_ring_def)
  obtain calls where calls: "prepare_input_ctx_for_address_device port_speed port_id (en_addr env (w_alloc w1)) = Inr calls"
    using context_calls_ok [OF port] by blast
  have "address_device_async env port_speed port_id slot False w
      = ubind (run_command env (AddressDevice calls (of_nat slot) False))
          (\<lambda>result. if cc_success result then ureturn () else uthrow (AddressDeviceCommandFailed (cc_raw result))) w2"
    using w1(1) w2(1) calls by (simp add: address_device_async_def)
  then show ?thesis using w1 w2 calls al by (intro exI [of _ w2] exI [of _ calls]) (auto simp: framed_def)
qed

lemma init_device_run:
  assumes I: "usb_inv gb m hc env (Suc n) w" and ok: "slots_ok hc w" and port: "port_id < 255"
  shows "\<exists>slot w1 calls. init_device_async env port_speed port_id w
      = ubind (run_command env (AddressDevice calls (of_nat slot) False))
          (\<lambda>result. if cc_success result then ureturn slot else uthrow (AddressDeviceCommandFailed (cc_raw result))) w1
    \<and> addressed gb m hc env n slot w1 \<and> (\<forall>ep. idle gb m ep w \<longrightarrow> idle gb m ep w1)
    \<and> prepare_input_ctx_for_address_device port_speed port_id (en_addr env (w_alloc w1 - 1)) = Inr calls"
proof -
  obtain w1 ptr where w1: "run_command env EnableSlot w = Inr (Inr (hc_completion hc EnableSlot ptr), w1)" "usb_inv gb m hc env n w1" "framed (idle gb m) w w1"
    using command_provided [OF I] by blast
  let ?slot = "unat (cc_slot_id (hc_completion hc EnableSlot ptr))"
  have slot: "?slot < length (dc_array (w_dcbaa w1))" using ok w1(3) by (simp add: slots_ok_def framed_def)
  obtain w2 calls where w2: "address_device_async env port_speed port_id ?slot False w1
      = ubind (run_command env (AddressDevice calls (of_nat ?slot) False))
          (\<lambda>result. if cc_success result then ureturn () else uthrow (AddressDeviceCommandFailed (cc_raw result))) w2"
    "prepare_input_ctx_for_address_device port_speed port_id (en_addr env (w_alloc w2 - 1)) = Inr calls"
    "usb_inv gb m hc env n w2" "idle gb m (?slot, 1) w2" "\<forall>ep. idle gb m ep w1 \<longrightarrow> idle gb m ep w2"
    "dc_contexts (w_dcbaa w2) ?slot \<noteq> None" "length (dc_array (w_dcbaa w2)) = length (dc_array (w_dcbaa w1))"
    using address_device_run [OF w1(2) slot port] by blast
  have "init_device_async env port_speed port_id w
      = ubind (run_command env (AddressDevice calls (of_nat ?slot) False))
          (\<lambda>result. if cc_success result then ureturn ?slot else uthrow (AddressDeviceCommandFailed (cc_raw result))) w2"
  proof -
    have "init_device_async env port_speed port_id w = ubind (address_device_async env port_speed port_id ?slot False) (\<lambda>_. ureturn ?slot) w1"
      using w1(1) by (simp add: init_device_async_def enable_slot_async_def ubind_assoc)
    also have "\<dots> = ubind (ubind (run_command env (AddressDevice calls (of_nat ?slot) False))
          (\<lambda>result. if cc_success result then ureturn () else uthrow (AddressDeviceCommandFailed (cc_raw result)))) (\<lambda>_. ureturn ?slot) w2"
      using w2(1) by (simp add: ubind_def)
    also have "\<dots> = ubind (run_command env (AddressDevice calls (of_nat ?slot) False))
          (\<lambda>result. ubind (if cc_success result then ureturn () else uthrow (AddressDeviceCommandFailed (cc_raw result))) (\<lambda>_. ureturn ?slot)) w2"
      unfolding ubind_assoc ..
    also have "(\<lambda>result. ubind (if cc_success result then ureturn () else uthrow (AddressDeviceCommandFailed (cc_raw result))) (\<lambda>_. ureturn ?slot))
        = (\<lambda>result. if cc_success result then ureturn ?slot else uthrow (AddressDeviceCommandFailed (cc_raw result)))" by (auto simp: fun_eq_iff)
    finally show ?thesis .
  qed
  moreover have "slots_ok hc w2" using ok w1(3) w2(7) by (simp add: slots_ok_def framed_def)
  then have "addressed gb m hc env n ?slot w2" using w2(3,4,6) by (auto simp: addressed_def)
  ultimately show ?thesis using w2(2,5) w1(3) by (intro exI [of _ ?slot] exI [of _ w2] exI [of _ calls]) (auto simp: framed_def)
qed

lemma init_device_ok:
  assumes I: "usb_inv gb m hc env (Suc (Suc n)) w" and ok: "slots_ok hc w" and port: "port_id < 255"
  shows "\<exists>slot w'. init_device_async env port_speed port_id w = Inr (Inr slot, w') \<and> addressed gb m hc env n slot w' \<and> (\<forall>ep. idle gb m ep w \<longrightarrow> idle gb m ep w')"
proof -
  obtain slot w1 calls where w1: "init_device_async env port_speed port_id w
      = ubind (run_command env (AddressDevice calls (of_nat slot) False))
          (\<lambda>result. if cc_success result then ureturn slot else uthrow (AddressDeviceCommandFailed (cc_raw result))) w1"
    "addressed gb m hc env (Suc n) slot w1" "\<forall>ep. idle gb m ep w \<longrightarrow> idle gb m ep w1"
    using init_device_run [OF I ok port] by blast
  have I1: "usb_inv gb m hc env (Suc n) w1" using w1(2) by (simp add: addressed_def)
  obtain w2 ptr where w2: "run_command env (AddressDevice calls (of_nat slot) False) w1 = Inr (Inr (hc_completion hc (AddressDevice calls (of_nat slot) False) ptr), w2)"
    "usb_inv gb m hc env n w2" "framed (idle gb m) w1 w2" using command_provided [OF I1] by blast
  have "init_device_async env port_speed port_id w = Inr (Inr slot, w2)" using w1(1) w2(1) ok by (simp add: slots_ok_def)
  moreover have "addressed gb m hc env n slot w2" using w1(2) w2(2,3) by (simp add: addressed_def slots_ok_def framed_def)
  ultimately show ?thesis using w1(3) w2(3) by (auto simp: framed_def)
qed

text \<open>Without room in the command ring addressing fails, but nothing is lost.\<close>

lemma init_device_any:
  assumes I: "usb_inv gb m hc env n w" and ok: "slots_ok hc w" and port: "port_id < 255"
  shows "\<exists>r w' n'. init_device_async env port_speed port_id w = Inr (r, w') \<and> usb_inv gb m hc env n' w' \<and> slots_ok hc w'"
proof (cases n)
  case 0
  then show ?thesis using full_provided I ok by (fastforce simp: init_device_async_def enable_slot_async_def ubind_assoc)
next
  case (Suc k)
  show ?thesis
  proof (cases k)
    case 0
    obtain slot w1 calls where w1: "init_device_async env port_speed port_id w
        = ubind (run_command env (AddressDevice calls (of_nat slot) False))
            (\<lambda>result. if cc_success result then ureturn slot else uthrow (AddressDeviceCommandFailed (cc_raw result))) w1"
      "addressed gb m hc env 0 slot w1" using init_device_run [of gb m hc env 0 w port_id port_speed] I ok port Suc 0 by blast
    then have "usb_inv gb m hc env 0 w1" "slots_ok hc w1" by (simp_all add: addressed_def)
    then show ?thesis using full_provided w1(1) by fastforce
  next
    case (Suc j)
    then show ?thesis using init_device_ok [of gb m hc env j w port_id port_speed] I ok port \<open>n = Suc k\<close> by (fastforce simp: addressed_def)
  qed
qed

section \<open>The loops\<close>

lemma init_and_send_any:
  assumes "usb_inv gb m hc env n w" "slots_ok hc w" "port_id < 255"
  shows "\<exists>sent w' n'. init_and_send env port_speed port_id (s, w) = Inr (s\<lparr>ia_sent := sent\<rparr>, w') \<and> usb_inv gb m hc env n' w' \<and> slots_ok hc w'"
proof -
  obtain r w' n' where r: "init_device_async env port_speed port_id w = Inr (r, w')" "usb_inv gb m hc env n' w'" "slots_ok hc w'"
    using init_device_any [OF assms] by blast
  have "init_and_send env port_speed port_id (s, w) = Inr (s\<lparr>ia_sent := (case r of Inl _ \<Rightarrow> ia_sent s | Inr slot \<Rightarrow> ia_sent s @ [slot])\<rparr>, w')"
    using r(1) by (cases r) (simp_all add: init_and_send_def)
  then show ?thesis using r(2,3) by blast
qed

text \<open>The ports that were plugged in while the task was running.\<close>

definition plugged :: "u8 \<times> portsc \<Rightarrow> bool" where
  "plugged = (\<lambda>(event_port, p). connect_status_change p \<and> current_connect_status p)"

definition plugged_ports :: "(u8 \<times> portsc) list \<Rightarrow> nat list" where
  "plugged_ports evs = map (\<lambda>(event_port, p). unat (event_port - 1)) (filter plugged evs)"

definition port_resets :: "device_init_action \<Rightarrow> nat list" where
  "port_resets s = map fst (filter (\<lambda>(port, calls). calls = set_port_reset) (ia_writes s))"

definition action_inv :: "nat list \<Rightarrow> device_init_action \<Rightarrow> bool" where
  "action_inv ports s \<longleftrightarrow> ia_current_port s = (case ports of [] \<Rightarrow> None | p # _ \<Rightarrow> Some p) \<and> ia_waiting_port s = tl ports \<and> port_resets s = take 1 ports"

lemma port_resets_simps [simp]:
  "port_resets (write_port p clear_csc s) = port_resets s" "port_resets (write_port p clear_port_reset s) = port_resets s"
  "port_resets (reset_port p s) = port_resets s @ [p]" "port_resets (s\<lparr>ia_sent := x\<rparr>) = port_resets s"
  "port_resets (s\<lparr>ia_waiting_port := y\<rparr>) = port_resets s" "port_resets (s\<lparr>ia_current_port := z\<rparr>) = port_resets s"
  by (simp_all add: port_resets_def write_port_def reset_port_def clear_csc_def clear_port_reset_def set_port_reset_def)

lemma write_port_simps [simp]:
  "ia_current_port (write_port p c s) = ia_current_port s" "ia_waiting_port (write_port p c s) = ia_waiting_port s"
  "ia_current_port (reset_port p s) = ia_current_port s" "ia_waiting_port (reset_port p s) = ia_waiting_port s"
  by (simp_all add: write_port_def reset_port_def)

lemma port_event_step:
  assumes I: "usb_inv gb m hc env n w" "slots_ok hc w" and a: "action_inv ports s" and port: "fst e \<noteq> 0"
  shows "\<exists>s' w' n'. port_event env port_speed e (s, w) = Inr (s', w') \<and> usb_inv gb m hc env n' w' \<and> slots_ok hc w' \<and> action_inv (ports @ plugged_ports [e]) s'"
proof -
  obtain ev p where e: "e = (ev, p)" by fastforce
  let ?id = "unat (ev - 1)"
  have id: "?id < 255" using port e unat_minus_one [of ev] unsigned_less [of ev, where 'a = nat] by simp
  show ?thesis
  proof (cases "plugged e")
    case True
    then show ?thesis using I a port e
      by (cases ports) (auto simp: port_event_def plugged_def action_inv_def plugged_ports_def Let_def)
  next
    case False
    obtain s1 w1 n1 where s1: "(if port_reset_change p then
          let s = write_port ?id clear_port_reset s in if ia_current_port s = Some ?id then init_and_send env port_speed ?id (s, w) else Inr (s, w)
        else Inr (s, w)) = Inr (s1, w1)" "usb_inv gb m hc env n1 w1" "slots_ok hc w1" "action_inv ports s1"
    proof (cases "port_reset_change p \<and> ia_current_port s = Some ?id")
      case True
      then show thesis using init_and_send_any [OF I id, of port_speed "write_port ?id clear_port_reset s"] a that by (auto simp: action_inv_def)
    next
      case False
      then show thesis using I a that by (cases "port_reset_change p") (auto simp: action_inv_def)
    qed
    have run: "port_event env port_speed e (s, w) = (case (ia_current_port s1, ia_waiting_port s1) of
         (None, port # rest) \<Rightarrow> Inr (reset_port port (s1\<lparr>ia_current_port := Some port, ia_waiting_port := rest\<rparr>), w1) | _ \<Rightarrow> Inr (s1, w1))"
      using s1(1) False port e by (auto simp: port_event_def plugged_def Let_def)
    have "\<dots> = Inr (s1, w1)" using s1(4) by (cases ports) (auto simp: action_inv_def)
    then show ?thesis using run s1(2-4) False by (auto simp: plugged_ports_def)
  qed
qed

lemma port_events_run:
  assumes "usb_inv gb m hc env n w" "slots_ok hc w" "action_inv ports s" "\<forall>e \<in> set evs. fst e \<noteq> 0"
  shows "\<exists>s' w'. foldM (port_event env port_speed) evs (s, w) = Inr (s', w') \<and> action_inv (ports @ plugged_ports evs) s'"
  using assms
proof (induction evs arbitrary: n w s ports)
  case Nil
  then show ?case by (simp add: plugged_ports_def)
next
  case (Cons e evs)
  obtain s1 w1 n1 where s1: "port_event env port_speed e (s, w) = Inr (s1, w1)" "usb_inv gb m hc env n1 w1" "slots_ok hc w1" "action_inv (ports @ plugged_ports [e]) s1"
    using port_event_step [OF Cons.prems(1-3), of e port_speed] Cons.prems(4) by auto
  from Cons.IH [OF s1(2-4)] Cons.prems(4) obtain s2 w2 where
    "foldM (port_event env port_speed) evs (s1, w1) = Inr (s2, w2)" "action_inv ((ports @ plugged_ports [e]) @ plugged_ports evs) s2" by auto
  moreover have "plugged_ports [e] @ plugged_ports evs = plugged_ports (e # evs)" by (simp add: plugged_ports_def)
  ultimately show ?case using s1(1) by auto
qed

lemma init_connected_run:
  assumes "usb_inv gb m hc env (2 * length (filter connected ports) + n) w" "slots_ok hc w" "\<forall>p \<in> set ports. p < 255"
  shows "\<exists>s' w'. foldM (\<lambda>port_id (s, w). if connected port_id then init_and_send env port_speed port_id (write_port port_id [Clear_Connect_Status_Change] s, w) else Inr (s, w)) ports (s, w)
      = Inr (s', w') \<and> usb_inv gb m hc env n w' \<and> slots_ok hc w'
    \<and> (\<exists>slots. ia_sent s' = ia_sent s @ slots \<and> length slots = length (filter connected ports) \<and> (\<forall>slot \<in> set slots. idle gb m (slot, 1) w'))
    \<and> (\<forall>ep. idle gb m ep w \<longrightarrow> idle gb m ep w')"
  using assms
proof (induction ports arbitrary: s w)
  case Nil
  then show ?case by simp
next
  case (Cons p ports)
  show ?case
  proof (cases "connected p")
    case False
    then show ?thesis using Cons by simp
  next
    case True
    let ?k = "2 * length (filter connected ports) + n"
    have I: "usb_inv gb m hc env (Suc (Suc ?k)) w" "p < 255" using Cons.prems True by simp_all
    obtain slot w1 where w1: "init_device_async env port_speed p w = Inr (Inr slot, w1)" "addressed gb m hc env ?k slot w1" "\<forall>ep. idle gb m ep w \<longrightarrow> idle gb m ep w1"
      using init_device_ok [OF I(1) Cons.prems(2) I(2)] by blast
    have i1: "usb_inv gb m hc env ?k w1" "slots_ok hc w1" "idle gb m (slot, 1) w1" using w1(2) by (simp_all add: addressed_def)
    let ?s1 = "(write_port p [Clear_Connect_Status_Change] s)\<lparr>ia_sent := ia_sent s @ [slot]\<rparr>"
    have step: "init_and_send env port_speed p (write_port p [Clear_Connect_Status_Change] s, w) = Inr (?s1, w1)"
      using w1(1) by (simp add: init_and_send_def write_port_def)
    have P: "\<forall>p \<in> set ports. p < 255" using Cons.prems(3) by simp
    obtain s2 w2 slots where "foldM (\<lambda>port_id (s, w). if connected port_id then init_and_send env port_speed port_id (write_port port_id [Clear_Connect_Status_Change] s, w) else Inr (s, w)) ports (?s1, w1)
        = Inr (s2, w2)" "usb_inv gb m hc env n w2" "slots_ok hc w2" "ia_sent s2 = ia_sent ?s1 @ slots" "length slots = length (filter connected ports)"
      "\<forall>slot \<in> set slots. idle gb m (slot, 1) w2" "\<forall>ep. idle gb m ep w1 \<longrightarrow> idle gb m ep w2"
      using Cons.IH [OF i1(1,2) P, of ?s1] by blast
    then show ?thesis using step True w1(3) i1(3) by (intro exI [of _ s2] exI [of _ w2]) auto
  qed
qed

section \<open>Properties\<close>

text \<open>
  Addressing a device takes two commands: when the command ring has room for them and the controller enables a slot
  of the array, the task announces a slot whose device has a context and an empty default pipe, ready for requests,
  and no other device is disturbed.
\<close>

theorem device_addressed:
  assumes "usb_inv gb m hc env (n + 2) w" "slots_ok hc w" "port_id < 255"
  shows "\<exists>slot w'. init_device_async env port_speed port_id w = Inr (Inr slot, w') \<and> addressed gb m hc env n slot w' \<and> (\<forall>ep. idle gb m ep w \<longrightarrow> idle gb m ep w')"
  using init_device_ok [OF _ assms(2,3), of gb m env n] assms(1) by simp


text \<open>
  (C40) Only one port is ever served by the second loop: whatever events arrive, the loop does not fail, but of all the
  ports that are plugged in only the first is reset, and all the others stay on the waiting list, since the current
  port is never given up.
\<close>

theorem hotplug_serves_one:
  assumes "usb_inv gb m hc env n w" "slots_ok hc w" "\<forall>e \<in> set evs. fst e \<noteq> 0"
  shows "\<exists>s w'. foldM (port_event env port_speed) evs (device_init_action_new, w) = Inr (s, w')
    \<and> port_resets s = take 1 (plugged_ports evs) \<and> ia_waiting_port s = tl (plugged_ports evs)"
proof -
  have "action_inv [] device_init_action_new" by (simp add: action_inv_def device_init_action_new_def port_resets_def)
  from port_events_run [OF assms(1,2) this assms(3), of port_speed] show ?thesis by (auto simp: action_inv_def)
qed

section \<open>Examples\<close>

lemma addressed_slots: "slots_ok (example_hc rep) (initial_world 8 c)"
  by (simp add: slots_ok_def example_hc_def initial_world_def)

theorem device_addressed_witness:
  "\<exists>c slot w'. let hc = example_hc (\<lambda>_ _ buf. buf) in init_command_ring example_lk 4096 32 = Inr (c, 4096)
     \<and> init_device_async (example_env hc) (\<lambda>_. 2) 4 (initial_world 8 c) = Inr (Inr slot, w') \<and> idle bit 31 (slot, 1) w'"
proof -
  let ?hc = "example_hc (\<lambda>_ _ buf. buf)"
  obtain c where c: "init_command_ring example_lk 4096 32 = Inr (c, 4096)" "usb_inv bit 31 ?hc (example_env ?hc) 30 (initial_world 8 c)" using initial_inv by blast
  then have "usb_inv bit 31 ?hc (example_env ?hc) (28 + 2) (initial_world 8 c)" by simp
  from device_addressed [OF this addressed_slots, of 4 "\<lambda>_. 2"] c(1) show ?thesis by (auto simp: addressed_def Let_def)
qed


theorem hotplug_serves_one_witness:
  "\<exists>c s w'. let hc = example_hc (\<lambda>_ _ buf. buf); on = \<lparr>current_connect_status = True, connect_status_change = True, port_reset_change = False\<rparr> in
     init_command_ring example_lk 4096 32 = Inr (c, 4096)
     \<and> foldM (port_event (example_env hc) (\<lambda>_. 2)) [(1, on), (1, on\<lparr>connect_status_change := False, port_reset_change := True\<rparr>), (2, on)] (device_init_action_new, initial_world 8 c) = Inr (s, w')
     \<and> port_resets s = [0] \<and> ia_waiting_port s = [1]"
proof -
  let ?hc = "example_hc (\<lambda>_ _ buf. buf)"
  let ?on = "\<lparr>current_connect_status = True, connect_status_change = True, port_reset_change = False\<rparr>"
  obtain c where c: "init_command_ring example_lk 4096 32 = Inr (c, 4096)" "usb_inv bit 31 ?hc (example_env ?hc) 30 (initial_world 8 c)" using initial_inv by blast
  have "plugged_ports [(1, ?on), (1, ?on\<lparr>connect_status_change := False, port_reset_change := True\<rparr>), (2, ?on)] = [0, 1]"
    by (simp add: plugged_ports_def plugged_def)
  then show ?thesis
    using hotplug_serves_one [OF c(2) addressed_slots, of "[(1, ?on), (1, ?on\<lparr>connect_status_change := False, port_reset_change := True\<rparr>), (2, ?on)]" "\<lambda>_. 2"] c(1)
    by (auto simp: Let_def)
qed

end
