(* ===== verification/Usb_Driver.thy ===== *)
theory Usb_Driver
  imports Usb_Device Usb_Init
begin

text \<open>
  The USB driver task (\<^verbatim>\<open>UsbDriver\<close> in \<^verbatim>\<open>kernel/src/usb/usbd.rs\<close>), the tasks it starts for a mouse and a keyboard, and the
  reports these deliver (\<^verbatim>\<open>kernel/src/usb/class\<close>). A turn of a loop is a definition; the loops run it again and again.
\<close>

section \<open>Reports\<close>

record mouse_report =
  mr_buttons :: u8
  mr_dx :: int
  mr_dy :: int

text \<open>The report in the bytes of its buffer; \<^verbatim>\<open>dx\<close> and \<^verbatim>\<open>dy\<close> are \<^verbatim>\<open>i8\<close>.\<close>

definition mouse_report_of :: "u8 list \<Rightarrow> mouse_report" where
  "mouse_report_of b = \<lparr>mr_buttons = b ! 0, mr_dx = sint (b ! 1), mr_dy = sint (b ! 2)\<rparr>"

record key_report =
  kr_modifier :: u8
  kr_rsvd :: u8
  kr_keycodes :: "u8 list"

definition key_report_of :: "u8 list \<Rightarrow> key_report" where
  "key_report_of b = \<lparr>kr_modifier = b ! 0, kr_rsvd = b ! 1, kr_keycodes = take 6 (drop 2 b)\<rparr>"

datatype modifier = LCtrl | LShift | LAlt | LGui | RCtrl | RShift | RAlt | RGui

definition l_ctrl :: "u8 \<Rightarrow> bool" where
  "l_ctrl m \<longleftrightarrow> m AND 1 = 1"

definition l_shift :: "u8 \<Rightarrow> bool" where
  "l_shift m \<longleftrightarrow> drop_bit 1 m AND 1 = 1"

definition l_alt :: "u8 \<Rightarrow> bool" where
  "l_alt m \<longleftrightarrow> drop_bit 2 m AND 1 = 1"

definition l_gui :: "u8 \<Rightarrow> bool" where
  "l_gui m \<longleftrightarrow> drop_bit 3 m AND 1 = 1"

definition r_ctrl :: "u8 \<Rightarrow> bool" where
  "r_ctrl m \<longleftrightarrow> drop_bit 4 m AND 1 = 1"

definition r_shift :: "u8 \<Rightarrow> bool" where
  "r_shift m \<longleftrightarrow> drop_bit 5 m AND 1 = 1"

definition r_alt :: "u8 \<Rightarrow> bool" where
  "r_alt m \<longleftrightarrow> drop_bit 6 m AND 1 = 1"

definition r_gui :: "u8 \<Rightarrow> bool" where
  "r_gui m \<longleftrightarrow> drop_bit 7 m AND 1 = 1"

definition modifier_set_get :: "u8 \<Rightarrow> modifier list" where
  "modifier_set_get m =
     (let v = [];
          v = (if l_ctrl m then v @ [LCtrl] else v);
          v = (if l_shift m then v @ [LShift] else v);
          v = (if l_alt m then v @ [LAlt] else v);
          v = (if l_gui m then v @ [LGui] else v);
          v = (if r_ctrl m then v @ [RCtrl] else v);
          v = (if r_shift m then v @ [RShift] else v);
          v = (if r_alt m then v @ [RAlt] else v);
          v = (if r_gui m then v @ [RGui] else v)
      in v)"

section \<open>UsbDriver\<close>

text \<open>Which callbacks are still there, and the tasks that were started.\<close>

record usb_driver =
  dr_mouse_callback :: bool
  dr_keyboard_callback :: bool
  dr_spawned :: "driver list"

definition usb_driver_new :: usb_driver where
  "usb_driver_new = \<lparr>dr_mouse_callback = True, dr_keyboard_callback = True, dr_spawned = []\<rparr>"

text \<open>\<^verbatim>\<open>construct_device\<close>; \<open>None\<close> when it loops forever.\<close>

fun construct_configurations :: "bits_get \<Rightarrow> descriptor list list \<Rightarrow> usb_configuration list \<Rightarrow> (xhci_error + usb_configuration list) option" where
  "construct_configurations g [] conf_arr = Some (Inr conf_arr)"
| "construct_configurations g (conf # confs) conf_arr = (case construct_configuration g conf of
     None \<Rightarrow> None
   | Some None \<Rightarrow> Some (Inl UnexpectedDescriptor)
   | Some (Some conf) \<Rightarrow> construct_configurations g confs (conf_arr @ [conf]))"

definition construct_device :: "bits_get \<Rightarrow> nat \<Rightarrow> descriptor list list \<Rightarrow> (xhci_error + usb_device) option" where
  "construct_device g slot_id confs = map_option (map_sum id (usb_device_new slot_id)) (construct_configurations g confs [])"

definition read_descriptors :: "bits_get \<Rightarrow> usb_env \<Rightarrow> nat \<Rightarrow> descriptor list list usb" where
  "read_descriptors g env slot_id =
     ubind (read_device_descriptor env slot_id) (\<lambda>dev_desc.
     ufold (\<lambda>i_conf confs. ubind (read_config env slot_id i_conf 64) (\<lambda>conf. ureturn (confs @ [conf])))
       [0..<unat (b_num_configurations g dev_desc)] [])"

definition start_driver :: "usb_env \<Rightarrow> usb_device \<Rightarrow> usb_driver \<Rightarrow> usb_driver usb" where
  "start_driver env dev d =
     ubind (configure_device env (dr_mouse_callback d) (dr_keyboard_callback d) dev) (\<lambda>(drv, _).
     case drv of
       None \<Rightarrow> ureturn d
     | Some (Mouse_Driver k) \<Rightarrow> ureturn (d\<lparr>dr_mouse_callback := False, dr_spawned := dr_spawned d @ [Mouse_Driver k]\<rparr>)
     | Some (Keyboard_Driver k) \<Rightarrow> ureturn (d\<lparr>dr_keyboard_callback := False, dr_spawned := dr_spawned d @ [Keyboard_Driver k]\<rparr>))"

text \<open>A turn of \<^verbatim>\<open>main_loop\<close> for an announced slot; an error ends the task.\<close>

definition driver_turn :: "bits_get \<Rightarrow> usb_env \<Rightarrow> nat \<Rightarrow> usb_driver \<Rightarrow> usb_world \<Rightarrow> ((xhci_error + usb_driver) \<times> usb_world) res option" where
  "driver_turn g env slot_id d w = (case read_descriptors g env slot_id w of
     Inl p \<Rightarrow> Some (Inl p)
   | Inr (Inl e, w) \<Rightarrow> Some (Inr (Inl e, w))
   | Inr (Inr confs, w) \<Rightarrow> (case construct_device g slot_id confs of
       None \<Rightarrow> None
     | Some (Inl e) \<Rightarrow> Some (Inr (Inl e, w))
     | Some (Inr dev) \<Rightarrow> Some (start_driver env dev d w)))"

section \<open>The tasks of the mouse and the keyboard\<close>

text \<open>
  A turn: ask for a report of \<open>bytes\<close> bytes, wait for it and hand it to the callback, unless the transfer failed. The
  state of the callback is \<open>s\<close>.
\<close>

definition await_report :: "usb_env \<Rightarrow> class_driver \<Rightarrow> nat \<Rightarrow> waiter \<Rightarrow> u8 list option usb" where
  "await_report env k bytes recv w =
     rbind (en_transfer env (kd_slot_id k) (kd_dci k) None (replicate bytes 0) recv w) (\<lambda>(answer, w).
     rbind (unwrap answer) (\<lambda>r. Inr (Inr (case r of Inl _ \<Rightarrow> None | Inr buf \<Rightarrow> Some buf), w)))"

definition report_turn :: "usb_env \<Rightarrow> class_driver \<Rightarrow> nat \<Rightarrow> (u8 list \<Rightarrow> 's \<Rightarrow> 's res) \<Rightarrow> 's \<Rightarrow> 's usb" where
  "report_turn env k bytes callback s =
     ubind (subscribe_once env k) (\<lambda>(recv, _).
     ubind (await_report env k bytes recv) (\<lambda>report.
     case report of None \<Rightarrow> ureturn s | Some buf \<Rightarrow> ulift (callback buf s)))"

definition mouse_turn :: "usb_env \<Rightarrow> class_driver \<Rightarrow> (mouse_report \<Rightarrow> 's \<Rightarrow> 's res) \<Rightarrow> 's \<Rightarrow> 's usb" where
  "mouse_turn env k callback = report_turn env k 3 (\<lambda>buf. callback (mouse_report_of buf))"

definition keyboard_turn :: "usb_env \<Rightarrow> class_driver \<Rightarrow> (key_report \<Rightarrow> 's \<Rightarrow> 's res) \<Rightarrow> 's \<Rightarrow> 's usb" where
  "keyboard_turn env k callback = report_turn env k 8 (\<lambda>buf. callback (key_report_of buf))"

section \<open>Reports arrive\<close>

lemma report_step:
  assumes I: "usb_inv gb m hc env n w" and idle: "idle gb m (kd_slot_id k, kd_dci k) w"
    and cb: "callback (hc_report hc (kd_slot_id k) (kd_dci k) (w_fresh w) (replicate bytes 0)) s = Inr s'"
  shows "\<exists>w'. report_turn env k bytes callback s w = Inr (Inr s', w') \<and> usb_inv gb m hc env n w' \<and> framed (idle gb m) w w' \<and> w_fresh w' = w_fresh w + 1"
proof -
  let ?ep = "(kd_slot_id k, kd_dci k)"
  let ?t = "Normal \<lparr>no_ioc = True, no_data_buffer_pointer = en_addr env (w_alloc w), no_trb_transfer_length = 8\<rparr>"
  have f: "trb_laws (en_sb env) gb (en_lk env)" "4 \<le> m" "en_transfer env = hc_transfer hc" "\<And>slot ep req k. hc_ok hc slot ep req k"
    using I by (auto simp: usb_inv_def)
  obtain base D T where h: "ring_holds gb m base D D T ?ep (w_rings w)" using idle by (auto simp: idle_def)
  obtain s1 where s1: "push_transfer_trb (en_sb env) (en_raw env) (w_rings w) (kd_slot_id k) (kd_dci k) ?t (w_fresh w) = Inr (Inr (Some (w_fresh w)), s1)"
    "pushed gb (en_raw env) m base D D T ?ep (w_rings w) ([] @ [?t]) ([] @ [w_fresh w]) s1"
    using pushed_step [OF f(1) pushed_Nil [OF h, of "en_raw env"], of ?t "w_fresh w"] f(2) by auto
  let ?w1 = "w\<lparr>w_rings := s1, w_alloc := w_alloc w + 1, w_fresh := w_fresh w + 1, w_bells := w_bells w @ [?ep]\<rparr>"
  have sub: "subscribe_once env k w = Inr (Inr (w_fresh w, en_addr env (w_alloc w)), ?w1)" using s1(1) by (simp add: subscribe_once_def)
  have p: "pushed gb (en_raw env) m base D D T ?ep (w_rings w) [?t] [w_fresh w..<w_fresh w + length [?t]] s1" using s1(2) by simp
  have i: "0 < length [?t]" "length [?t] < m" "w_rings ?w1 = s1" using f(2) by auto
  obtain s2 T' where s2: "hc_transfer hc (kd_slot_id k) (kd_dci k) None (replicate bytes 0) (w_fresh w + 0) ?w1
      = Inr (Some (Inr (hc_report hc (kd_slot_id k) (kd_dci k) (w_fresh w) (replicate bytes 0))), ?w1\<lparr>w_rings := s2\<rparr>)"
    "ring_holds gb m base (D + length [?t]) (D + length [?t]) T' ?ep s2" "other_rings ?ep (w_rings w) s2"
    using hc_transfer_pushed [OF p i, of hc None "replicate bytes 0"] f(4) by (auto simp: hc_answer_def)
  let ?w2 = "?w1\<lparr>w_rings := s2\<rparr>"
  have "await_report env k bytes (w_fresh w) ?w1 = Inr (Inr (Some (hc_report hc (kd_slot_id k) (kd_dci k) (w_fresh w) (replicate bytes 0))), ?w2)"
    using s2(1) by (simp add: await_report_def f(3))
  then have "report_turn env k bytes callback s w = Inr (Inr s', ?w2)" using sub cb by (simp add: report_turn_def)
  moreover have "usb_inv gb m hc env n ?w2" using I s2(3) by (simp add: usb_inv_def room_def other_rings_def)
  moreover have "framed (idle gb m) w ?w2" using idle_other [of ?ep w ?w2] s2(2,3) by (simp add: framed_def)
  ultimately show ?thesis by (intro exI [of _ ?w2]) simp
qed

lemma report_turns:
  assumes "usb_inv gb m hc env n w" "idle gb m (kd_slot_id k, kd_dci k) w"
    and "foldM callback (map (\<lambda>i. hc_report hc (kd_slot_id k) (kd_dci k) (w_fresh w + i) (replicate bytes 0)) [0..<turns]) s = Inr s'"
  shows "\<exists>w'. ufold (\<lambda>_. report_turn env k bytes callback) [0..<turns] s w = Inr (Inr s', w') \<and> usb_inv gb m hc env n w' \<and> framed (idle gb m) w w'"
proof -
  have "\<exists>w'. ufold (\<lambda>_. report_turn env k bytes callback) xs s w = Inr (Inr s', w') \<and> usb_inv gb m hc env n w' \<and> framed (idle gb m) w w'"
    if "usb_inv gb m hc env n w" "idle gb m (kd_slot_id k, kd_dci k) w"
      "foldM callback (map (\<lambda>i. hc_report hc (kd_slot_id k) (kd_dci k) (w_fresh w + i) (replicate bytes 0)) [0..<length xs]) s = Inr s'" for xs :: "nat list" and s w
    using that
  proof (induction xs arbitrary: s w)
    case Nil
    then show ?case by simp
  next
    case (Cons x xs)
    let ?r = "\<lambda>i. hc_report hc (kd_slot_id k) (kd_dci k) (w_fresh w + i) (replicate bytes 0)"
    have u: "[0..<Suc j] = 0 # map Suc [0..<j]" for j by (simp add: map_Suc_upt upt_conv_Cons del: upt_Suc)
    have "rbind (callback (?r 0) s) (foldM callback (map (\<lambda>i. ?r (Suc i)) [0..<length xs])) = Inr s'"
      using Cons.prems(3) by (simp add: u comp_def del: upt_Suc)
    then obtain s1 where s1: "callback (?r 0) s = Inr s1" "foldM callback (map (\<lambda>i. ?r (Suc i)) [0..<length xs]) s1 = Inr s'" by auto
    obtain w1 where w1: "report_turn env k bytes callback s w = Inr (Inr s1, w1)" "usb_inv gb m hc env n w1" "framed (idle gb m) w w1" "w_fresh w1 = w_fresh w + 1"
      using report_step [OF Cons.prems(1,2), of callback bytes s s1] s1(1) by auto
    have "foldM callback (map (\<lambda>i. hc_report hc (kd_slot_id k) (kd_dci k) (w_fresh w1 + i) (replicate bytes 0)) [0..<length xs]) s1 = Inr s'" using s1(2) w1(4) by simp
    from Cons.IH [OF w1(2) framed_idle [OF w1(3) Cons.prems(2)] this] show ?case using w1(1,3) framed_trans by fastforce
  qed
  from this [of w "[0..<turns]" s] assms show ?thesis by simp
qed

section \<open>A device comes up\<close>

text \<open>A device with one configuration, whose first interface is a boot mouse with the endpoint \<open>ep\<close>.\<close>

definition is_boot_mouse :: "bits_get \<Rightarrow> (setup_data \<Rightarrow> u8 list \<Rightarrow> u8 list) \<Rightarrow> descriptor list \<Rightarrow> usb_configuration \<Rightarrow> usb_interface_alternate \<Rightarrow> endpoint_descriptor \<Rightarrow> bool" where
  "is_boot_mouse g reply ds conf alt ep \<longleftrightarrow>
     b_num_configurations g (reply \<lparr>sd_request_type = GetDescriptor, sd_value = 0x0100, sd_index = 0, sd_length = 18\<rparr> (replicate 18 0)) = 1
     \<and> serves (encode_all ds) 0 reply \<and> 4 \<le> length (encode_all ds) \<and> length (encode_all ds) \<le> 64
     \<and> le_nat [encode_all ds ! 2, encode_all ds ! 3] = length (encode_all ds) \<and> (\<forall>d \<in> set ds. wf_descriptor d)
     \<and> construct_configuration g ds = Some (Some conf) \<and> numbered conf
     \<and> (\<exists>intf intfs alts eps. uc_interfaces conf = intf # intfs \<and> ui_alternates intf = alt # alts
          \<and> (ua_class alt, ua_subclass alt, ua_protocol alt) = (3, 1, 2) \<and> endpoints_of (ua_endpoints alt) = ep # eps)"

lemma read_descriptors_ok:
  assumes "usb_inv gb m hc env n w" "idle gb m (slot, 1) w" "is_boot_mouse g (hc_reply hc slot) ds conf alt ep"
  shows "\<exists>w'. read_descriptors g env slot w = Inr (Inr [ds], w') \<and> usb_inv gb m hc env n w' \<and> framed (idle gb m) w w'"
proof -
  let ?sd = "\<lparr>sd_request_type = GetDescriptor, sd_value = 0x0100, sd_index = 0, sd_length = 18\<rparr>"
  have m: "b_num_configurations g (hc_reply hc slot ?sd (replicate 18 0)) = 1" "serves (encode_all ds) 0 (hc_reply hc slot)" "4 \<le> length (encode_all ds)"
    "length (encode_all ds) \<le> 64" "le_nat [encode_all ds ! 2, encode_all ds ! 3] = length (encode_all ds)" "\<forall>d \<in> set ds. wf_descriptor d"
    using assms(3) unfolding is_boot_mouse_def by blast+
  obtain w1 where w1: "control_transfer env slot ?sd (Some (replicate 18 0)) w = Inr (Inr (hc_reply hc slot ?sd (replicate 18 0)), w1)"
    "usb_inv gb m hc env n w1" "framed (idle gb m) w w1"
    using xhc.control_law [OF assms(1,2), of ?sd "Some (replicate 18 0)"] unfolding request_ok_def bytes_of_def by auto
  obtain w2 where w2: "read_config env slot 0 64 w1 = Inr (Inr ds, w2)" "usb_inv gb m hc env n w2" "framed (idle gb m) w1 w2"
    using xhc.read_config_fits [OF w1(2) framed_idle [OF w1(3) assms(2)] m(2-6)] by blast
  have dd: "read_device_descriptor env slot w = Inr (Inr (hc_reply hc slot ?sd (replicate 18 0)), w1)"
    using w1(1) unfolding read_device_descriptor_def Let_def .
  have u: "[0..<unat (1 :: u8)] = [0]" by simp
  have "read_descriptors g env slot w = Inr (Inr [ds], w2)"
    unfolding read_descriptors_def ubind_simps(3) [of "read_device_descriptor env slot", OF dd] m(1) u using w2(1) by simp
  then show ?thesis using w2(2) framed_trans [OF w1(3) w2(3)] by blast
qed

lemma driver_turn_ok:
  assumes "usb_inv gb m hc env (Suc n) w" "idle gb m (slot, 1) w" "dc_contexts (w_dcbaa w) slot \<noteq> None" "is_boot_mouse g (hc_reply hc slot) ds conf alt ep"
    and "dr_mouse_callback d"
  shows "\<exists>w'. driver_turn g env slot d w = Some (Inr (Inr (d\<lparr>dr_mouse_callback := False,
        dr_spawned := dr_spawned d @ [Mouse_Driver \<lparr>kd_slot_id = slot, kd_interface = ua_interface_num alt, kd_dci = calc_dci ep\<rparr>]\<rparr>), w'))
    \<and> usb_inv gb m hc env n w' \<and> idle gb m (slot, 1) w' \<and> idle gb m (slot, calc_dci ep) w'"
proof -
  let ?k = "\<lparr>kd_slot_id = slot, kd_interface = ua_interface_num alt, kd_dci = calc_dci ep\<rparr>"
  obtain w1 where w1: "read_descriptors g env slot w = Inr (Inr [ds], w1)" "usb_inv gb m hc env (Suc n) w1" "framed (idle gb m) w w1"
    using read_descriptors_ok [OF assms(1,2,4)] by blast
  have dev: "construct_device g slot [ds] = Some (Inr (usb_device_new slot [conf]))" "numbered conf"
    using assms(4) by (simp_all add: is_boot_mouse_def construct_device_def)
  obtain ctx where ctx: "dc_contexts (w_dcbaa w1) slot = Some ctx" using assms(3) w1(3) by (auto simp: framed_def)
  obtain intf intfs alts eps where i: "uc_interfaces conf = intf # intfs" "ui_alternates intf = alt # alts"
    "(ua_class alt, ua_subclass alt, ua_protocol alt) = (3, 1, 2)" "endpoints_of (ua_endpoints alt) = ep # eps"
    using assms(4) unfolding is_boot_mouse_def by blast
  obtain dv w2 where w2: "configure_device env True (dr_keyboard_callback d) (usb_device_new slot [conf]) w1 = Inr (Inr (Some (Mouse_Driver ?k), dv), w2)"
    "usb_inv gb m hc env n w2" "idle gb m (slot, 1) w2" "idle gb m (slot, calc_dci ep) w2"
    using configure_mouse [OF w1(2) framed_idle [OF w1(3) assms(2)] ctx dev(2) i] by blast
  have "start_driver env (usb_device_new slot [conf]) d w1 = Inr (Inr (d\<lparr>dr_mouse_callback := False, dr_spawned := dr_spawned d @ [Mouse_Driver ?k]\<rparr>), w2)"
    using w2(1) assms(5) by (simp add: start_driver_def)
  then show ?thesis using w1(1) w2(2-4) dev(1) by (intro exI [of _ w2]) (simp add: driver_turn_def)
qed

section \<open>Properties\<close>



text \<open>
  One failing device ends the driver: when a device refuses the first request, the task ends with the error, and no
  later device is configured.
\<close>

theorem failing_device_ends_driver:
  assumes "trb_laws (en_sb env) gb (en_lk env)" "4 \<le> m" "en_transfer env = hc_transfer hc" "idle gb m (slot, 1) w"
    and "\<And>sd. \<not> hc_ok hc slot 1 (Some sd) 1"
  shows "\<exists>w'. driver_turn g env slot d w = Some (Inr (Inl (TransferError (hc_event hc 1)), w'))"
proof -
  let ?sd = "\<lparr>sd_request_type = GetDescriptor, sd_value = 0x0100, sd_index = 0, sd_length = 18\<rparr>"
  have "sd_length ?sd \<noteq> 0" "request_ok ?sd (Some (replicate 18 0))" by (simp_all add: request_ok_def)
  then obtain w' where "control_transfer env slot ?sd (Some (replicate 18 0)) w = Inr (Inl (TransferError (hc_event hc 1)), w')"
    using control_transfer_run [OF assms(1-4), of ?sd "Some (replicate 18 0)"] assms(5) by auto
  then show ?thesis by (auto simp: driver_turn_def read_descriptors_def read_device_descriptor_def Let_def)
qed

text \<open>
  The modifier keys of a keyboard report are those whose bits are set, in the order of the bits.
\<close>

theorem modifiers_correct:
  "modifier_set_get m = map (\<lambda>i. [LCtrl, LShift, LAlt, LGui, RCtrl, RShift, RAlt, RGui] ! i) (filter (bit m) [0..<8])"
proof -
  have b: "(drop_bit n m AND 1 = 1) = bit m n" for n by (simp add: and_one_eq odd_iff_mod_2_eq_one [symmetric] bit_iff_odd_drop_bit)
  have c: "(m AND 1 = 1) = bit m 0" using b [of 0] by simp
  have u: "[0..<8] = [0, 1, 2, 3, 4, 5, 6, 7]" by (simp add: upt_rec)
  show ?thesis unfolding u
    by (simp add: modifier_set_get_def l_ctrl_def l_shift_def l_alt_def l_gui_def r_ctrl_def r_shift_def r_alt_def r_gui_def b c Let_def)
qed

section \<open>Examples\<close>

lemma example_boot_mouse:
  "is_boot_mouse byte_get (serve_bytes (encode_all (mouse_descriptors 34)) slot) (mouse_descriptors 34) (mouse_configuration 0) mouse_alternate mouse_endpoint"
proof -
  have "construct_configuration byte_get (mouse_descriptors 34) = Some (Some (mouse_configuration 0))"
    by (simp add: mouse_descriptors_def construct_configuration_def configuration_loop.simps construct_interface_def interface_loop.simps
        construct_interface_alternate_def mouse_configuration_def usb_configuration_new_def mouse_alternate_def mouse_interface_def
        usb_interface_alternate_new_def interface_number_def byte_get_def)
  moreover have "numbered (mouse_configuration 0)" by (simp add: numbered_def mouse_fields)
  ultimately show ?thesis using mouse_wf serve_bytes_serves unfolding is_boot_mouse_def
    by (simp add: mouse_fields mouse_encoded serve_bytes_def b_num_configurations_def byte_get_def example_device_descriptor_def)
qed



theorem failing_device_ends_driver_witness:
  "\<exists>c w w'. let hc = (example_hc (\<lambda>_ _ buf. buf))\<lparr>hc_ok := (\<lambda>_ _ _ k. k = 0)\<rparr> in
     init_command_ring example_lk 4096 32 = Inr (c, 4096) \<and> new_ring (example_env hc) 1 1 (initial_world 8 c) = Inr (Inr 4096, w)
     \<and> driver_turn byte_get (example_env hc) 1 usb_driver_new w = Some (Inr (Inl (TransferError 0), w'))"
proof -
  let ?hc = "(example_hc (\<lambda>_ _ buf. buf))\<lparr>hc_ok := (\<lambda>_ _ _ k. k = 0)\<rparr>"
  obtain c w where w: "init_command_ring example_lk 4096 32 = Inr (c, 4096)" "new_ring (example_env (example_hc (\<lambda>_ _ buf. buf))) 1 1 (initial_world 8 c) = Inr (Inr 4096, w)"
    "idle bit 31 (1, 1) w" using example_idle by blast
  have e: "new_ring (example_env ?hc) 1 1 (initial_world 8 c) = Inr (Inr 4096, w)" using w(2) by (simp add: new_ring_def example_env_def)
  have "trb_laws (en_sb (example_env ?hc)) bit (en_lk (example_env ?hc))" "en_transfer (example_env ?hc) = hc_transfer ?hc"
    using example_laws by (simp_all add: example_env_def)
  from failing_device_ends_driver [OF this(1) _ this(2) w(3), of byte_get usb_driver_new] show ?thesis using w(1) e by (auto simp: Let_def example_hc_def)
qed

end
