(* ===== verification/Xhci_Init.thy ===== *)
theory Xhci_Init
  imports Pci Usb_Event Usb_Driver
begin

text \<open>
  Bringing up the USB host controller, \<^verbatim>\<open>initialize_xhci\<close> and what it calls in \<^verbatim>\<open>kernel/src/usb/xhci.rs\<close>, and
  \<^verbatim>\<open>init_usb\<close> in \<^verbatim>\<open>kernel/src/usb/mod.rs\<close>. The registers are the parameter \<open>hw\<close>: reads of the flags the code polls,
  each of which may change the state of the hardware, and writes, each one update of a register with the calls of the
  setters of the \<^verbatim>\<open>xhci\<close> crate. A polling loop is a partial function, \<open>None\<close> when it never ends.
\<close>

section \<open>Registers\<close>

datatype usbcmd_call =
    Clear_Interrupter_Enable | Clear_Host_System_Error_Enable | Clear_Enable_Wrap_Event | Clear_Run_Stop
  | Set_Host_Controller_Reset | Set_Interrupter_Enable | Set_Run_Stop

datatype reg_write =
    Legacy_Semaphores u16
  | Legacy_Control u32
  | Usbcmd "usbcmd_call list"
  | Config_Max_Slots u8
  | Dcbaap addr
  | Crcr_Pointer_And_Cycle addr
  | Erstsz nat
  | Erstba addr
  | Erdp addr
  | Imod_Interval nat
  | Iman_Clear_Pending_Set_Enable

record 'd xhc_regs =
  rd_semaphores :: "'d \<Rightarrow> u16 \<times> 'd"
  rd_legacy_control :: "'d \<Rightarrow> u32 \<times> 'd"
  rd_halted :: "'d \<Rightarrow> bool \<times> 'd"
  rd_reset :: "'d \<Rightarrow> bool \<times> 'd"
  rd_not_ready :: "'d \<Rightarrow> bool \<times> 'd"
  wr_reg :: "reg_write \<Rightarrow> 'd \<Rightarrow> 'd"

text \<open>Read until the value satisfies the condition.\<close>

partial_function (option) poll_until :: "('d \<Rightarrow> 'v \<times> 'd) \<Rightarrow> ('v \<Rightarrow> bool) \<Rightarrow> 'd \<Rightarrow> 'd option" where
  "poll_until rd P d = (let (v, d) = rd d in if P v then Some d else poll_until rd P d)"

section \<open>Ownership\<close>

text \<open>\<^verbatim>\<open>XhciCapability\<close>: the identifier at the address, the distance to the next one behind it.\<close>

definition capability_next :: "memory \<Rightarrow> addr \<Rightarrow> addr option" where
  "capability_next mem cap = (if mem (cap + 1) = 0 then None else Some (cap + unat (mem (cap + 1)) * 4))"

partial_function (option) find_legacy_support :: "memory \<Rightarrow> addr \<Rightarrow> addr option option" where
  "find_legacy_support mem cap =
     (if mem cap = 1 then Some (Some cap)
      else case capability_next mem cap of None \<Rightarrow> Some None | Some nxt \<Rightarrow> find_legacy_support mem nxt)"

definition os_owned :: "u16 \<Rightarrow> bool" where
  "os_owned spec \<longleftrightarrow> drop_bit 8 spec AND 1 = 1"

definition turn_off_smi :: "u32 \<Rightarrow> u32" where
  "turn_off_smi ctl_sts = (ctl_sts AND 0xffff1fee) OR 0xe0000000"

definition ownership_handoff :: "'d xhc_regs \<Rightarrow> memory \<Rightarrow> nat \<Rightarrow> addr \<Rightarrow> 'd \<Rightarrow> 'd option" where
  "ownership_handoff hw mem ex_cap_ptr mmio_base d =
     (case find_legacy_support mem (mmio_base + ex_cap_ptr * 4) of
        None \<Rightarrow> None
      | Some None \<Rightarrow> Some d
      | Some (Some usb_leg_sup) \<Rightarrow>
          let (cap_specific, d) = rd_semaphores hw d in
          if os_owned cap_specific then Some d
          else
            let (cap_specific, d) = rd_semaphores hw d;
                d = wr_reg hw (Legacy_Semaphores (cap_specific OR 0b100000000)) d
            in case poll_until (rd_semaphores hw) (\<lambda>spec. spec AND 1 = 0 \<and> os_owned spec) d of
                 None \<Rightarrow> None
               | Some d \<Rightarrow> let (ctl_sts, d) = rd_legacy_control hw d in Some (wr_reg hw (Legacy_Control (turn_off_smi ctl_sts)) d))"

section \<open>Reset and start\<close>

definition reset_hc :: "'d xhc_regs \<Rightarrow> 'd \<Rightarrow> 'd option" where
  "reset_hc hw d =
     (let d = wr_reg hw (Usbcmd [Clear_Interrupter_Enable, Clear_Host_System_Error_Enable, Clear_Enable_Wrap_Event]) d;
          (hc_halted, d) = rd_halted hw d
      in case (if \<not> hc_halted then poll_until (rd_halted hw) id (wr_reg hw (Usbcmd [Clear_Run_Stop]) d) else Some d) of
           None \<Rightarrow> None
         | Some d \<Rightarrow>
             let d = wr_reg hw (Usbcmd [Set_Host_Controller_Reset]) d in
             case poll_until (rd_reset hw) Not d of
               None \<Rightarrow> None
             | Some d \<Rightarrow> poll_until (rd_not_ready hw) Not d)"

definition enable_xhci_interrupt_and_start :: "'d xhc_regs \<Rightarrow> 'd \<Rightarrow> 'd option" where
  "enable_xhci_interrupt_and_start hw d =
     (let d = wr_reg hw (Imod_Interval 4000) d;
          d = wr_reg hw Iman_Clear_Pending_Set_Enable d;
          d = wr_reg hw (Usbcmd [Set_Interrupter_Enable]) d;
          d = wr_reg hw (Usbcmd [Set_Run_Stop]) d
      in poll_until (rd_halted hw) Not d)"

section \<open>Initialisation\<close>

text \<open>\<^verbatim>\<open>LinearMapper::map\<close>.\<close>

definition linear_map :: "addr \<Rightarrow> addr res" where
  "linear_map phys_start = (if phys_start = 0 then Inl UnwrapNone else Inr phys_start)"

text \<open>
  What the code relies on: the capability registers, the setter of the entries of the segment table, and the pages for
  the scratchpad. The first allocations are the array of contexts, the scratchpad array, the two rings and the segment
  table; later ones get the addresses from number 5 on.
\<close>

record xhc_platform =
  pf_caps :: hc_capabilities
  pf_ex_cap_ptr :: nat
  pf_set_range :: "128 word \<Rightarrow> nat \<Rightarrow> nat \<Rightarrow> u64 \<Rightarrow> 128 word"
  pf_page :: "nat \<Rightarrow> addr"

record usb_system =
  us_world :: usb_world
  us_events :: event_ring
  us_segment :: "128 word"

datatype usb_task = Command_Task | Transfer_Task | Init_Task | Driver_Task

definition initialize_xhci ::
    "'d xhc_regs \<Rightarrow> usb_env \<Rightarrow> xhc_platform \<Rightarrow> pci_device \<Rightarrow> bool \<Rightarrow> usb_task executor \<Rightarrow> pci_config \<times> memory \<times> 'd
       \<Rightarrow> ((usb_system \<times> usb_task executor) \<times> pci_config \<times> memory \<times> 'd) res option" where
  "initialize_xhci hw env pf xhc intel_ehci spawner = (\<lambda>(cfg, mem, d).
     cbind (Some (read_bar cfg xhc 0)) (\<lambda>xhc_bar.
     cbind (Some (linear_map (unat (xhc_bar AND NOT 0b1111)))) (\<lambda>mmio_base.
     cbind (map_option Inr (ownership_handoff hw mem (pf_ex_cap_ptr pf) mmio_base d)) (\<lambda>d.
     let cfg = (if intel_ehci then write_confreg xhc 0xD0 (read_confreg cfg xhc 0xD4) cfg else cfg) in
     cbind (map_option Inr (reset_hc hw d)) (\<lambda>d.
     cbind (Some (init_dcbaa (pf_caps pf) (en_addr env 0) (en_addr env 1) (pf_page pf) mem)) (\<lambda>(dcbaa, mem, max_slots, dcbaa_ptr).
     let d = wr_reg hw (Dcbaap dcbaa_ptr) (wr_reg hw (Config_Max_Slots max_slots) d) in
     cbind (Some (init_command_ring (en_lk env) (en_addr env 2) 32)) (\<lambda>(cmd_ring, cmd_ptr).
     let d = wr_reg hw (Crcr_Pointer_And_Cycle cmd_ptr) d;
         (event_ring, entry, table_len, event_ptr) = init_event_ring (pf_set_range pf) (en_addr env 3) new_channel new_channel new_channel;
         d = wr_reg hw (Erdp event_ptr) (wr_reg hw (Erstba (en_addr env 4)) (wr_reg hw (Erstsz table_len) d))
     in cbind (map_option Inr (enable_xhci_interrupt_and_start hw d)) (\<lambda>d.
     let w = \<lparr>w_cmd = cmd_ring, w_rings = transfer_ring_set_new 32, w_dcbaa = dcbaa, w_fresh = 0, w_alloc = 5, w_bells = []\<rparr>;
         spawner = spawn Init_Task (spawn Transfer_Task (spawn Command_Task spawner))
     in Some (Inr ((\<lparr>us_world = w, us_events = event_ring, us_segment = entry\<rparr>, spawner), cfg, mem, d))))))))))"

definition init_usb ::
    "'d xhc_regs \<Rightarrow> usb_env \<Rightarrow> xhc_platform \<Rightarrow> pci_device \<Rightarrow> bool \<Rightarrow> pci_config \<times> memory \<times> 'd
       \<Rightarrow> ((usb_system \<times> usb_task executor \<times> usb_driver) \<times> pci_config \<times> memory \<times> 'd) res option" where
  "init_usb hw env pf xhc intel_ehci s =
     cbind (initialize_xhci hw env pf xhc intel_ehci new_executor s) (\<lambda>((sys, ex), s).
     Some (Inr ((sys, spawn Driver_Task ex, usb_driver_new), s)))"

section \<open>A controller as the standard describes it\<close>

text \<open>
  It halts, starts, resets and becomes ready after any number of reads; a reset forgets all registers; the firmware gives up
  the controller some time after the operating system asked for it. \<open>xs_config\<close> are the registers that have to be
  set before the start: slots, context array, command ring, size and address of the segment table, dequeue pointer.
\<close>

type_synonym xhc_config = "u8 option \<times> addr option \<times> addr option \<times> nat option \<times> addr option \<times> addr option"

record xhc_spec =
  xs_run :: bool
  xs_halt_in :: nat
  xs_reset_in :: nat
  xs_ready_in :: nat
  xs_interrupter :: bool
  xs_interrupts :: bool
  xs_config :: xhc_config
  xs_started :: "xhc_config option"
  xs_bios_owned :: bool
  xs_os_owned :: bool
  xs_release_in :: nat
  xs_legacy_control :: u32
  xs_delays :: "nat \<times> nat \<times> nat"

definition no_config :: xhc_config where
  "no_config = (None, None, None, None, None, None)"

fun apply_usbcmd :: "usbcmd_call \<Rightarrow> xhc_spec \<Rightarrow> xhc_spec" where
  "apply_usbcmd Clear_Interrupter_Enable d = d\<lparr>xs_interrupts := False\<rparr>"
| "apply_usbcmd Set_Interrupter_Enable d = d\<lparr>xs_interrupts := True\<rparr>"
| "apply_usbcmd Clear_Run_Stop d = d\<lparr>xs_run := False, xs_halt_in := fst (xs_delays d)\<rparr>"
| "apply_usbcmd Set_Run_Stop d = d\<lparr>xs_run := True, xs_halt_in := fst (xs_delays d), xs_started := Some (xs_config d)\<rparr>"
| "apply_usbcmd Set_Host_Controller_Reset d = d\<lparr>xs_run := False, xs_halt_in := 0, xs_reset_in := fst (snd (xs_delays d)), xs_ready_in := snd (snd (xs_delays d)),
     xs_interrupter := False, xs_interrupts := False, xs_config := no_config, xs_started := None\<rparr>"
| "apply_usbcmd _ d = d"

fun apply_reg :: "reg_write \<Rightarrow> xhc_spec \<Rightarrow> xhc_spec" where
  "apply_reg (Legacy_Semaphores v) d = d\<lparr>xs_os_owned := bit v 8\<rparr>"
| "apply_reg (Legacy_Control v) d = d\<lparr>xs_legacy_control := v\<rparr>"
| "apply_reg (Usbcmd calls) d = fold apply_usbcmd calls d"
| "apply_reg (Config_Max_Slots n) d = (case xs_config d of (_, r) \<Rightarrow> d\<lparr>xs_config := (Some n, r)\<rparr>)"
| "apply_reg (Dcbaap p) d = (case xs_config d of (a, _, r) \<Rightarrow> d\<lparr>xs_config := (a, Some p, r)\<rparr>)"
| "apply_reg (Crcr_Pointer_And_Cycle p) d = (case xs_config d of (a, b, _, r) \<Rightarrow> d\<lparr>xs_config := (a, b, Some p, r)\<rparr>)"
| "apply_reg (Erstsz n) d = (case xs_config d of (a, b, c, _, r) \<Rightarrow> d\<lparr>xs_config := (a, b, c, Some n, r)\<rparr>)"
| "apply_reg (Erstba p) d = (case xs_config d of (a, b, c, e, _, r) \<Rightarrow> d\<lparr>xs_config := (a, b, c, e, Some p, r)\<rparr>)"
| "apply_reg (Erdp p) d = (case xs_config d of (a, b, c, e, f, _) \<Rightarrow> d\<lparr>xs_config := (a, b, c, e, f, Some p)\<rparr>)"
| "apply_reg (Imod_Interval n) d = d"
| "apply_reg Iman_Clear_Pending_Set_Enable d = d\<lparr>xs_interrupter := True\<rparr>"

definition semaphores :: "xhc_spec \<Rightarrow> u16" where
  "semaphores d = (if xs_bios_owned d then 1 else 0) OR (if xs_os_owned d then 0x100 else 0)"

definition spec_regs :: "xhc_spec xhc_regs" where
  "spec_regs = \<lparr>
     rd_semaphores = (\<lambda>d. let d = (if xs_os_owned d then (case xs_release_in d of 0 \<Rightarrow> d\<lparr>xs_bios_owned := False\<rparr> | Suc n \<Rightarrow> d\<lparr>xs_release_in := n\<rparr>) else d) in (semaphores d, d)),
     rd_legacy_control = (\<lambda>d. (xs_legacy_control d, d)),
     rd_halted = (\<lambda>d. case xs_halt_in d of 0 \<Rightarrow> (\<not> xs_run d, d) | Suc n \<Rightarrow> (xs_run d, d\<lparr>xs_halt_in := n\<rparr>)),
     rd_reset = (\<lambda>d. case xs_reset_in d of 0 \<Rightarrow> (False, d) | Suc n \<Rightarrow> (True, d\<lparr>xs_reset_in := n\<rparr>)),
     rd_not_ready = (\<lambda>d. case xs_ready_in d of 0 \<Rightarrow> (False, d) | Suc n \<Rightarrow> (True, d\<lparr>xs_ready_in := n\<rparr>)),
     wr_reg = apply_reg\<rparr>"

lemma semaphore_bits:
  "semaphores d AND 1 = 0 \<longleftrightarrow> \<not> xs_bios_owned d" "os_owned (semaphores d) \<longleftrightarrow> xs_os_owned d"
  by (cases "xs_bios_owned d"; cases "xs_os_owned d"; simp add: semaphores_def os_owned_def; code_simp)+

section \<open>The loops end\<close>

lemma poll_halted: "\<not> xs_run d \<Longrightarrow> poll_until (rd_halted spec_regs) id d = Some (d\<lparr>xs_halt_in := 0\<rparr>)"
  by (induction "xs_halt_in d" arbitrary: d) (subst poll_until.simps, auto simp: spec_regs_def split: nat.splits)+

lemma poll_running: "xs_run d \<Longrightarrow> poll_until (rd_halted spec_regs) Not d = Some (d\<lparr>xs_halt_in := 0\<rparr>)"
  by (induction "xs_halt_in d" arbitrary: d) (subst poll_until.simps, auto simp: spec_regs_def split: nat.splits)+

lemma poll_reset: "poll_until (rd_reset spec_regs) Not d = Some (d\<lparr>xs_reset_in := 0\<rparr>)"
  by (induction "xs_reset_in d" arbitrary: d) (subst poll_until.simps, auto simp: spec_regs_def split: nat.splits)+

lemma poll_ready: "poll_until (rd_not_ready spec_regs) Not d = Some (d\<lparr>xs_ready_in := 0\<rparr>)"
  by (induction "xs_ready_in d" arbitrary: d) (subst poll_until.simps, auto simp: spec_regs_def split: nat.splits)+

lemma rd_semaphores_owned:
  "\<lbrakk>xs_os_owned d; xs_release_in d = 0\<rbrakk> \<Longrightarrow> rd_semaphores spec_regs d = (0x100, d\<lparr>xs_bios_owned := False\<rparr>)"
  "\<lbrakk>xs_os_owned d; xs_release_in d = Suc n\<rbrakk> \<Longrightarrow> rd_semaphores spec_regs d = (semaphores d, d\<lparr>xs_release_in := n\<rparr>)"
  by (simp_all add: spec_regs_def semaphores_def)

lemma poll_released:
  "xs_os_owned d \<Longrightarrow> \<exists>n. poll_until (rd_semaphores spec_regs) (\<lambda>spec. spec AND 1 = 0 \<and> os_owned spec) d = Some (d\<lparr>xs_bios_owned := False, xs_release_in := n\<rparr>)"
proof (induction "xs_release_in d" arbitrary: d)
  case 0
  have "(0x100 :: u16) AND 1 = 0" "os_owned 0x100" by (simp_all add: os_owned_def)
  moreover have "d\<lparr>xs_bios_owned := False\<rparr> = d\<lparr>xs_bios_owned := False, xs_release_in := 0\<rparr>" using "0.hyps" by simp
  ultimately show ?case using rd_semaphores_owned(1) [OF "0.prems"] "0.hyps"
    by (subst poll_until.simps, intro exI [of _ 0]) simp
next
  case (Suc n)
  note r = rd_semaphores_owned(2) [OF Suc.prems Suc.hyps(2) [symmetric]]
  show ?case
  proof (cases "xs_bios_owned d")
    case True
    then show ?thesis using Suc.hyps(1) [of "d\<lparr>xs_release_in := n\<rparr>"] Suc.prems
      by (subst poll_until.simps) (simp add: r semaphore_bits)
  next
    case False
    then have "d\<lparr>xs_release_in := n\<rparr> = d\<lparr>xs_bios_owned := False, xs_release_in := n\<rparr>" by simp
    then show ?thesis using False Suc.prems by (subst poll_until.simps, intro exI [of _ n]) (simp add: r semaphore_bits)
  qed
qed

text \<open>\<open>cs\<close>: the capabilities up to the one for legacy support.\<close>

definition capability_list :: "memory \<Rightarrow> addr \<Rightarrow> addr list \<Rightarrow> bool" where
  "capability_list mem cap cs \<longleftrightarrow> cs \<noteq> [] \<and> hd cs = cap \<and> mem (last cs) = 1 \<and> successively (\<lambda>a b. mem a \<noteq> 1 \<and> capability_next mem a = Some b) cs"

lemma capability_list_same:
  assumes "capability_list mem cap cs" "\<forall>c \<in> set cs. mem' c = mem c \<and> mem' (c + 1) = mem (c + 1)"
  shows "capability_list mem' cap cs"
proof -
  have "successively (\<lambda>a b. mem' a \<noteq> 1 \<and> capability_next mem' a = Some b) cs"
    by (rule successively_mono [of "\<lambda>a b. mem a \<noteq> 1 \<and> capability_next mem a = Some b"]) (use assms in \<open>auto simp: capability_list_def capability_next_def\<close>)
  then show ?thesis using assms by (auto simp: capability_list_def)
qed

lemma find_legacy_list: "capability_list mem cap cs \<Longrightarrow> find_legacy_support mem cap = Some (Some (last cs))"
proof (induction cs arbitrary: cap)
  case Nil
  then show ?case by (simp add: capability_list_def)
next
  case (Cons c cs)
  show ?case
  proof (cases cs)
    case Nil
    then have "mem cap = 1" "c = cap" using Cons.prems by (auto simp: capability_list_def)
    then show ?thesis using Nil by (subst find_legacy_support.simps) simp
  next
    case (Cons b bs)
    then have "mem c \<noteq> 1" "capability_next mem c = Some b" "c = cap" "capability_list mem b cs" using Cons.prems by (auto simp: capability_list_def)
    then show ?thesis using Cons.IH [of b] Cons by (subst find_legacy_support.simps) simp
  qed
qed

section \<open>Reset and start\<close>

lemma wr_spec [simp]: "wr_reg spec_regs = apply_reg"
  by (simp add: spec_regs_def)

text \<open>What a reset leaves of the state.\<close>

definition after_reset :: "xhc_spec \<Rightarrow> xhc_spec \<Rightarrow> bool" where
  "after_reset d d' \<longleftrightarrow> \<not> xs_run d' \<and> \<not> xs_interrupts d' \<and> \<not> xs_interrupter d' \<and> xs_reset_in d' = 0 \<and> xs_ready_in d' = 0
     \<and> xs_config d' = no_config \<and> xs_started d' = None \<and> xs_bios_owned d' = xs_bios_owned d \<and> xs_os_owned d' = xs_os_owned d
     \<and> xs_legacy_control d' = xs_legacy_control d"

lemma reset_from:
  "xs_bios_owned d2 = xs_bios_owned d \<Longrightarrow> xs_os_owned d2 = xs_os_owned d \<Longrightarrow> xs_legacy_control d2 = xs_legacy_control d
    \<Longrightarrow> \<exists>d'. (let d = apply_reg (Usbcmd [Set_Host_Controller_Reset]) d2 in
      case poll_until (rd_reset spec_regs) Not d of None \<Rightarrow> None | Some d \<Rightarrow> poll_until (rd_not_ready spec_regs) Not d) = Some d' \<and> after_reset d d'"
  by (simp add: poll_reset poll_ready after_reset_def)

lemma rd_halted_spec: "\<exists>h n. rd_halted spec_regs d = (h, d\<lparr>xs_halt_in := n\<rparr>)"
proof (cases "xs_halt_in d")
  case 0
  then have "rd_halted spec_regs d = (\<not> xs_run d, d\<lparr>xs_halt_in := 0\<rparr>)" by (simp add: spec_regs_def)
  then show ?thesis by blast
next
  case (Suc n)
  then have "rd_halted spec_regs d = (xs_run d, d\<lparr>xs_halt_in := n\<rparr>)" by (simp add: spec_regs_def)
  then show ?thesis by blast
qed

lemma reset_hc_spec: "\<exists>d'. reset_hc spec_regs d = Some d' \<and> after_reset d d'"
proof -
  obtain h n where h: "rd_halted spec_regs (d\<lparr>xs_interrupts := False\<rparr>) = (h, d\<lparr>xs_interrupts := False, xs_halt_in := n\<rparr>)"
    using rd_halted_spec [of "d\<lparr>xs_interrupts := False\<rparr>"] by auto
  let ?d1 = "d\<lparr>xs_interrupts := False, xs_halt_in := n\<rparr>"
  let ?d2 = "if h then ?d1 else ?d1\<lparr>xs_run := False, xs_halt_in := 0\<rparr>"
  have p: "(if \<not> h then poll_until (rd_halted spec_regs) id (apply_reg (Usbcmd [Clear_Run_Stop]) ?d1) else Some ?d1) = Some ?d2"
    by (simp add: poll_halted)
  have "reset_hc spec_regs d = (let d = apply_reg (Usbcmd [Set_Host_Controller_Reset]) ?d2 in
      case poll_until (rd_reset spec_regs) Not d of None \<Rightarrow> None | Some d \<Rightarrow> poll_until (rd_not_ready spec_regs) Not d)"
    unfolding reset_hc_def Let_def wr_spec using h p by (simp only: apply_reg.simps fold_simps apply_usbcmd.simps comp_def id_def case_prod_conv option.case)
  then show ?thesis using reset_from [of ?d2 d] by simp
qed

lemma start_spec:
  "enable_xhci_interrupt_and_start spec_regs d
     = Some (d\<lparr>xs_interrupter := True, xs_interrupts := True, xs_run := True, xs_halt_in := 0, xs_started := Some (xs_config d)\<rparr>)"
  by (simp add: enable_xhci_interrupt_and_start_def poll_running)

lemma turn_off_smi_bits: "n < 32 \<Longrightarrow> bit (turn_off_smi c) n \<longleftrightarrow> n \<in> {29, 30, 31} \<or> bit c n \<and> n \<notin> {0, 4, 13, 14, 15}"
proof -
  assume n: "n < 32"
  have "list_all (\<lambda>n. bit (0xffff1fee :: u32) n = (n \<notin> set [0, 4, 13, 14, 15]) \<and> bit (0xe0000000 :: u32) n = (n \<in> set [29, 30, 31])) [0..<32]"
    by code_simp
  then have "bit (0xffff1fee :: u32) n = (n \<notin> {0, 4, 13, 14, 15})" "bit (0xe0000000 :: u32) n = (n \<in> {29, 30, 31})"
    using n unfolding list_all_iff by simp_all
  then show ?thesis by (auto simp: turn_off_smi_def bit_or_iff bit_and_iff)
qed

lemma handoff_spec:
  assumes "capability_list mem (mmio_base + ex_cap_ptr * 4) cs"
  shows "\<exists>d'. ownership_handoff spec_regs mem ex_cap_ptr mmio_base d = Some d' \<and> xs_os_owned d'
    \<and> (\<not> xs_os_owned d \<longrightarrow> \<not> xs_bios_owned d' \<and> xs_legacy_control d' = turn_off_smi (xs_legacy_control d))"
proof -
  note f = find_legacy_list [OF assms]
  show ?thesis
  proof (cases "xs_os_owned d")
    case True
    obtain v d' where r: "rd_semaphores spec_regs d = (v, d')" by fastforce
    then have "os_owned v" "xs_os_owned d'" using True
      by (auto simp: spec_regs_def semaphore_bits Let_def split: nat.splits)
    then show ?thesis using True r by (simp add: ownership_handoff_def f)
  next
    case False
    then have r: "rd_semaphores spec_regs d = (semaphores d, d)" by (simp add: spec_regs_def)
    have b: "bit (semaphores d OR 0b100000000) 8"
    proof -
      have "bit (0b100000000 :: u16) 8" by code_simp
      then show ?thesis by (simp add: bit_or_iff)
    qed
    obtain n where n: "poll_until (rd_semaphores spec_regs) (\<lambda>spec. spec AND 1 = 0 \<and> os_owned spec) (d\<lparr>xs_os_owned := True\<rparr>)
        = Some (d\<lparr>xs_os_owned := True, xs_bios_owned := False, xs_release_in := n\<rparr>)"
      using poll_released [of "d\<lparr>xs_os_owned := True\<rparr>"] by auto
    have "ownership_handoff spec_regs mem ex_cap_ptr mmio_base d
        = Some (d\<lparr>xs_os_owned := True, xs_bios_owned := False, xs_release_in := n, xs_legacy_control := turn_off_smi (xs_legacy_control d)\<rparr>)"
      using False b n unfolding ownership_handoff_def f by (simp add: r semaphore_bits spec_regs_def)
    then show ?thesis using False by auto
  qed
qed

section \<open>The state after the start\<close>

text \<open>\<open>platform_ok\<close>: the allocations succeed and the capability for legacy support is found from the first one.\<close>

definition platform_ok :: "usb_env \<Rightarrow> xhc_platform \<Rightarrow> memory \<Rightarrow> addr \<Rightarrow> bool" where
  "platform_ok env pf mem mmio_base \<longleftrightarrow> en_addr env 0 \<noteq> 0 \<and> (\<forall>i. pf_page pf i \<noteq> 0) \<and> (\<exists>cs. capability_list mem (mmio_base + pf_ex_cap_ptr pf * 4) cs)"

lemma make_scratchpad_ok:
  assumes "\<forall>i. page i \<noteq> 0"
  shows "\<exists>mem'. make_scratchpad page n sz mem = Inr (map page [0..<n], mem')"
proof -
  let ?f = "\<lambda>i (page_ptrs, mem). if page i = 0 then Inl ExplicitPanic else Inr (page_ptrs @ [page i], place (page i) (replicate sz 0) mem)"
  have step: "?f i (ps, mem) = Inr (ps @ [page i], place (page i) (replicate sz 0) mem)" for i ps mem using assms by simp
  have "\<exists>mem'. foldM ?f xs (ps, mem) = Inr (ps @ map page xs, mem')" for xs ps mem
  proof (induction xs arbitrary: ps mem)
    case Nil
    then show ?case by simp
  next
    case (Cons x xs)
    from Cons [of "ps @ [page x]" "place (page x) (replicate sz 0) mem"] show ?case unfolding foldM.simps step by simp
  qed
  from this [of "[0..<n]" "[]" mem] show ?thesis by (simp add: make_scratchpad_def)
qed

lemma init_dcbaa_ok:
  assumes "base \<noteq> 0" "\<forall>i. page i \<noteq> 0"
  shows "\<exists>dc mem'. init_dcbaa cap base arr page mem = Inr (dc, mem', number_of_device_slots cap, base) \<and> dc_base dc = base
    \<and> length (dc_array dc) = unat (number_of_device_slots cap) + 1 \<and> dc_contexts dc = (\<lambda>_. None)
    \<and> dc_scratchpad dc = (if max_scratchpad_buffers cap > 0 then Some (arr, map page [0..<max_scratchpad_buffers cap]) else None)
    \<and> dc_array dc ! 0 = (if max_scratchpad_buffers cap > 0 then arr else 0)"
proof -
  let ?n = "unat (number_of_device_slots cap) + 1"
  have lt: "unat (number_of_device_slots cap) < 256" using unsigned_less [of "number_of_device_slots cap", where 'a = nat] by simp
  have z: "aligned_zeros base ?n = Inr (replicate ?n 0)" using assms(1) lt by (simp add: aligned_zeros_def res_simps usize_mul_def usize_bound_def)
  obtain mem' where m: "make_scratchpad page (max_scratchpad_buffers cap) (2 ^ (12 + find_lsb (pagesize_register cap))) mem = Inr (map page [0..<max_scratchpad_buffers cap], mem')"
    using make_scratchpad_ok [OF assms(2)] by blast
  show ?thesis using z m by (cases "max_scratchpad_buffers cap > 0") (auto simp: init_dcbaa_def Let_def store_def)
qed

lemma init_command_ring_room:
  assumes "trb_laws sb gb lk" "w_cmd w = c" "init_command_ring lk base n = Inr (c, p)"
  shows "room gb 30 w \<and> p = base"
proof -
  obtain r T where r: "producer_new lk base 32 = Inr r" "pr_ring_inv gb 31 base 0 0 r" "slots gb 31 0 (pr_data r) T" "pr_base r = base"
    using pr_inv_new [OF assms(1), of 31 base] by (auto simp: pr_inv_def pr_ring_inv_def)
  then have "c = \<lparr>cmd_ring = r, cmd_listener = (\<lambda>_. None)\<rparr>" "p = base" using assms(3) by (auto simp: init_command_ring_def)
  then show ?thesis using r(2,3) assms(2) unfolding room_def by (intro conjI exI [of _ base] exI [of _ 0] exI [of _ T]) auto
qed

text \<open>The registers that the code sets, on a controller that was just reset.\<close>

lemma configure_regs:
  assumes "xs_config d = no_config"
  shows "xs_config (apply_reg (Erdp f) (apply_reg (Erstba e) (apply_reg (Erstsz c) (apply_reg (Crcr_Pointer_And_Cycle b) (apply_reg (Dcbaap a) (apply_reg (Config_Max_Slots n) d))))))
    = (Some n, Some a, Some b, Some c, Some e, Some f)"
  using assms by (simp add: no_config_def)

lemma configure_regs_frame:
  "xs_os_owned (apply_reg (Erdp f) (apply_reg (Erstba e) (apply_reg (Erstsz c) (apply_reg (Crcr_Pointer_And_Cycle b) (apply_reg (Dcbaap a) (apply_reg (Config_Max_Slots n) d)))))) = xs_os_owned d"
  by (simp split: prod.splits)

text \<open>\<open>brought_up\<close>: the controller runs with interrupts on and knows the structures of the kernel, whose rings are all empty.\<close>

definition brought_up :: "usb_env \<Rightarrow> xhc_platform \<Rightarrow> usb_system \<Rightarrow> xhc_spec \<Rightarrow> bool" where
  "brought_up env pf sys d \<longleftrightarrow> xs_run d \<and> xs_interrupts d \<and> xs_interrupter d \<and> xs_os_owned d
     \<and> xs_started d = Some (Some (number_of_device_slots (pf_caps pf)), Some (dc_base (w_dcbaa (us_world sys))), Some (pr_base (cmd_ring (w_cmd (us_world sys)))),
         Some 1, Some (en_addr env 4), Some (cr_base (er_ring (us_events sys))))
     \<and> us_segment sys = segment_table_entry (pf_set_range pf) (cr_base (er_ring (us_events sys))) 32
     \<and> er_ring (us_events sys) = consumer_new (cr_base (er_ring (us_events sys))) 32
     \<and> w_rings (us_world sys) = transfer_ring_set_new 32
     \<and> length (dc_array (w_dcbaa (us_world sys))) = unat (number_of_device_slots (pf_caps pf)) + 1"

lemma initialize_xhci_ok:
  assumes L: "trb_laws (en_sb env) gb (en_lk env)" and bar: "read_bar cfg xhc 0 = Inr bar" "unat (bar AND NOT 0b1111) \<noteq> 0"
    and pf: "platform_ok env pf mem (unat (bar AND NOT 0b1111))"
  shows "\<exists>sys cfg' mem' d'. initialize_xhci spec_regs env pf xhc ehci ex (cfg, mem, d)
      = Some (Inr ((sys, spawn Init_Task (spawn Transfer_Task (spawn Command_Task ex))), cfg', mem', d'))
    \<and> brought_up env pf sys d' \<and> room gb 30 (us_world sys)
    \<and> cfg' = (if ehci then write_confreg xhc 0xD0 (read_confreg cfg xhc 0xD4) cfg else cfg)"
proof -
  let ?mmio = "unat (bar AND NOT 0b1111)"
  obtain cs where cs: "capability_list mem (?mmio + pf_ex_cap_ptr pf * 4) cs" using pf by (auto simp: platform_ok_def)
  obtain d1 where d1: "ownership_handoff spec_regs mem (pf_ex_cap_ptr pf) ?mmio d = Some d1" "xs_os_owned d1" using handoff_spec [OF cs] by blast
  obtain d2 where d2: "reset_hc spec_regs d1 = Some d2" "after_reset d1 d2" using reset_hc_spec by blast
  obtain dc mem' where dc: "init_dcbaa (pf_caps pf) (en_addr env 0) (en_addr env 1) (pf_page pf) mem = Inr (dc, mem', number_of_device_slots (pf_caps pf), en_addr env 0)"
    "dc_base dc = en_addr env 0" "length (dc_array dc) = unat (number_of_device_slots (pf_caps pf)) + 1"
    using init_dcbaa_ok [of "en_addr env 0" "pf_page pf"] pf unfolding platform_ok_def by metis
  obtain r where r: "producer_new (en_lk env) (en_addr env 2) 32 = Inr r" "pr_base r = en_addr env 2"
    using pr_inv_new [OF L, of 31 "en_addr env 2"] by (auto simp: pr_inv_def pr_ring_inv_def)
  let ?c = "\<lparr>cmd_ring = r, cmd_listener = (\<lambda>_. None)\<rparr>"
  have c: "init_command_ring (en_lk env) (en_addr env 2) 32 = Inr (?c, en_addr env 2)" using r by (simp add: init_command_ring_def)
  let ?cfg = "if ehci then write_confreg xhc 0xD0 (read_confreg cfg xhc 0xD4) cfg else cfg"
  let ?d3 = "apply_reg (Erdp (en_addr env 3)) (apply_reg (Erstba (en_addr env 4)) (apply_reg (Erstsz 1) (apply_reg (Crcr_Pointer_And_Cycle (en_addr env 2))
      (apply_reg (Dcbaap (en_addr env 0)) (apply_reg (Config_Max_Slots (number_of_device_slots (pf_caps pf))) d2)))))"
  let ?er = "\<lparr>er_ring = consumer_new (en_addr env 3) 32, er_trf = new_channel, er_cmd = new_channel, er_port = new_channel\<rparr>"
  let ?w = "\<lparr>w_cmd = ?c, w_rings = transfer_ring_set_new 32, w_dcbaa = dc, w_fresh = 0, w_alloc = 5, w_bells = []\<rparr>"
  let ?sys = "\<lparr>us_world = ?w, us_events = ?er, us_segment = segment_table_entry (pf_set_range pf) (en_addr env 3) 32\<rparr>"
  let ?d' = "?d3\<lparr>xs_interrupter := True, xs_interrupts := True, xs_run := True, xs_halt_in := 0, xs_started := Some (xs_config ?d3)\<rparr>"
  have e: "init_event_ring (pf_set_range pf) (en_addr env 3) new_channel new_channel new_channel = (?er, segment_table_entry (pf_set_range pf) (en_addr env 3) 32, 1, en_addr env 3)"
    by (simp add: init_event_ring_def consumer_new_def)
  have run: "initialize_xhci spec_regs env pf xhc ehci ex (cfg, mem, d)
      = Some (Inr ((?sys, spawn Init_Task (spawn Transfer_Task (spawn Command_Task ex))), ?cfg, mem', ?d'))"
    unfolding initialize_xhci_def using bar d1(1) d2(1) dc(1) c e
    by (simp add: linear_map_def start_spec Let_def del: apply_reg.simps)
  have conf: "xs_config ?d3 = (Some (number_of_device_slots (pf_caps pf)), Some (en_addr env 0), Some (en_addr env 2), Some 1, Some (en_addr env 4), Some (en_addr env 3))"
    by (rule configure_regs) (use d2(2) in \<open>simp add: after_reset_def\<close>)
  have own: "xs_os_owned ?d3" unfolding configure_regs_frame using d1(2) d2(2) by (simp add: after_reset_def)
  have "brought_up env pf ?sys ?d'" unfolding brought_up_def using conf own dc(2,3) r(2) by (simp add: consumer_new_def del: apply_reg.simps)
  moreover have "room gb 30 (us_world ?sys)" using init_command_ring_room [OF L _ c, of ?w] by simp
  ultimately show ?thesis using run by blast
qed

lemma init_usb_ok:
  assumes "trb_laws (en_sb env) gb (en_lk env)" "read_bar cfg xhc 0 = Inr bar" "unat (bar AND NOT 0b1111) \<noteq> 0" "platform_ok env pf mem (unat (bar AND NOT 0b1111))"
  shows "\<exists>sys ex cfg' mem' d'. init_usb spec_regs env pf xhc ehci (cfg, mem, d) = Some (Inr ((sys, ex, usb_driver_new), cfg', mem', d'))
    \<and> brought_up env pf sys d' \<and> room gb 30 (us_world sys)
    \<and> ch_queue (ex_queue ex) = [0, 1, 2, 3] \<and> map (ex_slot ex) [0, 1, 2, 3] = map Some [Command_Task, Transfer_Task, Init_Task, Driver_Task]
    \<and> cfg' = (if ehci then write_confreg xhc 0xD0 (read_confreg cfg xhc 0xD4) cfg else cfg)"
proof -
  obtain sys cfg' mem' d' where "initialize_xhci spec_regs env pf xhc ehci new_executor (cfg, mem, d)
      = Some (Inr ((sys, spawn Init_Task (spawn Transfer_Task (spawn Command_Task new_executor))), cfg', mem', d'))"
    "brought_up env pf sys d'" "room gb 30 (us_world sys)" "cfg' = (if ehci then write_confreg xhc 0xD0 (read_confreg cfg xhc 0xD4) cfg else cfg)"
    using initialize_xhci_ok [OF assms] by blast
  then show ?thesis
    by (simp add: init_usb_def spawn_def wake_by_ref_def sender_send_def new_executor_def new_channel_def eval_nat_numeral)
qed

section \<open>Properties\<close>


text \<open>
  The handover of the controller from the firmware: the semaphore of the operating system is set, the kernel waits
  until the firmware has cleared its own, and then all sources of system management interrupts are switched off and
  their pending events cleared, and nothing else is changed in the register.
\<close>

theorem ownership_taken:
  assumes "capability_list mem (mmio_base + ex_cap_ptr * 4) cs" "\<not> xs_os_owned d"
  shows "\<exists>d'. ownership_handoff spec_regs mem ex_cap_ptr mmio_base d = Some d' \<and> xs_os_owned d' \<and> \<not> xs_bios_owned d'
    \<and> (\<forall>n < 32. bit (xs_legacy_control d') n \<longleftrightarrow> n \<in> {29, 30, 31} \<or> bit (xs_legacy_control d) n \<and> n \<notin> {0, 4, 13, 14, 15})"
  using handoff_spec [OF assms(1), of d] assms(2) turn_off_smi_bits by auto

section \<open>Examples\<close>

definition example_platform :: xhc_platform where
  "example_platform = \<lparr>pf_caps = \<lparr>number_of_device_slots = 8, context_size_64 = False, max_scratchpad_buffers = 1, pagesize_register = 1\<rparr>,
     pf_ex_cap_ptr = 0x100, pf_set_range = (\<lambda>t _ _ _. t), pf_page = (\<lambda>i. 0x100000 + 0x1000 * i)\<rparr>"

definition example_xhc :: xhc_spec where
  "example_xhc = \<lparr>xs_run = True, xs_halt_in = 3, xs_reset_in = 0, xs_ready_in = 0, xs_interrupter = False, xs_interrupts = True, xs_config = no_config,
     xs_started = Some no_config, xs_bios_owned = True, xs_os_owned = False, xs_release_in = 7, xs_legacy_control = 0x11, xs_delays = (4, 5, 6)\<rparr>"

definition example_cap_mem :: memory where
  "example_cap_mem = (\<lambda>a. if a = 0x400 then 2 else if a = 0x401 then 4 else if a = 0x410 then 1 else if a = 0x1400 then 1 else 0)"

lemma example_caps: "capability_list example_cap_mem 0x400 [0x400, 0x410]" "capability_list example_cap_mem 0x1400 [0x1400]"
  by (simp_all add: capability_list_def example_cap_mem_def capability_next_def)

theorem ownership_taken_witness:
  "\<exists>d'. ownership_handoff spec_regs example_cap_mem 0x100 0 example_xhc = Some d' \<and> \<not> xs_bios_owned d' \<and> bit (xs_legacy_control d') 31 \<and> \<not> bit (xs_legacy_control d') 4"
  using ownership_taken [of example_cap_mem 0 "0x100" "[0x400, 0x410]" example_xhc] example_caps by (auto simp: example_xhc_def)


end
