(* ===== verification/System.thy ===== *)
theory System
  imports Kernel Xhci_Init
begin

text \<open>
  The kernel with a mouse and a keyboard: \<^verbatim>\<open>usb::on_xhc_interrupt\<close> as the handler that the main loop calls, and what the
  callbacks of \<^verbatim>\<open>KernelMain2\<close> do with the reports. The theory shows that the USB stack meets the contract that the kernel
  has for its handler, so that the results on the running kernel hold for the kernel with its devices.
\<close>

section \<open>The devices\<close>

type_synonym screen = "console \<times> layered_window_manager"

text \<open>The two closures that \<^verbatim>\<open>KernelMain2\<close> gives to \<^verbatim>\<open>init_usb\<close>; \<open>fmt\<close> is the text of a key report as \<^verbatim>\<open>core::fmt\<close> prints it.\<close>

definition mouse_callback :: "mouse_report \<Rightarrow> screen \<Rightarrow> screen res" where
  "mouse_callback report = (\<lambda>(con, m). rbind (on_mouse_report 0 (mr_dx report, mr_dy report) m) (\<lambda>m. Inr (con, m)))"

definition key_callback :: "(key_report \<Rightarrow> u8 list list) \<Rightarrow> key_report \<Rightarrow> screen \<Rightarrow> screen res" where
  "key_callback fmt report = println (fmt report)"

text \<open>
  The state of the driver: the world of the rings, the driver task with the tasks it started, and whether the tasks had their
  first turn. The parameters: the ports with their connections and speeds, the functions of the bitfield crate, which of the started
  tasks the next report is for, by the number of its transfer, the texts that \<^verbatim>\<open>core::fmt\<close> makes of a key report and of an error, and
  what the tasks print while they bring up the devices.
\<close>

record usb_state =
  ut_world :: usb_world
  ut_driver :: usb_driver
  ut_started :: bool

record usb_setup =
  up_bits :: bits_get
  up_speed :: "nat \<Rightarrow> u8"
  up_connected :: "nat \<Rightarrow> bool"
  up_ports :: nat
  up_who :: "nat \<Rightarrow> nat"
  up_fmt :: "key_report \<Rightarrow> u8 list list"
  up_dbg :: "xhci_error \<Rightarrow> u8 list list"
  up_trace :: "u8 list list list"

text \<open>\<^verbatim>\<open>UsbDriver::main_loop\<close> over the slots that were announced; an error ends the task.\<close>

fun driver_turns :: "usb_setup \<Rightarrow> usb_env \<Rightarrow> nat list \<Rightarrow> usb_driver \<Rightarrow> usb_world \<Rightarrow> ((xhci_error option \<times> usb_driver) \<times> usb_world) res option" where
  "driver_turns up env [] d w = Some (Inr ((None, d), w))"
| "driver_turns up env (slot_id # rest) d w =
     cbind (driver_turn (up_bits up) env slot_id d w) (\<lambda>(r, w). case r of
       Inl e \<Rightarrow> Some (Inr ((Some e, d), w))
     | Inr d \<Rightarrow> driver_turns up env rest d w)"

definition print_error :: "usb_setup \<Rightarrow> xhci_error option \<Rightarrow> screen \<Rightarrow> screen res" where
  "print_error up e s = (case e of None \<Rightarrow> Inr s | Some e \<Rightarrow> println (as_bytes ''Error while running xHCI tasks: '' # up_dbg up e) s)"

text \<open>
  The first turn of the tasks: the task of the ports addresses the connected devices and announces them, the driver task configures
  each of them and starts its class driver.
\<close>

definition first_turn :: "usb_env \<Rightarrow> usb_setup \<Rightarrow> usb_state usb_handler" where
  "first_turn env up = (\<lambda>(u, s).
     cbind (Some (init_connected env (up_speed up) (up_connected up) (up_ports up) (device_init_action_new, ut_world u))) (\<lambda>(a, w).
     cbind (driver_turns up env (ia_sent a) (ut_driver u) w) (\<lambda>((e, d), w).
     cbind (Some (foldM println (up_trace up) s)) (\<lambda>s.
     cbind (Some (print_error up e s)) (\<lambda>s.
     Some (Inr (\<lparr>ut_world = w, ut_driver = d, ut_started = True\<rparr>, s)))))))"

text \<open>A later turn: the report of a device has arrived, and its task asks for the next one.\<close>

definition device_turn :: "usb_env \<Rightarrow> usb_setup \<Rightarrow> usb_state \<Rightarrow> screen \<Rightarrow> screen usb" where
  "device_turn env up u s w =
     (let i = up_who up (w_fresh w) in
      if i < length (dr_spawned (ut_driver u)) then
        (case dr_spawned (ut_driver u) ! i of
           Mouse_Driver k \<Rightarrow> mouse_turn env k mouse_callback s w
         | Keyboard_Driver k \<Rightarrow> keyboard_turn env k (key_callback (up_fmt up)) s w)
      else ureturn s w)"

text \<open>A task that returned is not asked again.\<close>

definition end_task :: "nat \<Rightarrow> usb_driver \<Rightarrow> usb_driver" where
  "end_task i d = d\<lparr>dr_spawned := take i (dr_spawned d) @ drop (Suc i) (dr_spawned d)\<rparr>"

definition on_usb_interrupt :: "usb_env \<Rightarrow> usb_setup \<Rightarrow> usb_state usb_handler" where
  "on_usb_interrupt env up = (\<lambda>(u, s).
     if \<not> ut_started u then first_turn env up (u, s)
     else Some (rbind (device_turn env up u s (ut_world u)) (\<lambda>(r, w). case r of
       Inl e \<Rightarrow> rbind (print_error up (Some e) s) (\<lambda>s.
         Inr (u\<lparr>ut_world := w, ut_driver := end_task (up_who up (w_fresh (ut_world u))) (ut_driver u)\<rparr>, s))
     | Inr s \<Rightarrow> Inr (u\<lparr>ut_world := w\<rparr>, s))))"

section \<open>The contract of the handler\<close>

fun driver_class :: "driver \<Rightarrow> class_driver" where
  "driver_class (Mouse_Driver k) = k"
| "driver_class (Keyboard_Driver k) = k"

definition devices_ready :: "trb_gb \<Rightarrow> nat \<Rightarrow> controller \<Rightarrow> usb_env \<Rightarrow> driver list \<Rightarrow> usb_world \<Rightarrow> bool" where
  "devices_ready gb r hc env ds w \<longleftrightarrow> (\<exists>n. usb_inv gb r hc env n w)
     \<and> (\<forall>d \<in> set ds. idle gb r (kd_slot_id (driver_class d), kd_dci (driver_class d)) w)"

text \<open>Before the first turn nothing is connected but at most one boot mouse; afterwards the started tasks wait for their reports.\<close>

definition one_mouse :: "controller \<Rightarrow> usb_setup \<Rightarrow> bool" where
  "one_mouse hc up \<longleftrightarrow> up_ports up \<le> 255 \<and> length (filter (up_connected up) [0..<up_ports up]) \<le> 1
     \<and> (\<exists>ds conf alt ep. \<forall>slot. is_boot_mouse (up_bits up) (hc_reply hc slot) ds conf alt ep)"

definition usb_ready :: "trb_gb \<Rightarrow> nat \<Rightarrow> controller \<Rightarrow> usb_env \<Rightarrow> usb_setup \<Rightarrow> usb_state \<Rightarrow> bool" where
  "usb_ready gb r hc env up u \<longleftrightarrow>
     (if ut_started u then devices_ready gb r hc env (dr_spawned (ut_driver u)) (ut_world u)
      else usb_inv gb r hc env 30 (ut_world u) \<and> slots_ok hc (ut_world u) \<and> ut_driver u = usb_driver_new \<and> one_mouse hc up)"

lemma mouse_callback_ok:
  assumes "screen_inv con m"
  shows "\<exists>m'. mouse_callback (mouse_report_of b) (con, m) = Inr (con, m') \<and> screen_inv con m' \<and> same_windows m m' \<and> fb_resolution (lwm_buffer m') = fb_resolution (lwm_buffer m)
    \<and> win_pos (layers m' ! 0) = pointer_to (fb_resolution (lwm_buffer m)) (sint (b ! 1), sint (b ! 2)) (win_pos (layers m ! 0))"
proof -
  have d: "- 128 \<le> sint (x :: u8)" "sint x < 128" for x using sint_greater_eq [of x] sint_less [of x] by simp_all
  from on_mouse_report_screen [OF assms d d, of "b ! 1" "b ! 2"] show ?thesis by (auto simp: mouse_callback_def mouse_report_of_def)
qed

lemma device_report_ok:
  assumes ready: "devices_ready gb r hc env ds w" and idle: "idle gb r (kd_slot_id k, kd_dci k) w"
    and cb: "\<And>b. \<exists>con' m'. callback b (con, m) = Inr (con', m') \<and> screen_inv con' m' \<and> same_windows m m'"
  shows "\<exists>con' m' w'. report_turn env k bytes callback (con, m) w = Inr (Inr (con', m'), w') \<and> devices_ready gb r hc env ds w'
    \<and> screen_inv con' m' \<and> same_windows m m'"
proof -
  obtain n where n: "usb_inv gb r hc env n w" using ready by (auto simp: devices_ready_def)
  obtain con' m' where c: "callback (hc_report hc (kd_slot_id k) (kd_dci k) (w_fresh w) (replicate bytes 0)) (con, m) = Inr (con', m')"
    "screen_inv con' m'" "same_windows m m'" using cb by blast
  from report_step [OF n idle, where callback = callback, OF c(1)] obtain w' where
    "report_turn env k bytes callback (con, m) w = Inr (Inr (con', m'), w')" "usb_inv gb r hc env n w'" "framed (idle gb r) w w'" by blast
  then show ?thesis using ready framed_idle c(2,3) unfolding devices_ready_def by blast
qed

lemma device_turn_ok:
  assumes ready: "devices_ready gb r hc env (dr_spawned (ut_driver u)) w" and s: "screen_inv con m"
  shows "\<exists>con' m' w'. device_turn env up u (con, m) w = Inr (Inr (con', m'), w') \<and> devices_ready gb r hc env (dr_spawned (ut_driver u)) w'
    \<and> screen_inv con' m' \<and> same_windows m m'"
proof (cases "up_who up (w_fresh w) < length (dr_spawned (ut_driver u))")
  case True
  let ?d = "dr_spawned (ut_driver u) ! up_who up (w_fresh w)"
  have idle: "idle gb r (kd_slot_id (driver_class ?d), kd_dci (driver_class ?d)) w" using ready nth_mem [OF True] by (simp add: devices_ready_def)
  show ?thesis
  proof (cases ?d)
    case (Mouse_Driver k)
    have cb: "\<exists>con' m'. mouse_callback (mouse_report_of b) (con, m) = Inr (con', m') \<and> screen_inv con' m' \<and> same_windows m m'" for b
      using mouse_callback_ok [OF s] by blast
    from device_report_ok [where callback = "\<lambda>buf. mouse_callback (mouse_report_of buf)" and bytes = 3, OF ready idle cb] True Mouse_Driver
    show ?thesis by (simp add: device_turn_def mouse_turn_def)
  next
    case (Keyboard_Driver k)
    have cb: "\<exists>con' m'. key_callback (up_fmt up) (key_report_of b) (con, m) = Inr (con', m') \<and> screen_inv con' m' \<and> same_windows m m'" for b
      using println_ok [OF s] unfolding key_callback_def by blast
    from device_report_ok [where callback = "\<lambda>buf. key_callback (up_fmt up) (key_report_of buf)" and bytes = 8, OF ready idle cb] True Keyboard_Driver
    show ?thesis by (simp add: device_turn_def keyboard_turn_def)
  qed
next
  case False
  then show ?thesis using ready s by (simp add: device_turn_def)
qed

lemma foldM_filter: "foldM (\<lambda>x s. if P x then f x s else Inr s) xs s = foldM f (filter P xs) s"
  by (induction xs arbitrary: s) (auto intro: rbind_cong)

lemma init_connected_filter:
  "init_connected env speed connected n (s, w) = foldM (\<lambda>p (s, w). init_and_send env speed p (write_port p [Clear_Connect_Status_Change] s, w)) (filter connected [0..<n]) (s, w)"
proof -
  have "(\<lambda>p (s, w). if connected p then init_and_send env speed p (write_port p [Clear_Connect_Status_Change] s, w) else Inr (s, w))
      = (\<lambda>p t. if connected p then (\<lambda>(s, w). init_and_send env speed p (write_port p [Clear_Connect_Status_Change] s, w)) t else Inr t)"
    by (auto simp: fun_eq_iff)
  then show ?thesis unfolding init_connected_def using foldM_filter by (simp only:)
qed

text \<open>After the first turn of the tasks the mouse, if there is one, has its task.\<close>

lemma first_devices:
  assumes I: "usb_inv gb r hc env 30 w" "slots_ok hc w" and one: "one_mouse hc up"
  shows "\<exists>a w1 d w2. init_connected env (up_speed up) (up_connected up) (up_ports up) (device_init_action_new, w) = Inr (a, w1)
    \<and> driver_turns up env (ia_sent a) usb_driver_new w1 = Some (Inr ((None, d), w2)) \<and> devices_ready gb r hc env (dr_spawned d) w2
    \<and> length (dr_spawned d) = length (filter (up_connected up) [0..<up_ports up]) \<and> dr_spawned d \<in> lists (range Mouse_Driver)"
proof -
  let ?f = "filter (up_connected up) [0..<up_ports up]"
  consider "?f = []" | p where "?f = [p]" using one by (cases ?f) (auto simp: one_mouse_def)
  then show ?thesis
  proof cases
    case 1
    then show ?thesis using I(1) by (auto simp: init_connected_filter device_init_action_new_def devices_ready_def usb_driver_new_def)
  next
    case (2 p)
    obtain ds conf alt ep where b: "\<And>slot. is_boot_mouse (up_bits up) (hc_reply hc slot) ds conf alt ep" using one unfolding one_mouse_def by blast
    have "p \<in> set ?f" using 2 by simp
    then have p: "p < 255" using one by (auto simp: one_mouse_def)
    have I3: "usb_inv gb r hc env (Suc (Suc 28)) w" using I(1) by simp
    obtain slot w1 where w1: "init_device_async env (up_speed up) p w = Inr (Inr slot, w1)" "addressed gb r hc env 28 slot w1"
      using init_device_ok [OF I3 I(2) p, of "up_speed up"] by blast
    then have a: "usb_inv gb r hc env (Suc 27) w1" "idle gb r (slot, 1) w1" "dc_contexts (w_dcbaa w1) slot \<noteq> None" by (simp_all add: addressed_def)
    obtain w2 where w2: "driver_turn (up_bits up) env slot usb_driver_new w1 = Some (Inr (Inr (usb_driver_new\<lparr>dr_mouse_callback := False,
        dr_spawned := dr_spawned usb_driver_new @ [Mouse_Driver \<lparr>kd_slot_id = slot, kd_interface = ua_interface_num alt, kd_dci = calc_dci ep\<rparr>]\<rparr>), w2))"
      "usb_inv gb r hc env 27 w2" "idle gb r (slot, calc_dci ep) w2"
      using driver_turn_ok [OF a b, of usb_driver_new] by (auto simp: usb_driver_new_def)
    let ?a = "(write_port p [Clear_Connect_Status_Change] device_init_action_new)\<lparr>ia_sent := [slot]\<rparr>"
    have "init_connected env (up_speed up) (up_connected up) (up_ports up) (device_init_action_new, w) = Inr (?a, w1)"
      unfolding init_connected_filter 2 using w1(1) by (simp add: init_and_send_def write_port_def device_init_action_new_def)
    then show ?thesis using w2 2 by (auto simp: devices_ready_def usb_driver_new_def)
  qed
qed

lemma first_turn_ok:
  assumes u: "usb_ready gb r hc env up u" "\<not> ut_started u" and s: "screen_inv con m"
  shows "\<exists>u' con' m'. first_turn env up (u, con, m) = Some (Inr (u', con', m')) \<and> usb_ready gb r hc env up u' \<and> ut_started u'
    \<and> length (dr_spawned (ut_driver u')) = length (filter (up_connected up) [0..<up_ports up]) \<and> dr_spawned (ut_driver u') \<in> lists (range Mouse_Driver)
    \<and> screen_inv con' m' \<and> same_windows m m'"
proof -
  have u': "usb_inv gb r hc env 30 (ut_world u)" "slots_ok hc (ut_world u)" "ut_driver u = usb_driver_new" "one_mouse hc up"
    using u by (simp_all add: usb_ready_def)
  from first_devices [OF u'(1,2,4)] obtain a w1 d w2 where
    w: "init_connected env (up_speed up) (up_connected up) (up_ports up) (device_init_action_new, ut_world u) = Inr (a, w1)"
      "driver_turns up env (ia_sent a) usb_driver_new w1 = Some (Inr ((None, d), w2))" "devices_ready gb r hc env (dr_spawned d) w2"
      "length (dr_spawned d) = length (filter (up_connected up) [0..<up_ports up])" "dr_spawned d \<in> lists (range Mouse_Driver)" by blast
  from lines_ok [OF s, of "up_trace up"] obtain con' m' where
    "foldM println (up_trace up) (con, m) = Inr (con', m')" "screen_inv con' m'" "same_windows m m'" by blast
  then show ?thesis using w u'(3) by (simp add: first_turn_def print_error_def usb_ready_def)
qed

interpretation devices: usb_interrupt "on_usb_interrupt env up" "usb_ready gb r hc env up"
proof
  fix u con m
  assume u: "usb_ready gb r hc env up u" and s: "screen_inv con m"
  show "\<exists>u' con' m'. on_usb_interrupt env up (u, con, m) = Some (Inr (u', con', m'))
    \<and> usb_ready gb r hc env up u' \<and> screen_inv con' m' \<and> same_windows m m'"
  proof (cases "ut_started u")
    case False
    then show ?thesis using first_turn_ok [OF u False s] by (auto simp: on_usb_interrupt_def)
  next
    case True
    then have "devices_ready gb r hc env (dr_spawned (ut_driver u)) (ut_world u)" using u by (simp add: usb_ready_def)
    from device_turn_ok [OF this s, of up] obtain con' m' w' where
      "device_turn env up u (con, m) (ut_world u) = Inr (Inr (con', m'), w')" "devices_ready gb r hc env (dr_spawned (ut_driver u)) w'"
      "screen_inv con' m'" "same_windows m m'" by blast
    then show ?thesis using True
      by (intro exI [of _ "u\<lparr>ut_world := w'\<rparr>"] exI [of _ con'] exI [of _ m']) (simp add: on_usb_interrupt_def usb_ready_def)
  qed
qed

section \<open>The pointer\<close>

lemma mouse_interrupt:
  assumes u: "usb_ready gb r hc env up u" "ut_started u" "dr_spawned (ut_driver u) = [Mouse_Driver k]" "up_who up = (\<lambda>_. 0)" and s: "screen_inv con m"
    and b: "b = hc_report hc (kd_slot_id k) (kd_dci k) (w_fresh (ut_world u)) [0, 0, 0]"
  shows "\<exists>u' m'. on_usb_interrupt env up (u, con, m) = Some (Inr (u', con, m')) \<and> usb_ready gb r hc env up u' \<and> ut_started u' \<and> ut_driver u' = ut_driver u
    \<and> w_fresh (ut_world u') = Suc (w_fresh (ut_world u)) \<and> screen_inv con m' \<and> fb_resolution (lwm_buffer m') = fb_resolution (lwm_buffer m)
    \<and> win_pos (layers m' ! 0) = pointer_to (fb_resolution (lwm_buffer m)) (sint (b ! 1), sint (b ! 2)) (win_pos (layers m ! 0))"
proof -
  let ?w = "ut_world u"
  have ready: "devices_ready gb r hc env [Mouse_Driver k] ?w" using u(1-3) by (simp add: usb_ready_def)
  then obtain n where n: "usb_inv gb r hc env n ?w" "idle gb r (kd_slot_id k, kd_dci k) ?w" by (auto simp: devices_ready_def)
  have b': "b = hc_report hc (kd_slot_id k) (kd_dci k) (w_fresh ?w) (replicate 3 0)" using b by (simp add: numeral_3_eq_3)
  from mouse_callback_ok [OF s, of b] obtain m' where m': "mouse_callback (mouse_report_of b) (con, m) = Inr (con, m')" "screen_inv con m'"
    "fb_resolution (lwm_buffer m') = fb_resolution (lwm_buffer m)"
    "win_pos (layers m' ! 0) = pointer_to (fb_resolution (lwm_buffer m)) (sint (b ! 1), sint (b ! 2)) (win_pos (layers m ! 0))" by blast
  from report_step [OF n, where callback = "\<lambda>buf. mouse_callback (mouse_report_of buf)" and bytes = 3, OF m'(1) [unfolded b']] obtain w' where
    w': "mouse_turn env k mouse_callback (con, m) ?w = Inr (Inr (con, m'), w')" "usb_inv gb r hc env n w'" "framed (idle gb r) ?w w'" "w_fresh w' = w_fresh ?w + 1"
    unfolding mouse_turn_def by blast
  then have "devices_ready gb r hc env [Mouse_Driver k] w'" using n(2) framed_idle by (auto simp: devices_ready_def)
  moreover have "on_usb_interrupt env up (u, con, m) = Some (Inr (u\<lparr>ut_world := w'\<rparr>, con, m'))"
    using u(2-4) w'(1) by (simp add: on_usb_interrupt_def device_turn_def)
  ultimately show ?thesis using u(2,3) w'(4) m'(2-4) by (intro exI [of _ "u\<lparr>ut_world := w'\<rparr>"] exI [of _ m']) (simp add: usb_ready_def)
qed

lemma mouse_turns:
  assumes u: "usb_ready gb r hc env up u" "ut_started u" "dr_spawned (ut_driver u) = [Mouse_Driver k]" "up_who up = (\<lambda>_. 0)" and s: "screen_inv con m"
  shows "\<exists>u' m'. cfoldM (\<lambda>_. on_usb_interrupt env up) [0..<n] (u, con, m) = Some (Inr (u', con, m')) \<and> usb_ready gb r hc env up u' \<and> ut_started u' \<and> ut_driver u' = ut_driver u
    \<and> w_fresh (ut_world u') = w_fresh (ut_world u) + n \<and> screen_inv con m' \<and> fb_resolution (lwm_buffer m') = fb_resolution (lwm_buffer m)
    \<and> win_pos (layers m' ! 0) = fold (\<lambda>i. let b = hc_report hc (kd_slot_id k) (kd_dci k) (w_fresh (ut_world u) + i) [0, 0, 0] in
        pointer_to (fb_resolution (lwm_buffer m)) (sint (b ! 1), sint (b ! 2))) [0..<n] (win_pos (layers m ! 0))"
proof (induction n)
  case 0
  then show ?case using u s by simp
next
  case (Suc n)
  then obtain u1 m1 where 1: "cfoldM (\<lambda>_. on_usb_interrupt env up) [0..<n] (u, con, m) = Some (Inr (u1, con, m1))" "usb_ready gb r hc env up u1" "ut_started u1"
    "ut_driver u1 = ut_driver u" "w_fresh (ut_world u1) = w_fresh (ut_world u) + n" "screen_inv con m1" "fb_resolution (lwm_buffer m1) = fb_resolution (lwm_buffer m)"
    "win_pos (layers m1 ! 0) = fold (\<lambda>i. let b = hc_report hc (kd_slot_id k) (kd_dci k) (w_fresh (ut_world u) + i) [0, 0, 0] in
        pointer_to (fb_resolution (lwm_buffer m)) (sint (b ! 1), sint (b ! 2))) [0..<n] (win_pos (layers m ! 0))" by blast
  have k: "dr_spawned (ut_driver u1) = [Mouse_Driver k]" using 1(4) u(3) by simp
  from mouse_interrupt [OF 1(2,3) k u(4) 1(6) refl] obtain u2 m2 where "on_usb_interrupt env up (u1, con, m1) = Some (Inr (u2, con, m2))" "usb_ready gb r hc env up u2"
    "ut_started u2" "ut_driver u2 = ut_driver u1" "w_fresh (ut_world u2) = Suc (w_fresh (ut_world u1))" "screen_inv con m2" "fb_resolution (lwm_buffer m2) = fb_resolution (lwm_buffer m1)"
    "win_pos (layers m2 ! 0) = (let b = hc_report hc (kd_slot_id k) (kd_dci k) (w_fresh (ut_world u1)) [0, 0, 0] in
        pointer_to (fb_resolution (lwm_buffer m1)) (sint (b ! 1), sint (b ! 2)) (win_pos (layers m1 ! 0)))" unfolding Let_def by (auto simp: Let_def)
  with 1 show ?case by (simp add: cfoldM_append Let_def)
qed

section \<open>Properties\<close>

text \<open>A kernel as it is when the boot enables the interrupts, after any output on the console.\<close>

definition booted :: "frame_buffer_raw \<Rightarrow> 'u \<Rightarrow> 'u kernel \<Rightarrow> bool" where
  "booted raw u k \<longleftrightarrow> (\<exists>t dflt m0 mouse test m1 con0 m2 texts con m. initialize_timer = Inr t \<and> initialize_winmgr raw = Inr (dflt, m0)
     \<and> initialize_windows dflt m0 = Inr (mouse, test, m1) \<and> init_console dflt m1 (255, 255, 255) (100, 100, 100) = Inr (con0, m2)
     \<and> foldM print texts (con0, m2) = Inr (con, m) \<and> k = start_kernel t dflt m con u)"

definition screen_fits :: "frame_buffer_raw \<Rightarrow> bool" where
  "screen_fits raw \<longleftrightarrow> raw_ok raw \<and> fbr_horizontal_resolution raw + 15 < 2 ^ 31 - 128 \<and> fbr_vertical_resolution raw + 24 < 2 ^ 31 - 128"

lemma booted_inv:
  assumes "booted raw u k" "screen_fits raw" "ok u"
  shows "kernel_inv ok k" "known_timers k" "places 1 k = 1" "places 2 k = 1" "n < 2 ^ 31 \<Longrightarrow> kernel_room n k"
    "k_running k = Main_Task" "k_main k = Get_Tick 1" "mq_contents (k_events k) = []" "k_usb k = u"
proof -
  obtain t dflt m0 mouse test m1 con0 m2 texts con m where b: "initialize_timer = Inr t" "initialize_winmgr raw = Inr (dflt, m0)"
    "initialize_windows dflt m0 = Inr (mouse, test, m1)" "init_console dflt m1 (255, 255, 255) (100, 100, 100) = Inr (con0, m2)"
    "foldM print texts (con0, m2) = Inr (con, m)" "k = start_kernel t dflt m con u" using assms(1) by (auto simp: booted_def)
  have "screen_inv con0 m2" "dflt = Some (lwm_format m2)"
    using screen_boot [of raw "(255, 255, 255)" "(100, 100, 100)"] assms(2) b(2-4) by (auto simp: screen_fits_def)
  then have "screen_inv con m" "dflt = Some (lwm_format m)" using prints_ok [of con0 m2 texts] b(5) by (auto simp: same_windows_def)
  note k = start_kernel_inv [OF b(1) this, of ok u, OF assms(3), folded b(6)]
  show "kernel_inv ok k" "known_timers k" "places 1 k = 1" "places 2 k = 1" by (fact k)+
  show "k_running k = Main_Task" "k_main k = Get_Tick 1" "mq_contents (k_events k) = []" "k_usb k = u"
    using b(6) by (simp_all add: start_kernel_def mq_new_contents)
  show "kernel_room n k" if "n < 2 ^ 31" using that k(5) b(6) by (simp add: kernel_room_def start_kernel_def)
qed

lemma booted_runs:
  assumes "booted raw u k" "screen_fits raw" "usb_ready gb r hc env up u" "length evs < 2 ^ 31" "Timer_Irq 0 \<notin> set evs"
  shows "\<exists>k'. kernel_run (on_usb_interrupt env up) evs k = Some (Inr k') \<and> kernel_inv (usb_ready gb r hc env up) k'"
proof -
  note b = booted_inv [OF assms(1,2), of "usb_ready gb r hc env up", OF assms(3)]
  have "kernel_room (length evs + 0) k" using b(5) assms(4) by simp
  from devices.kernel_run_ok [OF b(1) this assms(5), of "\<lambda>_. True"] show ?thesis by auto
qed

lemma kernel_inv_intact:
  assumes "kernel_inv ok k"
  shows "ok (k_usb k)" "lwm_wf (k_layers k)" "mouse_ok 0 (k_layers k)" "con_wf (k_console k) (back_buf (win_buffer (layers (k_layers k) ! 2)))"
    "length (mq_contents (k_events k)) \<le> 1024"
  using assms screen_inv_wf mq.contents_bound [of "k_events k"] by (auto simp: kernel_inv_def screen_inv_def)


text \<open>
  (C4) The timers go on for ever. In every run in which at most 1022 interrupts of the controller are waiting in the queue, each of
  the timers 1 and 2 is at every moment in exactly one place: in the heap of the timers, as a message in the queue, or in
  the hands of the main task, which will arm it again.
\<close>

theorem timers_conserved:
  assumes "booted raw u k" "screen_fits raw" "usb_ready gb r hc env up u" "length evs < 2 ^ 31" "Timer_Irq 0 \<notin> set evs"
    and "\<forall>i < length evs. \<forall>k'. kernel_run (on_usb_interrupt env up) (take i evs) k = Some (Inr k') \<longrightarrow> count_list (mq_contents (k_events k')) Xhci \<le> 1022"
    and "v = 1 \<or> v = 2"
  shows "\<exists>k'. kernel_run (on_usb_interrupt env up) evs k = Some (Inr k')
    \<and> length (filter (\<lambda>t. tm_value t = v) (tmg_timers (k_timer k'))) + count_list (mq_contents (k_events k')) (TimerTimeout v)
      + (if pc_starts v (k_main k') \<or> pc_message (k_main k') = Some (TimerTimeout v) then 1 else 0) = 1"
proof -
  note b = booted_inv [OF assms(1,2), of "usb_ready gb r hc env up", OF assms(3)]
  from devices.timers_kept [OF b(1) b(5) [OF assms(4)] assms(5) b(2-4) assms(6)] obtain k' where
    k': "kernel_run (on_usb_interrupt env up) evs k = Some (Inr k')" "places v k' = 1" using assms(7) by auto
  then show ?thesis by (simp add: places_def in_heap_def held_def flip: mset_filter)
qed



text \<open>
  (C5) The main loop catches up: whatever happened since the start, when the main task then runs undisturbed from the top of its loop,
  at most six steps for each message empty the queue, and every timer that had expired is armed again for its interval from now.
\<close>

theorem main_loop_catches_up:
  assumes "booted raw u k0" "screen_fits raw" "usb_ready gb r hc env up u" "length evs + 1 < 2 ^ 31" "Timer_Irq 0 \<notin> set evs"
    and "kernel_run (on_usb_interrupt env up) evs k0 = Some (Inr k)" "k_running k = Main_Task" "k_main k = Wait"
  shows "\<exists>n k'. n \<le> 6 * length (mq_contents (k_events k)) \<and> kernel_run (on_usb_interrupt env up) (replicate n Run) k = Some (Inr k')
    \<and> k_main k' = Wait \<and> mq_contents (k_events k') = [] \<and> tmg_tick (k_timer k') = tmg_tick (k_timer k)
    \<and> (\<forall>v \<in> {1, 2}. TimerTimeout v \<in> set (mq_contents (k_events k)) \<longrightarrow>
         \<lparr>tm_timeout = tmg_tick (k_timer k) + timer_interval v, tm_value = v\<rparr> \<in> set (tmg_timers (k_timer k')))"
proof -
  note b = booted_inv [OF assms(1,2), of "usb_ready gb r hc env up", OF assms(3)]
  from devices.kernel_run_ok [OF b(1) b(5) [OF assms(4)] assms(5), of "\<lambda>_. True"] assms(6) have
    inv: "kernel_inv (usb_ready gb r hc env up) k" and room: "kernel_room (Suc 0) k" by auto
  from devices.main_drains [OF inv room assms(7,8)] obtain n k' where
    k': "n \<le> 6 * length (k_pending k)" "main_runs (on_usb_interrupt env up) (usb_ready gb r hc env up) n k k'" "k_main k' = Wait" "k_pending k' = []"
      "k_timers k' = k_timers k + (\<Sum>msg \<leftarrow> k_pending k. turn_arms (get_current_tick k) msg)" by blast
  have "\<lparr>tm_timeout = tmg_tick (k_timer k) + timer_interval v, tm_value = v\<rparr> \<in> set (tmg_timers (k_timer k'))"
    if "v \<in> {1, 2}" "TimerTimeout v \<in> set (k_pending k)" for v
  proof -
    let ?t = "\<lparr>tm_timeout = tmg_tick (k_timer k) + timer_interval v, tm_value = v\<rparr>"
    have "?t \<in># turn_arms (get_current_tick k) (TimerTimeout v)" using that(1) by (auto simp: get_current_tick_def)
    then have "?t \<in># (\<Sum>msg \<leftarrow> ms. turn_arms (get_current_tick k) msg)" if "TimerTimeout v \<in> set ms" for ms
      using that by (induction ms) auto
    then have "?t \<in># (\<Sum>msg \<leftarrow> k_pending k. turn_arms (get_current_tick k) msg)" using that(2) by blast
    then have "?t \<in># k_timers k'" unfolding k'(5) by simp
    then show ?thesis by simp
  qed
  then show ?thesis using k'(1-4) unfolding main_runs_def get_current_tick_def by blast
qed

section \<open>Examples\<close>

text \<open>A mouse at port 3 of eight.\<close>

definition example_setup_of :: usb_setup where
  "example_setup_of = \<lparr>up_bits = byte_get, up_speed = (\<lambda>_. 2), up_connected = (\<lambda>p. p = 3), up_ports = 8, up_who = (\<lambda>_. 0),
     up_fmt = (\<lambda>r. [as_bytes ''key'', kr_keycodes r]), up_dbg = (\<lambda>_. []), up_trace = [[as_bytes ''Addressing device'']]\<rparr>"

definition mouse_hc :: controller where
  "mouse_hc = example_hc (serve_bytes (encode_all (mouse_descriptors 34)))"

definition example_state :: "usb_state res" where
  "example_state = rbind (init_command_ring example_lk 4096 32) (\<lambda>(c, _). Inr \<lparr>ut_world = initial_world 8 c, ut_driver = usb_driver_new, ut_started = False\<rparr>)"

definition example_kernel_of :: "usb_state \<Rightarrow> usb_state kernel res" where
  "example_kernel_of u = rbind initialize_timer (\<lambda>t. rbind (initialize_winmgr tiny_raw) (\<lambda>(dflt, m0). rbind (initialize_windows dflt m0) (\<lambda>(_, _, m1).
     rbind (init_console dflt m1 (255, 255, 255) (100, 100, 100)) (\<lambda>(con, m). Inr (start_kernel t dflt m con u)))))"

lemma example_one_mouse: "one_mouse mouse_hc example_setup_of"
proof -
  have "filter (\<lambda>p. p = 3) [0..<8] = [3::nat]" by (simp add: upt_rec)
  moreover have "is_boot_mouse byte_get (hc_reply mouse_hc s) (mouse_descriptors 34) (mouse_configuration 0) mouse_alternate mouse_endpoint" for s
    using example_boot_mouse by (simp add: mouse_hc_def example_hc_def)
  ultimately show ?thesis unfolding one_mouse_def by (auto simp: example_setup_of_def)
qed

lemma example_ready: "\<exists>u. example_state = Inr u \<and> usb_ready bit 31 mouse_hc (example_env mouse_hc) example_setup_of u"
proof -
  obtain c where "init_command_ring example_lk 4096 32 = Inr (c, 4096)" "usb_inv bit 31 mouse_hc (example_env mouse_hc) 30 (initial_world 8 c)"
    using initial_inv unfolding mouse_hc_def by blast
  moreover have "slots_ok mouse_hc (initial_world 8 c)" for c using addressed_slots by (simp add: mouse_hc_def)
  ultimately show ?thesis using example_one_mouse by (simp add: example_state_def usb_ready_def)
qed

lemma example_fits: "screen_fits tiny_raw"
  by (simp add: screen_fits_def raw_ok_def tiny_raw_def)

lemma example_booted: "\<exists>k. example_kernel_of u = Inr k \<and> booted tiny_raw u k"
proof -
  obtain t where t: "initialize_timer = Inr t" using initialize_timer_inv by blast
  obtain dflt m0 m1 con m where b: "initialize_winmgr tiny_raw = Inr (dflt, m0)" "initialize_windows dflt m0 = Inr (0, 1, m1)"
    "init_console dflt m1 (255, 255, 255) (100, 100, 100) = Inr (con, m)"
    using screen_boot [of tiny_raw "(255, 255, 255)" "(100, 100, 100)"] example_fits by (auto simp: screen_fits_def)
  have "foldM print [] (con, m) = Inr (con, m)" by simp
  then have "booted tiny_raw u (start_kernel t dflt m con u)" unfolding booted_def using t b by blast
  moreover have "example_kernel_of u = Inr (start_kernel t dflt m con u)" unfolding example_kernel_of_def by (simp only: t b rbind_Inr case_prod_conv)
  ultimately show ?thesis by blast
qed



theorem timers_conserved_witness:
  "\<exists>u k k'. example_state = Inr u \<and> example_kernel_of u = Inr k
     \<and> kernel_run (on_usb_interrupt (example_env mouse_hc) example_setup_of) (replicate 4 Run @ replicate 300 (Timer_Irq 1) @ [Xhci_Irq]) k = Some (Inr k')
     \<and> length (filter (\<lambda>t. tm_value t = 1) (tmg_timers (k_timer k'))) + count_list (mq_contents (k_events k')) (TimerTimeout 1)
      + (if pc_starts 1 (k_main k') \<or> pc_message (k_main k') = Some (TimerTimeout 1) then 1 else 0) = 1"
proof -
  let ?evs = "replicate 4 Run @ replicate 300 (Timer_Irq 1) @ [Xhci_Irq]" and ?usb = "on_usb_interrupt (example_env mouse_hc) example_setup_of"
  obtain u where w: "example_state = Inr u" "usb_ready bit 31 mouse_hc (example_env mouse_hc) example_setup_of u" using example_ready by blast
  obtain k where k: "example_kernel_of u = Inr k" "booted tiny_raw u k" using example_booted by blast
  note b = booted_inv [OF k(2) example_fits, of "usb_ready bit 31 mouse_hc (example_env mouse_hc) example_setup_of", OF w(2)]
  have "\<forall>i < length ?evs. \<forall>k'. kernel_run ?usb (take i ?evs) k = Some (Inr k') \<longrightarrow> count_list (mq_contents (k_events k')) Xhci \<le> 1022"
  proof (intro allI impI)
    fix i k'
    assume a: "i < length ?evs" "kernel_run ?usb (take i ?evs) k = Some (Inr k')"
    have l: "length (take i ?evs) < 2 ^ 31" "length (take i ?evs) \<le> 305" "Timer_Irq 0 \<notin> set (take i ?evs)" using a(1) by (auto dest: in_set_takeD)
    from devices.pending_xhci [OF b(1) b(5) [OF l(1)] l(3) a(2)] l(2) b(8) show "count_list (mq_contents (k_events k')) Xhci \<le> 1022" by simp
  qed
  moreover have "length ?evs < 2 ^ 31" "Timer_Irq 0 \<notin> set ?evs" by simp_all
  ultimately show ?thesis using timers_conserved [OF k(2) example_fits w(2), of ?evs 1] w(1) k(1) by blast
qed


theorem main_loop_catches_up_witness:
  "\<exists>u k0 k n k'. example_state = Inr u \<and> example_kernel_of u = Inr k0
     \<and> kernel_run (on_usb_interrupt (example_env mouse_hc) example_setup_of) (replicate 4 Run @ replicate 5 Xhci_Irq) k0 = Some (Inr k)
     \<and> mq_contents (k_events k) = replicate 5 Xhci \<and> n \<le> 30
     \<and> kernel_run (on_usb_interrupt (example_env mouse_hc) example_setup_of) (replicate n Run) k = Some (Inr k') \<and> mq_contents (k_events k') = []"
proof -
  let ?usb = "on_usb_interrupt (example_env mouse_hc) example_setup_of" and ?ok = "usb_ready bit 31 mouse_hc (example_env mouse_hc) example_setup_of"
  obtain u where w: "example_state = Inr u" "?ok u" using example_ready by blast
  obtain k0 where k0: "example_kernel_of u = Inr k0" "booted tiny_raw u k0" using example_booted by blast
  note b = booted_inv [OF k0(2) example_fits, of ?ok, OF w(2)]
  have "kernel_room (Suc 0) k0" using b(5) [of 1] by simp
  from devices.first_steps [OF b(1) this b(6,7)] b(8) obtain k1 where
    k1: "kernel_run ?usb (replicate 4 Run) k0 = Some (Inr k1)" "kernel_inv ?ok k1" "k_main k1 = Wait" "k_pending k1 = []" "k_running k1 = Main_Task"
    by (auto simp: main_runs_def)
  from devices.fill_queue [OF k1(2), of 0 5] k1(3,4) obtain k where
    k: "kernel_run ?usb (replicate 5 Xhci_Irq) k1 = Some (Inr k)" "k_pending k = replicate 5 Xhci" "k_main k = Wait" "k_running k = Main_Task" using k1(5) by auto
  have run: "kernel_run ?usb (replicate 4 Run @ replicate 5 Xhci_Irq) k0 = Some (Inr k)"
    unfolding kernel_run_append k1(1) cbind_simps by (rule k(1))
  from main_loop_catches_up [OF k0(2) example_fits w(2) _ _ run k(4,3)] k(2) obtain n k' where
    "n \<le> 30" "kernel_run ?usb (replicate n Run) k = Some (Inr k')" "k_pending k' = []" by auto
  then show ?thesis using w(1) k0(1) run k(2) by blast
qed

end
