(* ===== verification/Paging.thy ===== *)
theory Paging
  imports Prelude
begin

text \<open>
  The identity page table, \<^verbatim>\<open>kernel/src/paging.rs\<close>. The three static tables are lists of 64-bit entries; where the
  linker places them is a parameter. \<open>walk\<close> is the processor's translation of a linear address with four
  levels of tables, and the theory shows that with \<^verbatim>\<open>cr3\<close> set by \<^verbatim>\<open>setup_identity_page_table\<close> it is the
  identity on the first 64 GiB and faults everywhere else.
\<close>

section \<open>The tables\<close>

definition PAGESIZE_4K :: nat where
  "PAGESIZE_4K = 4096"

definition PAGESIZE_2M :: nat where
  "PAGESIZE_2M = 512 * PAGESIZE_4K"

definition PAGESIZE_1G :: nat where
  "PAGESIZE_1G = 512 * PAGESIZE_2M"

record page_tables =
  PML4_TABLE :: "u64 list"
  PDP_TABLE :: "u64 list"
  PAGE_DIRS :: "u64 list list"

definition initial_tables :: page_tables where
  "initial_tables = \<lparr>PML4_TABLE = replicate 512 0, PDP_TABLE = replicate 512 0, PAGE_DIRS = replicate 64 (replicate 512 0)\<rparr>"

text \<open>Where the linker puts the tables.\<close>

record table_addrs =
  pml4_addr :: nat
  pdpt_addr :: nat
  pd_addr :: nat

definition pd_entry :: "nat \<Rightarrow> nat \<Rightarrow> u64 res" where
  "pd_entry i_pdpt i_pd =
     rbind (usize_mul i_pdpt PAGESIZE_1G) (\<lambda>a. rbind (usize_mul i_pd PAGESIZE_2M) (\<lambda>b.
     rbind (usize_add a b) (\<lambda>base. Inr (of_nat base OR 0x083))))"

definition fill_dir :: "nat \<Rightarrow> u64 list \<Rightarrow> u64 list res" where
  "fill_dir i_pdpt dir =
     foldM (\<lambda>i_pd dir. rbind (pd_entry i_pdpt i_pd) (\<lambda>e. store dir i_pd e)) [0..<512] dir"

definition setup_dir :: "table_addrs \<Rightarrow> nat \<Rightarrow> page_tables \<Rightarrow> page_tables res" where
  "setup_dir addrs i_pdpt t =
     rbind (index (PAGE_DIRS t) i_pdpt) (\<lambda>dir.
     rbind (store (PDP_TABLE t) i_pdpt (of_nat (pd_addr addrs + 4096 * i_pdpt) OR 0x003)) (\<lambda>pdpt.
     rbind (fill_dir i_pdpt dir) (\<lambda>dir.
     Inr (t\<lparr>PDP_TABLE := pdpt, PAGE_DIRS := (PAGE_DIRS t)[i_pdpt := dir]\<rparr>))))"

text \<open>The result is the tables and the value that \<^verbatim>\<open>set_cr3\<close> loads.\<close>

definition setup_identity_page_table :: "table_addrs \<Rightarrow> page_tables \<Rightarrow> (page_tables \<times> u64) res" where
  "setup_identity_page_table addrs t =
     rbind (store (PML4_TABLE t) 0 (of_nat (pdpt_addr addrs) OR 0x003)) (\<lambda>pml4.
     rbind (foldM (setup_dir addrs) [0..<length (PAGE_DIRS t)] (t\<lparr>PML4_TABLE := pml4\<rparr>)) (\<lambda>t.
     Inr (t, of_nat (pml4_addr addrs))))"

section \<open>The processor's translation\<close>

text \<open>
  The entry fields of the architecture: bit 0 is present, bit 7 is a large page, the address of the next
  table is in bits 12 to 51.
\<close>

definition next_table :: "u64 \<Rightarrow> nat" where
  "next_table e = unat (e AND 0x000ffffffffff000)"

definition walk :: "(nat \<Rightarrow> u64) \<Rightarrow> u64 \<Rightarrow> nat \<Rightarrow> nat option" where
  "walk rd cr3 va =
     (let e4 = rd (next_table cr3 + 8 * (va div 2 ^ 39 mod 512)) in
      if \<not> bit e4 0 then None
      else let e3 = rd (next_table e4 + 8 * (va div 2 ^ 30 mod 512)) in
        if \<not> bit e3 0 then None
        else if bit e3 7 then Some (next_table e3 div 2 ^ 30 * 2 ^ 30 + va mod 2 ^ 30)
        else let e2 = rd (next_table e3 + 8 * (va div 2 ^ 21 mod 512)) in
          if \<not> bit e2 0 then None
          else if bit e2 7 then Some (next_table e2 div 2 ^ 21 * 2 ^ 21 + va mod 2 ^ 21)
          else let e1 = rd (next_table e2 + 8 * (va div 2 ^ 12 mod 512)) in
            if \<not> bit e1 0 then None else Some (next_table e1 + va mod 2 ^ 12))"

text \<open>Physical memory that holds the tables; \<open>other\<close> is the rest of it.\<close>

definition table_mem :: "table_addrs \<Rightarrow> page_tables \<Rightarrow> (nat \<Rightarrow> u64) \<Rightarrow> nat \<Rightarrow> u64" where
  "table_mem addrs t other a =
     (if pml4_addr addrs \<le> a \<and> a < pml4_addr addrs + 4096 then PML4_TABLE t ! ((a - pml4_addr addrs) div 8)
      else if pdpt_addr addrs \<le> a \<and> a < pdpt_addr addrs + 4096 then PDP_TABLE t ! ((a - pdpt_addr addrs) div 8)
      else if pd_addr addrs \<le> a \<and> a < pd_addr addrs + 64 * 4096 then
        PAGE_DIRS t ! ((a - pd_addr addrs) div 4096) ! ((a - pd_addr addrs) mod 4096 div 8)
      else other a)"

text \<open>The alignment of the statics, that they do not overlap, and that they are in the physical address space.\<close>

definition addrs_ok :: "table_addrs \<Rightarrow> bool" where
  "addrs_ok addrs \<longleftrightarrow> 4096 dvd pml4_addr addrs \<and> 4096 dvd pdpt_addr addrs \<and> 4096 dvd pd_addr addrs
     \<and> pml4_addr addrs < 2 ^ 52 \<and> pdpt_addr addrs < 2 ^ 52 \<and> pd_addr addrs + 64 * 4096 < 2 ^ 52
     \<and> (pml4_addr addrs + 4096 \<le> pdpt_addr addrs \<or> pdpt_addr addrs + 4096 \<le> pml4_addr addrs)
     \<and> (pml4_addr addrs + 4096 \<le> pd_addr addrs \<or> pd_addr addrs + 64 * 4096 \<le> pml4_addr addrs)
     \<and> (pdpt_addr addrs + 4096 \<le> pd_addr addrs \<or> pd_addr addrs + 64 * 4096 \<le> pdpt_addr addrs)"

section \<open>Entries\<close>

lemma addr_mask: "(0x000ffffffffff000 :: u64) = push_bit 12 (mask 40)"
  by (simp add: mask_eq_exp_minus_1)

lemma bit_addr_mask: "bit (0x000ffffffffff000 :: u64) n \<longleftrightarrow> 12 \<le> n \<and> n < 52"
  unfolding addr_mask bit_push_bit_iff bit_mask_iff by auto

lemma aligned_low_bits: "2 ^ k dvd (a::nat) \<Longrightarrow> n < k \<Longrightarrow> \<not> bit a n"
  using take_bit_eq_0_iff [of k a] bit_take_bit_iff [of k a n] by simp

lemma small_high_bits: "(a::nat) < 2 ^ k \<Longrightarrow> k \<le> n \<Longrightarrow> \<not> bit a n"
proof -
  assume "a < 2 ^ k" "k \<le> n"
  then have "a < 2 ^ n" by (meson less_le_trans one_le_numeral power_increasing)
  then show "\<not> bit a n" by (simp add: bit_iff_odd)
qed

lemma entry_bit:
  assumes "4096 dvd a" "a < 2 ^ 52" "f < (4096 :: u64)"
  shows "next_table (of_nat a OR f) = a" "n < 12 \<Longrightarrow> bit (of_nat a OR f) n \<longleftrightarrow> bit f n"
proof -
  have fb: "\<not> bit f n" if "12 \<le> n" for n
  proof -
    have "unat f < 2 ^ 12" using assms(3) by (simp add: word_less_nat_alt)
    from small_high_bits [OF this that] show ?thesis by (simp add: bit_unsigned_iff)
  qed
  have lo: "\<not> bit a n" if "n < 12" for n using aligned_low_bits [of 12 a n] assms(1) that by simp
  have hi: "\<not> bit a n" if "52 \<le> n" for n using small_high_bits [OF assms(2) that] .
  have "(of_nat a OR f) AND 0x000ffffffffff000 = of_nat a"
  proof (rule bit_word_eqI)
    fix n
    assume "n < LENGTH(64)"
    then show "bit ((of_nat a OR f) AND 0x000ffffffffff000) n = bit (of_nat a :: u64) n"
      unfolding bit_and_iff bit_or_iff bit_addr_mask bit_of_nat_iff
      using fb [of n] lo [of n] hi [of n] by (cases "n < 12"; cases "n < 52") auto
  qed
  then show "next_table (of_nat a OR f) = a" using assms(2) by (simp add: next_table_def unat_of_nat)
  show "n < 12 \<Longrightarrow> bit (of_nat a OR f) n \<longleftrightarrow> bit f n"
    using lo by (simp add: bit_or_iff bit_of_nat_iff)
qed

section \<open>What setup builds\<close>

definition identity_entry :: "nat \<Rightarrow> nat \<Rightarrow> u64" where
  "identity_entry i j = of_nat (i * 2 ^ 30 + j * 2 ^ 21) OR 0x083"

lemma pd_entry_in:
  assumes "i < 64" "j < 512"
  shows "pd_entry i j = Inr (identity_entry i j)"
proof -
  have "i * 2 ^ 30 \<le> 64 * 2 ^ 30" "j * 2 ^ 21 \<le> 512 * 2 ^ 21" using assms by (simp_all only: mult_le_mono1 less_imp_le)
  then have "i * 2 ^ 30 + j * 2 ^ 21 < usize_bound" unfolding usize_bound_def by simp
  then show ?thesis unfolding pd_entry_def identity_entry_def PAGESIZE_1G_def PAGESIZE_2M_def PAGESIZE_4K_def
    by (simp add: res_simps usize_bound_def)
qed

lemma fill_dir_spec:
  assumes i: "i < 64" and len: "length dir = 512"
  shows "fill_dir i dir = Inr (map (identity_entry i) [0..<512])"
proof -
  have "\<exists>d. foldM (\<lambda>i_pd dir. rbind (pd_entry i i_pd) (\<lambda>e. store dir i_pd e)) [0..<512] dir = Inr d
      \<and> (\<lambda>done d. length d = 512 \<and> (\<forall>j \<in> set done. d ! j = identity_entry i j)) [0..<512] d"
  proof (rule foldM_rule)
    show "length dir = 512 \<and> (\<forall>j \<in> set []. dir ! j = identity_entry i j)" using len by simp
    fix "done" j todo d
    assume split: "[0..<512] = done @ j # todo" and I: "length d = 512 \<and> (\<forall>j \<in> set done. d ! j = identity_entry i j)"
    have "j \<in> set [0..<512]" unfolding split by simp
    then have j: "j < 512" by simp
    then show "\<exists>d'. rbind (pd_entry i j) (\<lambda>e. store d j e) = Inr d' \<and> (length d' = 512 \<and> (\<forall>k \<in> set (done @ [j]). d' ! k = identity_entry i k))"
      using I pd_entry_in [OF i j] by (auto simp: res_simps nth_list_update)
  qed
  then obtain d where d: "fill_dir i dir = Inr d" "length d = 512" "\<forall>j \<in> set [0..<512]. d ! j = identity_entry i j"
    unfolding fill_dir_def by blast
  have "d = map (identity_entry i) [0..<512]" using d(2,3) by (intro nth_equalityI) simp_all
  then show ?thesis using d(1) by simp
qed

lemma setup_spec:
  assumes "addrs_ok addrs"
  shows "\<exists>t. setup_identity_page_table addrs initial_tables = Inr (t, of_nat (pml4_addr addrs))
    \<and> length (PDP_TABLE t) = 512 \<and> PML4_TABLE t = (replicate 512 0)[0 := of_nat (pdpt_addr addrs) OR 3]
    \<and> (\<forall>i < 512. PDP_TABLE t ! i = (if i < 64 then of_nat (pd_addr addrs + 4096 * i) OR 3 else 0))
    \<and> (\<forall>i < 64. PAGE_DIRS t ! i = map (identity_entry i) [0..<512])"
proof -
  let ?p = "(replicate 512 0)[0 := of_nat (pdpt_addr addrs) OR 3]"
  let ?t0 = "initial_tables\<lparr>PML4_TABLE := ?p\<rparr>"
  let ?I = "\<lambda>done (t :: page_tables). PML4_TABLE t = ?p \<and> length (PDP_TABLE t) = 512 \<and> length (PAGE_DIRS t) = 64
      \<and> (\<forall>i < 512. PDP_TABLE t ! i = (if i \<in> set done then of_nat (pd_addr addrs + 4096 * i) OR 3 else 0))
      \<and> (\<forall>i < 64. PAGE_DIRS t ! i = (if i \<in> set done then map (identity_entry i) [0..<512] else replicate 512 0))"
  have "\<exists>t. foldM (setup_dir addrs) [0..<64] ?t0 = Inr t \<and> ?I [0..<64] t"
  proof (rule foldM_rule)
    show "?I [] ?t0" by (simp add: initial_tables_def)
    fix "done" i todo and t :: page_tables
    assume split: "[0..<64] = done @ i # todo" and I: "?I done t"
    have "i \<in> set [0..<64]" unfolding split by simp
    then have i: "i < 64" by simp
    have "distinct (done @ i # todo)" unfolding split [symmetric] by simp
    then have fresh: "i \<notin> set done" by simp
    have dir: "PAGE_DIRS t ! i = replicate 512 0" using I i fresh by simp
    have "fill_dir i (PAGE_DIRS t ! i) = Inr (map (identity_entry i) [0..<512])" using dir by (intro fill_dir_spec [OF i]) simp
    then have "setup_dir addrs i t = Inr (t\<lparr>PDP_TABLE := (PDP_TABLE t)[i := of_nat (pd_addr addrs + 4096 * i) OR 3],
        PAGE_DIRS := (PAGE_DIRS t)[i := map (identity_entry i) [0..<512]]\<rparr>)" (is "_ = Inr ?t")
      using I i by (simp add: setup_dir_def res_simps)
    moreover have "?I (done @ [i]) ?t" using I i by (auto simp: nth_list_update simp del: upt_conv_Cons)
    ultimately show "\<exists>t'. setup_dir addrs i t = Inr t' \<and> ?I (done @ [i]) t'" by blast
  qed
  then obtain t where t: "foldM (setup_dir addrs) [0..<64] ?t0 = Inr t" "?I [0..<64] t" by blast
  have "setup_identity_page_table addrs initial_tables = Inr (t, of_nat (pml4_addr addrs))"
    using t(1) by (simp add: setup_identity_page_table_def initial_tables_def res_simps)
  then show ?thesis using t(2) by auto
qed

section \<open>The walk\<close>

lemma table_mem_pml4: "k < 512 \<Longrightarrow> table_mem addrs t other (pml4_addr addrs + 8 * k) = PML4_TABLE t ! k"
  by (simp add: table_mem_def)

lemma table_mem_pdpt: "addrs_ok addrs \<Longrightarrow> k < 512 \<Longrightarrow> table_mem addrs t other (pdpt_addr addrs + 8 * k) = PDP_TABLE t ! k"
  by (auto simp: table_mem_def addrs_ok_def)

lemma table_mem_pd:
  assumes "addrs_ok addrs" "i < 64" "j < 512"
  shows "table_mem addrs t other (pd_addr addrs + 4096 * i + 8 * j) = PAGE_DIRS t ! i ! j"
proof -
  have "4096 * i + 8 * j < 64 * 4096" using assms(2,3) by linarith
  moreover have "(4096 * i + 8 * j) div 4096 = i" "(4096 * i + 8 * j) mod 4096 div 8 = j" using assms(3) by simp_all
  moreover have "pd_addr addrs + 4096 * i + 8 * j - pd_addr addrs = 4096 * i + 8 * j" by simp
  moreover have out: "\<not> (pml4_addr addrs \<le> pd_addr addrs + 4096 * i + 8 * j \<and> pd_addr addrs + 4096 * i + 8 * j < pml4_addr addrs + 4096)"
    "\<not> (pdpt_addr addrs \<le> pd_addr addrs + 4096 * i + 8 * j \<and> pd_addr addrs + 4096 * i + 8 * j < pdpt_addr addrs + 4096)"
    using assms(1) calculation(1) unfolding addrs_ok_def by linarith+
  ultimately show ?thesis unfolding table_mem_def if_not_P [OF out(1)] if_not_P [OF out(2)] by simp
qed

lemma identity_entry_fields:
  assumes "i < 64" "j < 512"
  shows "next_table (identity_entry i j) = i * 2 ^ 30 + j * 2 ^ 21" "bit (identity_entry i j) 0" "bit (identity_entry i j) 7"
proof -
  have a: "4096 dvd i * 2 ^ 30 + j * 2 ^ 21" by (simp add: dvd_add)
  have "i * 2 ^ 30 \<le> 64 * 2 ^ 30" "j * 2 ^ 21 \<le> 512 * 2 ^ 21" using assms by (simp_all only: mult_le_mono1 less_imp_le)
  then have b: "i * 2 ^ 30 + j * 2 ^ 21 < 2 ^ 52" by simp
  show "next_table (identity_entry i j) = i * 2 ^ 30 + j * 2 ^ 21" unfolding identity_entry_def by (rule entry_bit(1) [OF a b]) simp
  show "bit (identity_entry i j) 0" "bit (identity_entry i j) 7" unfolding identity_entry_def
    using entry_bit(2) [OF a b, of "0x083" 0] entry_bit(2) [OF a b, of "0x083" 7] by simp_all
qed

lemma pointer_entry:
  assumes "4096 dvd a" "a < 2 ^ 52"
  shows "next_table (of_nat a OR 3) = a" "bit (of_nat a OR 3 :: u64) 0" "\<not> bit (of_nat a OR 3 :: u64) 7" "next_table (of_nat a) = a"
  using entry_bit(1) [OF assms, of 3] entry_bit(2) [OF assms, of 3 0] entry_bit(2) [OF assms, of 3 7] entry_bit(1) [OF assms, of 0]
  by simp_all

lemma split_address:
  fixes va :: nat
  shows "va div 2 ^ 30 * 2 ^ 30 + va div 2 ^ 21 mod 512 * 2 ^ 21 + va mod 2 ^ 21 = va"
proof -
  have "va div 2 ^ 30 = va div 2 ^ 21 div 512" by (simp add: div_mult2_eq [symmetric])
  moreover have "q * 2 ^ 30 + r * 2 ^ 21 = (q * 512 + r) * 2 ^ 21" for q r :: nat by simp
  ultimately have "va div 2 ^ 30 * 2 ^ 30 + va div 2 ^ 21 mod 512 * 2 ^ 21 = (va div 2 ^ 21 div 512 * 512 + va div 2 ^ 21 mod 512) * 2 ^ 21"
    by (simp only:)
  also have "\<dots> = va div 2 ^ 21 * 2 ^ 21" by (simp only: div_mult_mod_eq)
  finally show ?thesis by (simp only: div_mult_mod_eq)
qed

lemma walk_2M:
  assumes "rd (next_table cr3 + 8 * (va div 2 ^ 39 mod 512)) = e4" "bit e4 0"
    "rd (next_table e4 + 8 * (va div 2 ^ 30 mod 512)) = e3" "bit e3 0" "\<not> bit e3 7"
    "rd (next_table e3 + 8 * (va div 2 ^ 21 mod 512)) = e2" "bit e2 0" "bit e2 7"
  shows "walk rd cr3 va = Some (next_table e2 div 2 ^ 21 * 2 ^ 21 + va mod 2 ^ 21)"
  by (simp only: walk_def Let_def assms not_True_eq_False not_False_eq_True if_True if_False)

lemma walk_fault:
  assumes "rd (next_table cr3 + 8 * (va div 2 ^ 39 mod 512)) = e4"
    "bit e4 0 \<Longrightarrow> rd (next_table e4 + 8 * (va div 2 ^ 30 mod 512)) = 0"
  shows "walk rd cr3 va = None"
  using assms(2) by (cases "bit e4 0") (simp_all only: walk_def Let_def assms(1) bit_0_eq bot_apply bot_bool_def
      not_True_eq_False not_False_eq_True if_True if_False)

text \<open>The tables as \<^verbatim>\<open>setup_identity_page_table\<close> leaves them.\<close>

definition identity_tables :: "table_addrs \<Rightarrow> page_tables \<Rightarrow> bool" where
  "identity_tables addrs t \<longleftrightarrow> PML4_TABLE t = (replicate 512 0)[0 := of_nat (pdpt_addr addrs) OR 3]
     \<and> (\<forall>i < 512. PDP_TABLE t ! i = (if i < 64 then of_nat (pd_addr addrs + 4096 * i) OR 3 else 0))
     \<and> (\<forall>i < 64. PAGE_DIRS t ! i = map (identity_entry i) [0..<512])"

lemma walk_entries:
  assumes ok: "addrs_ok addrs" and t: "identity_tables addrs t"
  shows "k < 512 \<Longrightarrow> table_mem addrs t other (next_table (of_nat (pml4_addr addrs)) + 8 * k) = (if k = 0 then of_nat (pdpt_addr addrs) OR 3 else 0)"
    and "i < 512 \<Longrightarrow> table_mem addrs t other (next_table (of_nat (pdpt_addr addrs) OR 3) + 8 * i) = (if i < 64 then of_nat (pd_addr addrs + 4096 * i) OR 3 else 0)"
proof -
  have al: "4096 dvd pml4_addr addrs" "pml4_addr addrs < 2 ^ 52" "4096 dvd pdpt_addr addrs" "pdpt_addr addrs < 2 ^ 52"
    using ok by (auto simp: addrs_ok_def)
  show "table_mem addrs t other (next_table (of_nat (pml4_addr addrs)) + 8 * k) = (if k = 0 then of_nat (pdpt_addr addrs) OR 3 else 0)" if "k < 512"
    using pointer_entry(4) [OF al(1,2)] table_mem_pml4 [of k] t that by (simp add: nth_list_update identity_tables_def)
  show "table_mem addrs t other (next_table (of_nat (pdpt_addr addrs) OR 3) + 8 * i) = (if i < 64 then of_nat (pd_addr addrs + 4096 * i) OR 3 else 0)" if "i < 512"
    using pointer_entry(1) [OF al(3,4)] table_mem_pdpt [OF ok, of i] t that by (simp add: identity_tables_def)
qed

lemma walk_below:
  assumes ok: "addrs_ok addrs" and t: "identity_tables addrs t" and va: "va < 64 * 2 ^ 30"
  shows "walk (table_mem addrs t other) (of_nat (pml4_addr addrs)) va = Some va"
proof -
  let ?rd = "table_mem addrs t other" and ?cr3 = "of_nat (pml4_addr addrs) :: u64"
  let ?k = "va div 2 ^ 39 mod 512" and ?i = "va div 2 ^ 30 mod 512" and ?j = "va div 2 ^ 21 mod 512"
  have al: "4096 dvd pdpt_addr addrs" "pdpt_addr addrs < 2 ^ 52" using ok by (auto simp: addrs_ok_def)
  have k: "?k = 0" using va by (simp add: div_eq_0_iff)
  have lt: "va div 2 ^ 30 < 64" using va by (simp add: div_less_iff_less_mult)
  then have i: "?i = va div 2 ^ 30" "?i < 64" by simp_all
  have e4: "?rd (next_table ?cr3 + 8 * ?k) = of_nat (pdpt_addr addrs) OR 3" using walk_entries(1) [OF ok t, of ?k] k by simp
  have e3: "?rd (next_table (of_nat (pdpt_addr addrs) OR 3) + 8 * ?i) = of_nat (pd_addr addrs + 4096 * ?i) OR 3"
    using walk_entries(2) [OF ok t, of ?i] i(2) by simp
  have pa: "4096 dvd pd_addr addrs + 4096 * ?i" "pd_addr addrs + 4096 * ?i < 2 ^ 52" using ok i(2) by (auto simp: addrs_ok_def)
  have e2: "?rd (next_table (of_nat (pd_addr addrs + 4096 * ?i) OR 3) + 8 * ?j) = identity_entry ?i ?j"
    unfolding pointer_entry(1) [OF pa] using table_mem_pd [OF ok, of ?i ?j] i(2) t by (simp add: identity_tables_def)
  have ie: "next_table (identity_entry ?i ?j) = ?i * 2 ^ 30 + ?j * 2 ^ 21" "bit (identity_entry ?i ?j) 0" "bit (identity_entry ?i ?j) 7"
    using identity_entry_fields [of ?i ?j] i(2) by simp_all
  have "(?i * 2 ^ 30 + ?j * 2 ^ 21) div 2 ^ 21 * 2 ^ 21 = ?i * 2 ^ 30 + ?j * 2 ^ 21"
    by (intro dvd_div_mult_self dvd_add dvd_mult le_imp_power_dvd) simp_all
  then have "(?i * 2 ^ 30 + ?j * 2 ^ 21) div 2 ^ 21 * 2 ^ 21 + va mod 2 ^ 21 = va" using split_address [of va] i(1) by (simp only:)
  moreover have "walk ?rd ?cr3 va = Some ((?i * 2 ^ 30 + ?j * 2 ^ 21) div 2 ^ 21 * 2 ^ 21 + va mod 2 ^ 21)"
    unfolding ie(1) [symmetric] by (rule walk_2M) (rule e4 e3 e2 ie pointer_entry(2,3) [OF al] pointer_entry(2,3) [OF pa])+
  ultimately show ?thesis by (simp only:)
qed

lemma walk_above:
  assumes ok: "addrs_ok addrs" and t: "identity_tables addrs t" and va: "\<not> va < 64 * 2 ^ 30" "va < 2 ^ 48"
  shows "walk (table_mem addrs t other) (of_nat (pml4_addr addrs)) va = None"
proof -
  let ?k = "va div 2 ^ 39 mod 512" and ?i = "va div 2 ^ 30 mod 512"
  have lt: "?k < 512" "?i < 512" by simp_all
  note e4 = walk_entries(1) [OF ok t lt(1), where other = other] and e3 = walk_entries(2) [OF ok t lt(2), where other = other]
  have n: "\<not> (?k = 0 \<and> ?i < 64)"
  proof
    assume a: "?k = 0 \<and> ?i < 64"
    then have "va < 2 ^ 39" using va(2) by (simp add: div_eq_0_iff)
    then have "?i = va div 2 ^ 30" by simp
    then show False using a va(1) by (simp add: div_less_iff_less_mult)
  qed
  show ?thesis
  proof (rule walk_fault [where rd = "table_mem addrs t other" and ?cr3.0 = "of_nat (pml4_addr addrs)" and va = va, OF e4])
    assume "bit (if ?k = 0 then of_nat (pdpt_addr addrs) OR 3 else 0 :: u64) 0"
    then have "?k = 0" by (auto split: if_splits)
    then show "table_mem addrs t other (next_table (if ?k = 0 then of_nat (pdpt_addr addrs) OR 3 else 0) + 8 * ?i) = 0"
      using e3 n by (simp only: if_True if_False simp_thms)
  qed
qed

text \<open>
  After \<^verbatim>\<open>setup_identity_page_table\<close>, wherever the linker put the tables and whatever the rest of memory holds,
  the processor translates every address below 64 GiB to itself and faults on every other address of the
  lower half, so in particular on the frames between 64 GiB and the 128 GiB the frame allocator manages.
\<close>

theorem identity_mapping:
  assumes "addrs_ok addrs" "va < 2 ^ 48"
  shows "\<exists>t cr3. setup_identity_page_table addrs initial_tables = Inr (t, cr3)
    \<and> walk (table_mem addrs t other) cr3 va = (if va < 64 * 2 ^ 30 then Some va else None)"
proof -
  from setup_spec [OF assms(1)] obtain t where
    t: "setup_identity_page_table addrs initial_tables = Inr (t, of_nat (pml4_addr addrs))" "identity_tables addrs t"
    unfolding identity_tables_def by blast
  then show ?thesis using walk_below [OF assms(1) t(2)] walk_above [OF assms(1) t(2) _ assms(2)] by (cases "va < 64 * 2 ^ 30") (simp_all only: if_True if_False, blast+)
qed

definition example_addrs :: table_addrs where
  "example_addrs = \<lparr>pml4_addr = 0x101000, pdpt_addr = 0x102000, pd_addr = 0x103000\<rparr>"

theorem identity_mapping_witness:
  "\<exists>t cr3. setup_identity_page_table example_addrs initial_tables = Inr (t, cr3)
     \<and> walk (table_mem example_addrs t (\<lambda>_. 0)) cr3 0xfee000b0 = Some 0xfee000b0"
proof -
  have "addrs_ok example_addrs" by (simp add: addrs_ok_def example_addrs_def)
  from identity_mapping [OF this, where va = "0xfee000b0" and other = "\<lambda>_. 0"] show ?thesis by simp
qed

end
