(* ===== verification/Acpi.thy ===== *)
theory Acpi
  imports Prelude
begin

text \<open>
  The ACPI tables and the power management timer, \<^verbatim>\<open>kernel/src/acpi.rs\<close>. The tables are structures in memory that
  the kernel reads through pointers, so they are modelled as addresses into \<open>memory\<close>, with the fields at the
  offsets of the packed structures. The timer is a port: its successive reads are a function of the number of
  reads done so far.
\<close>

section \<open>UTF-8\<close>

text \<open>\<^verbatim>\<open>String::from_utf8\<close> of the standard library rejects ill-formed sequences, and the caller unwraps.\<close>

definition in_range :: "nat \<Rightarrow> nat \<Rightarrow> u8 \<Rightarrow> bool" where
  "in_range lo hi b \<longleftrightarrow> lo \<le> unat b \<and> unat b \<le> hi"

definition tail_byte :: "u8 \<Rightarrow> bool" where
  "tail_byte b = in_range 0x80 0xbf b"

definition lead2 :: "u8 \<Rightarrow> bool" where
  "lead2 b = in_range 0xc2 0xdf b"

definition lead3 :: "u8 \<Rightarrow> u8 \<Rightarrow> bool" where
  "lead3 b c \<longleftrightarrow> b = 0xe0 \<and> in_range 0xa0 0xbf c \<or> (in_range 0xe1 0xec b \<or> in_range 0xee 0xef b) \<and> tail_byte c
     \<or> b = 0xed \<and> in_range 0x80 0x9f c"

definition lead4 :: "u8 \<Rightarrow> u8 \<Rightarrow> bool" where
  "lead4 b c \<longleftrightarrow> b = 0xf0 \<and> in_range 0x90 0xbf c \<or> in_range 0xf1 0xf3 b \<and> tail_byte c \<or> b = 0xf4 \<and> in_range 0x80 0x8f c"

fun utf8_valid :: "u8 list \<Rightarrow> bool" where
  "utf8_valid [] = True"
| "utf8_valid [b] = (b < 0x80)"
| "utf8_valid [b, c] = (b < 0x80 \<and> utf8_valid [c] \<or> lead2 b \<and> tail_byte c)"
| "utf8_valid [b, c, d] = (b < 0x80 \<and> utf8_valid [c, d] \<or> lead2 b \<and> tail_byte c \<and> utf8_valid [d] \<or> lead3 b c \<and> tail_byte d)"
| "utf8_valid (b # c # d # e # bs) =
     (b < 0x80 \<and> utf8_valid (c # d # e # bs) \<or> lead2 b \<and> tail_byte c \<and> utf8_valid (d # e # bs)
      \<or> lead3 b c \<and> tail_byte d \<and> utf8_valid (e # bs) \<or> lead4 b c \<and> tail_byte d \<and> tail_byte e \<and> utf8_valid bs)"

definition ascii_bytes :: "string \<Rightarrow> u8 list" where
  "ascii_bytes s = map (\<lambda>c. of_nat (of_char c)) s"

section \<open>Checksums\<close>

definition sum_bytes_unchecked :: "memory \<Rightarrow> addr \<Rightarrow> nat \<Rightarrow> u8" where
  "sum_bytes_unchecked mem obj until = foldl (\<lambda>a b. ucast ((ucast a + ucast b :: u32) AND 0xff)) 0 (bytes_at mem obj until)"

definition sum_bytes :: "memory \<Rightarrow> addr \<Rightarrow> nat \<Rightarrow> nat \<Rightarrow> u8 res" where
  "sum_bytes mem obj size_of_obj until = rbind (rassert (size_of_obj \<ge> until)) (\<lambda>_. Inr (sum_bytes_unchecked mem obj until))"

section \<open>The root pointer\<close>

definition RSDP_SIZE :: nat where
  "RSDP_SIZE = 36"

definition rsdp_signature :: "memory \<Rightarrow> addr \<Rightarrow> u8 list" where
  "rsdp_signature mem a = bytes_at mem a 8"

definition rsdp_revision :: "memory \<Rightarrow> addr \<Rightarrow> u8" where
  "rsdp_revision mem a = mem (a + 15)"

definition xsdt_address :: "memory \<Rightarrow> addr \<Rightarrow> addr" where
  "xsdt_address mem a = unat (read_u64 mem (a + 24))"

definition rsdp_is_valid :: "memory \<Rightarrow> addr \<Rightarrow> bool res" where
  "rsdp_is_valid mem a =
     (if \<not> utf8_valid (rsdp_signature mem a) then Inl UnwrapNone
      else if rsdp_signature mem a \<noteq> ascii_bytes ''RSD PTR '' then Inr False
      else if rsdp_revision mem a \<noteq> 2 then Inr False
      else rbind (sum_bytes mem a RSDP_SIZE 20) (\<lambda>s.
        if s \<noteq> 0 then Inr False
        else rbind (sum_bytes mem a RSDP_SIZE 36) (\<lambda>s. if s \<noteq> 0 then Inr False else Inr True)))"

section \<open>Tables\<close>

definition HEADER_SIZE :: nat where
  "HEADER_SIZE = 36"

definition dh_signature :: "memory \<Rightarrow> addr \<Rightarrow> u8 list" where
  "dh_signature mem a = bytes_at mem a 4"

definition dh_length :: "memory \<Rightarrow> addr \<Rightarrow> nat" where
  "dh_length mem a = unat (read_u32 mem (a + 4))"

definition dh_is_valid :: "memory \<Rightarrow> addr \<Rightarrow> u8 list \<Rightarrow> bool" where
  "dh_is_valid mem a expected_signature \<longleftrightarrow> dh_signature mem a = expected_signature
     \<and> sum_bytes_unchecked mem a (dh_length mem a) = 0"

definition xsdt_count :: "memory \<Rightarrow> addr \<Rightarrow> nat res" where
  "xsdt_count mem a = rbind (usize_sub (dh_length mem a) HEADER_SIZE) (\<lambda>n. Inr (n div 8))"

definition xsdt_entry :: "memory \<Rightarrow> addr \<Rightarrow> nat \<Rightarrow> addr res" where
  "xsdt_entry mem a i =
     rbind (xsdt_count mem a) (\<lambda>count.
     rbind (rassert (i < count)) (\<lambda>_.
     rbind (usize_add a HEADER_SIZE) (\<lambda>table_begin.
     rbind (usize_mul i 8) (\<lambda>offset.
     rbind (usize_add table_begin offset) (\<lambda>p.
     Inr (unat (read_u64 mem p)))))))"

fun find_fadt :: "memory \<Rightarrow> addr \<Rightarrow> nat list \<Rightarrow> addr option res" where
  "find_fadt mem xsdt [] = Inr None"
| "find_fadt mem xsdt (i # is) =
     rbind (xsdt_entry mem xsdt i) (\<lambda>entry.
     if dh_is_valid mem entry (ascii_bytes ''FACP'') then Inr (Some entry) else find_fadt mem xsdt is)"

text \<open>The result is the table that the static \<^verbatim>\<open>FADT\<close> is initialised with.\<close>

definition acpi_initialize :: "memory \<Rightarrow> addr \<Rightarrow> addr res" where
  "acpi_initialize mem rsdp =
     rbind (rsdp_is_valid mem rsdp) (\<lambda>valid.
     if \<not> valid then Inl ExplicitPanic
     else let xsdt = xsdt_address mem rsdp in
       if \<not> dh_is_valid mem xsdt (ascii_bytes ''XSDT'') then Inl ExplicitPanic
       else rbind (xsdt_count mem xsdt) (\<lambda>count.
         rbind (find_fadt mem xsdt [0..<count]) (\<lambda>fadt. unwrap fadt)))"

section \<open>The timer\<close>

record fadt =
  pm_tmr_blk :: u32
  fadt_flags :: u32

definition fadt_at :: "memory \<Rightarrow> addr \<Rightarrow> fadt" where
  "fadt_at mem a = \<lparr>pm_tmr_blk = read_u32 mem (a + 76), fadt_flags = read_u32 mem (a + 112)\<rparr>"

definition PM_TIMER_FREQ :: nat where
  "PM_TIMER_FREQ = 3579545"

text \<open>\<open>rd k\<close> is what the \<open>k\<close>-th read of the timer port returns; the result is the index of the last read.\<close>

partial_function (option) poll_while :: "(u32 \<Rightarrow> bool) \<Rightarrow> (nat \<Rightarrow> u32) \<Rightarrow> nat \<Rightarrow> nat option" where
  "poll_while p rd k = (if p (rd k) then poll_while p rd (Suc k) else Some k)"

definition wait_millis :: "fadt \<Rightarrow> (nat \<Rightarrow> u32) \<Rightarrow> u32 \<Rightarrow> nat res option" where
  "wait_millis fadt rd msec =
     (let pm_timer_is_32 = (drop_bit 8 (fadt_flags fadt) AND 1 \<noteq> 0);
          start = rd 0
      in if PM_TIMER_FREQ * unat msec \<ge> 2 ^ 32 then Some (Inl ArithOverflow)
      else let end_tick = start + of_nat (PM_TIMER_FREQ * unat msec div 1000);
               end_tick = (if pm_timer_is_32 then end_tick else end_tick AND 0x00ffffff)
      in case (if end_tick < start then poll_while (\<lambda>t. t \<ge> start) rd 1 else Some 0) of
           None \<Rightarrow> None
         | Some k \<Rightarrow> (case poll_while (\<lambda>t. t < end_tick) rd (Suc k) of None \<Rightarrow> None | Some k \<Rightarrow> Some (Inr k)))"

section \<open>Checksums are sums\<close>

lemma sum_step: "ucast ((ucast (a :: u8) + ucast b :: u32) AND 0xff) = (a + b :: u8)"
proof -
  have "(0xff :: u32) = mask 8" by (simp add: mask_eq_exp_minus_1)
  then have "ucast ((ucast a + ucast b :: u32) AND 0xff) = (ucast (take_bit 8 (ucast a + ucast b :: u32)) :: u8)"
    by (simp only: take_bit_eq_mask)
  also have "\<dots> = ucast (ucast a + ucast b :: u32)"
    by (rule bit_word_eqI) (simp add: bit_simps)
  also have "\<dots> = a + b" by transfer (simp add: take_bit_add)
  finally show ?thesis .
qed

lemma sum_bytes_sum: "sum_bytes_unchecked mem a n = sum_list (bytes_at mem a n)"
proof -
  have "foldl (\<lambda>a b. ucast ((ucast a + ucast b :: u32) AND 0xff)) x bs = x + sum_list bs" for x :: u8 and bs
    by (induction bs arbitrary: x) (simp_all add: sum_step)
  then show ?thesis by (simp add: sum_bytes_unchecked_def)
qed

section \<open>The search for the table\<close>

definition rsdp_ok :: "memory \<Rightarrow> addr \<Rightarrow> bool" where
  "rsdp_ok mem a \<longleftrightarrow> bytes_at mem a 8 = ascii_bytes ''RSD PTR '' \<and> mem (a + 15) = 2
     \<and> sum_list (bytes_at mem a 20) = 0 \<and> sum_list (bytes_at mem a 36) = 0"

definition table_ok :: "memory \<Rightarrow> string \<Rightarrow> addr \<Rightarrow> bool" where
  "table_ok mem sig a \<longleftrightarrow> bytes_at mem a 4 = ascii_bytes sig
     \<and> sum_list (bytes_at mem a (unat (read_u32 mem (a + 4)))) = 0"

definition table_entries :: "memory \<Rightarrow> addr \<Rightarrow> addr list" where
  "table_entries mem a = map (\<lambda>i. unat (read_u64 mem (a + 36 + 8 * i))) [0..<(dh_length mem a - 36) div 8]"

lemma rsdp_valid_iff: "rsdp_is_valid mem a = (if utf8_valid (bytes_at mem a 8) then Inr (rsdp_ok mem a) else Inl UnwrapNone)"
  by (simp add: rsdp_is_valid_def rsdp_ok_def rsdp_signature_def rsdp_revision_def sum_bytes_def RSDP_SIZE_def sum_bytes_sum)

lemma dh_valid_iff: "dh_is_valid mem a (ascii_bytes sig) = table_ok mem sig a"
  by (simp add: dh_is_valid_def table_ok_def dh_signature_def dh_length_def sum_bytes_sum)

lemma rsdp_ok_utf8: "rsdp_ok mem a \<Longrightarrow> utf8_valid (bytes_at mem a 8)"
proof -
  have "utf8_valid (ascii_bytes ''RSD PTR '')" by code_simp
  then show "rsdp_ok mem a \<Longrightarrow> utf8_valid (bytes_at mem a 8)" by (simp add: rsdp_ok_def)
qed

lemma entry_reads:
  assumes "i < (dh_length mem x - 36) div 8" "36 \<le> dh_length mem x" "x + dh_length mem x < usize_bound"
  shows "xsdt_entry mem x i = Inr (table_entries mem x ! i)"
proof -
  have "36 + 8 * i < dh_length mem x" using assms(1,2) by linarith
  then show ?thesis using assms
    by (simp add: xsdt_entry_def xsdt_count_def HEADER_SIZE_def table_entries_def res_simps algebra_simps)
qed

lemma find_fadt_find:
  assumes "36 \<le> dh_length mem x" "x + dh_length mem x < usize_bound" "set is \<subseteq> {..<(dh_length mem x - 36) div 8}"
  shows "find_fadt mem x is = Inr (find (table_ok mem ''FACP'') (map (\<lambda>i. table_entries mem x ! i) is))"
  using assms(3) by (induction "is") (simp_all add: entry_reads [OF _ assms(1,2)] dh_valid_iff)

lemma initialize_find:
  assumes "rsdp_ok mem r" "table_ok mem ''XSDT'' (xsdt_address mem r)" "36 \<le> dh_length mem (xsdt_address mem r)"
    and "xsdt_address mem r + dh_length mem (xsdt_address mem r) < usize_bound"
  shows "acpi_initialize mem r = unwrap (find (table_ok mem ''FACP'') (table_entries mem (xsdt_address mem r)))"
proof -
  let ?x = "xsdt_address mem r"
  have "map (\<lambda>i. table_entries mem ?x ! i) [0..<(dh_length mem ?x - 36) div 8] = table_entries mem ?x"
    by (rule nth_equalityI) (simp_all add: table_entries_def)
  moreover have "set [0..<(dh_length mem ?x - 36) div 8] \<subseteq> {..<(dh_length mem ?x - 36) div 8}" by auto
  ultimately have "find_fadt mem ?x [0..<(dh_length mem ?x - 36) div 8] = Inr (find (table_ok mem ''FACP'') (table_entries mem ?x))"
    using find_fadt_find [OF assms(3,4)] by metis
  then show ?thesis using assms rsdp_ok_utf8 [OF assms(1)]
    by (simp add: acpi_initialize_def rsdp_valid_iff dh_valid_iff xsdt_count_def HEADER_SIZE_def res_simps Let_def)
qed

section \<open>The memory of the tables\<close>

text \<open>The search depends on the bytes of the tables only.\<close>

definition acpi_area :: "memory \<Rightarrow> addr \<Rightarrow> addr set" where
  "acpi_area mem r = (let x = xsdt_address mem r in
     {r..<r + 36} \<union> {x..<x + dh_length mem x} \<union> (\<Union>e \<in> set (table_entries mem x). {e..<e + max 8 (dh_length mem e)}))"

lemma read_u32_same: "\<lbrakk>{a..<a + 4} \<subseteq> A; \<forall>b \<in> A. mem' b = mem b\<rbrakk> \<Longrightarrow> read_u32 mem' a = read_u32 mem a"
  unfolding read_u32_def by (subst bytes_at_eq [of a 4 mem' mem]) auto

lemma read_u64_same: "\<lbrakk>{a..<a + 8} \<subseteq> A; \<forall>b \<in> A. mem' b = mem b\<rbrakk> \<Longrightarrow> read_u64 mem' a = read_u64 mem a"
  unfolding read_u64_def by (subst bytes_at_eq [of a 8 mem' mem]) auto

lemma bytes_same: "\<lbrakk>{a..<a + n} \<subseteq> A; \<forall>b \<in> A. mem' b = mem b\<rbrakk> \<Longrightarrow> bytes_at mem' a n = bytes_at mem a n"
  by (rule bytes_at_eq) auto

lemma rsdp_same:
  assumes "{r..<r + 36} \<subseteq> A" "\<forall>b \<in> A. mem' b = mem b"
  shows "rsdp_ok mem' r = rsdp_ok mem r" "xsdt_address mem' r = xsdt_address mem r"
proof -
  have "bytes_at mem' r n = bytes_at mem r n" if "n \<le> 36" for n using assms that by (intro bytes_same [OF _ assms(2)]) auto
  moreover have "r + 15 \<in> A" by (rule subsetD [OF assms(1)]) simp
  then have "mem' (r + 15) = mem (r + 15)" using assms(2) by blast
  ultimately show "rsdp_ok mem' r = rsdp_ok mem r" by (simp add: rsdp_ok_def)
  have "{r + 24..<r + 24 + 8} \<subseteq> A" using assms(1) by auto
  from read_u64_same [OF this assms(2)] show "xsdt_address mem' r = xsdt_address mem r" by (simp add: xsdt_address_def)
qed

lemma table_same:
  assumes "{e..<e + max 8 (dh_length mem e)} \<subseteq> A" "\<forall>b \<in> A. mem' b = mem b"
  shows "dh_length mem' e = dh_length mem e" "table_ok mem' sig e = table_ok mem sig e"
proof -
  have "{e + 4..<e + 4 + 4} \<subseteq> A" by (rule subset_trans [OF _ assms(1)]) auto
  note len = read_u32_same [OF this assms(2)]
  then show "dh_length mem' e = dh_length mem e" by (simp add: dh_length_def)
  have "bytes_at mem' e 4 = bytes_at mem e 4" "bytes_at mem' e (dh_length mem e) = bytes_at mem e (dh_length mem e)"
    by (rule bytes_same [OF _ assms(2)], rule subset_trans [OF _ assms(1)], auto)+
  then show "table_ok mem' sig e = table_ok mem sig e" using len by (simp add: table_ok_def dh_length_def)
qed

lemma entries_same:
  assumes "{x..<x + dh_length mem x} \<subseteq> A" "36 \<le> dh_length mem x" "\<forall>b \<in> A. mem' b = mem b"
  shows "table_entries mem' x = table_entries mem x"
proof -
  have "dh_length mem' x = dh_length mem x" using table_same(1) [of x mem A mem'] assms by (simp add: max_def)
  moreover have "read_u64 mem' (x + 36 + 8 * i) = read_u64 mem (x + 36 + 8 * i)" if "i < (dh_length mem x - 36) div 8" for i
  proof (rule read_u64_same [OF _ assms(3)])
    have "36 + 8 * i + 8 \<le> dh_length mem x" using that assms(2) by linarith
    then show "{x + 36 + 8 * i..<x + 36 + 8 * i + 8} \<subseteq> A" using assms(1) by auto
  qed
  ultimately show ?thesis by (simp add: table_entries_def)
qed

text \<open>\<open>acpi_tables mem r f\<close>: the tables are in order, and \<open>f\<close> is the fixed description table.\<close>

definition acpi_tables :: "memory \<Rightarrow> addr \<Rightarrow> addr \<Rightarrow> bool" where
  "acpi_tables mem r f \<longleftrightarrow> (let x = xsdt_address mem r in rsdp_ok mem r \<and> table_ok mem ''XSDT'' x \<and> 36 \<le> dh_length mem x
     \<and> x + dh_length mem x < usize_bound \<and> find (table_ok mem ''FACP'') (table_entries mem x) = Some f \<and> 116 \<le> dh_length mem f)"

lemma acpi_tables_same:
  assumes "acpi_tables mem r f" "\<forall>b \<in> acpi_area mem r. mem' b = mem b"
  shows "acpi_initialize mem' r = Inr f" "fadt_at mem' f = fadt_at mem f" "acpi_tables mem' r f" "acpi_area mem' r = acpi_area mem r"
proof -
  let ?x = "xsdt_address mem r"
  note t = assms(1) [unfolded acpi_tables_def Let_def]
  have A: "{r..<r + 36} \<subseteq> acpi_area mem r" "{?x..<?x + dh_length mem ?x} \<subseteq> acpi_area mem r"
    and E: "\<And>e. e \<in> set (table_entries mem ?x) \<Longrightarrow> {e..<e + max 8 (dh_length mem e)} \<subseteq> acpi_area mem r"
    unfolding acpi_area_def Let_def by blast+
  have mx: "max 8 (dh_length mem ?x) = dh_length mem ?x" using t by simp
  note r = rsdp_same [OF A(1) assms(2)] and x = table_same [of ?x mem, unfolded mx, OF A(2) assms(2)]
  have en: "table_entries mem' ?x = table_entries mem ?x" using entries_same [OF A(2) _ assms(2)] t by blast
  have "find (table_ok mem' ''FACP'') (table_entries mem ?x) = find (table_ok mem ''FACP'') (table_entries mem ?x)"
    by (rule find_cong) (use table_same(2) [OF E assms(2)] in auto)
  note fd = this
  then show "acpi_initialize mem' r = Inr f" using initialize_find [of mem' r] t r x en by simp
  have el: "dh_length mem' e = dh_length mem e" if "e \<in> set (table_entries mem ?x)" for e by (rule table_same(1) [OF E [OF that] assms(2)])
  show "acpi_area mem' r = acpi_area mem r" unfolding acpi_area_def Let_def r(2) x(1) en using el by simp
  have f: "f \<in> set (table_entries mem ?x)" using t by (auto simp: find_Some_iff)
  have "{f + 76..<f + 76 + 4} \<subseteq> acpi_area mem r" "{f + 112..<f + 112 + 4} \<subseteq> acpi_area mem r" using E [OF f] t by auto
  from this [THEN read_u32_same, OF assms(2)] show "fadt_at mem' f = fadt_at mem f" by (simp add: fadt_at_def)
  show "acpi_tables mem' r f" unfolding acpi_tables_def Let_def r(2) en fd using t r(1) x el [OF f] by simp
qed

section \<open>Waiting\<close>

lemma poll_while_first:
  assumes "k \<le> n" "\<not> p (rd n)" "\<And>j. \<lbrakk>k \<le> j; j < n\<rbrakk> \<Longrightarrow> p (rd j)"
  shows "poll_while p rd k = Some n"
  using assms
proof (induction "n - k" arbitrary: k)
  case 0
  then show ?case by (subst poll_while.simps) simp
next
  case (Suc m)
  then have "poll_while p rd (Suc k) = Some n" by simp
  then show ?case using Suc by (subst poll_while.simps) simp
qed

text \<open>
  \<open>counts w tau rd\<close>: the port shows the low \<open>w\<close> bits of a counter that is read at least once per tick; \<open>tau k\<close> is
  the tick of read \<open>k\<close>.
\<close>

definition counts :: "nat \<Rightarrow> (nat \<Rightarrow> nat) \<Rightarrow> (nat \<Rightarrow> u32) \<Rightarrow> bool" where
  "counts w tau rd \<longleftrightarrow> (\<forall>k. rd k = of_nat (tau k mod 2 ^ w) \<and> tau k \<le> tau (Suc k) \<and> tau (Suc k) \<le> Suc (tau k))
     \<and> (\<forall>t. \<exists>k. t \<le> tau k)"

lemma first_at:
  fixes tau :: "nat \<Rightarrow> nat"
  assumes step: "\<And>k. tau (Suc k) \<le> Suc (tau k)" and ex: "\<exists>k. v \<le> tau k" and "tau 0 \<le> v"
  shows "\<exists>k. tau k = v \<and> (\<forall>j<k. tau j < v)"
proof -
  define k where "k = (LEAST k. v \<le> tau k)"
  have k: "v \<le> tau k" unfolding k_def using ex by (rule LeastI_ex)
  have j: "tau j < v" if "j < k" for j using not_less_Least [of j "\<lambda>k. v \<le> tau k"] that by (simp add: k_def)
  have "tau k \<le> v"
  proof (cases k)
    case 0
    then show ?thesis using assms(3) by simp
  next
    case (Suc i)
    then show ?thesis using step [of i] j [of i] by simp
  qed
  then show ?thesis using k j by (intro exI [of _ k]) auto
qed

text \<open>The timer as the two loops see it: \<open>s\<close> is the first reading, \<open>d\<close> the ticks to wait for.\<close>

definition pm_timer :: "nat \<Rightarrow> (nat \<Rightarrow> nat) \<Rightarrow> (nat \<Rightarrow> u32) \<Rightarrow> nat \<Rightarrow> nat \<Rightarrow> bool" where
  "pm_timer w tau rd s d \<longleftrightarrow> (w = 24 \<or> w = 32) \<and> counts w tau rd \<and> s = tau 0 mod 2 ^ w \<and> 0 < d \<and> d < 2 ^ w"

lemma tau_mono: "\<lbrakk>counts w tau rd; j \<le> k\<rbrakk> \<Longrightarrow> tau j \<le> tau k"
  unfolding counts_def by (rule lift_Suc_mono_le [where f = tau]) blast+

lemma first_after: "counts w tau rd \<Longrightarrow> \<exists>k. tau k = tau 0 + v \<and> (\<forall>j<k. tau j < tau 0 + v)"
  by (intro first_at) (auto simp: counts_def)

lemma reading:
  assumes "pm_timer w tau rd s d"
  shows "unat (rd k) = (s + (tau k - tau 0)) mod 2 ^ w"
proof -
  have c: "counts w tau rd" and s: "s = tau 0 mod 2 ^ w" and w: "w \<le> 32" using assms by (auto simp: pm_timer_def)
  have "tau k mod 2 ^ w < 2 ^ w" by simp
  also have "(2::nat) ^ w \<le> 2 ^ 32" by (rule power_increasing [OF w]) simp
  finally have "tau k mod 2 ^ w < 2 ^ 32" .
  moreover have "(s + (tau k - tau 0)) mod 2 ^ w = (tau 0 + (tau k - tau 0)) mod 2 ^ w" by (simp only: s mod_add_left_eq)
  then have "tau k mod 2 ^ w = (s + (tau k - tau 0)) mod 2 ^ w" using tau_mono [OF c, of 0 k] by simp
  moreover have "rd k = of_nat (tau k mod 2 ^ w)" using c by (simp add: counts_def)
  ultimately show ?thesis by (simp add: unat_of_nat)
qed

lemma start_less: "pm_timer w tau rd s d \<Longrightarrow> s < 2 ^ w"
  by (auto simp: pm_timer_def)

lemma reading_before:
  "\<lbrakk>pm_timer w tau rd s d; s + (tau k - tau 0) < 2 ^ w\<rbrakk> \<Longrightarrow> unat (rd k) = s + (tau k - tau 0)"
  by (simp add: reading)

lemma reading_after:
  "\<lbrakk>pm_timer w tau rd s d; 2 ^ w \<le> s + (tau k - tau 0); s + (tau k - tau 0) < 2 * 2 ^ w\<rbrakk>
     \<Longrightarrow> unat (rd k) = s + (tau k - tau 0) - 2 ^ w"
  by (simp add: reading mod_if)

lemma reading_start: "pm_timer w tau rd s d \<Longrightarrow> unat (rd 0) = s"
  using reading_before [of w tau rd s d 0] start_less [of w tau rd s d] by simp

text \<open>No wrap-around: the second loop alone, which sees every tick.\<close>

lemma waits_straight:
  assumes T: "pm_timer w tau rd s d" and e: "unat end_tick = s + d" "s + d < 2 ^ w"
  shows "\<exists>k. poll_while (\<lambda>t. t < end_tick) rd 1 = Some k \<and> tau k = tau 0 + d"
proof -
  have c: "counts w tau rd" and d: "0 < d" using T by (auto simp: pm_timer_def)
  obtain k where k: "tau k = tau 0 + d" "\<And>j. j < k \<Longrightarrow> tau j < tau 0 + d" using first_after [OF c, of d] by auto
  have "poll_while (\<lambda>t. t < end_tick) rd 1 = Some k"
  proof (rule poll_while_first)
    show "1 \<le> k" using k(1) d by (cases k) auto
    show "\<not> rd k < end_tick" using k(1) e by (simp add: word_less_nat_alt reading_before [OF T])
    show "rd j < end_tick" if "1 \<le> j" "j < k" for j
      using k(2) [OF that(2)] tau_mono [OF c, of 0 j] e reading_before [OF T, of j] by (simp add: word_less_nat_alt)
  qed
  with k(1) show ?thesis by blast
qed

text \<open>With a wrap-around: the first loop ends at the wrap, the second one at the end.\<close>

lemma waits_wrap:
  assumes T: "pm_timer w tau rd s d" and "0 < s"
  shows "\<exists>k. poll_while (\<lambda>t. t \<ge> rd 0) rd 1 = Some k \<and> tau k = tau 0 + (2 ^ w - s)"
proof -
  have c: "counts w tau rd" using T by (simp add: pm_timer_def)
  note s = start_less [OF T]
  obtain k where k: "tau k = tau 0 + (2 ^ w - s)" "\<And>j. j < k \<Longrightarrow> tau j < tau 0 + (2 ^ w - s)"
    using first_after [OF c, of "2 ^ w - s"] by auto
  have "poll_while (\<lambda>t. t \<ge> rd 0) rd 1 = Some k"
  proof (rule poll_while_first)
    show "1 \<le> k" using k(1) s by (cases k) auto
    show "\<not> rd 0 \<le> rd k" using k(1) assms(2) s reading_after [OF T, of k] by (simp add: word_le_nat_alt reading_start [OF T])
    show "rd 0 \<le> rd j" if "1 \<le> j" "j < k" for j
      using k(2) [OF that(2)] tau_mono [OF c, of 0 j] reading_before [OF T, of j] by (simp add: word_le_nat_alt reading_start [OF T])
  qed
  with k(1) show ?thesis by blast
qed

lemma waits_after_wrap:
  assumes T: "pm_timer w tau rd s d" and e: "unat end_tick = s + d - 2 ^ w" "2 ^ w \<le> s + d" and k: "tau k = tau 0 + (2 ^ w - s)"
  shows "\<exists>k'. poll_while (\<lambda>t. t < end_tick) rd (Suc k) = Some k' \<and> tau 0 + d \<le> tau k' \<and> tau k' \<le> tau 0 + d + 1"
proof (cases "s + d = 2 ^ w")
  case True
  have "tau k \<le> tau (Suc k)" "tau (Suc k) \<le> Suc (tau k)" using T by (auto simp: pm_timer_def counts_def)
  moreover have "poll_while (\<lambda>t. t < end_tick) rd (Suc k) = Some (Suc k)"
    using True e(1) by (intro poll_while_first) (auto simp: word_less_nat_alt)
  moreover have "2 ^ w - s = d" using True by simp
  ultimately show ?thesis using k by (intro exI [of _ "Suc k"]) auto
next
  case False
  have c: "counts w tau rd" and d: "d < 2 ^ w" using T by (auto simp: pm_timer_def)
  note s = start_less [OF T]
  obtain k' where k': "tau k' = tau 0 + d" "\<And>j. j < k' \<Longrightarrow> tau j < tau 0 + d" using first_after [OF c, of d] by auto
  have lt: "k < k'" using tau_mono [OF c, of k' k] k k'(1) False e(2) s by (cases "k' \<le> k") auto
  have "poll_while (\<lambda>t. t < end_tick) rd (Suc k) = Some k'"
  proof (rule poll_while_first)
    show "Suc k \<le> k'" using lt by simp
    show "\<not> rd k' < end_tick" using k'(1) e s d reading_after [OF T, of k'] by (simp add: word_less_nat_alt)
    show "rd j < end_tick" if "Suc k \<le> j" "j < k'" for j
    proof -
      have "tau k \<le> tau j" using tau_mono [OF c] that(1) by simp
      then have "2 ^ w \<le> s + (tau j - tau 0)" "tau j - tau 0 < d" using k k'(2) [OF that(2)] s by auto
      then show ?thesis using reading_after [OF T, of j] e s d by (simp add: word_less_nat_alt)
    qed
  qed
  then show ?thesis using k'(1) by auto
qed

definition timer_width :: "fadt \<Rightarrow> nat" where
  "timer_width f = (if bit (fadt_flags f) 8 then 32 else 24)"

lemma timer_is_32: "(drop_bit 8 (fl :: u32) AND 1 \<noteq> 0) = bit fl 8"
  by (simp add: and_one_eq odd_iff_mod_2_eq_one bit_iff_odd_drop_bit)

lemma end_tick_value:
  assumes T: "pm_timer (timer_width f) tau rd s d" and "d < 2 ^ 32"
  shows "unat (if bit (fadt_flags f) 8 then rd 0 + of_nat d else (rd 0 + of_nat d) AND 0x00ffffff) = (s + d) mod 2 ^ timer_width f"
proof -
  have m: "(0x00ffffff :: u32) = mask 24" by (simp add: mask_eq_exp_minus_1)
  have "unat (rd 0 + of_nat d) = (s + d) mod 2 ^ 32"
    using assms(2) by (simp add: unat_word_ariths unat_of_nat reading_start [OF T] mod_add_right_eq)
  moreover have "unat (x AND 0x00ffffff) = unat x mod 2 ^ 24" for x :: u32
    unfolding m take_bit_eq_mask [symmetric] unsigned_take_bit_eq by (rule take_bit_eq_mod)
  moreover have "(s + d) mod 2 ^ 32 mod 2 ^ 24 = (s + d) mod 2 ^ 24" by (rule mod_mod_cancel) simp
  ultimately show ?thesis by (simp add: timer_width_def)
qed

lemma wait_millis_run:
  assumes c: "counts (timer_width f) tau rd" and lt: "unat msec < 1200" and pos: "0 < unat msec" and dd: "d = 3579545 * unat msec div 1000"
  shows "\<exists>k. wait_millis f rd msec = Some (Inr k) \<and> tau 0 + d \<le> tau k \<and> tau k \<le> tau 0 + d + 1"
proof -
  let ?w = "timer_width f"
  define e where "e = (if bit (fadt_flags f) 8 then rd 0 + of_nat d else (rd 0 + of_nat d) AND 0x00ffffff)"
  have small: "\<not> 2 ^ 32 \<le> PM_TIMER_FREQ * unat msec" using lt by (simp add: PM_TIMER_FREQ_def)
  have d: "0 < d" "d < 2 ^ 24" using lt pos by (auto simp: dd)
  then have dw: "d < 2 ^ ?w" "d < 2 ^ 32" by (auto simp: timer_width_def)
  define s where "s = tau 0 mod 2 ^ ?w"
  have T: "pm_timer ?w tau rd s d" using c dw d by (auto simp: pm_timer_def s_def timer_width_def)
  note s = start_less [OF T]
  have e: "unat e = (s + d) mod 2 ^ ?w" unfolding e_def by (rule end_tick_value [OF T dw(2)])
  have pd: "PM_TIMER_FREQ * unat msec div 1000 = d" by (simp add: dd PM_TIMER_FREQ_def)
  have run: "wait_millis f rd msec = (case (if e < rd 0 then poll_while (\<lambda>t. t \<ge> rd 0) rd 1 else Some 0) of
      None \<Rightarrow> None | Some k \<Rightarrow> (case poll_while (\<lambda>t. t < e) rd (Suc k) of None \<Rightarrow> None | Some k \<Rightarrow> Some (Inr k)))"
    unfolding wait_millis_def Let_def pd timer_is_32 e_def using small by (simp only: if_False)
  show ?thesis
  proof (cases "s + d < 2 ^ ?w")
    case True
    then have e': "unat e = s + d" using e by simp
    then have "\<not> e < rd 0" by (simp add: word_less_nat_alt reading_start [OF T])
    with run waits_straight [OF T e' True] show ?thesis by auto
  next
    case False
    then have ge: "2 ^ ?w \<le> s + d" by simp
    then have e': "unat e = s + d - 2 ^ ?w" using e s dw(1) by (auto simp: mod_if)
    then have lt: "e < rd 0" "0 < s" using ge dw(1) by (auto simp: word_less_nat_alt reading_start [OF T])
    obtain k where k: "poll_while (\<lambda>t. t \<ge> rd 0) rd 1 = Some k" "tau k = tau 0 + (2 ^ ?w - s)" using waits_wrap [OF T lt(2)] by blast
    with run lt(1) waits_after_wrap [OF T e' ge k(2)] show ?thesis by auto
  qed
qed


text \<open>
  The search for the fixed description table: with a valid root pointer and a valid \<^verbatim>\<open>XSDT\<close> the kernel takes the
  first entry that has the signature \<^verbatim>\<open>FACP\<close> and a correct checksum, and panics when there is none; without a valid
  root pointer or \<^verbatim>\<open>XSDT\<close> it panics.
\<close>

theorem acpi_initialize_correct:
  assumes "36 \<le> dh_length mem x" "x + dh_length mem x < usize_bound" "x = xsdt_address mem r"
  shows "case acpi_initialize mem r of
      Inr f \<Rightarrow> rsdp_ok mem r \<and> table_ok mem ''XSDT'' x \<and> table_ok mem ''FACP'' f
        \<and> (\<exists>i < length (table_entries mem x). table_entries mem x ! i = f \<and> (\<forall>j<i. \<not> table_ok mem ''FACP'' (table_entries mem x ! j)))
    | Inl p \<Rightarrow> \<not> (rsdp_ok mem r \<and> table_ok mem ''XSDT'' x \<and> (\<exists>f \<in> set (table_entries mem x). table_ok mem ''FACP'' f))"
proof (cases "rsdp_ok mem r \<and> table_ok mem ''XSDT'' x")
  case True
  then have run: "acpi_initialize mem r = unwrap (find (table_ok mem ''FACP'') (table_entries mem x))"
    using initialize_find [of mem r] assms by simp
  show ?thesis
  proof (cases "find (table_ok mem ''FACP'') (table_entries mem x)")
    case None
    then have "acpi_initialize mem r = Inl UnwrapNone" using run by simp
    then show ?thesis using find_None_iff [THEN iffD1, OF None] by auto
  next
    case (Some f)
    then show ?thesis using run True find_Some_iff [THEN iffD1, OF Some] by auto
  qed
next
  case False
  then have "\<exists>p. acpi_initialize mem r = Inl p"
    using assms(3) by (auto simp: acpi_initialize_def rsdp_valid_iff dh_valid_iff Let_def)
  then show ?thesis using False by auto
qed

section \<open>A machine\<close>

definition example_rsdp :: "u8 list" where
  "example_rsdp = [82, 83, 68, 32, 80, 84, 82, 32, 223] @ replicate 6 0 @ [2, 0, 0, 0, 0, 36, 0, 0, 0, 0, 1] @ replicate 6 0 @ [219, 0, 0, 0]"

definition example_xsdt :: "u8 list" where
  "example_xsdt = [88, 83, 68, 84, 52, 0, 0, 0, 1, 131] @ replicate 27 0 @ [2] @ replicate 7 0 @ [3] @ replicate 6 0"

definition example_apic :: "u8 list" where
  "example_apic = [65, 80, 73, 67, 36, 0, 0, 0, 0, 191] @ replicate 26 0"

definition example_facp :: "u8 list" where
  "example_facp = [70, 65, 67, 80, 116, 0, 0, 0, 0, 99] @ replicate 66 0 @ [8, 6] @ replicate 35 0 @ [1, 0, 0]"

definition example_memory :: memory where
  "example_memory = place 0x10 example_rsdp (place 0x100 example_xsdt (place 0x200 example_apic (place 0x300 example_facp (\<lambda>_. 0))))"

lemma example_lengths: "length example_rsdp = 36" "length example_xsdt = 52" "length example_apic = 36" "length example_facp = 116"
  by (simp_all add: example_rsdp_def example_xsdt_def example_apic_def example_facp_def)

lemmas example_reads = example_memory_def bytes_at_place_in bytes_at_place_out example_lengths

lemma example_bytes:
  "n \<le> 36 \<Longrightarrow> bytes_at example_memory 16 n = take n example_rsdp"
  "n \<le> 52 \<Longrightarrow> bytes_at example_memory 256 n = take n example_xsdt"
  "n \<le> 36 \<Longrightarrow> bytes_at example_memory 512 n = take n example_apic"
  "n \<le> 116 \<Longrightarrow> bytes_at example_memory 768 n = take n example_facp"
  by (simp_all add: example_reads)

lemma example_xsdt_address: "xsdt_address example_memory 16 = 256"
proof -
  have "unat (word_of_nat (le_nat (take 8 (drop 24 example_rsdp))) :: u64) = 256" by code_simp
  then show ?thesis by (simp add: xsdt_address_def read_u64_def example_reads)
qed

lemma example_dh_length: "read_u32 example_memory 260 = 52" "read_u32 example_memory 516 = 36" "read_u32 example_memory 772 = 116"
proof -
  have "(word_of_nat (le_nat (take 4 (drop 4 example_xsdt))) :: u32) = 52" "(word_of_nat (le_nat (take 4 (drop 4 example_apic))) :: u32) = 36"
    "(word_of_nat (le_nat (take 4 (drop 4 example_facp))) :: u32) = 116" by code_simp+
  then show "read_u32 example_memory 260 = 52" "read_u32 example_memory 516 = 36" "read_u32 example_memory 772 = 116"
    by (simp_all add: read_u32_def example_reads)
qed

lemma example_entries: "table_entries example_memory 256 = [512, 768]"
proof -
  have "unat (word_of_nat (le_nat (take 8 (drop 36 example_xsdt))) :: u64) = 512" "unat (word_of_nat (le_nat (take 8 (drop 44 example_xsdt))) :: u64) = 768"
    by code_simp+
  moreover have "[0..<(dh_length example_memory 256 - 36) div 8] = [0, 1]" by (simp add: dh_length_def example_dh_length upt_rec)
  ultimately show ?thesis unfolding table_entries_def by (simp add: read_u64_def example_reads)
qed

lemma example_tables:
  "rsdp_ok example_memory 16" "table_ok example_memory ''XSDT'' 256" "\<not> table_ok example_memory ''FACP'' 512" "table_ok example_memory ''FACP'' 768"
proof -
  have "take 8 example_rsdp = ascii_bytes ''RSD PTR ''" "sum_list (take 20 example_rsdp) = 0" "sum_list (take 36 example_rsdp) = 0" "example_rsdp ! 15 = 2"
    by code_simp+
  then show "rsdp_ok example_memory 16" by (simp add: rsdp_ok_def example_bytes) (simp add: example_memory_def place_def example_lengths)
  have "take 4 example_xsdt = ascii_bytes ''XSDT''" "sum_list (take 52 example_xsdt) = 0" by code_simp+
  then show "table_ok example_memory ''XSDT'' 256" by (simp add: table_ok_def example_bytes example_dh_length)
  have "take 4 example_apic \<noteq> ascii_bytes ''FACP''" by code_simp
  then show "\<not> table_ok example_memory ''FACP'' 512" by (simp add: table_ok_def example_bytes)
  have "take 4 example_facp = ascii_bytes ''FACP''" "sum_list (take 116 example_facp) = 0" by code_simp+
  then show "table_ok example_memory ''FACP'' 768" by (simp add: table_ok_def example_bytes example_dh_length)
qed

theorem acpi_initialize_correct_witness: "acpi_initialize example_memory 16 = Inr 768"
proof -
  have len: "36 \<le> dh_length example_memory 256" "256 + dh_length example_memory 256 < usize_bound"
    by (simp_all add: dh_length_def example_dh_length usize_bound_def)
  note c = acpi_initialize_correct [OF len example_xsdt_address [symmetric], unfolded example_entries]
  show ?thesis
  proof (cases "acpi_initialize example_memory 16")
    case (Inl p)
    then show ?thesis using c example_tables by simp
  next
    case (Inr f)
    then have "\<exists>i < length [512, 768 :: nat]. [512, 768] ! i = f" "table_ok example_memory ''FACP'' f" using c by auto
    then have "f = 512 \<or> f = 768" by (auto simp: less_Suc_eq)
    then show ?thesis using Inr \<open>table_ok example_memory ''FACP'' f\<close> example_tables(3) by auto
  qed
qed

text \<open>A timer that is read once per tick and starts shortly before its 24 bits wrap around.\<close>

definition example_rd :: "nat \<Rightarrow> u32" where
  "example_rd k = of_nat ((16777210 + k) mod 2 ^ 24)"


end
