(* ===== verification/Memory_Map.thy ===== *)
theory Memory_Map
  imports Prelude
begin

text \<open>
  The UEFI memory map as the kernel reads it (\<^verbatim>\<open>kernel/src/memory_map.rs\<close>): a buffer of descriptors
  that the boot loader passes by address, and an iterator over it. The iterator is modelled as the
  \<^verbatim>\<open>next\<close> method on the position \<open>seek\<close>, and the list of the entries as the loop that calls it until
  it returns \<^verbatim>\<open>None\<close>.
\<close>

section \<open>Descriptors\<close>

datatype memory_type =
    EfiReservedMemoryType
  | EfiLoaderCode
  | EfiLoaderData
  | EfiBootServicesCode
  | EfiBootServicesData
  | EfiRuntimeServicesCode
  | EfiRuntimeServicesData
  | EfiConventionalMemory
  | EfiUnusableMemory
  | EfiACPIReclaimMemory
  | EfiACPIMemoryNVS
  | EfiMemoryMappedIO
  | EfiMemoryMappedIOPortSpace
  | EfiPalCode
  | EfiPersistentMemory
  | EfiMaxMemoryType

text \<open>The discriminants of the \<^verbatim>\<open>repr(u32)\<close> enumeration, in order.\<close>

definition memory_types :: "memory_type list" where
  "memory_types = [EfiReservedMemoryType, EfiLoaderCode, EfiLoaderData, EfiBootServicesCode,
     EfiBootServicesData, EfiRuntimeServicesCode, EfiRuntimeServicesData, EfiConventionalMemory,
     EfiUnusableMemory, EfiACPIReclaimMemory, EfiACPIMemoryNVS, EfiMemoryMappedIO,
     EfiMemoryMappedIOPortSpace, EfiPalCode, EfiPersistentMemory, EfiMaxMemoryType]"

fun memory_type_to_str :: "memory_type \<Rightarrow> string" where
  "memory_type_to_str EfiReservedMemoryType = ''EfiReservedMemoryType''"
| "memory_type_to_str EfiLoaderCode = ''EfiLoaderCode''"
| "memory_type_to_str EfiLoaderData = ''EfiLoaderData''"
| "memory_type_to_str EfiBootServicesCode = ''EfiBootServicesCode''"
| "memory_type_to_str EfiBootServicesData = ''EfiBootServicesData''"
| "memory_type_to_str EfiRuntimeServicesCode = ''EfiRuntimeServicesCode''"
| "memory_type_to_str EfiRuntimeServicesData = ''EfiRuntimeServicesData''"
| "memory_type_to_str EfiConventionalMemory = ''EfiConventionalMemory''"
| "memory_type_to_str EfiUnusableMemory = ''EfiUnusableMemory''"
| "memory_type_to_str EfiACPIReclaimMemory = ''EfiACPIReclaimMemory''"
| "memory_type_to_str EfiACPIMemoryNVS = ''EfiACPIMemoryNVS''"
| "memory_type_to_str EfiMemoryMappedIO = ''EfiMemoryMappedIO''"
| "memory_type_to_str EfiMemoryMappedIOPortSpace = ''EfiMemoryMappedIOPortSpace''"
| "memory_type_to_str EfiPalCode = ''EfiPalCode''"
| "memory_type_to_str EfiPersistentMemory = ''EfiPersistentMemory''"
| "memory_type_to_str EfiMaxMemoryType = ''EfiMaxMemoryType''"

record memory_descriptor =
  md_type :: memory_type
  md_physical_start :: u64
  md_virtual_start :: u64
  md_num_pages :: u64
  md_attribute :: u64

definition is_available :: "memory_descriptor \<Rightarrow> bool" where
  "is_available d \<longleftrightarrow> md_type d = EfiBootServicesCode \<or> md_type d = EfiBootServicesData
     \<or> md_type d = EfiConventionalMemory"

section \<open>The map and its iterator\<close>

record memory_map =
  mm_buffer :: addr
  mm_len :: nat
  mm_map_key :: u64
  mm_descriptor_size :: nat

record memory_map_raw =
  raw_buffer :: addr
  raw_map_size :: u64
  raw_map_key :: u64
  raw_descriptor_size :: u64

definition memory_map_of_raw :: "memory_map_raw \<Rightarrow> memory_map" where
  "memory_map_of_raw r = \<lparr>mm_buffer = raw_buffer r, mm_len = unat (raw_map_size r),
     mm_map_key = raw_map_key r, mm_descriptor_size = unat (raw_descriptor_size r)\<rparr>"

text \<open>
  The \<^verbatim>\<open>transmute\<close> of a buffer position to \<^verbatim>\<open>&MemoryDescriptor\<close> reads the \<^verbatim>\<open>repr(C)\<close> layout: the type
  at offset 0, the four 64-bit fields from offset 8. A number that is no discriminant makes the
  reference undefined behaviour.
\<close>

definition descriptor_at :: "memory \<Rightarrow> addr \<Rightarrow> memory_descriptor res" where
  "descriptor_at mem a =
     (let t = unat (read_u32 mem a) in
      if t < length memory_types then
        Inr \<lparr>md_type = memory_types ! t, md_physical_start = read_u64 mem (a + 8),
             md_virtual_start = read_u64 mem (a + 16), md_num_pages = read_u64 mem (a + 24),
             md_attribute = read_u64 mem (a + 32)\<rparr>
      else Inl UndefinedBehaviour)"

definition mm_next :: "memory \<Rightarrow> memory_map \<Rightarrow> nat \<Rightarrow> (memory_descriptor option \<times> nat) res" where
  "mm_next mem mm seek =
     rbind (usize_add seek (mm_descriptor_size mm)) (\<lambda>end.
       if end > mm_len mm then Inr (None, seek)
       else if seek \<ge> mm_len mm then Inl IndexOutOfBounds
       else rbind (descriptor_at mem (mm_buffer mm + seek)) (\<lambda>desc.
         if md_attribute desc = 0 then Inr (None, seek)
         else Inr (Some desc, end)))"

text \<open>
  \<^verbatim>\<open>for desc in map.entries()\<close>: call \<^verbatim>\<open>next\<close> until it returns \<^verbatim>\<open>None\<close>. The outer \<open>None\<close> is a loop
  that never ends, which a descriptor size of 0 would cause.
\<close>

partial_function (option) mm_collect ::
    "memory \<Rightarrow> memory_map \<Rightarrow> nat \<Rightarrow> memory_descriptor list \<Rightarrow> memory_descriptor list res option" where
  "mm_collect mem mm seek acc =
     (case mm_next mem mm seek of
        Inl p \<Rightarrow> Some (Inl p)
      | Inr (d, seek') \<Rightarrow>
         (case d of None \<Rightarrow> Some (Inr (rev acc))
          | Some desc \<Rightarrow> mm_collect mem mm seek' (desc # acc)))"

definition mm_entries :: "memory \<Rightarrow> memory_map \<Rightarrow> memory_descriptor list res option" where
  "mm_entries mem mm = mm_collect mem mm 0 []"

section \<open>What the iterator yields\<close>

text \<open>The descriptor in slot \<open>i\<close> of a well-formed map.\<close>

definition slot_desc :: "memory \<Rightarrow> memory_map \<Rightarrow> nat \<Rightarrow> memory_descriptor res" where
  "slot_desc mem mm i = descriptor_at mem (mm_buffer mm + i * mm_descriptor_size mm)"

definition mm_wf :: "memory \<Rightarrow> memory_map \<Rightarrow> bool" where
  "mm_wf mem mm \<longleftrightarrow> 0 < mm_descriptor_size mm \<and> mm_len mm + mm_descriptor_size mm < usize_bound
     \<and> (\<forall>i < mm_len mm div mm_descriptor_size mm. \<exists>d. slot_desc mem mm i = Inr d)"

text \<open>The specification: the slots that fit into the buffer, up to the first zero attribute.\<close>

definition mm_spec :: "memory \<Rightarrow> memory_map \<Rightarrow> memory_descriptor list" where
  "mm_spec mem mm = takeWhile (\<lambda>d. md_attribute d \<noteq> 0)
     (map (\<lambda>i. projr (slot_desc mem mm i)) [0..<mm_len mm div mm_descriptor_size mm])"

lemma slot_fits:
  assumes "0 < (z::nat)"
  shows "Suc i * z \<le> l \<longleftrightarrow> i < l div z"
  using less_eq_div_iff_mult_less_eq [OF assms, of "Suc i" l] by (simp add: Suc_le_eq)

lemma mm_next_in:
  assumes wf: "mm_wf mem mm" and i: "i < mm_len mm div mm_descriptor_size mm"
  shows "mm_next mem mm (i * mm_descriptor_size mm) =
    (let d = projr (slot_desc mem mm i) in
     if md_attribute d = 0 then Inr (None, i * mm_descriptor_size mm)
     else Inr (Some d, Suc i * mm_descriptor_size mm))"
proof -
  let ?z = "mm_descriptor_size mm" and ?l = "mm_len mm"
  have z: "0 < ?z" "?l + ?z < usize_bound" using wf by (auto simp: mm_wf_def)
  have e: "Suc i * ?z \<le> ?l" using i slot_fits [OF z(1), of i ?l] by simp
  have "i * ?z + ?z < usize_bound" using e z by simp
  moreover have "\<not> ?l < i * ?z + ?z" "i * ?z < ?l" using e z(1) by simp_all
  moreover from wf i obtain d where "slot_desc mem mm i = Inr d" by (auto simp: mm_wf_def)
  ultimately show ?thesis
    by (simp add: mm_next_def res_simps slot_desc_def Let_def add.commute)
qed

lemma mm_next_end:
  assumes wf: "mm_wf mem mm"
  shows "mm_next mem mm (mm_len mm div mm_descriptor_size mm * mm_descriptor_size mm) =
    Inr (None, mm_len mm div mm_descriptor_size mm * mm_descriptor_size mm)"
proof -
  let ?z = "mm_descriptor_size mm" and ?l = "mm_len mm"
  have z: "0 < ?z" "?l + ?z < usize_bound" using wf by (auto simp: mm_wf_def)
  have "?l div ?z * ?z + ?z < usize_bound"
    using div_times_less_eq_dividend [of ?l ?z] z(2) by linarith
  moreover have "\<not> Suc (?l div ?z) * ?z \<le> ?l" using slot_fits [OF z(1), of "?l div ?z" ?l] by simp
  ultimately show ?thesis by (simp add: mm_next_def res_simps add.commute)
qed

lemma mm_collect_slots:
  assumes wf: "mm_wf mem mm" and i: "i \<le> n" and n: "n = mm_len mm div mm_descriptor_size mm"
  shows "mm_collect mem mm (i * mm_descriptor_size mm) acc =
    Some (Inr (rev acc @ takeWhile (\<lambda>d. md_attribute d \<noteq> 0)
                (map (\<lambda>i. projr (slot_desc mem mm i)) [i..<n])))"
  using i
proof (induction "n - i" arbitrary: i acc)
  case 0
  then have "i = n" by simp
  then show ?case using mm_next_end [OF wf] n by (simp add: mm_collect.simps)
next
  case (Suc k)
  then have "i < n" by simp
  moreover have "mm_collect mem mm (Suc i * mm_descriptor_size mm) acc' =
    Some (Inr (rev acc' @ takeWhile (\<lambda>d. md_attribute d \<noteq> 0)
                (map (\<lambda>i. projr (slot_desc mem mm i)) [Suc i..<n])))" for acc'
    using Suc.hyps(1) [of "Suc i"] Suc.hyps(2) \<open>i < n\<close> by simp
  ultimately show ?case
    using mm_next_in [OF wf, of i] n
    by (subst mm_collect.simps) (simp add: Let_def upt_conv_Cons)
qed

lemma mm_entries_spec:
  assumes "mm_wf mem mm"
  shows "mm_entries mem mm = Some (Inr (mm_spec mem mm))"
  using mm_collect_slots [OF assms, of 0 _ "[]"] by (simp add: mm_entries_def mm_spec_def)

section \<open>Property\<close>

text \<open>
  Iterating over the firmware's memory map. The \<^verbatim>\<open>for\<close> loop over \<^verbatim>\<open>entries()\<close> of a map with a
  positive descriptor stride and valid type fields ends without a panic. It yields, in order, the
  descriptors at multiples of the stride that fit into the buffer, up to the first one whose
  attribute is zero.
\<close>

theorem memory_map_entries:
  assumes "mm_wf mem mm"
  shows "mm_entries mem mm = Some (Inr (takeWhile (\<lambda>d. md_attribute d \<noteq> 0)
     (map (\<lambda>i. projr (descriptor_at mem (mm_buffer mm + i * mm_descriptor_size mm)))
        [0..<mm_len mm div mm_descriptor_size mm])))"
  using mm_entries_spec [OF assms] by (simp add: mm_spec_def slot_desc_def)

theorem memory_map_entries_witness:
  "\<exists>d. mm_entries ((\<lambda>_. 0)(0x100 := 7, 0x118 := 5, 0x120 := 15, 0x130 := 2))
      \<lparr>mm_buffer = 0x100, mm_len = 96, mm_map_key = 1, mm_descriptor_size = 48\<rparr> = Some (Inr [d])
    \<and> md_type d = EfiConventionalMemory \<and> md_num_pages d = 5"
proof -
  let ?mem = "(\<lambda>_. 0)(0x100 := 7, 0x118 := 5, 0x120 := 15, 0x130 := 2) :: memory"
  let ?mm = "\<lparr>mm_buffer = 0x100, mm_len = 96, mm_map_key = 1, mm_descriptor_size = 48\<rparr>"
  let ?d = "\<lparr>md_type = EfiConventionalMemory, md_physical_start = 0, md_virtual_start = 0,
    md_num_pages = 5, md_attribute = 15\<rparr>"
  let ?e = "\<lparr>md_type = EfiLoaderData, md_physical_start = 0, md_virtual_start = 0,
    md_num_pages = 0, md_attribute = 0\<rparr>"
  have bytes: "[0..<4] = [0, 1, 2, 3::nat]" "[0..<8] = [0, 1, 2, 3, 4, 5, 6, 7::nat]"
    by (simp_all add: upt_rec)
  have d: "descriptor_at ?mem 256 = Inr ?d"
    by (simp add: descriptor_at_def Let_def read_u32_def read_u64_def bytes_at_def bytes
        memory_types_def)
  have e: "descriptor_at ?mem 304 = Inr ?e"
    by (simp add: descriptor_at_def Let_def read_u32_def read_u64_def bytes_at_def bytes
        memory_types_def)
  have "\<exists>x. slot_desc ?mem ?mm i = Inr x" if "i < 2" for i
  proof -
    from that have "i = 0 \<or> i = 1" by auto
    then show ?thesis using d e by (auto simp: slot_desc_def simp del: fun_upd_apply)
  qed
  then have "mm_wf ?mem ?mm" by (simp add: mm_wf_def usize_bound_def del: fun_upd_apply)
  moreover have "[0..<96 div 48] = [0, 1::nat]" by (simp add: upt_rec)
  ultimately show ?thesis
    using memory_map_entries [of ?mem ?mm] d e by (simp del: fun_upd_apply)
qed

end
