(* ===== verification/Bootloader.thy ===== *)
theory Bootloader
  imports Memory_Map Frame_Buffer
begin

text \<open>
  The boot loader, \<^verbatim>\<open>bootloader/src\<close>: it reads the kernel as an ELF file, copies its segments to their addresses and hands
  the frame buffer, the memory map and the ACPI tables of the firmware to the kernel. What the UEFI services return is
  the record \<open>firmware\<close>; the services that depend on the pages allocated so far are given them. A 64-bit field of the
  file is a natural number, since it is only added and compared, with the checked operations of the debug build.
\<close>

section \<open>ELF headers\<close>

definition file_nat :: "u8 list \<Rightarrow> nat \<Rightarrow> nat \<Rightarrow> nat" where
  "file_nat f off n = le_nat (take n (drop off f))"

record elf64_ehdr =
  e_ident :: "u8 list"
  e_type :: nat
  e_machine :: nat
  e_version :: nat
  e_entry :: nat
  e_phoff :: nat
  e_shoff :: nat
  e_flags :: nat
  e_ehsize :: nat
  e_phentsize :: nat
  e_phnum :: nat
  e_shentsize :: nat
  e_shnum :: nat
  e_shstrndx :: nat

definition EHDR_SIZE :: nat where
  "EHDR_SIZE = 64"

definition ehdr_at :: "u8 list \<Rightarrow> elf64_ehdr" where
  "ehdr_at f = \<lparr>e_ident = take 16 f, e_type = file_nat f 16 2, e_machine = file_nat f 18 2, e_version = file_nat f 20 4,
     e_entry = file_nat f 24 8, e_phoff = file_nat f 32 8, e_shoff = file_nat f 40 8, e_flags = file_nat f 48 4,
     e_ehsize = file_nat f 52 2, e_phentsize = file_nat f 54 2, e_phnum = file_nat f 56 2, e_shentsize = file_nat f 58 2,
     e_shnum = file_nat f 60 2, e_shstrndx = file_nat f 62 2\<rparr>"

datatype elf64_phdr_type = PT_NULL | PT_LOAD | PT_DYNAMIC | PT_INTERP | PT_NOTE | PT_SHLIB | PT_PHDR | PT_TLS

definition phdr_types :: "elf64_phdr_type list" where
  "phdr_types = [PT_NULL, PT_LOAD, PT_DYNAMIC, PT_INTERP, PT_NOTE, PT_SHLIB, PT_PHDR, PT_TLS]"

text \<open>
  The type is declared with \<^verbatim>\<open>repr(u16)\<close>, so only two of the four bytes of the field are read, and \<open>None\<close> is a value
  that is none of the declared ones.
\<close>

record elf64_phdr =
  p_type :: "elf64_phdr_type option"
  p_flags :: nat
  p_offset :: nat
  p_vaddr :: nat
  p_paddr :: nat
  p_filesz :: nat
  p_memsz :: nat
  p_align :: nat

definition PHDR_SIZE :: nat where
  "PHDR_SIZE = 56"

definition phdr_at :: "u8 list \<Rightarrow> nat \<Rightarrow> elf64_phdr" where
  "phdr_at f a = \<lparr>p_type = (let t = file_nat f a 2 in if t < length phdr_types then Some (phdr_types ! t) else None),
     p_flags = file_nat f (a + 4) 4, p_offset = file_nat f (a + 8) 8, p_vaddr = file_nat f (a + 16) 8, p_paddr = file_nat f (a + 24) 8,
     p_filesz = file_nat f (a + 32) 8, p_memsz = file_nat f (a + 40) 8, p_align = file_nat f (a + 48) 8\<rparr>"

definition inmem_range :: "elf64_phdr \<Rightarrow> (nat \<times> nat) res" where
  "inmem_range h = rbind (usize_add (p_vaddr h) (p_memsz h)) (\<lambda>e. Inr (p_vaddr h, e))"

definition infile_range :: "elf64_phdr \<Rightarrow> (nat \<times> nat) res" where
  "infile_range h = rbind (usize_add (p_offset h) (p_filesz h)) (\<lambda>e. Inr (p_offset h, e))"

record elf_file =
  elf_header :: elf64_ehdr
  prog_headers :: "elf64_phdr list"

text \<open>
  The headers are read through pointers into the buffer, which lies at \<open>base\<close>: outside the buffer, or at an address
  that is not a multiple of eight, this is undefined.
\<close>

definition from_buffer :: "addr \<Rightarrow> u8 list \<Rightarrow> elf_file res" where
  "from_buffer base buffer =
     (if length buffer < EHDR_SIZE \<or> base mod 8 \<noteq> 0 then Inl UndefinedBehaviour
      else let h = ehdr_at buffer in
        if e_phoff h + e_phnum h * PHDR_SIZE > length buffer \<or> (base + e_phoff h) mod 8 \<noteq> 0 then Inl UndefinedBehaviour
        else Inr \<lparr>elf_header = h, prog_headers = map (\<lambda>i. phdr_at buffer (e_phoff h + i * PHDR_SIZE)) [0..<e_phnum h]\<rparr>)"

text \<open>The filter of both loops; comparing a type that is none of the declared values is undefined.\<close>

definition is_load :: "elf64_phdr \<Rightarrow> bool res" where
  "is_load h = (case p_type h of None \<Rightarrow> Inl UndefinedBehaviour | Some t \<Rightarrow> Inr (t = PT_LOAD))"

definition range_step :: "elf64_phdr \<Rightarrow> nat \<times> nat \<Rightarrow> (nat \<times> nat) res" where
  "range_step h = (\<lambda>(first, last).
     rbind (is_load h) (\<lambda>l.
     if l then rbind (inmem_range h) (\<lambda>(lo, hi). Inr (min first lo, max last hi)) else Inr (first, last)))"

definition calc_load_address_range :: "elf_file \<Rightarrow> (nat \<times> nat) res" where
  "calc_load_address_range elf = foldM range_step (prog_headers elf) (2 ^ 64 - 1, 0)"

section \<open>Loading the kernel\<close>

definition copy_slice_pad :: "u8 list \<Rightarrow> u8 list \<Rightarrow> u8 list res" where
  "copy_slice_pad to from =
     rbind (rassert (length to \<ge> length from)) (\<lambda>_. Inr (from @ replicate (length to - length from) 0))"

definition slice_range :: "u8 list \<Rightarrow> nat \<Rightarrow> nat \<Rightarrow> u8 list res" where
  "slice_range xs a b = (if a \<le> b \<and> b \<le> length xs then Inr (take (b - a) (drop a xs)) else Inl IndexOutOfBounds)"

definition load_segment :: "u8 list \<Rightarrow> elf64_phdr \<Rightarrow> memory \<Rightarrow> memory res" where
  "load_segment kernel_file h mem =
     rbind (is_load h) (\<lambda>l.
     if l then
       rbind (inmem_range h) (\<lambda>(lo, _).
       if lo = 0 \<or> p_memsz h \<ge> 2 ^ 63 then Inl UndefinedBehaviour
       else rbind (infile_range h) (\<lambda>(a, b).
         rbind (slice_range kernel_file a b) (\<lambda>file.
         rbind (copy_slice_pad (bytes_at mem lo (p_memsz h)) file) (\<lambda>bytes.
         Inr (place lo bytes mem)))))
     else Inr mem)"

text \<open>The result: the entry point, the memory, and the address and number of the pages allocated.\<close>

definition load_kernel :: "(addr \<Rightarrow> nat \<Rightarrow> bool) \<Rightarrow> addr \<Rightarrow> u8 list option \<Rightarrow> memory \<Rightarrow> (addr \<times> memory \<times> addr \<times> nat) res" where
  "load_kernel allocate_pages base file mem =
     rbind (unwrap file) (\<lambda>kernel_file.
     rbind (from_buffer base kernel_file) (\<lambda>elf.
     rbind (calc_load_address_range elf) (\<lambda>(first, last).
     rbind (usize_sub last first) (\<lambda>n.
     rbind (usize_add n 0xfff) (\<lambda>m.
     let pages = m div 0x1000 in
     if \<not> allocate_pages first pages then Inl UnwrapNone
     else rbind (foldM (load_segment kernel_file) (prog_headers elf) mem) (\<lambda>mem.
       Inr (e_entry (elf_header elf), mem, first, pages)))))))"

section \<open>The memory map and the frame buffer\<close>

definition MEMMAP_BUF :: nat where
  "MEMMAP_BUF = 4096 * 4"

text \<open>
  \<open>sizes\<close>: the size of the map and of an entry that the firmware announces; \<open>memmap\<close>: the key and the bytes that it
  then writes to the buffer at \<open>buf\<close>, which is zero before.
\<close>

definition get_memory_map :: "nat \<times> nat \<Rightarrow> (u64 \<times> u8 list) option \<Rightarrow> addr \<Rightarrow> memory \<Rightarrow> (memory_map_raw \<times> memory) res" where
  "get_memory_map sizes memmap buf mem =
     (let (map_size, entry_size) = sizes; zeros = replicate MEMMAP_BUF 0 in
      rbind (rassert (map_size \<le> MEMMAP_BUF)) (\<lambda>_.
      rbind (unwrap memmap) (\<lambda>(key, bytes).
      Inr (\<lparr>raw_buffer = buf, raw_map_size = of_nat map_size, raw_map_key = key, raw_descriptor_size = of_nat entry_size\<rparr>,
           place buf bytes (place buf zeros mem)))))"

datatype gop_pixel_format = Gop_Rgb | Gop_Bgr | Gop_Bitmask | Gop_BltOnly

record gop =
  gop_frame_buffer :: "u8 list"
  gop_resolution :: "nat \<times> nat"
  gop_stride :: nat
  gop_pixel_format :: gop_pixel_format

definition u32_of :: "nat \<Rightarrow> nat" where
  "u32_of n = n mod 2 ^ 32"

text \<open>\<open>None\<close>: the firmware has no graphics output.\<close>

definition construct_frame_buffer :: "gop option \<Rightarrow> frame_buffer_raw option res" where
  "construct_frame_buffer g = (case g of
     None \<Rightarrow> Inr None
   | Some g \<Rightarrow>
       rbind (case gop_pixel_format g of
           Gop_Rgb \<Rightarrow> Inr PixelRGBResv8BitPerColor
         | Gop_Bgr \<Rightarrow> Inr PixelBGRResv8BitPerColor
         | _ \<Rightarrow> Inl ExplicitPanic) (\<lambda>format.
       Inr (Some \<lparr>fbr_buf = gop_frame_buffer g, fbr_pixels_per_scanline = u32_of (gop_stride g),
         fbr_horizontal_resolution = u32_of (fst (gop_resolution g)), fbr_vertical_resolution = u32_of (snd (gop_resolution g)),
         fbr_pixel_format = format\<rparr>)))"

section \<open>The entry point\<close>

record firmware =
  fw_kernel_file :: "u8 list option"
  fw_file_base :: addr
  fw_allocate_pages :: "addr \<Rightarrow> nat \<Rightarrow> bool"
  fw_config_table :: "(nat \<times> addr) list"
  fw_gop :: "gop option"
  fw_map_sizes :: "addr \<times> nat \<Rightarrow> nat \<times> nat"
  fw_map :: "addr \<times> nat \<Rightarrow> (u64 \<times> u8 list) option"
  fw_map_buf :: addr

text \<open>A table of the firmware is known by the number of its identifier.\<close>

definition find_acpi_table :: "nat \<Rightarrow> (nat \<times> addr) list \<Rightarrow> addr res" where
  "find_acpi_table acpi2_guid tables = rbind (unwrap (find (\<lambda>t. fst t = acpi2_guid) tables)) (\<lambda>t. Inr (snd t))"

record handover =
  ho_entry :: addr
  ho_frame_buffer :: frame_buffer_raw
  ho_memory_map :: memory_map_raw
  ho_rsdp :: addr

definition boot_main :: "nat \<Rightarrow> firmware \<Rightarrow> memory \<Rightarrow> (handover \<times> memory) res" where
  "boot_main acpi2_guid fw mem =
     rbind (load_kernel (fw_allocate_pages fw) (fw_file_base fw) (fw_kernel_file fw) mem) (\<lambda>(entry_point, mem, pages).
     rbind (find_acpi_table acpi2_guid (fw_config_table fw)) (\<lambda>acpi.
     rbind (construct_frame_buffer (fw_gop fw)) (\<lambda>config.
     rbind (unwrap config) (\<lambda>frame_buffer_config.
     rbind (get_memory_map (fw_map_sizes fw pages) (fw_map fw pages) (fw_map_buf fw) mem) (\<lambda>(memmap, mem).
     Inr (\<lparr>ho_entry = entry_point, ho_frame_buffer = frame_buffer_config, ho_memory_map = memmap, ho_rsdp = acpi\<rparr>, mem))))))"

section \<open>Segments\<close>

text \<open>The program headers that are loaded, and what the ELF format says about them.\<close>

definition loads :: "elf64_phdr list \<Rightarrow> elf64_phdr list" where
  "loads hs = filter (\<lambda>h. p_type h = Some PT_LOAD) hs"

definition known_types :: "elf64_phdr list \<Rightarrow> bool" where
  "known_types hs \<longleftrightarrow> (\<forall>h \<in> set hs. p_type h \<noteq> None)"

definition segment :: "elf64_phdr \<Rightarrow> nat set" where
  "segment h = {p_vaddr h ..< p_vaddr h + p_memsz h}"

definition segment_bytes :: "u8 list \<Rightarrow> elf64_phdr \<Rightarrow> u8 list" where
  "segment_bytes f h = take (p_filesz h) (drop (p_offset h) f) @ replicate (p_memsz h - p_filesz h) 0"

text \<open>What a segment must satisfy to be loaded without a panic from a file of \<open>n\<close> bytes.\<close>

definition fits_memory :: "elf64_phdr \<Rightarrow> bool" where
  "fits_memory h \<longleftrightarrow> p_vaddr h + p_memsz h < usize_bound"

definition segment_ok :: "nat \<Rightarrow> elf64_phdr \<Rightarrow> bool" where
  "segment_ok n h \<longleftrightarrow> fits_memory h \<and> 0 < p_vaddr h \<and> p_memsz h < 2 ^ 63 \<and> p_offset h + p_filesz h < usize_bound
     \<and> p_offset h + p_filesz h \<le> n \<and> p_filesz h \<le> p_memsz h"

lemma is_load_cases:
  "is_load h = (if p_type h = None then Inl UndefinedBehaviour else Inr (p_type h = Some PT_LOAD))"
  by (auto simp: is_load_def split: option.splits)

lemma load_segment_eq:
  "load_segment f h mem = Inr mem' \<longleftrightarrow> p_type h \<noteq> None \<and>
     (if p_type h = Some PT_LOAD then segment_ok (length f) h \<and> mem' = place (p_vaddr h) (segment_bytes f h) mem else mem' = mem)"
  by (auto simp: load_segment_def is_load_cases inmem_range_def infile_range_def slice_range_def copy_slice_pad_def
      segment_ok_def fits_memory_def segment_bytes_def)

lemma length_segment_bytes: "segment_ok (length f) h \<Longrightarrow> length (segment_bytes f h) = p_memsz h"
  by (auto simp: segment_ok_def segment_bytes_def min_def)

lemma place_segment_out: "segment_ok (length f) h \<Longrightarrow> x \<notin> segment h \<Longrightarrow> place (p_vaddr h) (segment_bytes f h) mem x = mem x"
  by (auto simp: place_def length_segment_bytes segment_def)

text \<open>The loop returns exactly when every segment can be loaded.\<close>

lemma load_loop_returns:
  "(\<exists>mem'. foldM (load_segment f) hs mem = Inr mem') \<longleftrightarrow> known_types hs \<and> (\<forall>h \<in> set (loads hs). segment_ok (length f) h)"
  by (induction hs arbitrary: mem) (auto simp: load_segment_eq loads_def known_types_def)

lemma load_loop_outside:
  assumes "foldM (load_segment f) hs mem = Inr mem'" "\<forall>h \<in> set (loads hs). x \<notin> segment h"
  shows "mem' x = mem x"
  using assms
  by (induction hs arbitrary: mem) (auto simp: load_segment_eq loads_def place_segment_out split: if_splits)

lemma load_loop_segments:
  assumes "foldM (load_segment f) hs mem = Inr mem'" "sorted_wrt (\<lambda>g h. segment g \<inter> segment h = {}) (loads hs)" "h \<in> set (loads hs)"
  shows "bytes_at mem' (p_vaddr h) (p_memsz h) = segment_bytes f h"
  using assms
proof (induction hs arbitrary: mem)
  case Nil
  then show ?case by (simp add: loads_def)
next
  case (Cons g hs)
  obtain mem1 where m: "load_segment f g mem = Inr mem1" "foldM (load_segment f) hs mem1 = Inr mem'" using Cons.prems(1) by auto
  show ?case
  proof (cases "h \<in> set (loads hs)")
    case True
    then show ?thesis using Cons.IH [OF m(2)] Cons.prems(2) by (auto simp: loads_def split: if_splits)
  next
    case False
    then have h: "h = g" "p_type h = Some PT_LOAD" using Cons.prems(3) by (auto simp: loads_def split: if_splits)
    have ok: "segment_ok (length f) h" "mem1 = place (p_vaddr h) (segment_bytes f h) mem" using m(1) h by (auto simp: load_segment_eq)
    have "mem' x = mem1 x" if "x \<in> segment h" for x
      using load_loop_outside [OF m(2), of x] Cons.prems(2) that h by (auto simp: loads_def)
    then have "bytes_at mem' (p_vaddr h) (p_memsz h) = bytes_at mem1 (p_vaddr h) (p_memsz h)"
      by (intro bytes_at_eq) (simp add: segment_def)
    then show ?thesis using ok length_segment_bytes [OF ok(1)] by (simp add: bytes_at_place_in)
  qed
qed

section \<open>The range of the kernel\<close>

lemma range_step_eq:
  "range_step h (a, b) = Inr r \<longleftrightarrow> p_type h \<noteq> None \<and>
     (if p_type h = Some PT_LOAD then fits_memory h \<and> r = (min a (p_vaddr h), max b (p_vaddr h + p_memsz h)) else r = (a, b))"
  by (auto simp: range_step_def is_load_cases inmem_range_def fits_memory_def)

lemma range_loop_eq:
  "foldM range_step hs (a, b) = Inr (x, y) \<longleftrightarrow> known_types hs \<and> (\<forall>h \<in> set (loads hs). fits_memory h)
     \<and> x = Min (insert a (p_vaddr ` set (loads hs))) \<and> y = Max (insert b ((\<lambda>h. p_vaddr h + p_memsz h) ` set (loads hs)))"
proof (induction hs arbitrary: a b)
  case Nil
  then show ?case by (auto simp: known_types_def loads_def)
next
  case (Cons h hs)
  have fin: "finite (p_vaddr ` set (loads hs))" "finite ((\<lambda>h. p_vaddr h + p_memsz h) ` set (loads hs))" by simp_all
  have ins: "Min (insert (min a c) A) = Min (insert a (insert c A))" "Max (insert (max b c) A) = Max (insert b (insert c A))"
    if "finite A" for c and A :: "nat set"
  proof -
    show "Min (insert (min a c) A) = Min (insert a (insert c A))"
      using that by (cases "A = {}") (simp_all add: min.assoc)
    show "Max (insert (max b c) A) = Max (insert b (insert c A))"
      using that by (cases "A = {}") (simp_all add: max.assoc)
  qed
  show ?case
  proof (cases "p_type h = Some PT_LOAD")
    case True
    then have l: "loads (h # hs) = h # loads hs" "known_types (h # hs) = known_types hs" by (auto simp: loads_def known_types_def)
    show ?thesis using True by (auto simp: Cons.IH range_step_eq l ins fin)
  next
    case False
    then show ?thesis by (auto simp: range_step_eq Cons.IH known_types_def loads_def)
  qed
qed

definition kernel_first :: "elf64_phdr list \<Rightarrow> nat" where
  "kernel_first hs = Min (p_vaddr ` set (loads hs))"

definition kernel_last :: "elf64_phdr list \<Rightarrow> nat" where
  "kernel_last hs = Max ((\<lambda>h. p_vaddr h + p_memsz h) ` set (loads hs))"

definition kernel_pages :: "elf64_phdr list \<Rightarrow> nat" where
  "kernel_pages hs = (kernel_last hs - kernel_first hs + 0xfff) div 0x1000"

lemma segment_in_range:
  assumes "h \<in> set (loads hs)"
  shows "kernel_first hs \<le> p_vaddr h" "p_vaddr h + p_memsz h \<le> kernel_last hs"
  using assms by (auto simp: kernel_first_def kernel_last_def intro: Min_le Max_ge)

lemma segment_in_pages:
  assumes "h \<in> set (loads hs)"
  shows "segment h \<subseteq> {kernel_first hs ..< kernel_first hs + kernel_pages hs * 0x1000}"
proof -
  let ?n = "kernel_last hs - kernel_first hs"
  have "?n + 0xfff = kernel_pages hs * 0x1000 + (?n + 0xfff) mod 0x1000" unfolding kernel_pages_def by (rule div_mult_mod_eq [symmetric])
  moreover have "(?n + 0xfff) mod 0x1000 < 0x1000" by (rule mod_less_divisor) simp
  ultimately have "?n \<le> kernel_pages hs * 0x1000" by linarith
  then show ?thesis using segment_in_range [OF assms] by (auto simp: segment_def)
qed

lemma calc_range_eq:
  assumes "elf = \<lparr>elf_header = e, prog_headers = hs\<rparr>"
  shows "calc_load_address_range elf = Inr (x, y) \<longleftrightarrow> known_types hs \<and> (\<forall>h \<in> set (loads hs). fits_memory h)
    \<and> (if loads hs = [] then (x, y) = (2 ^ 64 - 1, 0) else (x, y) = (kernel_first hs, kernel_last hs))"
proof -
  let ?A = "p_vaddr ` set (loads hs)" and ?B = "(\<lambda>h. p_vaddr h + p_memsz h) ` set (loads hs)"
  have "Min (insert (2 ^ 64 - 1) ?A) = Min ?A" if fits: "\<forall>h \<in> set (loads hs). fits_memory h" and ne: "loads hs \<noteq> []"
  proof -
    obtain h where h: "h \<in> set (loads hs)" using ne by (cases "loads hs") auto
    then have "Min ?A \<le> p_vaddr h" by (intro Min_le) auto
    moreover have "p_vaddr h \<le> 2 ^ 64 - 1" using fits h by (fastforce simp: fits_memory_def usize_bound_def)
    ultimately have "Min ?A \<le> 2 ^ 64 - 1" by linarith
    then show ?thesis using ne by (subst Min_insert) (simp_all add: min_absorb2)
  qed
  moreover have "Max (insert 0 ?B) = Max ?B" if "loads hs \<noteq> []" using that by (subst Max_insert) auto
  ultimately show ?thesis using assms
    by (auto simp: calc_load_address_range_def range_loop_eq kernel_first_def kernel_last_def)
qed

section \<open>Properties of the loader\<close>

definition loadable :: "(addr \<Rightarrow> nat \<Rightarrow> bool) \<Rightarrow> addr \<Rightarrow> u8 list \<Rightarrow> bool" where
  "loadable allocate_pages base f \<longleftrightarrow> (\<exists>elf. from_buffer base f = Inr elf \<and> (let hs = prog_headers elf in
     known_types hs \<and> loads hs \<noteq> [] \<and> (\<forall>h \<in> set (loads hs). segment_ok (length f) h)
     \<and> kernel_last hs - kernel_first hs + 0xfff < usize_bound \<and> allocate_pages (kernel_first hs) (kernel_pages hs)))"

lemma load_kernel_eq:
  assumes elf: "from_buffer base f = Inr elf" and hs: "hs = prog_headers elf"
  shows "load_kernel alloc base (Some f) mem = Inr (entry, mem', pages) \<longleftrightarrow>
    known_types hs \<and> loads hs \<noteq> [] \<and> (\<forall>h \<in> set (loads hs). fits_memory h)
    \<and> kernel_last hs - kernel_first hs + 0xfff < usize_bound \<and> alloc (kernel_first hs) (kernel_pages hs)
    \<and> foldM (load_segment f) hs mem = Inr mem' \<and> entry = e_entry (elf_header elf) \<and> pages = (kernel_first hs, kernel_pages hs)"
proof -
  obtain e where e: "elf = \<lparr>elf_header = e, prog_headers = hs\<rparr>" using hs by (cases elf) auto
  have le: "kernel_first hs \<le> kernel_last hs" if ne: "loads hs \<noteq> []"
  proof -
    obtain h where "h \<in> set (loads hs)" using ne by (cases "loads hs") auto
    then show ?thesis using segment_in_range by fastforce
  qed
  have "load_kernel alloc base (Some f) mem = Inr (entry, mem', pages) \<longleftrightarrow>
    (\<exists>x y. calc_load_address_range elf = Inr (x, y) \<and> x \<le> y \<and> y - x + 0xfff < usize_bound \<and> alloc x ((y - x + 0xfff) div 0x1000)
      \<and> foldM (load_segment f) hs mem = Inr mem' \<and> entry = e_entry (elf_header elf) \<and> pages = (x, (y - x + 0xfff) div 0x1000))"
    using elf e by (auto simp: load_kernel_def Let_def)
  then show ?thesis using le by (auto simp: calc_range_eq [OF e] kernel_pages_def)
qed

lemma load_kernel_returns: "(\<exists>r. load_kernel alloc base (Some f) mem = Inr r) \<longleftrightarrow> loadable alloc base f"
proof (cases "from_buffer base f")
  case (Inl p)
  then show ?thesis by (simp add: load_kernel_def loadable_def)
next
  case (Inr elf)
  let ?hs = "prog_headers elf"
  have "(\<exists>r. load_kernel alloc base (Some f) mem = Inr r) \<longleftrightarrow>
    loads ?hs \<noteq> [] \<and> (\<forall>h \<in> set (loads ?hs). fits_memory h) \<and> kernel_last ?hs - kernel_first ?hs + 0xfff < usize_bound
    \<and> alloc (kernel_first ?hs) (kernel_pages ?hs) \<and> known_types ?hs \<and> (\<exists>mem'. foldM (load_segment f) ?hs mem = Inr mem')"
    using load_kernel_eq [OF Inr refl, of alloc mem] by auto
  then show ?thesis unfolding load_loop_returns using Inr by (auto simp: loadable_def Let_def segment_ok_def)
qed

lemma load_kernel_spec:
  assumes r: "load_kernel alloc base (Some f) mem = Inr (entry, mem', first, pages)" and elf: "from_buffer base f = Inr elf"
    and dis: "sorted_wrt (\<lambda>g h. segment g \<inter> segment h = {}) (loads (prog_headers elf))"
  shows "first = kernel_first (prog_headers elf)" "pages = kernel_pages (prog_headers elf)" "entry = e_entry (elf_header elf)" "alloc first pages"
    "\<forall>h \<in> set (loads (prog_headers elf)). bytes_at mem' (p_vaddr h) (p_memsz h) = segment_bytes f h
      \<and> segment h \<subseteq> {first ..< first + pages * 0x1000}"
    "\<forall>x. (\<forall>h \<in> set (loads (prog_headers elf)). x \<notin> segment h) \<longrightarrow> mem' x = mem x"
proof -
  note k = load_kernel_eq [OF elf refl, of alloc mem entry mem' "(first, pages)"]
  have loop: "foldM (load_segment f) (prog_headers elf) mem = Inr mem'" using r k by blast
  show pages: "first = kernel_first (prog_headers elf)" "pages = kernel_pages (prog_headers elf)" "entry = e_entry (elf_header elf)" "alloc first pages"
    using r k by auto
  show "\<forall>h \<in> set (loads (prog_headers elf)). bytes_at mem' (p_vaddr h) (p_memsz h) = segment_bytes f h
      \<and> segment h \<subseteq> {first ..< first + pages * 0x1000}"
    using load_loop_segments [OF loop dis] segment_in_pages pages(1,2) by blast
  show "\<forall>x. (\<forall>h \<in> set (loads (prog_headers elf)). x \<notin> segment h) \<longrightarrow> mem' x = mem x" using load_loop_outside [OF loop] by blast
qed

text \<open>
  (C14) Loading the kernel. The loader returns exactly when the file is loadable: its headers lie in the file and have
  known types, there is a segment to load, every such segment lies inside the file, inside the address space and is
  not longer in the file than in memory, and the firmware grants the pages. Then, if the segments do not overlap, each
  of them holds its bytes of the file followed by zeros, every other byte of memory is as before, and all that was
  written lies inside the pages granted.
\<close>

theorem load_kernel_correct:
  "((\<exists>r. load_kernel alloc base (Some f) mem = Inr r) \<longleftrightarrow> loadable alloc base f)
   \<and> (load_kernel alloc base (Some f) mem = Inr (entry, mem', first, pages) \<and> from_buffer base f = Inr elf
        \<and> sorted_wrt (\<lambda>g h. segment g \<inter> segment h = {}) (loads (prog_headers elf)) \<longrightarrow>
      entry = e_entry (elf_header elf) \<and> alloc first pages
      \<and> (\<forall>h \<in> set (loads (prog_headers elf)). bytes_at mem' (p_vaddr h) (p_memsz h) = segment_bytes f h
           \<and> segment h \<subseteq> {first ..< first + pages * 0x1000})
      \<and> (\<forall>x. (\<forall>h \<in> set (loads (prog_headers elf)). x \<notin> segment h) \<longrightarrow> mem' x = mem x))"
proof (rule conjI [OF load_kernel_returns], rule impI, elim conjE)
  assume a: "load_kernel alloc base (Some f) mem = Inr (entry, mem', first, pages)" "from_buffer base f = Inr elf"
    "sorted_wrt (\<lambda>g h. segment g \<inter> segment h = {}) (loads (prog_headers elf))"
  show "entry = e_entry (elf_header elf) \<and> alloc first pages
      \<and> (\<forall>h \<in> set (loads (prog_headers elf)). bytes_at mem' (p_vaddr h) (p_memsz h) = segment_bytes f h
           \<and> segment h \<subseteq> {first ..< first + pages * 0x1000})
      \<and> (\<forall>x. (\<forall>h \<in> set (loads (prog_headers elf)). x \<notin> segment h) \<longrightarrow> mem' x = mem x)"
    by (intro conjI load_kernel_spec(3-6) [OF a])
qed

text \<open>
  A file with a segment type outside the declared ones, such as the marker of the GNU linker for the stack, makes the
  loader compare a value that its enumeration does not have.
\<close>

theorem gnu_stack_undefined:
  assumes "from_buffer base f = Inr elf" "prog_headers elf = pre @ h # post" "known_types pre" "\<forall>h \<in> set (loads pre). fits_memory h"
    and "h = phdr_at f a" "take 4 (drop a f) = [0x51, 0xe5, 0x74, 0x64]"
  shows "load_kernel alloc base (Some f) mem = Inl UndefinedBehaviour"
proof -
  have "take 2 (drop a f) = take 2 (take 4 (drop a f))" by (simp only: take_take) simp
  also have "\<dots> = [0x51, 0xe5]" by (simp add: assms(6))
  finally have t: "p_type h = None" using assms(5) by (simp add: phdr_at_def file_nat_def phdr_types_def)
  let ?r = "(Min (insert (2 ^ 64 - 1) (p_vaddr ` set (loads pre))), Max (insert 0 ((\<lambda>h. p_vaddr h + p_memsz h) ` set (loads pre))))"
  have "foldM range_step pre (2 ^ 64 - 1, 0) = Inr ?r" unfolding range_loop_eq using assms(3,4) by blast
  then have "calc_load_address_range elf = Inl UndefinedBehaviour"
    using t assms(2) by (simp add: calc_load_address_range_def foldM_append range_step_def is_load_def)
  then show ?thesis using assms(1) by (simp add: load_kernel_def)
qed

section \<open>The memory map between firmware and kernel\<close>

text \<open>The bytes of a descriptor as the firmware lays it out, in an entry of \<open>n\<close> bytes.\<close>

definition type_code :: "memory_type \<Rightarrow> nat" where
  "type_code t = length (takeWhile (\<lambda>x. x \<noteq> t) memory_types)"

definition encode_descriptor :: "nat \<Rightarrow> memory_descriptor \<Rightarrow> u8 list" where
  "encode_descriptor n d = le_bytes 4 (type_code (md_type d)) @ replicate 4 0 @ le_bytes 8 (unat (md_physical_start d))
     @ le_bytes 8 (unat (md_virtual_start d)) @ le_bytes 8 (unat (md_num_pages d)) @ le_bytes 8 (unat (md_attribute d)) @ replicate (n - 40) 0"

lemma type_code_simps: "type_code t < 16" "memory_types ! type_code t = t"
  by (cases t; simp add: type_code_def memory_types_def)+

lemma length_encode [simp]: "40 \<le> n \<Longrightarrow> length (encode_descriptor n d) = n"
  by (simp add: encode_descriptor_def)

lemma encode_fields:
  "take 4 (encode_descriptor n d) = le_bytes 4 (type_code (md_type d))"
  "take 8 (drop 8 (encode_descriptor n d)) = le_bytes 8 (unat (md_physical_start d))"
  "take 8 (drop 16 (encode_descriptor n d)) = le_bytes 8 (unat (md_virtual_start d))"
  "take 8 (drop 24 (encode_descriptor n d)) = le_bytes 8 (unat (md_num_pages d))"
  "take 8 (drop 32 (encode_descriptor n d)) = le_bytes 8 (unat (md_attribute d))"
  by (simp_all add: encode_descriptor_def del: le_bytes.simps)

lemma le_bytes_u64: "word_of_nat (le_nat (le_bytes 8 (unat (w :: u64)))) = w"
proof -
  have "unat w < 256 ^ 8" using unsigned_less [of w, where 'a = nat] by simp
  then show ?thesis by (simp only: le_nat_le_bytes mod_less) simp
qed

lemma descriptor_at_encoded:
  assumes "bytes_at mem a n = encode_descriptor n d" "40 \<le> n"
  shows "descriptor_at mem a = Inr d"
proof -
  have sl: "bytes_at mem (a + i) k = take k (drop i (encode_descriptor n d))" if "i + k \<le> 40" for i k
    using bytes_at_slice [of i k n mem a] assms that by simp
  have t: "unat (read_u32 mem a) = type_code (md_type d)"
    using sl [of 0 4] type_code_simps(1) [of "md_type d"]
    by (simp add: read_u32_def encode_fields le_nat_le_bytes unat_of_nat del: le_bytes.simps)
  have "read_u64 mem (a + 8) = md_physical_start d" "read_u64 mem (a + 16) = md_virtual_start d"
    "read_u64 mem (a + 24) = md_num_pages d" "read_u64 mem (a + 32) = md_attribute d"
    by (simp_all only: read_u64_def sl encode_fields le_bytes_u64)
  moreover have "length memory_types = 16" by (simp add: memory_types_def)
  ultimately show ?thesis using t type_code_simps [of "md_type d"] by (simp add: descriptor_at_def)
qed

lemma descriptor_at_zero:
  assumes "bytes_at mem a n = replicate n 0" "40 \<le> n"
  shows "\<exists>d. descriptor_at mem a = Inr d \<and> md_attribute d = 0"
proof -
  let ?d = "\<lparr>md_type = EfiReservedMemoryType, md_physical_start = 0, md_virtual_start = 0, md_num_pages = 0, md_attribute = 0\<rparr>"
  have z: "le_bytes k 0 = replicate k 0" for k by (induction k) auto
  have "encode_descriptor n ?d = replicate n 0"
    using assms(2) by (simp add: encode_descriptor_def type_code_def memory_types_def z replicate_add [symmetric] del: replicate_Suc)
  then show ?thesis using descriptor_at_encoded [of mem a n ?d] assms by auto
qed

lemma concat_chunk:
  assumes "\<And>x. length (f x) = n" "i < length xs"
  shows "take n (drop (i * n) (concat (map f xs))) = f (xs ! i)"
  using assms(2)
proof (induction xs arbitrary: i)
  case (Cons x xs)
  then show ?case using assms(1) by (cases i) auto
qed simp

lemma get_memory_map_spec:
  assumes "40 \<le> stride" "stride < 2 ^ 32" "bytes = concat (map (encode_descriptor stride) ds)" "length bytes \<le> map_size"
    and "\<forall>d \<in> set ds. md_attribute d \<noteq> 0" and sz: "map_size \<le> MEMMAP_BUF"
  shows "\<exists>raw mem'. get_memory_map (map_size, stride) (Some (key, bytes)) buf mem = Inr (raw, mem')
    \<and> mm_entries mem' (memory_map_of_raw raw) = Some (Inr ds) \<and> (\<forall>x. x < buf \<or> buf + MEMMAP_BUF \<le> x \<longrightarrow> mem' x = mem x)"
proof -
  let ?mem = "place buf bytes (place buf (replicate MEMMAP_BUF 0) mem)"
  let ?raw = "\<lparr>raw_buffer = buf, raw_map_size = of_nat map_size, raw_map_key = key, raw_descriptor_size = of_nat stride\<rparr>"
  let ?mm = "\<lparr>mm_buffer = buf, mm_len = map_size, mm_map_key = key, mm_descriptor_size = stride\<rparr>"
  have mm: "memory_map_of_raw ?raw = ?mm" using sz assms(2) by (simp add: memory_map_of_raw_def unat_of_nat MEMMAP_BUF_def)
  have len: "length bytes = length ds * stride" using assms(1,3) by (induction ds arbitrary: bytes) auto
  let ?n = "map_size div stride"
  have fit: "Suc i * stride \<le> map_size" if "i < ?n" for i using that slot_fits [of stride i map_size] assms(1) by simp
  have kn: "length ds \<le> ?n" using len assms(1,4) by (simp add: less_eq_div_iff_mult_less_eq)
  have s1: "slot_desc ?mem ?mm i = Inr (ds ! i)" if i: "i < length ds" for i
  proof -
    have "i * stride + stride \<le> length ds * stride" using mult_le_mono1 [of "Suc i" "length ds" stride] i by simp
    then have "bytes_at ?mem (buf + i * stride) stride = take stride (drop (i * stride) bytes)"
      using len by (subst bytes_at_place_in) simp_all
    also have "\<dots> = encode_descriptor stride (ds ! i)" unfolding assms(3) by (rule concat_chunk [OF length_encode [OF assms(1)] i])
    finally show ?thesis using descriptor_at_encoded [OF _ assms(1)] by (simp add: slot_desc_def)
  qed
  have s2: "\<exists>d. slot_desc ?mem ?mm i = Inr d \<and> md_attribute d = 0" if i: "length ds \<le> i" "i < ?n" for i
  proof -
    have "length bytes \<le> i * stride" using len i(1) by simp
    then have "bytes_at ?mem (buf + i * stride) stride = bytes_at (place buf (replicate MEMMAP_BUF 0) mem) (buf + i * stride) stride"
      by (intro bytes_at_place_out) simp
    also have "\<dots> = replicate stride 0" using fit [OF i(2)] sz by (subst bytes_at_place_in) simp_all
    finally show ?thesis using descriptor_at_zero [OF _ assms(1)] by (simp add: slot_desc_def)
  qed
  have "mm_wf ?mem ?mm"
    using s1 s2 assms(1,2) sz by (auto simp: mm_wf_def usize_bound_def MEMMAP_BUF_def not_less) (metis not_less)
  moreover have "mm_spec ?mem ?mm = ds"
  proof -
    let ?f = "\<lambda>i. projr (slot_desc ?mem ?mm i)"
    have ds: "map ?f [0..<length ds] = ds" using s1 by (intro nth_equalityI) simp_all
    have z: "takeWhile (\<lambda>d. md_attribute d \<noteq> 0) (map ?f [length ds..<?n]) = []"
      using s2 [of "length ds"] by (cases "length ds < ?n") (auto simp: upt_conv_Cons)
    have "[0..<?n] = [0..<length ds] @ [length ds..<?n]" using kn upt_add_eq_append [of 0 "length ds" "?n - length ds"] by simp
    then have "mm_spec ?mem ?mm = takeWhile (\<lambda>d. md_attribute d \<noteq> 0) (ds @ map ?f [length ds..<?n])"
      by (simp add: mm_spec_def ds)
    then show ?thesis using assms(5) z by (simp add: takeWhile_append2)
  qed
  ultimately have "mm_entries ?mem (memory_map_of_raw ?raw) = Some (Inr ds)" using mm_entries_spec mm by metis
  moreover have "?mem x = mem x" if "x < buf \<or> buf + MEMMAP_BUF \<le> x" for x
    using that assms(4) sz by (auto simp: place_def)
  ultimately show ?thesis using sz by (simp add: get_memory_map_def)
qed

text \<open>
  The memory map reaches the kernel. When the firmware announces a size and writes descriptors of at least forty
  bytes with non-zero attributes that fit it, the map that the boot loader passes on is iterated by the kernel exactly
  over these descriptors, also when the announced size is larger than what was written; nothing outside the buffer
  changes. A map that is larger than the buffer stops the boot loader.
\<close>

theorem boot_memory_map_roundtrip:
  assumes "40 \<le> stride" "stride < 2 ^ 32" "bytes = concat (map (encode_descriptor stride) ds)" "length bytes \<le> map_size"
    and "\<forall>d \<in> set ds. md_attribute d \<noteq> 0"
  shows "if map_size \<le> MEMMAP_BUF
    then \<exists>raw mem'. get_memory_map (map_size, stride) (Some (key, bytes)) buf mem = Inr (raw, mem')
      \<and> mm_entries mem' (memory_map_of_raw raw) = Some (Inr ds) \<and> (\<forall>x. x < buf \<or> buf + MEMMAP_BUF \<le> x \<longrightarrow> mem' x = mem x)
    else get_memory_map (map_size, stride) (Some (key, bytes)) buf mem = Inl AssertFailed"
  using get_memory_map_spec [OF assms, of key buf mem] by (simp add: get_memory_map_def)

section \<open>A small kernel\<close>

definition example_kernel :: "u8 list" where
  "example_kernel = replicate 24 0 @ le_bytes 8 0x3000 @ le_bytes 8 64 @ replicate 16 0 @ le_bytes 2 1 @ replicate 6 0
     @ [1, 0, 0, 0] @ le_bytes 4 5 @ le_bytes 8 120 @ le_bytes 8 0x3000 @ le_bytes 8 0 @ le_bytes 8 4 @ le_bytes 8 8 @ le_bytes 8 0
     @ [1, 2, 3, 4]"

definition example_phdr :: elf64_phdr where
  "example_phdr = \<lparr>p_type = Some PT_LOAD, p_flags = 5, p_offset = 120, p_vaddr = 0x3000, p_paddr = 0, p_filesz = 4, p_memsz = 8, p_align = 0\<rparr>"

lemma example_elf: "\<exists>elf. from_buffer 0x8000 example_kernel = Inr elf \<and> prog_headers elf = [example_phdr] \<and> e_entry (elf_header elf) = 0x3000"
proof -
  have l: "length example_kernel = 124" by (simp add: example_kernel_def del: le_bytes.simps)
  have h: "e_phoff (ehdr_at example_kernel) = 64" "e_phnum (ehdr_at example_kernel) = 1" "e_entry (ehdr_at example_kernel) = 0x3000"
    by (simp_all add: ehdr_at_def file_nat_def example_kernel_def le_nat_le_bytes del: le_bytes.simps)
  have "phdr_at example_kernel 64 = example_phdr"
    by (simp add: phdr_at_def file_nat_def example_kernel_def le_nat_le_bytes example_phdr_def phdr_types_def del: le_bytes.simps)
  then show ?thesis using l h by (simp add: from_buffer_def EHDR_SIZE_def PHDR_SIZE_def)
qed

lemma example_loads: "loads [example_phdr] = [example_phdr]" "kernel_first [example_phdr] = 0x3000" "kernel_last [example_phdr] = 0x3008"
proof -
  show ld: "loads [example_phdr] = [example_phdr]" by (simp add: loads_def example_phdr_def)
  show "kernel_first [example_phdr] = 0x3000" "kernel_last [example_phdr] = 0x3008"
    unfolding kernel_first_def kernel_last_def ld by (simp_all add: example_phdr_def)
qed

lemma example_loadable: "loadable (\<lambda>_ _. True) 0x8000 example_kernel"
proof -
  obtain elf where elf: "from_buffer 0x8000 example_kernel = Inr elf" "prog_headers elf = [example_phdr]" using example_elf by blast
  have "length example_kernel = 124" by (simp add: example_kernel_def del: le_bytes.simps)
  then show ?thesis
    unfolding loadable_def using elf example_loads
    by (auto simp: known_types_def segment_ok_def fits_memory_def usize_bound_def example_phdr_def)
qed

lemma example_segment: "segment_bytes example_kernel example_phdr = [1, 2, 3, 4, 0, 0, 0, 0]"
proof -
  have "replicate 4 (0 :: u8) = [0, 0, 0, 0]" by (simp add: numeral_eq_Suc)
  then show ?thesis by (simp add: segment_bytes_def example_phdr_def example_kernel_def del: le_bytes.simps)
qed

theorem load_kernel_correct_witness:
  "\<exists>entry mem' first pages. load_kernel (\<lambda>_ _. True) 0x8000 (Some example_kernel) (\<lambda>_. 7) = Inr (entry, mem', first, pages)
    \<and> entry = 0x3000 \<and> bytes_at mem' 0x3000 8 = [1, 2, 3, 4, 0, 0, 0, 0] \<and> mem' 0x3008 = 7"
proof -
  obtain elf where elf: "from_buffer 0x8000 example_kernel = Inr elf" "prog_headers elf = [example_phdr]" "e_entry (elf_header elf) = 0x3000"
    using example_elf by blast
  obtain entry mem' first pages where k: "load_kernel (\<lambda>_ _. True) 0x8000 (Some example_kernel) (\<lambda>_. 7) = Inr (entry, mem', first, pages)"
    using conjunct1 [OF load_kernel_correct] example_loadable by (metis prod_cases4)
  have "entry = 0x3000 \<and> bytes_at mem' 0x3000 8 = [1, 2, 3, 4, 0, 0, 0, 0] \<and> mem' 0x3008 = 7"
    using conjunct2 [OF load_kernel_correct [of "\<lambda>_ _. True" "0x8000" example_kernel "\<lambda>_. 7" entry mem' first pages elf]] k elf
    by (simp add: example_loads example_segment) (simp add: example_phdr_def segment_def)
  then show ?thesis using k by blast
qed

theorem boot_memory_map_roundtrip_witness:
  "let d = \<lparr>md_type = EfiConventionalMemory, md_physical_start = 0x1000, md_virtual_start = 0, md_num_pages = 16, md_attribute = 15\<rparr>
   in \<exists>raw mem'. get_memory_map (192, 48) (Some (5, encode_descriptor 48 d)) 0x5000 (\<lambda>_. 9) = Inr (raw, mem')
      \<and> mm_entries mem' (memory_map_of_raw raw) = Some (Inr [d])"
proof -
  let ?d = "\<lparr>md_type = EfiConventionalMemory, md_physical_start = 0x1000, md_virtual_start = 0, md_num_pages = 16, md_attribute = 15\<rparr>"
  have "(192::nat) \<le> MEMMAP_BUF" by (simp add: MEMMAP_BUF_def)
  then show ?thesis
    using boot_memory_map_roundtrip [of 48 "encode_descriptor 48 ?d" "[?d]" 192 5 "0x5000" "\<lambda>_. 9"] by (simp add: Let_def) blast
qed

end
