(* ===== verification/Frame_Allocator.thy ===== *)
theory Frame_Allocator
  imports Memory_Map
begin

text \<open>
  The physical frame allocator \<^verbatim>\<open>BitMapMemoryManager\<close> of \<^verbatim>\<open>kernel/src/memory_manager.rs\<close>: one bit per
  4 KiB frame, set while the frame is in use, and the range of frames it may hand out. The theory
  gives the operations as the code has them, byte indexing and debug-build overflow checks included,
  and relates them to the set of frames in use.
\<close>

section \<open>Model\<close>

definition KB :: nat where "KB = 1024"

definition GB :: nat where "GB = 1024 * 1024 * 1024"

definition BYTES_PER_FRAME :: nat where "BYTES_PER_FRAME = 4 * KB"

definition UEFI_PAGE_SIZE :: nat where "UEFI_PAGE_SIZE = 4 * KB"

definition MAX_PHYSICAL_MEMORY_BYTES :: nat where "MAX_PHYSICAL_MEMORY_BYTES = 128 * GB"

definition FRAME_COUNT :: nat where "FRAME_COUNT = MAX_PHYSICAL_MEMORY_BYTES div BYTES_PER_FRAME"

record bitmap_mm =
  alloc_map :: "u8 list"
  available_range :: "nat \<times> nat"

definition set_bit_frame :: "bitmap_mm \<Rightarrow> nat \<Rightarrow> bool \<Rightarrow> bitmap_mm res" where
  "set_bit_frame m frame allocated =
     (let line_index = frame div 8; bit_index = frame mod 8 in
      rbind (index (alloc_map m) line_index) (\<lambda>line.
      rbind (store (alloc_map m) line_index
               (if allocated then line OR push_bit bit_index 1
                else line AND NOT (push_bit bit_index 1))) (\<lambda>map'.
      Inr (m\<lparr>alloc_map := map'\<rparr>))))"

definition get_bit_frame :: "bitmap_mm \<Rightarrow> nat \<Rightarrow> bool res" where
  "get_bit_frame m frame =
     (let line_index = frame div 8; bit_index = frame mod 8 in
      rbind (index (alloc_map m) line_index) (\<lambda>line.
      Inr (line AND push_bit bit_index 1 \<noteq> 0)))"

definition mark_allocated :: "bitmap_mm \<Rightarrow> nat \<Rightarrow> nat \<Rightarrow> bitmap_mm res" where
  "mark_allocated m from nframes =
     rbind (usize_add from nframes) (\<lambda>end.
       foldM (\<lambda>frame m. set_bit_frame m frame True) [from..<end] m)"

definition mm_free :: "bitmap_mm \<Rightarrow> nat \<Rightarrow> nat \<Rightarrow> bitmap_mm res" where
  "mm_free m start nframes =
     rbind (usize_add start nframes) (\<lambda>end.
       foldM (\<lambda>frame m. set_bit_frame m frame False) [start..<end] m)"

text \<open>
  The inner loop of \<^verbatim>\<open>allocate\<close>: count free frames from \<open>start\<close> until there are enough, the range
  ends, or a frame is in use.
\<close>

function scan_free :: "bitmap_mm \<Rightarrow> nat \<Rightarrow> nat \<Rightarrow> nat \<Rightarrow> nat res" where
  "scan_free m nframes start nfree =
     (if nfree < nframes then
        rbind (usize_add start nfree) (\<lambda>frame.
          if frame < snd (available_range m) then
            rbind (get_bit_frame m frame) (\<lambda>used.
              if used then Inr nfree else scan_free m nframes start (nfree + 1))
          else Inr nfree)
      else Inr nfree)"
  by pat_completeness auto
termination
  by (relation "measure (\<lambda>(m, nframes, start, nfree). nframes - nfree)") auto

declare scan_free.simps [simp del]

function allocate_from :: "bitmap_mm \<Rightarrow> nat \<Rightarrow> nat \<Rightarrow> (nat option \<times> bitmap_mm) res" where
  "allocate_from m nframes start =
     rbind (usize_sub (snd (available_range m)) nframes) (\<lambda>limit.
       if start < limit then
         rbind (scan_free m nframes start 0) (\<lambda>nfree.
           if nfree = nframes then
             rbind (mark_allocated m start nframes) (\<lambda>m'. Inr (Some start, m'))
           else rbind (usize_add nfree 1) (\<lambda>skip.
                rbind (usize_add start skip) (\<lambda>start'. allocate_from m nframes start')))
       else Inr (None, m))"
  by pat_completeness auto
termination
  by (relation "measure (\<lambda>(m, nframes, start). snd (available_range m) - start)") auto

declare allocate_from.simps [simp del]

definition mm_allocate :: "bitmap_mm \<Rightarrow> nat \<Rightarrow> (nat option \<times> bitmap_mm) res" where
  "mm_allocate m nframes = allocate_from m nframes (fst (available_range m))"

definition get_frame_start :: "bitmap_mm \<Rightarrow> nat \<Rightarrow> addr res" where
  "get_frame_start m frame = usize_mul frame BYTES_PER_FRAME"

text \<open>
  \<^verbatim>\<open>new_at\<close>: every frame starts free; then, descriptor by descriptor, the gap since the end of the
  last available region and the descriptors that are not available are marked.
\<close>

definition new_at_step ::
    "memory_descriptor \<Rightarrow> bitmap_mm \<times> nat \<Rightarrow> (bitmap_mm \<times> nat) res" where
  "new_at_step desc = (\<lambda>(m, available_end).
     let start = unat (md_physical_start desc) in
     rbind (if available_end < start
            then mark_allocated m (available_end div BYTES_PER_FRAME)
                   ((start - available_end) div BYTES_PER_FRAME)
            else Inr m) (\<lambda>m.
     rbind (usize_mul (unat (md_num_pages desc)) UEFI_PAGE_SIZE) (\<lambda>bytes.
     rbind (usize_add start bytes) (\<lambda>physical_end.
       if is_available desc then Inr (m, physical_end)
       else rbind (mark_allocated m (start div BYTES_PER_FRAME) (bytes div BYTES_PER_FRAME))
              (\<lambda>m. Inr (m, available_end))))))"

definition new_at :: "memory_descriptor list \<Rightarrow> bitmap_mm res" where
  "new_at entries =
     rbind (foldM new_at_step entries
              (\<lparr>alloc_map = replicate (FRAME_COUNT div 8) 0, available_range = (0, 0)\<rparr>, 0))
       (\<lambda>(m, available_end). Inr (m\<lparr>available_range := (1, available_end div BYTES_PER_FRAME)\<rparr>))"

section \<open>The frames in use\<close>

definition in_use :: "bitmap_mm \<Rightarrow> nat \<Rightarrow> bool" where
  "in_use m f \<longleftrightarrow> f div 8 < length (alloc_map m) \<and> bit (alloc_map m ! (f div 8)) (f mod 8)"

definition used :: "bitmap_mm \<Rightarrow> nat set" where
  "used m = {f. in_use m f}"

definition n_frames :: "bitmap_mm \<Rightarrow> nat" where
  "n_frames m = 8 * length (alloc_map m)"

lemma frame_line_less: "f < n_frames m \<longleftrightarrow> f div 8 < length (alloc_map m)"
  by (simp add: n_frames_def div_less_iff_less_mult mult.commute)

lemma and_push_bit_1: "(w::u8) AND push_bit k 1 \<noteq> 0 \<longleftrightarrow> bit w k" if "k < 8"
proof
  assume "w AND push_bit k 1 \<noteq> 0"
  then obtain n where "bit (w AND push_bit k 1) n" by (auto simp: bit_eq_iff)
  then show "bit w k" by (auto simp: bit_simps)
next
  assume "bit w k"
  then have "bit (w AND push_bit k 1) k" using that by (simp add: bit_simps)
  then show "w AND push_bit k 1 \<noteq> 0" by (metis bit_0_eq bot_apply bot_bool_def)
qed

lemma get_bit_frame_eq [res_simps]: "f < n_frames m \<Longrightarrow> get_bit_frame m f = Inr (in_use m f)"
  using and_push_bit_1 [of "f mod 8" "alloc_map m ! (f div 8)"]
  by (simp add: get_bit_frame_def in_use_def frame_line_less res_simps Let_def)

lemma div_mod_neq: "f div 8 = g div 8 \<Longrightarrow> f \<noteq> g \<Longrightarrow> f mod 8 \<noteq> (g mod 8 :: nat)"
  by (metis mod_div_mult_eq)

lemma set_bit_frame_eq:
  assumes "f < n_frames m"
  shows "\<exists>m'. set_bit_frame m f b = Inr m' \<and> n_frames m' = n_frames m
     \<and> available_range m' = available_range m
     \<and> used m' = (if b then insert f (used m) else used m - {f})"
proof -
  let ?l = "f div 8" and ?k = "f mod 8"
  define line' where "line' = (if b then alloc_map m ! ?l OR push_bit ?k 1
    else alloc_map m ! ?l AND NOT (push_bit ?k 1))"
  define m' where "m' = m\<lparr>alloc_map := (alloc_map m)[?l := line']\<rparr>"
  have l: "?l < length (alloc_map m)" using assms by (simp add: frame_line_less)
  have bit: "bit line' k \<longleftrightarrow> (if k = ?k then b else bit (alloc_map m ! ?l) k)" if "k < 8" for k
    using that by (auto simp: line'_def bit_simps)
  have "in_use m' g \<longleftrightarrow> (if g = f then b else in_use m g)" for g
    using l bit [of "g mod 8"] div_mod_neq [of g f]
    by (cases "g div 8 = ?l") (auto simp: in_use_def m'_def)
  then have "used m' = (if b then insert f (used m) else used m - {f})"
    by (auto simp: used_def split: if_splits)
  moreover have "set_bit_frame m f b = Inr m'"
    using l by (simp add: set_bit_frame_def res_simps m'_def line'_def Let_def)
  ultimately show ?thesis by (auto simp: m'_def n_frames_def)
qed

text \<open>Marking and freeing a run of frames adds and removes exactly that run.\<close>

lemma set_bits_run:
  assumes "e \<le> n_frames m"
  shows "\<exists>m'. foldM (\<lambda>frame m. set_bit_frame m frame b) [s..<e] m = Inr m'
     \<and> n_frames m' = n_frames m \<and> available_range m' = available_range m
     \<and> used m' = (if b then used m \<union> {s..<e} else used m - {s..<e})"
proof -
  let ?I = "\<lambda>fs t. n_frames t = n_frames m \<and> available_range t = available_range m
     \<and> used t = (if b then used m \<union> set fs else used m - set fs)"
  have "\<exists>m'. foldM (\<lambda>frame m. set_bit_frame m frame b) [s..<e] m = Inr m' \<and> ?I [s..<e] m'"
  proof (rule foldM_rule)
    show "?I [] m" by simp
  next
    fix fs f todo t
    assume split: "[s..<e] = fs @ f # todo" and I: "?I fs t"
    have "f \<in> set [s..<e]" using split by simp
    then have "f < n_frames t" using assms I by simp
    from set_bit_frame_eq [OF this, of b] I
    show "\<exists>t'. set_bit_frame t f b = Inr t' \<and> ?I (fs @ [f]) t'" by auto
  qed
  then show ?thesis unfolding set_upt .
qed

lemma mark_allocated_spec:
  assumes "s + n \<le> n_frames m" "n_frames m < usize_bound"
  shows "\<exists>m'. mark_allocated m s n = Inr m' \<and> n_frames m' = n_frames m
     \<and> available_range m' = available_range m \<and> used m' = used m \<union> {s..<s + n}"
  using assms set_bits_run [of "s + n" m True s] by (auto simp: mark_allocated_def res_simps)

lemma mm_free_spec:
  assumes "s + n \<le> n_frames m" "n_frames m < usize_bound"
  shows "\<exists>m'. mm_free m s n = Inr m' \<and> n_frames m' = n_frames m
     \<and> available_range m' = available_range m \<and> used m' = used m - {s..<s + n}"
  using assms set_bits_run [of "s + n" m False s] by (auto simp: mm_free_def res_simps)

section \<open>Allocation is sound, first-fit and complete below the last run\<close>

text \<open>
  The range handed out lies inside the bitmap. \<^verbatim>\<open>new_at\<close> establishes this, and no operation changes
  the range or the size of the bitmap.
\<close>

definition mm_inv :: "bitmap_mm \<Rightarrow> bool" where
  "mm_inv m \<longleftrightarrow> 1 \<le> fst (available_range m) \<and> snd (available_range m) \<le> n_frames m
     \<and> n_frames m < usize_bound - 1"

lemma scan_free_spec:
  assumes inv: "mm_inv m" and b: "start + nframes < snd (available_range m)" "k \<le> nframes"
    and free: "\<forall>f \<in> {start..<start + k}. \<not> in_use m f"
  shows "\<exists>nfree. scan_free m nframes start k = Inr nfree \<and> k \<le> nfree \<and> nfree \<le> nframes
     \<and> (\<forall>f \<in> {start..<start + nfree}. \<not> in_use m f)
     \<and> (nfree < nframes \<longrightarrow> in_use m (start + nfree))"
  using b(2) free
proof (induction "nframes - k" arbitrary: k)
  case 0
  then show ?case by (simp add: scan_free.simps)
next
  case (Suc d)
  then have k: "k < nframes" by simp
  with b(1) inv have f: "start + k < snd (available_range m)" "start + k < n_frames m"
      "start + k < usize_bound" by (auto simp: mm_inv_def)
  show ?case
  proof (cases "in_use m (start + k)")
    case True
    then show ?thesis using k f Suc.prems by (subst scan_free.simps) (simp add: res_simps)
  next
    case False
    with Suc.prems(2) have run: "\<forall>g \<in> {start..<start + (k + 1)}. \<not> in_use m g"
      by (auto simp: less_Suc_eq)
    have "d = nframes - (k + 1)" "k + 1 \<le> nframes" using Suc.hyps(2) k by simp_all
    from Suc.hyps(1) [OF this run] obtain nfree where IH: "scan_free m nframes start (k + 1) = Inr nfree"
        "k + 1 \<le> nfree" "nfree \<le> nframes" "\<forall>f \<in> {start..<start + nfree}. \<not> in_use m f"
        "nfree < nframes \<longrightarrow> in_use m (start + nfree)"
      by blast
    have "scan_free m nframes start k = Inr nfree"
      using k f False IH(1) by (subst scan_free.simps) (simp add: res_simps)
    with IH show ?thesis by auto
  qed
qed

text \<open>
  \<open>busy\<close>: the run of \<open>n\<close> frames that starts at \<open>s\<close> contains a frame in use.
\<close>

definition busy :: "bitmap_mm \<Rightarrow> nat \<Rightarrow> nat \<Rightarrow> bool" where
  "busy m n s \<longleftrightarrow> (\<exists>f \<in> {s..<s + n}. in_use m f)"

definition alloc_post :: "bitmap_mm \<Rightarrow> nat \<Rightarrow> nat \<Rightarrow> nat option \<times> bitmap_mm \<Rightarrow> bool" where
  "alloc_post m n lo r \<longleftrightarrow> (case r of
       (Some s, m') \<Rightarrow> lo \<le> s \<and> s + n < snd (available_range m) \<and> \<not> busy m n s
          \<and> (\<forall>s' \<in> {lo..<s}. busy m n s')
          \<and> used m' = used m \<union> {s..<s + n}
          \<and> available_range m' = available_range m \<and> n_frames m' = n_frames m
     | (None, m') \<Rightarrow> m' = m \<and> (\<forall>s. lo \<le> s \<and> s + n < snd (available_range m) \<longrightarrow> busy m n s))"

lemma alloc_post_skip:
  assumes post: "alloc_post m n s1 r" and le: "s0 \<le> s1"
    and busy: "\<And>s. \<lbrakk>s0 \<le> s; s < s1\<rbrakk> \<Longrightarrow> busy m n s"
  shows "alloc_post m n s0 r"
proof (cases r)
  case (Pair res m')
  show ?thesis
  proof (cases res)
    case None
    with Pair post have "m' = m" "\<And>s. \<lbrakk>s1 \<le> s; s + n < snd (available_range m)\<rbrakk> \<Longrightarrow> busy m n s"
      by (auto simp: alloc_post_def)
    with busy have "busy m n s" if "s0 \<le> s" "s + n < snd (available_range m)" for s
      using that by (cases "s < s1") auto
    with \<open>m' = m\<close> None Pair show ?thesis by (simp add: alloc_post_def)
  next
    case (Some a)
    with Pair post have "\<forall>s \<in> {s1..<a}. busy m n s" by (simp add: alloc_post_def)
    with busy have "busy m n s" if "s0 \<le> s" "s < a" for s
      using that by (cases "s < s1") auto
    with post le Some Pair show ?thesis by (simp add: alloc_post_def)
  qed
qed

lemma allocate_from_spec:
  assumes inv: "mm_inv m" and n: "n \<le> snd (available_range m)"
  shows "\<exists>r. allocate_from m n start = Inr r \<and> alloc_post m n start r"
proof (induction "snd (available_range m) - start" arbitrary: start rule: less_induct)
  case less
  let ?hi = "snd (available_range m)"
  show ?case
  proof (cases "start + n < ?hi")
    case False
    then show ?thesis using n
      by (subst allocate_from.simps) (auto simp: res_simps alloc_post_def)
  next
    case True
    from scan_free_spec [OF inv True, of 0] obtain k where k: "scan_free m n start 0 = Inr k"
        "k \<le> n" "\<forall>f \<in> {start..<start + k}. \<not> in_use m f" "k < n \<longrightarrow> in_use m (start + k)" by auto
    show ?thesis
    proof (cases "k = n")
      case True': True
      have "start + n \<le> n_frames m" "n_frames m < usize_bound" using inv True by (auto simp: mm_inv_def)
      from mark_allocated_spec [OF this] obtain m' where
        m': "mark_allocated m start n = Inr m'" "n_frames m' = n_frames m"
          "available_range m' = available_range m" "used m' = used m \<union> {start..<start + n}" by blast
      have "allocate_from m n start = Inr (Some start, m')"
        using True n k(1) True' m'(1) by (subst allocate_from.simps) (simp add: res_simps)
      moreover have "alloc_post m n start (Some start, m')"
        using True k(3) True' m' by (auto simp: alloc_post_def busy_def)
      ultimately show ?thesis by blast
    next
      case False
      with k have used: "in_use m (start + k)" "k < n" by auto
      let ?s = "start + (k + 1)"
      have "?hi - ?s < ?hi - start" using True by arith
      from less [OF this] obtain r where r: "allocate_from m n ?s = Inr r" "alloc_post m n ?s r"
        by blast
      have ov: "k + 1 < usize_bound" "?s < usize_bound" using inv True used by (auto simp: mm_inv_def)
      have "allocate_from m n start = Inr r"
        using True n k(1) False ov r(1)
        by (subst allocate_from.simps) (simp add: res_simps less_diff_conv)
      moreover have skip: "busy m n s'" if "start \<le> s'" "s' < ?s" for s'
        unfolding busy_def using that used by (intro bexI [of _ "start + k"]) auto
      from alloc_post_skip [OF r(2) _ skip] have "alloc_post m n start r" by simp
      ultimately show ?thesis by blast
    qed
  qed
qed

lemma mm_allocate_spec:
  assumes "mm_inv m" "n \<le> snd (available_range m)"
  shows "\<exists>r. mm_allocate m n = Inr r \<and> alloc_post m n (fst (available_range m)) r"
  using allocate_from_spec [OF assms] by (simp add: mm_allocate_def)

text \<open>A request that exceeds the end of the range underflows \<^verbatim>\<open>range.1 - nframes\<close>.\<close>

lemma mm_allocate_panics:
  "snd (available_range m) < n \<Longrightarrow> mm_allocate m n = Inl ArithOverflow"
  by (simp add: mm_allocate_def allocate_from.simps usize_sub_def)

section \<open>The contract of a frame allocator\<close>

text \<open>
  What the object allocator relies on: the frames in use, the frames that may be handed out, and
  the two operations.
\<close>

locale frame_allocator =
  fixes invar :: "'m \<Rightarrow> bool"
    and used_frames :: "'m \<Rightarrow> nat set"
    and managed :: "'m \<Rightarrow> nat set"
    and allocate :: "'m \<Rightarrow> nat \<Rightarrow> (nat option \<times> 'm) res"
    and free :: "'m \<Rightarrow> nat \<Rightarrow> nat \<Rightarrow> 'm res"
  assumes allocate_Some: "\<lbrakk>invar m; allocate m n = Inr (Some s, m')\<rbrakk> \<Longrightarrow>
      invar m' \<and> managed m' = managed m \<and> {s..<s + n} \<subseteq> managed m - used_frames m
      \<and> 0 < s \<and> used_frames m' = used_frames m \<union> {s..<s + n}"
    and allocate_None: "\<lbrakk>invar m; allocate m n = Inr (None, m')\<rbrakk> \<Longrightarrow> m' = m"
    and free_run: "\<lbrakk>invar m; 0 < n; {s..<s + n} \<subseteq> managed m\<rbrakk> \<Longrightarrow>
      \<exists>m'. free m s n = Inr m' \<and> invar m' \<and> managed m' = managed m
        \<and> used_frames m' = used_frames m - {s..<s + n}"
begin

text \<open>
  The view of a client that owns some of the frames in use: what it is given is disjoint from what
  it owns, and giving back a run it owns leaves the rest of its frames in use.
\<close>

lemma allocate_fresh:
  assumes "invar m" "owned \<subseteq> used_frames m" "allocate m n = Inr (Some s, m')"
  shows "{s..<s + n} \<inter> owned = {}" "owned \<union> {s..<s + n} \<subseteq> used_frames m'" "invar m'"
    "{s..<s + n} \<subseteq> managed m'" "managed m' = managed m" "0 < s"
  using allocate_Some [OF assms(1,3)] assms(2) by auto

lemma free_owned:
  assumes "invar m" "0 < n" "{s..<s + n} \<union> owned \<subseteq> used_frames m" "{s..<s + n} \<inter> owned = {}"
    "{s..<s + n} \<subseteq> managed m"
  shows "\<exists>m'. free m s n = Inr m' \<and> invar m' \<and> owned \<subseteq> used_frames m' \<and> managed m' = managed m"
  using free_run [OF assms(1,2,5)] assms(3,4) by auto

end

definition managed_frames :: "bitmap_mm \<Rightarrow> nat set" where
  "managed_frames m = {fst (available_range m)..<snd (available_range m)}"

lemma mm_allocate_bound: "mm_allocate m n = Inr r \<Longrightarrow> n \<le> snd (available_range m)"
  using mm_allocate_panics [of m n] by (cases "snd (available_range m) < n") auto

interpretation fa: frame_allocator mm_inv used managed_frames mm_allocate mm_free
proof
  fix m m' n s
  assume inv: "mm_inv m"
  {
    fix r
    assume al: "mm_allocate m n = Inr (r, m')"
    from mm_allocate_spec [OF inv mm_allocate_bound [OF al]] al
    have "alloc_post m n (fst (available_range m)) (r, m')" by simp
  } note post = this
  show "mm_inv m' \<and> managed_frames m' = managed_frames m \<and> {s..<s + n} \<subseteq> managed_frames m - used m
      \<and> 0 < s \<and> used m' = used m \<union> {s..<s + n}" if "mm_allocate m n = Inr (Some s, m')"
    using post [OF that] inv
    by (auto simp: alloc_post_def mm_inv_def managed_frames_def busy_def used_def)
  show "m' = m" if "mm_allocate m n = Inr (None, m')"
    using post [OF that] by (simp add: alloc_post_def)
  show "\<exists>m'. mm_free m s n = Inr m' \<and> mm_inv m' \<and> managed_frames m' = managed_frames m
      \<and> used m' = used m - {s..<s + n}" if "0 < n" "{s..<s + n} \<subseteq> managed_frames m"
  proof -
    have "s + n - 1 \<in> {s..<s + n}" using that(1) by auto
    with that(2) have "s + n - 1 \<in> managed_frames m" by blast
    then have "s + n \<le> snd (available_range m)" using that(1) by (auto simp: managed_frames_def)
    with inv have "s + n \<le> n_frames m" "n_frames m < usize_bound" by (auto simp: mm_inv_def)
    from mm_free_spec [OF this] inv show ?thesis by (auto simp: mm_inv_def managed_frames_def)
  qed
qed

section \<open>Initialisation from the memory map\<close>

definition desc_start :: "memory_descriptor \<Rightarrow> nat" where
  "desc_start d = unat (md_physical_start d)"

definition desc_end :: "memory_descriptor \<Rightarrow> nat" where
  "desc_end d = desc_start d + unat (md_num_pages d) * UEFI_PAGE_SIZE"

definition desc_frames :: "memory_descriptor \<Rightarrow> nat set" where
  "desc_frames d = {desc_start d div BYTES_PER_FRAME..<desc_end d div BYTES_PER_FRAME}"

text \<open>
  What the firmware guarantees of its map: page-aligned regions in ascending order that do not
  overlap; and what the fixed bitmap needs: none of them ends above 128 GiB.
\<close>

definition ascending_map :: "memory_descriptor list \<Rightarrow> bool" where
  "ascending_map ds \<longleftrightarrow> sorted_wrt (\<lambda>a b. desc_end a \<le> desc_start b) ds
     \<and> (\<forall>d \<in> set ds. BYTES_PER_FRAME dvd desc_start d)"

definition fits_bitmap :: "memory_descriptor list \<Rightarrow> bool" where
  "fits_bitmap ds \<longleftrightarrow> (\<forall>d \<in> set ds. desc_end d \<le> MAX_PHYSICAL_MEMORY_BYTES)"

definition available_frames :: "memory_descriptor list \<Rightarrow> nat set" where
  "available_frames ds = (\<Union>d \<in> {d \<in> set ds. is_available d}. desc_frames d)"

lemmas frame_consts = BYTES_PER_FRAME_def UEFI_PAGE_SIZE_def KB_def GB_def
  MAX_PHYSICAL_MEMORY_BYTES_def FRAME_COUNT_def usize_bound_def

text \<open>What \<^verbatim>\<open>new_at\<close> has achieved after a prefix of the descriptors.\<close>

definition new_at_inv :: "memory_descriptor list \<Rightarrow> bitmap_mm \<times> nat \<Rightarrow> bool" where
  "new_at_inv ds = (\<lambda>(m, ae). n_frames m = FRAME_COUNT \<and> BYTES_PER_FRAME dvd ae
     \<and> ae \<le> MAX_PHYSICAL_MEMORY_BYTES
     \<and> (\<forall>d \<in> set ds. is_available d \<longrightarrow> desc_end d \<le> ae)
     \<and> (ae = 0 \<or> (\<exists>d \<in> set ds. is_available d \<and> desc_end d = ae))
     \<and> (\<forall>f < ae div BYTES_PER_FRAME. f \<in> used m \<longleftrightarrow> f \<notin> available_frames ds)
     \<and> (\<forall>f \<in> used m. \<exists>d \<in> set ds. f < desc_end d div BYTES_PER_FRAME))"

lemma desc_end_dvd: "BYTES_PER_FRAME dvd desc_start d \<Longrightarrow> BYTES_PER_FRAME dvd desc_end d"
  by (simp add: desc_end_def UEFI_PAGE_SIZE_def BYTES_PER_FRAME_def)

lemma available_frames_snoc:
  "available_frames (ds @ [d]) = available_frames ds \<union> (if is_available d then desc_frames d else {})"
  by (auto simp: available_frames_def)

lemma div_frame_le: "a \<le> MAX_PHYSICAL_MEMORY_BYTES \<Longrightarrow> a div BYTES_PER_FRAME \<le> FRAME_COUNT"
  by (simp add: FRAME_COUNT_def div_le_mono)

lemma mark_region:
  assumes "n_frames m = FRAME_COUNT" "BYTES_PER_FRAME dvd a" "BYTES_PER_FRAME dvd b" "a \<le> b"
    "b \<le> MAX_PHYSICAL_MEMORY_BYTES"
  shows "\<exists>m'. mark_allocated m (a div BYTES_PER_FRAME) ((b - a) div BYTES_PER_FRAME) = Inr m'
     \<and> n_frames m' = FRAME_COUNT \<and> used m' = used m \<union> {a div BYTES_PER_FRAME..<b div BYTES_PER_FRAME}"
proof -
  have run: "a div BYTES_PER_FRAME + (b - a) div BYTES_PER_FRAME = b div BYTES_PER_FRAME"
    using assms(2-4) by (metis div_plus_div_distrib_dvd_left le_add_diff_inverse)
  have "n_frames m < usize_bound" using assms(1) by (simp add: frame_consts)
  with mark_allocated_spec [of "a div BYTES_PER_FRAME" "(b - a) div BYTES_PER_FRAME" m] run
    div_frame_le [OF assms(5)] assms(1)
  show ?thesis by (auto simp: run)
qed

lemma new_at_step_inv:
  assumes asc: "ascending_map (ds @ [d])" and fits: "fits_bitmap (ds @ [d])"
    and inv: "new_at_inv ds (m, ae)"
  shows "\<exists>r. new_at_step d (m, ae) = Inr r \<and> new_at_inv (ds @ [d]) r"
proof -
  let ?P = BYTES_PER_FRAME and ?S = "desc_start d" and ?E = "desc_end d"
  have I: "n_frames m = FRAME_COUNT" "?P dvd ae" "ae \<le> MAX_PHYSICAL_MEMORY_BYTES"
      "\<forall>x \<in> set ds. is_available x \<longrightarrow> desc_end x \<le> ae"
      "ae = 0 \<or> (\<exists>x \<in> set ds. is_available x \<and> desc_end x = ae)"
      "\<And>f. f < ae div ?P \<Longrightarrow> f \<in> used m \<longleftrightarrow> f \<notin> available_frames ds"
      "\<And>f. f \<in> used m \<Longrightarrow> \<exists>x \<in> set ds. f < desc_end x div ?P"
    using inv by (auto simp: new_at_inv_def)
  have S: "\<And>x. x \<in> set ds \<Longrightarrow> desc_end x \<le> ?S" "?P dvd ?S" "?P dvd ?E"
    using asc desc_end_dvd by (auto simp: ascending_map_def sorted_wrt_append)
  have E: "?S \<le> ?E" "?E \<le> MAX_PHYSICAL_MEMORY_BYTES" using fits by (auto simp: fits_bitmap_def desc_end_def)
  have ae: "ae \<le> ?S" using I(5) S(1) by auto
  obtain m1 where m1: "(if ae < ?S then mark_allocated m (ae div ?P) ((?S - ae) div ?P) else Inr m) = Inr m1"
      "n_frames m1 = FRAME_COUNT" "used m1 = used m \<union> {ae div ?P..<?S div ?P}"
    using mark_region [OF I(1,2) S(2) ae] E ae I(1) by (cases "ae < ?S") auto
  have below: "f < ?S div ?P" if "f \<in> used m" for f
    using I(7) [OF that] S(1) div_le_mono less_le_trans by blast
  have avail: "f < ae div ?P" if "f \<in> available_frames ds" for f
    using that I(4) by (auto simp: available_frames_def desc_frames_def) (meson div_le_mono less_le_trans)
  have bytes: "unat (md_num_pages d) * UEFI_PAGE_SIZE = ?E - ?S" by (simp add: desc_end_def)
  have ov: "?E - ?S < usize_bound" "?S + (?E - ?S) < usize_bound" using E by (auto simp: frame_consts)
  show ?thesis
  proof (cases "is_available d")
    case True
    have "new_at_step d (m, ae) = Inr (m1, ?E)"
      using m1(1) bytes ov E(1) True by (simp add: new_at_step_def desc_start_def [symmetric] Let_def res_simps)
    moreover have "new_at_inv (ds @ [d]) (m1, ?E)"
      unfolding new_at_inv_def prod.case
    proof (intro conjI ballI allI impI)
      show "f \<in> used m1 \<longleftrightarrow> f \<notin> available_frames (ds @ [d])" if "f < ?E div ?P" for f
        using that below [of f] avail [of f] I(6) [of f] True div_le_mono [OF ae, of ?P] m1(3)
        by (auto simp: available_frames_snoc desc_frames_def not_less)
      show "\<exists>x \<in> set (ds @ [d]). f < desc_end x div ?P" if "f \<in> used m1" for f
        using that below [of f] m1(3) div_le_mono [OF E(1), of ?P] by auto
    qed (use m1 S E I(4) ae True in \<open>auto intro: order.trans\<close>)
    ultimately show ?thesis by blast
  next
    case False
    from mark_region [OF m1(2) S(2,3) E] obtain m2 where
      m2: "mark_allocated m1 (?S div ?P) ((?E - ?S) div ?P) = Inr m2" "n_frames m2 = FRAME_COUNT"
        "used m2 = used m1 \<union> {?S div ?P..<?E div ?P}" by blast
    have "new_at_step d (m, ae) = Inr (m2, ae)"
      using m1(1) m2(1) bytes ov E(1) False
      by (simp add: new_at_step_def desc_start_def [symmetric] Let_def res_simps)
    moreover have "new_at_inv (ds @ [d]) (m2, ae)"
      unfolding new_at_inv_def prod.case
    proof (intro conjI ballI allI impI)
      show "f \<in> used m2 \<longleftrightarrow> f \<notin> available_frames (ds @ [d])" if "f < ae div ?P" for f
        using that I(6) [of f] False div_le_mono [OF ae, of ?P] m1(3) m2(3)
        by (auto simp: available_frames_snoc)
      show "\<exists>x \<in> set (ds @ [d]). f < desc_end x div ?P" if "f \<in> used m2" for f
        using that below [of f] m1(3) m2(3) div_le_mono [OF E(1), of ?P] by auto
    qed (use m2 I(2-5) False in auto)
    ultimately show ?thesis by blast
  qed
qed

lemma ascending_prefix: "ascending_map (xs @ ys) \<Longrightarrow> ascending_map xs"
  by (auto simp: ascending_map_def sorted_wrt_append)

lemma fits_prefix: "fits_bitmap (xs @ ys) \<Longrightarrow> fits_bitmap xs"
  by (auto simp: fits_bitmap_def)

lemma used_fresh: "used \<lparr>alloc_map = replicate k 0, available_range = r\<rparr> = {}"
  by (auto simp: used_def in_use_def)

lemma new_at_fold:
  assumes "ascending_map ds" "fits_bitmap ds"
  shows "\<exists>r. foldM new_at_step ds
      (\<lparr>alloc_map = replicate (FRAME_COUNT div 8) 0, available_range = (0, 0)\<rparr>, 0) = Inr r
    \<and> new_at_inv ds r"
proof (rule foldM_rule)
  show "new_at_inv [] (\<lparr>alloc_map = replicate (FRAME_COUNT div 8) 0, available_range = (0, 0)\<rparr>, 0)"
    by (simp add: new_at_inv_def used_fresh) (simp add: n_frames_def frame_consts)
next
  fix pre d todo and r :: "bitmap_mm \<times> nat"
  assume ds: "ds = pre @ d # todo" and inv: "new_at_inv pre r"
  have "ascending_map (pre @ [d])" "fits_bitmap (pre @ [d])"
    using assms ascending_prefix [of "pre @ [d]" todo] fits_prefix [of "pre @ [d]" todo] ds by auto
  from new_at_step_inv [OF this, of "fst r" "snd r"] inv
  show "\<exists>r'. new_at_step d r = Inr r' \<and> new_at_inv (pre @ [d]) r'" by simp
qed

text \<open>A run that leaves the bitmap is an index out of bounds.\<close>

lemma set_bit_frame_outside: "n_frames m \<le> f \<Longrightarrow> set_bit_frame m f b = Inl IndexOutOfBounds"
  using frame_line_less [of f m] by (simp add: set_bit_frame_def index_def Let_def)

lemma mark_allocated_outside:
  assumes "n_frames m < s + n" "s + n < usize_bound" "0 < n"
  shows "mark_allocated m s n = Inl IndexOutOfBounds"
proof -
  let ?k = "max s (n_frames m)"
  have "[s..<s + n] = [s..<?k] @ ?k # [Suc ?k..<s + n]"
    using assms upt_add_eq_append [of s ?k "s + n - ?k"] by (simp add: upt_conv_Cons)
  moreover obtain m' where "foldM (\<lambda>frame m. set_bit_frame m frame True) [s..<?k] m = Inr m'"
      "n_frames m' = n_frames m"
  proof (cases "s \<le> n_frames m")
    case True
    then show thesis using set_bits_run [of ?k m True s] that by auto
  next
    case False
    then show thesis using that [of m] by simp
  qed
  ultimately show ?thesis
    using assms(2) by (simp add: mark_allocated_def res_simps foldM_append set_bit_frame_outside)
qed

text \<open>The step of \<^verbatim>\<open>new_at\<close> on a region above the bitmap.\<close>

lemma new_at_step_high:
  assumes n: "n_frames m = FRAME_COUNT" "BYTES_PER_FRAME dvd ae" "ae \<le> MAX_PHYSICAL_MEMORY_BYTES"
    and dvd: "BYTES_PER_FRAME dvd desc_start d"
    and d: "\<not> is_available d" "MAX_PHYSICAL_MEMORY_BYTES \<le> desc_start d" "0 < md_num_pages d"
      "desc_end d < usize_bound"
  shows "new_at_step d (m, ae) = Inl IndexOutOfBounds"
proof -
  let ?P = BYTES_PER_FRAME and ?S = "desc_start d"
  have pages: "0 < unat (md_num_pages d)" using d(3) by (simp add: word_less_nat_alt)
  have S: "FRAME_COUNT \<le> ?S div ?P" unfolding FRAME_COUNT_def by (rule div_le_mono [OF d(2)])
  have E: "?S + unat (md_num_pages d) * UEFI_PAGE_SIZE < usize_bound"
    using d(4) by (simp add: desc_end_def)
  have pg: "unat (md_num_pages d) * UEFI_PAGE_SIZE div ?P = unat (md_num_pages d)"
    by (simp add: UEFI_PAGE_SIZE_def BYTES_PER_FRAME_def KB_def)
  have region: "mark_allocated m' (?S div ?P) (unat (md_num_pages d)) = Inl IndexOutOfBounds"
    if "n_frames m' = FRAME_COUNT" for m'
    using mark_allocated_outside [of m' "?S div ?P" "unat (md_num_pages d)"] S pages E that
    by (simp add: frame_consts)
  show ?thesis
  proof (cases "ae < ?S")
    case True
    have run: "ae div ?P + (?S - ae) div ?P = ?S div ?P"
      using n(2) dvd True by (metis div_plus_div_distrib_dvd_left le_add_diff_inverse less_imp_le)
    show ?thesis
    proof (cases "?S div ?P = FRAME_COUNT")
      case True': True
      have "n_frames m < usize_bound" using n(1) by (simp add: frame_consts)
      with mark_allocated_spec [of "ae div ?P" "(?S - ae) div ?P" m] run True' n(1)
      obtain m1 where "mark_allocated m (ae div ?P) ((?S - ae) div ?P) = Inr m1" "n_frames m1 = FRAME_COUNT"
        by auto
      then show ?thesis using True E d(1) region [of m1] pg
        by (simp add: new_at_step_def desc_start_def [symmetric] Let_def res_simps)
    next
      case False
      with S have "FRAME_COUNT < ?S div ?P" by simp
      moreover have "?S div ?P < usize_bound" using E by (simp add: frame_consts)
      moreover have "0 < (?S - ae) div ?P"
        using calculation(1) run div_frame_le [OF n(3)] by simp
      ultimately have "mark_allocated m (ae div ?P) ((?S - ae) div ?P) = Inl IndexOutOfBounds"
        using mark_allocated_outside [of m "ae div ?P" "(?S - ae) div ?P"] run n(1) by simp
      then show ?thesis using True
        by (simp add: new_at_step_def desc_start_def [symmetric] Let_def)
    qed
  next
    case False
    then show ?thesis using E d(1) region [OF n(1)] pg
      by (simp add: new_at_step_def desc_start_def [symmetric] Let_def res_simps)
  qed
qed

lemma new_at_total:
  assumes "ascending_map ds" and "fits_bitmap ds"
  shows "\<exists>m. new_at ds = Inr m \<and> mm_inv m \<and> n_frames m = FRAME_COUNT \<and> fst (available_range m) = 1
    \<and> (\<forall>f \<in> available_frames ds. f < snd (available_range m))
    \<and> (\<forall>f < snd (available_range m). in_use m f \<longleftrightarrow> f \<notin> available_frames ds)"
proof -
  from new_at_fold [OF assms] obtain m ae where
    r: "foldM new_at_step ds
      (\<lparr>alloc_map = replicate (FRAME_COUNT div 8) 0, available_range = (0, 0)\<rparr>, 0) = Inr (m, ae)"
    and inv: "new_at_inv ds (m, ae)" by auto
  let ?m = "m\<lparr>available_range := (1, ae div BYTES_PER_FRAME)\<rparr>"
  have n: "n_frames ?m = FRAME_COUNT" and u: "in_use ?m f = in_use m f" for f
    using inv by (auto simp: new_at_inv_def n_frames_def in_use_def)
  have "ae div BYTES_PER_FRAME \<le> FRAME_COUNT" using inv div_frame_le by (auto simp: new_at_inv_def)
  moreover have "FRAME_COUNT < usize_bound - 1" by (simp add: frame_consts)
  ultimately have "mm_inv ?m" using n by (simp add: mm_inv_def)
  moreover have "new_at ds = Inr ?m" using r by (simp add: new_at_def)
  moreover have "f < ae div BYTES_PER_FRAME" if "f \<in> available_frames ds" for f
    using that inv by (auto simp: available_frames_def desc_frames_def new_at_inv_def)
      (meson div_le_mono less_le_trans)
  ultimately show ?thesis using inv n u by (auto simp: new_at_inv_def used_def)
qed

section \<open>Properties\<close>

text \<open>
  (C12) Frame allocation is correct. In a bitmap whose managed range lies inside it, a request for
  \<open>n\<close> frames that does not exceed the end of the range always returns. When it returns a frame, the
  run that starts there lies inside the range, was entirely free, is the first such run, and exactly
  its frames become used. When it returns nothing, the bitmap is unchanged and every run that ends
  before the last managed frame contains a used frame.
\<close>

theorem allocate_correct:
  assumes "mm_inv m" and "n \<le> snd (available_range m)"
  shows "\<exists>r m'. mm_allocate m n = Inr (r, m') \<and> mm_inv m' \<and> available_range m' = available_range m \<and>
    (case r of
       Some s \<Rightarrow> fst (available_range m) \<le> s \<and> s + n < snd (available_range m)
         \<and> {s..<s + n} \<inter> used m = {} \<and> used m' = used m \<union> {s..<s + n}
         \<and> (\<forall>s'. fst (available_range m) \<le> s' \<and> s' < s \<longrightarrow> {s'..<s' + n} \<inter> used m \<noteq> {})
     | None \<Rightarrow> m' = m \<and> (\<forall>s. fst (available_range m) \<le> s \<and> s + n < snd (available_range m)
         \<longrightarrow> {s..<s + n} \<inter> used m \<noteq> {}))"
proof -
  from mm_allocate_spec [OF assms] obtain r m' where
    r: "mm_allocate m n = Inr (r, m')" "alloc_post m n (fst (available_range m)) (r, m')" by auto
  have busy: "busy m n s \<longleftrightarrow> {s..<s + n} \<inter> used m \<noteq> {}" for s
    by (auto simp: busy_def used_def)
  show ?thesis
    using r assms(1) by (cases r) (auto simp: alloc_post_def busy mm_inv_def)
qed

theorem allocate_correct_witness:
  "\<exists>r m'. mm_allocate \<lparr>alloc_map = [3, 0], available_range = (1, 16)\<rparr> 4 = Inr (r, m') \<and> mm_inv m'"
proof -
  let ?m = "\<lparr>alloc_map = [3, 0], available_range = (1, 16)\<rparr> :: bitmap_mm"
  have "mm_inv ?m" "4 \<le> snd (available_range ?m)"
    by (simp_all add: mm_inv_def n_frames_def usize_bound_def)
  from allocate_correct [OF this] show ?thesis by blast
qed

text \<open>
  The last run is never handed out. When every managed frame is free, a request for all of them
  fails: the search stops before the run that ends at the end of the range, since \<^verbatim>\<open>allocate\<close> tests
  \<^verbatim>\<open>start < range.1 - nframes\<close> with a strict comparison.
\<close>

theorem allocate_misses_last_run:
  assumes "mm_inv m" and "fst (available_range m) < snd (available_range m)"
    and "used m \<inter> managed_frames m = {}"
  shows "mm_allocate m (snd (available_range m) - fst (available_range m)) = Inr (None, m)"
proof -
  let ?n = "snd (available_range m) - fst (available_range m)"
  from mm_allocate_spec [OF assms(1), of ?n] obtain r m' where
    r: "mm_allocate m ?n = Inr (r, m')" "alloc_post m ?n (fst (available_range m)) (r, m')" by auto
  then show ?thesis using assms(2) by (cases r) (auto simp: alloc_post_def)
qed

theorem allocate_misses_last_run_witness:
  "mm_allocate \<lparr>alloc_map = [0, 0], available_range = (1, 16)\<rparr> 15
     = Inr (None, \<lparr>alloc_map = [0, 0], available_range = (1, 16)\<rparr>)"
proof -
  let ?m = "\<lparr>alloc_map = [0, 0], available_range = (1, 16)\<rparr> :: bitmap_mm"
  have "used ?m = {}" using used_fresh [of 2 "(1, 16)"] by (simp add: numeral_2_eq_2)
  then have "mm_inv ?m" "fst (available_range ?m) < snd (available_range ?m)"
      "used ?m \<inter> managed_frames ?m = {}"
    by (simp_all add: mm_inv_def n_frames_def usize_bound_def)
  from allocate_misses_last_run [OF this] show ?thesis by simp
qed

text \<open>
  (C11) Initialisation from the firmware's memory map. For an ascending, page-aligned map without
  overlaps that ends below 128 GiB, \<^verbatim>\<open>new_at\<close> returns a well-formed manager whose range holds every
  frame of an available region, and a frame of that range is free exactly when it belongs to an
  available region.
\<close>

theorem new_at_correct:
  assumes "ascending_map ds" and "fits_bitmap ds"
  shows "\<exists>m. new_at ds = Inr m \<and> mm_inv m \<and> n_frames m = FRAME_COUNT \<and> fst (available_range m) = 1
    \<and> (\<forall>f \<in> available_frames ds. f < snd (available_range m))
    \<and> (\<forall>f < snd (available_range m). in_use m f \<longleftrightarrow> f \<notin> available_frames ds)"
  using assms by (rule new_at_total)

theorem new_at_correct_witness:
  "let d = \<lparr>md_type = EfiConventionalMemory, md_physical_start = 4096, md_virtual_start = 0,
            md_num_pages = 3, md_attribute = 15\<rparr>;
       e = \<lparr>md_type = EfiLoaderData, md_physical_start = 0x5000, md_virtual_start = 0,
            md_num_pages = 2, md_attribute = 15\<rparr>
   in \<exists>m. new_at [d, e] = Inr m \<and> mm_inv m \<and> n_frames m = FRAME_COUNT \<and> fst (available_range m) = 1"
proof -
  let ?d = "\<lparr>md_type = EfiConventionalMemory, md_physical_start = 4096, md_virtual_start = 0,
            md_num_pages = 3, md_attribute = 15\<rparr>"
  let ?e = "\<lparr>md_type = EfiLoaderData, md_physical_start = 0x5000, md_virtual_start = 0,
            md_num_pages = 2, md_attribute = 15\<rparr>"
  have "ascending_map [?d, ?e]" "fits_bitmap [?d, ?e]"
    by (simp_all add: ascending_map_def fits_bitmap_def desc_start_def desc_end_def frame_consts)
  from new_at_correct [OF this] show ?thesis by (simp add: Let_def) blast
qed

text \<open>
  A reserved region above 128 GiB stops the kernel. When the map contains, after a prefix that
  fits, a non-empty region that is not available and starts at or above the limit of the bitmap,
  \<^verbatim>\<open>new_at\<close> panics with an index out of bounds.
\<close>

theorem new_at_high_region_panics:
  assumes "ascending_map (ds @ [d])" and "fits_bitmap ds" and "\<not> is_available d"
    and "MAX_PHYSICAL_MEMORY_BYTES \<le> desc_start d" and "0 < md_num_pages d"
    and "desc_end d < usize_bound"
  shows "new_at (ds @ d # rest) = Inl IndexOutOfBounds"
proof -
  from new_at_fold [OF ascending_prefix [OF assms(1)] assms(2)] obtain m ae where
    r: "foldM new_at_step ds
      (\<lparr>alloc_map = replicate (FRAME_COUNT div 8) 0, available_range = (0, 0)\<rparr>, 0) = Inr (m, ae)"
    and inv: "new_at_inv ds (m, ae)" by auto
  have "n_frames m = FRAME_COUNT" "BYTES_PER_FRAME dvd ae" "ae \<le> MAX_PHYSICAL_MEMORY_BYTES"
    using inv by (auto simp: new_at_inv_def)
  moreover have "BYTES_PER_FRAME dvd desc_start d" using assms(1) by (auto simp: ascending_map_def)
  ultimately have "new_at_step d (m, ae) = Inl IndexOutOfBounds"
    using new_at_step_high assms(3-6) by blast
  with r show ?thesis by (simp add: new_at_def foldM_append)
qed

theorem new_at_high_region_panics_witness:
  "new_at [\<lparr>md_type = EfiMemoryMappedIO, md_physical_start = 0xFD00000000, md_virtual_start = 0,
            md_num_pages = 1, md_attribute = 1\<rparr>] = Inl IndexOutOfBounds"
proof -
  let ?d = "\<lparr>md_type = EfiMemoryMappedIO, md_physical_start = 0xFD00000000, md_virtual_start = 0,
            md_num_pages = 1, md_attribute = 1\<rparr>"
  have "ascending_map ([] @ [?d])" "fits_bitmap []" "\<not> is_available ?d"
      "MAX_PHYSICAL_MEMORY_BYTES \<le> desc_start ?d" "0 < md_num_pages ?d" "desc_end ?d < usize_bound"
    by (simp_all add: ascending_map_def fits_bitmap_def is_available_def desc_start_def desc_end_def
        frame_consts)
  from new_at_high_region_panics [OF this, of "[]"] show ?thesis by simp
qed

end
