(* ===== verification/Regions.thy ===== *)
theory Regions
  imports Prelude
begin

text \<open>
  Regions of memory, an address with a length, and lists of regions that do not overlap. The object
  allocator keeps its free blocks, its page headers and the blocks of its clients in such a list;
  the order does not matter, so an operation that moves a block from one owner to another is a
  permutation.
\<close>

type_synonym region = "addr \<times> nat"

definition region_bytes :: "region \<Rightarrow> nat set" where
  "region_bytes r = {fst r..<fst r + snd r}"

definition region_disj :: "region \<Rightarrow> region \<Rightarrow> bool" where
  "region_disj r q \<longleftrightarrow> region_bytes r \<inter> region_bytes q = {}"

definition regions_ok :: "region list \<Rightarrow> bool" where
  "regions_ok rs \<longleftrightarrow> sorted_wrt region_disj rs \<and> (\<forall>r \<in> set rs. 0 < snd r)"

lemma region_disj_sym: "region_disj r q \<longleftrightarrow> region_disj q r"
  by (auto simp: region_disj_def)

lemma regions_ok_Nil [simp]: "regions_ok []"
  by (simp add: regions_ok_def)

lemma regions_ok_Cons [simp]:
  "regions_ok (r # rs) \<longleftrightarrow> 0 < snd r \<and> (\<forall>q \<in> set rs. region_disj r q) \<and> regions_ok rs"
  by (auto simp: regions_ok_def)

lemma regions_ok_append:
  "regions_ok (rs @ qs) \<longleftrightarrow> regions_ok rs \<and> regions_ok qs \<and> (\<forall>r \<in> set rs. \<forall>q \<in> set qs. region_disj r q)"
  by (auto simp: regions_ok_def sorted_wrt_append)

lemma regions_ok_pos: "\<lbrakk>regions_ok rs; r \<in> set rs\<rbrakk> \<Longrightarrow> 0 < snd r"
  by (simp add: regions_ok_def)

lemma regions_ok_perm:
  assumes "mset rs = mset qs"
  shows "regions_ok rs = regions_ok qs"
  using assms
proof (induction rs arbitrary: qs)
  case Nil
  then show ?case by simp
next
  case (Cons r rs)
  from Cons.prems have "r \<in> set qs" by (metis list.set_intros(1) set_mset_mset)
  then obtain xs ys where qs: "qs = xs @ r # ys" by (auto simp: in_set_conv_decomp)
  with Cons.prems have rs: "mset rs = mset (xs @ ys)" by simp
  then have "set rs = set xs \<union> set ys" by (metis set_append set_mset_mset)
  then show ?case using Cons.IH [OF rs] qs region_disj_sym
    by (auto simp: regions_ok_append)
qed

lemma regions_ok_distinct:
  assumes "regions_ok rs"
  shows "distinct (map fst rs)"
  using assms
proof (induction rs)
  case Nil
  then show ?case by simp
next
  case (Cons r rs)
  have "fst r \<noteq> fst q" if "q \<in> set rs" for q
  proof
    assume eq: "fst r = fst q"
    have "0 < snd r" "0 < snd q" using Cons.prems that by (auto simp: regions_ok_def)
    with eq have "fst r \<in> region_bytes r \<inter> region_bytes q" by (auto simp: region_bytes_def)
    with Cons.prems that show False by (auto simp: region_disj_def)
  qed
  with Cons show ?case by auto
qed

text \<open>The parts of a page carved into blocks of equal size are disjoint.\<close>

definition blocks :: "addr \<Rightarrow> nat \<Rightarrow> nat \<Rightarrow> addr list" where
  "blocks lo sz n = map (\<lambda>k. lo + k * sz) [0..<n]"

lemma blocks_0 [simp]: "blocks lo sz 0 = []"
  by (simp add: blocks_def)

lemma blocks_Suc: "blocks lo sz (Suc n) = blocks lo sz n @ [lo + n * sz]"
  by (simp add: blocks_def)

lemma blocks_bytes:
  "a \<in> set (blocks lo sz n) \<Longrightarrow> lo \<le> a \<and> region_bytes (a, sz) \<subseteq> {lo..<lo + n * sz}"
proof (induction n)
  case (Suc n)
  then show ?case by (fastforce simp: blocks_Suc region_bytes_def)
qed simp

lemma blocks_regions_ok: "0 < sz \<Longrightarrow> regions_ok (map (\<lambda>a. (a, sz)) (blocks lo sz n))"
proof (induction n)
  case (Suc n)
  have "region_disj (a, sz) (lo + n * sz, sz)" if "a \<in> set (blocks lo sz n)" for a
    using blocks_bytes [OF that] by (auto simp: region_disj_def region_bytes_def)
  with Suc show ?case by (auto simp: blocks_Suc regions_ok_append)
qed simp

lemma blocks_head: "0 < n \<Longrightarrow> lo \<in> set (blocks lo sz n)"
  by (force simp: blocks_def)

section \<open>Replacing one list of a list of lists\<close>

lemma mset_concat_update:
  assumes "i < length xss"
  shows "mset (concat (xss[i := ys])) + mset (xss ! i) = mset (concat xss) + mset ys"
proof -
  have "concat xss = concat (take i xss) @ xss ! i @ concat (drop (Suc i) xss)"
    using id_take_nth_drop [OF assms] by (metis concat.simps(2) concat_append)
  moreover have "concat (xss[i := ys]) = concat (take i xss) @ ys @ concat (drop (Suc i) xss)"
    using assms by (simp add: upd_conv_take_nth_drop)
  ultimately show ?thesis by simp
qed

lemma distinct_concat_disjoint:
  assumes "distinct (concat xss)" "i < length xss" "j < length xss" "i \<noteq> j"
  shows "set (xss ! i) \<inter> set (xss ! j) = {}"
  using assms
proof (induction xss arbitrary: i j)
  case (Cons xs xss)
  have sub: "set (xss ! k) \<subseteq> set (concat xss)" if "k < length xss" for k
    using that by (auto intro: nth_mem)
  from Cons.prems(1) have d: "distinct (concat xss)" "set xs \<inter> set (concat xss) = {}"
    by (simp_all add: distinct_append)
  show ?case
  proof (cases i)
    case 0
    with Cons.prems obtain k where "j = Suc k" by (cases j) auto
    with 0 Cons.prems sub [of k] d show ?thesis by auto
  next
    case (Suc k)
    show ?thesis
    proof (cases j)
      case 0
      with Suc Cons.prems sub [of k] d show ?thesis by auto
    next
      case (Suc l)
      with \<open>i = Suc k\<close> Cons.IH [of k l] Cons.prems d show ?thesis by simp
    qed
  qed
qed simp

lemma distinct_concat_nth: "\<lbrakk>distinct (concat xss); i < length xss\<rbrakk> \<Longrightarrow> distinct (xss ! i)"
proof (induction xss arbitrary: i)
  case (Cons xs xss)
  then show ?case by (cases i) auto
qed simp

end
