(* ===== verification/Object_Allocator.thy ===== *)
theory Object_Allocator
  imports Frame_Allocator Regions
begin

text \<open>
  The global allocator \<^verbatim>\<open>ObjectAllocator\<close> of \<^verbatim>\<open>kernel/src/memory_manager.rs\<close>. Requests above 2048
  bytes are runs of frames. Smaller ones are blocks of one of six sizes; the free blocks of a size
  are a linked list whose links are stored in the blocks themselves, and an empty list is refilled
  by carving up a fresh frame.

  The heap is a function from the address of an \<^verbatim>\<open>ObjectHeader\<close> to its \<^verbatim>\<open>next_free\<close> link. Links and the
  data of the clients share the same memory: a client that writes into its block changes the links
  a header at that address would have, which the invariant has to survive. The per-object
  \<^verbatim>\<open>Mutex\<close> is only ever taken by the holder of the allocator's own lock and is not part of the model.
\<close>

section \<open>Model\<close>

definition null :: addr where "null = 0"

type_synonym heap = "addr \<Rightarrow> addr option"

definition N_BLOCK_SIZES :: nat where "N_BLOCK_SIZES = 6"

definition BLOCK_SZ :: "nat list" where "BLOCK_SZ = [64, 128, 256, 512, 1024, 2048]"

text \<open>
  \<^verbatim>\<open>size_of::<PageHeader>()\<close>: a pointer, an optional reference and two \<^verbatim>\<open>usize\<close>; inside its \<^verbatim>\<open>Mutex\<close>
  the flag with its padding comes on top. \<^verbatim>\<open>Mutex<ObjectHeader>\<close> is a flag and a link.
\<close>

definition size_of_page_header :: nat where "size_of_page_header = 32"

definition size_of_mutex_page_header :: nat where "size_of_mutex_page_header = 40"

definition size_of_mutex_object_header :: nat where "size_of_mutex_object_header = 16"

record page_header =
  ph_next :: addr
  ph_free_list :: "addr option"
  ph_n_objs :: nat
  ph_obj_sz :: nat

text \<open>A reference to a page header is its address together with what is stored there.\<close>

record object_allocator =
  oa_mem :: bitmap_mm
  oa_heap :: heap
  oa_pages :: "(addr \<times> page_header) list"

record layout =
  layout_size :: nat
  layout_align :: nat

subsection \<open>FreeList\<close>

definition push_front :: "heap \<Rightarrow> addr option \<Rightarrow> addr \<Rightarrow> heap \<times> addr option" where
  "push_front h head obj = (h(obj := head), Some obj)"

definition pop_front :: "heap \<Rightarrow> addr option \<Rightarrow> addr \<times> addr option" where
  "pop_front h head = (case head of None \<Rightarrow> (null, None) | Some a \<Rightarrow> (a, h a))"

partial_function (option) pop_filter_loop :: "(addr \<Rightarrow> bool) \<Rightarrow> heap \<Rightarrow> addr \<Rightarrow> (addr \<times> heap) option" where
  "pop_filter_loop predicate h prev =
     (case h prev of
        None \<Rightarrow> Some (null, h)
      | Some obj \<Rightarrow>
          if predicate obj then Some (obj, h(prev := h obj))
          else pop_filter_loop predicate h obj)"

definition pop_filter ::
    "(addr \<Rightarrow> bool) \<Rightarrow> heap \<Rightarrow> addr option \<Rightarrow> (addr \<times> heap \<times> addr option) option" where
  "pop_filter predicate h head =
     (case head of
        None \<Rightarrow> Some (null, h, None)
      | Some a \<Rightarrow>
          if predicate a then (let (p, head') = pop_front h head in Some (p, h, head'))
          else map_option (\<lambda>(p, h'). (p, h', head)) (pop_filter_loop predicate h a))"

subsection \<open>PageHeader\<close>

text \<open>The loop of \<^verbatim>\<open>new_at\<close> and \<^verbatim>\<open>extend\<close>: push the blocks from the top of the page down to \<open>lo\<close>.\<close>

partial_function (option) carve ::
    "nat \<Rightarrow> nat \<Rightarrow> nat \<Rightarrow> heap \<Rightarrow> addr option \<Rightarrow> (heap \<times> addr option) res option" where
  "carve lo obj_sz ptr h head =
     (if ptr \<ge> lo then
        let (h', head') = push_front h head ptr in
        case usize_sub ptr obj_sz of
          Inl p \<Rightarrow> Some (Inl p)
        | Inr ptr' \<Rightarrow> carve lo obj_sz ptr' h' head'
      else Some (Inr (h, head)))"

definition page_top :: "addr \<Rightarrow> nat \<Rightarrow> nat res" where
  "page_top page obj_sz = rbind (usize_add page BYTES_PER_FRAME) (\<lambda>e. usize_sub e obj_sz)"

definition objs_start :: "addr \<Rightarrow> nat \<Rightarrow> nat res" where
  "objs_start page obj_sz =
     rbind (usize_add size_of_page_header obj_sz) (\<lambda>a.
     rbind (usize_sub a 1) (\<lambda>b.
     if obj_sz = 0 then Inl ArithOverflow
     else rbind (usize_mul (b div obj_sz) obj_sz) (\<lambda>c. usize_add page c)))"

definition page_header_new_at :: "heap \<Rightarrow> addr \<Rightarrow> nat \<Rightarrow> (heap \<times> page_header) res option" where
  "page_header_new_at h page_head obj_sz =
     cbind (Some (objs_start page_head obj_sz)) (\<lambda>lo.
     cbind (Some (page_top page_head obj_sz)) (\<lambda>ptr.
     cbind (carve lo obj_sz ptr h None) (\<lambda>(h', head).
     Some (Inr (h', \<lparr>ph_next = null, ph_free_list = head, ph_n_objs = 0, ph_obj_sz = obj_sz\<rparr>)))))"

definition page_header_extend :: "heap \<Rightarrow> page_header \<Rightarrow> addr \<Rightarrow> (heap \<times> page_header) res option" where
  "page_header_extend h p page =
     cbind (Some (page_top page (ph_obj_sz p))) (\<lambda>ptr.
     cbind (carve page (ph_obj_sz p) ptr h (ph_free_list p)) (\<lambda>(h', head).
     Some (Inr (h', p\<lparr>ph_free_list := head\<rparr>))))"

subsection \<open>ObjectAllocator\<close>

definition oa_new_step :: "nat \<Rightarrow> object_allocator \<Rightarrow> object_allocator res option" where
  "oa_new_step sz s =
     cbind (Some (mm_allocate (oa_mem s) 1)) (\<lambda>(r, m).
     cbind (Some (unwrap r)) (\<lambda>frame.
     cbind (Some (usize_mul frame BYTES_PER_FRAME)) (\<lambda>ptr.
     cbind (page_header_new_at (oa_heap s) ptr sz) (\<lambda>(h, page).
     Some (Inr (s\<lparr>oa_mem := m, oa_heap := h, oa_pages := oa_pages s @ [(ptr, page)]\<rparr>))))))"

definition oa_new :: "bitmap_mm \<Rightarrow> heap \<Rightarrow> object_allocator res option" where
  "oa_new m h = cfoldM oa_new_step BLOCK_SZ \<lparr>oa_mem = m, oa_heap = h, oa_pages = []\<rparr>"

definition size_class :: "nat \<Rightarrow> (nat \<times> nat) option" where
  "size_class n = List.find (\<lambda>(_, sz). sz > n) (enumerate 0 BLOCK_SZ)"

definition frames_for :: "nat \<Rightarrow> nat res" where
  "frames_for sz = rbind (usize_add sz BYTES_PER_FRAME) (\<lambda>a.
     rbind (usize_sub a 1) (\<lambda>b. Inr (b div BYTES_PER_FRAME)))"

definition is_aligned :: "layout \<Rightarrow> addr \<Rightarrow> bool" where
  "is_aligned l ptr \<longleftrightarrow> ptr mod layout_align l = 0"

definition oa_alloc_large :: "object_allocator \<Rightarrow> layout \<Rightarrow> (addr \<times> object_allocator) res" where
  "oa_alloc_large s l =
     (if layout_align l > BYTES_PER_FRAME then Inl Unimplemented
      else rbind (frames_for (layout_size l)) (\<lambda>n.
           rbind (mm_allocate (oa_mem s) n) (\<lambda>(r, m).
             case r of
               None \<Rightarrow> Inr (null, s\<lparr>oa_mem := m\<rparr>)
             | Some fid \<Rightarrow> rbind (usize_mul fid BYTES_PER_FRAME) (\<lambda>p. Inr (p, s\<lparr>oa_mem := m\<rparr>)))))"

definition oa_alloc_small :: "object_allocator \<Rightarrow> layout \<Rightarrow> nat \<Rightarrow> (addr \<times> object_allocator) res option" where
  "oa_alloc_small s l i =
     cbind (Some (index (oa_pages s) i)) (\<lambda>(pa, page).
     cbind (map_option Inr (pop_filter (is_aligned l) (oa_heap s) (ph_free_list page))) (\<lambda>(a, h, head).
     let s = s\<lparr>oa_heap := h, oa_pages := (oa_pages s)[i := (pa, page\<lparr>ph_free_list := head\<rparr>)]\<rparr>;
         page = page\<lparr>ph_free_list := head\<rparr>
     in if a = null then
          cbind (Some (mm_allocate (oa_mem s) 1)) (\<lambda>(r, m).
          case r of
            None \<Rightarrow> Some (Inr (null, s\<lparr>oa_mem := m\<rparr>))
          | Some p \<Rightarrow>
              cbind (Some (usize_mul p BYTES_PER_FRAME)) (\<lambda>frame.
              cbind (page_header_extend (oa_heap s) page frame) (\<lambda>(h, page).
              cbind (map_option Inr (pop_filter (is_aligned l) h (ph_free_list page))) (\<lambda>(a, h, head).
              Some (Inr (a, s\<lparr>oa_mem := m, oa_heap := h,
                oa_pages := (oa_pages s)[i := (pa, page\<lparr>ph_free_list := head\<rparr>)]\<rparr>))))))
        else Some (Inr (a, s))))"

definition oa_alloc :: "object_allocator \<Rightarrow> layout \<Rightarrow> (addr \<times> object_allocator) res option" where
  "oa_alloc s l =
     (if layout_size l > 2048 then Some (oa_alloc_large s l)
      else case size_class (layout_size l) of
             None \<Rightarrow> Some (Inr (null, s))
           | Some (i, _) \<Rightarrow> oa_alloc_small s l i)"

definition oa_dealloc :: "object_allocator \<Rightarrow> addr \<Rightarrow> layout \<Rightarrow> object_allocator res" where
  "oa_dealloc s ptr l =
     (if layout_size l > 2048 then
        rbind (frames_for (layout_size l)) (\<lambda>n.
        rbind (mm_free (oa_mem s) (ptr div BYTES_PER_FRAME) n) (\<lambda>m. Inr (s\<lparr>oa_mem := m\<rparr>)))
      else rbind (unwrap (size_class (layout_size l))) (\<lambda>(i, _).
           rbind (index (oa_pages s) i) (\<lambda>(pa, page).
           let (h, head) = push_front (oa_heap s) (ph_free_list page) ptr in
           Inr (s\<lparr>oa_heap := h, oa_pages := (oa_pages s)[i := (pa, page\<lparr>ph_free_list := head\<rparr>)]\<rparr>))))"

end
