(* ===== verification/Object_Allocator_Inv.thy ===== *)
theory Object_Allocator_Inv
  imports Object_Allocator
begin

text \<open>
  The invariant of the object allocator and its preservation. The free blocks of every size, the page
  headers and the blocks owned by clients are pairwise disjoint regions inside frames that the frame
  allocator has marked as used; the links of each free list, read from memory, are exactly its free
  blocks. Writes of clients into their own blocks cannot disturb it.
\<close>

section \<open>Free lists in memory\<close>

text \<open>\<open>flist h head xs\<close>: following the links from \<open>head\<close> visits exactly \<open>xs\<close>.\<close>

fun flist :: "heap \<Rightarrow> addr option \<Rightarrow> addr list \<Rightarrow> bool" where
  "flist h head [] \<longleftrightarrow> head = None"
| "flist h head (x # xs) \<longleftrightarrow> head = Some x \<and> flist h (h x) xs"

lemma flist_cong: "(\<And>x. x \<in> set xs \<Longrightarrow> h' x = h x) \<Longrightarrow> flist h' head xs = flist h head xs"
  by (induction xs arbitrary: head) auto

lemma flist_upd [simp]: "a \<notin> set xs \<Longrightarrow> flist (h(a := v)) head xs = flist h head xs"
  by (rule flist_cong) auto

lemma flist_unlink:
  assumes "flist h head (ys @ prev # x # zs)" "distinct (ys @ prev # x # zs)"
  shows "flist (h(prev := h x)) head (ys @ prev # zs)"
  using assms by (induction ys arbitrary: head) auto

text \<open>\<^verbatim>\<open>pop_filter\<close> unlinks the first block that satisfies the predicate, or changes nothing.\<close>

definition popped :: "(addr \<Rightarrow> bool) \<Rightarrow> heap \<Rightarrow> addr option \<Rightarrow> addr list \<Rightarrow> addr \<times> heap \<times> addr option \<Rightarrow> bool" where
  "popped P h head xs r \<longleftrightarrow>
     (if \<exists>x \<in> set xs. P x
      then \<exists>ys a zs h' head'. xs = ys @ a # zs \<and> P a \<and> (\<forall>y \<in> set ys. \<not> P y) \<and> r = (a, h', head')
        \<and> flist h' head' (ys @ zs) \<and> (\<forall>x. x \<notin> set xs \<longrightarrow> h' x = h x)
      else r = (null, h, head))"

lemma poppedI:
  assumes "xs = ys @ a # zs" "P a" "\<forall>y \<in> set ys. \<not> P y" "flist h' head' (ys @ zs)"
    "\<forall>x. x \<notin> set xs \<longrightarrow> h' x = h x"
  shows "popped P h head xs (a, h', head')"
proof -
  have "\<exists>x \<in> set xs. P x" using assms(1,2) by auto
  then show ?thesis unfolding popped_def using assms by (simp only: if_True) blast
qed

lemma poppedE:
  assumes "popped P h head xs r" "\<exists>x \<in> set xs. P x"
  obtains ys a zs h' head' where "xs = ys @ a # zs" "P a" "r = (a, h', head')"
    "flist h' head' (ys @ zs)" "\<forall>x. x \<notin> set xs \<longrightarrow> h' x = h x"
proof -
  from assms(1) have "\<exists>ys a zs h' head'. xs = ys @ a # zs \<and> P a \<and> (\<forall>y \<in> set ys. \<not> P y) \<and> r = (a, h', head')
        \<and> flist h' head' (ys @ zs) \<and> (\<forall>x. x \<notin> set xs \<longrightarrow> h' x = h x)"
    unfolding popped_def if_P [OF assms(2)] .
  with that show thesis by blast
qed

lemma pop_filter_loop_spec:
  assumes "flist h head (ys @ prev # xs)" "distinct (ys @ prev # xs)" "\<forall>y \<in> set (ys @ [prev]). \<not> P y"
  shows "\<exists>r. pop_filter_loop P h prev = Some r \<and> popped P h head (ys @ prev # xs) (fst r, snd r, head)"
  using assms
proof (induction xs arbitrary: ys prev)
  case Nil
  have "h prev = None" using Nil.prems(1) by (induction ys arbitrary: head) auto
  with Nil.prems(3) show ?case by (subst pop_filter_loop.simps) (auto simp: popped_def)
next
  case (Cons x xs)
  have hp: "h prev = Some x" using Cons.prems(1) by (induction ys arbitrary: head) auto
  show ?case
  proof (cases "P x")
    case True
    have "flist (h(prev := h x)) head (ys @ prev # xs)"
      using flist_unlink [OF Cons.prems(1,2)] .
    moreover have "pop_filter_loop P h prev = Some (x, h(prev := h x))"
      using hp True by (subst pop_filter_loop.simps) simp
    moreover have "popped P h head (ys @ prev # x # xs) (x, h(prev := h x), head)"
      using True Cons.prems calculation(1) by (intro poppedI [of _ "ys @ [prev]" x xs]) auto
    ultimately show ?thesis by simp
  next
    case False
    from Cons.IH [of "ys @ [prev]" x] Cons.prems False hp show ?thesis
      by (subst pop_filter_loop.simps) simp
  qed
qed

lemma pop_filter_spec:
  assumes "flist h head xs" "distinct xs"
  shows "\<exists>r. pop_filter P h head = Some r \<and> popped P h head xs r"
proof (cases xs)
  case Nil
  with assms show ?thesis by (auto simp: pop_filter_def popped_def)
next
  case (Cons x zs)
  then have head: "head = Some x" "flist h (h x) zs" using assms(1) by auto
  show ?thesis
  proof (cases "P x")
    case True
    then have "pop_filter P h head = Some (x, h, h x)"
      using head by (simp add: pop_filter_def pop_front_def)
    moreover have "popped P h head xs (x, h, h x)"
      using True head Cons by (intro poppedI [of _ "[]" x zs]) auto
    ultimately show ?thesis by blast
  next
    case False
    with pop_filter_loop_spec [of h head "[]" x zs P] assms Cons obtain r where
      "pop_filter_loop P h x = Some r" "popped P h head xs (fst r, snd r, head)" by auto
    with False head show ?thesis by (auto simp: pop_filter_def split: prod.splits)
  qed
qed

text \<open>Carving prepends the blocks of the page, lowest address first.\<close>

lemma carve_spec:
  assumes "0 < sz" "sz \<le> lo" "flist h head xs" "set xs \<inter> set (blocks lo sz n) = {}"
    "distinct (blocks lo sz n)"
  shows "\<exists>h' head'. carve lo sz (lo + n * sz - sz) h head = Some (Inr (h', head'))
     \<and> flist h' head' (blocks lo sz n @ xs) \<and> (\<forall>x. x \<notin> set (blocks lo sz n) \<longrightarrow> h' x = h x)"
  using assms(3-5)
proof (induction n arbitrary: h head xs)
  case 0
  have "\<not> lo \<le> lo - sz" using assms(1,2) by simp
  with 0 show ?case by (subst carve.simps) simp
next
  case (Suc n)
  let ?p = "lo + n * sz"
  have p: "lo + Suc n * sz - sz = ?p" "sz \<le> ?p" using assms(2) by simp_all
  have fresh: "?p \<notin> set xs" "?p \<notin> set (blocks lo sz n)" using Suc.prems(2,3) by (auto simp: blocks_Suc)
  have "flist (h(?p := head)) (Some ?p) (?p # xs)" using fresh Suc.prems(1) by simp
  moreover have "set (?p # xs) \<inter> set (blocks lo sz n) = {}" "distinct (blocks lo sz n)"
    using Suc.prems fresh by (auto simp: blocks_Suc)
  ultimately obtain h' head' where
    IH: "carve lo sz (?p - sz) (h(?p := head)) (Some ?p) = Some (Inr (h', head'))"
      "flist h' head' (blocks lo sz n @ ?p # xs)"
      "\<forall>x. x \<notin> set (blocks lo sz n) \<longrightarrow> h' x = (h(?p := head)) x"
    using Suc.IH by blast
  have "carve lo sz ?p h head = Some (Inr (h', head'))"
    using IH(1) p(2) by (subst carve.simps) (simp add: push_front_def res_simps)
  moreover have "flist h' head' (blocks lo sz (Suc n) @ xs)" using IH(2) by (simp add: blocks_Suc)
  moreover have "\<forall>x. x \<notin> set (blocks lo sz (Suc n)) \<longrightarrow> h' x = h x"
    using IH(3) by (simp add: blocks_Suc)
  ultimately show ?case unfolding p(1) by blast
qed

section \<open>The invariant\<close>

text \<open>\<open>fl\<close> lists the free blocks of each size class; \<open>live\<close> the regions that clients own.\<close>

fun free_regs :: "nat list \<Rightarrow> addr list list \<Rightarrow> region list" where
  "free_regs (z # zs) (xs # fl) = map (\<lambda>a. (a, z)) xs @ free_regs zs fl"
| "free_regs _ _ = []"

definition page_regions :: "object_allocator \<Rightarrow> region list" where
  "page_regions s = map (\<lambda>p. (fst p, size_of_mutex_page_header)) (oa_pages s)"

definition oa_regions :: "object_allocator \<Rightarrow> addr list list \<Rightarrow> region list \<Rightarrow> region list" where
  "oa_regions s fl live = free_regs BLOCK_SZ fl @ page_regions s @ live"

definition in_frames :: "bitmap_mm \<Rightarrow> region \<Rightarrow> bool" where
  "in_frames m r \<longleftrightarrow> (\<forall>b \<in> region_bytes r. b div BYTES_PER_FRAME \<in> used m \<inter> managed_frames m)"

text \<open>A live region above 2048 bytes consists of whole frames.\<close>

definition large_ok :: "region list \<Rightarrow> bool" where
  "large_ok live \<longleftrightarrow> (\<forall>(a, z) \<in> set live. 2048 < z \<longrightarrow> BYTES_PER_FRAME dvd a \<and> BYTES_PER_FRAME dvd z)"

definition lists_ok :: "object_allocator \<Rightarrow> addr list list \<Rightarrow> bool" where
  "lists_ok s fl \<longleftrightarrow> length fl = length (oa_pages s) \<and> length fl \<le> length BLOCK_SZ
     \<and> (\<forall>i < length fl. flist (oa_heap s) (ph_free_list (snd (oa_pages s ! i))) (fl ! i)
          \<and> ph_obj_sz (snd (oa_pages s ! i)) = BLOCK_SZ ! i)"

definition oa_layout :: "object_allocator \<Rightarrow> addr list list \<Rightarrow> region list \<Rightarrow> bool" where
  "oa_layout s fl live \<longleftrightarrow> mm_inv (oa_mem s) \<and> n_frames (oa_mem s) \<le> FRAME_COUNT
     \<and> lists_ok s fl \<and> regions_ok (oa_regions s fl live)
     \<and> (\<forall>r \<in> set (oa_regions s fl live). in_frames (oa_mem s) r) \<and> large_ok live"

definition oa_inv :: "object_allocator \<Rightarrow> region list \<Rightarrow> bool" where
  "oa_inv s live \<longleftrightarrow> length (oa_pages s) = N_BLOCK_SIZES \<and> (\<exists>fl. oa_layout s fl live)"

lemma BLOCK_SZ_facts:
  assumes "i < length BLOCK_SZ"
  shows "0 < BLOCK_SZ ! i" "BLOCK_SZ ! i dvd BYTES_PER_FRAME" "BLOCK_SZ ! i \<le> 2048" "64 \<le> BLOCK_SZ ! i"
    "0 < BYTES_PER_FRAME div BLOCK_SZ ! i"
proof -
  have "BLOCK_SZ ! i \<in> {64, 128, 256, 512, 1024, 2048}"
    using nth_mem [OF assms] by (simp add: BLOCK_SZ_def)
  moreover have "BYTES_PER_FRAME = 4096" by (simp add: BYTES_PER_FRAME_def KB_def)
  moreover have "(64::nat) dvd 4096" "(128::nat) dvd 4096" "(256::nat) dvd 4096" "(512::nat) dvd 4096"
      "(1024::nat) dvd 4096" "(2048::nat) dvd 4096" by simp_all
  ultimately show "0 < BLOCK_SZ ! i" "BLOCK_SZ ! i dvd BYTES_PER_FRAME" "BLOCK_SZ ! i \<le> 2048"
      "64 \<le> BLOCK_SZ ! i" "0 < BYTES_PER_FRAME div BLOCK_SZ ! i"
    by auto
qed

lemma length_BLOCK_SZ [simp]: "length BLOCK_SZ = 6" "N_BLOCK_SIZES = 6"
  by (simp_all add: BLOCK_SZ_def N_BLOCK_SIZES_def)

lemma free_regs_fst: "length fl \<le> length zs \<Longrightarrow> map fst (free_regs zs fl) = concat fl"
  by (induction zs fl rule: free_regs.induct) (auto simp: comp_def)

lemma free_regs_update:
  assumes "i < length fl" "length fl \<le> length zs"
  shows "mset (free_regs zs (fl[i := ys])) + mset (map (\<lambda>a. (a, zs ! i)) (fl ! i))
       = mset (free_regs zs fl) + mset (map (\<lambda>a. (a, zs ! i)) ys)"
  using assms
proof (induction zs fl arbitrary: i rule: free_regs.induct)
  case (1 z zs xs fl)
  show ?case
  proof (cases i)
    case (Suc k)
    from 1(1) [of k] 1(2,3) Suc show ?thesis by (simp add: ac_simps)
  qed simp
qed auto

lemma free_regs_snoc:
  "length fl < length zs \<Longrightarrow> free_regs zs (fl @ [ys]) = free_regs zs fl @ map (\<lambda>a. (a, zs ! length fl)) ys"
proof (induction zs arbitrary: fl)
  case (Cons z zs)
  then show ?case by (cases fl) auto
qed simp

lemma free_regs_mem:
  assumes "i < length fl" "length fl \<le> length zs" "a \<in> set (fl ! i)"
  shows "(a, zs ! i) \<in> set (free_regs zs fl)"
  using assms
proof (induction zs fl arbitrary: i rule: free_regs.induct)
  case (1 z zs xs fl)
  then show ?case by (cases i) auto
qed auto

text \<open>All addresses of the regions are different, so the free lists share no block.\<close>

lemma oa_layout_distinct:
  assumes "oa_layout s fl live"
  shows "distinct (concat fl @ map fst (oa_pages s) @ map fst live)"
proof -
  have "map fst (oa_regions s fl live) = concat fl @ map fst (oa_pages s) @ map fst live"
    using assms free_regs_fst [of fl BLOCK_SZ]
    by (auto simp: oa_regions_def page_regions_def oa_layout_def lists_ok_def comp_def)
  moreover have "regions_ok (oa_regions s fl live)" using assms by (simp add: oa_layout_def)
  ultimately show ?thesis using regions_ok_distinct by metis
qed

lemma page_regions_update [simp]:
  "i < length (oa_pages s) \<Longrightarrow>
    page_regions (s\<lparr>oa_pages := (oa_pages s)[i := (fst (oa_pages s ! i), page)]\<rparr>) = page_regions s"
  by (simp add: page_regions_def map_update list_update_same_conv)

section \<open>Transitions of the layout\<close>

text \<open>Size class \<open>i\<close> with new links, a new head and new frames.\<close>

definition upd_class :: "object_allocator \<Rightarrow> nat \<Rightarrow> bitmap_mm \<Rightarrow> heap \<Rightarrow> addr option \<Rightarrow> object_allocator" where
  "upd_class s i m h head = s\<lparr>oa_mem := m, oa_heap := h,
     oa_pages := (oa_pages s)[i := (fst (oa_pages s ! i), snd (oa_pages s ! i)\<lparr>ph_free_list := head\<rparr>)]\<rparr>"

lemma upd_class_simps [simp]:
  "oa_mem (upd_class s i m h head) = m"
  "oa_heap (upd_class s i m h head) = h"
  "length (oa_pages (upd_class s i m h head)) = length (oa_pages s)"
  by (simp_all add: upd_class_def)

lemma page_regions_upd_class [simp]:
  "i < length (oa_pages s) \<Longrightarrow> page_regions (upd_class s i m h head) = page_regions s"
  by (simp add: upd_class_def page_regions_def map_update list_update_same_conv)

text \<open>
  The free list of one class is replaced by one whose links are in place, while the links of the other
  classes stay as they were.
\<close>

lemma lists_ok_update:
  assumes "lists_ok s fl" "i < length fl" "flist h head ys"
    and "\<And>j x. \<lbrakk>j < length fl; j \<noteq> i; x \<in> set (fl ! j)\<rbrakk> \<Longrightarrow> h x = oa_heap s x"
  shows "lists_ok (upd_class s i m h head) (fl[i := ys])"
proof -
  have "flist h (ph_free_list (snd (oa_pages (upd_class s i m h head) ! j))) (fl[i := ys] ! j)
      \<and> ph_obj_sz (snd (oa_pages (upd_class s i m h head) ! j)) = BLOCK_SZ ! j"
    if j: "j < length fl" for j
  proof (cases "j = i")
    case True
    then show ?thesis using assms(1-3) by (simp add: lists_ok_def upd_class_def)
  next
    case False
    have "flist h (ph_free_list (snd (oa_pages s ! j))) (fl ! j)
        = flist (oa_heap s) (ph_free_list (snd (oa_pages s ! j))) (fl ! j)"
      using assms(4) [OF j False] by (rule flist_cong)
    then show ?thesis using False assms(1) j by (simp add: lists_ok_def upd_class_def)
  qed
  then show ?thesis using assms(1) by (simp add: lists_ok_def)
qed

lemma oa_layout_upd_class:
  assumes lay: "oa_layout s fl live" and i: "i < length fl"
    and fl: "flist h head ys"
    and other: "\<And>j x. \<lbrakk>j < length fl; j \<noteq> i; x \<in> set (fl ! j)\<rbrakk> \<Longrightarrow> h x = oa_heap s x"
    and mem: "mm_inv m" "n_frames m \<le> FRAME_COUNT" "used (oa_mem s) \<subseteq> used m"
      "managed_frames m = managed_frames (oa_mem s)"
    and regs: "mset (map (\<lambda>a. (a, BLOCK_SZ ! i)) ys) + mset live'
       = mset new + mset (map (\<lambda>a. (a, BLOCK_SZ ! i)) (fl ! i)) + mset live"
    and new: "regions_ok new" "\<And>r. r \<in> set new \<Longrightarrow> in_frames m r"
      "\<And>r q. \<lbrakk>r \<in> set new; q \<in> set (oa_regions s fl live)\<rbrakk> \<Longrightarrow> region_disj r q"
    and large: "large_ok live'"
  shows "oa_layout (upd_class s i m h head) (fl[i := ys]) live'"
proof -
  let ?s = "upd_class s i m h head"
  have ok: "lists_ok s fl" "length fl \<le> length BLOCK_SZ" "i < length (oa_pages s)"
    using lay i by (auto simp: oa_layout_def lists_ok_def)
  have "mset (free_regs BLOCK_SZ (fl[i := ys])) + mset live' + mset (map (\<lambda>a. (a, BLOCK_SZ ! i)) (fl ! i))
      = mset new + mset (free_regs BLOCK_SZ fl) + mset live + mset (map (\<lambda>a. (a, BLOCK_SZ ! i)) (fl ! i))"
    using free_regs_update [OF i ok(2), of ys] regs by (simp add: ac_simps)
  then have m: "mset (oa_regions ?s (fl[i := ys]) live') = mset (new @ oa_regions s fl live)"
    using ok(3) by (simp add: oa_regions_def ac_simps)
  have "regions_ok (new @ oa_regions s fl live)"
    using new lay by (auto simp: regions_ok_append oa_layout_def)
  with regions_ok_perm [OF m] have "regions_ok (oa_regions ?s (fl[i := ys]) live')" by simp
  moreover have "in_frames m r" if "r \<in> set (oa_regions ?s (fl[i := ys]) live')" for r
  proof -
    from that mset_eq_setD [OF m] have "r \<in> set new \<or> r \<in> set (oa_regions s fl live)" by simp
    moreover have "in_frames (oa_mem s) r \<Longrightarrow> in_frames m r"
      using mem(3,4) by (auto simp: in_frames_def)
    moreover have "\<forall>r \<in> set (oa_regions s fl live). in_frames (oa_mem s) r"
      using lay by (simp add: oa_layout_def)
    ultimately show ?thesis using new(2) by blast
  qed
  moreover have "lists_ok ?s (fl[i := ys])" using lists_ok_update [OF ok(1) i fl other] by simp
  ultimately show ?thesis using mem(1,2) large by (simp add: oa_layout_def)
qed

lemma other_class_distinct:
  assumes "oa_layout s fl live" "i < length fl" "j < length fl" "j \<noteq> i" "x \<in> set (fl ! j)"
  shows "x \<notin> set (fl ! i)"
proof -
  have "distinct (concat fl)" using oa_layout_distinct [OF assms(1)] by simp
  from distinct_concat_disjoint [OF this assms(2,3)] assms(4,5) show ?thesis by blast
qed

lemma class_distinct:
  assumes "oa_layout s fl live" "i < length fl"
  shows "distinct (fl ! i)"
proof -
  have "distinct (concat fl)" using oa_layout_distinct [OF assms(1)] by simp
  then show ?thesis using assms(2) by (rule distinct_concat_nth)
qed

lemma in_frames_nonnull:
  assumes "in_frames m (a, z)" "0 < z" "mm_inv m"
  shows "0 < a"
proof (rule ccontr)
  assume "\<not> 0 < a"
  with assms(2) have "0 \<in> region_bytes (a, z)" by (simp add: region_bytes_def)
  with assms(1) have "0 div BYTES_PER_FRAME \<in> used m \<inter> managed_frames m"
    unfolding in_frames_def by (rule bspec)
  with assms(3) show False by (simp add: mm_inv_def managed_frames_def)
qed

lemma oa_layout_block:
  assumes "oa_layout s fl live" "i < length fl" "a \<in> set (fl ! i)"
  shows "(a, BLOCK_SZ ! i) \<in> set (oa_regions s fl live)" "0 < a"
proof -
  have l: "length fl \<le> length BLOCK_SZ" using assms(1) by (simp add: oa_layout_def lists_ok_def)
  then show mem: "(a, BLOCK_SZ ! i) \<in> set (oa_regions s fl live)"
    using free_regs_mem [OF assms(2) l assms(3)] by (simp add: oa_regions_def)
  then show "0 < a"
    using assms(1,2) l BLOCK_SZ_facts(1) [of i] in_frames_nonnull [of "oa_mem s" a "BLOCK_SZ ! i"]
    by (auto simp: oa_layout_def)
qed

text \<open>Popping moves a block from the free list to the client, or finds none.\<close>

lemma oa_pop_block:
  assumes lay: "oa_layout s fl live" and i: "i < length fl" and ex: "\<exists>x \<in> set (fl ! i). P x"
  shows "\<exists>a h head ys. pop_filter P (oa_heap s) (ph_free_list (snd (oa_pages s ! i))) = Some (a, h, head) \<and> a \<noteq> null \<and> P a
    \<and> mset (fl ! i) = add_mset a (mset ys) \<and> (\<forall>x. x \<notin> set (fl ! i) \<longrightarrow> h x = oa_heap s x)
    \<and> oa_layout (upd_class s i (oa_mem s) h head) (fl[i := ys]) ((a, BLOCK_SZ ! i) # live)"
proof -
  let ?head = "ph_free_list (snd (oa_pages s ! i))"
  have ok: "lists_ok s fl" "length fl \<le> length BLOCK_SZ" using lay by (auto simp: oa_layout_def lists_ok_def)
  then have "flist (oa_heap s) ?head (fl ! i)" using i by (simp add: lists_ok_def)
  from pop_filter_spec [OF this class_distinct [OF lay i], of P] obtain r where
    r: "pop_filter P (oa_heap s) ?head = Some r" "popped P (oa_heap s) ?head (fl ! i) r" by blast
  obtain ys a zs h head where r': "fl ! i = ys @ a # zs" "P a" "r = (a, h, head)"
      "flist h head (ys @ zs)" "\<forall>x. x \<notin> set (fl ! i) \<longrightarrow> h x = oa_heap s x"
    by (rule poppedE [OF r(2) ex])
  have "a \<noteq> null" using oa_layout_block(2) [OF lay i, of a] r'(1) by (simp add: null_def)
  moreover have "oa_layout (upd_class s i (oa_mem s) h head) (fl[i := ys @ zs]) ((a, BLOCK_SZ ! i) # live)"
  proof (rule oa_layout_upd_class [OF lay i r'(4), where new = "[]"])
    show "h x = oa_heap s x" if "j < length fl" "j \<noteq> i" "x \<in> set (fl ! j)" for j x
      using r'(5) other_class_distinct [OF lay i that] by blast
    show "large_ok ((a, BLOCK_SZ ! i) # live)"
      using lay BLOCK_SZ_facts(3) [of i] i ok(2) by (auto simp: oa_layout_def large_ok_def)
  qed (use lay r'(1) in \<open>auto simp: oa_layout_def\<close>)
  ultimately show ?thesis using r(1) r' by (intro exI [of _ a] exI [of _ h] exI [of _ head] exI [of _ "ys @ zs"]) simp
qed

lemma oa_pop:
  assumes lay: "oa_layout s fl live" and i: "i < length fl"
  shows "\<exists>a h head. pop_filter P (oa_heap s) (ph_free_list (snd (oa_pages s ! i))) = Some (a, h, head)
    \<and> (if a = null then upd_class s i (oa_mem s) h head = s \<and> (\<forall>x \<in> set (fl ! i). \<not> P x)
       else P a \<and> (\<exists>ys. oa_layout (upd_class s i (oa_mem s) h head) (fl[i := ys]) ((a, BLOCK_SZ ! i) # live)))"
proof (cases "\<exists>x \<in> set (fl ! i). P x")
  case False
  let ?head = "ph_free_list (snd (oa_pages s ! i))"
  have ok: "lists_ok s fl" "i < length (oa_pages s)" using lay i by (auto simp: oa_layout_def lists_ok_def)
  then have "flist (oa_heap s) ?head (fl ! i)" using i by (simp add: lists_ok_def)
  from pop_filter_spec [OF this class_distinct [OF lay i], of P] False
  have "pop_filter P (oa_heap s) ?head = Some (null, oa_heap s, ?head)" by (auto simp: popped_def)
  moreover have "upd_class s i (oa_mem s) (oa_heap s) ?head = s"
    using ok(2) by (simp add: upd_class_def list_update_same_conv)
  ultimately show ?thesis using False by auto
next
  case True
  from oa_pop_block [OF lay i, of P, OF True] show ?thesis by fastforce
qed

text \<open>Refilling a class with a fresh frame adds the blocks of that frame to its free list.\<close>

lemma mm_allocate_n_frames:
  assumes "mm_inv m" "mm_allocate m n = Inr (r, m')"
  shows "n_frames m' = n_frames m"
  using mm_allocate_spec [OF assms(1) mm_allocate_bound [OF assms(2)]] assms(2)
  by (auto simp: alloc_post_def split: option.splits)

lemma frame_div:
  assumes "b \<in> {f * BYTES_PER_FRAME..<f * BYTES_PER_FRAME + BYTES_PER_FRAME}"
  shows "b div BYTES_PER_FRAME = f"
proof (rule div_nat_eqI)
  show "BYTES_PER_FRAME * f \<le> b" "b < BYTES_PER_FRAME * Suc f"
    using assms by (simp_all add: mult.commute)
qed

lemma fresh_frame_disj:
  assumes "in_frames m q" "f \<notin> used m"
    and "region_bytes r \<subseteq> {f * BYTES_PER_FRAME..<f * BYTES_PER_FRAME + BYTES_PER_FRAME}"
  shows "region_disj r q"
proof -
  have "b \<notin> region_bytes q" if "b \<in> region_bytes r" for b
  proof
    assume "b \<in> region_bytes q"
    with assms(1) have "b div BYTES_PER_FRAME \<in> used m" by (simp add: in_frames_def)
    moreover have "b div BYTES_PER_FRAME = f" using that assms(3) by (intro frame_div) blast
    ultimately show False using assms(2) by simp
  qed
  then show ?thesis by (auto simp: region_disj_def)
qed

lemma frame_no_overflow: "\<lbrakk>f < n_frames m; n_frames m \<le> FRAME_COUNT\<rbrakk> \<Longrightarrow>
    f * BYTES_PER_FRAME + BYTES_PER_FRAME < usize_bound"
  by (simp add: frame_consts)

text \<open>A frame just handed out: in the managed range, not used before, used now.\<close>

lemma one_frame:
  assumes "mm_inv m" "n_frames m \<le> FRAME_COUNT" "mm_allocate m 1 = Inr (Some f, m')"
  shows "mm_inv m'" "n_frames m' \<le> FRAME_COUNT" "0 < f" "f \<notin> used m" "f \<in> managed_frames m"
    "used m' = insert f (used m)" "managed_frames m' = managed_frames m"
    "f * BYTES_PER_FRAME + BYTES_PER_FRAME < usize_bound"
proof -
  note fr = fa.allocate_Some [OF assms(1,3)]
  then show "mm_inv m'" "0 < f" "f \<notin> used m" "f \<in> managed_frames m" "used m' = insert f (used m)"
    "managed_frames m' = managed_frames m" by auto
  show "n_frames m' \<le> FRAME_COUNT" using mm_allocate_n_frames [OF assms(1,3)] assms(2) by simp
  have "f < n_frames m" using fr assms(1) by (auto simp: managed_frames_def mm_inv_def)
  then show "f * BYTES_PER_FRAME + BYTES_PER_FRAME < usize_bound"
    using assms(2) by (rule frame_no_overflow)
qed

text \<open>Blocks carved from a fresh frame: the regions of the layout stay disjoint and in used frames.\<close>

lemma fresh_blocks:
  assumes mem: "mm_inv m" "n_frames m \<le> FRAME_COUNT" "mm_allocate m 1 = Inr (Some f, m')"
    and lo: "f * BYTES_PER_FRAME \<le> lo" "lo + n * sz \<le> f * BYTES_PER_FRAME + BYTES_PER_FRAME" "0 < sz"
  shows "a \<in> set (blocks lo sz n) \<Longrightarrow> in_frames m' (a, sz)"
    and "\<lbrakk>a \<in> set (blocks lo sz n); in_frames m q\<rbrakk> \<Longrightarrow> region_disj (a, sz) q"
    and "\<lbrakk>a \<in> set (blocks lo sz n); in_frames m (b, z); 0 < z\<rbrakk> \<Longrightarrow> a \<noteq> b"
proof -
  have sub: "region_bytes (a, sz) \<subseteq> {f * BYTES_PER_FRAME..<f * BYTES_PER_FRAME + BYTES_PER_FRAME}"
    if "a \<in> set (blocks lo sz n)" for a
    using blocks_bytes [OF that] lo by (meson atLeastLessThan_iff le_trans less_le_trans subset_iff)
  note fr = one_frame [OF mem]
  show "in_frames m' (a, sz)" if "a \<in> set (blocks lo sz n)"
    using sub [OF that] frame_div fr by (auto simp: in_frames_def subset_iff)
  show disj: "region_disj (a, sz) q" if "a \<in> set (blocks lo sz n)" "in_frames m q" for q
    using fresh_frame_disj [OF that(2) fr(4) sub [OF that(1)]] .
  show "a \<noteq> b" if "a \<in> set (blocks lo sz n)" "in_frames m (b, z)" "0 < z"
    using disj [OF that(1,2)] that(3) lo(3) by (auto simp: region_disj_def region_bytes_def)
qed

lemma oa_extend:
  assumes lay: "oa_layout s fl live" and i: "i < length fl"
    and al: "mm_allocate (oa_mem s) 1 = Inr (Some f, m)"
  defines "sz \<equiv> BLOCK_SZ ! i" and "page \<equiv> snd (oa_pages s ! i)" and "p \<equiv> f * BYTES_PER_FRAME"
  shows "\<exists>h head. page_header_extend (oa_heap s) page p = Some (Inr (h, page\<lparr>ph_free_list := head\<rparr>))
    \<and> oa_layout (upd_class s i m h head) (fl[i := blocks p sz (BYTES_PER_FRAME div sz) @ fl ! i]) live"
proof -
  let ?n = "BYTES_PER_FRAME div sz"
  have ok: "lists_ok s fl" "length fl \<le> length BLOCK_SZ" "mm_inv (oa_mem s)"
      "n_frames (oa_mem s) \<le> FRAME_COUNT" and reg: "\<forall>r \<in> set (oa_regions s fl live). in_frames (oa_mem s) r"
    using lay i by (auto simp: oa_layout_def lists_ok_def)
  have "i < length BLOCK_SZ" using i ok(2) by simp
  note sz = BLOCK_SZ_facts [OF this, folded sz_def]
  have n: "?n * sz = BYTES_PER_FRAME" using sz(2) by simp
  note fr = one_frame [OF ok(3,4) al, folded p_def]
  have lo: "f * BYTES_PER_FRAME \<le> p" "p + ?n * sz \<le> f * BYTES_PER_FRAME + BYTES_PER_FRAME"
    using n by (simp_all add: p_def)
  note fresh = fresh_blocks [OF ok(3,4) al lo sz(1)]
  have pg: "flist (oa_heap s) (ph_free_list page) (fl ! i)" "ph_obj_sz page = sz"
    using ok(1) i by (simp_all add: lists_ok_def page_def sz_def)
  have new_disj: "set (fl ! j) \<inter> set (blocks p sz ?n) = {}" if j: "j < length fl" for j
  proof -
    have "x \<notin> set (blocks p sz ?n)" if x: "x \<in> set (fl ! j)" for x
    proof
      assume "x \<in> set (blocks p sz ?n)"
      moreover have "in_frames (oa_mem s) (x, BLOCK_SZ ! j)" "0 < BLOCK_SZ ! j"
        using reg oa_layout_block(1) [OF lay j x] BLOCK_SZ_facts(1) [of j] j ok(2) by auto
      ultimately show False using fresh(3) by blast
    qed
    then show ?thesis by blast
  qed
  have "sz \<le> p"
  proof -
    have "BYTES_PER_FRAME \<le> p" using fr(3) by (simp add: p_def)
    with dvd_imp_le [OF sz(2)] show ?thesis by (simp add: frame_consts)
  qed
  moreover have "distinct (blocks p sz ?n)"
    using regions_ok_distinct [OF blocks_regions_ok [OF sz(1), of p ?n]] by (simp add: comp_def)
  ultimately obtain h head where
    h: "carve p sz (p + ?n * sz - sz) (oa_heap s) (ph_free_list page) = Some (Inr (h, head))"
      "flist h head (blocks p sz ?n @ fl ! i)" "\<forall>x. x \<notin> set (blocks p sz ?n) \<longrightarrow> h x = oa_heap s x"
    using carve_spec [OF sz(1) _ pg(1) new_disj [OF i]] by blast
  have "page_top p sz = Inr (p + ?n * sz - sz)"
    using fr(8) sz(3) n by (simp add: page_top_def res_simps frame_consts)
  then have "page_header_extend (oa_heap s) page p = Some (Inr (h, page\<lparr>ph_free_list := head\<rparr>))"
    using h(1) pg(2) by (simp add: page_header_extend_def)
  moreover have "oa_layout (upd_class s i m h head) (fl[i := blocks p sz ?n @ fl ! i]) live"
  proof (rule oa_layout_upd_class [OF lay i h(2), where new = "map (\<lambda>a. (a, sz)) (blocks p sz ?n)"])
    show "h x = oa_heap s x" if "j < length fl" "j \<noteq> i" "x \<in> set (fl ! j)" for j x
      using h(3) new_disj [OF that(1)] that(3) by blast
    show "regions_ok (map (\<lambda>a. (a, sz)) (blocks p sz ?n))" using sz(1) by (rule blocks_regions_ok)
    show "in_frames m r" if "r \<in> set (map (\<lambda>a. (a, sz)) (blocks p sz ?n))" for r
      using that fresh(1) by auto
    show "region_disj r q" if "r \<in> set (map (\<lambda>a. (a, sz)) (blocks p sz ?n))"
        "q \<in> set (oa_regions s fl live)" for r q
      using that(1) fresh(2) [of _ q] bspec [OF reg that(2)] by auto
  qed (use lay fr in \<open>auto simp: sz_def oa_layout_def\<close>)
  ultimately show ?thesis by blast
qed

section \<open>Small blocks\<close>

lemma upd_class_again [simp]:
  "i < length (oa_pages s) \<Longrightarrow> upd_class (upd_class s i m h head) i m' h' head' = upd_class s i m' h' head'"
  by (simp add: upd_class_def)

lemma oa_inv_upd_class:
  "\<lbrakk>length (oa_pages s) = N_BLOCK_SIZES; oa_layout (upd_class s i m h head) fl live\<rbrakk> \<Longrightarrow>
    oa_inv (upd_class s i m h head) live"
  by (auto simp: oa_inv_def)

text \<open>The managed range is never empty, since the page headers lie in it.\<close>

lemma oa_range_nonempty:
  assumes "oa_layout s fl live" "oa_pages s \<noteq> []"
  shows "1 \<le> snd (available_range (oa_mem s))"
proof -
  let ?r = "(fst (hd (oa_pages s)), size_of_mutex_page_header)"
  have "?r \<in> set (oa_regions s fl live)"
    using assms(2) by (simp add: oa_regions_def page_regions_def)
  then have "in_frames (oa_mem s) ?r" using assms(1) by (auto simp: oa_layout_def)
  moreover have "fst ?r \<in> region_bytes ?r" by (simp add: region_bytes_def size_of_mutex_page_header_def)
  ultimately have "fst ?r div BYTES_PER_FRAME \<in> managed_frames (oa_mem s)"
    unfolding in_frames_def by blast
  then show ?thesis by (simp add: managed_frames_def)
qed

text \<open>No frame below the last one is free.\<close>

definition frames_exhausted :: "bitmap_mm \<Rightarrow> bool" where
  "frames_exhausted m \<longleftrightarrow>
     (\<forall>f. fst (available_range m) \<le> f \<and> f + 1 < snd (available_range m) \<longrightarrow> f \<in> used m)"

lemma allocate_one_None:
  assumes "mm_inv m" "mm_allocate m 1 = Inr (None, m')"
  shows "frames_exhausted m" "m' = m"
  using mm_allocate_spec [OF assms(1) mm_allocate_bound [OF assms(2)]] assms(2)
  by (auto simp: alloc_post_def busy_def frames_exhausted_def used_def)

text \<open>Refilling and popping again: the second search only fails for an alignment above a frame.\<close>

lemma oa_refill:
  assumes lay: "oa_layout s fl live" and i: "i < length fl" and len: "length (oa_pages s) = N_BLOCK_SIZES"
    and al: "mm_allocate (oa_mem s) 1 = Inr (Some f, m)"
  defines "page \<equiv> snd (oa_pages s ! i)"
  shows "\<exists>h1 head1 a h head.
       page_header_extend (oa_heap s) page (f * BYTES_PER_FRAME) = Some (Inr (h1, page\<lparr>ph_free_list := head1\<rparr>))
     \<and> pop_filter P h1 head1 = Some (a, h, head)
     \<and> (if a = null then oa_inv (upd_class s i m h head) live \<and> \<not> P (f * BYTES_PER_FRAME)
        else P a \<and> oa_inv (upd_class s i m h head) ((a, BLOCK_SZ ! i) # live))"
proof -
  let ?p = "f * BYTES_PER_FRAME" and ?sz = "BLOCK_SZ ! i"
  let ?fl = "fl[i := blocks ?p ?sz (BYTES_PER_FRAME div ?sz) @ fl ! i]"
  have li: "i < length (oa_pages s)" "i < length BLOCK_SZ" using lay i by (auto simp: oa_layout_def lists_ok_def)
  from oa_extend [OF lay i al] obtain h1 head1 where
    ext: "page_header_extend (oa_heap s) page ?p = Some (Inr (h1, page\<lparr>ph_free_list := head1\<rparr>))"
    and lay1: "oa_layout (upd_class s i m h1 head1) ?fl live" unfolding page_def by blast
  let ?s1 = "upd_class s i m h1 head1"
  have e: "ph_free_list (snd (oa_pages ?s1 ! i)) = head1" using li by (simp add: upd_class_def)
  have upd: "upd_class ?s1 i m h head = upd_class s i m h head" for h head
    using li by simp
  have "i < length ?fl" using i by simp
  from oa_pop [OF lay1 this, of P, unfolded upd e upd_class_simps] obtain a h head where
    pop: "pop_filter P h1 head1 = Some (a, h, head)"
    and res: "if a = null then upd_class s i m h head = ?s1 \<and> (\<forall>x \<in> set (?fl ! i). \<not> P x)
      else P a \<and> (\<exists>ys. oa_layout (upd_class s i m h head) (?fl[i := ys]) ((a, ?sz) # live))"
    by blast
  have "?p \<in> set (?fl ! i)" using blocks_head [OF BLOCK_SZ_facts(5) [OF li(2)]] i by simp
  moreover have "oa_inv ?s1 live" using lay1 len oa_inv_upd_class by blast
  ultimately show ?thesis using ext pop res len oa_inv_upd_class
    by (intro exI [of _ h1] exI [of _ head1] exI [of _ a] exI [of _ h] exI [of _ head]) (auto split: if_splits)
qed

lemma oa_alloc_small_spec:
  assumes inv: "oa_inv s live" and i: "i < N_BLOCK_SIZES"
  shows "\<exists>a s'. oa_alloc_small s l i = Some (Inr (a, s'))
    \<and> (if a = null then oa_inv s' live
         \<and> (layout_align l dvd BYTES_PER_FRAME \<longrightarrow> frames_exhausted (oa_mem s))
       else layout_align l dvd a \<and> oa_inv s' ((a, BLOCK_SZ ! i) # live))"
proof -
  from inv obtain fl where lay: "oa_layout s fl live" and len: "length (oa_pages s) = N_BLOCK_SIZES"
    by (auto simp: oa_inv_def)
  then have li: "i < length fl" "i < length (oa_pages s)" and mi: "mm_inv (oa_mem s)"
    and ne: "oa_pages s \<noteq> []" using i by (auto simp: oa_layout_def lists_ok_def)
  obtain pa page where pg: "oa_pages s ! i = (pa, page)" by fastforce
  let ?P = "is_aligned l"
  from oa_pop [OF lay li(1), of ?P] pg obtain a h head where
    pop: "pop_filter ?P (oa_heap s) (ph_free_list page) = Some (a, h, head)"
    and res: "if a = null then upd_class s i (oa_mem s) h head = s \<and> (\<forall>x \<in> set (fl ! i). \<not> ?P x)
       else ?P a \<and> (\<exists>ys. oa_layout (upd_class s i (oa_mem s) h head) (fl[i := ys]) ((a, BLOCK_SZ ! i) # live))"
    by auto
  show ?thesis
  proof (cases "a = null")
    case False
    have "oa_alloc_small s l i = Some (Inr (a, upd_class s i (oa_mem s) h head))"
      using pop False li(2) pg by (simp add: oa_alloc_small_def res_simps upd_class_def)
    then show ?thesis using res False len oa_inv_upd_class
      by (auto simp: is_aligned_def dvd_eq_mod_eq_0)
  next
    case True
    then have same: "upd_class s i (oa_mem s) h head = s" using res by simp
    then have hd: "page\<lparr>ph_free_list := head\<rparr> = page" "h = oa_heap s"
        "(oa_pages s)[i := (pa, page\<lparr>ph_free_list := head\<rparr>)] = oa_pages s"
      using li(2) pg by (auto simp: upd_class_def list_update_same_conv dest: arg_cong [where f = oa_pages]
          arg_cong [where f = oa_heap])
    from mm_allocate_spec [OF mi oa_range_nonempty [OF lay ne]] obtain r m where
      al: "mm_allocate (oa_mem s) 1 = Inr (r, m)" by auto
    show ?thesis
    proof (cases r)
      case None
      with al mi have ex: "frames_exhausted (oa_mem s)" "m = oa_mem s" using allocate_one_None by auto
      have "oa_alloc_small s l i = Some (Inr (null, s))"
        using pop True li(2) pg al None ex(2) hd by (simp add: oa_alloc_small_def res_simps)
      then show ?thesis using inv ex by simp
    next
      case (Some f)
      note al = al [unfolded Some]
      from oa_refill [OF lay li(1) len al, of ?P] pg obtain h1 head1 a2 h2 head2 where
        refill: "page_header_extend (oa_heap s) page (f * BYTES_PER_FRAME) = Some (Inr (h1, page\<lparr>ph_free_list := head1\<rparr>))"
          "pop_filter ?P h1 head1 = Some (a2, h2, head2)"
        and res2: "if a2 = null then oa_inv (upd_class s i m h2 head2) live \<and> \<not> ?P (f * BYTES_PER_FRAME)
          else ?P a2 \<and> oa_inv (upd_class s i m h2 head2) ((a2, BLOCK_SZ ! i) # live)" by auto
      have ov: "f * BYTES_PER_FRAME < usize_bound"
        using one_frame(8) [OF mi _ al] lay by (simp add: oa_layout_def)
      have "oa_alloc_small s l i = Some (Inr (a2, upd_class s i m h2 head2))"
        using pop True li(2) pg al refill ov hd
        by (simp add: oa_alloc_small_def res_simps upd_class_def)
      moreover have "?P (f * BYTES_PER_FRAME)" if "layout_align l dvd BYTES_PER_FRAME"
        using that by (simp add: is_aligned_def)
      ultimately show ?thesis using res2 by (auto simp: is_aligned_def dvd_eq_mod_eq_0 split: if_splits)
    qed
  qed
qed

section \<open>Runs of frames\<close>

text \<open>The bytes set aside for a request.\<close>

definition reserved :: "layout \<Rightarrow> nat" where
  "reserved l = (if layout_size l > 2048 then (layout_size l + BYTES_PER_FRAME - 1) div BYTES_PER_FRAME * BYTES_PER_FRAME
     else case size_class (layout_size l) of None \<Rightarrow> 0 | Some (_, sz) \<Rightarrow> sz)"

text \<open>\<^verbatim>\<open>Layout\<close> guarantees an alignment that is a power of two and a size below the address space.\<close>

definition layout_ok :: "layout \<Rightarrow> bool" where
  "layout_ok l \<longleftrightarrow> (\<exists>k. layout_align l = 2 ^ k) \<and> layout_size l < 2 ^ 63"

lemma size_class_Some:
  assumes "n < 2048"
  shows "\<exists>i < N_BLOCK_SIZES. size_class n = Some (i, BLOCK_SZ ! i) \<and> n < BLOCK_SZ ! i"
  using assms by (auto simp: size_class_def BLOCK_SZ_def)

lemma size_class_None: "2048 \<le> n \<Longrightarrow> size_class n = None"
  by (simp add: size_class_def BLOCK_SZ_def)

lemma frames_for_eq:
  assumes "n < 2 ^ 63"
  shows "frames_for n = Inr ((n + BYTES_PER_FRAME - 1) div BYTES_PER_FRAME)"
  using assms by (simp add: frames_for_def res_simps frame_consts)

lemma align_dvd_frame:
  assumes "layout_ok l" "layout_align l \<le> BYTES_PER_FRAME"
  shows "layout_align l dvd BYTES_PER_FRAME"
proof -
  from assms obtain k where k: "layout_align l = 2 ^ k" "(2::nat) ^ k \<le> 2 ^ 12"
    by (auto simp: layout_ok_def frame_consts)
  have "k \<le> 12" using k(2) by (subst (asm) power_increasing_iff) simp_all
  then have "(2::nat) ^ k dvd 2 ^ 12" by (rule le_imp_power_dvd)
  with k show ?thesis by (simp add: frame_consts)
qed

lemma reserved_large_pos:
  assumes "2048 < layout_size l"
  shows "layout_size l \<le> reserved l" "2048 < reserved l" "BYTES_PER_FRAME dvd reserved l"
proof -
  let ?P = BYTES_PER_FRAME and ?n = "layout_size l"
  have P: "0 < ?P" by (simp add: frame_consts)
  have r: "reserved l = (?n + ?P - 1) div ?P * ?P" using assms by (simp add: reserved_def)
  show "BYTES_PER_FRAME dvd reserved l" unfolding r by simp
  have "?n + ?P - 1 < (?n + ?P - 1) div ?P * ?P + ?P" 
    using dividend_less_div_times [OF P, of "?n + ?P - 1"] by (simp only: add.commute)
  then show "?n \<le> reserved l" unfolding r using P by simp
  with assms show "2048 < reserved l" by simp
qed

lemma frames_bytes:
  "b \<in> region_bytes (f * BYTES_PER_FRAME, n * BYTES_PER_FRAME) \<longleftrightarrow> b div BYTES_PER_FRAME \<in> {f..<f + n}"
proof -
  have P: "0 < BYTES_PER_FRAME" by (simp add: frame_consts)
  have "f \<le> b div BYTES_PER_FRAME \<longleftrightarrow> f * BYTES_PER_FRAME \<le> b"
    using less_eq_div_iff_mult_less_eq [OF P] .
  moreover have "b div BYTES_PER_FRAME < f + n \<longleftrightarrow> b < (f + n) * BYTES_PER_FRAME"
    using div_less_iff_less_mult [OF P] .
  ultimately show ?thesis by (auto simp: region_bytes_def add_mult_distrib)
qed

text \<open>A change of the frame allocator alone keeps the layout, as long as every region stays in use.\<close>

lemma oa_layout_mem:
  assumes "oa_layout s fl live" "mm_inv m" "n_frames m \<le> FRAME_COUNT"
    and "mset live' + mset old = mset new + mset live"
    and "regions_ok (new @ oa_regions s fl live)" "large_ok live'"
    and "\<And>r. r \<in> set (oa_regions s fl live') \<Longrightarrow> in_frames m r"
  shows "oa_layout (s\<lparr>oa_mem := m\<rparr>) fl live'"
proof -
  have pr: "oa_regions (s\<lparr>oa_mem := m\<rparr>) fl live' = oa_regions s fl live'"
    by (simp add: oa_regions_def page_regions_def)
  have "mset (old @ oa_regions s fl live') = mset (new @ oa_regions s fl live)"
    using assms(4) by (simp add: oa_regions_def ac_simps)
  from regions_ok_perm [OF this] assms(5) have "regions_ok (oa_regions s fl live')"
    by (simp add: regions_ok_append)
  with assms pr show ?thesis by (simp add: oa_layout_def lists_ok_def)
qed

lemma oa_alloc_large_spec:
  assumes inv: "oa_inv s live" and l: "layout_ok l" "2048 < layout_size l" "layout_align l \<le> BYTES_PER_FRAME"
    and fit: "reserved l div BYTES_PER_FRAME \<le> snd (available_range (oa_mem s))"
  shows "\<exists>p s'. oa_alloc_large s l = Inr (p, s')
    \<and> (if p = null then oa_inv s' live else layout_align l dvd p \<and> oa_inv s' ((p, reserved l) # live))"
proof -
  let ?P = BYTES_PER_FRAME
  let ?n = "(layout_size l + ?P - 1) div ?P"
  have res: "reserved l = ?n * ?P" using l(2) by (simp add: reserved_def)
  from inv obtain fl where lay: "oa_layout s fl live" by (auto simp: oa_inv_def)
  then have mi: "mm_inv (oa_mem s)" "n_frames (oa_mem s) \<le> FRAME_COUNT"
    and reg: "\<forall>r \<in> set (oa_regions s fl live). in_frames (oa_mem s) r" by (simp_all add: oa_layout_def)
  have "?n \<le> snd (available_range (oa_mem s))" using fit res by (simp add: frame_consts)
  from mm_allocate_spec [OF mi(1) this] obtain r m where al: "mm_allocate (oa_mem s) ?n = Inr (r, m)" by auto
  have fr: "frames_for (layout_size l) = Inr ?n" using l(1) frames_for_eq by (simp add: layout_ok_def)
  show ?thesis
  proof (cases r)
    case None
    with fa.allocate_None [OF mi(1)] al have "m = oa_mem s" by simp
    then show ?thesis using al None fr l(3) inv by (simp add: oa_alloc_large_def)
  next
    case (Some f)
    note al = al [unfolded Some]
    note fr' = fa.allocate_Some [OF mi(1) al]
    let ?r = "(f * ?P, reserved l)"
    have rok: "region_disj ?r q" if "q \<in> set (oa_regions s fl live)" for q
      using reg that fr' by (auto simp: region_disj_def in_frames_def res frames_bytes)
    have pos: "0 < f * ?P" "0 < reserved l" using fr' reserved_large_pos [OF l(2)] by (simp_all add: frame_consts)
    have "in_frames m ?r" using fr' by (auto simp: in_frames_def res frames_bytes)
    moreover have "in_frames m q" if "q \<in> set (oa_regions s fl live)" for q
      using reg that fr' by (auto simp: in_frames_def)
    ultimately have frames: "\<And>q. q \<in> set (oa_regions s fl (?r # live)) \<Longrightarrow> in_frames m q"
      by (auto simp: oa_regions_def)
    have "oa_layout (s\<lparr>oa_mem := m\<rparr>) fl (?r # live)"
    proof (rule oa_layout_mem [OF lay, where new = "[?r]" and old = "[]"])
      show "large_ok (?r # live)" using lay res by (auto simp: oa_layout_def large_ok_def)
      show "regions_ok ([?r] @ oa_regions s fl live)" using rok pos lay by (simp add: oa_layout_def)
      show "n_frames m \<le> FRAME_COUNT" using mm_allocate_n_frames [OF mi(1) al] mi(2) by simp
    qed (use fr' frames in auto)
    then have "oa_inv (s\<lparr>oa_mem := m\<rparr>) (?r # live)" using inv by (auto simp: oa_inv_def)
    moreover have "f * ?P < usize_bound"
    proof -
      have "0 < ?n" using pos(2) res by (cases ?n) auto
      then have "f \<in> {f..<f + ?n}" by simp
      then have "f \<in> managed_frames (oa_mem s)" using fr' by blast
      then have "f < n_frames (oa_mem s)" using mi(1) by (auto simp: managed_frames_def mm_inv_def)
      from frame_no_overflow [OF this mi(2)] show ?thesis by simp
    qed
    then have "oa_alloc_large s l = Inr (f * ?P, s\<lparr>oa_mem := m\<rparr>)"
      using al fr l(3) by (simp add: oa_alloc_large_def res_simps)
    moreover have "layout_align l dvd f * ?P" using align_dvd_frame [OF l(1,3)] by simp
    ultimately show ?thesis using pos(1) by (auto simp: null_def)
  qed
qed

section \<open>Deallocation\<close>

lemma mm_free_managed:
  assumes "mm_inv m" "0 < n" "{f..<f + n} \<subseteq> managed_frames m"
  shows "\<exists>m'. mm_free m f n = Inr m' \<and> mm_inv m' \<and> n_frames m' = n_frames m
    \<and> managed_frames m' = managed_frames m \<and> used m' = used m - {f..<f + n}"
proof -
  have "f + n - 1 \<in> {f..<f + n}" using assms(2) by auto
  with assms(3) have "f + n - 1 \<in> managed_frames m" by blast
  with assms(1,2) have "f + n \<le> n_frames m" "n_frames m < usize_bound"
    by (auto simp: mm_inv_def managed_frames_def)
  from mm_free_spec [OF this] assms(1) show ?thesis by (auto simp: mm_inv_def managed_frames_def)
qed

lemma oa_dealloc_large_spec:
  assumes inv: "oa_inv s live" and l: "layout_ok l" "2048 < layout_size l"
    and own: "(p, reserved l) \<in> set live"
  shows "\<exists>s'. oa_dealloc s p l = Inr s' \<and> oa_inv s' (remove1 (p, reserved l) live)"
proof -
  let ?P = BYTES_PER_FRAME and ?r = "(p, reserved l)"
  let ?n = "(layout_size l + ?P - 1) div ?P" and ?live = "remove1 (p, reserved l) live"
  have res: "reserved l = ?n * ?P" using l(2) by (simp add: reserved_def)
  from inv obtain fl where lay: "oa_layout s fl live" by (auto simp: oa_inv_def)
  then have mi: "mm_inv (oa_mem s)" "n_frames (oa_mem s) \<le> FRAME_COUNT"
    and reg: "\<forall>r \<in> set (oa_regions s fl live). in_frames (oa_mem s) r"
    and ok: "regions_ok (oa_regions s fl live)" "large_ok live" by (simp_all add: oa_layout_def)
  from ok(2) own reserved_large_pos(2) [OF l(2)] obtain f where f: "p = f * ?P"
    by (fastforce simp: large_ok_def mult.commute)
  have perm: "mset (oa_regions s fl live) = mset (?r # oa_regions s fl ?live)"
    using own by (simp add: oa_regions_def)
  have disj: "region_disj ?r q" if "q \<in> set (oa_regions s fl ?live)" for q
    using regions_ok_perm [OF perm] ok(1) that by simp
  have "0 < ?n" using reserved_large_pos(2) [OF l(2)] res by (cases ?n) auto
  moreover have "{f..<f + ?n} \<subseteq> managed_frames (oa_mem s)"
  proof
    fix g assume g: "g \<in> {f..<f + ?n}"
    have "g * ?P \<in> region_bytes ?r"
      using frames_bytes [of "g * ?P" f ?n] g by (simp add: f res frame_consts)
    moreover have "in_frames (oa_mem s) ?r" using reg own by (simp add: oa_regions_def)
    ultimately have "g * ?P div ?P \<in> managed_frames (oa_mem s)" unfolding in_frames_def by blast
    then show "g \<in> managed_frames (oa_mem s)" by (simp add: frame_consts)
  qed
  ultimately obtain m where m: "mm_free (oa_mem s) f ?n = Inr m" "mm_inv m"
      "n_frames m = n_frames (oa_mem s)" "managed_frames m = managed_frames (oa_mem s)"
      "used m = used (oa_mem s) - {f..<f + ?n}"
    using mm_free_managed [OF mi(1)] by blast
  have frames: "in_frames m q" if q: "q \<in> set (oa_regions s fl ?live)" for q
  proof -
    have "q \<in> set (oa_regions s fl live)" using q notin_set_remove1 by (fastforce simp: oa_regions_def)
    then have "in_frames (oa_mem s) q" using reg by blast
    moreover have "b div ?P \<notin> {f..<f + ?n}" if "b \<in> region_bytes q" for b
      using disj [OF q] that frames_bytes [of b f ?n] by (auto simp: region_disj_def f res)
    ultimately show ?thesis using m(4,5) by (auto simp: in_frames_def)
  qed
  have "oa_layout (s\<lparr>oa_mem := m\<rparr>) fl ?live"
  proof (rule oa_layout_mem [OF lay, where new = "[]" and old = "[?r]"])
    show "large_ok ?live" using ok(2) notin_set_remove1 by (fastforce simp: large_ok_def)
  qed (use m mi ok own frames in auto)
  then have "oa_inv (s\<lparr>oa_mem := m\<rparr>) ?live" using inv by (auto simp: oa_inv_def)
  moreover have "oa_dealloc s p l = Inr (s\<lparr>oa_mem := m\<rparr>)"
    using l m(1) frames_for_eq [of "layout_size l"] f
    by (simp add: oa_dealloc_def layout_ok_def frame_consts)
  ultimately show ?thesis by blast
qed

lemma oa_dealloc_block:
  assumes lay: "oa_layout s fl live" and len: "length (oa_pages s) = N_BLOCK_SIZES" and l: "layout_size l < 2048"
    and own: "(p, reserved l) \<in> set live" and i: "size_class (layout_size l) = Some (i, BLOCK_SZ ! i)" "i < N_BLOCK_SIZES"
  shows "\<exists>v. let s' = upd_class s i (oa_mem s) ((oa_heap s)(p := v)) (Some p)
    in oa_dealloc s p l = Inr s' \<and> oa_layout s' (fl[i := p # fl ! i]) (remove1 (p, reserved l) live)"
proof -
  let ?live = "remove1 (p, reserved l) live"
  have res: "reserved l = BLOCK_SZ ! i" using i l by (simp add: reserved_def)
  have li: "i < length fl" "i < length (oa_pages s)" "lists_ok s fl" "large_ok live"
    using lay len i by (auto simp: oa_layout_def lists_ok_def)
  obtain pa page where pg: "oa_pages s ! i = (pa, page)" by fastforce
  let ?h = "(oa_heap s)(p := ph_free_list page)"
  have fresh: "p \<notin> set (fl ! j)" if "j < length fl" for j
  proof -
    have "p \<in> set (map fst live)" using image_eqI [OF _ own, of p fst] by simp
    then have "p \<notin> set (concat fl)" using oa_layout_distinct [OF lay] unfolding distinct_append by auto
    then show ?thesis using nth_mem [OF that] by auto
  qed
  have "flist (oa_heap s) (ph_free_list page) (fl ! i)" using li pg by (auto simp: lists_ok_def)
  then have fl: "flist ?h (Some p) (p # fl ! i)" using fresh [OF li(1)] by simp
  have "oa_layout (upd_class s i (oa_mem s) ?h (Some p)) (fl[i := p # fl ! i]) ?live"
  proof (rule oa_layout_upd_class [OF lay li(1) fl, where new = "[]"])
    show "?h x = oa_heap s x" if "j < length fl" "j \<noteq> i" "x \<in> set (fl ! j)" for j x
      using fresh [OF that(1)] that(3) by auto
    show "large_ok ?live" using li(4) notin_set_remove1 by (fastforce simp: large_ok_def)
  qed (use lay own in \<open>auto simp: oa_layout_def res\<close>)
  moreover have "oa_dealloc s p l = Inr (upd_class s i (oa_mem s) ?h (Some p))"
    using l i li(2) pg by (simp add: oa_dealloc_def res_simps push_front_def upd_class_def)
  ultimately show ?thesis unfolding Let_def by blast
qed

lemma oa_dealloc_small_spec:
  assumes inv: "oa_inv s live" and l: "layout_size l < 2048"
    and own: "(p, reserved l) \<in> set live"
  shows "\<exists>s'. oa_dealloc s p l = Inr s' \<and> oa_inv s' (remove1 (p, reserved l) live)"
proof -
  from size_class_Some [OF l] obtain i where i: "size_class (layout_size l) = Some (i, BLOCK_SZ ! i)" "i < N_BLOCK_SIZES" by blast
  from inv obtain fl where lay: "oa_layout s fl live" and len: "length (oa_pages s) = N_BLOCK_SIZES"
    by (auto simp: oa_inv_def)
  from oa_dealloc_block [OF lay len l own i] show ?thesis using oa_inv_upd_class [OF len] unfolding Let_def by blast
qed

section \<open>Writes of clients\<close>

text \<open>
  A client may store anything into the regions it owns. What a header at address \<open>a\<close> reads as can only
  change when its bytes meet such a region.
\<close>

definition touches :: "region list \<Rightarrow> addr \<Rightarrow> bool" where
  "touches live a \<longleftrightarrow> list_ex (\<lambda>(b, z). a < b + z \<and> b < a + size_of_mutex_object_header) live"

definition oa_write :: "region list \<Rightarrow> heap \<Rightarrow> object_allocator \<Rightarrow> object_allocator" where
  "oa_write live g s = s\<lparr>oa_heap := (\<lambda>a. if touches live a then g a else oa_heap s a)\<rparr>"

lemma oa_write_pages [simp]: "oa_pages (oa_write mine g s) = oa_pages s" "oa_mem (oa_write mine g s) = oa_mem s"
  by (simp_all add: oa_write_def)

lemma oa_write_layout:
  assumes lay: "oa_layout s fl live" and mine: "set mine \<subseteq> set live"
  shows "oa_layout (oa_write mine g s) fl live"
proof -
  have "\<not> touches mine x" if j: "j < length fl" and x: "x \<in> set (fl ! j)" for j x
  proof
    assume "touches mine x"
    then obtain b z where "(b, z) \<in> set mine" and b: "(b, z) \<in> set live" "x < b + z" "b < x + 16"
      using mine by (fastforce simp: touches_def list_ex_iff size_of_mutex_object_header_def)
    have "j < length BLOCK_SZ" using lay j by (simp add: oa_layout_def lists_ok_def)
    then have sz: "64 \<le> BLOCK_SZ ! j" by (rule BLOCK_SZ_facts)
    have "regions_ok (free_regs BLOCK_SZ fl @ page_regions s @ live)"
      using lay by (simp add: oa_layout_def oa_regions_def)
    moreover have "(x, BLOCK_SZ ! j) \<in> set (free_regs BLOCK_SZ fl)"
      using free_regs_mem [OF j _ x] lay by (simp add: oa_layout_def lists_ok_def)
    ultimately have "region_disj (x, BLOCK_SZ ! j) (b, z)" using b(1) by (auto simp: regions_ok_append)
    moreover have "0 < z"
      using lay b(1) regions_ok_pos [of "oa_regions s fl live" "(b, z)"] by (simp add: oa_layout_def oa_regions_def)
    moreover have "max x b \<in> region_bytes (x, BLOCK_SZ ! j) \<inter> region_bytes (b, z)"
      using b sz calculation(2) by (auto simp: region_bytes_def)
    ultimately show False by (auto simp: region_disj_def)
  qed
  then have "flist (oa_heap (oa_write mine g s)) hd (fl ! j) = flist (oa_heap s) hd (fl ! j)"
    if "j < length fl" for hd j
    using that by (intro flist_cong) (simp add: oa_write_def)
  then show ?thesis
    using lay by (simp add: oa_layout_def lists_ok_def oa_regions_def page_regions_def)
qed

lemma oa_write_inv: "\<lbrakk>oa_inv s live; set mine \<subseteq> set live\<rbrakk> \<Longrightarrow> oa_inv (oa_write mine g s) live"
  using oa_write_layout unfolding oa_inv_def by (metis oa_write_pages)

end
