(* ===== verification/Heap_Clients.thy ===== *)
theory Heap_Clients
  imports Object_Allocator_Inv
begin

text \<open>
  The object allocator from the outside: its start on the frames of the machine, the contract
  of \<^verbatim>\<open>GlobalAlloc\<close> as a locale, and what any sequence of requests, releases and writes of its clients
  can rely on.
\<close>

section \<open>ObjectAllocator::new\<close>

text \<open>The frames that a request for one frame can still be given.\<close>

definition free_below :: "bitmap_mm \<Rightarrow> nat set" where
  "free_below m = {f. fst (available_range m) \<le> f \<and> f + 1 < snd (available_range m) \<and> f \<notin> used m}"

lemma finite_free_below [simp]: "finite (free_below m)"
  by (rule finite_subset [of _ "{..<snd (available_range m)}"]) (auto simp: free_below_def)

lemma allocate_one:
  assumes "mm_inv m" "free_below m \<noteq> {}"
  shows "\<exists>f m'. mm_allocate m 1 = Inr (Some f, m') \<and> f \<in> free_below m \<and> free_below m' = free_below m - {f}"
proof -
  from assms(2) have "1 \<le> snd (available_range m)" by (auto simp: free_below_def)
  from mm_allocate_spec [OF assms(1) this] obtain r m' where
    al: "mm_allocate m 1 = Inr (r, m')" and post: "alloc_post m 1 (fst (available_range m)) (r, m')" by auto
  show ?thesis
  proof (cases r)
    case None
    with al allocate_one_None(1) [OF assms(1)] assms(2) show ?thesis
      by (auto simp: frames_exhausted_def free_below_def)
  next
    case (Some f)
    with al post show ?thesis
      by (auto simp: alloc_post_def busy_def free_below_def used_def)
  qed
qed

text \<open>The first page of a class: its header, and behind it the blocks from the second one on.\<close>

lemma first_page_blocks:
  assumes "k < N_BLOCK_SIZES"
  defines "sz \<equiv> BLOCK_SZ ! k"
  shows "sz + (BYTES_PER_FRAME div sz - 1) * sz = BYTES_PER_FRAME"
proof -
  have "k < length BLOCK_SZ" using assms by simp
  note sz = BLOCK_SZ_facts [OF this, folded sz_def]
  have "BYTES_PER_FRAME div sz * sz = BYTES_PER_FRAME" using sz(2) by simp
  then show ?thesis using sz(5) by (cases "BYTES_PER_FRAME div sz") auto
qed

lemma page_header_new_at_spec:
  assumes k: "k < N_BLOCK_SIZES" and p: "p + BYTES_PER_FRAME < usize_bound"
  defines "sz \<equiv> BLOCK_SZ ! k"
  defines "bs \<equiv> blocks (p + sz) sz (BYTES_PER_FRAME div sz - 1)"
  shows "\<exists>h' head. page_header_new_at h p sz
      = Some (Inr (h', \<lparr>ph_next = null, ph_free_list = head, ph_n_objs = 0, ph_obj_sz = sz\<rparr>))
    \<and> flist h' head bs \<and> (\<forall>x. x \<notin> set bs \<longrightarrow> h' x = h x)"
proof -
  let ?P = BYTES_PER_FRAME
  let ?n = "?P div sz - 1"
  have "k < length BLOCK_SZ" using k by simp
  note sz = BLOCK_SZ_facts [OF this, folded sz_def]
  have n: "sz + ?n * sz = ?P" using first_page_blocks [OF k] by (simp add: sz_def)
  have start: "objs_start p sz = Inr (p + sz)"
  proof -
    have "(size_of_page_header + sz - 1) div sz = 1"
      using sz(4) by (intro div_nat_eqI) (auto simp: size_of_page_header_def)
    then show ?thesis using sz p dvd_imp_le [OF sz(2)]
      by (simp add: objs_start_def res_simps size_of_page_header_def frame_consts)
  qed
  have top: "page_top p sz = Inr (p + sz + ?n * sz - sz)"
    using p sz(3) n by (simp add: page_top_def res_simps frame_consts)
  have "distinct bs"
    using regions_ok_distinct [OF blocks_regions_ok [OF sz(1)]] by (simp add: comp_def bs_def)
  with carve_spec [OF sz(1), of "p + sz" h None "[]" ?n] start top show ?thesis
    by (auto simp: page_header_new_at_def bs_def)
qed

text \<open>The header and the blocks of the first page are disjoint from each other and from older regions.\<close>

lemma first_page_regions:
  assumes k: "k < N_BLOCK_SIZES" and mem: "mm_inv m" "n_frames m \<le> FRAME_COUNT"
    and al: "mm_allocate m 1 = Inr (Some f, m')"
    and rs: "regions_ok rs" "\<forall>r \<in> set rs. in_frames m r"
  defines "sz \<equiv> BLOCK_SZ ! k" and "p \<equiv> f * BYTES_PER_FRAME"
  defines "bs \<equiv> blocks (p + sz) sz (BYTES_PER_FRAME div sz - 1)"
  defines "new \<equiv> (p, size_of_mutex_page_header) # map (\<lambda>a. (a, sz)) bs"
  shows "regions_ok (new @ rs)" "\<forall>r \<in> set (new @ rs). in_frames m' r"
    "\<lbrakk>a \<in> set bs; (a, z) \<in> set rs\<rbrakk> \<Longrightarrow> False"
proof -
  let ?P = BYTES_PER_FRAME and ?n = "BYTES_PER_FRAME div sz - 1"
  let ?hdr = "(p, size_of_mutex_page_header)"
  have "k < length BLOCK_SZ" using k by simp
  note sz = BLOCK_SZ_facts [OF this, folded sz_def]
  note fr = one_frame [OF mem al]
  have lo: "p \<le> p + sz" "p + sz + ?n * sz \<le> p + ?P"
    using first_page_blocks [OF k] by (simp_all add: sz_def)
  note fresh = fresh_blocks [OF mem al lo [unfolded p_def] sz(1), folded p_def, folded bs_def]
  have hdr: "region_bytes ?hdr \<subseteq> {p..<p + ?P}" "region_bytes ?hdr \<subseteq> {p..<p + sz}"
    using sz(4) by (auto simp: region_bytes_def size_of_mutex_page_header_def frame_consts)
  have "b div ?P = f" if "b \<in> region_bytes ?hdr" for b
    using hdr(1) that frame_div unfolding p_def by blast
  then have hdr_fr: "in_frames m' ?hdr" using fr by (simp add: in_frames_def)
  have "region_disj ?hdr (a, sz)" if "a \<in> set bs" for a
    using blocks_bytes [OF that [unfolded bs_def]] hdr(2) by (fastforce simp: region_disj_def)
  moreover have "region_disj ?hdr q" if "q \<in> set rs" for q
    using fresh_frame_disj [OF bspec [OF rs(2) that] fr(4) hdr(1) [unfolded p_def]] by (simp add: p_def)
  moreover have "region_disj (a, sz) q" if "a \<in> set bs" "q \<in> set rs" for a q
    using fresh(2) [OF that(1) bspec [OF rs(2) that(2)]] .
  ultimately show "regions_ok (new @ rs)"
    using rs(1) blocks_regions_ok [OF sz(1), of "p + sz" ?n]
    by (auto simp: regions_ok_append size_of_mutex_page_header_def new_def bs_def)
  have "in_frames m' q" if "in_frames m q" for q using that fr(6,7) by (auto simp: in_frames_def)
  then show "\<forall>r \<in> set (new @ rs). in_frames m' r" using rs(2) hdr_fr fresh(1) by (auto simp: new_def)
  show False if "a \<in> set bs" "(a, z) \<in> set rs"
    using fresh(3) [OF that(1) bspec [OF rs(2) that(2)]] regions_ok_pos [OF rs(1) that(2)] by simp
qed

definition first_blocks :: "nat \<Rightarrow> addr list \<Rightarrow> bool" where
  "first_blocks sz bs \<longleftrightarrow> (\<exists>f. bs = blocks (f * BYTES_PER_FRAME + sz) sz (BYTES_PER_FRAME div sz - 1))"

lemma oa_new_step_spec:
  assumes lay: "oa_layout s fl live" and k: "length (oa_pages s) < N_BLOCK_SIZES"
    and free: "free_below (oa_mem s) \<noteq> {}"
  defines "sz \<equiv> BLOCK_SZ ! length (oa_pages s)"
  shows "\<exists>s' bs. oa_new_step sz s = Some (Inr s') \<and> oa_layout s' (fl @ [bs]) live \<and> first_blocks sz bs
    \<and> (\<forall>x. x \<notin> set bs \<longrightarrow> oa_heap s' x = oa_heap s x) \<and> length (oa_pages s') = Suc (length (oa_pages s))
    \<and> card (free_below (oa_mem s')) = card (free_below (oa_mem s)) - 1"
proof -
  have ok: "mm_inv (oa_mem s)" "n_frames (oa_mem s) \<le> FRAME_COUNT" "lists_ok s fl"
      "regions_ok (oa_regions s fl live)" and len: "length fl = length (oa_pages s)"
    and reg: "\<forall>r \<in> set (oa_regions s fl live). in_frames (oa_mem s) r"
    and large: "large_ok live" using lay by (auto simp: oa_layout_def lists_ok_def)
  from allocate_one [OF ok(1) free] obtain f m where al: "mm_allocate (oa_mem s) 1 = Inr (Some f, m)"
    and fb: "f \<in> free_below (oa_mem s)" "free_below m = free_below (oa_mem s) - {f}" by blast
  note fr = one_frame [OF ok(1,2) al]
  let ?p = "f * BYTES_PER_FRAME"
  define bs where "bs = blocks (?p + sz) sz (BYTES_PER_FRAME div sz - 1)"
  note new = first_page_regions [OF k ok(1,2) al ok(4) reg, folded sz_def, folded bs_def]
  from page_header_new_at_spec [OF k fr(8), of "oa_heap s", folded sz_def, folded bs_def] obtain h head where
    h: "page_header_new_at (oa_heap s) ?p sz
      = Some (Inr (h, \<lparr>ph_next = null, ph_free_list = head, ph_n_objs = 0, ph_obj_sz = sz\<rparr>))"
      "flist h head bs" "\<forall>x. x \<notin> set bs \<longrightarrow> h x = oa_heap s x" by blast
  define s' where "s' = s\<lparr>oa_mem := m, oa_heap := h, oa_pages := oa_pages s @
    [(?p, \<lparr>ph_next = null, ph_free_list = head, ph_n_objs = 0, ph_obj_sz = sz\<rparr>)]\<rparr>"
  have run: "oa_new_step sz s = Some (Inr s')"
    using al fr(8) h(1) by (simp add: oa_new_step_def res_simps s'_def)
  have "mset (oa_regions s' (fl @ [bs]) live)
      = mset (((?p, size_of_mutex_page_header) # map (\<lambda>a. (a, sz)) bs) @ oa_regions s fl live)"
    using free_regs_snoc [of fl BLOCK_SZ] k len
    by (simp add: oa_regions_def page_regions_def s'_def sz_def)
  from regions_ok_perm [OF this] mset_eq_setD [OF this] new
  have regs: "regions_ok (oa_regions s' (fl @ [bs]) live)"
      "\<forall>q \<in> set (oa_regions s' (fl @ [bs]) live). in_frames m q" by simp_all
  have "h x = oa_heap s x" if "j < length fl" "x \<in> set (fl ! j)" for j x
    using h(3) new(3) oa_layout_block(1) [OF lay that] by blast
  then have "flist h hd (fl ! j) = flist (oa_heap s) hd (fl ! j)" if "j < length fl" for j hd
    using that by (intro flist_cong) simp
  then have "lists_ok s' (fl @ [bs])" using ok(3) h(2) k len
    by (auto simp: lists_ok_def s'_def nth_append less_Suc_eq sz_def)
  then have "oa_layout s' (fl @ [bs]) live" using fr regs large by (simp add: oa_layout_def s'_def)
  moreover have "card (free_below (oa_mem s')) = card (free_below (oa_mem s)) - 1"
    using fb by (simp add: s'_def)
  moreover have "first_blocks sz bs" by (auto simp: first_blocks_def bs_def)
  moreover have "\<forall>x. x \<notin> set bs \<longrightarrow> oa_heap s' x = oa_heap s x" using h(3) by (simp add: s'_def)
  ultimately show ?thesis using run by (auto simp: s'_def)
qed

lemma oa_new_steps:
  assumes "oa_layout s fl live" "length (oa_pages s) + n \<le> N_BLOCK_SIZES" "n \<le> card (free_below (oa_mem s))"
    and "\<forall>j < length fl. first_blocks (BLOCK_SZ ! j) (fl ! j)"
  shows "\<exists>s' new. cfoldM oa_new_step (take n (drop (length (oa_pages s)) BLOCK_SZ)) s = Some (Inr s')
    \<and> oa_layout s' (fl @ new) live \<and> length (oa_pages s') = length (oa_pages s) + n
    \<and> (\<forall>j < length (fl @ new). first_blocks (BLOCK_SZ ! j) ((fl @ new) ! j)) \<and> (\<forall>x. x \<notin> set (concat new) \<longrightarrow> oa_heap s' x = oa_heap s x)
    \<and> card (free_below (oa_mem s')) = card (free_below (oa_mem s)) - n"
  using assms
proof (induction n arbitrary: s fl)
  case 0
  then show ?case by (intro exI [of _ s] exI [of _ "[]"]) auto
next
  case (Suc n)
  have k: "length (oa_pages s) < N_BLOCK_SIZES" and ne: "free_below (oa_mem s) \<noteq> {}"
    using Suc.prems by auto
  have len: "length fl = length (oa_pages s)" using Suc.prems(1) by (simp add: oa_layout_def lists_ok_def)
  from oa_new_step_spec [OF Suc.prems(1) k ne] obtain s1 bs where
    s1: "oa_new_step (BLOCK_SZ ! length (oa_pages s)) s = Some (Inr s1)" "oa_layout s1 (fl @ [bs]) live"
      "first_blocks (BLOCK_SZ ! length (oa_pages s)) bs" "\<forall>x. x \<notin> set bs \<longrightarrow> oa_heap s1 x = oa_heap s x"
      "length (oa_pages s1) = Suc (length (oa_pages s))" "card (free_below (oa_mem s1)) = card (free_below (oa_mem s)) - 1" by blast
  have fb: "\<forall>j < length (fl @ [bs]). first_blocks (BLOCK_SZ ! j) ((fl @ [bs]) ! j)"
    using Suc.prems(4) s1(3) len by (auto simp: nth_append less_Suc_eq)
  have d: "drop (length (oa_pages s)) BLOCK_SZ
      = BLOCK_SZ ! length (oa_pages s) # drop (Suc (length (oa_pages s))) BLOCK_SZ"
    using k by (simp add: Cons_nth_drop_Suc)
  have room: "length (oa_pages s1) + n \<le> N_BLOCK_SIZES" "n \<le> card (free_below (oa_mem s1))" using s1(5,6) Suc.prems(2,3) by simp_all
  from Suc.IH [OF s1(2) room fb] s1(5) obtain s' new where
    s': "cfoldM oa_new_step (take n (drop (Suc (length (oa_pages s))) BLOCK_SZ)) s1 = Some (Inr s')" "oa_layout s' (fl @ bs # new) live"
      "length (oa_pages s') = length (oa_pages s1) + n" "\<forall>j < length (fl @ bs # new). first_blocks (BLOCK_SZ ! j) ((fl @ bs # new) ! j)"
      "\<forall>x. x \<notin> set (concat new) \<longrightarrow> oa_heap s' x = oa_heap s1 x" "card (free_below (oa_mem s')) = card (free_below (oa_mem s1)) - n" by auto
  then show ?case using s1(1,4-6) d by (intro exI [of _ s'] exI [of _ "bs # new"]) auto
qed

text \<open>Frames that are in use from the start, such as those of the kernel image, count as live regions.\<close>

lemma oa_new_layout:
  assumes "mm_inv m" "n_frames m \<le> FRAME_COUNT" "N_BLOCK_SIZES \<le> card (free_below m)"
    and "regions_ok live" "\<forall>r \<in> set live. in_frames m r" "large_ok live"
  shows "\<exists>s fl. oa_new m h = Some (Inr s) \<and> oa_layout s fl live \<and> length (oa_pages s) = N_BLOCK_SIZES
    \<and> (\<forall>j < N_BLOCK_SIZES. first_blocks (BLOCK_SZ ! j) (fl ! j)) \<and> (\<forall>x. x \<notin> set (concat fl) \<longrightarrow> oa_heap s x = h x)
    \<and> card (free_below (oa_mem s)) = card (free_below m) - N_BLOCK_SIZES"
proof -
  let ?s = "\<lparr>oa_mem = m, oa_heap = h, oa_pages = []\<rparr>"
  have lay: "oa_layout ?s [] live"
    using assms by (simp add: oa_layout_def lists_ok_def oa_regions_def page_regions_def)
  have none: "\<forall>j < length []. first_blocks (BLOCK_SZ ! j) ([] ! j)" by simp
  from oa_new_steps [OF lay _ _ none, of N_BLOCK_SIZES] assms(3) obtain s fl where
    s: "oa_new m h = Some (Inr s)" "oa_layout s fl live" "length (oa_pages s) = N_BLOCK_SIZES"
      "\<forall>j < length fl. first_blocks (BLOCK_SZ ! j) (fl ! j)" "\<forall>x. x \<notin> set (concat fl) \<longrightarrow> oa_heap s x = h x"
      "card (free_below (oa_mem s)) = card (free_below m) - N_BLOCK_SIZES"
    by (auto simp: oa_new_def)
  then have "length fl = N_BLOCK_SIZES" by (simp add: oa_layout_def lists_ok_def)
  then show ?thesis using s by metis
qed

lemma oa_new_reserved:
  assumes "mm_inv m" "n_frames m \<le> FRAME_COUNT" "N_BLOCK_SIZES \<le> card (free_below m)"
    and "regions_ok live" "\<forall>r \<in> set live. in_frames m r" "large_ok live"
  shows "\<exists>s. oa_new m h = Some (Inr s) \<and> oa_inv s live
    \<and> card (free_below (oa_mem s)) = card (free_below m) - N_BLOCK_SIZES"
  using oa_new_layout [OF assms] unfolding oa_inv_def by blast

lemma oa_new_spec:
  assumes "mm_inv m" "n_frames m \<le> FRAME_COUNT" "N_BLOCK_SIZES \<le> card (free_below m)"
  shows "\<exists>s. oa_new m h = Some (Inr s) \<and> oa_inv s []
    \<and> card (free_below (oa_mem s)) = card (free_below m) - N_BLOCK_SIZES"
  using oa_new_reserved [OF assms, of "[]"] by (simp add: large_ok_def)

section \<open>Allocation and release\<close>

lemma reserved_pos: "0 < reserved l \<Longrightarrow> layout_size l \<noteq> 2048 \<and> layout_size l \<le> reserved l"
  using reserved_large_pos(1) [of l] size_class_Some [of "layout_size l"] size_class_None [of "layout_size l"]
  by (cases "layout_size l < 2048") (auto simp: reserved_def split: option.splits if_splits)

lemma oa_alloc_spec:
  assumes inv: "oa_inv s live" and l: "layout_ok l"
    and large: "2048 < layout_size l \<Longrightarrow> layout_align l \<le> BYTES_PER_FRAME
      \<and> reserved l div BYTES_PER_FRAME \<le> snd (available_range (oa_mem s))"
  shows "\<exists>p s'. oa_alloc s l = Some (Inr (p, s'))
    \<and> (if p = null then oa_inv s' live
         \<and> (layout_size l < 2048 \<and> layout_align l \<le> BYTES_PER_FRAME \<longrightarrow> frames_exhausted (oa_mem s))
       else layout_align l dvd p \<and> oa_inv s' ((p, reserved l) # live))"
proof (cases "layout_size l" "2048::nat" rule: linorder_cases)
  case less
  from size_class_Some [OF less] obtain i where i: "i < N_BLOCK_SIZES"
      "size_class (layout_size l) = Some (i, BLOCK_SZ ! i)" by blast
  have "reserved l = BLOCK_SZ ! i" using i less by (simp add: reserved_def)
  with oa_alloc_small_spec [OF inv i(1), of l] less i(2) align_dvd_frame [OF l] show ?thesis
    by (auto simp: oa_alloc_def split: if_splits)
next
  case equal
  then have "oa_alloc s l = Some (Inr (null, s))" using size_class_None by (simp add: oa_alloc_def)
  then show ?thesis using inv equal by simp
next
  case greater
  with oa_alloc_large_spec [OF inv l greater] large show ?thesis
    by (auto simp: oa_alloc_def split: if_splits)
qed

lemma oa_dealloc_spec:
  assumes "oa_inv s live" "layout_ok l" "(p, reserved l) \<in> set live"
  shows "\<exists>s'. oa_dealloc s p l = Inr s' \<and> oa_inv s' (remove1 (p, reserved l) live)"
proof -
  from assms obtain fl where "regions_ok (oa_regions s fl live)" by (auto simp: oa_inv_def oa_layout_def)
  from regions_ok_pos [OF this, of "(p, reserved l)"] assms(3) have "0 < reserved l"
    by (simp add: oa_regions_def)
  then have "layout_size l < 2048 \<or> 2048 < layout_size l" using reserved_pos [of l] by linarith
  then show ?thesis using oa_dealloc_small_spec oa_dealloc_large_spec assms by blast
qed

lemma oa_inv_perm:
  assumes "oa_inv s live" "mset live = mset live'"
  shows "oa_inv s live'"
proof -
  from assms(1) obtain fl where lay: "oa_layout s fl live" by (auto simp: oa_inv_def)
  have m: "mset (oa_regions s fl live) = mset (oa_regions s fl live')" using assms(2) by (simp add: oa_regions_def)
  have "large_ok live = large_ok live'" using mset_eq_setD [OF assms(2)] by (simp add: large_ok_def)
  then have "oa_layout s fl live'"
    using lay regions_ok_perm [OF m] mset_eq_setD [OF m] by (simp add: oa_layout_def)
  then show ?thesis using assms(1) by (auto simp: oa_inv_def)
qed

lemma oa_inv_live: "oa_inv s live \<Longrightarrow> regions_ok live"
  by (auto simp: oa_inv_def oa_layout_def oa_regions_def regions_ok_append)

section \<open>The contract of GlobalAlloc\<close>

text \<open>
  Clients ask for blocks, give one of their blocks back, and write into their blocks. The state of a
  run is the allocator together with the blocks the clients hold.
\<close>

datatype heap_event = Alloc layout | Dealloc nat | Write heap

definition owned_regions :: "(addr \<times> layout) list \<Rightarrow> region list" where
  "owned_regions owned = map (\<lambda>(p, l). (p, reserved l)) owned"

definition client_step ::
    "('s \<Rightarrow> layout \<Rightarrow> (addr \<times> 's) res option) \<Rightarrow> ('s \<Rightarrow> addr \<Rightarrow> layout \<Rightarrow> 's res)
     \<Rightarrow> (region list \<Rightarrow> heap \<Rightarrow> 's \<Rightarrow> 's) \<Rightarrow> heap_event
     \<Rightarrow> 's \<times> (addr \<times> layout) list \<Rightarrow> ('s \<times> (addr \<times> layout) list) res option" where
  "client_step alloc dealloc put ev = (\<lambda>(s, owned). case ev of
       Alloc l \<Rightarrow> cbind (alloc s l) (\<lambda>(p, s').
         Some (Inr (s', if p = null then owned else (p, l) # owned)))
     | Dealloc k \<Rightarrow>
         if k < length owned then
           cbind (Some (dealloc s (fst (owned ! k)) (snd (owned ! k)))) (\<lambda>s'.
             Some (Inr (s', take k owned @ drop (Suc k) owned)))
         else Some (Inr (s, owned))
     | Write g \<Rightarrow> Some (Inr (put (owned_regions owned) g s, owned)))"

locale heap_allocator =
  fixes invar :: "'s \<Rightarrow> region list \<Rightarrow> bool"
    and alloc :: "'s \<Rightarrow> layout \<Rightarrow> (addr \<times> 's) res option"
    and dealloc :: "'s \<Rightarrow> addr \<Rightarrow> layout \<Rightarrow> 's res"
    and put :: "region list \<Rightarrow> heap \<Rightarrow> 's \<Rightarrow> 's"
  assumes alloc_law: "\<lbrakk>invar s live; layout_ok l; alloc s l = Some (Inr (p, s'))\<rbrakk> \<Longrightarrow>
      if p = null then invar s' live else layout_align l dvd p \<and> invar s' ((p, reserved l) # live)"
    and dealloc_law: "\<lbrakk>invar s live; layout_ok l; (p, reserved l) \<in> set live\<rbrakk> \<Longrightarrow>
      \<exists>s'. dealloc s p l = Inr s' \<and> invar s' (remove1 (p, reserved l) live)"
    and write_law: "\<lbrakk>invar s live; set mine \<subseteq> set live\<rbrakk> \<Longrightarrow> invar (put mine g s) live"
    and perm_law: "\<lbrakk>invar s live; mset live = mset live'\<rbrakk> \<Longrightarrow> invar s live'"
    and disjoint_law: "invar s live \<Longrightarrow> regions_ok live"
begin

text \<open>\<open>kept\<close>: regions that no client holds and that are never given back.\<close>

definition good :: "region list \<Rightarrow> 's \<times> (addr \<times> layout) list \<Rightarrow> bool" where
  "good kept t \<longleftrightarrow> invar (fst t) (owned_regions (snd t) @ kept)
     \<and> (\<forall>(p, l) \<in> set (snd t). layout_ok l \<and> p \<noteq> null \<and> layout_align l dvd p)"

lemma mset_owned_split:
  assumes "k < length owned"
  shows "mset (owned_regions owned)
    = add_mset (fst (owned ! k), reserved (snd (owned ! k))) (mset (owned_regions (take k owned @ drop (Suc k) owned)))"
proof -
  have "mset owned = add_mset (owned ! k) (mset (take k owned @ drop (Suc k) owned))"
    using arg_cong [OF id_take_nth_drop [OF assms], of mset] by simp
  then show ?thesis by (simp add: owned_regions_def case_prod_beta)
qed

lemma step_good:
  assumes good: "good kept t" and ev: "\<And>l. ev = Alloc l \<Longrightarrow> layout_ok l"
    and step: "client_step alloc dealloc put ev t = Some (Inr t')"
  shows "good kept t'"
proof -
  obtain s owned where t: "t = (s, owned)" by fastforce
  have inv: "invar s (owned_regions owned @ kept)"
    and own: "\<forall>(p, l) \<in> set owned. layout_ok l \<and> p \<noteq> null \<and> layout_align l dvd p"
    using good t by (auto simp: good_def)
  show ?thesis
  proof (cases ev)
    case (Alloc l)
    with step t obtain p s' where a: "alloc s l = Some (Inr (p, s'))"
      and t': "t' = (s', if p = null then owned else (p, l) # owned)"
      by (auto simp: client_step_def)
    from alloc_law [OF inv ev [OF Alloc] a] ev [OF Alloc] own show ?thesis
      by (auto simp: good_def t' owned_regions_def split: if_splits)
  next
    case (Dealloc k)
    show ?thesis
    proof (cases "k < length owned")
      case True
      obtain p l where pl: "owned ! k = (p, l)" by fastforce
      let ?rest = "take k owned @ drop (Suc k) owned"
      have ok: "layout_ok l" using own nth_mem [OF True] pl by auto
      have m: "mset (owned_regions owned) = add_mset (p, reserved l) (mset (owned_regions ?rest))"
        using mset_owned_split [OF True] pl by simp
      then have "(p, reserved l) \<in> set (owned_regions owned @ kept)"
        by (metis UnCI set_append set_mset_mset union_single_eq_member)
      from dealloc_law [OF inv ok this] obtain s' where d: "dealloc s p l = Inr s'"
        and inv': "invar s' (remove1 (p, reserved l) (owned_regions owned @ kept))" by blast
      have "invar s' (owned_regions ?rest @ kept)" using perm_law [OF inv'] m by simp
      moreover have "t' = (s', ?rest)" using step t Dealloc True d pl by (simp add: client_step_def)
      moreover have "set ?rest \<subseteq> set owned" using set_take_subset set_drop_subset by fastforce
      ultimately show ?thesis using own by (auto simp: good_def)
    next
      case False
      then show ?thesis using step t Dealloc good by (simp add: client_step_def)
    qed
  next
    case (Write g)
    with step t write_law [OF inv, of "owned_regions owned"] own show ?thesis by (auto simp: client_step_def good_def)
  qed
qed

text \<open>The blocks of the clients stay disjoint, aligned and large enough, whatever the clients do.\<close>

lemma run_good:
  assumes "invar s kept" "\<And>l. Alloc l \<in> set evs \<Longrightarrow> layout_ok l"
    and "cfoldM (client_step alloc dealloc put) evs (s, []) = Some (Inr (s', owned))"
  shows "good kept (s', owned)"
proof -
  have "good kept (s, [])" using assms(1) by (simp add: good_def owned_regions_def)
  with assms(3) show ?thesis
  proof (rule cfoldM_invariant)
    show "good kept t'" if "x \<in> set evs" "good kept t" "client_step alloc dealloc put x t = Some (Inr t')" for x t t'
    proof (rule step_good [OF that(2) _ that(3)])
      show "layout_ok l" if "x = Alloc l" for l using \<open>x \<in> set evs\<close> that by (intro assms(2)) simp
    qed
  qed
qed

lemma run_regions:
  assumes "invar s kept" "\<And>l. Alloc l \<in> set evs \<Longrightarrow> layout_ok l"
    and "cfoldM (client_step alloc dealloc put) evs (s, []) = Some (Inr (s', owned))"
  shows "regions_ok (owned_regions owned @ kept)"
  using run_good [OF assms] disjoint_law by (auto simp: good_def)

end

interpretation ga: heap_allocator oa_inv oa_alloc oa_dealloc oa_write
proof
  fix s live l p s' g live'
  assume inv: "oa_inv s live"
  show "if p = null then oa_inv s' live else layout_align l dvd p \<and> oa_inv s' ((p, reserved l) # live)"
    if l: "layout_ok l" and a: "oa_alloc s l = Some (Inr (p, s'))"
  proof -
    have "layout_align l \<le> BYTES_PER_FRAME \<and> reserved l div BYTES_PER_FRAME \<le> snd (available_range (oa_mem s))"
      if big: "2048 < layout_size l"
    proof -
      have al: "oa_alloc_large s l = Inr (p, s')" using a big by (simp add: oa_alloc_def)
      have "layout_size l < 2 ^ 63" using l by (simp add: layout_ok_def)
      with al frames_for_eq have le: "layout_align l \<le> BYTES_PER_FRAME"
        and "\<exists>r. mm_allocate (oa_mem s) ((layout_size l + BYTES_PER_FRAME - 1) div BYTES_PER_FRAME) = Inr r"
        by (auto simp: oa_alloc_large_def split: if_splits)
      then show ?thesis using mm_allocate_bound big by (auto simp: reserved_def frame_consts)
    qed
    from oa_alloc_spec [OF inv l this] a show ?thesis by (auto split: if_splits)
  qed
  show "\<exists>s'. oa_dealloc s p l = Inr s' \<and> oa_inv s' (remove1 (p, reserved l) live)"
    if "layout_ok l" "(p, reserved l) \<in> set live"
    using oa_dealloc_spec [OF inv that] .
  show "oa_inv (oa_write mine g s) live" if "set mine \<subseteq> set live" for mine using oa_write_inv [OF inv that] .
  show "oa_inv s live'" if "mset live = mset live'" using oa_inv_perm [OF inv that] .
  show "regions_ok live" using oa_inv_live [OF inv] .
qed

section \<open>Properties\<close>

lemma example_frames:
  defines "m \<equiv> \<lparr>alloc_map = [0, 0, 0, 0], available_range = (1, 32)\<rparr> :: bitmap_mm"
  shows "mm_inv m" "n_frames m \<le> FRAME_COUNT" "card (free_below m) = 30"
proof -
  show "mm_inv m" "n_frames m \<le> FRAME_COUNT"
    by (simp_all add: m_def mm_inv_def n_frames_def frame_consts)
  have "used m = {}" using used_fresh [of 4 "(1, 32)"] by (simp add: m_def numeral_eq_Suc)
  then have "free_below m = {1..<31}" by (auto simp: free_below_def m_def)
  then show "card (free_below m) = 30" by simp
qed

lemma not_exhausted: "0 < card (free_below m) \<Longrightarrow> \<not> frames_exhausted m"
  by (auto simp: card_gt_0_iff free_below_def frames_exhausted_def)

text \<open>
  (C9) The heap never hands out overlapping memory. Start the object allocator on a machine with at least
  six free frames and let clients request blocks, give their blocks back in any order and store
  anything into the blocks they hold, over the free-list links that may have been there before.
  Whenever such a run returns, the blocks that the clients hold are non-null, aligned as requested and
  pairwise disjoint over their whole requested size.
\<close>

theorem heap_blocks_disjoint:
  assumes "mm_inv m" and "n_frames m \<le> FRAME_COUNT" and "6 \<le> card (free_below m)"
    and "\<And>l. Alloc l \<in> set evs \<Longrightarrow> layout_ok l"
    and "cbind (oa_new m h) (\<lambda>s0. cfoldM (client_step oa_alloc oa_dealloc oa_write) evs (s0, []))
      = Some (Inr (s, owned))"
  shows "(\<forall>(p, l) \<in> set owned. p \<noteq> null \<and> layout_align l dvd p)
    \<and> (\<forall>j < length owned. \<forall>i < j.
        {fst (owned ! i)..<fst (owned ! i) + layout_size (snd (owned ! i))}
        \<inter> {fst (owned ! j)..<fst (owned ! j) + layout_size (snd (owned ! j))} = {})"
proof -
  from oa_new_spec [OF assms(1,2)] assms(3) obtain s0 where s0: "oa_new m h = Some (Inr s0)" "oa_inv s0 []"
    by fastforce
  have run: "cfoldM (client_step oa_alloc oa_dealloc oa_write) evs (s0, []) = Some (Inr (s, owned))"
    using assms(5) s0(1) by simp
  have "\<forall>(p, l) \<in> set owned. p \<noteq> null \<and> layout_align l dvd p"
    using ga.run_good [OF s0(2) assms(4) run] by (auto simp: ga.good_def)
  moreover have "{fst (owned ! i)..<fst (owned ! i) + layout_size (snd (owned ! i))}
      \<inter> {fst (owned ! j)..<fst (owned ! j) + layout_size (snd (owned ! j))} = {}"
    if ij: "j < length owned" "i < j" for i j
  proof -
    have ok: "regions_ok (owned_regions owned)" using ga.run_regions [OF s0(2) assms(4) run] by simp
    have reg: "owned_regions owned ! k = (fst (owned ! k), reserved (snd (owned ! k)))"
        "layout_size (snd (owned ! k)) \<le> reserved (snd (owned ! k))" if "k < length owned" for k
    proof -
      show nth: "owned_regions owned ! k = (fst (owned ! k), reserved (snd (owned ! k)))"
        using that by (simp add: owned_regions_def case_prod_beta)
      have "owned_regions owned ! k \<in> set (owned_regions owned)"
        using that by (intro nth_mem) (simp add: owned_regions_def)
      from regions_ok_pos [OF ok this] nth reserved_pos
      show "layout_size (snd (owned ! k)) \<le> reserved (snd (owned ! k))" by simp
    qed
    have "region_disj (owned_regions owned ! i) (owned_regions owned ! j)"
      using ok ij sorted_wrt_nth_less [of region_disj "owned_regions owned" i j]
      by (simp add: regions_ok_def owned_regions_def)
    then show ?thesis using reg [of i] reg [of j] ij
      by (fastforce simp: region_disj_def region_bytes_def)
  qed
  ultimately show ?thesis by blast
qed

theorem heap_blocks_disjoint_witness:
  "\<exists>m h s p. cbind (oa_new m h) (\<lambda>s0. cfoldM (client_step oa_alloc oa_dealloc oa_write)
       [Alloc \<lparr>layout_size = 24, layout_align = 8\<rparr>, Write (\<lambda>_. Some 7)] (s0, []))
     = Some (Inr (s, [(p, \<lparr>layout_size = 24, layout_align = 8\<rparr>)])) \<and> p \<noteq> null \<and> 8 dvd p"
proof -
  let ?m = "\<lparr>alloc_map = [0, 0, 0, 0], available_range = (1, 32)\<rparr> :: bitmap_mm"
  let ?h = "(\<lambda>_. None) :: heap" and ?l = "\<lparr>layout_size = 24, layout_align = 8\<rparr>"
  let ?evs = "[Alloc ?l, Write (\<lambda>_. Some 7)]"
  have l: "layout_ok ?l" by (auto simp: layout_ok_def intro: exI [of _ 3])
  from oa_new_spec [OF example_frames(1,2), of ?h] example_frames(3) obtain s0 where
    s0: "oa_new ?m ?h = Some (Inr s0)" "oa_inv s0 []" "card (free_below (oa_mem s0)) = 24" by auto
  from oa_alloc_spec [OF s0(2) l] obtain p s1 where
    p: "oa_alloc s0 ?l = Some (Inr (p, s1))" "p = null \<longrightarrow> frames_exhausted (oa_mem s0)"
    by (auto simp: frame_consts split: if_splits)
  have "\<not> frames_exhausted (oa_mem s0)" using s0(3) by (intro not_exhausted) simp
  then have run: "cbind (oa_new ?m ?h) (\<lambda>s0. cfoldM (client_step oa_alloc oa_dealloc oa_write) ?evs (s0, []))
      = Some (Inr (oa_write (owned_regions [(p, ?l)]) (\<lambda>_. Some 7) s1, [(p, ?l)]))"
    using s0(1) p by (simp add: client_step_def)
  have "p \<noteq> null \<and> 8 dvd p"
    using heap_blocks_disjoint [OF example_frames(1,2) _ _ run] example_frames(3) l by auto
  with run show ?thesis by blast
qed

text \<open>
  (C37) Allocation terminates and fails only for lack of frames. In every consistent state a request below
  2048 bytes with an alignment of at most a frame returns, although it searches a linked list in
  memory that clients write to. A null result means that no frame below the last managed one was
  free; otherwise the block is aligned and the state stays consistent with the block owned by the
  client.
\<close>

theorem alloc_small_total:
  assumes "oa_inv s live" and "layout_ok l" and "layout_size l < 2048" and "layout_align l \<le> BYTES_PER_FRAME"
  shows "\<exists>p s'. oa_alloc s l = Some (Inr (p, s'))
    \<and> (if p = null then oa_inv s' live
         \<and> (\<forall>f. fst (available_range (oa_mem s)) \<le> f \<and> f + 1 < snd (available_range (oa_mem s)) \<longrightarrow> f \<in> used (oa_mem s))
       else layout_align l dvd p \<and> oa_inv s' ((p, reserved l) # live))"
proof -
  from oa_alloc_spec [OF assms(1,2)] assms(3,4) obtain p s' where "oa_alloc s l = Some (Inr (p, s'))"
    "if p = null then oa_inv s' live \<and> frames_exhausted (oa_mem s)
     else layout_align l dvd p \<and> oa_inv s' ((p, reserved l) # live)" by auto
  then show ?thesis by (intro exI [of _ p] exI [of _ s']) (simp add: frames_exhausted_def split: if_splits)
qed

theorem alloc_small_total_witness:
  "\<exists>s p s'. oa_inv s [] \<and> oa_alloc s \<lparr>layout_size = 100, layout_align = 16\<rparr> = Some (Inr (p, s'))"
proof -
  let ?l = "\<lparr>layout_size = 100, layout_align = 16\<rparr>"
  from oa_new_spec [OF example_frames(1,2)] example_frames(3) obtain s0 where s0: "oa_inv s0 []" by fastforce
  have l: "layout_ok ?l" by (auto simp: layout_ok_def intro: exI [of _ 4])
  show ?thesis using alloc_small_total [OF s0 l] s0 by (fastforce simp: frame_consts)
qed

text \<open>
  A released block is the next one handed out. Releasing a small block and asking again with the
  same layout returns the same block and restores the allocator, except for the link that the
  release wrote into the block.
\<close>

theorem dealloc_alloc_roundtrip:
  assumes "oa_dealloc s p l = Inr s1" and "layout_size l < 2048" and "layout_align l dvd p" and "p \<noteq> null"
    and "length (oa_pages s) = N_BLOCK_SIZES"
  shows "\<exists>x. oa_alloc s1 l = Some (Inr (p, s\<lparr>oa_heap := (oa_heap s)(p := x)\<rparr>))"
proof -
  from size_class_Some [OF assms(2)] obtain i where i: "i < N_BLOCK_SIZES"
      "size_class (layout_size l) = Some (i, BLOCK_SZ ! i)" by blast
  obtain pa page where pg: "oa_pages s ! i = (pa, page)" by fastforce
  have i': "i < length (oa_pages s)" using i(1) assms(5) by simp
  have s1: "s1 = s\<lparr>oa_heap := (oa_heap s)(p := ph_free_list page),
      oa_pages := (oa_pages s)[i := (pa, page\<lparr>ph_free_list := Some p\<rparr>)]\<rparr>"
    using assms(1,2) i i' pg by (simp add: oa_dealloc_def push_front_def res_simps)
  have "(oa_pages s)[i := (pa, page)] = oa_pages s" using i' pg by (simp add: list_update_same_conv)
  moreover have "is_aligned l p" using assms(3) by (simp add: is_aligned_def dvd_eq_mod_eq_0)
  ultimately have "oa_alloc_small s1 l i = Some (Inr (p, s\<lparr>oa_heap := (oa_heap s)(p := ph_free_list page)\<rparr>))"
    using s1 i' assms(4)
    by (simp add: oa_alloc_small_def res_simps pop_filter_def pop_front_def)
  then show ?thesis using assms(2) i(2) by (auto simp: oa_alloc_def)
qed

theorem dealloc_alloc_roundtrip_witness:
  "\<exists>s s1 x. oa_dealloc s 0x2000 \<lparr>layout_size = 100, layout_align = 16\<rparr> = Inr s1
     \<and> oa_alloc s1 \<lparr>layout_size = 100, layout_align = 16\<rparr> = Some (Inr (0x2000, s\<lparr>oa_heap := (oa_heap s)(0x2000 := x)\<rparr>))"
proof -
  let ?l = "\<lparr>layout_size = 100, layout_align = 16\<rparr>"
  define s where "s = \<lparr>oa_mem = \<lparr>alloc_map = [0], available_range = (1, 8)\<rparr>, oa_heap = (\<lambda>_. None),
    oa_pages = replicate 6 (0x1000, \<lparr>ph_next = 0, ph_free_list = None, ph_n_objs = 0, ph_obj_sz = 64\<rparr>)\<rparr>"
  have len: "length (oa_pages s) = N_BLOCK_SIZES" by (simp add: s_def)
  have "size_class 100 = Some (1, 128)" by (simp add: size_class_def BLOCK_SZ_def)
  then obtain s1 where s1: "oa_dealloc s 0x2000 ?l = Inr s1"
    using len by (auto simp: oa_dealloc_def res_simps push_front_def case_prod_beta)
  from dealloc_alloc_roundtrip [OF s1 _ _ _ len] show ?thesis using s1 by (fastforce simp: null_def)
qed

text \<open>
  Requests of exactly 2048 bytes always fail. The size classes are searched for a block that is
  strictly larger than the request while the direct path starts above 2048, so such a request
  returns null whatever memory is free, and releasing a block of that layout panics.
\<close>

theorem alloc_2048_null:
  assumes "layout_size l = 2048"
  shows "oa_alloc s l = Some (Inr (null, s)) \<and> oa_dealloc s p l = Inl UnwrapNone"
  using assms size_class_None by (simp add: oa_alloc_def oa_dealloc_def)

theorem alloc_2048_null_witness:
  "\<forall>s. oa_alloc s \<lparr>layout_size = 2048, layout_align = 1\<rparr> = Some (Inr (null, s))"
  using alloc_2048_null [of "\<lparr>layout_size = 2048, layout_align = 1\<rparr>"] by simp

text \<open>
  A request for more frames than the machine has panics instead of returning null: the frame
  allocator computes \<^verbatim>\<open>range.1 - nframes\<close> without a check, and the debug build stops on the underflow.
\<close>

theorem alloc_huge_panics:
  assumes "layout_ok l" and "2048 < layout_size l" and "layout_align l \<le> BYTES_PER_FRAME"
    and "snd (available_range (oa_mem s)) < reserved l div BYTES_PER_FRAME"
  shows "oa_alloc s l = Some (Inl ArithOverflow)"
proof -
  have "frames_for (layout_size l) = Inr (reserved l div BYTES_PER_FRAME)"
    using assms(1,2) frames_for_eq [of "layout_size l"] by (simp add: layout_ok_def reserved_def frame_consts)
  with mm_allocate_panics [OF assms(4)] assms(2,3) show ?thesis
    by (simp add: oa_alloc_def oa_alloc_large_def)
qed

theorem alloc_huge_panics_witness:
  "oa_alloc \<lparr>oa_mem = \<lparr>alloc_map = [0], available_range = (1, 8)\<rparr>, oa_heap = (\<lambda>_. None), oa_pages = []\<rparr>
     \<lparr>layout_size = 40960, layout_align = 8\<rparr> = Some (Inl ArithOverflow)"
  by (rule alloc_huge_panics)
    (auto simp: layout_ok_def reserved_def frame_consts intro: exI [of _ 3])

end
