(* ===== verification/Allocator_Tests.thy ===== *)
theory Allocator_Tests
  imports Heap_Clients
begin

text \<open>
  The start of the allocators with the self test that ends it: \<^verbatim>\<open>run_allocator_tests\<close> of \<^verbatim>\<open>kernel/src/memory_manager.rs\<close> asks for
  ten blocks of each of 64 layouts, fills each block with a pattern, and checks the patterns before it gives the blocks back.

  The test reads what it wrote, so here the memory is bytes as well. The bytes and the links of the free lists are two views
  of the same memory: a store of the test changes the link that a header at that place would have, and a link that the
  allocator writes changes the bytes under it. How a \<^verbatim>\<open>Mutex<ObjectHeader>\<close> lies in its 16 bytes is up to the crate of the
  lock and the compiler; it is a parameter.
\<close>

section \<open>Bytes and links\<close>

record link_codec =
  lc_read :: "u8 list \<Rightarrow> addr option"
  lc_write :: "addr option \<Rightarrow> u8 list"

definition links_of :: "link_codec \<Rightarrow> memory \<Rightarrow> heap" where
  "links_of c mem a = lc_read c (bytes_at mem a size_of_mutex_object_header)"

text \<open>The bytes after the links went from \<open>h\<close> to \<open>h'\<close>.\<close>

definition show_links :: "link_codec \<Rightarrow> heap \<Rightarrow> heap \<Rightarrow> memory \<Rightarrow> memory" where
  "show_links c h h' mem a =
     (case List.find (\<lambda>p. h' p \<noteq> h p) [a + 1 - size_of_mutex_object_header..<a + 1] of
        None \<Rightarrow> mem a
      | Some p \<Rightarrow> lc_write c (h' p) ! (a - p))"

type_synonym byte_heap = "object_allocator \<times> memory"

definition heap_alloc :: "link_codec \<Rightarrow> layout \<Rightarrow> byte_heap \<Rightarrow> (addr \<times> byte_heap) res option" where
  "heap_alloc c l = (\<lambda>(s, mem). cbind (oa_alloc s l) (\<lambda>(p, s').
     Some (Inr (p, s', show_links c (oa_heap s) (oa_heap s') mem))))"

definition heap_dealloc :: "link_codec \<Rightarrow> addr \<Rightarrow> layout \<Rightarrow> byte_heap \<Rightarrow> byte_heap res" where
  "heap_dealloc c p l = (\<lambda>(s, mem). rbind (oa_dealloc s p l) (\<lambda>s'.
     Inr (s', show_links c (oa_heap s) (oa_heap s') mem)))"

definition put_byte :: "link_codec \<Rightarrow> addr \<Rightarrow> u8 \<Rightarrow> byte_heap \<Rightarrow> byte_heap" where
  "put_byte c p v = (\<lambda>(s, mem). (oa_write [(p, 1)] (links_of c (mem(p := v))) s, mem(p := v)))"

section \<open>The self test\<close>

text \<open>\<^verbatim>\<open>Layout::from_size_align\<close>: the alignment is a power of two and the rounded size fits an \<^verbatim>\<open>isize\<close>.\<close>

definition from_size_align :: "nat \<Rightarrow> nat \<Rightarrow> layout option" where
  "from_size_align sz align =
     (if align \<noteq> 0 \<and> align AND (align - 1) = 0 \<and> sz \<le> 2 ^ 63 - align then Some \<lparr>layout_size = sz, layout_align = align\<rparr> else None)"

text \<open>\<^verbatim>\<open>x = (x * 129 + 111) as u8 as usize\<close>.\<close>

definition next_test_value :: "nat \<Rightarrow> nat res" where
  "next_test_value x = rbind (usize_mul x 129) (\<lambda>y. rbind (usize_add y 111) (\<lambda>z. Inr (z mod 256)))"

fun fill_block :: "link_codec \<Rightarrow> addr \<Rightarrow> nat \<Rightarrow> nat \<Rightarrow> byte_heap \<Rightarrow> byte_heap res" where
  "fill_block c p 0 x st = Inr st"
| "fill_block c p (Suc n) x st =
     rbind (Inr (put_byte c p (of_nat x) st)) (\<lambda>st.
     rbind (next_test_value x) (\<lambda>x. fill_block c (p + 1) n x st))"

fun check_block :: "memory \<Rightarrow> addr \<Rightarrow> nat \<Rightarrow> nat \<Rightarrow> unit res" where
  "check_block mem p 0 x = Inr ()"
| "check_block mem p (Suc n) x =
     rbind (rassert (mem p = of_nat x)) (\<lambda>_.
     rbind (next_test_value x) (\<lambda>x. check_block mem (p + 1) n x))"

text \<open>A slice of a null pointer is undefined.\<close>

definition test_alloc :: "link_codec \<Rightarrow> nat \<Rightarrow> nat \<Rightarrow> nat \<Rightarrow> addr list \<times> byte_heap \<Rightarrow> (addr list \<times> byte_heap) res option" where
  "test_alloc c align sz i = (\<lambda>(ptrs, st).
     cbind (Some (unwrap (from_size_align sz align))) (\<lambda>l.
     cbind (heap_alloc c l st) (\<lambda>(ptr, st).
     cbind (Some (store ptrs i ptr)) (\<lambda>ptrs.
     if ptr = null then Some (Inl UndefinedBehaviour)
     else cbind (Some (fill_block c ptr sz i st)) (\<lambda>st. Some (Inr (ptrs, st)))))))"

definition test_dealloc :: "link_codec \<Rightarrow> nat \<Rightarrow> nat \<Rightarrow> nat \<times> addr \<Rightarrow> byte_heap \<Rightarrow> byte_heap res option" where
  "test_dealloc c align sz = (\<lambda>(i, ptr) st. Some (
     rbind (check_block (snd st) ptr sz i) (\<lambda>_.
     rbind (unwrap (from_size_align sz align)) (\<lambda>l. heap_dealloc c ptr l st))))"

definition test_round :: "link_codec \<Rightarrow> nat \<Rightarrow> nat \<Rightarrow> byte_heap \<Rightarrow> byte_heap res option" where
  "test_round c align sz st =
     cbind (cfoldM (test_alloc c align sz) [0..<10] (replicate 10 null, st)) (\<lambda>(ptrs, st).
     cfoldM (test_dealloc c align sz) (enumerate 0 ptrs) st)"

definition test_sizes :: "nat list" where
  "test_sizes = [1, 2, 4, 8, 16, 32, 64, 128]"

definition run_allocator_tests :: "link_codec \<Rightarrow> byte_heap \<Rightarrow> byte_heap res option" where
  "run_allocator_tests c = cfoldM (\<lambda>align. cfoldM (test_round c align) test_sizes) test_sizes"

text \<open>\<^verbatim>\<open>init_allocators\<close>: the frame allocator from the memory map, the object allocator on it, the self test.\<close>

definition init_allocators :: "link_codec \<Rightarrow> memory \<Rightarrow> memory_map \<Rightarrow> byte_heap res option" where
  "init_allocators c mem mm =
     cbind (mm_entries mem mm) (\<lambda>entries.
     cbind (Some (new_at entries)) (\<lambda>m.
     cbind (oa_new m (links_of c mem)) (\<lambda>s.
     run_allocator_tests c (s, show_links c (links_of c mem) (oa_heap s) mem))))"

section \<open>What the operations leave alone\<close>

lemma show_links_changed:
  assumes "show_links c h h' mem a \<noteq> mem a"
  shows "\<exists>x. h' x \<noteq> h x \<and> x \<le> a \<and> a < x + 16"
proof -
  from assms obtain x where "List.find (\<lambda>p. h' p \<noteq> h p) [a + 1 - 16..<a + 1] = Some x"
    by (auto simp: show_links_def size_of_mutex_object_header_def split: option.splits)
  then have "h' x \<noteq> h x" "x \<in> set [a + 1 - 16..<a + 1]" unfolding find_Some_iff using nth_mem by metis+
  then show ?thesis by auto
qed

lemma oa_layout_perm:
  assumes "oa_layout s fl live" "mset live = mset live'"
  shows "oa_layout s fl live'"
proof -
  have m: "mset (oa_regions s fl live) = mset (oa_regions s fl live')" using assms(2) by (simp add: oa_regions_def)
  have "large_ok live = large_ok live'" using mset_eq_setD [OF assms(2)] by (simp add: large_ok_def)
  then show ?thesis using assms(1) regions_ok_perm [OF m] mset_eq_setD [OF m] by (simp add: oa_layout_def)
qed

text \<open>A store into a part of a live region.\<close>

lemma oa_write_part:
  assumes lay: "oa_layout s fl live" and r: "(p, z) \<in> set live" "p \<le> q" "q < p + z"
  shows "oa_layout (oa_write [(q, 1)] g s) fl live"
proof -
  have "touches [(p, z)] a" if "touches [(q, 1)] a" for a using that r(2,3) by (auto simp: touches_def)
  then have "oa_write [(q, 1)] g s = oa_write [(p, z)] (\<lambda>a. if touches [(q, 1)] a then g a else oa_heap s a) s"
    unfolding oa_write_def by (intro arg_cong [where f = "\<lambda>h. s\<lparr>oa_heap := h\<rparr>"]) auto
  then show ?thesis using oa_write_layout [OF lay, of "[(p, z)]"] r(1) by simp
qed

text \<open>Links change inside blocks only; the blocks of the test are disjoint from the free ones.\<close>

lemma links_in_blocks:
  assumes "show_links c h h' mem a \<noteq> mem a" "\<And>x. x \<notin> set bs \<Longrightarrow> h' x = h x" "i < N_BLOCK_SIZES"
  shows "\<exists>x \<in> set bs. a \<in> region_bytes (x, BLOCK_SZ ! i)"
proof -
  from show_links_changed [OF assms(1)] obtain x where x: "h' x \<noteq> h x" "x \<le> a" "a < x + 16" by blast
  moreover have "64 \<le> BLOCK_SZ ! i" using BLOCK_SZ_facts(4) [of i] assms(3) by simp
  ultimately show ?thesis using assms(2) by (force simp: region_bytes_def)
qed

lemma region_disj_bytes: "\<lbrakk>region_disj r q; a \<in> region_bytes r\<rbrakk> \<Longrightarrow> a \<notin> region_bytes q"
  by (auto simp: region_disj_def)

text \<open>
  During a round, the test holds the blocks \<open>ps\<close> of class \<open>i\<close>. Together with them the free lists hold the blocks \<open>fl0\<close> that they had at
  the start, no frame was taken, and only bytes of these blocks changed.
\<close>

definition testing :: "addr list list \<Rightarrow> region list \<Rightarrow> bitmap_mm \<Rightarrow> memory \<Rightarrow> nat \<Rightarrow> addr list \<Rightarrow> byte_heap \<Rightarrow> bool" where
  "testing fl0 live m0 mem0 i ps st \<longleftrightarrow> length (oa_pages (fst st)) = N_BLOCK_SIZES \<and> oa_mem (fst st) = m0
     \<and> (\<exists>fl. oa_layout (fst st) fl (map (\<lambda>p. (p, BLOCK_SZ ! i)) ps @ live)
          \<and> (\<forall>j < N_BLOCK_SIZES. mset (fl ! j) + (if j = i then mset ps else {#}) = mset (fl0 ! j)))
     \<and> (\<forall>a. snd st a \<noteq> mem0 a \<longrightarrow> (\<exists>j < N_BLOCK_SIZES. \<exists>x \<in> set (fl0 ! j). a \<in> region_bytes (x, BLOCK_SZ ! j)))"

lemma testing_perm:
  assumes "testing fl0 live m0 mem0 i ps st" "mset ps = mset qs"
  shows "testing fl0 live m0 mem0 i qs st"
proof -
  have "mset (map (\<lambda>p. (p, BLOCK_SZ ! i)) ps @ live) = mset (map (\<lambda>p. (p, BLOCK_SZ ! i)) qs @ live)" using assms(2) by simp
  then show ?thesis using assms oa_layout_perm unfolding testing_def by metis
qed

lemma testing_class: "testing fl0 live m0 mem0 i [] st = testing fl0 live m0 mem0 j [] st"
  unfolding testing_def by (simp only: mset.simps(1) if_cancel list.map append_Nil)

lemma testing_layout:
  assumes "testing fl0 live m0 mem0 i ps st" "i < N_BLOCK_SIZES"
  shows "distinct ps" "\<And>p q a. \<lbrakk>p \<in> set ps; q \<in> set ps; p \<noteq> q; a \<in> region_bytes (p, BLOCK_SZ ! i)\<rbrakk> \<Longrightarrow> a \<notin> region_bytes (q, BLOCK_SZ ! i)"
    "set ps \<subseteq> set (fl0 ! i)"
proof -
  obtain fl where fl: "oa_layout (fst st) fl (map (\<lambda>p. (p, BLOCK_SZ ! i)) ps @ live)" "mset (fl ! i) + mset ps = mset (fl0 ! i)"
    using assms by (auto simp: testing_def)
  have ok: "regions_ok (map (\<lambda>p. (p, BLOCK_SZ ! i)) ps)"
    using fl(1) unfolding oa_layout_def oa_regions_def regions_ok_append by blast
  show "distinct ps" using regions_ok_distinct [OF ok] by (simp add: comp_def)
  have "sorted_wrt (\<lambda>p q. region_disj (p, BLOCK_SZ ! i) (q, BLOCK_SZ ! i)) ps" using ok by (simp add: regions_ok_def sorted_wrt_map)
  then have "region_disj (p, BLOCK_SZ ! i) (q, BLOCK_SZ ! i)" if "p \<in> set ps" "q \<in> set ps" "p \<noteq> q" for p q
    using that region_disj_sym by (induction ps) auto
  then show "\<And>p q a. \<lbrakk>p \<in> set ps; q \<in> set ps; p \<noteq> q; a \<in> region_bytes (p, BLOCK_SZ ! i)\<rbrakk> \<Longrightarrow> a \<notin> region_bytes (q, BLOCK_SZ ! i)"
    using region_disj_bytes by blast
  show "set ps \<subseteq> set (fl0 ! i)" using fl(2) by (metis mset_subset_eq_add_right set_mset_mono set_mset_mset)
qed

lemma testing_alloc:
  assumes t: "testing fl0 live m0 mem0 i ps (s, mem)" and i: "size_class (layout_size l) = Some (i, BLOCK_SZ ! i)" "i < N_BLOCK_SIZES" "layout_size l < 2048"
    and more: "length ps < length (filter (is_aligned l) (fl0 ! i))"
  shows "\<exists>p st. heap_alloc c l (s, mem) = Some (Inr (p, st)) \<and> p \<noteq> null \<and> testing fl0 live m0 mem0 i (p # ps) st
    \<and> (\<forall>q \<in> set ps. \<forall>a \<in> region_bytes (q, BLOCK_SZ ! i). snd st a = mem a)"
proof -
  let ?live = "map (\<lambda>p. (p, BLOCK_SZ ! i)) ps @ live"
  obtain fl where fl: "oa_layout s fl ?live" "\<And>j. j < N_BLOCK_SIZES \<Longrightarrow> mset (fl ! j) + (if j = i then mset ps else {#}) = mset (fl0 ! j)"
    and len: "length (oa_pages s) = N_BLOCK_SIZES" "oa_mem s = m0"
    and ch: "\<And>a. mem a \<noteq> mem0 a \<Longrightarrow> \<exists>j < N_BLOCK_SIZES. \<exists>x \<in> set (fl0 ! j). a \<in> region_bytes (x, BLOCK_SZ ! j)"
    using t by (auto simp: testing_def)
  have li: "length fl = N_BLOCK_SIZES" "i < length fl" "i < length (oa_pages s)" using fl(1) len i(2) by (auto simp: oa_layout_def lists_ok_def)
  have m: "mset (fl0 ! i) = mset (fl ! i) + mset ps" using fl(2) [OF i(2)] by simp
  have "length (filter (is_aligned l) (fl0 ! i)) \<le> length (filter (is_aligned l) (fl ! i)) + length ps"
    using arg_cong [OF m, of "\<lambda>M. size (filter_mset (is_aligned l) M)"] size_filter_mset_lesseq [of "is_aligned l" "mset ps"]
    by (simp flip: mset_filter)
  then have "filter (is_aligned l) (fl ! i) \<noteq> []" using more by auto
  then have "\<exists>x \<in> set (fl ! i). is_aligned l x" by (auto simp: filter_empty_conv)
  from oa_pop_block [OF fl(1) li(2), of "is_aligned l", OF this] obtain p h head ys where
    p: "pop_filter (is_aligned l) (oa_heap s) (ph_free_list (snd (oa_pages s ! i))) = Some (p, h, head)" "p \<noteq> null"
      "mset (fl ! i) = add_mset p (mset ys)" "\<forall>x. x \<notin> set (fl ! i) \<longrightarrow> h x = oa_heap s x"
      "oa_layout (upd_class s i (oa_mem s) h head) (fl[i := ys]) ((p, BLOCK_SZ ! i) # ?live)" by blast
  let ?s = "upd_class s i (oa_mem s) h head" and ?mem = "show_links c (oa_heap s) h mem"
  have "oa_alloc s l = Some (Inr (p, ?s))"
    using p(1,2) li(3) i by (simp add: oa_alloc_def oa_alloc_small_def res_simps upd_class_def case_prod_beta)
  then have run: "heap_alloc c l (s, mem) = Some (Inr (p, ?s, ?mem))" by (simp add: heap_alloc_def)
  have blk: "\<exists>x \<in> set (fl ! i). a \<in> region_bytes (x, BLOCK_SZ ! i)" if "?mem a \<noteq> mem a" for a
    by (rule links_in_blocks [OF that _ i(2)]) (use p(4) in blast)
  have "?mem a = mem a" if "q \<in> set ps" "a \<in> region_bytes (q, BLOCK_SZ ! i)" for q a
  proof (rule ccontr)
    assume "?mem a \<noteq> mem a"
    from blk [OF this] obtain x where x: "x \<in> set (fl ! i)" "a \<in> region_bytes (x, BLOCK_SZ ! i)" by blast
    have "(x, BLOCK_SZ ! i) \<in> set (free_regs BLOCK_SZ fl)" using free_regs_mem [OF li(2) _ x(1)] li(1) by simp
    then have "region_disj (x, BLOCK_SZ ! i) (q, BLOCK_SZ ! i)"
      using fl(1) that(1) by (auto simp: oa_layout_def oa_regions_def regions_ok_append)
    then show False using region_disj_bytes x(2) that(2) by blast
  qed
  moreover have "testing fl0 live m0 mem0 i (p # ps) (?s, ?mem)"
  proof -
    have "mset ((fl[i := ys]) ! j) + (if j = i then mset (p # ps) else {#}) = mset (fl0 ! j)" if "j < N_BLOCK_SIZES" for j
      using fl(2) [OF that] p(3) li(2) by (cases "j = i") auto
    moreover have "\<exists>j < N_BLOCK_SIZES. \<exists>x \<in> set (fl0 ! j). a \<in> region_bytes (x, BLOCK_SZ ! j)" if "?mem a \<noteq> mem0 a" for a
    proof (cases "?mem a = mem a")
      case False
      have "set (fl ! i) \<subseteq> set (fl0 ! i)" using m by (metis mset_subset_eq_add_left set_mset_mono set_mset_mset)
      then show ?thesis using blk [OF False] i(2) by blast
    qed (use ch that in auto)
    ultimately show ?thesis unfolding testing_def fst_conv snd_conv using p(5) len by (intro conjI exI [of _ "fl[i := ys]"]) simp_all
  qed
  ultimately show ?thesis using run p(2) by (intro exI [of _ p] exI [of _ "(?s, ?mem)"]) simp
qed

lemma testing_dealloc:
  assumes t: "testing fl0 live m0 mem0 i ps (s, mem)" and i: "size_class (layout_size l) = Some (i, BLOCK_SZ ! i)" "i < N_BLOCK_SIZES" "layout_size l < 2048"
    and p: "ps = p # qs"
  shows "\<exists>st. heap_dealloc c p l (s, mem) = Inr st \<and> testing fl0 live m0 mem0 i qs st
    \<and> (\<forall>q \<in> set qs. \<forall>a \<in> region_bytes (q, BLOCK_SZ ! i). snd st a = mem a)"
proof -
  let ?live = "map (\<lambda>p. (p, BLOCK_SZ ! i)) ps @ live"
  obtain fl where fl: "oa_layout s fl ?live" "\<And>j. j < N_BLOCK_SIZES \<Longrightarrow> mset (fl ! j) + (if j = i then mset ps else {#}) = mset (fl0 ! j)"
    and len: "length (oa_pages s) = N_BLOCK_SIZES" "oa_mem s = m0"
    and ch: "\<And>a. mem a \<noteq> mem0 a \<Longrightarrow> \<exists>j < N_BLOCK_SIZES. \<exists>x \<in> set (fl0 ! j). a \<in> region_bytes (x, BLOCK_SZ ! j)"
    using t by (auto simp: testing_def)
  have li: "length fl = N_BLOCK_SIZES" using fl(1) len by (auto simp: oa_layout_def lists_ok_def)
  have res: "reserved l = BLOCK_SZ ! i" using i by (simp add: reserved_def)
  from oa_dealloc_block [OF fl(1) len(1) i(3) _ i(1,2), of p] p res obtain v where
    d: "oa_dealloc s p l = Inr (upd_class s i (oa_mem s) ((oa_heap s)(p := v)) (Some p))"
      "oa_layout (upd_class s i (oa_mem s) ((oa_heap s)(p := v)) (Some p)) (fl[i := p # fl ! i]) (map (\<lambda>p. (p, BLOCK_SZ ! i)) qs @ live)"
    by (auto simp: Let_def)
  let ?s = "upd_class s i (oa_mem s) ((oa_heap s)(p := v)) (Some p)" and ?mem = "show_links c (oa_heap s) ((oa_heap s)(p := v)) mem"
  have run: "heap_dealloc c p l (s, mem) = Inr (?s, ?mem)" using d(1) by (simp add: heap_dealloc_def)
  note tl = testing_layout [OF t i(2), unfolded p]
  have blk: "a \<in> region_bytes (p, BLOCK_SZ ! i)" if "?mem a \<noteq> mem a" for a
    using links_in_blocks [OF that, of "[p]" i] i(2) by simp
  have "?mem a = mem a" if "q \<in> set qs" "a \<in> region_bytes (q, BLOCK_SZ ! i)" for q a
    using blk [of a] tl(2) [of q p a] tl(1) that by auto
  moreover have "testing fl0 live m0 mem0 i qs (?s, ?mem)"
  proof -
    have "mset ((fl[i := p # fl ! i]) ! j) + (if j = i then mset qs else {#}) = mset (fl0 ! j)" if "j < N_BLOCK_SIZES" for j
      using fl(2) [OF that] p li that by (cases "j = i") auto
    moreover have "\<exists>j < N_BLOCK_SIZES. \<exists>x \<in> set (fl0 ! j). a \<in> region_bytes (x, BLOCK_SZ ! j)" if "?mem a \<noteq> mem0 a" for a
      using blk [of a] tl(3) i(2) ch [of a] that by (cases "?mem a = mem a") auto
    ultimately show ?thesis unfolding testing_def fst_conv snd_conv using d(2) len by (intro conjI exI [of _ "fl[i := p # fl ! i]"]) simp_all
  qed
  ultimately show ?thesis using run by auto
qed

section \<open>The pattern\<close>

fun test_pattern :: "nat \<Rightarrow> nat \<Rightarrow> u8 list" where
  "test_pattern x 0 = []"
| "test_pattern x (Suc n) = of_nat x # test_pattern ((x * 129 + 111) mod 256) n"

lemma next_value [simp]: "x < 256 \<Longrightarrow> next_test_value x = Inr ((x * 129 + 111) mod 256)"
  by (simp add: next_test_value_def res_simps usize_bound_def)

lemma bytes_at_Suc: "bytes_at mem p (Suc n) = mem p # bytes_at mem (Suc p) n"
proof -
  have "bytes_at mem p 1 = [mem p]" by (simp add: bytes_at_def)
  then show ?thesis using bytes_at_append [of mem p 1 n] by simp
qed

lemma testing_put:
  assumes t: "testing fl0 live m0 mem0 i ps st" and p: "p \<in> set ps" "p \<le> q" "q < p + BLOCK_SZ ! i" and i: "i < N_BLOCK_SIZES"
  shows "testing fl0 live m0 mem0 i ps (put_byte c q v st)"
proof -
  obtain s mem where st: "st = (s, mem)" by fastforce
  have "q \<in> region_bytes (p, BLOCK_SZ ! i)" using p by (simp add: region_bytes_def)
  moreover have "p \<in> set (fl0 ! i)" using testing_layout(3) [OF t i] p(1) by blast
  ultimately have "\<exists>j < N_BLOCK_SIZES. \<exists>x \<in> set (fl0 ! j). q \<in> region_bytes (x, BLOCK_SZ ! j)" using i by blast
  moreover have "oa_layout (oa_write [(q, 1)] g s) fl (map (\<lambda>p. (p, BLOCK_SZ ! i)) ps @ live)"
    if "oa_layout s fl (map (\<lambda>p. (p, BLOCK_SZ ! i)) ps @ live)" for fl g
    using oa_write_part [OF that _ p(2,3)] p(1) by auto
  moreover obtain fl where "oa_layout s fl (map (\<lambda>p. (p, BLOCK_SZ ! i)) ps @ live)"
    "\<forall>j < N_BLOCK_SIZES. mset (fl ! j) + (if j = i then mset ps else {#}) = mset (fl0 ! j)" using t st by (auto simp: testing_def)
  ultimately show ?thesis using t unfolding testing_def st put_byte_def case_prod_conv fst_conv snd_conv oa_write_pages
    by (intro conjI exI [of _ fl]) auto
qed

lemma fill_block_ok:
  assumes "testing fl0 live m0 mem0 i ps st" "p \<in> set ps" "p \<le> q" "q + n \<le> p + BLOCK_SZ ! i" "i < N_BLOCK_SIZES" "x < 256"
  shows "\<exists>st'. fill_block c q n x st = Inr st' \<and> testing fl0 live m0 mem0 i ps st' \<and> bytes_at (snd st') q n = test_pattern x n
    \<and> (\<forall>a. a \<notin> {q..<q + n} \<longrightarrow> snd st' a = snd st a)"
  using assms
proof (induction n arbitrary: q x st)
  case 0
  then show ?case by (simp add: bytes_at_def)
next
  case (Suc n)
  let ?st = "put_byte c q (of_nat x) st"
  have t: "testing fl0 live m0 mem0 i ps ?st" using testing_put [OF Suc.prems(1-3)] Suc.prems(4,5) by simp
  have m: "snd ?st = (snd st)(q := of_nat x)" by (simp add: put_byte_def case_prod_beta)
  from Suc.IH [OF t Suc.prems(2), of "Suc q" "(x * 129 + 111) mod 256"] Suc.prems(3-5) obtain st' where
    st': "fill_block c (Suc q) n ((x * 129 + 111) mod 256) ?st = Inr st'" "testing fl0 live m0 mem0 i ps st'"
      "bytes_at (snd st') (Suc q) n = test_pattern ((x * 129 + 111) mod 256) n" "\<forall>a. a \<notin> {Suc q..<Suc q + n} \<longrightarrow> snd st' a = snd ?st a"
    by auto
  have "snd st' q = of_nat x" using st'(4) m by simp
  then have "bytes_at (snd st') q (Suc n) = test_pattern x (Suc n)" using st'(3) by (simp add: bytes_at_Suc)
  moreover have "snd st' a = snd st a" if "a \<notin> {q..<q + Suc n}" for a using that st'(4) m by auto
  ultimately show ?case using st'(1,2) Suc.prems(6) by auto
qed

lemma check_block_ok:
  assumes "bytes_at mem p n = test_pattern x n" "x < 256"
  shows "check_block mem p n x = Inr ()"
  using assms by (induction n arbitrary: p x) (auto simp: bytes_at_Suc)

section \<open>The test passes\<close>

text \<open>The layouts of the test, and what the first pages have to offer for them.\<close>

definition stocked :: "addr list list \<Rightarrow> bool" where
  "stocked fl \<longleftrightarrow> (\<forall>i < 3. \<forall>align \<in> set test_sizes. 10 \<le> length (filter (\<lambda>a. a mod align = 0) (fl ! i)))"

lemma test_layout:
  assumes "align \<in> set test_sizes" "sz \<in> set test_sizes"
  shows "from_size_align sz align = Some \<lparr>layout_size = sz, layout_align = align\<rparr>" "sz < 2048"
    "\<exists>i < 3. size_class sz = Some (i, BLOCK_SZ ! i) \<and> sz \<le> BLOCK_SZ ! i"
proof -
  have s: "align \<in> {1, 2, 4, 8, 16, 32, 64, 128}" "sz \<in> {1, 2, 4, 8, 16, 32, 64, 128}" using assms by (simp_all add: test_sizes_def)
  have "align AND (align - 1) = 0" "align \<noteq> 0" "align \<le> 128" "sz \<le> 128" using s by auto
  then show "from_size_align sz align = Some \<lparr>layout_size = sz, layout_align = align\<rparr>" by (simp add: from_size_align_def)
  show "sz < 2048" using s(2) by auto
  show "\<exists>i < 3. size_class sz = Some (i, BLOCK_SZ ! i) \<and> sz \<le> BLOCK_SZ ! i"
    using s(2) by (auto simp: size_class_def BLOCK_SZ_def intro: exI [of _ 0] exI [of _ 1] exI [of _ 2])
qed

lemma test_alloc_step:
  assumes t: "testing fl0 live m0 mem0 i (take k ptrs) st" "length ptrs = 10" "k < 10" "\<forall>j < k. bytes_at (snd st) (ptrs ! j) sz = test_pattern j sz"
    and i: "i < 3" "size_class sz = Some (i, BLOCK_SZ ! i)" "sz \<le> BLOCK_SZ ! i" and s: "align \<in> set test_sizes" "sz \<in> set test_sizes" "stocked fl0"
  shows "\<exists>ptrs' st'. test_alloc c align sz k (ptrs, st) = Some (Inr (ptrs', st')) \<and> testing fl0 live m0 mem0 i (take (Suc k) ptrs') st'
    \<and> length ptrs' = 10 \<and> (\<forall>j < Suc k. bytes_at (snd st') (ptrs' ! j) sz = test_pattern j sz)"
proof -
  let ?l = "\<lparr>layout_size = sz, layout_align = align\<rparr>"
  obtain a mem where st: "st = (a, mem)" by fastforce
  note l = test_layout [OF s(1,2)]
  have N: "i < N_BLOCK_SIZES" using i(1) by simp
  have "is_aligned ?l = (\<lambda>a. a mod align = 0)" by (auto simp: is_aligned_def)
  then have "10 \<le> length (filter (is_aligned ?l) (fl0 ! i))" using s(1,3) i(1) by (simp add: stocked_def)
  then have more: "length (take k ptrs) < length (filter (is_aligned ?l) (fl0 ! i))" using t(2,3) by simp
  from testing_alloc [OF t(1) [unfolded st] _ N _ more, of c] i(2) l(2) obtain p st1 where
    p: "heap_alloc c ?l st = Some (Inr (p, st1))" "p \<noteq> null" "testing fl0 live m0 mem0 i (p # take k ptrs) st1"
      "\<forall>q \<in> set (take k ptrs). \<forall>a \<in> region_bytes (q, BLOCK_SZ ! i). snd st1 a = mem a" by (auto simp: st)
  from fill_block_ok [OF p(3), of p p sz k c] i(3) N t(3) obtain st2 where
    f: "fill_block c p sz k st1 = Inr st2" "testing fl0 live m0 mem0 i (p # take k ptrs) st2" "bytes_at (snd st2) p sz = test_pattern k sz"
      "\<forall>a. a \<notin> {p..<p + sz} \<longrightarrow> snd st2 a = snd st1 a" by auto
  let ?ptrs = "ptrs[k := p]"
  have tk: "take (Suc k) ?ptrs = take k ptrs @ [p]" using t(2,3) by (simp add: take_Suc_conv_app_nth)
  then have "testing fl0 live m0 mem0 i (take (Suc k) ?ptrs) st2" using testing_perm [OF f(2)] by simp
  moreover have "bytes_at (snd st2) (?ptrs ! j) sz = test_pattern j sz" if "j < Suc k" for j
  proof (cases "j = k")
    case True
    then show ?thesis using f(3) t(2,3) by simp
  next
    case False
    then have j: "j < k" "?ptrs ! j = ptrs ! j" "ptrs ! j \<in> set (take k ptrs)"
      using that t(2,3) nth_mem [of j "take k ptrs"] by auto
    note tl = testing_layout [OF f(2) N]
    have "snd st2 a = mem a" if "ptrs ! j \<le> a" "a < ptrs ! j + sz" for a
    proof -
      have r: "a \<in> region_bytes (ptrs ! j, BLOCK_SZ ! i)" using that i(3) by (simp add: region_bytes_def)
      have "a \<notin> region_bytes (p, BLOCK_SZ ! i)" using tl(2) [of "ptrs ! j" p a] tl(1) j(3) r by auto
      then have "a \<notin> {p..<p + sz}" using i(3) by (auto simp: region_bytes_def)
      then show ?thesis using f(4) p(4) j(3) r by auto
    qed
    then have "bytes_at (snd st2) (ptrs ! j) sz = bytes_at mem (ptrs ! j) sz" by (intro bytes_at_eq) blast
    then show ?thesis using t(4) j(1,2) st by simp
  qed
  moreover have "test_alloc c align sz k (ptrs, st) = Some (Inr (?ptrs, st2))"
    using l(1) p(1,2) f(1) t(2,3) by (simp add: test_alloc_def res_simps)
  ultimately show ?thesis using t(2) by (intro exI [of _ ?ptrs] exI [of _ st2]) simp
qed

lemma test_dealloc_step:
  assumes t: "testing fl0 live m0 mem0 i (drop k ptrs) st" "length ptrs = 10" "k < 10"
      "\<forall>j \<in> {k..<10}. bytes_at (snd st) (ptrs ! j) sz = test_pattern j sz"
    and i: "i < 3" "size_class sz = Some (i, BLOCK_SZ ! i)" "sz \<le> BLOCK_SZ ! i" and s: "align \<in> set test_sizes" "sz \<in> set test_sizes"
  shows "\<exists>st'. test_dealloc c align sz (k, ptrs ! k) st = Some (Inr st') \<and> testing fl0 live m0 mem0 i (drop (Suc k) ptrs) st'
    \<and> (\<forall>j \<in> {Suc k..<10}. bytes_at (snd st') (ptrs ! j) sz = test_pattern j sz)"
proof -
  let ?l = "\<lparr>layout_size = sz, layout_align = align\<rparr>"
  obtain a mem where st: "st = (a, mem)" by fastforce
  note l = test_layout [OF s(1,2)]
  have N: "i < N_BLOCK_SIZES" using i(1) by simp
  have ps: "drop k ptrs = ptrs ! k # drop (Suc k) ptrs" using t(2,3) by (simp add: Cons_nth_drop_Suc)
  from testing_dealloc [OF t(1) [unfolded st] _ N _ ps, of ?l c] i(2) l(2) obtain st1 where
    d: "heap_dealloc c (ptrs ! k) ?l st = Inr st1" "testing fl0 live m0 mem0 i (drop (Suc k) ptrs) st1"
      "\<forall>q \<in> set (drop (Suc k) ptrs). \<forall>a \<in> region_bytes (q, BLOCK_SZ ! i). snd st1 a = mem a" by (auto simp: st)
  have "check_block (snd st) (ptrs ! k) sz k = Inr ()" using t(3,4) by (intro check_block_ok) auto
  then have "test_dealloc c align sz (k, ptrs ! k) st = Some (Inr st1)" using l(1) d(1) by (simp add: test_dealloc_def)
  moreover have "bytes_at (snd st1) (ptrs ! j) sz = test_pattern j sz" if j: "j \<in> {Suc k..<10}" for j
  proof -
    have "ptrs ! j \<in> set (drop (Suc k) ptrs)" using j t(2) by (auto simp: in_set_conv_nth intro: exI [of _ "j - Suc k"])
    then have "snd st1 a = mem a" if "ptrs ! j \<le> a" "a < ptrs ! j + sz" for a
      using d(3) that i(3) by (simp add: region_bytes_def)
    then have "bytes_at (snd st1) (ptrs ! j) sz = bytes_at mem (ptrs ! j) sz" by (intro bytes_at_eq) blast
    then show ?thesis using t(4) j st by simp
  qed
  ultimately show ?thesis using d(2) by blast
qed

lemma test_round_ok:
  assumes t: "testing fl0 live m0 mem0 0 [] st" and s: "align \<in> set test_sizes" "sz \<in> set test_sizes" "stocked fl0"
  shows "\<exists>st'. test_round c align sz st = Some (Inr st') \<and> testing fl0 live m0 mem0 0 [] st'"
proof -
  from test_layout(3) [OF s(1,2)] obtain i where i: "i < 3" "size_class sz = Some (i, BLOCK_SZ ! i)" "sz \<le> BLOCK_SZ ! i" by blast
  let ?A = "\<lambda>k (ptrs, st). testing fl0 live m0 mem0 i (take k ptrs) st \<and> length ptrs = 10 \<and> (\<forall>j < k. bytes_at (snd st) (ptrs ! j) sz = test_pattern j sz)"
  have "\<exists>t'. cfoldM (test_alloc c align sz) [0..<10] (replicate 10 null, st) = Some (Inr t') \<and> ?A (length [0..<10]) t'"
  proof (rule cfoldM_nth)
    show "?A 0 (replicate 10 null, st)" using t testing_class [of fl0 live m0 mem0 i st 0] by simp
    fix k t
    assume "k < length [0..<10]" "?A k t"
    then show "\<exists>t'. test_alloc c align sz ([0..<10] ! k) t = Some (Inr t') \<and> ?A (Suc k) t'"
      using test_alloc_step [OF _ _ _ _ i s, of live m0 mem0 k "fst t" "snd t" c] by (cases t) auto
  qed
  then obtain ptrs st1 where a: "cfoldM (test_alloc c align sz) [0..<10] (replicate 10 null, st) = Some (Inr (ptrs, st1))"
    "testing fl0 live m0 mem0 i ptrs st1" "length ptrs = 10" "\<forall>j < 10. bytes_at (snd st1) (ptrs ! j) sz = test_pattern j sz" by auto
  let ?D = "\<lambda>k st. testing fl0 live m0 mem0 i (drop k ptrs) st \<and> (\<forall>j \<in> {k..<10}. bytes_at (snd st) (ptrs ! j) sz = test_pattern j sz)"
  have "\<exists>st'. cfoldM (test_dealloc c align sz) (enumerate 0 ptrs) st1 = Some (Inr st') \<and> ?D (length (enumerate 0 ptrs)) st'"
  proof (rule cfoldM_nth)
    show "?D 0 st1" using a by simp
    fix k t
    assume "k < length (enumerate 0 ptrs)" "?D k t"
    then show "\<exists>t'. test_dealloc c align sz (enumerate 0 ptrs ! k) t = Some (Inr t') \<and> ?D (Suc k) t'"
      using test_dealloc_step [OF _ a(3) _ _ i s(1,2), of fl0 live m0 mem0 k t c] a(3) by (simp add: nth_enumerate_eq)
  qed
  then obtain st2 where "cfoldM (test_dealloc c align sz) (enumerate 0 ptrs) st1 = Some (Inr st2)" "testing fl0 live m0 mem0 i [] st2"
    using a(3) by auto
  then show ?thesis using a(1) testing_class [of fl0 live m0 mem0 i st2 0] by (simp add: test_round_def)
qed

lemma run_tests_ok:
  assumes "testing fl0 live m0 mem0 0 [] st" "stocked fl0"
  shows "\<exists>st'. run_allocator_tests c st = Some (Inr st') \<and> testing fl0 live m0 mem0 0 [] st'"
proof -
  let ?P = "\<lambda>_. testing fl0 live m0 mem0 0 []"
  have "\<exists>t'. cfoldM (test_round c align) test_sizes t = Some (Inr t') \<and> ?P (length test_sizes) t'"
    if "align \<in> set test_sizes" "?P k t" for align k t
    by (rule cfoldM_nth [of _ ?P]) (use test_round_ok [OF _ that(1) _ assms(2)] that(2) in auto)
  then show ?thesis unfolding run_allocator_tests_def
    using cfoldM_nth [of test_sizes ?P "\<lambda>align. cfoldM (test_round c align) test_sizes" st] assms(1) nth_mem by metis
qed

text \<open>The first page of each of the three classes has ten blocks for every alignment of the test.\<close>

lemma first_blocks_many:
  assumes b: "first_blocks sz bs" and k: "sz \<in> {64, 128, 256}" and al: "align \<in> set test_sizes"
  shows "10 \<le> length (filter (\<lambda>a. a mod align = 0) bs)"
proof -
  obtain f where bs: "bs = blocks (f * 4096 + sz) sz (4096 div sz - 1)" using b by (auto simp: first_blocks_def frame_consts)
  define w where "w = max 128 sz"
  let ?xs = "map (\<lambda>j. f * 4096 + w * Suc j) [0..<10]"
  have w: "0 < w" by (simp add: w_def)
  have "f * 4096 + w * Suc j \<in> set bs" if "j < 10" for j
  proof -
    have "f * 4096 + w * Suc j = f * 4096 + sz + (w div sz * Suc j - 1) * sz" "w div sz * Suc j - 1 < 4096 div sz - 1"
      using k that by (auto simp: w_def)
    then show ?thesis by (auto simp: bs blocks_def)
  qed
  moreover have "(f * 4096 + w * Suc j) mod align = 0" for j
  proof -
    have "align dvd 128" "align dvd 4096" using al by (auto simp: test_sizes_def)
    moreover have "128 dvd w" using k by (auto simp: w_def)
    ultimately have "align dvd f * 4096 + w * Suc j" by (meson dvd_add dvd_mult dvd_mult2 dvd_trans)
    then show ?thesis by (simp add: dvd_eq_mod_eq_0)
  qed
  ultimately have "set ?xs \<subseteq> set (filter (\<lambda>a. a mod align = 0) bs)" by auto
  moreover have "card (set ?xs) = 10" using w by (subst distinct_card) (auto simp: distinct_map inj_on_def)
  ultimately show ?thesis using card_mono [OF finite_set, of "set ?xs" "filter (\<lambda>a. a mod align = 0) bs"]
      card_length [of "filter (\<lambda>a. a mod align = 0) bs"] by simp
qed

lemma first_blocks_stocked:
  assumes "\<forall>j < N_BLOCK_SIZES. first_blocks (BLOCK_SZ ! j) (fl ! j)"
  shows "stocked fl"
  unfolding stocked_def
proof (intro allI impI ballI)
  fix i align
  assume i: "i < (3::nat)" and al: "align \<in> set test_sizes"
  have "BLOCK_SZ ! i \<in> {64, 128, 256}" using i by (auto simp: BLOCK_SZ_def less_Suc_eq numeral_3_eq_3)
  moreover have "first_blocks (BLOCK_SZ ! i) (fl ! i)" using assms i by simp
  ultimately show "10 \<le> length (filter (\<lambda>a. a mod align = 0) (fl ! i))" using first_blocks_many al by blast
qed

section \<open>The managed range never changes\<close>

lemma set_bit_range: "set_bit_frame m f b = Inr m' \<Longrightarrow> available_range m' = available_range m"
  by (auto simp: set_bit_frame_def Let_def)

lemma mark_range: "mark_allocated m f n = Inr m' \<Longrightarrow> available_range m' = available_range m"
  unfolding mark_allocated_def rbind_eq_Inr
  by (elim exE conjE, erule foldM_invariant) (auto dest: set_bit_range)

lemma free_range: "mm_free m f n = Inr m' \<Longrightarrow> available_range m' = available_range m"
  unfolding mm_free_def rbind_eq_Inr
  by (elim exE conjE, erule foldM_invariant) (auto dest: set_bit_range)

lemma allocate_range: "mm_allocate m n = Inr (r, m') \<Longrightarrow> available_range m' = available_range m"
proof -
  have "available_range m' = available_range m" if "allocate_from m n s = Inr (r, m')" for s
    using that
  proof (induction m n s rule: allocate_from.induct)
    case (1 m n s)
    from 1(2) show ?case
      by (subst (asm) allocate_from.simps) (auto simp: mark_range split: if_splits intro: 1(1))
  qed
  then show "mm_allocate m n = Inr (r, m') \<Longrightarrow> available_range m' = available_range m" by (simp add: mm_allocate_def)
qed

lemma oa_alloc_range: "oa_alloc s l = Some (Inr (p, s')) \<Longrightarrow> available_range (oa_mem s') = available_range (oa_mem s)"
  by (auto simp: oa_alloc_def oa_alloc_large_def oa_alloc_small_def Let_def allocate_range split: if_splits option.splits)

lemma oa_dealloc_range: "oa_dealloc s p l = Inr s' \<Longrightarrow> available_range (oa_mem s') = available_range (oa_mem s)"
  by (auto simp: oa_dealloc_def free_range Let_def case_prod_beta split: if_splits)

lemma oa_new_range: "oa_new m h = Some (Inr s) \<Longrightarrow> available_range (oa_mem s) = available_range m"
  unfolding oa_new_def
  by (erule cfoldM_invariant) (auto simp: oa_new_step_def allocate_range)

lemma client_run_range:
  assumes "cfoldM (client_step oa_alloc oa_dealloc oa_write) evs (s0, []) = Some (Inr (s, owned))"
  shows "available_range (oa_mem s) = available_range (oa_mem s0)"
proof -
  have "available_range (oa_mem (fst (s, owned))) = available_range (oa_mem s0)"
    using assms
  proof (rule cfoldM_invariant)
    show "available_range (oa_mem (fst t')) = available_range (oa_mem s0)"
      if "available_range (oa_mem (fst t)) = available_range (oa_mem s0)" "client_step oa_alloc oa_dealloc oa_write ev t = Some (Inr t')"
      for ev t t'
      using that by (cases ev) (auto simp: client_step_def oa_write_def oa_alloc_range oa_dealloc_range split: if_splits prod.splits)
  qed simp
  then show ?thesis by simp
qed

section \<open>Reserved frames\<close>

definition frame_region :: "nat \<Rightarrow> region" where
  "frame_region f = (f * BYTES_PER_FRAME, BYTES_PER_FRAME)"

lemma frame_region_bytes: "b \<in> region_bytes (frame_region f) \<longleftrightarrow> b div BYTES_PER_FRAME = f"
proof
  let ?P = BYTES_PER_FRAME
  have P: "0 < ?P" by (simp add: frame_consts)
  show "b div ?P = f" if "b \<in> region_bytes (frame_region f)"
    using that by (intro div_nat_eqI) (auto simp: frame_region_def region_bytes_def mult.commute)
  show "b \<in> region_bytes (frame_region f)" if "b div ?P = f"
    using that times_div_less_eq_dividend [of ?P b] dividend_less_times_div [OF P, of b]
    by (auto simp: frame_region_def region_bytes_def mult.commute)
qed

lemma frame_regions_ok: "distinct fs \<Longrightarrow> regions_ok (map frame_region fs)"
  by (induction fs) (auto simp: region_disj_def frame_region_bytes disjoint_iff, simp add: frame_region_def frame_consts)

lemma frame_regions_large: "large_ok (map frame_region fs)"
  by (auto simp: large_ok_def frame_region_def)

definition frame_regions :: "nat set \<Rightarrow> region list" where
  "frame_regions F = map frame_region (sorted_list_of_set F)"

lemma frame_regions_set: "set (frame_regions (R \<inter> managed_frames m)) = frame_region ` (R \<inter> managed_frames m)"
  by (simp add: frame_regions_def managed_frames_def)

lemma frame_regions_live:
  assumes "R \<inter> managed_frames m \<subseteq> used m"
  shows "regions_ok (frame_regions (R \<inter> managed_frames m))" "\<forall>r \<in> set (frame_regions (R \<inter> managed_frames m)). in_frames m r"
    "large_ok (frame_regions (R \<inter> managed_frames m))"
proof -
  show "regions_ok (frame_regions (R \<inter> managed_frames m))" unfolding frame_regions_def by (rule frame_regions_ok) simp
  show "large_ok (frame_regions (R \<inter> managed_frames m))" unfolding frame_regions_def by (rule frame_regions_large)
  show "\<forall>r \<in> set (frame_regions (R \<inter> managed_frames m)). in_frames m r"
    using assms by (auto simp: frame_regions_set in_frames_def frame_region_bytes)
qed

text \<open>All available frames but two can be handed out: frame 0 and the last one are not.\<close>

lemma new_at_frames:
  assumes "ascending_map ds" "fits_bitmap ds"
  shows "\<exists>m. new_at ds = Inr m \<and> mm_inv m \<and> n_frames m = FRAME_COUNT \<and> card (available_frames ds) - 2 \<le> card (free_below m)
    \<and> (\<forall>f \<in> managed_frames m. f \<in> used m \<longleftrightarrow> f \<notin> available_frames ds)"
proof -
  from new_at_total [OF assms(1,2)] obtain m where m: "new_at ds = Inr m" "mm_inv m" "n_frames m = FRAME_COUNT" "fst (available_range m) = 1"
    "\<forall>f \<in> available_frames ds. f < snd (available_range m)" "\<forall>f < snd (available_range m). in_use m f \<longleftrightarrow> f \<notin> available_frames ds" by blast
  let ?A = "available_frames ds" and ?z = "{0, snd (available_range m) - 1}"
  have "?A - ?z \<subseteq> free_below m"
  proof
    fix f
    assume f: "f \<in> ?A - ?z"
    then have "f < snd (available_range m)" using m(5) by blast
    then show "f \<in> free_below m" using f m(4,6) by (auto simp: free_below_def used_def)
  qed
  then have "card (?A - ?z) \<le> card (free_below m)" by (rule card_mono [OF finite_free_below])
  moreover have "card ?A - card ?z \<le> card (?A - ?z)" by (rule diff_card_le_card_Diff) simp
  moreover have "card ?z \<le> 2" by (simp add: card_insert_if)
  ultimately have "card ?A - 2 \<le> card (free_below m)" by linarith
  then show ?thesis using m by (auto simp: managed_frames_def used_def)
qed

section \<open>The start of the allocators\<close>

lemma init_allocators_spec:
  assumes ds: "mm_entries mem mm = Some (Inr ds)" "new_at ds = Inr m" and m: "mm_inv m" "n_frames m \<le> FRAME_COUNT" "N_BLOCK_SIZES \<le> card (free_below m)"
    and live: "regions_ok live" "\<forall>r \<in> set live. in_frames m r" "large_ok live"
  shows "\<exists>s mem'. init_allocators c mem mm = Some (Inr (s, mem')) \<and> oa_inv s live \<and> available_range (oa_mem s) = available_range m
    \<and> card (free_below (oa_mem s)) = card (free_below m) - N_BLOCK_SIZES
    \<and> (\<forall>a. mem' a \<noteq> mem a \<longrightarrow> a div BYTES_PER_FRAME \<in> managed_frames m \<and> (\<forall>r \<in> set live. a \<notin> region_bytes r))"
proof -
  from oa_new_layout [OF m live, of "links_of c mem"] obtain s fl where
    s: "oa_new m (links_of c mem) = Some (Inr s)" "oa_layout s fl live" "length (oa_pages s) = N_BLOCK_SIZES"
      "\<forall>j < N_BLOCK_SIZES. first_blocks (BLOCK_SZ ! j) (fl ! j)" "\<forall>x. x \<notin> set (concat fl) \<longrightarrow> oa_heap s x = links_of c mem x"
      "card (free_below (oa_mem s)) = card (free_below m) - N_BLOCK_SIZES" by blast
  have len: "length fl = N_BLOCK_SIZES" using s(2,3) by (simp add: oa_layout_def lists_ok_def)
  let ?mem = "show_links c (links_of c mem) (oa_heap s) mem"
  have "\<exists>j < N_BLOCK_SIZES. \<exists>x \<in> set (fl ! j). a \<in> region_bytes (x, BLOCK_SZ ! j)" if "?mem a \<noteq> mem a" for a
  proof -
    from show_links_changed [OF that] obtain x where x: "x \<in> set (concat fl)" "x \<le> a" "a < x + 16" using s(5) by blast
    then obtain bs where "bs \<in> set fl" "x \<in> set bs" by auto
    then obtain j where j: "j < N_BLOCK_SIZES" "x \<in> set (fl ! j)" using len in_set_conv_nth [of bs fl] by auto
    moreover have "64 \<le> BLOCK_SZ ! j" using BLOCK_SZ_facts(4) [of j] j(1) by simp
    ultimately show ?thesis using x(2,3) by (force simp: region_bytes_def)
  qed
  then have "testing fl live (oa_mem s) mem 0 [] (s, ?mem)" unfolding testing_def fst_conv snd_conv
    using s(2,3) by (intro conjI exI [of _ fl]) auto
  from run_tests_ok [OF this first_blocks_stocked [OF s(4)], of c] obtain s' mem' where
    r: "run_allocator_tests c (s, ?mem) = Some (Inr (s', mem'))" "testing fl live (oa_mem s) mem 0 [] (s', mem')" by (metis surj_pair)
  have "a div BYTES_PER_FRAME \<in> managed_frames m \<and> (\<forall>r \<in> set live. a \<notin> region_bytes r)" if "mem' a \<noteq> mem a" for a
  proof -
    from r(2) that obtain j x where x: "j < N_BLOCK_SIZES" "x \<in> set (fl ! j)" "a \<in> region_bytes (x, BLOCK_SZ ! j)"
      unfolding testing_def by auto
    have f: "(x, BLOCK_SZ ! j) \<in> set (free_regs BLOCK_SZ fl)" using free_regs_mem [of j fl BLOCK_SZ x] x len by simp
    then have "in_frames (oa_mem s) (x, BLOCK_SZ ! j)" using s(2) by (auto simp: oa_layout_def oa_regions_def)
    then have "a div BYTES_PER_FRAME \<in> managed_frames m" using x(3) oa_new_range [OF s(1)] by (simp add: in_frames_def managed_frames_def)
    moreover have "region_disj (x, BLOCK_SZ ! j) r" if "r \<in> set live" for r
      using s(2) f that by (auto simp: oa_layout_def oa_regions_def regions_ok_append)
    ultimately show ?thesis using x(3) region_disj_bytes by blast
  qed
  moreover have "init_allocators c mem mm = Some (Inr (s', mem'))" using ds s(1) r(1) by (simp add: init_allocators_def)
  moreover have "oa_inv s' live" "oa_mem s' = oa_mem s" using r(2) by (auto simp: testing_def oa_inv_def)
  ultimately show ?thesis using oa_new_range [OF s(1)] s(6) by auto
qed

text \<open>The frames that are available in the memory map are the only ones that the start of the allocators changes.\<close>

lemma init_allocators_frames:
  assumes ds: "mm_entries mem mm = Some (Inr ds)" and asc: "ascending_map ds" "fits_bitmap ds" and frames: "8 \<le> card (available_frames ds)"
  shows "\<exists>s mem' m. init_allocators c mem mm = Some (Inr (s, mem')) \<and> oa_inv s [] \<and> oa_inv s (frame_regions (- available_frames ds \<inter> managed_frames m))
    \<and> available_range (oa_mem s) = available_range m \<and> card (available_frames ds) - 8 \<le> card (free_below (oa_mem s))
    \<and> (\<forall>a. mem' a \<noteq> mem a \<longrightarrow> a div BYTES_PER_FRAME \<in> available_frames ds)"
proof -
  from new_at_frames [OF asc] obtain m where m: "new_at ds = Inr m" "mm_inv m" "n_frames m \<le> FRAME_COUNT" "card (available_frames ds) - 2 \<le> card (free_below m)"
    "\<forall>f \<in> managed_frames m. f \<in> used m \<longleftrightarrow> f \<notin> available_frames ds" by auto
  have enough: "N_BLOCK_SIZES \<le> card (free_below m)" using m(4) frames by simp
  have R: "- available_frames ds \<inter> managed_frames m \<subseteq> used m" using m(5) by auto
  note live = frame_regions_live [OF R]
  from init_allocators_spec [OF ds m(1-3) enough live] obtain s mem' where
    s: "init_allocators c mem mm = Some (Inr (s, mem'))" "oa_inv s (frame_regions (- available_frames ds \<inter> managed_frames m))"
      "available_range (oa_mem s) = available_range m" "card (free_below (oa_mem s)) = card (free_below m) - N_BLOCK_SIZES"
      "\<forall>a. mem' a \<noteq> mem a \<longrightarrow> a div BYTES_PER_FRAME \<in> managed_frames m \<and> (\<forall>r \<in> set (frame_regions (- available_frames ds \<inter> managed_frames m)). a \<notin> region_bytes r)"
    by blast
  have "oa_inv s []" using init_allocators_spec [OF ds m(1-3) enough, of "[]" c] s(1) by (auto simp: large_ok_def)
  moreover have "a div BYTES_PER_FRAME \<in> available_frames ds" if "mem' a \<noteq> mem a" for a
  proof (rule ccontr)
    assume "a div BYTES_PER_FRAME \<notin> available_frames ds"
    then have "frame_region (a div BYTES_PER_FRAME) \<in> set (frame_regions (- available_frames ds \<inter> managed_frames m))"
      using s(5) that by (simp add: frame_regions_set)
    then show False using s(5) that frame_region_bytes by blast
  qed
  moreover have "card (available_frames ds) - 8 \<le> card (free_below (oa_mem s))" using s(4) m(4) by simp
  ultimately show ?thesis using s(1-3) by blast
qed

text \<open>
  (C13) The allocators start and pass their self test. From a well-formed, ascending memory map that fits the bitmap and offers eight
  frames, \<^verbatim>\<open>init_allocators\<close> returns: the frame allocator is built from the map, the object allocator on it, and in all 64
  rounds of the self test every request succeeds, every byte that is read back is the one that was written although the
  allocator keeps its links in the same memory, and every block is given back. The heap is then consistent with no block
  in use, and no byte outside the available frames of the map has changed.
\<close>

theorem init_allocators_correct:
  assumes "mm_wf mem mm" and "ascending_map (mm_spec mem mm)" and "fits_bitmap (mm_spec mem mm)"
    and "8 \<le> card (available_frames (mm_spec mem mm))"
  shows "\<exists>s mem'. init_allocators c mem mm = Some (Inr (s, mem')) \<and> oa_inv s []
    \<and> (\<forall>a. mem' a \<noteq> mem a \<longrightarrow> a div BYTES_PER_FRAME \<in> available_frames (mm_spec mem mm))"
  using init_allocators_frames [OF mm_entries_spec [OF assms(1)] assms(2-4)] by blast

definition example_codec :: link_codec where
  "example_codec = \<lparr>
     lc_read = (\<lambda>bs. let v = horner_sum unat 256 (drop 8 bs) in if v = 0 then None else Some v),
     lc_write = (\<lambda>x. replicate 8 0 @ map (\<lambda>i. of_nat ((case x of None \<Rightarrow> 0 | Some v \<Rightarrow> v) div 256 ^ i)) [0..<8])\<rparr>"

theorem init_allocators_correct_witness:
  "\<exists>s mem'. init_allocators example_codec ((\<lambda>_. 0)(0x100 := 7, 0x109 := 0x10, 0x118 := 16, 0x120 := 15))
      \<lparr>mm_buffer = 0x100, mm_len = 48, mm_map_key = 1, mm_descriptor_size = 48\<rparr> = Some (Inr (s, mem'))
    \<and> oa_inv s [] \<and> mem' 0x100 = 7"
proof -
  let ?mem = "(\<lambda>_. 0)(0x100 := 7, 0x109 := 0x10, 0x118 := 16, 0x120 := 15) :: memory"
  let ?mm = "\<lparr>mm_buffer = 0x100, mm_len = 48, mm_map_key = 1, mm_descriptor_size = 48\<rparr>"
  let ?d = "\<lparr>md_type = EfiConventionalMemory, md_physical_start = 0x1000, md_virtual_start = 0,
    md_num_pages = 16, md_attribute = 15\<rparr>"
  have bytes: "[0..<4] = [0, 1, 2, 3::nat]" "[0..<8] = [0, 1, 2, 3, 4, 5, 6, 7::nat]"
    by (simp_all add: upt_rec)
  have d: "slot_desc ?mem ?mm 0 = Inr ?d"
    by (simp add: slot_desc_def descriptor_at_def Let_def read_u32_def read_u64_def bytes_at_def bytes
        memory_types_def)
  have wf: "mm_wf ?mem ?mm" using d by (simp add: mm_wf_def usize_bound_def del: fun_upd_apply)
  have spec: "mm_spec ?mem ?mm = [?d]" using d by (simp add: mm_spec_def del: fun_upd_apply)
  have asc: "ascending_map [?d]" "fits_bitmap [?d]"
    by (simp_all add: ascending_map_def fits_bitmap_def desc_start_def desc_end_def frame_consts)
  have av: "available_frames [?d] = {1..<17}"
    by (simp add: available_frames_def desc_frames_def is_available_def desc_start_def desc_end_def frame_consts)
  obtain s mem' where s: "init_allocators example_codec ?mem ?mm = Some (Inr (s, mem'))" "oa_inv s []"
    "\<forall>a. mem' a \<noteq> ?mem a \<longrightarrow> a div BYTES_PER_FRAME \<in> {1..<17}"
    using init_allocators_correct [OF wf, of example_codec] asc av unfolding spec by auto
  have "mem' 0x100 = ?mem 0x100"
  proof (rule ccontr)
    assume "mem' 0x100 \<noteq> ?mem 0x100"
    then have "0x100 div BYTES_PER_FRAME \<in> {1..<17}" using s(3) by blast
    then show False by (simp add: frame_consts)
  qed
  then show ?thesis using s(1,2) by auto
qed

section \<open>Aligned allocations\<close>

text \<open>
  \<^verbatim>\<open>AlignedAlloc\<close> of \<^verbatim>\<open>usb/xhci.rs\<close>, with \<^verbatim>\<open>Layout::align_to\<close> and the allocator \<^verbatim>\<open>Global\<close> of the standard library, which
  answers a request of no bytes itself and turns null into an error.
\<close>

definition align_to :: "layout \<Rightarrow> nat \<Rightarrow> layout option" where
  "align_to l n = from_size_align (layout_size l) (max (layout_align l) n)"

definition aligned_allocate :: "nat \<Rightarrow> object_allocator \<Rightarrow> layout \<Rightarrow> (addr option \<times> object_allocator) res option" where
  "aligned_allocate n s l =
     cbind (Some (unwrap (align_to l n))) (\<lambda>l.
     if layout_size l = 0 then Some (Inr (Some (layout_align l), s))
     else cbind (oa_alloc s l) (\<lambda>(p, s). Some (Inr (if p = null then None else Some p, s))))"

definition aligned_deallocate :: "nat \<Rightarrow> object_allocator \<Rightarrow> addr \<Rightarrow> layout \<Rightarrow> object_allocator res" where
  "aligned_deallocate n s p l =
     rbind (unwrap (align_to l n)) (\<lambda>l. if layout_size l = 0 then Inr s else oa_dealloc s p l)"

lemma align_to_power:
  assumes "layout_ok l" "layout_size l < 2048" "n = 2 ^ k" "n \<le> BYTES_PER_FRAME" "layout_align l \<le> BYTES_PER_FRAME"
  shows "align_to l n = Some \<lparr>layout_size = layout_size l, layout_align = max (layout_align l) n\<rparr>"
    "layout_ok \<lparr>layout_size = layout_size l, layout_align = max (layout_align l) n\<rparr>" "n dvd max (layout_align l) n"
proof -
  obtain j where j: "layout_align l = 2 ^ j" using assms(1) by (auto simp: layout_ok_def)
  have m: "max (layout_align l) n = 2 ^ max j k" unfolding j assms(3) by (simp add: max_def)
  have "(2 :: nat) ^ i AND (2 ^ i - 1) = 0" for i
    unfolding mask_eq_exp_minus_1 [symmetric] take_bit_eq_mask [symmetric] by simp
  moreover have "max (layout_align l) n \<le> 4096" using assms(4,5) by (simp add: frame_consts)
  ultimately show "align_to l n = Some \<lparr>layout_size = layout_size l, layout_align = max (layout_align l) n\<rparr>"
    using assms(2) unfolding align_to_def from_size_align_def m by simp
  show "layout_ok \<lparr>layout_size = layout_size l, layout_align = max (layout_align l) n\<rparr>" using assms(2) m by (auto simp: layout_ok_def)
  show "n dvd max (layout_align l) n" using m unfolding assms(3) by (simp add: le_imp_power_dvd)
qed

text \<open>
  A small block from \<^verbatim>\<open>AlignedAlloc\<close> has the alignment of the allocator as well as its own and is disjoint from all others; giving it
  back through the same allocator undoes the allocation. An error means that the frames are used up.
\<close>

theorem aligned_alloc_correct:
  assumes "oa_inv s live" "layout_ok l" "0 < layout_size l" "layout_size l < 2048" "n = 2 ^ k" "n \<le> BYTES_PER_FRAME" "layout_align l \<le> BYTES_PER_FRAME"
  shows "\<exists>r s'. aligned_allocate n s l = Some (Inr (r, s')) \<and> (case r of
      None \<Rightarrow> oa_inv s' live \<and> frames_exhausted (oa_mem s)
    | Some p \<Rightarrow> n dvd p \<and> layout_align l dvd p \<and> oa_inv s' ((p, reserved l) # live)
        \<and> (\<exists>s''. aligned_deallocate n s' p l = Inr s'' \<and> oa_inv s'' live))"
proof -
  let ?l = "\<lparr>layout_size = layout_size l, layout_align = max (layout_align l) n\<rparr>"
  note a = align_to_power [OF assms(2,4-7)]
  have r: "reserved ?l = reserved l" by (simp add: reserved_def)
  have sz: "layout_size ?l < 2048" "layout_align ?l \<le> BYTES_PER_FRAME" using assms(4,6,7) by simp_all
  have large: "2048 < layout_size ?l \<Longrightarrow> layout_align ?l \<le> BYTES_PER_FRAME \<and> reserved ?l div BYTES_PER_FRAME \<le> snd (available_range (oa_mem s))" using sz(1) by simp
  from oa_alloc_spec [OF assms(1) a(2) large, unfolded r] sz obtain p s' where
    p: "oa_alloc s ?l = Some (Inr (p, s'))" "if p = null then oa_inv s' live \<and> frames_exhausted (oa_mem s) else layout_align ?l dvd p \<and> oa_inv s' ((p, reserved l) # live)"
    by (auto split: if_splits)
  have run: "aligned_allocate n s l = Some (Inr (if p = null then None else Some p, s'))" using a(1) p(1) assms(3) by (simp add: aligned_allocate_def)
  show ?thesis
  proof (cases "p = null")
    case True
    then show ?thesis using run p(2) by simp
  next
    case False
    then have q: "max (layout_align l) n dvd p" "oa_inv s' ((p, reserved l) # live)" using p(2) by simp_all
    have "layout_align l dvd max (layout_align l) n" using assms(2,5) by (auto simp: layout_ok_def max_def intro: le_imp_power_dvd)
    then have al: "n dvd p" "layout_align l dvd p" using q(1) a(3) dvd_trans by blast+
    obtain s'' where "oa_dealloc s' p ?l = Inr s''" "oa_inv s'' live" using oa_dealloc_spec [OF q(2) a(2), of p] r by auto
    then have "aligned_deallocate n s' p l = Inr s''" using a(1) assms(3) by (simp add: aligned_deallocate_def)
    then show ?thesis using run False al q(2) \<open>oa_inv s'' live\<close> by simp
  qed
qed

end
