(* ===== verification/Boot_Memory.thy ===== *)
theory Boot_Memory
  imports Bootloader Allocator_Tests
begin

text \<open>
  From the boot loader to the heap: the pages that hold the kernel image are never handed out by the allocators of the
  kernel. The frames of the image count as live regions of the heap that no client gives back.
\<close>

section \<open>Reserved frames\<close>

text \<open>Frames that are in use when the heap starts, or that it does not manage, never become part of a block.\<close>

lemma heap_avoids_reserved:
  assumes inv: "oa_inv s0 (frame_regions (R \<inter> managed_frames m))" and rng: "available_range (oa_mem s0) = available_range m"
    and l: "\<And>l. Alloc l \<in> set evs \<Longrightarrow> layout_ok l"
    and run: "cfoldM (client_step oa_alloc oa_dealloc oa_write) evs (s0, []) = Some (Inr (s, owned))"
    and b: "(p, lay) \<in> set owned" "p \<le> b" "b < p + layout_size lay"
  shows "b div BYTES_PER_FRAME \<notin> R"
proof
  assume bR: "b div BYTES_PER_FRAME \<in> R"
  let ?kept = "frame_regions (R \<inter> managed_frames m)"
  have ok: "regions_ok (owned_regions owned @ ?kept)" by (rule ga.run_regions [OF inv l run])
  have r: "(p, reserved lay) \<in> set (owned_regions owned)" using b(1) by (force simp: owned_regions_def)
  have "0 < reserved lay" using regions_ok_pos [OF ok, of "(p, reserved lay)"] r by simp
  then have br: "b \<in> region_bytes (p, reserved lay)" using b(2,3) reserved_pos [of lay] by (auto simp: region_bytes_def)
  have "oa_inv s (owned_regions owned @ ?kept)" using ga.run_good [OF inv l run] by (simp add: ga.good_def)
  then have "in_frames (oa_mem s) (p, reserved lay)" using r by (auto simp: oa_inv_def oa_layout_def oa_regions_def)
  then have "b div BYTES_PER_FRAME \<in> managed_frames m"
    using br client_run_range [OF run] rng by (auto simp: in_frames_def managed_frames_def)
  then have "frame_region (b div BYTES_PER_FRAME) \<in> set ?kept" using bR by (simp add: frame_regions_set)
  then have "region_disj (p, reserved lay) (frame_region (b div BYTES_PER_FRAME))"
    using ok r unfolding regions_ok_append by blast
  then show False using br frame_region_bytes [of b "b div BYTES_PER_FRAME"] by (auto simp: region_disj_def)
qed

section \<open>The kernel image in the memory map\<close>

lemma region_not_available:
  assumes asc: "ascending_map ds" and d: "d \<in> set ds" "\<not> is_available d" and f: "f \<in> desc_frames d"
  shows "f \<notin> available_frames ds"
proof
  assume "f \<in> available_frames ds"
  then obtain e where e: "e \<in> set ds" "is_available e" "f \<in> desc_frames e" by (auto simp: available_frames_def)
  obtain i j where ij: "i < length ds" "ds ! i = d" "j < length ds" "ds ! j = e" using d(1) e(1) by (auto simp: in_set_conv_nth)
  have "i \<noteq> j" using ij d(2) e(2) by auto
  then have "desc_end d \<le> desc_start e \<or> desc_end e \<le> desc_start d"
    using asc ij sorted_wrt_nth_less [of "\<lambda>a b. desc_end a \<le> desc_start b" ds] by (auto simp: ascending_map_def) (metis nat_neq_iff)
  then have "desc_end d div BYTES_PER_FRAME \<le> desc_start e div BYTES_PER_FRAME \<or> desc_end e div BYTES_PER_FRAME \<le> desc_start d div BYTES_PER_FRAME"
    using div_le_mono by blast
  then show False using f e(3) by (auto simp: desc_frames_def)
qed

lemma desc_frame_of:
  assumes "BYTES_PER_FRAME dvd desc_start d" "desc_start d \<le> x" "x < desc_end d"
  shows "x div BYTES_PER_FRAME \<in> desc_frames d"
proof -
  let ?P = BYTES_PER_FRAME
  have "?P = UEFI_PAGE_SIZE" "0 < ?P" by (simp_all add: frame_consts)
  then have "?P dvd desc_end d" using assms(1) by (simp add: desc_end_def)
  then have "x div ?P < desc_end d div ?P" using assms(3) \<open>0 < ?P\<close> by (metis dvd_div_mult_self div_times_less_eq_dividend le_less_trans mult_less_cancel2)
  moreover have "desc_start d div ?P \<le> x div ?P" using assms(2) by (rule div_le_mono)
  ultimately show ?thesis by (simp add: desc_frames_def)
qed

text \<open>
  What the firmware promises after it granted the pages of the kernel: a map of descriptors that are in ascending
  order, page-aligned and below the limit of the frame allocator, with non-zero attributes, one of which covers the
  pages as loader data, and room in the announced size; the buffer of the map is not inside these pages.
\<close>

definition firmware_map :: "firmware \<Rightarrow> elf64_phdr list \<Rightarrow> memory_descriptor list \<Rightarrow> bool" where
  "firmware_map fw hs ds \<longleftrightarrow>
     (let pages = (kernel_first hs, kernel_pages hs); stride = snd (fw_map_sizes fw pages) in
      40 \<le> stride \<and> stride < 2 ^ 32 \<and> length ds * stride \<le> fst (fw_map_sizes fw pages)
      \<and> (\<exists>key. fw_map fw pages = Some (key, concat (map (encode_descriptor stride) ds)))
      \<and> (\<forall>d \<in> set ds. md_attribute d \<noteq> 0) \<and> ascending_map ds \<and> fits_bitmap ds
      \<and> (\<exists>d \<in> set ds. md_type d = EfiLoaderData \<and> desc_start d \<le> kernel_first hs \<and> kernel_first hs + kernel_pages hs * 0x1000 \<le> desc_end d)
      \<and> (fw_map_buf fw + MEMMAP_BUF \<le> kernel_first hs \<or> kernel_first hs + kernel_pages hs * 0x1000 \<le> fw_map_buf fw))"

lemma boot_main_spec:
  assumes boot: "boot_main guid fw mem = Inr (ho, mem1)" and kf: "fw_kernel_file fw = Some f"
    and elf: "from_buffer (fw_file_base fw) f = Inr elf" and hs: "hs = prog_headers elf"
    and dis: "sorted_wrt (\<lambda>g h. segment g \<inter> segment h = {}) (loads hs)" and fw: "firmware_map fw hs ds"
  shows "ho_entry ho = e_entry (elf_header elf)" "mm_entries mem1 (memory_map_of_raw (ho_memory_map ho)) = Some (Inr ds)"
    "\<forall>h \<in> set (loads hs). bytes_at mem1 (p_vaddr h) (p_memsz h) = segment_bytes f h"
proof -
  obtain entry mem0 pages raw where b: "load_kernel (fw_allocate_pages fw) (fw_file_base fw) (Some f) mem = Inr (entry, mem0, pages)"
    "get_memory_map (fw_map_sizes fw pages) (fw_map fw pages) (fw_map_buf fw) mem0 = Inr (raw, mem1)" "ho_entry ho = entry" "ho_memory_map ho = raw"
    using boot kf by (auto simp: boot_main_def)
  obtain first n where pg: "pages = (first, n)" by fastforce
  note k = load_kernel_spec [OF b(1) [unfolded pg] elf dis [unfolded hs], folded hs]
  then have pages: "pages = (kernel_first hs, kernel_pages hs)" using pg by simp
  show "ho_entry ho = e_entry (elf_header elf)" using b(3) k(3) by simp
  obtain map_size stride where sz: "fw_map_sizes fw pages = (map_size, stride)" by fastforce
  obtain key where key: "fw_map fw pages = Some (key, concat (map (encode_descriptor stride) ds))"
    using fw sz pages by (auto simp: firmware_map_def Let_def)
  have st: "40 \<le> stride" "stride < 2 ^ 32" "length ds * stride \<le> map_size" "\<forall>d \<in> set ds. md_attribute d \<noteq> 0"
    using fw sz pages by (auto simp: firmware_map_def Let_def)
  have "map_size \<le> MEMMAP_BUF" using b(2) sz by (cases "map_size \<le> MEMMAP_BUF") (auto simp: get_memory_map_def)
  moreover have "length (concat (map (encode_descriptor stride) ds)) = length ds * stride" using st(1) by (induction ds) auto
  ultimately have m: "mm_entries mem1 (memory_map_of_raw raw) = Some (Inr ds)"
    "\<forall>x. x < fw_map_buf fw \<or> fw_map_buf fw + MEMMAP_BUF \<le> x \<longrightarrow> mem1 x = mem0 x"
    using get_memory_map_spec [OF st(1,2) refl _ st(4), of map_size key "fw_map_buf fw" mem0] b(2) sz key st(3) by auto
  then show "mm_entries mem1 (memory_map_of_raw (ho_memory_map ho)) = Some (Inr ds)" using b(4) by simp
  show "\<forall>h \<in> set (loads hs). bytes_at mem1 (p_vaddr h) (p_memsz h) = segment_bytes f h"
  proof
    fix h
    assume h: "h \<in> set (loads hs)"
    have "mem1 x = mem0 x" if "x \<in> segment h" for x
    proof -
      have "x \<in> {kernel_first hs ..< kernel_first hs + kernel_pages hs * 0x1000}" using segment_in_pages [OF h] that by blast
      then show ?thesis using fw m(2) by (fastforce simp: firmware_map_def Let_def)
    qed
    then have "bytes_at mem1 (p_vaddr h) (p_memsz h) = bytes_at mem0 (p_vaddr h) (p_memsz h)" by (intro bytes_at_eq) (simp add: segment_def)
    then show "bytes_at mem1 (p_vaddr h) (p_memsz h) = segment_bytes f h" using k(5) h by simp
  qed
qed

lemma kernel_frames_reserved:
  assumes fw: "firmware_map fw hs ds" and h: "h \<in> set (loads hs)" "x \<in> segment h"
  shows "x div BYTES_PER_FRAME \<notin> available_frames ds"
proof -
  from fw obtain d where d: "d \<in> set ds" "md_type d = EfiLoaderData" "desc_start d \<le> kernel_first hs"
    "kernel_first hs + kernel_pages hs * 0x1000 \<le> desc_end d" and asc: "ascending_map ds" by (auto simp: firmware_map_def Let_def)
  have "desc_start d \<le> x" "x < desc_end d" using segment_in_pages [OF h(1)] h(2) d(3,4) by auto
  then have "x div BYTES_PER_FRAME \<in> desc_frames d" using asc d(1) by (intro desc_frame_of) (auto simp: ascending_map_def)
  then show ?thesis using region_not_available [OF asc d(1)] d(2) by (simp add: is_available_def)
qed

section \<open>A small kernel\<close>

definition example_map :: "memory_descriptor list" where
  "example_map = [\<lparr>md_type = EfiLoaderData, md_physical_start = 0x3000, md_virtual_start = 0, md_num_pages = 1, md_attribute = 15\<rparr>,
     \<lparr>md_type = EfiConventionalMemory, md_physical_start = 0x10000, md_virtual_start = 0, md_num_pages = 64, md_attribute = 15\<rparr>]"

definition example_firmware :: firmware where
  "example_firmware = \<lparr>fw_kernel_file = Some example_kernel, fw_file_base = 0x8000, fw_allocate_pages = (\<lambda>_ _. True),
     fw_config_table = [(7, 0x9000)],
     fw_gop = Some \<lparr>gop_frame_buffer = replicate 64 0, gop_resolution = (4, 4), gop_stride = 4, gop_pixel_format = Gop_Bgr\<rparr>,
     fw_map_sizes = (\<lambda>_. (192, 48)), fw_map = (\<lambda>_. Some (1, concat (map (encode_descriptor 48) example_map))), fw_map_buf = 0x5000\<rparr>"

lemma example_boot: "\<exists>r. boot_main 7 example_firmware (\<lambda>_. 0) = Inr r"
proof -
  obtain entry mem' pages where "load_kernel (\<lambda>_ _. True) 0x8000 (Some example_kernel) (\<lambda>_. 0) = Inr (entry, mem', pages)"
    using load_kernel_returns example_loadable by (metis prod_cases3)
  then show ?thesis
    by (simp add: boot_main_def example_firmware_def find_acpi_table_def construct_frame_buffer_def get_memory_map_def MEMMAP_BUF_def)
qed

lemma example_firmware_map:
  assumes "kernel_first hs = 0x3000" "kernel_pages hs = 1"
  shows "firmware_map example_firmware hs example_map"
  unfolding firmware_map_def assms
  by (simp add: example_firmware_def example_map_def Let_def ascending_map_def fits_bitmap_def desc_start_def desc_end_def frame_consts)

lemma example_available: "available_frames example_map = {16..<80}"
proof -
  have "{d \<in> set example_map. is_available d} = {example_map ! 1}" by (auto simp: example_map_def is_available_def)
  then have "available_frames example_map = desc_frames (example_map ! 1)" by (simp add: available_frames_def)
  then show ?thesis by (simp add: example_map_def desc_frames_def desc_start_def desc_end_def frame_consts)
qed

lemma example_run:
  assumes init: "init_allocators c mem mm = Some (Inr (s0, mem'))" and entries: "mm_entries mem mm = Some (Inr example_map)"
  defines "l \<equiv> \<lparr>layout_size = 24, layout_align = 8\<rparr>"
  shows "\<exists>p s. cfoldM (client_step oa_alloc oa_dealloc oa_write) [Alloc l] (s0, []) = Some (Inr (s, [(p, l)]))"
proof -
  have l: "layout_ok l" by (auto simp: layout_ok_def l_def intro: exI [of _ 3])
  have "ascending_map example_map" "fits_bitmap example_map" "8 \<le> card (available_frames example_map)"
    by (simp_all add: example_map_def ascending_map_def fits_bitmap_def desc_start_def desc_end_def frame_consts example_available [unfolded example_map_def])
  from init_allocators_frames [OF entries this, of c] init have s0: "oa_inv s0 []" "card (available_frames example_map) - 8 \<le> card (free_below (oa_mem s0))" by auto
  then have "\<not> frames_exhausted (oa_mem s0)" using not_exhausted by (simp add: example_available)
  then obtain p s1 where "oa_alloc s0 l = Some (Inr (p, s1))" "p \<noteq> null"
    using oa_alloc_spec [OF s0(1) l] by (auto simp: frame_consts l_def split: if_splits)
  then show ?thesis by (simp add: client_step_def)
qed

end
