(* ===== verification/Kernel_Main.thy ===== *)
theory Kernel_Main
  imports System Paging Acpi Boot_Memory
begin

text \<open>
  \<^verbatim>\<open>KernelMain2\<close> of \<^verbatim>\<open>kernel/src/main.rs\<close> from its first statement to the moment when it enables the interrupts: the composition of
  all parts of the kernel in the order in which the code starts them. What the parts need from the machine is the record \<open>machine\<close>; the
  lines that the parts print on their own behalf are part of it, as \<^verbatim>\<open>core::fmt\<close> makes them.
\<close>

section \<open>The machine\<close>

record 'd machine =
  mc_codec :: link_codec
  mc_tables :: table_addrs
  mc_seg_range :: seg_sr
  mc_seg_bit :: seg_sb
  mc_att_range :: "u16 \<Rightarrow> nat \<Rightarrow> nat \<Rightarrow> u8 \<Rightarrow> u16"
  mc_att_bit :: "u16 \<Rightarrow> nat \<Rightarrow> bool \<Rightarrow> u16"
  mc_xhci_handler :: u64
  mc_lapic_handler :: u64
  mc_pm_timer :: "nat \<Rightarrow> u32"
  mc_lapic_count :: "nat \<Rightarrow> u32"
  mc_apic_id_reg :: u32
  mc_msi :: msi_fields
  mc_regs :: "'d xhc_regs"
  mc_env :: usb_env
  mc_platform :: xhc_platform
  mc_taskB :: u64
  mc_stack :: addr
  mc_idt_lines :: "u8 list list list"
  mc_msi_lines :: "u8 list list list"
  mc_usb_lines :: "u8 list list list"

text \<open>What the kernel has set up when it enables the interrupts.\<close>

record 'd boot_state =
  bs_gdt :: "u64 list"
  bs_tables :: page_tables
  bs_cr3 :: u64
  bs_heap :: object_allocator
  bs_mem :: memory
  bs_lapic :: "(addr \<times> nat) list"
  bs_idt :: "interrupt_descriptor list"
  bs_devices :: pci_controller
  bs_xhc :: pci_device
  bs_cfg :: pci_config
  bs_regs :: 'd
  bs_usb :: usb_system
  bs_executor :: "usb_task executor"
  bs_task_b :: "u32 list task_context"
  bs_kernel :: "usb_state kernel"

section \<open>The devices on the bus\<close>

definition device_line :: "pci_config \<Rightarrow> pci_device \<Rightarrow> u8 list list" where
  "device_line cfg d =
     (let classcode = read_class_code cfg d in
      [dec_string (unat (pci_bus d)), as_bytes ''.'', dec_string (unat (pci_dev d)), as_bytes ''.'', dec_string (unat (pci_fun d)),
       as_bytes '': head '', dec_string (unat (read_header_type cfg d)), as_bytes '', vend '', dec_string (unat (read_vendor_id cfg d)),
       as_bytes '', class '', dec_string (unat (cc_base classcode)), as_bytes '' '', dec_string (unat (cc_sub classcode)), as_bytes '' '',
       dec_string (unat (cc_interface classcode))])"

definition scan_pci_devices :: "nat \<Rightarrow> pci_config \<Rightarrow> screen \<Rightarrow> (pci_controller \<times> screen) res option" where
  "scan_pci_devices fuel cfg s = (case scan_all_bus fuel cfg [] of
     None \<Rightarrow> None
   | Some (Inl _) \<Rightarrow> Some (Inl UnwrapNone)
   | Some (Inr devs) \<Rightarrow> Some (rbind (foldM (\<lambda>dev. println (device_line cfg dev)) devs s) (\<lambda>s. Inr (devs, s))))"

section \<open>Output for tracing\<close>

text \<open>
  \<^verbatim>\<open>print_c\<close> takes the bytes of a C string up to its end, at most 128 of them, and \<^verbatim>\<open>print_memmap\<close> prints the memory map; its sums are of 128 bits,
  and only a region of no pages at address zero underflows.
\<close>

fun c_bytes :: "nat \<Rightarrow> memory \<Rightarrow> addr \<Rightarrow> u8 list" where
  "c_bytes 0 mem s = []"
| "c_bytes (Suc n) mem s = (if mem s = 0 then [] else mem s # c_bytes n mem (s + 1))"

definition print_c :: "memory \<Rightarrow> addr \<Rightarrow> screen \<Rightarrow> screen res" where
  "print_c mem s = (let buf = c_bytes 128 mem s in if utf8_valid buf then print [buf] else (\<lambda>_. Inl UnwrapNone))"

definition memmap_line :: "memory_descriptor \<Rightarrow> u8 list list res" where
  "memmap_line d =
     rbind (if unat (md_physical_start d) + unat (md_num_pages d) * 4096 < 1 then Inl ArithOverflow
            else Inr (unat (md_physical_start d) + unat (md_num_pages d) * 4096 - 1)) (\<lambda>last_byte.
     Inr [as_bytes ''type: '', as_bytes (memory_type_to_str (md_type d)), as_bytes '', phys: '', dec_string (unat (md_physical_start d)),
       as_bytes '' - '', dec_string last_byte, as_bytes '', pages: '', dec_string (unat (md_num_pages d)), as_bytes '', attr: '', dec_string (unat (md_attribute d))])"

definition print_memmap :: "memory \<Rightarrow> memory_map \<Rightarrow> screen \<Rightarrow> screen res option" where
  "print_memmap mem mm s =
     cbind (mm_entries mem mm) (\<lambda>ds. Some (foldM (\<lambda>d s. rbind (memmap_line d) (\<lambda>l. println l s)) ds s))"

section \<open>The context of task B\<close>

text \<open>
  \<open>stack\<close> is the address of the vector of 1024 words; its end is the address of the last word plus eight. \<^verbatim>\<open>TaskContext::new\<close> has zeros
  everywhere, also in the segments \<^verbatim>\<open>fs\<close> and \<^verbatim>\<open>gs\<close>.
\<close>

definition task_context_new :: "u32 list task_context" where
  "task_context_new = \<lparr>tc_regs = (\<lambda>_. 0), tc_rip = 0, tc_rflags = 0, tc_cr3 = 0, tc_segs = (\<lambda>_. 0), tc_fpu = replicate 128 0\<rparr>"

definition task_b_context :: "u64 \<Rightarrow> u64 \<Rightarrow> addr \<Rightarrow> u32 list task_context res" where
  "task_b_context entry cr3 stack =
     rbind (usize_add (stack + 8 * 1023) 8) (\<lambda>stack_end.
     rbind (usize_sub (unat ((of_nat stack_end :: u64) AND NOT 0xf)) 8) (\<lambda>rsp.
     rbind (store (tc_fpu task_context_new) 6 0x1f80) (\<lambda>fxsave_area.
     Inr (task_context_new\<lparr>tc_rip := entry, tc_cr3 := cr3, tc_rflags := 0x202, tc_fpu := fxsave_area,
       tc_regs := (tc_regs task_context_new)(RDI := 1, RSI := 42, RSP := of_nat rsp),
       tc_segs := (tc_segs task_context_new)(CS := KERNEL_CS, SS := KERNEL_SS)\<rparr>))))"

section \<open>KernelMain2\<close>

text \<open>\<^verbatim>\<open>initialize_timer\<close> with the calibration of the local APIC, which waits for the power management timer.\<close>

definition start_timers :: "'d machine \<Rightarrow> memory \<Rightarrow> addr \<Rightarrow> ((addr \<times> nat) list \<times> timer_manager) res option" where
  "start_timers mc mem table =
     cbind (wait_millis (fadt_at mem table) (mc_pm_timer mc) 100) (\<lambda>k.
     cbind (Some (initialize_lapic_timer (iv_code LapicTimer) (mc_lapic_count mc k))) (\<lambda>(lapic, _).
     cbind (Some initialize_timer) (\<lambda>timer. Some (Inr (lapic, timer)))))"

text \<open>The statements after the devices are known: the interrupts and the USB controller.\<close>

definition start_interrupts :: "'d machine \<Rightarrow> u16 \<Rightarrow> pci_controller \<Rightarrow> pci_config \<Rightarrow> memory \<Rightarrow> 'd \<Rightarrow> screen
    \<Rightarrow> (interrupt_descriptor list \<times> pci_device \<times> (usb_system \<times> usb_task executor \<times> usb_driver) \<times> (pci_config \<times> memory \<times> 'd) \<times> screen) res option" where
  "start_interrupts mc cs pci cfg mem d s =
     cbind (Some (setup_idt (mc_att_range mc) (mc_att_bit mc) cs (mc_xhci_handler mc) (mc_lapic_handler mc) IDT_init)) (\<lambda>idt.
     cbind (Some (foldM println (mc_idt_lines mc) s)) (\<lambda>s.
     cbind (find_xhc_device 33 cfg) (\<lambda>xhc.
     let local_apic_id = drop_bit 24 (mc_apic_id_reg mc) in
     cbind (Some (println [as_bytes ''apic_id: '', dec_string (unat local_apic_id)] s)) (\<lambda>s.
     cbind (configure_msi_fixed_destination (mc_msi mc) xhc (ucast local_apic_id) (of_nat (iv_code XHCI)) cfg) (\<lambda>cfg.
     cbind (Some (foldM println (mc_msi_lines mc) s)) (\<lambda>s.
     cbind (init_usb (mc_regs mc) (mc_env mc) (mc_platform mc) xhc (intel_ehci_found cfg pci) (cfg, mem, d)) (\<lambda>(usb, hw).
     cbind (Some (foldM println (mc_usb_lines mc) s)) (\<lambda>s.
     cbind (Some (print [as_bytes [CHR ''f'', CHR ''i'', CHR ''n'', CHR ''i'', CHR ''s'', CHR ''h'', CHR 0x0A]] s)) (\<lambda>s.
     Some (Inr (idt, xhc, usb, hw, s)))))))))))"

definition kernel_main2 :: "'d machine \<Rightarrow> memory \<Rightarrow> frame_buffer_raw \<Rightarrow> memory_map_raw \<Rightarrow> addr \<Rightarrow> pci_config \<Rightarrow> 'd \<Rightarrow> 'd boot_state res option" where
  "kernel_main2 mc mem fb mm rsdp cfg d =
     (let (gdt, _, _, cs, _) = setup_segments (mc_seg_range mc) (mc_seg_bit mc) in
      cbind (Some (setup_identity_page_table (mc_tables mc) initial_tables)) (\<lambda>(tables, cr3).
      cbind (init_allocators (mc_codec mc) mem (memory_map_of_raw mm)) (\<lambda>(heap, mem).
      cbind (Some (initialize_winmgr fb)) (\<lambda>(dflt, m).
      cbind (Some (initialize_windows dflt m)) (\<lambda>(_, _, m).
      cbind (Some (acpi_initialize mem rsdp)) (\<lambda>table.
      cbind (start_timers mc mem table) (\<lambda>(lapic, timer).
      cbind (Some (init_console dflt m (255, 255, 255) (100, 100, 100))) (\<lambda>s.
      cbind (scan_pci_devices 33 cfg s) (\<lambda>(pci, s).
      cbind (start_interrupts mc cs pci cfg mem d s) (\<lambda>(idt, xhc, (sys, ex, drv), (cfg, mem, d), con, m).
      cbind (Some (task_b_context (mc_taskB mc) cr3 (mc_stack mc))) (\<lambda>ctx.
      Some (Inr \<lparr>bs_gdt = gdt, bs_tables = tables, bs_cr3 = cr3, bs_heap = heap, bs_mem = mem, bs_lapic = lapic, bs_idt = idt,
        bs_devices = pci, bs_xhc = xhc, bs_cfg = cfg, bs_regs = d, bs_usb = sys, bs_executor = ex, bs_task_b = ctx,
        bs_kernel = start_kernel timer dflt m con \<lparr>ut_world = us_world sys, ut_driver = drv, ut_started = False\<rparr>\<rparr>))))))))))))"

section \<open>Output\<close>

text \<open>\<open>shows_text s s'\<close>: \<open>s'\<close> is the screen after some more output.\<close>

definition shows_text :: "screen \<Rightarrow> screen \<Rightarrow> bool" where
  "shows_text s s' \<longleftrightarrow> (\<exists>texts. foldM print texts s = Inr s')"

lemma shows_text_trans [trans]: "\<lbrakk>shows_text s s'; shows_text s' s''\<rbrakk> \<Longrightarrow> shows_text s s''"
  unfolding shows_text_def by (metis foldM_append rbind_Inr)

lemma lines_shown:
  assumes "screen_inv con m"
  shows "\<exists>con' m'. foldM println lines (con, m) = Inr (con', m') \<and> screen_inv con' m' \<and> shows_text (con, m) (con', m')"
proof -
  from lines_ok [OF assms, of lines] obtain con' m' where r: "foldM println lines (con, m) = Inr (con', m')" "screen_inv con' m'" by blast
  then have "shows_text (con, m) (con', m')" unfolding shows_text_def println_prints by blast
  then show ?thesis using r by blast
qed

lemma line_shown:
  assumes "screen_inv con m"
  shows "\<exists>con' m'. println l (con, m) = Inr (con', m') \<and> screen_inv con' m' \<and> shows_text (con, m) (con', m')"
  using lines_shown [OF assms, of "[l]"] by simp

lemma print_shown:
  assumes "screen_inv con m"
  shows "\<exists>con' m'. print l (con, m) = Inr (con', m') \<and> screen_inv con' m' \<and> shows_text (con, m) (con', m')"
proof -
  from prints_ok [OF assms, of "[l]"] obtain con' m' where r: "foldM print [l] (con, m) = Inr (con', m')" "screen_inv con' m'" by blast
  then have "shows_text (con, m) (con', m')" unfolding shows_text_def by blast
  then show ?thesis using r by simp
qed

lemma scan_shown:
  assumes "screen_inv con m" "scan_all_bus fuel cfg [] = Some (Inr devs)"
  shows "\<exists>con' m'. scan_pci_devices fuel cfg (con, m) = Some (Inr (devs, con', m')) \<and> screen_inv con' m' \<and> shows_text (con, m) (con', m')"
proof -
  have e: "foldM (\<lambda>dev. println (device_line cfg dev)) devs s = foldM println (map (device_line cfg) devs) s" for s
    by (induction devs arbitrary: s) (auto intro: rbind_cong)
  from lines_shown [OF assms(1), of "map (device_line cfg) devs"] show ?thesis
    using assms(2) by (auto simp: scan_pci_devices_def e)
qed

text \<open>A C string of ASCII characters is printed as it is up to 128 characters; the memory map is printed unless a region is empty and at zero.\<close>

lemma c_bytes_string:
  assumes "\<forall>i < length t. mem (s + i) = t ! i \<and> t ! i \<noteq> 0" "mem (s + length t) = 0"
  shows "c_bytes n mem s = take n t"
  using assms
proof (induction n mem s arbitrary: t rule: c_bytes.induct)
  case (2 n mem s)
  show ?case
  proof (cases t)
    case (Cons b t')
    have "\<forall>i < length t'. mem (s + 1 + i) = t' ! i \<and> t' ! i \<noteq> 0" using 2(2) Cons by fastforce
    moreover have "mem s = b" "b \<noteq> 0" using 2(2) Cons by fastforce+
    ultimately show ?thesis using 2 Cons by simp
  qed (use 2(3) in simp)
qed simp

lemma utf8_ascii: "\<forall>b \<in> set bs. b < 0x80 \<Longrightarrow> utf8_valid bs"
  by (induction bs rule: utf8_valid.induct) auto

theorem print_c_ascii:
  assumes "\<forall>i < length t. mem (s + i) = t ! i \<and> t ! i \<noteq> 0 \<and> t ! i < 0x80" "mem (s + length t) = 0"
  shows "print_c mem s = print [take 128 t]"
proof -
  have "c_bytes 128 mem s = take 128 t" using assms by (intro c_bytes_string) auto
  moreover have "utf8_valid (take 128 t)" using assms(1) by (intro utf8_ascii) (auto simp: in_set_conv_nth)
  ultimately show ?thesis by (simp add: print_c_def)
qed

theorem print_memmap_ok:
  assumes "mm_wf mem mm" "\<forall>d \<in> set (mm_spec mem mm). md_physical_start d \<noteq> 0 \<or> md_num_pages d \<noteq> 0" "screen_inv con m"
  shows "\<exists>con' m'. print_memmap mem mm (con, m) = Some (Inr (con', m')) \<and> screen_inv con' m'"
proof -
  define line where "line d = projr (memmap_line d)" for d
  have l: "memmap_line d = Inr (line d)" if "d \<in> set (mm_spec mem mm)" for d
  proof -
    have "0 < unat (md_physical_start d) \<or> 0 < unat (md_num_pages d)" using assms(2) that by (auto simp: unat_gt_0)
    then show ?thesis by (auto simp: memmap_line_def line_def)
  qed
  have "foldM (\<lambda>d s. rbind (memmap_line d) (\<lambda>l. println l s)) ds s = foldM println (map line ds) s" if "set ds \<subseteq> set (mm_spec mem mm)" for ds s
    using that l by (induction ds arbitrary: s) (auto intro: rbind_cong)
  then show ?thesis using lines_shown [OF assms(3), of "map line (mm_spec mem mm)"] mm_entries_spec [OF assms(1)] by (auto simp: print_memmap_def)
qed

section \<open>The machine that the kernel is made for\<close>

text \<open>
  \<open>firmware_ok\<close>: the memory map is well-formed, ascending, fits the bitmap and has eight available frames; the ACPI tables are in
  order and outside the available frames; the timer of the chip set counts.
\<close>

definition kept_bytes :: "memory \<Rightarrow> memory_map \<Rightarrow> addr set" where
  "kept_bytes mem mm = {a. a div BYTES_PER_FRAME \<notin> available_frames (mm_spec mem mm)}"

definition memory_ok :: "memory \<Rightarrow> memory_map \<Rightarrow> bool" where
  "memory_ok mem mm \<longleftrightarrow> mm_wf mem mm \<and> ascending_map (mm_spec mem mm) \<and> fits_bitmap (mm_spec mem mm) \<and> 8 \<le> card (available_frames (mm_spec mem mm))"

definition clock_ok :: "'d machine \<Rightarrow> memory \<Rightarrow> memory_map \<Rightarrow> addr \<Rightarrow> bool" where
  "clock_ok mc mem mm rsdp \<longleftrightarrow> (\<exists>f tau. acpi_tables mem rsdp f \<and> acpi_area mem rsdp \<subseteq> kept_bytes mem mm
     \<and> counts (timer_width (fadt_at mem f)) tau (mc_pm_timer mc)) \<and> (\<forall>k. (COUNT_MAX - unat (mc_lapic_count mc k)) * 10 < 2 ^ 32)"

text \<open>
  \<open>bus_ok\<close>: the 32 slots of the scan suffice, there is a USB controller, and every one of them has an MSI capability behind the base
  address registers and before the registers for the routing of ports, and a register block with a legacy capability outside the available frames.
\<close>

definition xhc_ok :: "pci_config \<Rightarrow> xhc_platform \<Rightarrow> memory \<Rightarrow> addr set \<Rightarrow> pci_device \<Rightarrow> bool" where
  "xhc_ok cfg pf mem keep x \<longleftrightarrow> (\<exists>c bar cs. msi_capability cfg x (read_cap_ptr cfg x) c \<and> 0x18 \<le> unat c \<and> unat c + 16 \<le> 0xd0
     \<and> read_bar cfg x 0 = Inr bar \<and> unat (bar AND NOT 0b1111) \<noteq> 0
     \<and> capability_list mem (unat (bar AND NOT 0b1111) + pf_ex_cap_ptr pf * 4) cs \<and> set cs \<union> Suc ` set cs \<subseteq> keep)"

definition bus_ok :: "'d machine \<Rightarrow> pci_config \<Rightarrow> memory \<Rightarrow> memory_map \<Rightarrow> bool" where
  "bus_ok mc cfg mem mm \<longleftrightarrow> scan_all_bus 33 cfg [] \<noteq> Some (Inl DevicesAreFull) \<and> (\<exists>x \<in> all_functions cfg. is_xhc cfg x)
     \<and> (\<forall>x \<in> all_functions cfg. is_xhc cfg x \<longrightarrow> xhc_ok cfg (mc_platform mc) mem (kept_bytes mem mm) x)"

text \<open>\<open>setters_ok\<close>: the functions of the bitfield crate. \<open>usb_ok\<close>: allocations succeed, and the controller and the mouse behave as described.\<close>

definition setters_ok :: "trb_gb \<Rightarrow> 'd machine \<Rightarrow> bool" where
  "setters_ok gb mc \<longleftrightarrow> sets_range (mc_att_range mc) \<and> sets_bit (mc_att_bit mc) \<and> bitfield_laws (mc_msi mc)
     \<and> trb_laws (en_sb (mc_env mc)) gb (en_lk (mc_env mc))"

definition usb_ok :: "controller \<Rightarrow> usb_setup \<Rightarrow> 'd machine \<Rightarrow> bool" where
  "usb_ok hc up mc \<longleftrightarrow> en_addr (mc_env mc) 0 \<noteq> 0 \<and> (\<forall>i. pf_page (mc_platform mc) i \<noteq> 0)
     \<and> en_transfer (mc_env mc) = hc_transfer hc \<and> en_command (mc_env mc) = hc_command hc \<and> (\<forall>slot ep req k. hc_ok hc slot ep req k)
     \<and> (\<forall>ptr. cc_slot_id (hc_completion hc EnableSlot ptr) \<le> number_of_device_slots (pf_caps (mc_platform mc)))
     \<and> (\<forall>cmd ptr. cc_success (hc_completion hc cmd ptr)) \<and> one_mouse hc up"

definition machine_ok :: "trb_gb \<Rightarrow> controller \<Rightarrow> usb_setup \<Rightarrow> xhc_spec machine \<Rightarrow> memory \<Rightarrow> memory_map \<Rightarrow> addr \<Rightarrow> pci_config \<Rightarrow> bool" where
  "machine_ok gb hc up mc mem mm rsdp cfg \<longleftrightarrow> addrs_ok (mc_tables mc) \<and> memory_ok mem mm \<and> clock_ok mc mem mm rsdp \<and> bus_ok mc cfg mem mm
     \<and> setters_ok gb mc \<and> usb_ok hc up mc \<and> mc_regs mc = spec_regs \<and> mc_stack mc + 8192 < usize_bound"

section \<open>The stages\<close>

lemma start_timers_ok:
  assumes c: "counts (timer_width (fadt_at mem f)) tau (mc_pm_timer mc)" "\<forall>k. (COUNT_MAX - unat (mc_lapic_count mc k)) * 10 < 2 ^ 32"
  shows "\<exists>lapic timer. start_timers mc mem f = Some (Inr (lapic, timer)) \<and> initialize_timer = Inr timer
    \<and> (LVT_TIMER_ADDR, push_bit 16 2 OR 0x41) \<in> set lapic"
proof -
  obtain k where k: "wait_millis (fadt_at mem f) (mc_pm_timer mc) 100 = Some (Inr k)" using wait_millis_run [OF c(1), of 100] by auto
  obtain t where t: "initialize_timer = Inr t" using initialize_timer_inv by blast
  have "unat (mc_lapic_count mc k) \<le> COUNT_MAX" using unsigned_less [of "mc_lapic_count mc k", where 'a = nat] by (simp add: COUNT_MAX_def)
  then have "lapic_timer_elapsed (mc_lapic_count mc k) = Inr (COUNT_MAX - unat (mc_lapic_count mc k))" by (simp add: lapic_timer_elapsed_def res_simps)
  then have "\<exists>lapic freq. initialize_lapic_timer 0x41 (mc_lapic_count mc k) = Inr (lapic, freq) \<and> (LVT_TIMER_ADDR, push_bit 16 2 OR 0x41) \<in> set lapic"
    using c(2) [rule_format, of k] by (simp add: initialize_lapic_timer_def Let_def)
  then show ?thesis using k t by (auto simp: start_timers_def)
qed

lemma align_down_16:
  fixes w :: u64
  shows "unat (w AND NOT 0xf) = unat w div 16 * 16"
proof -
  have f: "(0xf :: u64) = mask 4" by (simp add: mask_eq_exp_minus_1)
  have "w AND NOT (mask 4) = push_bit 4 (drop_bit 4 w)" by (rule bit_word_eqI) (auto simp: bit_simps)
  moreover have "unat w div 16 * 16 \<le> unat w" by simp
  then have "unat w div 16 * 16 < 2 ^ 64" using unsigned_less [of w, where 'a = nat] by simp
  ultimately show ?thesis unfolding f
    by (simp add: push_bit_eq_mult unat_word_ariths unat_drop_bit_eq drop_bit_eq_div unat_div)
qed

lemma aligned_slot:
  fixes e :: nat
  assumes "rsp = e div 16 * 16 - 8" "8192 \<le> e"
  shows "rsp mod 16 = 8" "e \<le> rsp + 8192" "rsp + 8 \<le> e"
proof -
  obtain q where q: "e div 16 = Suc q" using assms(2) by (cases "e div 16") simp_all
  then have r: "rsp = 16 * q + 8" using assms(1) by simp
  then show "rsp mod 16 = 8" by simp
  define t where "t = e mod 16"
  have "e = 16 * q + 16 + t" "t < 16" using q div_mult_mod_eq [of e 16] by (simp_all add: t_def)
  then show "e \<le> rsp + 8192" "rsp + 8 \<le> e" using r by simp_all
qed

lemma task_b_ok:
  assumes "stack + 8192 < usize_bound"
  shows "\<exists>ctx. task_b_context entry cr3 stack = Inr ctx \<and> tc_rip ctx = entry \<and> tc_cr3 ctx = cr3
    \<and> unat (tc_regs ctx RSP) mod 16 = 8 \<and> stack \<le> unat (tc_regs ctx RSP) \<and> unat (tc_regs ctx RSP) + 8 \<le> stack + 8192"
proof -
  define e where "e = stack + 8192"
  define rsp where "rsp = e div 16 * 16 - 8"
  have e: "8192 \<le> e" "e < usize_bound" using assms by (simp_all add: e_def)
  note r = aligned_slot [OF rsp_def e(1)]
  have "unat (of_nat e :: u64) = e" using e(2) by (simp add: unat_of_nat usize_bound_def)
  then have "usize_sub (unat ((of_nat e :: u64) AND NOT 0xf)) 8 = Inr rsp"
    unfolding align_down_16 rsp_def using e(1) by (simp add: usize_sub_def)
  moreover have "usize_add (stack + 8 * 1023) 8 = Inr e" using e(2) by (simp add: usize_add_def e_def)
  ultimately have "task_b_context entry cr3 stack = Inr (task_context_new\<lparr>tc_rip := entry, tc_cr3 := cr3, tc_rflags := 0x202,
      tc_fpu := (replicate 128 0)[6 := 0x1f80], tc_regs := (\<lambda>_. 0)(RDI := 1, RSI := 42, RSP := of_nat rsp),
      tc_segs := (\<lambda>_. 0)(CS := KERNEL_CS, SS := KERNEL_SS)\<rparr>)"
    unfolding task_b_context_def by (simp only: rbind_Inr) (simp add: store_def task_context_new_def)
  moreover have "unat (of_nat rsp :: u64) = rsp" using e(2) r(3) by (simp add: unat_of_nat usize_bound_def)
  ultimately show ?thesis using r by (simp add: e_def)
qed

text \<open>The base address registers and the registers for the routing of ports are not those of the MSI capability.\<close>

definition msi_vector :: "pci_config \<Rightarrow> pci_device \<Rightarrow> u8 \<Rightarrow> nat" where
  "msi_vector cfg x c = unat (take_bit 8 (read_confreg cfg x (if bit (read_confreg cfg x c) 23 then c + 12 else c + 8)))"

lemma other_register:
  assumes "unat r + 4 \<le> unat c \<or> unat c + 4 \<le> unat r" "4 dvd unat r"
  shows "dev_address x c \<noteq> dev_address x r"
proof
  assume "dev_address x c = dev_address x r"
  then have "unat c div 4 = unat r div 4" by (rule dev_address_eq)
  then show False using assms by presburger
qed

lemma msi_stage:
  assumes laws: "bitfield_laws bf" and c: "msi_capability cfg x (read_cap_ptr cfg x) c" "0x18 \<le> unat c" "unat c + 16 \<le> 0xd0"
  shows "\<exists>cfg'. configure_msi_fixed_destination bf x apic_id 0x40 cfg = Some (Inr cfg') \<and> msi_vector cfg' x c = 0x40 \<and> bit (read_confreg cfg' x c) 16
    \<and> read_bar cfg' x 0 = read_bar cfg x 0
    \<and> (\<forall>v. msi_vector (write_confreg x 0xD0 v cfg') x c = 0x40 \<and> bit (read_confreg (write_confreg x 0xD0 v cfg') x c) 16)"
proof -
  have lt: "unat c + 12 < 256" using c(3) by simp
  define data where "data = (if bit (read_confreg cfg x c) 23 then c + 12 else c + 8)"
  from msi_run [OF laws c(1) lt, of apic_id "0x40"] obtain cfg' where
    r: "configure_msi_fixed_destination bf x apic_id 0x40 cfg = Some (Inr cfg')" "read_confreg cfg' x c = set_bit 16 (read_confreg cfg x c)"
      "take_bit 8 (read_confreg cfg' x data) = ucast (0x40 :: u8)"
      "\<And>a. a \<notin> {dev_address x c, dev_address x (c + 4), dev_address x data} \<Longrightarrow> cfg' a = cfg a"
    unfolding data_def [symmetric] Let_def by blast
  have u: "unat (c + 4) = unat c + 4" "unat data = unat c + 12 \<or> unat data = unat c + 8" using lt by (auto simp: data_def unat_word_ariths)
  have n: "dev_address x c \<noteq> dev_address x k" "dev_address x (c + 4) \<noteq> dev_address x k" "dev_address x data \<noteq> dev_address x k"
    if "unat k \<le> 0x14 \<or> unat k = 0xd0" "4 dvd unat k" for k
    using that c(2,3) u by (intro other_register; auto)+
  have bars: "read_confreg cfg' x k = read_confreg cfg x k" if "unat k \<le> 0x14" "4 dvd unat k" for k
    unfolding read_confreg_def using that n [of k] by (intro r(4)) auto
  have d0: "dev_address x c \<noteq> dev_address x 0xd0" "dev_address x data \<noteq> dev_address x 0xd0" using n [of "0xd0"] by simp_all
  have b: "bit (read_confreg cfg' x c) 23 = bit (read_confreg cfg x c) 23" "bit (read_confreg cfg' x c) 16" unfolding r(2) by (simp_all add: bit_set_bit_iff)
  have w: "read_confreg (write_confreg x 0xD0 v cfg') x c = read_confreg cfg' x c" "read_confreg (write_confreg x 0xD0 v cfg') x data = read_confreg cfg' x data" for v
    using d0 by (simp_all add: read_confreg_def write_confreg_def)
  have "msi_vector cfg' x c = 0x40" "msi_vector (write_confreg x 0xD0 v cfg') x c = 0x40" for v
    unfolding msi_vector_def w(1) b(1) data_def [symmetric] w(2) r(3) by simp_all
  moreover have "read_bar cfg' x 0 = read_bar cfg x 0" using bars [of "0x10"] bars [of "0x14"] by (simp add: read_bar_def Let_def)
  ultimately show ?thesis using r(1) b(2) w(1) by simp
qed

lemma scan_found:
  assumes "bus_ok mc cfg mem mm"
  shows "\<exists>devs. scan_all_bus 33 cfg [] = Some (Inr devs) \<and> set devs = all_functions cfg"
proof -
  obtain r where r: "scan_all_bus 33 cfg [] = Some r" using scan_all_bus_ends [of cfg] by (cases "scan_all_bus 33 cfg []") auto
  then obtain devs where "r = Inr devs" using assms by (cases r) (auto simp: bus_ok_def intro: pci_error.exhaust)
  then show ?thesis using scan_all_bus_complete r by blast
qed

lemma found_xhc:
  assumes "bus_ok mc cfg mem mm"
  shows "\<exists>x. find_xhc_device 33 cfg = Some (Inr x) \<and> x \<in> all_functions cfg \<and> is_xhc cfg x \<and> xhc_ok cfg (mc_platform mc) mem (kept_bytes mem mm) x"
proof -
  obtain devs where d: "scan_all_bus 33 cfg [] = Some (Inr devs)" "set devs = all_functions cfg" using scan_found [OF assms] by blast
  obtain x where "pick_xhc cfg None devs = Some x" "x \<in> set devs" "is_xhc cfg x"
    using pick_xhc_spec [of cfg None devs] assms d(2) by (cases "pick_xhc cfg None devs") (auto simp: bus_ok_def)
  then show ?thesis using d assms by (simp add: find_xhc_device_def bus_ok_def)
qed

lemma start_interrupts_ok:
  assumes s: "screen_inv con m" and set: "setters_ok gb mc" and bus: "bus_ok mc cfg mem0 mm" and usb: "usb_ok hc up mc" and regs: "mc_regs mc = spec_regs"
    and keep: "\<forall>a \<in> kept_bytes mem0 mm. mem a = mem0 a"
  shows "\<exists>idt xhc sys ex cfg' mem' d' con' m' c. start_interrupts mc cs pci cfg mem d (con, m)
      = Some (Inr (idt, xhc, (sys, ex, usb_driver_new), (cfg', mem', d'), con', m'))
    \<and> screen_inv con' m' \<and> shows_text (con, m) (con', m') \<and> brought_up (mc_env mc) (mc_platform mc) sys d' \<and> room gb 30 (us_world sys)
    \<and> ch_queue (ex_queue ex) = [0, 1, 2, 3] \<and> xhc \<in> all_functions cfg \<and> is_xhc cfg xhc \<and> msi_capability cfg xhc (read_cap_ptr cfg xhc) c
    \<and> bit (read_confreg cfg' xhc c) 16 \<and> gate_target (idt ! msi_vector cfg' xhc c) = Some (cs, unat (mc_xhci_handler mc))
    \<and> gate_target (idt ! 0x41) = Some (cs, unat (mc_lapic_handler mc))"
proof -
  obtain idt where idt: "setup_idt (mc_att_range mc) (mc_att_bit mc) cs (mc_xhci_handler mc) (mc_lapic_handler mc) IDT_init = Inr idt"
    "gate_target (idt ! 0x40) = Some (cs, unat (mc_xhci_handler mc))" "gate_target (idt ! 0x41) = Some (cs, unat (mc_lapic_handler mc))"
    using idt_run [of "mc_att_range mc" "mc_att_bit mc" cs] set by (fastforce simp: setters_ok_def)
  from found_xhc [OF bus] obtain x where x: "find_xhc_device 33 cfg = Some (Inr x)" "x \<in> all_functions cfg" "is_xhc cfg x"
    "xhc_ok cfg (mc_platform mc) mem0 (kept_bytes mem0 mm) x" by blast
  then obtain c bar caps where c: "msi_capability cfg x (read_cap_ptr cfg x) c" "0x18 \<le> unat c" "unat c + 16 \<le> 0xd0"
    and bar: "read_bar cfg x 0 = Inr bar" "unat (bar AND NOT 0b1111) \<noteq> 0"
    and caps: "capability_list mem0 (unat (bar AND NOT 0b1111) + pf_ex_cap_ptr (mc_platform mc) * 4) caps" "set caps \<union> Suc ` set caps \<subseteq> kept_bytes mem0 mm"
    unfolding xhc_ok_def by blast
  let ?id = "drop_bit 24 (mc_apic_id_reg mc)"
  have laws: "bitfield_laws (mc_msi mc)" "trb_laws (en_sb (mc_env mc)) gb (en_lk (mc_env mc))" using set by (simp_all add: setters_ok_def)
  obtain cfg1 where cfg1: "configure_msi_fixed_destination (mc_msi mc) x (ucast ?id) 0x40 cfg = Some (Inr cfg1)" "read_bar cfg1 x 0 = Inr bar"
    "msi_vector cfg1 x c = 0x40" "bit (read_confreg cfg1 x c) 16"
    "msi_vector (write_confreg x 0xD0 (read_confreg cfg1 x 0xD4) cfg1) x c = 0x40" "bit (read_confreg (write_confreg x 0xD0 (read_confreg cfg1 x 0xD4) cfg1) x c) 16"
    using msi_stage [OF laws(1) c, of "ucast ?id"] bar(1) by auto
  have "platform_ok (mc_env mc) (mc_platform mc) mem (unat (bar AND NOT 0b1111))"
    using capability_list_same [OF caps(1), of mem] caps(2) keep usb unfolding platform_ok_def usb_ok_def by (auto simp: subset_iff)
  from init_usb_ok [OF laws(2) cfg1(2) bar(2) this, of "intel_ehci_found cfg1 pci" d] obtain sys ex cfg2 mem2 d2 where
    u: "init_usb spec_regs (mc_env mc) (mc_platform mc) x (intel_ehci_found cfg1 pci) (cfg1, mem, d) = Some (Inr ((sys, ex, usb_driver_new), cfg2, mem2, d2))"
      "brought_up (mc_env mc) (mc_platform mc) sys d2" "room gb 30 (us_world sys)" "ch_queue (ex_queue ex) = [0, 1, 2, 3]"
      "cfg2 = (if intel_ehci_found cfg1 pci then write_confreg x 0xD0 (read_confreg cfg1 x 0xD4) cfg1 else cfg1)" by blast
  have v: "msi_vector cfg2 x c = 0x40" "bit (read_confreg cfg2 x c) 16" using cfg1(3-6) by (simp_all add: u(5))
  obtain con1 m1 where s1: "foldM println (mc_idt_lines mc) (con, m) = Inr (con1, m1)" "screen_inv con1 m1" "shows_text (con, m) (con1, m1)" using lines_shown [OF s] by blast
  obtain con2 m2 where s2: "println [as_bytes ''apic_id: '', dec_string (unat ?id)] (con1, m1) = Inr (con2, m2)" "screen_inv con2 m2" "shows_text (con1, m1) (con2, m2)"
    using line_shown [OF s1(2)] by blast
  obtain con3 m3 where s3: "foldM println (mc_msi_lines mc) (con2, m2) = Inr (con3, m3)" "screen_inv con3 m3" "shows_text (con2, m2) (con3, m3)" using lines_shown [OF s2(2)] by blast
  obtain con4 m4 where s4: "foldM println (mc_usb_lines mc) (con3, m3) = Inr (con4, m4)" "screen_inv con4 m4" "shows_text (con3, m3) (con4, m4)" using lines_shown [OF s3(2)] by blast
  obtain con5 m5 where s5: "print [as_bytes [CHR ''f'', CHR ''i'', CHR ''n'', CHR ''i'', CHR ''s'', CHR ''h'', CHR 0x0A]] (con4, m4) = Inr (con5, m5)"
    "screen_inv con5 m5" "shows_text (con4, m4) (con5, m5)" using print_shown [OF s4(2)] by blast
  have shown: "shows_text (con, m) (con5, m5)" using s1(3) s2(3) s3(3) s4(3) s5(3) shows_text_trans by blast
  have vec: "of_nat (iv_code XHCI) = (0x40 :: u8)" by simp
  have "start_interrupts mc cs pci cfg mem d (con, m) = Some (Inr (idt, x, (sys, ex, usb_driver_new), (cfg2, mem2, d2), con5, m5))"
    unfolding start_interrupts_def vec idt(1) s1(1) x(1) regs by (simp only: Let_def cbind_simps s2(1) cfg1(1) s3(1) u(1) case_prod_conv s4(1) s5(1))
  then show ?thesis using s5(2) shown u(2-4) x(2,3) c(1) v idt(2,3) by (intro exI conjI) (assumption | simp)+
qed

lemma initial_usb_ready:
  assumes "setters_ok gb mc" "usb_ok hc up mc" "brought_up (mc_env mc) (mc_platform mc) sys d" "room gb 30 (us_world sys)"
  shows "usb_ready gb 31 hc (mc_env mc) up \<lparr>ut_world = us_world sys, ut_driver = usb_driver_new, ut_started = False\<rparr>"
proof -
  have "usb_inv gb 31 hc (mc_env mc) 30 (us_world sys)"
    using assms by (simp add: usb_inv_def setters_ok_def usb_ok_def brought_up_def transfer_ring_set_new_def)
  moreover have "slots_ok hc (us_world sys)" using assms(2,3) by (auto simp: slots_ok_def usb_ok_def brought_up_def word_le_nat_alt le_imp_less_Suc)
  ultimately show ?thesis using assms(2) by (simp add: usb_ready_def usb_ok_def)
qed

lemma early_boot:
  assumes mem: "memory_ok mem mm" and clock: "clock_ok mc mem mm rsdp"
  shows "\<exists>heap mem' f lapic timer. init_allocators (mc_codec mc) mem mm = Some (Inr (heap, mem')) \<and> oa_inv heap [] \<and> (\<forall>a \<in> kept_bytes mem mm. mem' a = mem a)
    \<and> acpi_initialize mem' rsdp = Inr f \<and> start_timers mc mem' f = Some (Inr (lapic, timer)) \<and> initialize_timer = Inr timer
    \<and> (LVT_TIMER_ADDR, push_bit 16 2 OR 0x41) \<in> set lapic"
proof -
  have m: "mm_wf mem mm" "ascending_map (mm_spec mem mm)" "fits_bitmap (mm_spec mem mm)" "8 \<le> card (available_frames (mm_spec mem mm))"
    using mem by (simp_all add: memory_ok_def)
  from init_allocators_frames [OF mm_entries_spec [OF m(1)] m(2-4), of "mc_codec mc"] obtain heap mem' where
    h: "init_allocators (mc_codec mc) mem mm = Some (Inr (heap, mem'))" "oa_inv heap []" "\<forall>a \<in> kept_bytes mem mm. mem' a = mem a"
    unfolding kept_bytes_def by blast
  obtain f tau where f: "acpi_tables mem rsdp f" "acpi_area mem rsdp \<subseteq> kept_bytes mem mm" "counts (timer_width (fadt_at mem f)) tau (mc_pm_timer mc)"
    "\<forall>k. (COUNT_MAX - unat (mc_lapic_count mc k)) * 10 < 2 ^ 32" using clock unfolding clock_ok_def by blast
  have "\<forall>b \<in> acpi_area mem rsdp. mem' b = mem b" using f(2) h(3) by blast
  note a = acpi_tables_same [OF f(1) this]
  from start_timers_ok [of mem' f tau mc] f(3,4) a(2) obtain lapic timer where
    "start_timers mc mem' f = Some (Inr (lapic, timer))" "initialize_timer = Inr timer" "(LVT_TIMER_ADDR, push_bit 16 2 OR 0x41) \<in> set lapic" by auto
  then show ?thesis using h a(1) by blast
qed

lemma boot_ok:
  assumes ok: "machine_ok gb hc up mc mem (memory_map_of_raw mm) rsdp cfg" and fb: "screen_fits fb"
  shows "\<exists>b c. kernel_main2 mc mem fb mm rsdp cfg d = Some (Inr b)
    \<and> booted fb (k_usb (bs_kernel b)) (bs_kernel b) \<and> usb_ready gb 31 hc (mc_env mc) up (k_usb (bs_kernel b)) \<and> oa_inv (bs_heap b) []
    \<and> (\<forall>va other. va < 64 * 2 ^ 30 \<longrightarrow> walk (table_mem (mc_tables mc) (bs_tables b) other) (bs_cr3 b) va = Some va)
    \<and> brought_up (mc_env mc) (mc_platform mc) (bs_usb b) (bs_regs b)
    \<and> bs_xhc b \<in> all_functions cfg \<and> is_xhc cfg (bs_xhc b) \<and> msi_capability cfg (bs_xhc b) (read_cap_ptr cfg (bs_xhc b)) c \<and> bit (read_confreg (bs_cfg b) (bs_xhc b) c) 16
    \<and> gate_target (bs_idt b ! msi_vector (bs_cfg b) (bs_xhc b) c) = Some (KERNEL_CS, unat (mc_xhci_handler mc))
    \<and> (LVT_TIMER_ADDR, push_bit 16 2 OR 0x41) \<in> set (bs_lapic b) \<and> gate_target (bs_idt b ! 0x41) = Some (KERNEL_CS, unat (mc_lapic_handler mc))
    \<and> tc_cr3 (bs_task_b b) = bs_cr3 b \<and> tc_rip (bs_task_b b) = mc_taskB mc \<and> unat (tc_regs (bs_task_b b) RSP) mod 16 = 8
    \<and> mc_stack mc \<le> unat (tc_regs (bs_task_b b) RSP) \<and> unat (tc_regs (bs_task_b b) RSP) + 8 \<le> mc_stack mc + 8192"
proof -
  let ?mm = "memory_map_of_raw mm" and ?fg = "(255, 255, 255)" and ?bg = "(100, 100, 100)"
  have M: "addrs_ok (mc_tables mc)" "memory_ok mem ?mm" "clock_ok mc mem ?mm rsdp" "bus_ok mc cfg mem ?mm" "setters_ok gb mc" "usb_ok hc up mc"
    "mc_regs mc = spec_regs" "mc_stack mc + 8192 < usize_bound" using ok by (simp_all add: machine_ok_def)
  obtain gdt where seg: "setup_segments (mc_seg_range mc) (mc_seg_bit mc) = (gdt, 23, 0, KERNEL_CS, KERNEL_SS)" by (simp add: setup_segments_def)
  from setup_spec [OF M(1)] obtain t where
    t: "setup_identity_page_table (mc_tables mc) initial_tables = Inr (t, of_nat (pml4_addr (mc_tables mc)))" "identity_tables (mc_tables mc) t"
    unfolding identity_tables_def by blast
  from early_boot [OF M(2,3)] obtain heap mem1 f lapic timer where
    e: "init_allocators (mc_codec mc) mem ?mm = Some (Inr (heap, mem1))" "oa_inv heap []" "\<forall>a \<in> kept_bytes mem ?mm. mem1 a = mem a"
      "acpi_initialize mem1 rsdp = Inr f" "start_timers mc mem1 f = Some (Inr (lapic, timer))" "initialize_timer = Inr timer"
      "(LVT_TIMER_ADDR, push_bit 16 2 OR 0x41) \<in> set lapic" by blast
  from screen_boot [of fb ?fg ?bg] fb obtain dflt m0 m1 con m where
    s: "initialize_winmgr fb = Inr (dflt, m0)" "initialize_windows dflt m0 = Inr (0, 1, m1)" "init_console dflt m1 ?fg ?bg = Inr (con, m)" "screen_inv con m"
    by (auto simp: screen_fits_def)
  obtain devs where devs: "scan_all_bus 33 cfg [] = Some (Inr devs)" using scan_found [OF M(4)] by blast
  from scan_shown [OF s(4) devs] obtain con1 m1' where
    p: "scan_pci_devices 33 cfg (con, m) = Some (Inr (devs, con1, m1'))" "screen_inv con1 m1'" "shows_text (con, m) (con1, m1')" by blast
  from start_interrupts_ok [OF p(2) M(5,4,6,7) e(3), of KERNEL_CS devs d] obtain idt xhc sys ex cfg2 mem2 d2 con2 m2 c where
    i: "start_interrupts mc KERNEL_CS devs cfg mem1 d (con1, m1') = Some (Inr (idt, xhc, (sys, ex, usb_driver_new), (cfg2, mem2, d2), con2, m2))"
      "shows_text (con1, m1') (con2, m2)" "brought_up (mc_env mc) (mc_platform mc) sys d2" "room gb 30 (us_world sys)" "xhc \<in> all_functions cfg" "is_xhc cfg xhc"
      "msi_capability cfg xhc (read_cap_ptr cfg xhc) c" "bit (read_confreg cfg2 xhc c) 16"
      "gate_target (idt ! msi_vector cfg2 xhc c) = Some (KERNEL_CS, unat (mc_xhci_handler mc))" "gate_target (idt ! 0x41) = Some (KERNEL_CS, unat (mc_lapic_handler mc))"
    by blast
  from task_b_ok [OF M(8), of "mc_taskB mc" "of_nat (pml4_addr (mc_tables mc))"] obtain ctx where
    ctx: "task_b_context (mc_taskB mc) (of_nat (pml4_addr (mc_tables mc))) (mc_stack mc) = Inr ctx" "tc_rip ctx = mc_taskB mc" "tc_cr3 ctx = of_nat (pml4_addr (mc_tables mc))"
      "unat (tc_regs ctx RSP) mod 16 = 8" "mc_stack mc \<le> unat (tc_regs ctx RSP)" "unat (tc_regs ctx RSP) + 8 \<le> mc_stack mc + 8192" by blast
  let ?u = "\<lparr>ut_world = us_world sys, ut_driver = usb_driver_new, ut_started = False\<rparr>"
  let ?k = "start_kernel timer dflt m2 con2 ?u"
  let ?b = "\<lparr>bs_gdt = gdt, bs_tables = t, bs_cr3 = of_nat (pml4_addr (mc_tables mc)), bs_heap = heap, bs_mem = mem2, bs_lapic = lapic, bs_idt = idt,
    bs_devices = devs, bs_xhc = xhc, bs_cfg = cfg2, bs_regs = d2, bs_usb = sys, bs_executor = ex, bs_task_b = ctx, bs_kernel = ?k\<rparr>"
  have run: "kernel_main2 mc mem fb mm rsdp cfg d = Some (Inr ?b)"
    unfolding kernel_main2_def seg by (simp only: Let_def case_prod_conv cbind_simps t(1) e(1,4,5) s(1-3) p(1) i(1) ctx(1))
  have "shows_text (con, m) (con2, m2)" using shows_text_trans p(3) i(2) by blast
  then have "booted fb ?u ?k" unfolding booted_def shows_text_def using e(6) s(1-3) by blast
  moreover have "usb_ready gb 31 hc (mc_env mc) up ?u" by (rule initial_usb_ready [OF M(5,6) i(3,4)])
  moreover have "k_usb ?k = ?u" by (simp add: start_kernel_def)
  ultimately show ?thesis using run e(2,7) i(3,5-10) ctx(2-6) walk_below [OF M(1) t(2)] by (intro exI [of _ ?b] exI [of _ c]) simp
qed

section \<open>Properties\<close>



section \<open>A machine\<close>

text \<open>16 available pages from \<open>0x1000\<close>, the ACPI tables and the memory map below them, the registers of the USB controller at \<open>0x100000\<close>.\<close>

definition boot_memory :: memory where
  "boot_memory = example_memory(0x800 := 7, 0x809 := 0x10, 0x818 := 16, 0x820 := 15, 0x100400 := 1)"

definition boot_map :: memory_map_raw where
  "boot_map = \<lparr>raw_buffer = 0x800, raw_map_size = 48, raw_map_key = 1, raw_descriptor_size = 48\<rparr>"

definition boot_config :: pci_config where
  "boot_config a = (if a = 0x80000810 then 0x100000 else example_config a)"

definition boot_machine :: "xhc_spec machine" where
  "boot_machine = \<lparr>mc_codec = example_codec, mc_tables = example_addrs, mc_seg_range = put_range, mc_seg_bit = put_bit, mc_att_range = put_range, mc_att_bit = put_bit,
     mc_xhci_handler = 0x101000, mc_lapic_handler = 0x101100, mc_pm_timer = (\<lambda>k. of_nat (k mod 2 ^ timer_width (fadt_at example_memory 768))),
     mc_lapic_count = (\<lambda>_. 0xffff0000), mc_apic_id_reg = 0, mc_msi = put_fields, mc_regs = spec_regs, mc_env = example_env mouse_hc, mc_platform = example_platform,
     mc_taskB = 0x102000, mc_stack = 0x8000, mc_idt_lines = [], mc_msi_lines = [], mc_usb_lines = [[as_bytes ''xHC started'']]\<rparr>"

lemma boot_machine_memory:
  "memory_ok boot_memory (memory_map_of_raw boot_map)" "kept_bytes boot_memory (memory_map_of_raw boot_map) = {a. a < 0x1000 \<or> 0x11000 \<le> a}"
proof -
  let ?mm = "memory_map_of_raw boot_map"
  let ?d = "\<lparr>md_type = EfiConventionalMemory, md_physical_start = 0x1000, md_virtual_start = 0, md_num_pages = 16, md_attribute = 15\<rparr>"
  have mm: "?mm = \<lparr>mm_buffer = 0x800, mm_len = 48, mm_map_key = 1, mm_descriptor_size = 48\<rparr>" by (simp add: memory_map_of_raw_def boot_map_def)
  have upt: "[0..<4] = [0, 1, 2, 3::nat]" "[0..<8] = [0, 1, 2, 3, 4, 5, 6, 7::nat]" by (simp_all add: upt_rec)
  have z: "example_memory a = 0" if "0x400 \<le> a" for a using that by (simp add: example_memory_def place_def example_lengths)
  have d: "slot_desc boot_memory ?mm 0 = Inr ?d"
    by (simp add: mm slot_desc_def descriptor_at_def Let_def read_u32_def read_u64_def bytes_at_def upt memory_types_def boot_memory_def z)
  have wf: "mm_wf boot_memory ?mm" using d by (simp add: mm_wf_def mm usize_bound_def)
  have spec: "mm_spec boot_memory ?mm = [?d]" using d by (simp add: mm_spec_def mm)
  have av: "available_frames [?d] = {1..<17}"
    by (simp add: available_frames_def desc_frames_def is_available_def desc_start_def desc_end_def frame_consts)
  have "ascending_map [?d]" "fits_bitmap [?d]" by (simp_all add: ascending_map_def fits_bitmap_def desc_start_def desc_end_def frame_consts)
  then show "memory_ok boot_memory ?mm" using wf by (simp add: memory_ok_def spec av)
  show "kept_bytes boot_memory ?mm = {a. a < 0x1000 \<or> 0x11000 \<le> a}" unfolding kept_bytes_def spec av by (auto simp: frame_consts)
qed

lemma boot_machine_clock: "clock_ok boot_machine boot_memory (memory_map_of_raw boot_map) 16"
proof -
  have len: "dh_length example_memory 256 = 52" "dh_length example_memory 512 = 36" "dh_length example_memory 768 = 116"
    by (simp_all add: dh_length_def example_dh_length)
  have t: "acpi_tables example_memory 16 768"
    using example_tables len by (simp add: acpi_tables_def Let_def example_xsdt_address example_entries usize_bound_def)
  have a: "acpi_area example_memory 16 \<subseteq> {..<0x400}" by (auto simp: acpi_area_def Let_def example_xsdt_address example_entries len)
  then have "\<forall>b \<in> acpi_area example_memory 16. boot_memory b = example_memory b" by (auto simp: boot_memory_def)
  note s = acpi_tables_same [OF t this]
  have "acpi_area boot_memory 16 \<subseteq> kept_bytes boot_memory (memory_map_of_raw boot_map)" using a unfolding s(4) boot_machine_memory(2) by auto
  moreover have "counts (timer_width (fadt_at boot_memory 768)) (\<lambda>k. k) (mc_pm_timer boot_machine)" by (auto simp: counts_def s(2) boot_machine_def)
  ultimately show ?thesis using s(3) unfolding clock_ok_def by (auto simp: boot_machine_def COUNT_MAX_def)
qed

lemma boot_scan: "scan_all_bus 33 boot_config [] = Some (Inr [pci_device_new 0 0 0, pci_device_new 0 1 0])"
  by code_simp

lemma boot_machine_bus: "bus_ok boot_machine boot_config boot_memory (memory_map_of_raw boot_map)"
proof -
  let ?x = "pci_device_new 0 1 0"
  have all: "all_functions boot_config = {pci_device_new 0 0 0, ?x}" using scan_all_bus_complete [OF boot_scan] by auto
  have e: "read_cap_ptr boot_config ?x = 0x50" "cap_id boot_config ?x 0x50 = 5" by code_simp+
  have "\<not> class_matches (read_class_code boot_config (pci_device_new 0 0 0)) 0x0c 0x03 0x30" "class_matches (read_class_code boot_config ?x) 0x0c 0x03 0x30" by code_simp+
  then have x: "\<not> is_xhc boot_config (pci_device_new 0 0 0)" "is_xhc boot_config ?x" unfolding is_xhc_def .
  have "read_confreg boot_config ?x 0x10 = 0x100000" by code_simp
  then have bar: "read_bar boot_config ?x 0 = Inr 0x100000" by (simp add: read_bar_def)
  have base: "unat ((0x100000 :: u64) AND NOT 0b1111) = 0x100000" using align_down_16 [of "0x100000"] by simp
  have "msi_capability boot_config ?x (read_cap_ptr boot_config ?x) 0x50" unfolding e(1) using e(2) by (intro msi_capability.here) simp_all
  moreover have "capability_list boot_memory (0x100000 + pf_ex_cap_ptr (mc_platform boot_machine) * 4) [0x100400]"
    by (simp add: capability_list_def boot_memory_def boot_machine_def example_platform_def)
  moreover have "set [0x100400] \<union> Suc ` set [0x100400] \<subseteq> kept_bytes boot_memory (memory_map_of_raw boot_map)" unfolding boot_machine_memory(2) by simp
  ultimately have "xhc_ok boot_config (mc_platform boot_machine) boot_memory (kept_bytes boot_memory (memory_map_of_raw boot_map)) ?x"
    unfolding xhc_ok_def using bar by (intro exI [of _ "0x50"] exI [of _ "0x100000"] exI [of _ "[0x100400]"]) (simp only: base, simp)
  then show ?thesis unfolding bus_ok_def all using x boot_scan by simp
qed

lemma boot_machine_ok: "machine_ok bit mouse_hc example_setup_of boot_machine boot_memory (memory_map_of_raw boot_map) 16 boot_config"
proof -
  have "addrs_ok (mc_tables boot_machine)" by (simp add: boot_machine_def addrs_ok_def example_addrs_def)
  moreover have "setters_ok bit boot_machine"
    using put_fields_laws example_laws by (simp add: setters_ok_def boot_machine_def sets_put_range sets_put_bit example_env_def)
  moreover have "usb_ok mouse_hc example_setup_of boot_machine"
    using example_one_mouse by (simp add: usb_ok_def boot_machine_def example_env_def example_platform_def mouse_hc_def example_hc_def)
  moreover have "mc_regs boot_machine = spec_regs" "mc_stack boot_machine + 8192 < usize_bound" by (simp_all add: boot_machine_def usize_bound_def)
  ultimately show ?thesis using boot_machine_memory(1) boot_machine_clock boot_machine_bus by (simp add: machine_ok_def)
qed



end
